(* ===== verification/Prelude.thy ===== *)
theory Prelude
  imports "HOL-Library.Word" "HOL-Library.Signed_Division"
begin

unbundle bit_operations_syntax

section \<open>Prelude: machine types, faults, shared helpers of util/common.h\<close>

text \<open>
  This theory holds what every component shares: the integer types of \<open>src/util/common.h\<close>
  as words, the ways in which the program can stop (\<open>Panic\<close>, a failed \<open>assert\<close>, undefined
  behaviour) as values of a sum type, \<open>roundup\<close> and \<open>rounddown\<close>, the unaligned memory
  accessors, and the generic facts about words that the component proofs use.
\<close>

subsection \<open>Types\<close>

type_synonym u8 = "8 word"
type_synonym u16 = "16 word"
type_synonym u32 = "32 word"
type_synonym u64 = "64 word"
type_synonym uptr = "64 word"

text \<open>
  Host memory, byte addressed by host pointers. A guest address \<open>g\<close> is the host address
  \<open>base + g\<close>.
\<close>

type_synonym mem = "uptr \<Rightarrow> u8"

text \<open>
  The program stops abnormally in four ways: \<open>dbt::Panic\<close> prints a message and aborts, a
  failed \<open>assert\<close> aborts (the Makefile does not define \<open>NDEBUG\<close>), some paths run into
  undefined behaviour of C++ (a null dereference, an iterator past the end), and a loop whose
  counter wraps around never ends.
\<close>

datatype fault = Panic string | AssertFail | Undefined | Hang

type_synonym 'a res = "fault + 'a"

primrec rbind :: "'a res \<Rightarrow> ('a \<Rightarrow> 'b res) \<Rightarrow> 'b res" where
  "rbind (Inl e) f = Inl e"
| "rbind (Inr x) f = f x"

lemma rbind_eq_Inr [simp]: "rbind r f = Inr y \<longleftrightarrow> (\<exists>x. r = Inr x \<and> f x = Inr y)"
  by (cases r) auto

lemma rbind_assoc: "rbind (rbind r f) g = rbind r (\<lambda>x. rbind (f x) g)"
  by (cases r) auto

lemma rbind_Inr_right [simp]: "rbind r Inr = r"
  by (cases r) auto

text \<open>A loop over a sequence whose body may fault.\<close>

primrec rfold :: "('a \<Rightarrow> 's \<Rightarrow> 's res) \<Rightarrow> 'a list \<Rightarrow> 's \<Rightarrow> 's res" where
  "rfold f [] s = Inr s"
| "rfold f (x # xs) s = rbind (f x s) (rfold f xs)"

lemma rfold_append: "rfold f (xs @ ys) s = rbind (rfold f xs s) (rfold f ys)"
proof (induction xs arbitrary: s)
  case (Cons x xs)
  then show ?case by (cases "f x s") simp_all
qed simp

lemma rfold_invariant:
  assumes "rfold f xs s = Inr s'" "P s" "\<And>x s s'. x \<in> set xs \<Longrightarrow> P s \<Longrightarrow> f x s = Inr s' \<Longrightarrow> P s'"
  shows "P s'"
  using assms
proof (induction xs arbitrary: s)
  case (Cons x xs)
  then obtain s1 where s1: "f x s = Inr s1" "rfold f xs s1 = Inr s'" by auto
  have "P s1" by (rule Cons.prems(3) [of x s]) (use Cons.prems(2) s1(1) in simp_all)
  then show ?case by (rule Cons.IH [OF s1(2)]) (use Cons.prems(3) in \<open>meson list.set_intros(2)\<close>)
qed simp

lemma rfold_map: "rfold f (map g xs) s = rfold (\<lambda>x. f (g x)) xs s"
proof (induction xs arbitrary: s)
  case (Cons x xs)
  then show ?case by (cases "f (g x) s") simp_all
qed simp

text \<open>Counting loops with an invariant, that do not fault.\<close>

lemma rfold_upt_inv:
  assumes "rfold f [0 ..< n] s = Inr s'" "P 0 s" "\<And>i s s'. i < n \<Longrightarrow> P i s \<Longrightarrow> f i s = Inr s' \<Longrightarrow> P (Suc i) s'"
  shows "P n s'"
  using assms
proof (induction n arbitrary: s')
  case (Suc n)
  then obtain s1 where s1: "rfold f [0 ..< n] s = Inr s1" "f n s1 = Inr s'" by (auto simp: rfold_append)
  have "P n s1" by (rule Suc.IH [OF s1(1) Suc.prems(2)]) (use Suc.prems(3) in auto)
  then show ?case using Suc.prems(3) s1(2) by blast
qed simp

lemma rfold_upt:
  assumes "\<And>i s. i < n \<Longrightarrow> P i s \<Longrightarrow> \<exists>s'. f i s = Inr s' \<and> P (Suc i) s'" and "P 0 s"
  shows "\<exists>s'. rfold f [0 ..< n] s = Inr s' \<and> P n s'"
  using assms(1)
proof (induction n)
  case 0
  then show ?case using assms(2) by simp
next
  case (Suc n)
  from Suc.prems have "\<exists>s'. rfold f [0 ..< n] s = Inr s' \<and> P n s'" by (intro Suc.IH) simp
  then obtain s1 where s1: "rfold f [0 ..< n] s = Inr s1" "P n s1" by blast
  with Suc.prems [of n s1] show ?case by (auto simp: rfold_append)
qed

subsection \<open>Collections of rewrite rules\<close>

named_theorems bf_bits \<open>bit-level meaning of bit field accessors\<close>
named_theorems field_simps32 \<open>values of instruction fields\<close>
named_theorems qir_sem \<open>unfolding of the IR semantics\<close>
named_theorems mem_simps \<open>reading after writing memory\<close>

subsection \<open>Generic facts on words\<close>

lemma word_eq_bits_lt:
  "(\<And>n. n < LENGTH('a) \<Longrightarrow> bit v n \<longleftrightarrow> bit w n) \<Longrightarrow> v = (w :: 'a::len word)"
  by (rule bit_word_eqI) blast

lemma all_lt_8: "(\<forall>n < (8::nat). P n) \<longleftrightarrow> P 0 \<and> P 1 \<and> P 2 \<and> P 3 \<and> P 4 \<and> P 5 \<and> P 6 \<and> P 7"
  by (simp add: All_less_Suc eval_nat_numeral conj_ac)

lemma take_bit_idem_less: "w < 2 ^ n \<Longrightarrow> take_bit n w = (w :: 'a::len word)"
  by (simp add: less_mask_eq take_bit_eq_mask)

lemma bit_less_power2:
  "(w :: 'a::len word) < 2 ^ n \<Longrightarrow> bit w m \<Longrightarrow> m < n"
  by (metis bit_take_bit_iff take_bit_idem_less)

lemma bit_times_2 [bf_bits]:
  "bit (w * 2 :: 'a::len word) n \<longleftrightarrow> 0 < n \<and> n < LENGTH('a) \<and> bit w (n - 1)"
proof -
  have "w * 2 = push_bit 1 w"
    by (simp add: push_bit_eq_mult)
  then show ?thesis
    by (simp only: bit_push_bit_iff) (auto simp: bit_imp_le_length possible_bit_def Suc_le_eq)
qed

subsection \<open>roundup and rounddown\<close>

text \<open>
  \<open>roundup\<close> and \<open>rounddown\<close> of \<open>src/util/common.h\<close> are templates whose arithmetic is done
  in the common type of the two arguments and wraps there. The model is at that common type;
  call sites with mixed widths write the conversions out.
\<close>

definition roundup :: "'c::len word \<Rightarrow> 'c word \<Rightarrow> 'c word" where
  "roundup x y = ((x + (y - 1)) div y) * y"

definition rounddown :: "'c::len word \<Rightarrow> 'c word \<Rightarrow> 'c word" where
  "rounddown x y = x - x mod y"

lemma unat_rounddown: "unat (rounddown x y) = unat x div unat y * unat y"
proof -
  have "x mod y \<le> x"
    by (simp add: word_le_nat_alt unat_mod_distrib)
  then have "unat (x - x mod y) = unat x - unat x mod unat y"
    by (simp add: unat_sub unat_mod_distrib)
  then show ?thesis
    by (simp add: rounddown_def minus_mod_eq_div_mult)
qed

lemma unat_roundup:
  assumes "0 < y" and "unat x + (unat y - 1) < 2 ^ LENGTH('c)"
  shows "unat (roundup x (y :: 'c::len word)) = (unat x + (unat y - 1)) div unat y * unat y"
proof -
  from assms(1) have "unat (y - 1) = unat y - 1"
    by (metis unat_minus_one word_greater_zero_iff)
  with assms(2) have "unat (x + (y - 1)) = unat x + (unat y - 1)"
    by (simp add: unat_add_lem [THEN iffD1])
  then have q: "unat ((x + (y - 1)) div y) = (unat x + (unat y - 1)) div unat y"
    by (simp add: unat_div_distrib)
  have "(unat x + (unat y - 1)) div unat y * unat y \<le> unat x + (unat y - 1)"
    by simp
  with assms(2) have "unat ((x + (y - 1)) div y) * unat y < 2 ^ LENGTH('c)"
    unfolding q by linarith
  then have "unat ((x + (y - 1)) div y * y) = unat ((x + (y - 1)) div y) * unat y"
    by (simp add: unat_mult_lem [THEN iffD1])
  then show ?thesis
    by (simp only: roundup_def q)
qed

subsection \<open>Unaligned accesses\<close>

text \<open>
  \<open>unaligned_load<T>\<close> and \<open>unaligned_store<T>\<close> read and write a packed little-endian value
  (the host is amd64). The signed instances have the same bits as the unsigned ones.
\<close>

definition unaligned_load8 :: "mem \<Rightarrow> uptr \<Rightarrow> u8" where
  "unaligned_load8 m p = m p"

definition unaligned_load16 :: "mem \<Rightarrow> uptr \<Rightarrow> u16" where
  "unaligned_load16 m p = ucast (m p) OR push_bit 8 (ucast (m (p + 1)))"

definition unaligned_load32 :: "mem \<Rightarrow> uptr \<Rightarrow> u32" where
  "unaligned_load32 m p =
     ucast (m p) OR push_bit 8 (ucast (m (p + 1))) OR push_bit 16 (ucast (m (p + 2)))
       OR push_bit 24 (ucast (m (p + 3)))"

definition unaligned_store8 :: "mem \<Rightarrow> uptr \<Rightarrow> u8 \<Rightarrow> mem" where
  "unaligned_store8 m p v = m(p := v)"

definition unaligned_store16 :: "mem \<Rightarrow> uptr \<Rightarrow> u16 \<Rightarrow> mem" where
  "unaligned_store16 m p v = m(p := ucast v, p + 1 := ucast (drop_bit 8 v))"

definition unaligned_store32 :: "mem \<Rightarrow> uptr \<Rightarrow> u32 \<Rightarrow> mem" where
  "unaligned_store32 m p v =
     m(p := ucast v, p + 1 := ucast (drop_bit 8 v), p + 2 := ucast (drop_bit 16 v),
       p + 3 := ucast (drop_bit 24 v))"

lemma ptr_offs_neq [simp]:
  "p + 1 \<noteq> (p :: uptr)" "p + 2 \<noteq> p" "p + 3 \<noteq> p" "p + 2 \<noteq> p + 1" "p + 3 \<noteq> p + 1" "p + 3 \<noteq> p + 2"
  by simp_all

lemma load8_store8 [mem_simps]: "unaligned_load8 (unaligned_store8 m p v) p = v"
  by (simp add: unaligned_load8_def unaligned_store8_def)

lemma load16_store16 [mem_simps]: "unaligned_load16 (unaligned_store16 m p v) p = v"
  by (rule bit_word_eqI)
    (auto simp: unaligned_load16_def unaligned_store16_def bit_simps not_less
      le_add_diff_inverse)

lemma load32_store32 [mem_simps]: "unaligned_load32 (unaligned_store32 m p v) p = v"
proof (rule bit_word_eqI)
  fix n assume "n < LENGTH(32)"
  then consider "n < 8" | "8 \<le> n" "n < 16" | "16 \<le> n" "n < 24" | "24 \<le> n" "n < 32"
    by fastforce
  then show "bit (unaligned_load32 (unaligned_store32 m p v) p) n = bit v n"
    by cases (auto simp: unaligned_load32_def unaligned_store32_def bit_simps)
qed

lemma store_frame [mem_simps]:
  "q \<noteq> p \<Longrightarrow> unaligned_store8 m p v8 q = m q"
  "q \<noteq> p \<Longrightarrow> q \<noteq> p + 1 \<Longrightarrow> unaligned_store16 m p v16 q = m q"
  "q \<noteq> p \<Longrightarrow> q \<noteq> p + 1 \<Longrightarrow> q \<noteq> p + 2 \<Longrightarrow> q \<noteq> p + 3 \<Longrightarrow> unaligned_store32 m p v32 q = m q"
  by (simp_all add: unaligned_store8_def unaligned_store16_def unaligned_store32_def)

end
