(* ===== verification/Bitfield.thy ===== *)
theory Bitfield
  imports Prelude
begin

section \<open>Bit fields: util/bitfield.h\<close>

text \<open>
  The templates \<open>bf_range\<close> and \<open>bf_seq\<close> of \<open>src/util/bitfield.h\<close>. Instruction words and
  packed IR operands are read and written through them only. The container type \<open>C\<close> is the
  word type \<open>'c\<close>, the field type \<open>T\<close> the word type \<open>'t\<close>; the bounds \<open>l\<close> and \<open>h\<close> are the
  template's parameters.
\<close>

subsection \<open>Definitions\<close>

definition bf_size :: "nat \<Rightarrow> nat \<Rightarrow> nat" where
  "bf_size l h = h - l + 1"

definition bf_mask :: "nat \<Rightarrow> nat \<Rightarrow> u64" where
  "bf_mask l h = push_bit l (push_bit (bf_size l h) 1 - 1)"

text \<open>The container is converted to its unsigned or signed variant by the type of the field.\<close>

definition bf_decode_u :: "nat \<Rightarrow> nat \<Rightarrow> 'c::len word \<Rightarrow> 't::len word" where
  "bf_decode_u l h c =
     (let u_msb = LENGTH('c) - 1
      in ucast (drop_bit (u_msb - h + l) (push_bit (u_msb - h) c)))"

definition bf_decode_s :: "nat \<Rightarrow> nat \<Rightarrow> 'c::len word \<Rightarrow> 't::len word" where
  "bf_decode_s l h c =
     (let u_msb = LENGTH('c) - 1
      in scast (signed_drop_bit (u_msb - h + l) (push_bit (u_msb - h) c)))"

definition bf_encode :: "nat \<Rightarrow> nat \<Rightarrow> 'c::len word \<Rightarrow> 't::len word \<Rightarrow> 'c word" where
  "bf_encode l h c t =
     (let u_msb = LENGTH('c) - 1;
          fval = drop_bit (u_msb - h) (push_bit (u_msb - h + l) (ucast t))
      in (c AND NOT (ucast (bf_mask l h))) OR fval)"

text \<open>
  \<open>bf_seq\<close> concatenates ranges, the first one lowest. All its uses have a signed field type:
  the leading ranges are read unsigned, promoted to \<open>int\<close> and combined there; only the last
  range carries the sign.
\<close>

fun bf_seq_decode :: "(nat \<times> nat) list \<Rightarrow> 'c::len word \<Rightarrow> 't::len word" where
  "bf_seq_decode [] c = 0"
| "bf_seq_decode [(l, h)] c = bf_decode_s l h c"
| "bf_seq_decode ((l, h) # p # ps) c =
     (let b = bf_decode_u l h c :: 't word;
          r = bf_seq_decode (p # ps) c :: 't word
      in ucast ((ucast b :: u32) OR push_bit (bf_size l h) (scast r :: u32)))"

subsection \<open>Bit-level meaning\<close>

lemma bit_bf_decode_u [bf_bits]:
  assumes "l \<le> h" "h < LENGTH('c)"
  shows "bit (bf_decode_u l h (c :: 'c::len word) :: 't::len word) n \<longleftrightarrow>
    n < LENGTH('t) \<and> n + l \<le> h \<and> bit c (n + l)"
proof -
  have "LENGTH('c) - 1 - h + l + n < LENGTH('c) \<longleftrightarrow> n + l \<le> h"
    using assms by auto
  moreover have "LENGTH('c) - 1 - h + l + n - (LENGTH('c) - 1 - h) = n + l"
    by simp
  ultimately show ?thesis
    by (auto simp: bf_decode_u_def Let_def bit_simps add.commute)
qed

lemma bit_bf_decode_s [bf_bits]:
  assumes "l \<le> h" "h < LENGTH('c)"
  shows "bit (bf_decode_s l h (c :: 'c::len word) :: 't::len word) n \<longleftrightarrow>
    n < LENGTH('t) \<and> bit c (if n + l \<le> h then n + l else h)"
proof -
  have sgn: "LENGTH('c) - Suc 0 - (LENGTH('c) - Suc h) = h"
    using assms by auto
  have "LENGTH('c) - (LENGTH('c) - Suc h + l) \<le> n \<longleftrightarrow> \<not> n + l \<le> h"
    using assms by auto
  moreover have "LENGTH('c) \<le> Suc h - l \<Longrightarrow> l = 0 \<and> h = LENGTH('c) - 1"
    using assms by auto
  moreover have "LENGTH('c) - Suc 0 \<le> n \<Longrightarrow> n < LENGTH('c) \<Longrightarrow> n = LENGTH('c) - Suc 0"
    by auto
  ultimately show ?thesis
    using assms sgn
    by (cases "l = 0 \<and> h = LENGTH('c) - 1")
      (auto simp: bf_decode_s_def Let_def bit_simps min_def add.commute not_le)
qed

lemma bit_bf_mask:
  assumes "l \<le> h" "h < 63"
  shows "bit (bf_mask l h) n \<longleftrightarrow> l \<le> n \<and> n \<le> h"
proof -
  have "push_bit (bf_size l h) 1 - 1 = (mask (bf_size l h) :: u64)"
    by (simp add: mask_eq_decr_exp push_bit_eq_mult)
  with assms show ?thesis
    by (auto simp: bf_mask_def bit_simps bf_size_def)
qed

lemma bit_bf_encode [bf_bits]:
  assumes "l \<le> h" "h < LENGTH('c)" "LENGTH('c) \<le> 64" "h < 63"
  shows "bit (bf_encode l h (c :: 'c::len word) (t :: 't::len word)) n \<longleftrightarrow>
    (if l \<le> n \<and> n \<le> h then bit t (n - l) else bit c n)"
proof -
  have "n < LENGTH('c) \<Longrightarrow> n < 64" and "bit c n \<Longrightarrow> n < LENGTH('c)"
    using assms by (auto simp: bit_imp_le_length)
  with assms show ?thesis
    by (auto simp: bf_encode_def Let_def bit_simps bit_bf_mask dest: bit_imp_le_length)
qed

lemma bit_bf_seq_decode_Cons [bf_bits]:
  assumes "l \<le> h" "h < LENGTH('c)" "LENGTH('t) \<le> 32"
  shows "bit (bf_seq_decode ((l, h) # p # ps) (c :: 'c::len word) :: 't::len word) n \<longleftrightarrow>
    n < LENGTH('t) \<and>
    (if n < bf_size l h then bit c (n + l)
     else bit (bf_seq_decode (p # ps) c :: 't word) (n - bf_size l h))"
proof -
  have "n < LENGTH('t) \<Longrightarrow> n - bf_size l h < LENGTH('t)"
    by linarith
  with assms show ?thesis
    by (auto simp: Let_def bf_bits bit_simps bf_size_def min_def)
qed

lemma bf_decode_u_eq_take_drop:
  assumes "l \<le> h" "h < LENGTH('c)"
  shows "bf_decode_u l h (c :: 'c::len word) = (ucast (take_bit (bf_size l h) (drop_bit l c)) :: 't::len word)"
  by (rule bit_word_eqI) (use assms in \<open>auto simp: bf_bits bit_simps bf_size_def add.commute\<close>)

lemma bf_decode_u_less:
  assumes "l \<le> h" "h < LENGTH('c)" "bf_size l h < LENGTH('t)"
  shows "bf_decode_u l h (c :: 'c::len word) < (2 ^ bf_size l h :: 't::len word)"
proof -
  have "take_bit (bf_size l h) (bf_decode_u l h c) = (bf_decode_u l h c :: 't word)"
    by (rule bit_word_eqI) (use assms in \<open>auto simp: bf_bits bit_simps bf_size_def\<close>)
  then show ?thesis
    using assms(3) by (metis and_mask_less_size take_bit_eq_mask word_size)
qed

subsection \<open>Round trip and independence\<close>

text \<open>
  A field type is wide enough for its range: \<open>static_assert (type_size >= size)\<close>. Reading a
  field just written gives the low \<open>size\<close> bits of the value.
\<close>

lemma bf_decode_encode_take:
  assumes "l \<le> h" "h < LENGTH('c)" "LENGTH('c) \<le> 64" "h < 63"
  shows "bf_decode_u l h (bf_encode l h (c :: 'c::len word) t) = (take_bit (bf_size l h) t :: 't::len word)"
  by (rule bit_word_eqI)
    (use assms in \<open>auto simp: bf_bits bit_simps bf_size_def\<close>)

lemma bf_decode_encode:
  assumes "l \<le> h" "h < LENGTH('c)" "LENGTH('c) \<le> 64" "h < 63"
    and "LENGTH('t) \<le> bf_size l h \<or> t < 2 ^ bf_size l h"
  shows "bf_decode_u l h (bf_encode l h (c :: 'c::len word) t) = (t :: 't::len word)"
  using assms(5)
  by (auto simp: bf_decode_encode_take [OF assms(1-4)] take_bit_word_eq_self take_bit_idem_less)

lemma bf_decode_encode_other:
  assumes "l \<le> h" "h < LENGTH('c)" "LENGTH('c) \<le> 64" "h < 63" "l' \<le> h'" "h' < LENGTH('c)"
    and "h < l' \<or> h' < l"
  shows "bf_decode_u l' h' (bf_encode l h (c :: 'c::len word) (t :: 's::len word)) =
    (bf_decode_u l' h' c :: 't::len word)"
  by (rule bit_word_eqI) (use assms in \<open>auto simp: bf_bits\<close>)

end
