(* ===== verification/Rv32_Insn.thy ===== *)
theory Rv32_Insn
  imports Bitfield
begin

section \<open>RV32I instruction words: guest/rv32\_insn.h, guest/rv32\_ops.h, guest/rv32\_decode.h\<close>

text \<open>
  The instruction formats with their bit fields and flags, the opcode list, and the decoder.
  Theory \<open>Rv32_Asm\<close> states what the decoder must do against a reference encoder.
\<close>

subsection \<open>Opcodes, formats and flags\<close>

datatype rv_op =
    I_illegal
  | I_lui | I_auipc | I_jal | I_jalr
  | I_beq | I_bne | I_blt | I_bge | I_bltu | I_bgeu
  | I_lb | I_lh | I_lw | I_lbu | I_lhu
  | I_sb | I_sh | I_sw
  | I_addi | I_slti | I_sltiu | I_xori | I_ori | I_andi
  | I_slli | I_srai | I_srli
  | I_sub | I_add | I_sll | I_slt | I_sltu | I_xor | I_sra | I_srl | I_or | I_and
  | I_fence | I_fencei | I_ecall | I_ebreak

datatype rv_format = F_Base | F_R | F_I | F_IS | F_S | F_B | F_U | F_J | F_A

text \<open>\<open>Flags::Types\<close>, a bit set.\<close>

definition Flag_None :: u32 where "Flag_None = 0"
definition Flag_Branch :: u32 where "Flag_Branch = push_bit 1 1"
definition Flag_MayTrap :: u32 where "Flag_MayTrap = push_bit 2 1"
definition Flag_Trap :: u32 where "Flag_Trap = push_bit 3 1"
definition Flag_HasRd :: u32 where "Flag_HasRd = push_bit 4 1"

primrec gen_flags :: "rv_format \<Rightarrow> u32" where
  "gen_flags F_Base = Flag_None"
| "gen_flags F_R = Flag_HasRd"
| "gen_flags F_I = Flag_HasRd"
| "gen_flags F_IS = Flag_HasRd"
| "gen_flags F_S = Flag_None"
| "gen_flags F_B = Flag_None"
| "gen_flags F_U = Flag_HasRd"
| "gen_flags F_J = Flag_HasRd"
| "gen_flags F_A = Flag_HasRd OR Flag_MayTrap"

text \<open>\<open>RV32_OPCODE_LIST\<close>: the format and the explicit flags of each operation.\<close>

primrec op_format :: "rv_op \<Rightarrow> rv_format" where
  "op_format I_illegal = F_Base"
| "op_format I_lui = F_U" | "op_format I_auipc = F_U"
| "op_format I_jal = F_J" | "op_format I_jalr = F_I"
| "op_format I_beq = F_B" | "op_format I_bne = F_B" | "op_format I_blt = F_B"
| "op_format I_bge = F_B" | "op_format I_bltu = F_B" | "op_format I_bgeu = F_B"
| "op_format I_lb = F_I" | "op_format I_lh = F_I" | "op_format I_lw = F_I"
| "op_format I_lbu = F_I" | "op_format I_lhu = F_I"
| "op_format I_sb = F_S" | "op_format I_sh = F_S" | "op_format I_sw = F_S"
| "op_format I_addi = F_I" | "op_format I_slti = F_I" | "op_format I_sltiu = F_I"
| "op_format I_xori = F_I" | "op_format I_ori = F_I" | "op_format I_andi = F_I"
| "op_format I_slli = F_IS" | "op_format I_srai = F_IS" | "op_format I_srli = F_IS"
| "op_format I_sub = F_R" | "op_format I_add = F_R" | "op_format I_sll = F_R"
| "op_format I_slt = F_R" | "op_format I_sltu = F_R" | "op_format I_xor = F_R"
| "op_format I_sra = F_R" | "op_format I_srl = F_R" | "op_format I_or = F_R"
| "op_format I_and = F_R"
| "op_format I_fence = F_Base" | "op_format I_fencei = F_Base"
| "op_format I_ecall = F_Base" | "op_format I_ebreak = F_Base"

definition op_explicit_flags :: "rv_op \<Rightarrow> u32" where
  "op_explicit_flags op =
     (case op of
       I_illegal \<Rightarrow> Flag_Trap | I_jal \<Rightarrow> Flag_Branch
       | I_jalr \<Rightarrow> Flag_Branch | I_beq \<Rightarrow> Flag_Branch
       | I_bne \<Rightarrow> Flag_Branch | I_blt \<Rightarrow> Flag_Branch
       | I_bge \<Rightarrow> Flag_Branch | I_bltu \<Rightarrow> Flag_Branch
       | I_bgeu \<Rightarrow> Flag_Branch | I_lb \<Rightarrow> Flag_MayTrap
       | I_lh \<Rightarrow> Flag_MayTrap | I_lw \<Rightarrow> Flag_MayTrap
       | I_lbu \<Rightarrow> Flag_MayTrap | I_lhu \<Rightarrow> Flag_MayTrap
       | I_sb \<Rightarrow> Flag_MayTrap | I_sh \<Rightarrow> Flag_MayTrap
       | I_sw \<Rightarrow> Flag_MayTrap | I_ecall \<Rightarrow> Flag_Trap
       | I_ebreak \<Rightarrow> Flag_Trap | _ \<Rightarrow> Flag_None)"

definition insn_flags :: "rv_op \<Rightarrow> u32" where
  "insn_flags op = op_explicit_flags op OR gen_flags (op_format op)"

definition has_flag :: "rv_op \<Rightarrow> u32 \<Rightarrow> bool" where
  "has_flag op f \<longleftrightarrow> insn_flags op AND f \<noteq> 0"

subsection \<open>Fields\<close>

definition insn_opcode :: "u32 \<Rightarrow> u8" where "insn_opcode raw = bf_decode_u 0 6 raw"
definition insn_rd :: "u32 \<Rightarrow> u8" where "insn_rd raw = bf_decode_u 7 11 raw"
definition insn_rs1 :: "u32 \<Rightarrow> u8" where "insn_rs1 raw = bf_decode_u 15 19 raw"
definition insn_rs2 :: "u32 \<Rightarrow> u8" where "insn_rs2 raw = bf_decode_u 20 24 raw"
definition insn_funct3 :: "u32 \<Rightarrow> u8" where "insn_funct3 raw = bf_decode_u 12 14 raw"
definition insn_funct7 :: "u32 \<Rightarrow> u8" where "insn_funct7 raw = bf_decode_u 25 31 raw"
definition insn_funct12 :: "u32 \<Rightarrow> u16" where "insn_funct12 raw = bf_decode_u 20 31 raw"

text \<open>
  Immediates. \<open>I\<close> and \<open>S\<close> return \<open>i16\<close>; \<open>B\<close> and \<open>J\<close> shift the promoted value left by one
  (\<open>INSN_FIELD_SC\<close>), \<open>U\<close> by twelve.
\<close>

definition imm_I :: "u32 \<Rightarrow> u16" where
  "imm_I raw = bf_seq_decode [(20, 30), (31, 31)] raw"

definition imm_IS :: "u32 \<Rightarrow> u8" where
  "imm_IS raw = bf_decode_u 20 24 raw"

definition imm_S :: "u32 \<Rightarrow> u16" where
  "imm_S raw = bf_seq_decode [(7, 11), (25, 30), (31, 31)] raw"

definition imm_B :: "u32 \<Rightarrow> u32" where
  "imm_B raw =
     push_bit 1 (scast (bf_seq_decode [(8, 11), (25, 30), (7, 7), (31, 31)] raw :: u16))"

definition imm_U :: "u32 \<Rightarrow> u32" where
  "imm_U raw = push_bit 12 (bf_decode_u 12 31 raw)"

definition imm_J :: "u32 \<Rightarrow> u32" where
  "imm_J raw = push_bit 1 (bf_seq_decode [(21, 30), (20, 20), (12, 19), (31, 31)] raw)"

subsection \<open>The decoder\<close>

text \<open>\<open>Decoder::Decode\<close>: the nested switches, in their order.\<close>

definition decode_branch :: "u8 \<Rightarrow> rv_op" where
  "decode_branch f3 =
     (if f3 = 0b000 then I_beq else if f3 = 0b001 then I_bne else if f3 = 0b100 then I_blt
      else if f3 = 0b101 then I_bge else if f3 = 0b110 then I_bltu
      else if f3 = 0b111 then I_bgeu else I_illegal)"

definition decode_load :: "u8 \<Rightarrow> rv_op" where
  "decode_load f3 =
     (if f3 = 0b000 then I_lb else if f3 = 0b001 then I_lh else if f3 = 0b010 then I_lw
      else if f3 = 0b100 then I_lbu else if f3 = 0b101 then I_lhu else I_illegal)"

definition decode_store :: "u8 \<Rightarrow> rv_op" where
  "decode_store f3 =
     (if f3 = 0b000 then I_sb else if f3 = 0b001 then I_sh else if f3 = 0b010 then I_sw
      else I_illegal)"

definition decode_arith_i :: "u8 \<Rightarrow> u8 \<Rightarrow> rv_op" where
  "decode_arith_i f3 f7 =
     (if f3 = 0b000 then I_addi else if f3 = 0b010 then I_slti else if f3 = 0b011 then I_sltiu
      else if f3 = 0b100 then I_xori else if f3 = 0b110 then I_ori else if f3 = 0b111 then I_andi
      else if f3 = 0b001 then I_slli
      else if f3 = 0b101 then
        (if f7 = 0b0000000 then I_srli else if f7 = 0b0100000 then I_srai else I_illegal)
      else I_illegal)"

definition decode_arith_r :: "u8 \<Rightarrow> u8 \<Rightarrow> rv_op" where
  "decode_arith_r f3 f7 =
     (if f3 = 0b000 then
        (if f7 = 0b0000000 then I_add else if f7 = 0b0100000 then I_sub else I_illegal)
      else if f3 = 0b001 then I_sll else if f3 = 0b010 then I_slt else if f3 = 0b011 then I_sltu
      else if f3 = 0b100 then I_xor
      else if f3 = 0b101 then
        (if f7 = 0b0000000 then I_srl else if f7 = 0b0100000 then I_sra else I_illegal)
      else if f3 = 0b110 then I_or else if f3 = 0b111 then I_and else I_illegal)"

definition decode_system :: "u32 \<Rightarrow> rv_op" where
  "decode_system raw =
     (if insn_funct3 raw OR insn_rd raw OR insn_rs1 raw = 0 then
        (if insn_funct12 raw = 0 then I_ecall else if insn_funct12 raw = 1 then I_ebreak
         else I_illegal)
      else I_illegal)"

definition Decode :: "u32 \<Rightarrow> rv_op" where
  "Decode raw =
     (let opc = insn_opcode raw; f3 = insn_funct3 raw; f7 = insn_funct7 raw in
      if opc = 0b0110111 then I_lui
      else if opc = 0b0010111 then I_auipc
      else if opc = 0b1101111 then I_jal
      else if opc = 0b1100111 then (if f3 = 0b000 then I_jalr else I_illegal)
      else if opc = 0b1100011 then decode_branch f3
      else if opc = 0b0000011 then decode_load f3
      else if opc = 0b0100011 then decode_store f3
      else if opc = 0b0010011 then decode_arith_i f3 f7
      else if opc = 0b0110011 then decode_arith_r f3 f7
      else if opc = 0b0001111 then
        (if f3 = 0b000 then I_fence else if f3 = 0b001 then I_fencei else I_illegal)
      else if opc = 0b1110011 then decode_system raw
      else I_illegal)"

lemmas Decode_defs =
  Decode_def decode_branch_def decode_load_def decode_store_def decode_arith_i_def
  decode_arith_r_def decode_system_def

subsection \<open>Field values\<close>

lemmas insn_field_defs =
  insn_opcode_def insn_rd_def insn_rs1_def insn_rs2_def insn_funct3_def insn_funct7_def
  insn_funct12_def imm_IS_def

lemma bit_insn_fields [bf_bits]:
  "bit (insn_opcode raw) n \<longleftrightarrow> n < 7 \<and> bit raw n"
  "bit (insn_rd raw) n \<longleftrightarrow> n < 5 \<and> bit raw (n + 7)"
  "bit (insn_rs1 raw) n \<longleftrightarrow> n < 5 \<and> bit raw (n + 15)"
  "bit (insn_rs2 raw) n \<longleftrightarrow> n < 5 \<and> bit raw (n + 20)"
  "bit (insn_funct3 raw) n \<longleftrightarrow> n < 3 \<and> bit raw (n + 12)"
  "bit (insn_funct7 raw) n \<longleftrightarrow> n < 7 \<and> bit raw (n + 25)"
  "bit (insn_funct12 raw) n \<longleftrightarrow> n < 12 \<and> bit raw (n + 20)"
  "bit (imm_IS raw) n \<longleftrightarrow> n < 5 \<and> bit raw (n + 20)"
  by (auto simp: insn_field_defs bf_bits)

lemma reg_fields_less:
  "insn_rd raw < 32" "insn_rs1 raw < 32" "insn_rs2 raw < 32" "imm_IS raw < 32"
  using bf_decode_u_less [of 7 11, where 'c = 32 and 't = 8]
    bf_decode_u_less [of 15 19, where 'c = 32 and 't = 8]
    bf_decode_u_less [of 20 24, where 'c = 32 and 't = 8]
  by (simp_all add: insn_field_defs bf_size_def)

lemma bit_imm_I [bf_bits]:
  "bit (imm_I raw) n \<longleftrightarrow> n < 16 \<and> bit raw (if n < 11 then n + 20 else 31)"
  by (auto simp: imm_I_def bf_bits bit_simps bf_size_def add.commute simp del: bf_seq_decode.simps(3) split: if_splits)

lemma bit_imm_S [bf_bits]:
  "bit (imm_S raw) n \<longleftrightarrow> n < 16 \<and>
    bit raw (if n < 5 then n + 7 else if n < 11 then n + 20 else 31)"
  by (auto simp: imm_S_def bf_bits bit_simps bf_size_def add.commute simp del: bf_seq_decode.simps(3) split: if_splits)

lemma bit_imm_U [bf_bits]: "bit (imm_U raw) n \<longleftrightarrow> 12 \<le> n \<and> bit raw n"
  by (auto simp: imm_U_def bf_bits bit_simps dest: bit_imp_le_length)

lemma bit_imm_B [bf_bits]:
  "bit (imm_B raw) n \<longleftrightarrow> 0 < n \<and> n < 32 \<and>
    bit raw (if n < 5 then n + 7 else if n < 11 then n + 20 else if n = 11 then 7 else 31)"
  by (auto simp: imm_B_def bf_bits bit_simps bf_size_def add.commute simp del: bf_seq_decode.simps(3) split: if_splits)

lemma bit_imm_J [bf_bits]:
  "bit (imm_J raw) n \<longleftrightarrow> 0 < n \<and> n < 32 \<and>
    bit raw (if n < 11 then n + 20 else if n = 11 then 20 else if n < 20 then n else 31)"
  by (auto simp: imm_J_def bf_bits bit_simps bf_size_def add.commute simp del: bf_seq_decode.simps(3) split: if_splits)

end
