(* ===== verification/Rv32_Asm.thy ===== *)
theory Rv32_Asm
  imports Rv32_Insn
begin

section \<open>Decoder correctness against the RISC-V encodings\<close>

text \<open>
  A reference encoder written from the RISC-V unprivileged manual is the specification of
  \<open>Decoder::Decode\<close> and of the field accessors: decoding an assembled instruction gives
  back the operation and its operands.
\<close>

subsection \<open>The reference encoder\<close>

text \<open>
  The encodings of the RISC-V unprivileged manual, chapter RV32I, with register numbers,
  function codes and immediates at their widths. Branch and jump immediates are in units of
  two bytes.
\<close>

definition enc_R :: "7 word \<Rightarrow> 3 word \<Rightarrow> 7 word \<Rightarrow> 5 word \<Rightarrow> 5 word \<Rightarrow> 5 word \<Rightarrow> u32" where
  "enc_R opc f3 f7 rd rs1 rs2 =
     ucast opc OR push_bit 7 (ucast rd) OR push_bit 12 (ucast f3) OR push_bit 15 (ucast rs1)
       OR push_bit 20 (ucast rs2) OR push_bit 25 (ucast f7)"

definition enc_I :: "7 word \<Rightarrow> 3 word \<Rightarrow> 5 word \<Rightarrow> 5 word \<Rightarrow> 12 word \<Rightarrow> u32" where
  "enc_I opc f3 rd rs1 imm =
     ucast opc OR push_bit 7 (ucast rd) OR push_bit 12 (ucast f3) OR push_bit 15 (ucast rs1)
       OR push_bit 20 (ucast imm)"

definition enc_S :: "7 word \<Rightarrow> 3 word \<Rightarrow> 5 word \<Rightarrow> 5 word \<Rightarrow> 12 word \<Rightarrow> u32" where
  "enc_S opc f3 rs1 rs2 imm =
     ucast opc OR push_bit 7 (ucast (take_bit 5 imm)) OR push_bit 12 (ucast f3)
       OR push_bit 15 (ucast rs1) OR push_bit 20 (ucast rs2)
       OR push_bit 25 (ucast (drop_bit 5 imm))"

definition enc_B :: "7 word \<Rightarrow> 3 word \<Rightarrow> 5 word \<Rightarrow> 5 word \<Rightarrow> 12 word \<Rightarrow> u32" where
  "enc_B opc f3 rs1 rs2 imm =
     ucast opc OR push_bit 7 (ucast (take_bit 1 (drop_bit 10 imm)))
       OR push_bit 8 (ucast (take_bit 4 imm)) OR push_bit 12 (ucast f3)
       OR push_bit 15 (ucast rs1) OR push_bit 20 (ucast rs2)
       OR push_bit 25 (ucast (take_bit 6 (drop_bit 4 imm)))
       OR push_bit 31 (ucast (drop_bit 11 imm))"

definition enc_U :: "7 word \<Rightarrow> 5 word \<Rightarrow> 20 word \<Rightarrow> u32" where
  "enc_U opc rd imm = ucast opc OR push_bit 7 (ucast rd) OR push_bit 12 (ucast imm)"

definition enc_J :: "7 word \<Rightarrow> 5 word \<Rightarrow> 20 word \<Rightarrow> u32" where
  "enc_J opc rd imm =
     ucast opc OR push_bit 7 (ucast rd) OR push_bit 12 (ucast (take_bit 8 (drop_bit 11 imm)))
       OR push_bit 20 (ucast (take_bit 1 (drop_bit 10 imm)))
       OR push_bit 21 (ucast (take_bit 10 imm)) OR push_bit 31 (ucast (drop_bit 19 imm))"

datatype rv_asm =
    A_U rv_op "5 word" "20 word"
  | A_J "5 word" "20 word"
  | A_I rv_op "5 word" "5 word" "12 word"
  | A_Sh rv_op "5 word" "5 word" "5 word"
  | A_S rv_op "5 word" "5 word" "12 word"
  | A_B rv_op "5 word" "5 word" "12 word"
  | A_R rv_op "5 word" "5 word" "5 word"
  | A_Sys rv_op

text \<open>Function codes of the manual's instruction listing.\<close>

definition spec_funct3 :: "rv_op \<Rightarrow> 3 word" where
  "spec_funct3 op =
     (case op of
       I_bne \<Rightarrow> 1 | I_blt \<Rightarrow> 4 | I_bge \<Rightarrow> 5
       | I_bltu \<Rightarrow> 6 | I_bgeu \<Rightarrow> 7 | I_lh \<Rightarrow> 1
       | I_lw \<Rightarrow> 2 | I_lbu \<Rightarrow> 4 | I_lhu \<Rightarrow> 5
       | I_sh \<Rightarrow> 1 | I_sw \<Rightarrow> 2 | I_slti \<Rightarrow> 2
       | I_sltiu \<Rightarrow> 3 | I_xori \<Rightarrow> 4 | I_ori \<Rightarrow> 6
       | I_andi \<Rightarrow> 7 | I_slli \<Rightarrow> 1 | I_srli \<Rightarrow> 5
       | I_srai \<Rightarrow> 5 | I_sll \<Rightarrow> 1 | I_slt \<Rightarrow> 2
       | I_sltu \<Rightarrow> 3 | I_xor \<Rightarrow> 4 | I_srl \<Rightarrow> 5
       | I_sra \<Rightarrow> 5 | I_or \<Rightarrow> 6 | I_and \<Rightarrow> 7
       | I_fencei \<Rightarrow> 1 | _ \<Rightarrow> 0)"

definition spec_funct7 :: "rv_op \<Rightarrow> 7 word" where
  "spec_funct7 op = (if op \<in> {I_sub, I_sra, I_srai} then 32 else 0)"

definition spec_opcode_I :: "rv_op \<Rightarrow> 7 word" where
  "spec_opcode_I op =
     (if op = I_jalr then 0b1100111
      else if op \<in> {I_lb, I_lh, I_lw, I_lbu, I_lhu} then 0b0000011 else 0b0010011)"

definition spec_opcode_Sys :: "rv_op \<Rightarrow> 7 word" where
  "spec_opcode_Sys op = (if op \<in> {I_fence, I_fencei} then 0b0001111 else 0b1110011)"

primrec assemble :: "rv_asm \<Rightarrow> u32" where
  "assemble (A_U op rd imm) = enc_U (if op = I_lui then 0b0110111 else 0b0010111) rd imm"
| "assemble (A_J rd imm) = enc_J 0b1101111 rd imm"
| "assemble (A_I op rd rs1 imm) = enc_I (spec_opcode_I op) (spec_funct3 op) rd rs1 imm"
| "assemble (A_Sh op rd rs1 sh) =
     enc_R 0b0010011 (spec_funct3 op) (spec_funct7 op) rd rs1 sh"
| "assemble (A_S op rs1 rs2 imm) = enc_S 0b0100011 (spec_funct3 op) rs1 rs2 imm"
| "assemble (A_B op rs1 rs2 imm) = enc_B 0b1100011 (spec_funct3 op) rs1 rs2 imm"
| "assemble (A_R op rd rs1 rs2) = enc_R 0b0110011 (spec_funct3 op) (spec_funct7 op) rd rs1 rs2"
| "assemble (A_Sys op) =
     enc_I (spec_opcode_Sys op) (spec_funct3 op) 0 0 (if op = I_ebreak then 1 else 0)"

primrec asm_op :: "rv_asm \<Rightarrow> rv_op" where
  "asm_op (A_U op _ _) = op" | "asm_op (A_J _ _) = I_jal" | "asm_op (A_I op _ _ _) = op"
| "asm_op (A_Sh op _ _ _) = op" | "asm_op (A_S op _ _ _) = op" | "asm_op (A_B op _ _ _) = op"
| "asm_op (A_R op _ _ _) = op" | "asm_op (A_Sys op) = op"

text \<open>The operation fits the format it is assembled with.\<close>

primrec asm_ok :: "rv_asm \<Rightarrow> bool" where
  "asm_ok (A_U op _ _) \<longleftrightarrow> op_format op = F_U"
| "asm_ok (A_J _ _) \<longleftrightarrow> True"
| "asm_ok (A_I op _ _ _) \<longleftrightarrow> op_format op = F_I"
| "asm_ok (A_Sh op _ _ _) \<longleftrightarrow> op_format op = F_IS"
| "asm_ok (A_S op _ _ _) \<longleftrightarrow> op_format op = F_S"
| "asm_ok (A_B op _ _ _) \<longleftrightarrow> op_format op = F_B"
| "asm_ok (A_R op _ _ _) \<longleftrightarrow> op_format op = F_R"
| "asm_ok (A_Sys op) \<longleftrightarrow> op_format op = F_Base \<and> op \<noteq> I_illegal"

text \<open>What the accessors of the format must return.\<close>

primrec asm_fields_ok :: "rv_asm \<Rightarrow> u32 \<Rightarrow> bool" where
  "asm_fields_ok (A_U _ rd imm) raw \<longleftrightarrow>
     insn_rd raw = ucast rd \<and> imm_U raw = push_bit 12 (ucast imm)"
| "asm_fields_ok (A_J rd imm) raw \<longleftrightarrow>
     insn_rd raw = ucast rd \<and> imm_J raw = push_bit 1 (scast imm)"
| "asm_fields_ok (A_I _ rd rs1 imm) raw \<longleftrightarrow>
     insn_rd raw = ucast rd \<and> insn_rs1 raw = ucast rs1 \<and> imm_I raw = scast imm"
| "asm_fields_ok (A_Sh _ rd rs1 sh) raw \<longleftrightarrow>
     insn_rd raw = ucast rd \<and> insn_rs1 raw = ucast rs1 \<and> imm_IS raw = ucast sh"
| "asm_fields_ok (A_S _ rs1 rs2 imm) raw \<longleftrightarrow>
     insn_rs1 raw = ucast rs1 \<and> insn_rs2 raw = ucast rs2 \<and> imm_S raw = scast imm"
| "asm_fields_ok (A_B _ rs1 rs2 imm) raw \<longleftrightarrow>
     insn_rs1 raw = ucast rs1 \<and> insn_rs2 raw = ucast rs2 \<and> imm_B raw = push_bit 1 (scast imm)"
| "asm_fields_ok (A_R _ rd rs1 rs2) raw \<longleftrightarrow>
     insn_rd raw = ucast rd \<and> insn_rs1 raw = ucast rs1 \<and> insn_rs2 raw = ucast rs2"
| "asm_fields_ok (A_Sys _) raw \<longleftrightarrow> True"

subsection \<open>Fields of encoded instructions\<close>

lemma fields_enc_R [field_simps32]:
  "insn_opcode (enc_R opc f3 f7 rd rs1 rs2) = ucast opc"
  "insn_funct3 (enc_R opc f3 f7 rd rs1 rs2) = ucast f3"
  "insn_funct7 (enc_R opc f3 f7 rd rs1 rs2) = ucast f7"
  "insn_rd (enc_R opc f3 f7 rd rs1 rs2) = ucast rd"
  "insn_rs1 (enc_R opc f3 f7 rd rs1 rs2) = ucast rs1"
  "insn_rs2 (enc_R opc f3 f7 rd rs1 rs2) = ucast rs2"
  "imm_IS (enc_R opc f3 f7 rd rs1 rs2) = ucast rs2"
  by (rule bit_word_eqI, auto simp: enc_R_def bf_bits bit_simps dest: bit_imp_le_length)+

lemma fields_enc_I [field_simps32]:
  "insn_opcode (enc_I opc f3 rd rs1 imm) = ucast opc"
  "insn_funct3 (enc_I opc f3 rd rs1 imm) = ucast f3"
  "insn_funct12 (enc_I opc f3 rd rs1 imm) = ucast imm"
  "insn_rd (enc_I opc f3 rd rs1 imm) = ucast rd"
  "insn_rs1 (enc_I opc f3 rd rs1 imm) = ucast rs1"
  "imm_I (enc_I opc f3 rd rs1 imm) = scast imm"
  by (rule bit_word_eqI, auto simp: enc_I_def bf_bits bit_simps min_def dest: bit_imp_le_length)+

lemma fields_enc_S [field_simps32]:
  "insn_opcode (enc_S opc f3 rs1 rs2 imm) = ucast opc"
  "insn_funct3 (enc_S opc f3 rs1 rs2 imm) = ucast f3"
  "insn_rs1 (enc_S opc f3 rs1 rs2 imm) = ucast rs1"
  "insn_rs2 (enc_S opc f3 rs1 rs2 imm) = ucast rs2"
  "imm_S (enc_S opc f3 rs1 rs2 imm) = scast imm"
  by (rule bit_word_eqI, auto simp: enc_S_def bf_bits bit_simps min_def dest: bit_imp_le_length)+

lemma fields_enc_B [field_simps32]:
  "insn_opcode (enc_B opc f3 rs1 rs2 imm) = ucast opc"
  "insn_funct3 (enc_B opc f3 rs1 rs2 imm) = ucast f3"
  "insn_rs1 (enc_B opc f3 rs1 rs2 imm) = ucast rs1"
  "insn_rs2 (enc_B opc f3 rs1 rs2 imm) = ucast rs2"
  by (rule bit_word_eqI, auto simp: enc_B_def bf_bits bit_simps dest: bit_imp_le_length)+

lemma fields_enc_U [field_simps32]:
  "insn_opcode (enc_U opc rd imm) = ucast opc"
  "insn_rd (enc_U opc rd imm) = ucast rd"
  "imm_U (enc_U opc rd imm) = push_bit 12 (ucast imm)"
  by (rule bit_word_eqI, auto simp: enc_U_def bf_bits bit_simps dest: bit_imp_le_length)+

lemma fields_enc_J [field_simps32]:
  "insn_opcode (enc_J opc rd imm) = ucast opc"
  "insn_rd (enc_J opc rd imm) = ucast rd"
  by (rule bit_word_eqI, auto simp: enc_J_def bf_bits bit_simps dest: bit_imp_le_length)+

lemma imm_B_enc_B [field_simps32]: "imm_B (enc_B opc f3 rs1 rs2 imm) = push_bit 1 (scast imm)"
proof (rule bit_word_eqI)
  fix n assume "n < LENGTH(32)"
  then consider "n = 0" | "0 < n" "n < 5" | "5 \<le> n" "n < 11" | "n = 11" | "12 \<le> n" "n < 32"
    by fastforce
  then show "bit (imm_B (enc_B opc f3 rs1 rs2 imm)) n = bit (push_bit 1 (scast imm) :: u32) n"
    by cases (auto simp: enc_B_def bf_bits bit_simps min_def even_drop_bit_iff_not_bit
        dest: bit_imp_le_length)
qed

lemma imm_J_enc_J [field_simps32]: "imm_J (enc_J opc rd imm) = push_bit 1 (scast imm)"
proof (rule bit_word_eqI)
  fix n assume "n < LENGTH(32)"
  then consider "n = 0" | "0 < n" "n < 11" | "n = 11" | "12 \<le> n" "n < 20" | "20 \<le> n" "n < 32"
    by fastforce
  then show "bit (imm_J (enc_J opc rd imm)) n = bit (push_bit 1 (scast imm) :: u32) n"
    by cases (auto simp: enc_J_def bf_bits bit_simps min_def even_drop_bit_iff_not_bit
        dest: bit_imp_le_length)
qed

subsection \<open>Decoding what was assembled\<close>

lemma Decode_assemble: "asm_ok a \<Longrightarrow> Decode (assemble a) = asm_op a"
proof (cases a)
  case (A_U op rd imm)
  moreover assume "asm_ok a"
  ultimately show ?thesis
    by (cases op) (simp_all add: Decode_def field_simps32)
next
  case (A_J rd imm)
  then show ?thesis
    by (simp add: Decode_def field_simps32)
next
  case (A_I op rd rs1 imm)
  moreover assume "asm_ok a"
  ultimately show ?thesis
    by (cases op)
      (simp_all add: Decode_defs spec_opcode_I_def spec_funct3_def field_simps32)
next
  case (A_Sh op rd rs1 sh)
  moreover assume "asm_ok a"
  ultimately show ?thesis
    by (cases op) (simp_all add: Decode_defs spec_funct3_def spec_funct7_def field_simps32)
next
  case (A_S op rs1 rs2 imm)
  moreover assume "asm_ok a"
  ultimately show ?thesis
    by (cases op) (simp_all add: Decode_defs spec_funct3_def field_simps32)
next
  case (A_B op rs1 rs2 imm)
  moreover assume "asm_ok a"
  ultimately show ?thesis
    by (cases op) (simp_all add: Decode_defs spec_funct3_def field_simps32)
next
  case (A_R op rd rs1 rs2)
  moreover assume "asm_ok a"
  ultimately show ?thesis
    by (cases op) (simp_all add: Decode_defs spec_funct3_def spec_funct7_def field_simps32)
next
  case (A_Sys op)
  moreover assume "asm_ok a"
  ultimately show ?thesis
    by (cases op) (simp_all add: Decode_defs spec_opcode_Sys_def spec_funct3_def field_simps32)
qed

lemma asm_fields_assemble: "asm_fields_ok a (assemble a)"
  by (cases a) (simp_all add: field_simps32)

text \<open>
  C11. Every RV32I instruction, encoded as the RISC-V manual says, is decoded to its own
  operation, and the field accessors of its format return its register numbers and its
  (sign-extended, scaled) immediate.
\<close>

theorem decode_roundtrip:
  "asm_ok a \<Longrightarrow> Decode (assemble a) = asm_op a \<and> asm_fields_ok a (assemble a)"
  by (simp add: Decode_assemble asm_fields_assemble)

theorem decode_roundtrip_witness:
  "asm_ok (A_B I_bltu 5 31 (-2)) \<and> Decode (assemble (A_B I_bltu 5 31 (-2))) = I_bltu \<and>
   asm_fields_ok (A_B I_bltu 5 31 (-2)) (assemble (A_B I_bltu 5 31 (-2)))"
  using decode_roundtrip [of "A_B I_bltu 5 31 (-2)"] by simp

end
