(* ===== verification/Qir.thy ===== *)
theory Qir
  imports Bitfield
begin

section \<open>The intermediate representation: ir/qir.h, ir/qir\_ops.h, ir/qir.cpp, runtime\_stubs.h\<close>

text \<open>
  Operands, instructions, condition codes, blocks, virtual registers and regions of the IR.

  An operand is one machine word in the code (\<open>struct VOperand\<close>); the first part models its
  packing bit for bit. The rest of the development uses the datatype \<open>voperand\<close>, and the
  theorem \<open>voperand_pack_roundtrip\<close> justifies it: building an operand and reading it back
  through the accessors gives what was put in. Instructions are a datatype with one
  constructor per instruction class; the intrusive list of a block is the list of its
  instructions, and a block pointer is the block's number (\<open>Block::GetId\<close>), since a region
  appends every new block with the next number. Instruction numbers (\<open>Inst::GetId\<close>) are not
  kept: nothing reads them.
\<close>

subsection \<open>Enumerations\<close>

datatype vtype = T_UNDEF | T_I8 | T_I16 | T_I32

datatype vsign = SG_U | SG_S

type_synonym regn = u16

definition VTypeToSize :: "vtype \<Rightarrow> u8 res" where
  "VTypeToSize t =
     (case t of T_I8 \<Rightarrow> Inr 1 | T_I16 \<Rightarrow> Inr 2 | T_I32 \<Rightarrow> Inr 4 | T_UNDEF \<Rightarrow> Inl AssertFail)"

datatype stub_id =
    Id_escape_link | Id_escape_brind | Id_link_branch_jit | Id_brind | Id_raise
  | Id_rv32_fence | Id_rv32_fencei | Id_rv32_ecall | Id_rv32_ebreak

datatype binop = B_add | B_sub | B_and | B_or | B_xor | B_sra | B_srl | B_sll

datatype condcode = CC_EQ | CC_NE | CC_LE | CC_LT | CC_GE | CC_GT | CC_LEU | CC_LTU | CC_GEU | CC_GTU

primrec InverseCC :: "condcode \<Rightarrow> condcode" where
  "InverseCC CC_EQ = CC_NE" | "InverseCC CC_NE = CC_EQ"
| "InverseCC CC_LE = CC_GT" | "InverseCC CC_LT = CC_GE"
| "InverseCC CC_GE = CC_LT" | "InverseCC CC_GT = CC_LE"
| "InverseCC CC_LEU = CC_GTU" | "InverseCC CC_LTU = CC_GEU"
| "InverseCC CC_GEU = CC_LTU" | "InverseCC CC_GTU = CC_LEU"

primrec SwapCC :: "condcode \<Rightarrow> condcode" where
  "SwapCC CC_EQ = CC_EQ" | "SwapCC CC_NE = CC_NE"
| "SwapCC CC_LE = CC_GE" | "SwapCC CC_LT = CC_GT"
| "SwapCC CC_GE = CC_LE" | "SwapCC CC_GT = CC_LT"
| "SwapCC CC_LEU = CC_GEU" | "SwapCC CC_LTU = CC_GTU"
| "SwapCC CC_GEU = CC_LEU" | "SwapCC CC_GTU = CC_LTU"

subsection \<open>Packed operands\<close>

fun bit_width :: "nat \<Rightarrow> nat" where
  "bit_width n = (if n = 0 then 0 else Suc (bit_width (n div 2)))"

declare bit_width.simps [simp del]

definition enum_bits :: "nat \<Rightarrow> nat" where
  "enum_bits e = bit_width (e - 1)"

definition bf_first :: "nat \<Rightarrow> nat \<times> nat" where
  "bf_first sz = (0, sz - 1)"

definition bf_next :: "nat \<times> nat \<Rightarrow> nat \<Rightarrow> nat \<times> nat" where
  "bf_next f sz = (snd f + 1, snd f + sz)"

definition f_kind :: "nat \<times> nat" where "f_kind = bf_first (enum_bits 4)"
definition f_type :: "nat \<times> nat" where "f_type = bf_next f_kind (enum_bits 4)"
definition f_is_virtual :: "nat \<times> nat" where "f_is_virtual = bf_next f_type 1"
definition f_reg :: "nat \<times> nat" where "f_reg = bf_next f_is_virtual 16"
definition f_const :: "nat \<times> nat" where "f_const = bf_next f_is_virtual 32"
definition f_slot_offs :: "nat \<times> nat" where "f_slot_offs = bf_next f_is_virtual 16"
definition f_slot_is_global :: "nat \<times> nat" where "f_slot_is_global = bf_next f_slot_offs 1"

definition fenc :: "nat \<times> nat \<Rightarrow> uptr \<Rightarrow> 't::len word \<Rightarrow> uptr" where
  "fenc f v t = bf_encode (fst f) (snd f) v t"

definition fdec :: "nat \<times> nat \<Rightarrow> uptr \<Rightarrow> 't::len word" where
  "fdec f v = bf_decode_u (fst f) (snd f) v"

datatype vkind = K_CONST | K_GPR | K_SLOT | K_BAD

primrec kind_code :: "vkind \<Rightarrow> u8" where
  "kind_code K_CONST = 0" | "kind_code K_GPR = 1" | "kind_code K_SLOT = 2" | "kind_code K_BAD = 3"

primrec vtype_code :: "vtype \<Rightarrow> u8" where
  "vtype_code T_UNDEF = 0" | "vtype_code T_I8 = 1" | "vtype_code T_I16 = 2" | "vtype_code T_I32 = 3"

definition vtype_of_code :: "u8 \<Rightarrow> vtype" where
  "vtype_of_code c =
     (if c = 1 then T_I8 else if c = 2 then T_I16 else if c = 3 then T_I32 else T_UNDEF)"

text \<open>\<open>bool\<close> fields are one byte wide.\<close>

definition bool_code :: "bool \<Rightarrow> u8" where
  "bool_code b = (if b then 1 else 0)"

definition MakeBad :: uptr where
  "MakeBad = fenc f_kind 0 (kind_code K_BAD)"

definition MakeVGPR :: "vtype \<Rightarrow> regn \<Rightarrow> uptr" where
  "MakeVGPR t r =
     fenc f_reg (fenc f_is_virtual (fenc f_type (fenc f_kind 0 (kind_code K_GPR)) (vtype_code t))
       (bool_code True)) r"

definition MakePGPR :: "vtype \<Rightarrow> regn \<Rightarrow> uptr" where
  "MakePGPR t r = fenc f_reg (fenc f_type (fenc f_kind 0 (kind_code K_GPR)) (vtype_code t)) r"

definition MakeConst :: "vtype \<Rightarrow> u32 \<Rightarrow> uptr" where
  "MakeConst t c = fenc f_const (fenc f_type (fenc f_kind 0 (kind_code K_CONST)) (vtype_code t)) c"

definition MakeSlot :: "bool \<Rightarrow> vtype \<Rightarrow> u16 \<Rightarrow> uptr" where
  "MakeSlot g t offs =
     fenc f_slot_is_global
       (fenc f_slot_offs (fenc f_type (fenc f_kind 0 (kind_code K_SLOT)) (vtype_code t)) offs)
       (bool_code g)"

definition GetType :: "uptr \<Rightarrow> vtype" where "GetType v = vtype_of_code (fdec f_type v)"
definition IsConst :: "uptr \<Rightarrow> bool" where "IsConst v \<longleftrightarrow> fdec f_kind v = kind_code K_CONST"
definition IsGPR :: "uptr \<Rightarrow> bool" where "IsGPR v \<longleftrightarrow> fdec f_kind v = kind_code K_GPR"
definition IsSlot :: "uptr \<Rightarrow> bool" where "IsSlot v \<longleftrightarrow> fdec f_kind v = kind_code K_SLOT"
definition FlagV :: "uptr \<Rightarrow> bool" where "FlagV v \<longleftrightarrow> fdec f_is_virtual v \<noteq> (0 :: u8)"
definition IsV :: "uptr \<Rightarrow> bool res" where
  "IsV v = (if IsGPR v then Inr (FlagV v) else Inl AssertFail)"
definition IsPGPR :: "uptr \<Rightarrow> bool" where "IsPGPR v \<longleftrightarrow> IsGPR v \<and> \<not> FlagV v"
definition IsVGPR :: "uptr \<Rightarrow> bool" where "IsVGPR v \<longleftrightarrow> IsGPR v \<and> FlagV v"
definition IsGSlot :: "uptr \<Rightarrow> bool" where
  "IsGSlot v \<longleftrightarrow> IsSlot v \<and> fdec f_slot_is_global v \<noteq> (0 :: u8)"
definition IsLSlot :: "uptr \<Rightarrow> bool" where
  "IsLSlot v \<longleftrightarrow> IsSlot v \<and> \<not> fdec f_slot_is_global v \<noteq> (0 :: u8)"
definition GetConst :: "uptr \<Rightarrow> u32 res" where
  "GetConst v = (if IsConst v then Inr (fdec f_const v) else Inl AssertFail)"
definition GetPGPR :: "uptr \<Rightarrow> regn res" where
  "GetPGPR v = (if IsPGPR v then Inr (fdec f_reg v) else Inl AssertFail)"
definition GetVGPR :: "uptr \<Rightarrow> regn res" where
  "GetVGPR v = (if IsVGPR v then Inr (fdec f_reg v) else Inl AssertFail)"
definition GetSlotOffs :: "uptr \<Rightarrow> u16 res" where
  "GetSlotOffs v = (if IsSlot v then Inr (fdec f_slot_offs v) else Inl AssertFail)"

subsection \<open>Operands as a datatype\<close>

datatype voperand =
    VBad
  | VConst vtype u32
  | VVReg vtype regn
  | VPReg vtype regn
  | VSlot bool vtype u16

text \<open>Packing with the constructors of \<open>VOperand\<close>, unpacking with its predicates and getters.\<close>

primrec pack :: "voperand \<Rightarrow> uptr" where
  "pack VBad = MakeBad"
| "pack (VConst t c) = MakeConst t c"
| "pack (VVReg t r) = MakeVGPR t r"
| "pack (VPReg t r) = MakePGPR t r"
| "pack (VSlot g t offs) = MakeSlot g t offs"

definition unpack :: "uptr \<Rightarrow> voperand" where
  "unpack v =
     (if IsConst v then (case GetConst v of Inr c \<Rightarrow> VConst (GetType v) c | Inl _ \<Rightarrow> VBad)
      else if IsVGPR v then (case GetVGPR v of Inr r \<Rightarrow> VVReg (GetType v) r | Inl _ \<Rightarrow> VBad)
      else if IsPGPR v then (case GetPGPR v of Inr r \<Rightarrow> VPReg (GetType v) r | Inl _ \<Rightarrow> VBad)
      else if IsSlot v then
        (case GetSlotOffs v of Inr offs \<Rightarrow> VSlot (IsGSlot v) (GetType v) offs | Inl _ \<Rightarrow> VBad)
      else VBad)"

definition is_const :: "voperand \<Rightarrow> bool" where
  "is_const x \<longleftrightarrow> (case x of VConst _ _ \<Rightarrow> True | _ \<Rightarrow> False)"

subsection \<open>Instructions\<close>

datatype inst =
    Hcall stub_id voperand
  | Br
  | Brcc condcode voperand voperand
  | GBr voperand
  | GBrind voperand
  | VMLoad vtype vsign voperand voperand
  | VMStore vtype vsign voperand voperand
  | Setcc condcode voperand voperand voperand
  | Mov voperand voperand
  | Binop binop voperand voperand voperand

primrec outputs :: "inst \<Rightarrow> voperand list" where
  "outputs (Hcall _ _) = []" | "outputs Br = []" | "outputs (Brcc _ _ _) = []"
| "outputs (GBr _) = []" | "outputs (GBrind _) = []" | "outputs (VMLoad _ _ d _) = [d]"
| "outputs (VMStore _ _ _ _) = []" | "outputs (Setcc _ d _ _) = [d]" | "outputs (Mov d _) = [d]"
| "outputs (Binop _ d _ _) = [d]"

primrec inputs :: "inst \<Rightarrow> voperand list" where
  "inputs (Hcall _ a) = [a]" | "inputs Br = []" | "inputs (Brcc _ a b) = [a, b]"
| "inputs (GBr _) = []" | "inputs (GBrind a) = [a]" | "inputs (VMLoad _ _ _ p) = [p]"
| "inputs (VMStore _ _ p v) = [p, v]" | "inputs (Setcc _ _ a b) = [a, b]" | "inputs (Mov _ s) = [s]"
| "inputs (Binop _ _ a b) = [a, b]"

text \<open>\<open>Inst::Flags\<close> and \<open>GetOpFlags\<close>.\<close>

definition SIDEEFF :: u8 where "SIDEEFF = push_bit 0 1"
definition REXIT :: u8 where "REXIT = push_bit 1 1"
definition HAS_CALLS :: u8 where "HAS_CALLS = push_bit 2 1"

primrec GetOpFlags :: "inst \<Rightarrow> u8" where
  "GetOpFlags (Hcall _ _) = SIDEEFF OR HAS_CALLS" | "GetOpFlags Br = 0"
| "GetOpFlags (Brcc _ _ _) = 0" | "GetOpFlags (GBr _) = REXIT" | "GetOpFlags (GBrind _) = REXIT"
| "GetOpFlags (VMLoad _ _ _ _) = SIDEEFF" | "GetOpFlags (VMStore _ _ _ _) = SIDEEFF"
| "GetOpFlags (Setcc _ _ _ _) = 0" | "GetOpFlags (Mov _ _) = 0" | "GetOpFlags (Binop _ _ _ _) = 0"

subsection \<open>Blocks, virtual registers, regions\<close>

record block =
  bb_ilist :: "inst list"
  bb_succs :: "nat list"
  bb_preds :: "nat list"

definition new_block :: block where
  "new_block = \<lparr>bb_ilist = [], bb_succs = [], bb_preds = []\<rparr>"

type_synonym state_reg = "u16 \<times> vtype"

record region =
  rn_globals :: "state_reg list"
  rn_locals :: "vtype list"
  rn_blocks :: "block list"

definition new_region :: "state_reg list \<Rightarrow> region" where
  "new_region si = \<lparr>rn_globals = si, rn_locals = [], rn_blocks = []\<rparr>"

definition NumAll :: "region \<Rightarrow> nat" where
  "NumAll rn = length (rn_globals rn) + length (rn_locals rn)"

definition IsGlobal :: "region \<Rightarrow> regn \<Rightarrow> bool" where
  "IsGlobal rn idx \<longleftrightarrow> unat idx < length (rn_globals rn)"

text \<open>\<open>VRegsInfo::AddLocal\<close>: the index is converted to the 16-bit \<open>RegN\<close>.\<close>

definition AddLocal :: "region \<Rightarrow> vtype \<Rightarrow> regn \<times> region" where
  "AddLocal rn t = (of_nat (NumAll rn), rn\<lparr>rn_locals := rn_locals rn @ [t]\<rparr>)"

definition CreateBlock :: "region \<Rightarrow> nat \<times> region" where
  "CreateBlock rn = (length (rn_blocks rn), rn\<lparr>rn_blocks := rn_blocks rn @ [new_block]\<rparr>)"

definition upd_block :: "region \<Rightarrow> nat \<Rightarrow> (block \<Rightarrow> block) \<Rightarrow> region" where
  "upd_block rn b f = rn\<lparr>rn_blocks := (rn_blocks rn)[b := f (rn_blocks rn ! b)]\<rparr>"

definition AddSucc :: "region \<Rightarrow> nat \<Rightarrow> nat \<Rightarrow> region" where
  "AddSucc rn b succ =
     upd_block (upd_block rn b (\<lambda>k. k\<lparr>bb_succs := bb_succs k @ [succ]\<rparr>)) succ
       (\<lambda>k. k\<lparr>bb_preds := bb_preds k @ [b]\<rparr>)"

subsection \<open>The operand interface\<close>

text \<open>
  What the passes rely on when they build, test and read operands, independent of the packing:
  every operand has a view, constructors determine it, predicates test it, getters return its
  components and assert otherwise.
\<close>

locale operand_iface =
  fixes view :: "'o \<Rightarrow> voperand"
    and mk_const :: "vtype \<Rightarrow> u32 \<Rightarrow> 'o" and mk_vgpr mk_pgpr :: "vtype \<Rightarrow> regn \<Rightarrow> 'o"
    and mk_slot :: "bool \<Rightarrow> vtype \<Rightarrow> u16 \<Rightarrow> 'o"
    and isc isv isp :: "'o \<Rightarrow> bool" and getc :: "'o \<Rightarrow> u32 res" and getv getp :: "'o \<Rightarrow> regn res"
  assumes view_const: "view (mk_const t c) = VConst t c"
    and view_vgpr: "view (mk_vgpr t r) = VVReg t r"
    and view_pgpr: "view (mk_pgpr t r) = VPReg t r"
    and view_slot: "view (mk_slot g t offs) = VSlot g t offs"
    and isc_iff: "isc x \<longleftrightarrow> (\<exists>t c. view x = VConst t c)"
    and isv_iff: "isv x \<longleftrightarrow> (\<exists>t r. view x = VVReg t r)"
    and isp_iff: "isp x \<longleftrightarrow> (\<exists>t r. view x = VPReg t r)"
    and getc_view: "getc x = (case view x of VConst t c \<Rightarrow> Inr c | _ \<Rightarrow> Inl AssertFail)"
    and getv_view: "getv x = (case view x of VVReg t r \<Rightarrow> Inr r | _ \<Rightarrow> Inl AssertFail)"
    and getp_view: "getp x = (case view x of VPReg t r \<Rightarrow> Inr r | _ \<Rightarrow> Inl AssertFail)"
begin

lemma guarded_getters_total:
  "isc x \<Longrightarrow> \<exists>c. getc x = Inr c" "isv x \<Longrightarrow> \<exists>r. getv x = Inr r" "isp x \<Longrightarrow> \<exists>r. getp x = Inr r"
  by (auto simp: isc_iff isv_iff isp_iff getc_view getv_view getp_view)

lemma getters_of_made:
  "getc (mk_const t c) = Inr c" "getv (mk_vgpr t r) = Inr r" "getp (mk_pgpr t r) = Inr r"
  by (simp_all add: getc_view getv_view getp_view view_const view_vgpr view_pgpr)

lemma kinds_disjoint: "\<not> (isc x \<and> isv x)" "\<not> (isc x \<and> isp x)" "\<not> (isv x \<and> isp x)"
  by (auto simp: isc_iff isv_iff isp_iff)

lemma wrong_getter_asserts: "\<not> isc x \<Longrightarrow> getc x = Inl AssertFail" "\<not> isv x \<Longrightarrow> getv x = Inl AssertFail"
  by (auto simp: isc_iff isv_iff getc_view getv_view split: voperand.splits)

end

subsection \<open>Layout of the packed fields\<close>

lemma field_layout [simp]:
  "f_kind = (0, 1)" "f_type = (2, 3)" "f_is_virtual = (4, 4)" "f_reg = (5, 20)"
  "f_const = (5, 36)" "f_slot_offs = (5, 20)" "f_slot_is_global = (21, 21)"
  by (simp_all add: f_kind_def f_type_def f_is_virtual_def f_reg_def f_const_def f_slot_offs_def
      f_slot_is_global_def bf_first_def bf_next_def enum_bits_def bit_width.simps)

lemma fdec_fenc_same:
  "l \<le> h \<Longrightarrow> h < 63 \<Longrightarrow> LENGTH('t) \<le> bf_size l h \<or> t < 2 ^ bf_size l h \<Longrightarrow>
    fdec (l, h) (fenc (l, h) v t) = (t :: 't::len word)"
  by (simp add: fdec_def fenc_def bf_decode_encode)

lemma fdec_fenc_other:
  "l \<le> h \<Longrightarrow> h < 63 \<Longrightarrow> l' \<le> h' \<Longrightarrow> h' < 63 \<Longrightarrow> h < l' \<or> h' < l \<Longrightarrow>
    fdec (l', h') (fenc (l, h) v (t :: 's::len word)) = (fdec (l', h') v :: 't::len word)"
  by (simp add: fdec_def fenc_def bf_decode_encode_other)

lemma fdec_zero [simp]: "fdec f 0 = 0"
  by (simp add: fdec_def bf_decode_u_def)

lemma codes_small [simp]: "kind_code k < 4" "vtype_code t < 4" "bool_code b < 2"
  by ((cases k; simp), (cases t; simp), simp add: bool_code_def)

lemma vtype_of_code_code [simp]: "vtype_of_code (vtype_code t) = t"
  by (cases t) (simp_all add: vtype_of_code_def)

lemmas make_defs = MakeBad_def MakeVGPR_def MakePGPR_def MakeConst_def MakeSlot_def
lemmas access_defs =
  GetType_def IsConst_def IsGPR_def IsSlot_def FlagV_def IsV_def IsPGPR_def IsVGPR_def IsGSlot_def
  IsLSlot_def GetConst_def GetPGPR_def GetVGPR_def GetSlotOffs_def
lemmas fdec_simps = fdec_fenc_same fdec_fenc_other bf_size_def

lemma unpack_pack: "unpack (pack x) = x"
  by (cases x)
    (simp_all add: unpack_def make_defs access_defs fdec_simps bool_code_def)

interpretation packed: operand_iface unpack MakeConst MakeVGPR MakePGPR MakeSlot
  IsConst IsVGPR IsPGPR GetConst GetVGPR GetPGPR
proof unfold_locales
  show "unpack (MakeConst t c) = VConst t c" for t c
    using unpack_pack [of "VConst t c"] by simp
  show "unpack (MakeVGPR t r) = VVReg t r" for t r
    using unpack_pack [of "VVReg t r"] by simp
  show "unpack (MakePGPR t r) = VPReg t r" for t r
    using unpack_pack [of "VPReg t r"] by simp
  show "unpack (MakeSlot g t offs) = VSlot g t offs" for g t offs
    using unpack_pack [of "VSlot g t offs"] by simp
qed (auto simp: unpack_def access_defs)

text \<open>
  C40. Packing an operand into its machine word with the constructors of \<open>VOperand\<close> and
  reading it back through the type test and the getters returns the same operand: the kind,
  type, virtual flag, register, constant and slot fields do not overlap and are wide enough.
\<close>

theorem voperand_pack_roundtrip: "unpack (pack x) = x"
  by (rule unpack_pack)

text \<open>
  A getter of \<open>VOperand\<close> guarded by the matching predicate never fails its assertion, an
  unguarded one on another kind of operand always does, and the kinds exclude each other.
\<close>

theorem voperand_getters_guarded:
  "(IsConst v \<longleftrightarrow> (\<exists>c. GetConst v = Inr c)) \<and> (IsVGPR v \<longleftrightarrow> (\<exists>r. GetVGPR v = Inr r)) \<and>
   (IsPGPR v \<longleftrightarrow> (\<exists>r. GetPGPR v = Inr r)) \<and>
   \<not> (IsConst v \<and> IsVGPR v) \<and> \<not> (IsConst v \<and> IsPGPR v) \<and> \<not> (IsVGPR v \<and> IsPGPR v)"
  using packed.guarded_getters_total [of v] packed.wrong_getter_asserts [of v]
    packed.kinds_disjoint [of v]
  by (simp add: packed.isc_iff packed.isv_iff packed.isp_iff packed.getc_view packed.getv_view
      packed.getp_view split: voperand.splits)

subsection \<open>Condition codes\<close>

text \<open>The relation a condition code names, on the values of two 32-bit operands.\<close>

primrec cc_holds :: "condcode \<Rightarrow> u32 \<Rightarrow> u32 \<Rightarrow> bool" where
  "cc_holds CC_EQ a b = (a = b)" | "cc_holds CC_NE a b = (a \<noteq> b)"
| "cc_holds CC_LE a b = (sint a \<le> sint b)" | "cc_holds CC_LT a b = (sint a < sint b)"
| "cc_holds CC_GE a b = (sint a \<ge> sint b)" | "cc_holds CC_GT a b = (sint a > sint b)"
| "cc_holds CC_LEU a b = (a \<le> b)" | "cc_holds CC_LTU a b = (a < b)"
| "cc_holds CC_GEU a b = (a \<ge> b)" | "cc_holds CC_GTU a b = (a > b)"

text \<open>
  \<open>InverseCC\<close> negates a condition and \<open>SwapCC\<close> exchanges its operands; both are
  involutions.
\<close>

theorem condcode_transforms:
  "(cc_holds (InverseCC cc) a b \<longleftrightarrow> \<not> cc_holds cc a b) \<and>
   (cc_holds (SwapCC cc) a b \<longleftrightarrow> cc_holds cc b a) \<and>
   InverseCC (InverseCC cc) = cc \<and> SwapCC (SwapCC cc) = cc"
  by (cases cc) auto

subsection \<open>Lemmas on regions\<close>

lemma upd_block_sel [simp]:
  "rn_globals (upd_block rn b f) = rn_globals rn" "rn_locals (upd_block rn b f) = rn_locals rn"
  "length (rn_blocks (upd_block rn b f)) = length (rn_blocks rn)"
  by (simp_all add: upd_block_def)

lemma upd_block_nth [simp]:
  "b < length (rn_blocks rn) \<Longrightarrow>
    rn_blocks (upd_block rn b f) ! k = (if k = b then f (rn_blocks rn ! b) else rn_blocks rn ! k)"
  by (simp add: upd_block_def nth_list_update)

lemma AddLocal_sel [simp]:
  "fst (AddLocal rn t) = of_nat (NumAll rn)"
  "rn_blocks (snd (AddLocal rn t)) = rn_blocks rn" "rn_globals (snd (AddLocal rn t)) = rn_globals rn"
  "rn_locals (snd (AddLocal rn t)) = rn_locals rn @ [t]"
  by (simp_all add: AddLocal_def)

lemma CreateBlock_sel [simp]:
  "fst (CreateBlock rn) = length (rn_blocks rn)"
  "rn_blocks (snd (CreateBlock rn)) = rn_blocks rn @ [new_block]"
  "rn_globals (snd (CreateBlock rn)) = rn_globals rn"
  "rn_locals (snd (CreateBlock rn)) = rn_locals rn"
  by (simp_all add: CreateBlock_def)

text \<open>
  While a region has fewer than 65536 virtual registers, a new local never collides with a
  global or with an earlier local: the 16-bit register number does not wrap.
\<close>

theorem AddLocal_fresh:
  assumes "NumAll rn < 2 ^ 16"
  shows "\<not> IsGlobal rn (fst (AddLocal rn t)) \<and> unat (fst (AddLocal rn t)) = NumAll rn \<and>
    NumAll (snd (AddLocal rn t)) = Suc (NumAll rn)"
proof -
  have "unat (of_nat (NumAll rn) :: regn) = NumAll rn"
    using assms by (simp add: unat_of_nat take_bit_nat_eq_self)
  then show ?thesis
    by (simp add: IsGlobal_def) (simp add: NumAll_def)
qed

theorem AddLocal_fresh_witness:
  "NumAll (new_region (replicate 32 (4, T_I32))) < 2 ^ 16 \<and>
   unat (fst (AddLocal (new_region (replicate 32 (4, T_I32))) T_I32)) = 32"
  using AddLocal_fresh [of "new_region (replicate 32 (4, T_I32))" T_I32]
  by (simp add: NumAll_def new_region_def)

end
