(* ===== verification/Rv32_Interp.thy ===== *)
theory Rv32_Interp
  imports Rv32_Insn
begin

section \<open>Guest CPU state and instruction handlers: guest/rv32\_cpu.h, guest/rv32\_interp.cpp\<close>

text \<open>
  The guest CPU state and one handler per instruction. The handlers work on the state, the
  caller's copy of the instruction pointer \<open>gip\<close>, the guest memory base \<open>vmem\<close> and the
  memory. \<open>RAISE_TRAP\<close> leaves through \<open>siglongjmp\<close>; here it is the outcome \<open>Trapped\<close>.

  The host-side members of \<open>CPUStateImpl\<close> (\<open>l1_brind_cache\<close>, \<open>stub_tab\<close>,
  \<open>sp_unwindptr\<close>) are not part of the guest state: no handler reads or writes them. Register
  numbers are the \<open>u8\<close> values of the 5-bit fields (\<open>reg_fields_less\<close>), so the array \<open>gpr\<close>
  of 32 registers is never indexed out of range.
\<close>

subsection \<open>State\<close>

datatype trap_code = TC_NONE | TC_UNALIGNED_IP | TC_ILLEGAL_INSN | TC_EBREAK | TC_ECALL | TC_TERMINATED

record cpu_state =
  gpr :: "u8 \<Rightarrow> u32"
  ip :: u32
  trapno :: trap_code

definition init_cpu :: cpu_state where
  "init_cpu = \<lparr>gpr = (\<lambda>_. 0), ip = 0, trapno = TC_NONE\<rparr>"

definition IsTrapPending :: "cpu_state \<Rightarrow> bool" where
  "IsTrapPending s \<longleftrightarrow> trapno s = TC_NONE"

datatype hres =
    Next (res_cpu: cpu_state) (res_gip: u32) (res_mem: mem)
  | Trapped (res_cpu: cpu_state) (res_mem: mem)

type_synonym handler = "cpu_state \<Rightarrow> u32 \<Rightarrow> uptr \<Rightarrow> mem \<Rightarrow> u32 \<Rightarrow> hres"

definition set_gpr :: "cpu_state \<Rightarrow> u8 \<Rightarrow> u32 \<Rightarrow> cpu_state" where
  "set_gpr s r v = s\<lparr>gpr := (gpr s)(r := v)\<rparr>"

definition RAISE_TRAP :: "trap_code \<Rightarrow> cpu_state \<Rightarrow> u32 \<Rightarrow> mem \<Rightarrow> hres" where
  "RAISE_TRAP t s gip m = Trapped (s\<lparr>ip := gip, trapno := t\<rparr>) m"

subsection \<open>Handler families\<close>

definition bool_u32 :: "bool \<Rightarrow> u32" where
  "bool_u32 b = (if b then 1 else 0)"

definition Impl_Branch :: "(u32 \<Rightarrow> u32 \<Rightarrow> bool) \<Rightarrow> handler" where
  "Impl_Branch pred s gip vmem m i =
     (if \<not> pred (gpr s (insn_rs1 i)) (gpr s (insn_rs2 i)) then Next s (gip + 4) m
      else if sint (imm_B i) smod 4 \<noteq> 0 then RAISE_TRAP TC_UNALIGNED_IP s gip m
      else Next s (gip + imm_B i) m)"

definition guest_addr :: "uptr \<Rightarrow> cpu_state \<Rightarrow> u8 \<Rightarrow> u16 \<Rightarrow> uptr" where
  "guest_addr vmem s r imm = vmem + ucast (gpr s r + scast imm)"

definition Impl_Load :: "(mem \<Rightarrow> uptr \<Rightarrow> u32) \<Rightarrow> handler" where
  "Impl_Load load s gip vmem m i =
     Next (set_gpr s (insn_rd i) (load m (guest_addr vmem s (insn_rs1 i) (imm_I i)))) gip m"

definition Impl_Store :: "(mem \<Rightarrow> uptr \<Rightarrow> u32 \<Rightarrow> mem) \<Rightarrow> handler" where
  "Impl_Store store s gip vmem m i =
     Next s gip
       (store m (guest_addr vmem s (insn_rs1 i) (imm_S i)) (gpr s (insn_rs2 i)))"

definition Impl_ArithmRR :: "(u32 \<Rightarrow> u32 \<Rightarrow> u32) \<Rightarrow> handler" where
  "Impl_ArithmRR f s gip vmem m i =
     Next (set_gpr s (insn_rd i) (f (gpr s (insn_rs1 i)) (gpr s (insn_rs2 i)))) gip m"

definition Impl_ArithmRI :: "(u32 \<Rightarrow> u32 \<Rightarrow> u32) \<Rightarrow> handler" where
  "Impl_ArithmRI f s gip vmem m i =
     Next (set_gpr s (insn_rd i) (f (gpr s (insn_rs1 i)) (scast (imm_I i)))) gip m"

definition Impl_Shift :: "(nat \<Rightarrow> u32 \<Rightarrow> u32) \<Rightarrow> handler" where
  "Impl_Shift f s gip vmem m i =
     Next (set_gpr s (insn_rd i) (f (unat (imm_IS i)) (gpr s (insn_rs1 i)))) gip m"

definition Impl_ShiftR :: "(nat \<Rightarrow> u32 \<Rightarrow> u32) \<Rightarrow> handler" where
  "Impl_ShiftR f s gip vmem m i =
     Next (set_gpr s (insn_rd i)
       (f (unat (gpr s (insn_rs2 i) AND 31)) (gpr s (insn_rs1 i)))) gip m"

subsection \<open>Handlers\<close>

definition Impl_lui :: handler where
  "Impl_lui s gip vmem m i = Next (set_gpr s (insn_rd i) (imm_U i)) gip m"

definition Impl_auipc :: handler where
  "Impl_auipc s gip vmem m i = Next (set_gpr s (insn_rd i) (imm_U i + gip)) gip m"

definition Impl_jal :: handler where
  "Impl_jal s gip vmem m i =
     (if sint (imm_J i) smod 4 \<noteq> 0 then RAISE_TRAP TC_UNALIGNED_IP s gip m
      else Next (set_gpr s (insn_rd i) (gip + 4)) (gip + imm_J i) m)"

definition Impl_jalr :: handler where
  "Impl_jalr s gip vmem m i =
     (let target = (gpr s (insn_rs1 i) + scast (imm_I i)) AND NOT 1 in
      if target mod 4 \<noteq> 0 then RAISE_TRAP TC_UNALIGNED_IP s gip m
      else Next (set_gpr s (insn_rd i) (gip + 4)) target m)"

definition slt_word :: "u32 \<Rightarrow> u32 \<Rightarrow> bool" where
  "slt_word a b \<longleftrightarrow> sint a < sint b"

definition sge_word :: "u32 \<Rightarrow> u32 \<Rightarrow> bool" where
  "sge_word a b \<longleftrightarrow> sint a \<ge> sint b"

primrec Impl :: "rv_op \<Rightarrow> handler" where
  "Impl I_illegal = (\<lambda>s gip vmem m i. RAISE_TRAP TC_ILLEGAL_INSN s gip m)"
| "Impl I_lui = Impl_lui"
| "Impl I_auipc = Impl_auipc"
| "Impl I_jal = Impl_jal"
| "Impl I_jalr = Impl_jalr"
| "Impl I_beq = Impl_Branch (=)"
| "Impl I_bne = Impl_Branch (\<noteq>)"
| "Impl I_blt = Impl_Branch slt_word"
| "Impl I_bge = Impl_Branch sge_word"
| "Impl I_bltu = Impl_Branch (<)"
| "Impl I_bgeu = Impl_Branch (\<ge>)"
| "Impl I_lb = Impl_Load (\<lambda>m p. scast (unaligned_load8 m p))"
| "Impl I_lh = Impl_Load (\<lambda>m p. scast (unaligned_load16 m p))"
| "Impl I_lw = Impl_Load unaligned_load32"
| "Impl I_lbu = Impl_Load (\<lambda>m p. ucast (unaligned_load8 m p))"
| "Impl I_lhu = Impl_Load (\<lambda>m p. ucast (unaligned_load16 m p))"
| "Impl I_sb = Impl_Store (\<lambda>m p v. unaligned_store8 m p (ucast v))"
| "Impl I_sh = Impl_Store (\<lambda>m p v. unaligned_store16 m p (ucast v))"
| "Impl I_sw = Impl_Store unaligned_store32"
| "Impl I_addi = Impl_ArithmRI (+)"
| "Impl I_slti = Impl_ArithmRI (\<lambda>a b. bool_u32 (slt_word a b))"
| "Impl I_sltiu = Impl_ArithmRI (\<lambda>a b. bool_u32 (a < b))"
| "Impl I_xori = Impl_ArithmRI (XOR)"
| "Impl I_ori = Impl_ArithmRI (OR)"
| "Impl I_andi = Impl_ArithmRI (AND)"
| "Impl I_slli = Impl_Shift push_bit"
| "Impl I_srai = Impl_Shift signed_drop_bit"
| "Impl I_srli = Impl_Shift drop_bit"
| "Impl I_sub = Impl_ArithmRR (-)"
| "Impl I_add = Impl_ArithmRR (+)"
| "Impl I_sll = Impl_ShiftR push_bit"
| "Impl I_slt = Impl_ArithmRR (\<lambda>a b. bool_u32 (slt_word a b))"
| "Impl I_sltu = Impl_ArithmRR (\<lambda>a b. bool_u32 (a < b))"
| "Impl I_xor = Impl_ArithmRR (XOR)"
| "Impl I_sra = Impl_ShiftR signed_drop_bit"
| "Impl I_srl = Impl_ShiftR drop_bit"
| "Impl I_or = Impl_ArithmRR (OR)"
| "Impl I_and = Impl_ArithmRR (AND)"
| "Impl I_fence = (\<lambda>s gip vmem m i. Next s gip m)"
| "Impl I_fencei = (\<lambda>s gip vmem m i. Next s gip m)"
| "Impl I_ecall = (\<lambda>s gip vmem m i. RAISE_TRAP TC_ECALL s gip m)"
| "Impl I_ebreak = (\<lambda>s gip vmem m i. RAISE_TRAP TC_EBREAK s gip m)"

text \<open>The wrapper \<open>H_##name\<close> that the macro \<open>HANDLER\<close> puts around every \<open>Impl_##name\<close>.\<close>

definition H_handler :: "rv_op \<Rightarrow> handler" where
  "H_handler op s gip vmem m raw =
     (let s1 = (if has_flag op Flag_Trap \<or> has_flag op Flag_MayTrap then s\<lparr>ip := gip\<rparr> else s) in
      case Impl op s1 gip vmem m raw of
        Trapped s2 m2 \<Rightarrow> Trapped s2 m2
      | Next s2 gip2 m2 \<Rightarrow>
          (let s3 = (if has_flag op Flag_HasRd then set_gpr s2 0 0 else s2) in
           if has_flag op Flag_Branch then Next (s3\<lparr>ip := gip2\<rparr>) gip2 m2
           else Next s3 (gip2 + 4) m2))"

text \<open>The entry point \<open>qcgstub_rv32_##name\<close> that translated code calls.\<close>

definition qcgstub_rv32 :: "rv_op \<Rightarrow> uptr \<Rightarrow> cpu_state \<Rightarrow> mem \<Rightarrow> u32 \<Rightarrow> hres" where
  "qcgstub_rv32 op base s m raw =
     (case H_handler op s (ip s) base m raw of
        Trapped s' m' \<Rightarrow> Trapped s' m'
      | Next s' gip' m' \<Rightarrow> Next (s'\<lparr>ip := gip'\<rparr>) gip' m')"

text \<open>
  The instruction word at a guest address. The fetch is that of \<open>RV32Translator::TranslateInsn\<close> and \<open>Decoder::Decode\<close>.
\<close>

definition fetch :: "uptr \<Rightarrow> mem \<Rightarrow> u32 \<Rightarrow> u32" where
  "fetch vmem m gip = unaligned_load32 m (vmem + ucast gip)"

subsection \<open>Flags of the operations\<close>

lemma has_flag_Trap [simp]: "has_flag op Flag_Trap \<longleftrightarrow> op \<in> {I_illegal, I_ecall, I_ebreak}"
  and has_flag_MayTrap [simp]:
    "has_flag op Flag_MayTrap \<longleftrightarrow> op \<in> {I_lb, I_lh, I_lw, I_lbu, I_lhu, I_sb, I_sh, I_sw}"
  and has_flag_Branch [simp]:
    "has_flag op Flag_Branch \<longleftrightarrow> op \<in> {I_jal, I_jalr, I_beq, I_bne, I_blt, I_bge, I_bltu, I_bgeu}"
  and has_flag_HasRd [simp]:
    "has_flag op Flag_HasRd \<longleftrightarrow> op_format op \<in> {F_R, F_I, F_IS, F_U, F_J, F_A}"
  by (cases op; simp add: has_flag_def insn_flags_def op_explicit_flags_def Flag_None_def
      Flag_Branch_def Flag_MayTrap_def Flag_Trap_def Flag_HasRd_def)+

subsection \<open>Lemmas\<close>

lemma set_gpr_sel [simp]:
  "gpr (set_gpr s r v) = (gpr s)(r := v)" "ip (set_gpr s r v) = ip s"
  "trapno (set_gpr s r v) = trapno s"
  by (simp_all add: set_gpr_def)

lemmas Impl_defs =
  Impl_Branch_def Impl_Load_def Impl_Store_def Impl_ArithmRR_def Impl_ArithmRI_def Impl_Shift_def
  Impl_ShiftR_def Impl_lui_def Impl_auipc_def Impl_jal_def Impl_jalr_def RAISE_TRAP_def Let_def

lemma Impl_trap_frame: "Impl op s gip vmem m raw = Trapped s' m' \<Longrightarrow> gpr s' = gpr s \<and> m' = m \<and> ip s' = gip"
  by (cases op) (auto simp: Impl_defs split: if_splits)

lemma Impl_trapno: "Impl op s gip vmem m raw = Next s' gip' m' \<Longrightarrow> trapno s' = trapno s"
  by (cases op) (auto simp: Impl_defs split: if_splits)

lemma Impl_no_rd_gpr:
  "Impl op s gip vmem m raw = Next s' gip' m' \<Longrightarrow> \<not> has_flag op Flag_HasRd \<Longrightarrow> gpr s' = gpr s"
  by (cases op) (auto simp: Impl_defs split: if_splits)

lemma handler_x0:
  assumes "gpr s 0 = 0"
  shows "gpr (res_cpu (H_handler op s gip vmem m raw)) 0 = 0"
proof (cases "Impl op (if has_flag op Flag_Trap \<or> has_flag op Flag_MayTrap then s\<lparr>ip := gip\<rparr> else s)
    gip vmem m raw")
  case (Next s' gip' m')
  then show ?thesis
    using assms Impl_no_rd_gpr [OF Next]
    by (cases "has_flag op Flag_HasRd") (auto simp: H_handler_def Let_def split: if_splits)
next
  case (Trapped s' m')
  then show ?thesis
    using assms Impl_trap_frame [OF Trapped] by (auto simp: H_handler_def Let_def split: if_splits)
qed

text \<open>
  C37. Register \<open>x0\<close> reads as zero in every state the handlers leave behind, whether they
  finish or trap, which is what \<open>assert(state->gpr[0] == 0)\<close> in \<open>Execute\<close> relies on.
\<close>

theorem handler_keeps_x0:
  assumes "gpr s 0 = 0"
  shows "gpr (res_cpu (H_handler op s gip vmem m raw)) 0 = 0"
  using assms by (rule handler_x0)

theorem handler_keeps_x0_witness:
  "gpr init_cpu 0 = 0 \<and>
   gpr (res_cpu (H_handler I_lui init_cpu 0 0 (\<lambda>_. 0) 0x12345037)) 0 = 0"
  using handler_keeps_x0 [of init_cpu I_lui 0 0 "\<lambda>_. 0" "0x12345037"] by (simp add: init_cpu_def)

subsection \<open>Alignment of the instruction pointer\<close>

lemma smod4_eq_0: "(a :: int) smod 4 = 0 \<longleftrightarrow> 4 dvd a"
  by (auto simp: smod_int_alt_def sgn_if dvd_eq_mod_eq_0 [symmetric])

lemma word_mod4: "(w :: u32) mod 4 = take_bit 2 w"
  by (simp add: take_bit_eq_mod)

lemma sint_smod4: "sint (w :: u32) smod 4 \<noteq> 0 \<longleftrightarrow> w mod 4 \<noteq> 0"
proof -
  have "take_bit 2 (sint w) = take_bit 2 (uint w)"
    by (rule bit_eqI) (auto simp: bit_simps)
  then have "4 dvd sint w \<longleftrightarrow> take_bit 2 (uint w) = 0"
    by (simp add: take_bit_eq_mod dvd_eq_mod_eq_0)
  moreover have "take_bit 2 (uint w) = uint (take_bit 2 w)"
    by (simp add: unsigned_take_bit_eq)
  ultimately show ?thesis
    by (simp add: smod4_eq_0 word_mod4 uint_0_iff)
qed

lemma aligned_iff_dvd: "take_bit 2 (w :: u32) = 0 \<longleftrightarrow> 4 dvd unat w"
  by (simp add: word_unat_eq_iff unsigned_take_bit_eq take_bit_eq_mod dvd_eq_mod_eq_0
      unat_mod_distrib)

lemma aligned_add:
  "take_bit 2 a = 0 \<Longrightarrow> take_bit 2 b = 0 \<Longrightarrow> take_bit 2 (a + b :: u32) = 0"
  by (simp add: aligned_iff_dvd unat_word_ariths dvd_mod)

lemma aligned_add4: "take_bit 2 a = 0 \<Longrightarrow> take_bit 2 (a + 4 :: u32) = 0"
  by (rule aligned_add) simp_all

lemma Impl_aligned:
  assumes "gip mod 4 = 0" "Impl op s gip vmem m raw = Next s' gip' m'"
  shows "gip' mod 4 = 0"
  using assms
  by (cases op) (auto simp: Impl_defs sint_smod4 word_mod4 aligned_add aligned_add4 split: if_splits)

text \<open>
  The handlers keep the instruction pointer four-byte aligned: from an aligned address,
  control goes to an aligned address or a trap is raised.
\<close>

theorem handler_keeps_alignment:
  assumes "gip mod 4 = 0" "H_handler op s gip vmem m raw = Next s' gip' m'"
  shows "gip' mod 4 = 0"
proof -
  define s1 where "s1 = (if has_flag op Flag_Trap \<or> has_flag op Flag_MayTrap then s\<lparr>ip := gip\<rparr> else s)"
  from assms(2) obtain s2 gip2 m2 where
    impl: "Impl op s1 gip vmem m raw = Next s2 gip2 m2" and "gip' = gip2 \<or> gip' = gip2 + 4"
    unfolding H_handler_def Let_def s1_def by (auto split: hres.splits if_splits)
  then show ?thesis
    using Impl_aligned [OF assms(1) impl] by (auto simp: word_mod4 aligned_add4)
qed

theorem handler_keeps_alignment_witness:
  "(0x1000 :: u32) mod 4 = 0 \<and>
   (\<exists>s' m'. H_handler I_jal init_cpu 0x1000 0 (\<lambda>_. 0) 0x008000ef = Next s' 0x1008 m') \<and>
   (0x1008 :: u32) mod 4 = 0"
proof -
  have imm: "imm_J 0x008000ef = 8"
    by (simp add: imm_J_def bf_decode_u_def bf_decode_s_def bf_size_def)
  have "\<exists>s' m'. H_handler I_jal init_cpu 0x1000 0 (\<lambda>_. 0) 0x008000ef = Next s' 0x1008 m'"
    by (simp add: H_handler_def Impl_jal_def imm smod_int_alt_def)
  then obtain s' m' where
    "H_handler I_jal init_cpu 0x1000 0 (\<lambda>_. 0) 0x008000ef = Next s' 0x1008 m'" by blast
  then show ?thesis
    using handler_keeps_alignment [of "0x1000" _ _ _ _ _ s' "0x1008" m'] by auto
qed

subsection \<open>Arithmetic against the integers\<close>

text \<open>
  The RISC-V manual defines the computational instructions over the signed or unsigned
  reading of 32-bit registers; the register receives the low 32 bits of the result.
\<close>

definition isa_alu :: "rv_op \<Rightarrow> u32 \<Rightarrow> u32 \<Rightarrow> int" where
  "isa_alu op a b =
     (if op \<in> {I_add, I_addi} then uint a + uint b
      else if op = I_sub then uint a - uint b
      else if op \<in> {I_sll, I_slli} then uint a * 2 ^ (unat b mod 32)
      else if op \<in> {I_slt, I_slti} then (if sint a < sint b then 1 else 0)
      else if op \<in> {I_sltu, I_sltiu} then (if uint a < uint b then 1 else 0)
      else if op \<in> {I_xor, I_xori} then uint a XOR uint b
      else if op \<in> {I_srl, I_srli} then uint a div 2 ^ (unat b mod 32)
      else if op \<in> {I_sra, I_srai} then sint a div 2 ^ (unat b mod 32)
      else if op \<in> {I_or, I_ori} then uint a OR uint b
      else uint a AND uint b)"

definition isa_operand2 :: "rv_op \<Rightarrow> cpu_state \<Rightarrow> u32 \<Rightarrow> u32" where
  "isa_operand2 op s raw =
     (if op_format op = F_R then gpr s (insn_rs2 raw)
      else if op_format op = F_IS then ucast (imm_IS raw) else scast (imm_I raw))"

definition computational :: "rv_op \<Rightarrow> bool" where
  "computational op \<longleftrightarrow>
     op_format op \<in> {F_R, F_IS} \<or> op \<in> {I_addi, I_slti, I_sltiu, I_xori, I_ori, I_andi}"

lemma unat_and_31: "unat (w AND 31 :: u32) = unat w mod 32"
proof -
  have "w AND 31 = take_bit 5 w"
    by (simp add: take_bit_eq_mask mask_eq_exp_minus_1)
  then show ?thesis
    by (simp add: unsigned_take_bit_eq take_bit_eq_mod unat_mod_distrib)
qed

lemma unat_ucast_imm_IS: "unat (ucast (imm_IS raw) :: u32) mod 32 = unat (imm_IS raw)"
  using reg_fields_less(4) [of raw] by (simp add: word_less_nat_alt unsigned_ucast_eq take_bit_nat_eq_self)

lemma word_ops_of_int:
  "a + b = word_of_int (uint a + uint b)"
  "a - b = word_of_int (uint a - uint b)"
  "a AND b = word_of_int (uint a AND uint b)"
  "a OR b = word_of_int (uint a OR uint b)"
  "a XOR b = word_of_int (uint a XOR uint b)"
  "push_bit n a = word_of_int (uint a * 2 ^ n)"
  "drop_bit n a = word_of_int (uint a div 2 ^ n)"
  "signed_drop_bit n a = word_of_int (sint a div 2 ^ n)" for a b :: u32
proof -
  have "uint (drop_bit n a) = uint a div 2 ^ n"
    using drop_bit_eq_div [of n "uint a"] uint_lt2p [of a]
    by (simp add: unsigned_drop_bit_eq take_bit_int_eq_self)
  then show "drop_bit n a = word_of_int (uint a div 2 ^ n)"
    by (metis word_of_int_uint)
  show "signed_drop_bit n a = word_of_int (sint a div 2 ^ n)"
    by (simp add: drop_bit_eq_div [symmetric] sint_signed_drop_bit_eq [symmetric])
qed (simp_all add: push_bit_eq_mult unsigned_and_eq [symmetric] unsigned_or_eq [symmetric]
    unsigned_xor_eq [symmetric])

text \<open>
  C22. Every computational instruction (register-register, register-immediate and shifts)
  writes to its destination the low 32 bits of the integer result the ISA defines, keeps
  \<open>x0\<close> at zero, advances the instruction pointer by four and touches nothing else.
\<close>

theorem handler_alu_correct:
  assumes "computational op"
  shows "H_handler op s gip vmem m raw =
    Next (set_gpr (set_gpr s (insn_rd raw)
        (word_of_int (isa_alu op (gpr s (insn_rs1 raw)) (isa_operand2 op s raw)))) 0 0)
      (gip + 4) m"
  using assms
  by (cases op)
    (simp_all add: H_handler_def computational_def Impl_defs isa_alu_def isa_operand2_def
      word_ops_of_int [symmetric] unat_and_31 unat_ucast_imm_IS bool_u32_def slt_word_def word_less_def
      push_bit_eq_mult)

theorem handler_alu_correct_witness:
  "computational I_sra \<and>
   gpr (res_cpu (H_handler I_sra (set_gpr (set_gpr init_cpu 6 (- 16)) 7 34) 0 0 (\<lambda>_. 0) 0x407352b3)) 5
     = - 4"
proof -
  have "insn_rd 0x407352b3 = 5" "insn_rs1 0x407352b3 = 6" "insn_rs2 0x407352b3 = 7"
    by (simp_all add: insn_field_defs bf_decode_u_def)
  then show ?thesis
    using handler_alu_correct [of I_sra "set_gpr (set_gpr init_cpu 6 (- 16)) 7 34" 0 0 "\<lambda>_. 0"
        "0x407352b3"]
    by (simp add: computational_def isa_alu_def isa_operand2_def init_cpu_def)
qed

end
