(* ===== verification/Qir_Sem.thy ===== *)
theory Qir_Sem
  imports Qir Rv32_Interp "HOL-Library.Monad_Syntax"
begin

section \<open>Meaning of the IR\<close>

text \<open>
  The code has no interpreter for its IR; its meaning is what \<open>QEmit\<close> makes of it. This
  theory states that meaning over virtual registers, as the specification that the
  translator and the passes are compared with. A global virtual register stands for a field
  of the guest CPU state (\<open>RV32Translator::GetStateInfo\<close>), and a global slot operand is
  another name for the global register at that offset. Operands that exist only after register
  allocation (physical registers, local slots) have no meaning here: execution is \<open>None\<close>.
\<close>

subsection \<open>Global registers\<close>

definition GPR_START :: nat where "GPR_START = 0"
definition GPR_END :: nat where "GPR_END = 31"
definition GRID_IP :: nat where "GRID_IP = GPR_END"
definition GRID_END :: nat where "GRID_END = GRID_IP + 1"

text \<open>\<open>offsetof(CPUState, gpr)\<close> and \<open>offsetof(CPUState, ip)\<close>: \<open>gpr\<close> is the first member.\<close>

definition offs_gpr :: u16 where "offs_gpr = 0"
definition offs_ip :: u16 where "offs_ip = offs_gpr + 4 * 32"

definition state_info :: "state_reg list" where
  "state_info =
     map (\<lambda>i. (offs_gpr + 4 * of_nat (Suc i), T_I32)) [GPR_START ..< GPR_END] @ [(offs_ip, T_I32)]"

definition GetStateReg :: "regn \<Rightarrow> state_reg option" where
  "GetStateReg idx =
     (if unat idx < length state_info then Some (state_info ! unat idx) else None)"

definition slot_reg :: "u16 \<Rightarrow> regn option" where
  "slot_reg offs = map_option of_nat (find (\<lambda>i. fst (state_info ! i) = offs) [0 ..< GRID_END])"

lemma length_state_info [simp]: "length state_info = 32"
  by (simp add: state_info_def GPR_START_def GPR_END_def)

lemma slot_reg_ip [simp]: "slot_reg 128 = Some 31"
  by (simp add: slot_reg_def state_info_def GPR_START_def GPR_END_def GRID_END_def GRID_IP_def
      offs_ip_def offs_gpr_def upt_rec)

subsection \<open>States and operands\<close>

record qstate =
  q_vr :: "regn \<Rightarrow> u32"
  q_mem :: mem
  q_trap :: trap_code

primrec eval_opr :: "qstate \<Rightarrow> voperand \<Rightarrow> u32 option" where
  "eval_opr st VBad = None"
| "eval_opr st (VConst t c) = Some c"
| "eval_opr st (VVReg t r) = Some (q_vr st r)"
| "eval_opr st (VPReg t r) = None"
| "eval_opr st (VSlot g t offs) =
     (if g then do { r \<leftarrow> slot_reg offs; Some (q_vr st r) } else None)"

definition set_vr :: "qstate \<Rightarrow> regn \<Rightarrow> u32 \<Rightarrow> qstate" where
  "set_vr st r v = st\<lparr>q_vr := (q_vr st)(r := v)\<rparr>"

primrec write_opr :: "qstate \<Rightarrow> voperand \<Rightarrow> u32 \<Rightarrow> qstate option" where
  "write_opr st VBad v = None"
| "write_opr st (VConst t c) v = None"
| "write_opr st (VVReg t r) v = Some (set_vr st r v)"
| "write_opr st (VPReg t r) v = None"
| "write_opr st (VSlot g t offs) v =
     (if g then do { r \<leftarrow> slot_reg offs; Some (set_vr st r v) } else None)"

text \<open>Shift counts are taken modulo 32, as the host's 32-bit shifts do.\<close>

primrec binop_sem :: "binop \<Rightarrow> u32 \<Rightarrow> u32 \<Rightarrow> u32" where
  "binop_sem B_add a b = a + b"
| "binop_sem B_sub a b = a - b"
| "binop_sem B_and a b = a AND b"
| "binop_sem B_or a b = a OR b"
| "binop_sem B_xor a b = a XOR b"
| "binop_sem B_sra a b = signed_drop_bit (unat (b AND 31)) a"
| "binop_sem B_srl a b = drop_bit (unat (b AND 31)) a"
| "binop_sem B_sll a b = push_bit (unat (b AND 31)) a"

definition vm_load :: "vtype \<Rightarrow> vsign \<Rightarrow> mem \<Rightarrow> uptr \<Rightarrow> u32 option" where
  "vm_load sz sg m p =
     (case sz of
        T_I8 \<Rightarrow> Some (if sg = SG_U then ucast (unaligned_load8 m p) else scast (unaligned_load8 m p))
      | T_I16 \<Rightarrow> Some (if sg = SG_U then ucast (unaligned_load16 m p) else scast (unaligned_load16 m p))
      | T_I32 \<Rightarrow> Some (unaligned_load32 m p)
      | T_UNDEF \<Rightarrow> None)"

definition vm_store :: "vtype \<Rightarrow> mem \<Rightarrow> uptr \<Rightarrow> u32 \<Rightarrow> mem option" where
  "vm_store sz m p v =
     (case sz of
        T_I8 \<Rightarrow> Some (unaligned_store8 m p (ucast v))
      | T_I16 \<Rightarrow> Some (unaligned_store16 m p (ucast v))
      | T_I32 \<Rightarrow> Some (unaligned_store32 m p v)
      | T_UNDEF \<Rightarrow> None)"

subsection \<open>The CPU state behind the global registers\<close>

text \<open>Guest register \<open>x\<^sub>r\<close> is global \<open>r - 1\<close>; \<open>x\<^sub>0\<close> has none and is constant zero.\<close>

definition gvr :: "u8 \<Rightarrow> regn" where
  "gvr r = ucast r - 1"

lemma unat_gvr: "r \<noteq> 0 \<Longrightarrow> unat (gvr r) = unat r - 1"
proof -
  assume "r \<noteq> 0"
  have u: "unat (ucast r :: regn) = unat r"
    using unsigned_less [of r, where 'a = nat] by (simp add: unsigned_ucast_eq take_bit_nat_eq_self)
  moreover have "(ucast r :: regn) \<noteq> 0"
    using \<open>r \<noteq> 0\<close> u by (auto simp: word_unat_eq_iff)
  ultimately show ?thesis
    by (simp add: gvr_def unat_minus_one)
qed

lemma gvr_less: "r \<noteq> 0 \<Longrightarrow> r < 32 \<Longrightarrow> gvr r < 31"
  by (simp add: word_less_nat_alt unat_gvr unat_gt_0)

definition cpu_of :: "qstate \<Rightarrow> cpu_state" where
  "cpu_of st =
     \<lparr>gpr = (\<lambda>r. if r = 0 \<or> 32 \<le> r then 0 else q_vr st (gvr r)), ip = q_vr st 31, trapno = q_trap st\<rparr>"

definition put_cpu :: "qstate \<Rightarrow> cpu_state \<Rightarrow> mem \<Rightarrow> qstate" where
  "put_cpu st s m =
     st\<lparr>q_vr := (\<lambda>r. if r < 31 then gpr s (ucast r + 1) else if r = 31 then ip s else q_vr st r),
        q_mem := m, q_trap := trapno s\<rparr>"

definition stub_op :: "stub_id \<Rightarrow> rv_op option" where
  "stub_op sid =
     (case sid of
        Id_rv32_fence \<Rightarrow> Some I_fence | Id_rv32_fencei \<Rightarrow> Some I_fencei
      | Id_rv32_ecall \<Rightarrow> Some I_ecall | Id_rv32_ebreak \<Rightarrow> Some I_ebreak | _ \<Rightarrow> None)"

subsection \<open>Executing instructions\<close>

text \<open>
  An instruction falls through, goes to a successor of its block (by position), leaves the
  region for a guest address, or leaves it with a trap.
\<close>

datatype qres = QNext qstate | QBr nat qstate | QExit u32 qstate | QTrap qstate

primrec exec_inst :: "uptr \<Rightarrow> inst \<Rightarrow> qstate \<Rightarrow> qres option" where
  "exec_inst vmem (Hcall sid a) st =
     do { op \<leftarrow> stub_op sid; raw \<leftarrow> eval_opr st a;
          Some (case qcgstub_rv32 op vmem (cpu_of st) (q_mem st) raw of
                  Next s' gip' m' \<Rightarrow> QNext (put_cpu st s' m')
                | Trapped s' m' \<Rightarrow> QTrap (put_cpu st s' m')) }"
| "exec_inst vmem Br st = Some (QBr 0 st)"
| "exec_inst vmem (Brcc cc a b) st =
     do { x \<leftarrow> eval_opr st a; y \<leftarrow> eval_opr st b; Some (QBr (if cc_holds cc x y then 0 else 1) st) }"
| "exec_inst vmem (GBr t) st = do { x \<leftarrow> eval_opr st t; Some (QExit x st) }"
| "exec_inst vmem (GBrind t) st = do { x \<leftarrow> eval_opr st t; Some (QExit x st) }"
| "exec_inst vmem (VMLoad sz sg d p) st =
     do { a \<leftarrow> eval_opr st p; v \<leftarrow> vm_load sz sg (q_mem st) (vmem + ucast a);
          st' \<leftarrow> write_opr st d v; Some (QNext st') }"
| "exec_inst vmem (VMStore sz sg p d) st =
     do { a \<leftarrow> eval_opr st p; v \<leftarrow> eval_opr st d;
          m' \<leftarrow> vm_store sz (q_mem st) (vmem + ucast a) v; Some (QNext (st\<lparr>q_mem := m'\<rparr>)) }"
| "exec_inst vmem (Setcc cc d a b) st =
     do { x \<leftarrow> eval_opr st a; y \<leftarrow> eval_opr st b;
          st' \<leftarrow> write_opr st d (bool_u32 (cc_holds cc x y)); Some (QNext st') }"
| "exec_inst vmem (Mov d s) st =
     do { x \<leftarrow> eval_opr st s; st' \<leftarrow> write_opr st d x; Some (QNext st') }"
| "exec_inst vmem (Binop bop d a b) st =
     do { x \<leftarrow> eval_opr st a; y \<leftarrow> eval_opr st b;
          st' \<leftarrow> write_opr st d (binop_sem bop x y); Some (QNext st') }"

fun exec_insts :: "uptr \<Rightarrow> inst list \<Rightarrow> qstate \<Rightarrow> qres option" where
  "exec_insts vmem [] st = Some (QNext st)"
| "exec_insts vmem (i # is) st =
     do { r \<leftarrow> exec_inst vmem i st;
          (case r of QNext st' \<Rightarrow> exec_insts vmem is st' | _ \<Rightarrow> Some r) }"

lemma exec_insts_append:
  "exec_insts vmem (xs @ ys) st =
     do { r \<leftarrow> exec_insts vmem xs st;
          (case r of QNext st' \<Rightarrow> exec_insts vmem ys st' | _ \<Rightarrow> Some r) }"
  by (induction xs arbitrary: st) (auto split: Option.bind_splits qres.splits)

text \<open>
  A region is executed block by block; \<open>fuel\<close> bounds the number of blocks entered, since a
  region may loop.
\<close>

fun exec_region :: "uptr \<Rightarrow> nat \<Rightarrow> region \<Rightarrow> nat \<Rightarrow> qstate \<Rightarrow> qres option" where
  "exec_region vmem 0 rn b st = None"
| "exec_region vmem (Suc fuel) rn b st =
     (if b < length (rn_blocks rn) then
        do { r \<leftarrow> exec_insts vmem (bb_ilist (rn_blocks rn ! b)) st;
             (case r of
                QBr k st' \<Rightarrow>
                  if k < length (bb_succs (rn_blocks rn ! b))
                  then exec_region vmem fuel rn (bb_succs (rn_blocks rn ! b) ! k) st' else None
              | QNext st' \<Rightarrow> None
              | _ \<Rightarrow> Some r) }
      else None)"

text \<open>The region is still running after that many blocks: each of them branched to another one.\<close>

fun runs_on :: "uptr \<Rightarrow> nat \<Rightarrow> region \<Rightarrow> nat \<Rightarrow> qstate \<Rightarrow> bool" where
  "runs_on vmem 0 rn b st = True"
| "runs_on vmem (Suc fuel) rn b st =
     (b < length (rn_blocks rn) \<and>
      (case exec_insts vmem (bb_ilist (rn_blocks rn ! b)) st of
         Some (QBr k st') \<Rightarrow>
           k < length (bb_succs (rn_blocks rn ! b)) \<and> runs_on vmem fuel rn (bb_succs (rn_blocks rn ! b) ! k) st'
       | _ \<Rightarrow> False))"

lemma exec_region_mono:
  "exec_region vmem fuel rn b st = Some r \<Longrightarrow> exec_region vmem (Suc fuel) rn b st = Some r"
proof (induction fuel arbitrary: b st)
  case 0
  then show ?case by simp
next
  case (Suc fuel)
  obtain r' where r': "exec_insts vmem (bb_ilist (rn_blocks rn ! b)) st = Some r'"
    and b: "b < length (rn_blocks rn)"
    using Suc.prems by (auto split: if_splits simp: bind_eq_Some_conv)
  show ?case
  proof (cases r')
    case (QBr k st')
    with Suc.prems r' b have k: "k < length (bb_succs (rn_blocks rn ! b))"
      and "exec_region vmem fuel rn (bb_succs (rn_blocks rn ! b) ! k) st' = Some r"
      by (auto split: if_splits)
    then have "exec_region vmem (Suc fuel) rn (bb_succs (rn_blocks rn ! b) ! k) st' = Some r"
      by (blast intro: Suc.IH)
    with r' b QBr k show ?thesis
      by (subst exec_region.simps) simp
  qed (use Suc.prems r' b in auto)
qed

end
