(* ===== verification/Ilist.thy ===== *)
theory Ilist
  imports Prelude
begin

section \<open>Intrusive lists: util/ilist.h\<close>

text \<open>
  The instruction list of a block and the block list of a region are circular doubly linked
  lists through a sentinel, \<open>IList\<close>. The heap of links is two maps from node addresses. The
  operations refine insertion into and removal from a sequence, with which the rest of the
  development works.
\<close>

subsection \<open>The abstract sequence\<close>

definition il_insert :: "nat \<Rightarrow> 'a \<Rightarrow> 'a list \<Rightarrow> 'a list" where
  "il_insert i x l = take i l @ x # drop i l"

definition il_erase :: "nat \<Rightarrow> 'a list \<Rightarrow> 'a list" where
  "il_erase i l = take i l @ drop (Suc i) l"

subsection \<open>The linked representation\<close>

record links =
  nprev :: "uptr \<Rightarrow> uptr"
  nnext :: "uptr \<Rightarrow> uptr"

definition setPrev :: "uptr \<Rightarrow> uptr \<Rightarrow> links \<Rightarrow> links" where
  "setPrev n p h = h\<lparr>nprev := (nprev h)(n := p)\<rparr>"

definition setNext :: "uptr \<Rightarrow> uptr \<Rightarrow> links \<Rightarrow> links" where
  "setNext n q h = h\<lparr>nnext := (nnext h)(n := q)\<rparr>"

definition insertBefore :: "links \<Rightarrow> uptr \<Rightarrow> uptr \<Rightarrow> links" where
  "insertBefore h nxt node =
     (let prev = nprev h nxt;
          h1 = setNext node nxt h;
          h2 = setPrev node prev h1;
          h3 = setNext prev node h2
      in setPrev nxt node h3)"

definition il_remove :: "links \<Rightarrow> uptr \<Rightarrow> links" where
  "il_remove h node =
     (let prev = nprev h node; nxt = nnext h node
      in setNext prev nxt (setPrev nxt prev h))"

definition sentinel_reset :: "links \<Rightarrow> uptr \<Rightarrow> links" where
  "sentinel_reset h sent = setNext sent sent (setPrev sent sent h)"

definition il_empty :: "links \<Rightarrow> uptr \<Rightarrow> bool" where
  "il_empty h sent \<longleftrightarrow> nprev h sent = sent"

text \<open>An iterator is the address of a node; \<open>end()\<close> is the sentinel.\<close>

definition il_begin :: "links \<Rightarrow> uptr \<Rightarrow> uptr" where
  "il_begin h sent = nnext h sent"

definition il_push_back :: "links \<Rightarrow> uptr \<Rightarrow> uptr \<Rightarrow> links" where
  "il_push_back h sent node = insertBefore h sent node"

definition il_erase_at :: "links \<Rightarrow> uptr \<Rightarrow> uptr \<Rightarrow> (uptr \<times> links) res" where
  "il_erase_at h sent it =
     (if it = sent then Inl AssertFail else Inr (nnext h it, il_remove h it))"

text \<open>Walking forward from a node until the sentinel, as a range-based \<open>for\<close> does; \<open>fuel\<close> bounds it.\<close>

primrec il_walk :: "nat \<Rightarrow> links \<Rightarrow> uptr \<Rightarrow> uptr \<Rightarrow> uptr list" where
  "il_walk 0 h sent it = []"
| "il_walk (Suc fuel) h sent it = (if it = sent then [] else it # il_walk fuel h sent (nnext h it))"

subsection \<open>Chains\<close>

fun chain :: "links \<Rightarrow> uptr list \<Rightarrow> bool" where
  "chain h (a # b # xs) \<longleftrightarrow> nnext h a = b \<and> nprev h b = a \<and> chain h (b # xs)"
| "chain h xs \<longleftrightarrow> True"

definition is_ilist :: "links \<Rightarrow> uptr \<Rightarrow> uptr list \<Rightarrow> bool" where
  "is_ilist h sent xs \<longleftrightarrow> distinct (sent # xs) \<and> chain h (sent # xs @ [sent])"

lemma chain_append: "chain h (xs @ a # ys) \<longleftrightarrow> chain h (xs @ [a]) \<and> chain h (a # ys)"
  by (induction h xs rule: chain.induct) (cases ys; auto)+

lemma chain_link:
  "chain h (xs @ [a, b] @ ys) \<longleftrightarrow>
     chain h (xs @ [a]) \<and> nnext h a = b \<and> nprev h b = a \<and> chain h (b # ys)"
  using chain_append [of h xs a "b # ys"] by auto

lemma chain_cong:
  assumes "\<And>a. a \<in> set (butlast xs) \<Longrightarrow> nnext h' a = nnext h a"
    "\<And>b. b \<in> set (tl xs) \<Longrightarrow> nprev h' b = nprev h b"
  shows "chain h' xs = chain h xs"
  using assms
proof (induction h xs rule: chain.induct)
  case (1 h a b xs)
  have "chain h' (b # xs) = chain h (b # xs)"
    using 1(2,3) by (intro 1(1)) (auto simp: butlast_conv_take split: if_splits)
  then show ?case using 1(2,3) by auto
qed auto

lemma links_upd [simp]:
  "nprev (setPrev n p h) = (nprev h)(n := p)" "nnext (setPrev n p h) = nnext h"
  "nnext (setNext n p h) = (nnext h)(n := p)" "nprev (setNext n p h) = nprev h"
  by (simp_all add: setPrev_def setNext_def)

text \<open>A list cut at a position: the node before it and the node at it, the sentinel included.\<close>

lemma ilist_cut:
  assumes "is_ilist h s (us @ vs)"
  obtains as p q bs where "s # us = as @ [p]" "vs @ [s] = q # bs" "nnext h p = q" "nprev h q = p"
    "chain h (as @ [p])" "chain h (q # bs)"
proof -
  obtain as p where p: "s # us = as @ [p]" by (metis append_butlast_last_id list.distinct(1))
  obtain q bs where q: "vs @ [s] = q # bs" by (cases vs) auto
  have "chain h ((s # us) @ (vs @ [s]))"
    using assms by (simp add: is_ilist_def)
  then have "chain h (as @ [p, q] @ bs)" unfolding p q by simp
  then show thesis
    using that [OF p q] unfolding chain_link by blast
qed

text \<open>Relinking \<open>p\<close> to \<open>q\<close> at the cut leaves both halves of the chain alone.\<close>

lemma ilist_cut_frame:
  assumes d: "distinct (s # us @ vs)" and c: "s # us = as @ [p]" "vs @ [s] = q # bs"
    and h': "\<And>a. a \<in> set (s # us @ vs) \<Longrightarrow> a \<noteq> p \<Longrightarrow> nnext h' a = nnext h a"
      "\<And>a. a \<in> set (s # us @ vs) \<Longrightarrow> a \<noteq> q \<Longrightarrow> nprev h' a = nprev h a"
  shows "chain h' (as @ [p]) = chain h (as @ [p])" "chain h' (q # bs) = chain h (q # bs)"
proof -
  have "distinct (as @ [p])" "distinct (s # vs)" using d by (simp_all flip: c(1))
  then have as: "p \<notin> set as" "set as \<subseteq> set (s # us)" "us = tl (as @ [p])"
    using c(1) by (simp, metis set_append Un_upper1, metis list.sel(3))
  have q: "q \<in> set (vs @ [s])" "p \<in> set (s # us)" "set bs \<subseteq> set (vs @ [s])"
    using c by (metis list.set_intros(1), metis in_set_conv_decomp, metis set_subset_Cons)
  have bs: "vs = butlast (q # bs)" "q \<notin> set bs"
    using \<open>distinct (s # vs)\<close> by (metis butlast_snoc c(2), cases vs) (use c(2) in auto)
  show "chain h' (as @ [p]) = chain h (as @ [p])"
  proof (rule chain_cong)
    fix a assume "a \<in> set (butlast (as @ [p]))"
    with as show "nnext h' a = nnext h a" by (intro h') auto
  next
    fix b assume "b \<in> set (tl (as @ [p]))"
    with as(3) q(1) d show "nprev h' b = nprev h b" by (intro h') auto
  qed
  show "chain h' (q # bs) = chain h (q # bs)"
  proof (rule chain_cong)
    fix a assume "a \<in> set (butlast (q # bs))"
    with bs(1) q(2) d show "nnext h' a = nnext h a" by (intro h') auto
  next
    fix b assume "b \<in> set (tl (q # bs))"
    with bs(2) q(3) show "nprev h' b = nprev h b" by (intro h') auto
  qed
qed

lemma insertBefore_ilist:
  assumes "is_ilist h s (us @ vs)" "n \<notin> set (s # us @ vs)"
  shows "is_ilist (insertBefore h (hd (vs @ [s])) n) s (us @ n # vs)"
proof -
  obtain as p q bs where c: "s # us = as @ [p]" "vs @ [s] = q # bs" "nnext h p = q" "nprev h q = p"
    "chain h (as @ [p])" "chain h (q # bs)"
    using assms(1) by (rule ilist_cut)
  define h' where "h' = insertBefore h q n"
  have d: "distinct (s # us @ vs)" using assms(1) by (simp add: is_ilist_def)
  have h': "nnext h' = (nnext h)(n := q, p := n)" "nprev h' = (nprev h)(n := p, q := n)"
    by (simp_all add: h'_def insertBefore_def Let_def c(4))
  have "p \<in> set (s # us)" "q \<in> set (vs @ [s])"
    using c(1,2) by (metis in_set_conv_decomp, metis list.set_intros(1))
  then have n: "n \<noteq> p" "n \<noteq> q" using assms(2) by auto
  have "nnext h' a = nnext h a" if "a \<in> set (s # us @ vs)" "a \<noteq> p" for a
    using that assms(2) by (auto simp: h')
  moreover have "nprev h' a = nprev h a" if "a \<in> set (s # us @ vs)" "a \<noteq> q" for a
    using that assms(2) by (auto simp: h')
  ultimately have "chain h' (as @ [p])" "chain h' (q # bs)"
    using ilist_cut_frame [OF d c(1,2), of h' h] c(5,6) by blast+
  then have "chain h' (as @ [p, n] @ q # bs)"
    using n unfolding chain_link by (simp add: h')
  then have "chain h' (s # us @ n # vs @ [s])"
    using c(1,2) by (metis append_Cons append_Nil append_assoc)
  then show ?thesis
    using assms d c(2) by (auto simp: is_ilist_def h'_def)
qed

lemma remove_ilist:
  assumes "is_ilist h s (us @ n # vs)"
  shows "is_ilist (il_remove h n) s (us @ vs)" "nnext h n = hd (vs @ [s])"
proof -
  obtain as p where p: "s # us = as @ [p]" "nprev h n = p" "chain h (as @ [p])"
    using assms by (rule ilist_cut) auto
  have "is_ilist h s ((us @ [n]) @ vs)" using assms by simp
  then obtain as' q bs where q: "s # us @ [n] = as' @ [n]" "vs @ [s] = q # bs" "nnext h n = q"
    "chain h (q # bs)"
    by (rule ilist_cut) auto
  define h' where "h' = il_remove h n"
  have d: "distinct (s # us @ vs)" using assms by (simp add: is_ilist_def)
  have h': "nnext h' = (nnext h)(p := q)" "nprev h' = (nprev h)(q := p)"
    by (simp_all add: h'_def il_remove_def Let_def p(2) q(3))
  have "chain h' (as @ [p])" "chain h' (q # bs)"
    using ilist_cut_frame [OF d p(1) q(2), of h' h] p(3) q(4) by (auto simp: h')
  then have "chain h' (as @ [p, q] @ bs)"
    unfolding chain_link by (simp add: h')
  then have "chain h' (s # us @ vs @ [s])"
    using p(1) q(2) by (metis append_Cons append_Nil append_assoc)
  then show "is_ilist (il_remove h n) s (us @ vs)"
    using d by (simp add: is_ilist_def h'_def)
  show "nnext h n = hd (vs @ [s])" by (simp add: q)
qed

lemma walk_ilist:
  assumes "is_ilist h s (us @ vs)" "length vs < fuel"
  shows "il_walk fuel h s (hd (vs @ [s])) = vs"
  using assms
proof (induction vs arbitrary: us fuel)
  case Nil
  then show ?case by (cases fuel) auto
next
  case (Cons v vs)
  then obtain f where f: "fuel = Suc f" "length vs < f" by (cases fuel) auto
  have "nnext h v = hd (vs @ [s])" using Cons.prems(1) by (rule remove_ilist)
  moreover have "v \<noteq> s" using Cons.prems(1) by (auto simp: is_ilist_def)
  ultimately show ?case
    using Cons.IH [of "us @ [v]" f] Cons.prems(1) f by simp
qed

subsection \<open>Refinement\<close>

text \<open>The iterator at position \<open>i\<close> of a list; position \<open>length xs\<close> is \<open>end()\<close>.\<close>

definition il_pos :: "uptr \<Rightarrow> uptr list \<Rightarrow> nat \<Rightarrow> uptr" where
  "il_pos sent xs i = (xs @ [sent]) ! i"

lemma il_pos_hd: "i \<le> length xs \<Longrightarrow> il_pos s xs i = hd (drop i xs @ [s])"
  by (cases "i = length xs") (simp_all add: il_pos_def nth_append hd_append hd_drop_conv_nth)

text \<open>
  C38. The linked list refines a sequence: inserting a fresh node before the iterator at
  position \<open>i\<close> gives the list with the node inserted there; \<open>push_back\<close> appends; erasing at a
  position removes that element and returns the iterator to its successor, and at \<open>end()\<close> fails
  its assertion; iterating from \<open>begin()\<close> visits exactly the elements, in order.
\<close>

theorem ilist_refines_list:
  assumes "is_ilist h s xs" "i \<le> length xs"
  shows "(n \<notin> set (s # xs) \<longrightarrow> is_ilist (insertBefore h (il_pos s xs i) n) s (il_insert i n xs)) \<and>
    (n \<notin> set (s # xs) \<longrightarrow> is_ilist (il_push_back h s n) s (xs @ [n])) \<and>
    (case il_erase_at h s (il_pos s xs i) of
       Inl e \<Rightarrow> e = AssertFail \<and> i = length xs
     | Inr (it, h') \<Rightarrow> i < length xs \<and> is_ilist h' s (il_erase i xs) \<and> it = il_pos s (il_erase i xs) i) \<and>
    il_walk (Suc (length xs)) h s (il_begin h s) = xs \<and> (il_empty h s \<longleftrightarrow> xs = [])"
proof (intro conjI impI)
  assume n: "n \<notin> set (s # xs)"
  then show "is_ilist (insertBefore h (il_pos s xs i) n) s (il_insert i n xs)"
    using insertBefore_ilist [of h s "take i xs" "drop i xs" n] assms
    by (auto simp: il_pos_hd il_insert_def)
  show "is_ilist (il_push_back h s n) s (xs @ [n])"
    using insertBefore_ilist [of h s xs "[]" n] assms n by (simp add: il_push_back_def)
next
  show "case il_erase_at h s (il_pos s xs i) of
       Inl e \<Rightarrow> e = AssertFail \<and> i = length xs
     | Inr (it, h') \<Rightarrow> i < length xs \<and> is_ilist h' s (il_erase i xs) \<and> it = il_pos s (il_erase i xs) i"
  proof (cases "i = length xs")
    case True
    then show ?thesis by (simp add: il_erase_at_def il_pos_def)
  next
    case False
    then have i: "i < length xs" and split: "xs = take i xs @ xs ! i # drop (Suc i) xs"
      using assms(2) by (simp_all add: id_take_nth_drop)
    have "is_ilist h s (take i xs @ xs ! i # drop (Suc i) xs)" using assms(1) split by simp
    note r = remove_ilist [OF this]
    have "xs ! i \<noteq> s" using assms(1) i by (auto simp: is_ilist_def)
    then show ?thesis
      using r i by (simp add: il_erase_at_def il_pos_def il_erase_def nth_append hd_conv_nth)
  qed
next
  have "hd (xs @ [s]) = nnext h s"
    using assms(1) by (cases xs) (auto simp: is_ilist_def)
  then show "il_walk (Suc (length xs)) h s (il_begin h s) = xs"
    using walk_ilist [of h s "[]" xs "Suc (length xs)"] assms(1) by (simp add: il_begin_def)
  show "il_empty h s \<longleftrightarrow> xs = []"
    using assms(1) chain_append [of h "s # butlast xs" "last xs" "[s]"]
    by (cases xs rule: rev_cases) (auto simp: is_ilist_def il_empty_def)
qed

theorem ilist_refines_list_witness:
  "is_ilist (sentinel_reset \<lparr>nprev = (\<lambda>_. 0), nnext = (\<lambda>_. 0)\<rparr> 8) 8 [] \<and>
   is_ilist (il_push_back (sentinel_reset \<lparr>nprev = (\<lambda>_. 0), nnext = (\<lambda>_. 0)\<rparr> 8) 8 16) 8 [16]"
proof -
  have "is_ilist (sentinel_reset \<lparr>nprev = (\<lambda>_. 0), nnext = (\<lambda>_. 0)\<rparr> 8) 8 []"
    by (simp add: is_ilist_def sentinel_reset_def)
  with ilist_refines_list [OF this, of 0 16] show ?thesis by simp
qed

end
