(* ===== verification/Qir_Opt.thy ===== *)
theory Qir_Opt
  imports Qir_Sem Ilist
begin

section \<open>Builder and constant folder: ir/qir\_builder.h, ir/qir\_opt.cpp\<close>

text \<open>
  \<open>Builder::Create\<close> inserts a new instruction before the builder's position in the block's
  instruction list and runs the folder on it. \<open>FolderVisitor\<close> may swap the operands of an
  addition in place, or insert a \<open>mov\<close> before it and erase it. Positions of iterators are
  indices into the instruction list (theory Ilist).
\<close>

subsection \<open>Folding\<close>

text \<open>
  The visitor's effect on one instruction: the instruction as modified in place, and the
  \<open>mov\<close> it creates when it returns true.
\<close>

definition visit_add :: "voperand \<Rightarrow> voperand \<Rightarrow> voperand \<Rightarrow> inst \<times> inst option" where
  "visit_add vd vs0 vs1 =
     (case (vs0, vs1) of
        (VConst t0 c0, VConst t1 c1) \<Rightarrow> (Binop B_add vd vs0 vs1, Some (Mov vd (VConst T_I32 (c0 + c1))))
      | _ \<Rightarrow>
          (let (vs0', vs1') = (if is_const vs0 then (vs1, vs0) else (vs0, vs1)) in
           case vs1' of
             VConst t c \<Rightarrow>
               (Binop B_add vd vs0' vs1', if c = 0 then Some (Mov vd vs0') else None)
           | _ \<Rightarrow> (Binop B_add vd vs0' vs1', None)))"

definition folder_visit :: "inst \<Rightarrow> inst \<times> inst option" where
  "folder_visit ins =
     (case ins of
        Binop bop vd vs0 vs1 \<Rightarrow> if bop = B_add then visit_add vd vs0 vs1 else (ins, None)
      | _ \<Rightarrow> (ins, None))"

text \<open>
  \<open>ApplyFolder\<close> on the instruction at index \<open>i\<close>. The \<open>mov\<close> is itself created through the
  builder, whose folder leaves it alone.
\<close>

definition ApplyFolder :: "inst list \<Rightarrow> nat \<Rightarrow> inst list" where
  "ApplyFolder l i =
     (case folder_visit (l ! i) of
        (ins', None) \<Rightarrow> l[i := ins']
      | (ins', Some mv) \<Rightarrow>
          (let l1 = il_insert i (fst (folder_visit mv)) (l[i := ins']) in il_erase (Suc i) l1))"

definition Builder_Create :: "inst list \<Rightarrow> nat \<Rightarrow> inst \<Rightarrow> inst list" where
  "Builder_Create l it ins = ApplyFolder (il_insert it ins l) it"

subsection \<open>What the folder does\<close>

definition fold_inst :: "inst \<Rightarrow> inst" where
  "fold_inst ins = (case folder_visit ins of (ins', None) \<Rightarrow> ins' | (ins', Some mv) \<Rightarrow> mv)"

lemma folder_visit_mov: "folder_visit ins = (ins', Some mv) \<Longrightarrow> folder_visit mv = (mv, None)"
  by (auto simp: folder_visit_def visit_add_def Let_def
      split: inst.splits if_splits voperand.splits)

lemma ApplyFolder_eq:
  assumes "i < length l"
  shows "ApplyFolder l i = l[i := fold_inst (l ! i)]"
proof (cases "folder_visit (l ! i)")
  case (Pair ins' r)
  show ?thesis
  proof (cases r)
    case None
    with Pair show ?thesis
      by (simp add: ApplyFolder_def fold_inst_def)
  next
    case (Some mv)
    have "fst (folder_visit mv) = mv"
      using folder_visit_mov Pair Some by fastforce
    with Pair Some assms show ?thesis
      by (simp add: ApplyFolder_def fold_inst_def il_insert_def il_erase_def upd_conv_take_nth_drop
          min_def)
  qed
qed

lemma Builder_Create_eq:
  "it \<le> length l \<Longrightarrow> Builder_Create l it ins = il_insert it (fold_inst ins) l"
  by (simp add: Builder_Create_def ApplyFolder_eq il_insert_def nth_append list_update_append)

lemma exec_fold_inst: "exec_inst vmem (fold_inst ins) st = exec_inst vmem ins st"
  by (cases ins)
    (auto simp: fold_inst_def folder_visit_def visit_add_def Let_def is_const_def add.commute
      split: voperand.splits option.splits Option.bind_splits)

text \<open>
  C33. Creating an instruction through the builder at any position of a block puts exactly one
  instruction there, the folded one, and the folded instruction has the meaning of the one
  that was asked for in every state.
\<close>

theorem Builder_Create_correct:
  assumes "it \<le> length l"
  shows "\<exists>ins'. Builder_Create l it ins = take it l @ ins' # drop it l \<and>
    (\<forall>vmem st. exec_inst vmem ins' st = exec_inst vmem ins st)"
  using assms by (auto simp: Builder_Create_eq il_insert_def exec_fold_inst)

theorem Builder_Create_correct_witness:
  "0 \<le> length [Br] \<and> Builder_Create [Br] 0 (Binop B_add (VVReg T_I32 4) (VConst T_I32 0) (VVReg T_I32 7))
     = [Mov (VVReg T_I32 4) (VVReg T_I32 7), Br]"
proof -
  have "\<exists>ins'. Builder_Create [Br] 0 (Binop B_add (VVReg T_I32 4) (VConst T_I32 0) (VVReg T_I32 7))
     = take 0 [Br] @ ins' # drop 0 [Br]"
    using Builder_Create_correct [of 0 "[Br]"] by blast
  then show ?thesis
    by (simp add: Builder_Create_def ApplyFolder_def il_insert_def il_erase_def folder_visit_def
        visit_add_def is_const_def)
qed

end
