(* ===== verification/Arch_Traits.thy ===== *)
theory Arch_Traits
  imports Qir_Opt
begin

section \<open>The target description: codegen/arch\_traits.h, codegen/arch\_traits.cpp\<close>

text \<open>
  Register masks, the registers of the host and their roles, and the table that says, for every
  IR operation, which registers and which constants its operands may be and which input has to be
  the same register as the output. The table is built by \<open>InstCt::Make\<close> at compile time; here it is
  built by the same function. An operation without an entry has a null \<open>ra_ct\<close>: \<open>None\<close>.
\<close>

subsection \<open>Register masks\<close>

type_synonym reg_mask = u32

definition rm_Test :: "reg_mask \<Rightarrow> regn \<Rightarrow> bool" where
  "rm_Test m r \<longleftrightarrow> m AND push_bit (unat r) 1 \<noteq> 0"

definition rm_Set :: "reg_mask \<Rightarrow> regn \<Rightarrow> reg_mask" where
  "rm_Set m r = m OR push_bit (unat r) 1"

text \<open>\<open>std::popcount\<close>.\<close>

definition rm_count :: "reg_mask \<Rightarrow> nat" where
  "rm_count m = length (filter (bit m) [0 ..< 32])"

lemma rm_Test_bit: "rm_Test m r \<longleftrightarrow> bit m (unat r)"
proof -
  have "m AND push_bit (unat r) 1 = of_bool (bit m (unat r)) * push_bit (unat r) 1"
    by (rule bit_word_eqI) (auto simp: bit_simps)
  moreover have "push_bit (unat r) (1 :: u32) \<noteq> 0" if "bit m (unat r)"
    using bit_imp_le_length [OF that] by (simp add: push_bit_eq_mult)
  ultimately show ?thesis by (auto simp: rm_Test_def)
qed

lemma rm_Test_Set [simp]: "unat r < 32 \<Longrightarrow> rm_Test (rm_Set m r) q \<longleftrightarrow> q = r \<or> rm_Test m q"
  by (auto simp: rm_Test_bit rm_Set_def bit_simps word_unat_eq_iff)

lemma rm_Test_and [simp]: "rm_Test (a AND b) r \<longleftrightarrow> rm_Test a r \<and> rm_Test b r"
  by (simp add: rm_Test_bit bit_simps)

lemma rm_Test_not [simp]: "unat r < 32 \<Longrightarrow> rm_Test (NOT a) r \<longleftrightarrow> \<not> rm_Test a r"
  by (simp add: rm_Test_bit bit_simps)

lemma rm_Test_zero [simp]: "\<not> rm_Test 0 r"
  by (simp add: rm_Test_bit)

subsection \<open>Registers\<close>

text \<open>The hardware numbers of the general purpose registers.\<close>

definition GPR_NUM :: nat where "GPR_NUM = 16"
definition RAX :: regn where "RAX = 0"
definition RCX :: regn where "RCX = 1"
definition RDX :: regn where "RDX = 2"
definition RSP :: regn where "RSP = 4"
definition RBP :: regn where "RBP = 5"
definition RSI :: regn where "RSI = 6"
definition RDI :: regn where "RDI = 7"
definition R8 :: regn where "R8 = 8"
definition R9 :: regn where "R9 = 9"
definition R10 :: regn where "R10 = 10"
definition R11 :: regn where "R11 = 11"
definition R13 :: regn where "R13 = 13"

definition STATE :: regn where "STATE = R13"
definition MEMBASE :: regn where "MEMBASE = RBP"
definition SP :: regn where "SP = RSP"

definition GPR_FIXED :: reg_mask where
  "GPR_FIXED = rm_Set (rm_Set (rm_Set 0 STATE) MEMBASE) SP"

definition GPR_CALL_CLOBBER :: reg_mask where
  "GPR_CALL_CLOBBER = fold (\<lambda>r m. rm_Set m r) [RAX, RDI, RSI, RDX, RCX, R8, R9, R10, R11] 0"

definition GPR_ALL :: reg_mask where "GPR_ALL = push_bit GPR_NUM 1 - 1"
definition GPR_POOL :: reg_mask where "GPR_POOL = GPR_ALL AND NOT GPR_FIXED"
definition GPR_CALL_SAVED :: reg_mask where "GPR_CALL_SAVED = GPR_ALL AND NOT GPR_CALL_CLOBBER"

definition spillframe_size :: u16 where "spillframe_size = 1024"

lemmas reg_defs = RAX_def RCX_def RDX_def RSP_def RBP_def RSI_def RDI_def R8_def R9_def R10_def
  R11_def R13_def STATE_def MEMBASE_def SP_def

lemma GPR_ALL_mask: "GPR_ALL = mask 16"
  by (simp add: GPR_ALL_def GPR_NUM_def mask_eq_exp_minus_1)

lemma rm_Test_ALL: "rm_Test GPR_ALL r \<longleftrightarrow> unat r < 16"
  unfolding rm_Test_bit GPR_ALL_mask by (simp only: bit_mask_iff) (auto simp: possible_bit_def)

lemma rm_Test_FIXED: "rm_Test GPR_FIXED r \<longleftrightarrow> r \<in> {STATE, MEMBASE, SP}"
  by (auto simp: GPR_FIXED_def reg_defs)

lemma rm_Test_CLOBBER:
  "rm_Test GPR_CALL_CLOBBER r \<longleftrightarrow> r \<in> {RAX, RDI, RSI, RDX, RCX, R8, R9, R10, R11}"
  by (auto simp: GPR_CALL_CLOBBER_def reg_defs)

subsection \<open>Constraints\<close>

type_synonym ract_imm = u8

definition CI_NO :: ract_imm where "CI_NO = push_bit 0 0"
definition CI_ANY :: ract_imm where "CI_ANY = push_bit 0 1"
definition CI_S32 :: ract_imm where "CI_S32 = push_bit 1 1"
definition CI_U32 :: ract_imm where "CI_U32 = push_bit 2 1"

record ra_op_ct =
  ct_cr :: reg_mask
  ct_ci :: ract_imm
  ct_has_alias :: bool
  ct_alias :: nat

definition SetAlias :: "ra_op_ct \<Rightarrow> nat \<Rightarrow> ra_op_ct" where
  "SetAlias ct a = ct\<lparr>ct_has_alias := True, ct_alias := a\<rparr>"

text \<open>\<open>RACtDefOrAlias\<close>, and the constraint a definition stands for.\<close>

datatype ra_ct_def = CtDef reg_mask ract_imm | CtAlias nat

definition mk_ct :: "reg_mask \<Rightarrow> ract_imm \<Rightarrow> ra_op_ct" where
  "mk_ct cr ci = \<lparr>ct_cr = cr, ct_ci = ci, ct_has_alias = False, ct_alias = 0\<rparr>"

text \<open>
  The second loop of \<open>InstCt::Make\<close>: an aliased input copies the constraint of its output, and the
  two point to each other.
\<close>

fun make_inputs :: "ra_op_ct list \<Rightarrow> ra_ct_def list \<Rightarrow> ra_op_ct list" where
  "make_inputs ct [] = ct"
| "make_inputs ct (CtDef cr ci # ds) = make_inputs (ct @ [mk_ct cr ci]) ds"
| "make_inputs ct (CtAlias a # ds) =
     make_inputs ((ct @ [SetAlias (ct ! a) a])[a := SetAlias (ct ! a) (length ct)]) ds"

text \<open>
  The lambda \<open>order_ct\<close>: operand numbers, relative to \<open>start\<close>, by increasing size of the mask.
  \<open>std::sort\<close> on so few elements is insertion sort, which keeps the order of equal elements.
\<close>

definition order_ct :: "ra_op_ct list \<Rightarrow> nat \<Rightarrow> nat \<Rightarrow> nat list" where
  "order_ct ct start len = sort_key (\<lambda>i. rm_count (ct_cr (ct ! (i + start)))) [0 ..< len]"

definition InstCt_Make ::
  "(reg_mask \<times> ract_imm) list \<Rightarrow> ra_ct_def list \<Rightarrow> ra_op_ct list \<times> nat list" where
  "InstCt_Make odefs idefs =
     (let ct = make_inputs (map (\<lambda>(cr, ci). mk_ct cr ci) odefs) idefs
      in (ct, order_ct ct 0 (length odefs) @ order_ct ct (length odefs) (length idefs)))"

definition CT_R :: reg_mask where "CT_R = GPR_ALL"
definition CT_R8 :: reg_mask where "CT_R8 = GPR_ALL"
definition CT_CX :: reg_mask where "CT_CX = rm_Set 0 RCX"
definition CT_SI :: reg_mask where "CT_SI = rm_Set 0 RSI"

type_synonym inst_ct = "ra_op_ct list \<times> nat list"

definition CT_INFO_r_rs32 :: inst_ct where
  "CT_INFO_r_rs32 = InstCt_Make [] [CtDef CT_R CI_NO, CtDef CT_R CI_S32]"
definition CT_INFO_si :: inst_ct where
  "CT_INFO_si = InstCt_Make [] [CtDef CT_SI CI_NO]"
definition CT_INFO_r_ru32 :: inst_ct where
  "CT_INFO_r_ru32 = InstCt_Make [(CT_R, CI_NO)] [CtDef CT_R CI_U32]"
definition CT_INFO_r_ri :: inst_ct where
  "CT_INFO_r_ri = InstCt_Make [(CT_R, CI_NO)] [CtDef CT_R CI_ANY]"
definition CT_INFO_ri_r :: inst_ct where
  "CT_INFO_ri_r = InstCt_Make [] [CtDef CT_R CI_ANY, CtDef CT_R CI_NO]"
definition CT_INFO_r8_r_rs32 :: inst_ct where
  "CT_INFO_r8_r_rs32 = InstCt_Make [(CT_R8, CI_NO)] [CtDef CT_R CI_NO, CtDef CT_R CI_S32]"
definition CT_INFO_r_0_rs32 :: inst_ct where
  "CT_INFO_r_0_rs32 = InstCt_Make [(CT_R, CI_NO)] [CtAlias 0, CtDef CT_R CI_S32]"
definition CT_INFO_r_0_ru32 :: inst_ct where
  "CT_INFO_r_0_ru32 = InstCt_Make [(CT_R, CI_NO)] [CtAlias 0, CtDef CT_R CI_U32]"
definition CT_INFO_r_0_cxi :: inst_ct where
  "CT_INFO_r_0_cxi = InstCt_Make [(CT_R, CI_NO)] [CtAlias 0, CtDef CT_CX CI_ANY]"

text \<open>\<open>ARCH_OP_CT_LIST\<close>, as \<open>ArchTraits::init\<close> enters it into \<open>op_info\<close>.\<close>

primrec binop_ct :: "binop \<Rightarrow> inst_ct" where
  "binop_ct B_add = CT_INFO_r_0_rs32" | "binop_ct B_sub = CT_INFO_r_0_rs32"
| "binop_ct B_and = CT_INFO_r_0_ru32" | "binop_ct B_or = CT_INFO_r_0_rs32"
| "binop_ct B_xor = CT_INFO_r_0_rs32" | "binop_ct B_sra = CT_INFO_r_0_cxi"
| "binop_ct B_srl = CT_INFO_r_0_cxi" | "binop_ct B_sll = CT_INFO_r_0_cxi"

primrec op_info :: "inst \<Rightarrow> inst_ct option" where
  "op_info (Hcall _ _) = None" | "op_info Br = None" | "op_info (GBr _) = None"
| "op_info (Brcc _ _ _) = Some CT_INFO_r_rs32"
| "op_info (GBrind _) = Some CT_INFO_si"
| "op_info (VMLoad _ _ _ _) = Some CT_INFO_r_ru32"
| "op_info (VMStore _ _ _ _) = Some CT_INFO_ri_r"
| "op_info (Setcc _ _ _ _) = Some CT_INFO_r8_r_rs32"
| "op_info (Mov _ _) = Some CT_INFO_r_ri"
| "op_info (Binop bop _ _ _) = Some (binop_ct bop)"

text \<open>\<open>val\<close> is an \<open>i64\<close>; both comparisons are made at that type.\<close>

definition match_gp_const :: "vtype \<Rightarrow> u64 \<Rightarrow> ract_imm \<Rightarrow> bool" where
  "match_gp_const t val ct \<longleftrightarrow>
     (ct AND CI_ANY \<noteq> 0 \<or> (ct AND CI_U32 \<noteq> 0 \<and> ucast (ucast val :: u32) = val) \<or>
      (ct AND CI_S32 \<noteq> 0 \<and> scast (ucast val :: u32) = val))"

subsection \<open>The tables, evaluated\<close>

lemma rm_counts: "rm_count CT_R = 16" "rm_count CT_CX = 1" "rm_count CT_SI = 1"
  by (simp_all add: rm_count_def CT_R_def GPR_ALL_def GPR_NUM_def CT_CX_def CT_SI_def rm_Set_def
      reg_defs upt_rec bit_simps)

definition ct_reg :: "reg_mask \<Rightarrow> ract_imm \<Rightarrow> nat option \<Rightarrow> ra_op_ct" where
  "ct_reg cr ci al = \<lparr>ct_cr = cr, ct_ci = ci, ct_has_alias = (al \<noteq> None), ct_alias = (case al of None \<Rightarrow> 0 | Some a \<Rightarrow> a)\<rparr>"

lemma CT_INFO_eval:
  "CT_INFO_r_rs32 = ([ct_reg CT_R CI_NO None, ct_reg CT_R CI_S32 None], [0, 1])"
  "CT_INFO_si = ([ct_reg CT_SI CI_NO None], [0])"
  "CT_INFO_r_ru32 = ([ct_reg CT_R CI_NO None, ct_reg CT_R CI_U32 None], [0, 0])"
  "CT_INFO_r_ri = ([ct_reg CT_R CI_NO None, ct_reg CT_R CI_ANY None], [0, 0])"
  "CT_INFO_ri_r = ([ct_reg CT_R CI_ANY None, ct_reg CT_R CI_NO None], [0, 1])"
  "CT_INFO_r8_r_rs32 = ([ct_reg CT_R CI_NO None, ct_reg CT_R CI_NO None, ct_reg CT_R CI_S32 None], [0, 0, 1])"
  "CT_INFO_r_0_rs32 = ([ct_reg CT_R CI_NO (Some 1), ct_reg CT_R CI_NO (Some 0), ct_reg CT_R CI_S32 None], [0, 0, 1])"
  "CT_INFO_r_0_ru32 = ([ct_reg CT_R CI_NO (Some 1), ct_reg CT_R CI_NO (Some 0), ct_reg CT_R CI_U32 None], [0, 0, 1])"
  "CT_INFO_r_0_cxi = ([ct_reg CT_R CI_NO (Some 1), ct_reg CT_R CI_NO (Some 0), ct_reg CT_CX CI_ANY None], [0, 1, 0])"
  by (simp_all add: CT_INFO_r_rs32_def CT_INFO_si_def CT_INFO_r_ru32_def CT_INFO_r_ri_def CT_INFO_ri_r_def
      CT_INFO_r8_r_rs32_def CT_INFO_r_0_rs32_def CT_INFO_r_0_ru32_def CT_INFO_r_0_cxi_def InstCt_Make_def
      mk_ct_def SetAlias_def order_ct_def ct_reg_def rm_counts CT_R8_def CT_R_def [symmetric] upt_rec Let_def)

lemma match_gp_const_simps:
  "match_gp_const t v CI_ANY" "\<not> match_gp_const t v CI_NO"
  "match_gp_const t (ucast (c :: u32)) CI_U32"
  "match_gp_const t (ucast (c :: u32)) CI_S32 \<longleftrightarrow> c < 2 ^ 31"
proof -
  show "match_gp_const t v CI_ANY" "\<not> match_gp_const t v CI_NO"
    by (simp_all add: match_gp_const_def CI_ANY_def CI_NO_def)
  have 1: "ucast (ucast c :: u64) = c"
    by (rule bit_word_eqI) (simp add: bit_simps)
  show "match_gp_const t (ucast c) CI_U32"
    by (simp add: match_gp_const_def CI_ANY_def CI_U32_def 1)
  have "scast c = (ucast c :: u64) \<longleftrightarrow> \<not> bit c 31"
  proof
    assume "scast c = (ucast c :: u64)"
    then have "bit (scast c :: u64) 63 = bit (ucast c :: u64) 63" by simp
    moreover have "\<not> bit c 63" using bit_imp_le_length [of c 63] by auto
    ultimately show "\<not> bit c 31" by (simp add: bit_simps)
  next
    assume nb: "\<not> bit c 31"
    have "bit c (min 31 n) = bit c n" for n
      using nb bit_imp_le_length [of c n] by (cases "n < 31"; cases "n = 31") (auto simp: min_def)
    then show "scast c = (ucast c :: u64)" by (intro bit_word_eqI) (simp add: bit_simps)
  qed
  moreover have "c < 2 ^ 31 \<longleftrightarrow> \<not> bit c 31"
  proof
    show "c < 2 ^ 31 \<Longrightarrow> \<not> bit c 31" using bit_less_power2 [of c 31 31] by blast
    assume nb: "\<not> bit c 31"
    have "n < 31" if "bit c n" for n
      using bit_imp_le_length [OF that] nb that by (cases "n = 31") auto
    then have "take_bit 31 c = c" by (intro bit_word_eqI) (auto simp: bit_simps)
    moreover have "take_bit 31 c \<le> mask 31" by (simp add: take_bit_eq_mask word_and_le1)
    ultimately show "c < 2 ^ 31" by (simp add: mask_eq_exp_minus_1 word_le_nat_alt word_less_nat_alt)
  qed
  ultimately show "match_gp_const t (ucast c) CI_S32 \<longleftrightarrow> c < 2 ^ 31"
    by (simp add: match_gp_const_def CI_ANY_def CI_U32_def CI_S32_def 1)
qed

end
