(* ===== verification/Branch_Slot.thy ===== *)
theory Branch_Slot
  imports Prelude
begin

section \<open>Patch points of translated code: codegen/jitabi.h\<close>

text \<open>
  A direct exit of a translated region is a \<open>BranchSlot\<close>: twelve bytes of machine code that are
  patched when the target is known, the guest address of the target and a flag. The bytes are
  those of the packed structures \<open>Call64Abs\<close>, \<open>Jump64Abs\<close> and \<open>Jump32Rel\<close>. What the processor does
  at a slot is read back by a decoder for these three instruction sequences.
\<close>

subsection \<open>Layout\<close>

definition unaligned_store64 :: "mem \<Rightarrow> uptr \<Rightarrow> u64 \<Rightarrow> mem" where
  "unaligned_store64 m p v =
     unaligned_store32 (unaligned_store32 m p (ucast v)) (p + 4) (ucast (drop_bit 32 v))"

definition unaligned_load64 :: "mem \<Rightarrow> uptr \<Rightarrow> u64" where
  "unaligned_load64 m p =
     ucast (unaligned_load32 m p) OR push_bit 32 (ucast (unaligned_load32 m (p + 4)))"

text \<open>Sizes of the packed structures and offsets of the members behind the code union.\<close>

definition sizeof_Call64Abs :: u64 where "sizeof_Call64Abs = 12"
definition sizeof_Jump32Rel :: u64 where "sizeof_Jump32Rel = 5"
definition sizeof_CallTab :: u64 where "sizeof_CallTab = 7"
definition offs_gip :: u64 where "offs_gip = 12"
definition offs_flags :: u64 where "offs_flags = 16"
definition sizeof_BranchSlot :: u64 where "sizeof_BranchSlot = 17"

definition slot_gip :: "mem \<Rightarrow> uptr \<Rightarrow> u32" where
  "slot_gip m slot = unaligned_load32 m (slot + offs_gip)"

definition slot_cross_segment :: "mem \<Rightarrow> uptr \<Rightarrow> bool" where
  "slot_cross_segment m slot = bit (m (slot + offs_flags)) 0"

subsection \<open>Patches\<close>

definition patch_Call64Abs :: "mem \<Rightarrow> uptr \<Rightarrow> u64 \<Rightarrow> mem" where
  "patch_Call64Abs m code imm =
     unaligned_store16 (unaligned_store64 (unaligned_store16 m code 0xb848) (code + 2) imm) (code + 10) 0xd0ff"

definition patch_Jump64Abs :: "mem \<Rightarrow> uptr \<Rightarrow> u64 \<Rightarrow> mem" where
  "patch_Jump64Abs m code imm =
     unaligned_store16 (unaligned_store64 (unaligned_store16 m code 0xb848) (code + 2) imm) (code + 10) 0xe0ff"

definition patch_Jump32Rel :: "mem \<Rightarrow> uptr \<Rightarrow> u32 \<Rightarrow> mem" where
  "patch_Jump32Rel m code imm = unaligned_store32 (unaligned_store8 m code 0xe9) (code + 1) imm"

text \<open>\<open>stub\<close> is the table entry of \<open>id_link_branch_jit\<close>.\<close>

definition LinkLazyJIT :: "uptr \<Rightarrow> mem \<Rightarrow> uptr \<Rightarrow> mem" where
  "LinkLazyJIT stub m slot = patch_Call64Abs m slot stub"

definition Link :: "mem \<Rightarrow> uptr \<Rightarrow> uptr \<Rightarrow> mem" where
  "Link m slot to =
     (let rel = to - (slot + sizeof_Jump32Rel) in
      if scast (ucast rel :: u32) = rel then patch_Jump32Rel m slot (ucast rel)
      else patch_Jump64Abs m slot to)"

definition FromCallPtrRetaddr :: "uptr \<Rightarrow> uptr" where
  "FromCallPtrRetaddr ra = ra - sizeof_Call64Abs"

definition FromCallRuntimeStubRetaddr :: "uptr \<Rightarrow> uptr" where
  "FromCallRuntimeStubRetaddr ra = ra - sizeof_CallTab"

text \<open>\<open>CodeSegment\<close>, as base address and size.\<close>

definition InSegment :: "u32 \<times> u32 \<Rightarrow> u32 \<Rightarrow> bool" where
  "InSegment seg gip \<longleftrightarrow> gip - fst seg < snd seg"

text \<open>
  \<open>QEmit::Emit_gbr\<close> embeds a zeroed slot, fills in the target and the flag, and leaves it unlinked.
\<close>

definition Emit_gbr :: "uptr \<Rightarrow> u32 \<times> u32 \<Rightarrow> u32 \<Rightarrow> mem \<Rightarrow> uptr \<Rightarrow> mem" where
  "Emit_gbr stub seg tpc m slot =
     (let m0 = (\<lambda>q. if q - slot < sizeof_BranchSlot then 0 else m q);
          m1 = unaligned_store32 m0 (slot + offs_gip) tpc;
          m2 = m1(slot + offs_flags := of_bool (\<not> InSegment seg tpc))
      in LinkLazyJIT stub m2 slot)"

subsection \<open>What the processor does at a slot\<close>

text \<open>
  From the instruction set manual: \<open>E9 rel32\<close> is a near jump relative to the next instruction,
  \<open>48 B8 imm64\<close> moves into \<open>rax\<close>, \<open>FF E0\<close> jumps to \<open>rax\<close> and \<open>FF D0\<close> calls it, pushing the address
  of the next instruction.
\<close>

datatype x86_ctl = X_jmp uptr | X_call uptr uptr | X_other

definition x86_at :: "mem \<Rightarrow> uptr \<Rightarrow> x86_ctl" where
  "x86_at m pc =
     (if m pc = 0xe9 then X_jmp (pc + 5 + scast (unaligned_load32 m (pc + 1)))
      else if m pc = 0x48 \<and> m (pc + 1) = 0xb8 \<and> m (pc + 10) = 0xff then
        (if m (pc + 11) = 0xe0 then X_jmp (unaligned_load64 m (pc + 2))
         else if m (pc + 11) = 0xd0 then X_call (unaligned_load64 m (pc + 2)) (pc + 12)
         else X_other)
      else X_other)"

lemma load64_store64 [mem_simps]: "unaligned_load64 (unaligned_store64 m p v) p = v"
proof -
  have "unaligned_load32 (unaligned_store32 m' (p + 4) w) p = unaligned_load32 m' p" for m' w
    by (simp add: unaligned_load32_def unaligned_store32_def)
  then have "unaligned_load64 (unaligned_store64 m p v) p = ucast (ucast v :: u32) OR
      push_bit 32 (ucast (ucast (drop_bit 32 v) :: u32))"
    by (simp add: unaligned_load64_def unaligned_store64_def mem_simps)
  also have "\<dots> = v"
    by (rule bit_word_eqI) (auto simp: bit_simps)
  finally show ?thesis .
qed

lemmas byte_defs = unaligned_store8_def unaligned_store16_def unaligned_store32_def unaligned_store64_def

lemma patch_frame:
  assumes "\<And>k. k < 12 \<Longrightarrow> q \<noteq> slot + of_nat k"
  shows "patch_Call64Abs m slot v q = m q" "patch_Jump64Abs m slot v q = m q"
    "patch_Jump32Rel m slot w q = m q"
proof -
  have "q \<noteq> slot" "q \<noteq> slot + 1" "q \<noteq> slot + 2" "q \<noteq> slot + 3" "q \<noteq> slot + 4" "q \<noteq> slot + 5"
    "q \<noteq> slot + 6" "q \<noteq> slot + 7" "q \<noteq> slot + 8" "q \<noteq> slot + 9" "q \<noteq> slot + 10" "q \<noteq> slot + 11"
    using assms [of 0] assms [of 1] assms [of 2] assms [of 3] assms [of 4] assms [of 5] assms [of 6]
      assms [of 7] assms [of 8] assms [of 9] assms [of 10] assms [of 11] by simp_all
  moreover from this have "q \<noteq> 2 + slot" "q \<noteq> 3 + slot" "q \<noteq> 4 + slot" "q \<noteq> 5 + slot" "q \<noteq> 6 + slot"
    "q \<noteq> 7 + slot" "q \<noteq> 8 + slot" "q \<noteq> 9 + slot" "q \<noteq> 11 + slot"
    by (simp_all add: add.commute)
  ultimately show "patch_Call64Abs m slot v q = m q" "patch_Jump64Abs m slot v q = m q"
    "patch_Jump32Rel m slot w q = m q"
    by (simp_all add: patch_Call64Abs_def patch_Jump64Abs_def patch_Jump32Rel_def byte_defs)
qed

lemma slot_offs_frame:
  "k < 12 \<Longrightarrow> j < 17 \<Longrightarrow> 12 \<le> j \<Longrightarrow> slot + of_nat j \<noteq> slot + (of_nat k :: uptr)"
proof -
  assume "k < 12" "j < 17" "12 \<le> j"
  then have "unat (of_nat j :: uptr) \<noteq> unat (of_nat k :: uptr)"
    by (simp add: unat_of_nat take_bit_nat_eq_self)
  then show ?thesis by auto
qed

lemma patch_members:
  assumes "m' = patch_Call64Abs m slot v \<or> m' = patch_Jump64Abs m slot v \<or> m' = patch_Jump32Rel m slot w"
  shows "slot_gip m' slot = slot_gip m slot" "slot_cross_segment m' slot = slot_cross_segment m slot"
proof -
  have "m' (slot + of_nat j) = m (slot + of_nat j)" if "12 \<le> j" "j < 17" for j
    using assms patch_frame [of "slot + of_nat j" slot] slot_offs_frame that by auto
  from this [of 12] this [of 13] this [of 14] this [of 15] this [of 16]
  show "slot_gip m' slot = slot_gip m slot" "slot_cross_segment m' slot = slot_cross_segment m slot"
    by (simp_all add: slot_gip_def slot_cross_segment_def unaligned_load32_def offs_gip_def offs_flags_def
        add.assoc)
qed

lemma x86_at_Jump32Rel: "x86_at (patch_Jump32Rel m slot w) slot = X_jmp (slot + 5 + scast w)"
  by (simp add: x86_at_def patch_Jump32Rel_def mem_simps) (simp add: byte_defs)

lemma patch_abs_imm:
  "unaligned_load64 (patch_Call64Abs m slot v) (slot + 2) = v"
  "unaligned_load64 (patch_Jump64Abs m slot v) (slot + 2) = v"
proof -
  have "unaligned_load64 (unaligned_store16 m' (slot + 10) w) (slot + 2) = unaligned_load64 m' (slot + 2)" for m' w
    by (simp add: unaligned_load64_def unaligned_load32_def unaligned_store16_def add.assoc)
  then show "unaligned_load64 (patch_Call64Abs m slot v) (slot + 2) = v"
    "unaligned_load64 (patch_Jump64Abs m slot v) (slot + 2) = v"
    by (simp_all add: patch_Call64Abs_def patch_Jump64Abs_def mem_simps)
qed

lemma x86_at_abs:
  "x86_at (patch_Call64Abs m slot v) slot = X_call v (slot + 12)"
  "x86_at (patch_Jump64Abs m slot v) slot = X_jmp v"
proof -
  have "patch_Call64Abs m slot v slot = 0x48" "patch_Call64Abs m slot v (slot + 1) = 0xb8"
    "patch_Call64Abs m slot v (slot + 10) = 0xff" "patch_Call64Abs m slot v (slot + 11) = 0xd0"
    "patch_Jump64Abs m slot v slot = 0x48" "patch_Jump64Abs m slot v (slot + 1) = 0xb8"
    "patch_Jump64Abs m slot v (slot + 10) = 0xff" "patch_Jump64Abs m slot v (slot + 11) = 0xe0"
    by (simp_all add: patch_Call64Abs_def patch_Jump64Abs_def byte_defs add.assoc)
  then show "x86_at (patch_Call64Abs m slot v) slot = X_call v (slot + 12)"
    "x86_at (patch_Jump64Abs m slot v) slot = X_jmp v"
    by (simp_all add: x86_at_def patch_abs_imm)
qed

lemma Link_spec:
  "x86_at (Link m slot to) slot = X_jmp to \<and> slot_gip (Link m slot to) slot = slot_gip m slot \<and>
   slot_cross_segment (Link m slot to) slot = slot_cross_segment m slot"
proof (cases "scast (ucast (to - (slot + 5)) :: u32) = to - (slot + 5)")
  case True
  then have "x86_at (Link m slot to) slot = X_jmp to"
    by (simp add: Link_def sizeof_Jump32Rel_def x86_at_Jump32Rel)
  moreover have "Link m slot to = patch_Jump32Rel m slot (ucast (to - (slot + 5)))"
    using True by (simp add: Link_def sizeof_Jump32Rel_def)
  ultimately show ?thesis using patch_members [of "Link m slot to" m slot] by auto
next
  case False
  then have "Link m slot to = patch_Jump64Abs m slot to"
    by (simp add: Link_def sizeof_Jump32Rel_def)
  then show ?thesis
    using patch_members [of "Link m slot to" m slot] x86_at_abs(2) by auto
qed

text \<open>
  C26. Wherever the slot and the translated code lie in the address space, a linked slot jumps to
  exactly the given address, by a short jump when its displacement fits into 32 bits and by an
  absolute one otherwise; linking keeps the slot's guest address and flag.
\<close>

theorem Link_jumps:
  "x86_at (Link m slot to) slot = X_jmp to \<and> slot_gip (Link m slot to) slot = slot_gip m slot \<and>
   slot_cross_segment (Link m slot to) slot = slot_cross_segment m slot"
  by (rule Link_spec)

lemma LinkLazyJIT_spec:
  "x86_at (LinkLazyJIT stub m slot) slot = X_call stub (slot + 12)"
  "slot_gip (LinkLazyJIT stub m slot) slot = slot_gip m slot"
  "slot_cross_segment (LinkLazyJIT stub m slot) slot = slot_cross_segment m slot"
  using patch_members [OF disjI1 [OF refl], of m slot stub] x86_at_abs(1) [of m slot stub]
  by (simp_all add: LinkLazyJIT_def)

text \<open>
  C27. An emitted exit calls the linking stub, and from the return address the stub finds on the
  stack \<open>FromCallPtrRetaddr\<close> recovers the slot itself; the slot holds the exit's guest address, and
  its flag says whether that address is outside the code segment. Unlinking a slot later brings
  the call back and keeps address and flag.
\<close>

theorem Emit_gbr_calls_stub:
  "(\<exists>ra. x86_at (Emit_gbr stub seg tpc m slot) slot = X_call stub ra \<and> FromCallPtrRetaddr ra = slot) \<and>
   slot_gip (Emit_gbr stub seg tpc m slot) slot = tpc \<and>
   slot_cross_segment (Emit_gbr stub seg tpc m slot) slot = (\<not> InSegment seg tpc) \<and>
   (\<exists>ra. x86_at (LinkLazyJIT stub m slot) slot = X_call stub ra \<and> FromCallPtrRetaddr ra = slot) \<and>
   slot_gip (LinkLazyJIT stub m slot) slot = slot_gip m slot \<and>
   slot_cross_segment (LinkLazyJIT stub m slot) slot = slot_cross_segment m slot"
proof -
  have g: "slot_gip (m'(slot + offs_flags := b)) slot = slot_gip m' slot" for m' b
    by (simp add: slot_gip_def offs_gip_def offs_flags_def unaligned_load32_def add.assoc)
  show ?thesis
    unfolding Emit_gbr_def Let_def LinkLazyJIT_spec g
    by (simp add: slot_gip_def slot_cross_segment_def mem_simps FromCallPtrRetaddr_def sizeof_Call64Abs_def)
qed

end
