(* ===== verification/X86.thy ===== *)
theory X86
  imports Arch_Traits Branch_Slot
begin

section \<open>The host machine\<close>

text \<open>
  The instructions that \<open>QEmit\<close> asks the assembler for, and what the processor does on them, from the
  instruction set manual: 16 registers of 64 bits, byte-addressed memory, the four arithmetic flags.
  A write to a 32-bit register clears its upper half, a write to an 8- or 16-bit register keeps the
  rest. Only \<open>cmp\<close> is given flags; other instructions that write flags leave them undefined here, and
  a conditional instruction on undefined flags has no meaning. A call has a meaning only when the
  stack pointer is aligned as the calling convention demands.
\<close>

subsection \<open>Operands\<close>

datatype xsz = S8 | S16 | S32 | S64

primrec xbits :: "xsz \<Rightarrow> nat" where
  "xbits S8 = 8" | "xbits S16 = 16" | "xbits S32 = 32" | "xbits S64 = 64"

datatype xbase = No_base | Base64 regn | Base32 regn

text \<open>Base, index with its scale, displacement. A 32-bit base makes the whole address 32 bits wide.\<close>

datatype xmem = XMem (xm_base: xbase) (xm_index: "(regn \<times> nat) option") (xm_disp: u64)

datatype xopr = XReg xsz regn | XImm u64 | XM xsz xmem

datatype xcc =
    kEqual | kNotEqual | kSignedLE | kSignedLT | kSignedGE | kSignedGT
  | kUnsignedLE | kUnsignedLT | kUnsignedGE | kUnsignedGT

datatype xop = kIdAdd | kIdSub | kIdAnd | kIdOr | kIdXor | kIdSar | kIdShr | kIdShl

text \<open>
  Labels are numbers; binding one is a pseudo instruction. \<open>X_slot\<close> stands for the bytes of a branch
  slot, with its target and flag.
\<close>

datatype xinst =
    X_mov xopr xopr
  | X_op xop xopr xopr
  | X_cmp xopr xopr
  | X_setcc xcc regn
  | X_movzx xopr xopr
  | X_movsx xopr xopr
  | X_lea regn xmem
  | X_push regn
  | X_pop regn
  | X_jmp nat
  | X_jcc xcc nat
  | X_bind nat
  | X_call stub_id
  | X_jmp_mem xmem
  | X_jmp_reg regn
  | X_slot u32 bool

subsection \<open>State\<close>

record xflags =
  f_zf :: bool
  f_sf :: bool
  f_cf :: bool
  f_of :: bool

record xstate =
  xs_r :: "regn \<Rightarrow> u64"
  xs_m :: mem
  xs_f :: "xflags option"

definition ea :: "xstate \<Rightarrow> xmem \<Rightarrow> uptr" where
  "ea xs a =
     (let ix = (case xm_index a of None \<Rightarrow> 0 | Some (r, sh) \<Rightarrow> push_bit sh (xs_r xs r)) in
      case xm_base a of
        No_base \<Rightarrow> ix + xm_disp a
      | Base64 r \<Rightarrow> xs_r xs r + ix + xm_disp a
      | Base32 r \<Rightarrow> ucast (ucast (xs_r xs r + ix + xm_disp a) :: u32))"

primrec xload :: "xsz \<Rightarrow> mem \<Rightarrow> uptr \<Rightarrow> u64" where
  "xload S8 m p = ucast (unaligned_load8 m p)" | "xload S16 m p = ucast (unaligned_load16 m p)"
| "xload S32 m p = ucast (unaligned_load32 m p)" | "xload S64 m p = unaligned_load64 m p"

primrec xstore :: "xsz \<Rightarrow> mem \<Rightarrow> uptr \<Rightarrow> u64 \<Rightarrow> mem" where
  "xstore S8 m p v = unaligned_store8 m p (ucast v)" | "xstore S16 m p v = unaligned_store16 m p (ucast v)"
| "xstore S32 m p v = unaligned_store32 m p (ucast v)" | "xstore S64 m p v = unaligned_store64 m p v"

primrec reg_merge :: "xsz \<Rightarrow> u64 \<Rightarrow> u64 \<Rightarrow> u64" where
  "reg_merge S8 old v = (old AND NOT (mask 8)) OR take_bit 8 v"
| "reg_merge S16 old v = (old AND NOT (mask 16)) OR take_bit 16 v"
| "reg_merge S32 old v = take_bit 32 v"
| "reg_merge S64 old v = v"

definition set_reg :: "xstate \<Rightarrow> regn \<Rightarrow> u64 \<Rightarrow> xstate" where
  "set_reg xs r v = xs\<lparr>xs_r := (xs_r xs)(r := v)\<rparr>"

text \<open>An operand of an operation of size \<open>sz\<close>.\<close>

primrec xread :: "xstate \<Rightarrow> xsz \<Rightarrow> xopr \<Rightarrow> u64 option" where
  "xread xs sz (XReg sz' r) = (if sz' = sz then Some (take_bit (xbits sz) (xs_r xs r)) else None)"
| "xread xs sz (XImm i) = Some (take_bit (xbits sz) i)"
| "xread xs sz (XM sz' a) = (if sz' = sz then Some (xload sz (xs_m xs) (ea xs a)) else None)"

primrec xwrite :: "xstate \<Rightarrow> xsz \<Rightarrow> xopr \<Rightarrow> u64 \<Rightarrow> xstate option" where
  "xwrite xs sz (XReg sz' r) v = (if sz' = sz then Some (set_reg xs r (reg_merge sz (xs_r xs r) v)) else None)"
| "xwrite xs sz (XImm i) v = None"
| "xwrite xs sz (XM sz' a) v = (if sz' = sz then Some (xs\<lparr>xs_m := xstore sz (xs_m xs) (ea xs a) v\<rparr>) else None)"

primrec opr_size :: "xopr \<Rightarrow> xsz option" where
  "opr_size (XReg sz r) = Some sz" | "opr_size (XImm i) = None" | "opr_size (XM sz a) = Some sz"

subsection \<open>Operations\<close>

text \<open>The 32-bit operations; shift counts are taken modulo 32.\<close>

primrec xop_sem :: "xop \<Rightarrow> u32 \<Rightarrow> u32 \<Rightarrow> u32" where
  "xop_sem kIdAdd a b = a + b" | "xop_sem kIdSub a b = a - b" | "xop_sem kIdAnd a b = a AND b"
| "xop_sem kIdOr a b = a OR b" | "xop_sem kIdXor a b = a XOR b"
| "xop_sem kIdSar a b = signed_drop_bit (unat (b AND 31)) a"
| "xop_sem kIdShr a b = drop_bit (unat (b AND 31)) a"
| "xop_sem kIdShl a b = push_bit (unat (b AND 31)) a"

definition is_shift :: "xop \<Rightarrow> bool" where
  "is_shift op \<longleftrightarrow> op = kIdSar \<or> op = kIdShr \<or> op = kIdShl"

text \<open>A shift by a register is by \<open>cl\<close>.\<close>

definition count_ok :: "xop \<Rightarrow> xopr \<Rightarrow> bool" where
  "count_ok op s \<longleftrightarrow>
     (is_shift op \<longrightarrow> (case s of XReg sz r \<Rightarrow> r = RCX | XImm i \<Rightarrow> True | XM sz a \<Rightarrow> False))"

definition cmp_flags :: "u32 \<Rightarrow> u32 \<Rightarrow> xflags" where
  "cmp_flags a b =
     (let d = a - b in
      \<lparr>f_zf = (d = 0), f_sf = bit d 31, f_cf = (a < b),
       f_of = (bit a 31 \<noteq> bit b 31 \<and> bit d 31 \<noteq> bit a 31)\<rparr>)"

primrec xcc_holds :: "xcc \<Rightarrow> xflags \<Rightarrow> bool" where
  "xcc_holds kEqual f = f_zf f"
| "xcc_holds kNotEqual f = (\<not> f_zf f)"
| "xcc_holds kSignedLE f = (f_zf f \<or> f_sf f \<noteq> f_of f)"
| "xcc_holds kSignedLT f = (f_sf f \<noteq> f_of f)"
| "xcc_holds kSignedGE f = (f_sf f = f_of f)"
| "xcc_holds kSignedGT f = (\<not> f_zf f \<and> f_sf f = f_of f)"
| "xcc_holds kUnsignedLE f = (f_cf f \<or> f_zf f)"
| "xcc_holds kUnsignedLT f = f_cf f"
| "xcc_holds kUnsignedGE f = (\<not> f_cf f)"
| "xcc_holds kUnsignedGT f = (\<not> f_cf f \<and> \<not> f_zf f)"

subsection \<open>Calls\<close>

text \<open>The guest CPU state in memory: \<open>gpr\<close>, \<open>ip\<close> and \<open>trapno\<close> of \<open>CPUState\<close>, one word each.\<close>

primrec trap_num :: "trap_code \<Rightarrow> u32" where
  "trap_num TC_NONE = 0" | "trap_num TC_UNALIGNED_IP = 1" | "trap_num TC_ILLEGAL_INSN = 2"
| "trap_num TC_EBREAK = 3" | "trap_num TC_ECALL = 4" | "trap_num TC_TERMINATED = 5"

definition trap_of :: "u32 \<Rightarrow> trap_code" where
  "trap_of n =
     (if n = 1 then TC_UNALIGNED_IP else if n = 2 then TC_ILLEGAL_INSN else if n = 3 then TC_EBREAK
      else if n = 4 then TC_ECALL else if n = 5 then TC_TERMINATED else TC_NONE)"

definition cpu_word :: "cpu_state \<Rightarrow> nat \<Rightarrow> u32" where
  "cpu_word s k = (if k < 32 then gpr s (of_nat k) else if k = 32 then ip s else trap_num (trapno s))"

text \<open>An array of words as bytes.\<close>

definition word_bytes :: "(nat \<Rightarrow> u32) \<Rightarrow> mem" where
  "word_bytes w = (\<lambda>x. ucast (drop_bit (8 * (unat x mod 4)) (w (unat x div 4))))"

definition sizeof_cpu_words :: u64 where "sizeof_cpu_words = 136"

definition read_cpu :: "mem \<Rightarrow> uptr \<Rightarrow> cpu_state" where
  "read_cpu m p =
     \<lparr>gpr = (\<lambda>r. if r < 32 then unaligned_load32 m (p + 4 * ucast r) else 0),
      ip = unaligned_load32 m (p + 128), trapno = trap_of (unaligned_load32 m (p + 132))\<rparr>"

definition write_cpu :: "mem \<Rightarrow> uptr \<Rightarrow> cpu_state \<Rightarrow> mem" where
  "write_cpu m p s = (\<lambda>q. if q - p < sizeof_cpu_words then word_bytes (cpu_word s) (q - p) else m q)"

text \<open>
  What a call may do besides the work of the stub: leave anything in the registers that the
  convention does not preserve and in the stack below, where \<open>xe_stack\<close> bytes are available.
  \<open>xe_vmem\<close> is the base of guest memory, \<open>xe_brind\<close> the indirect branch stub: its result and the
  memory it leaves.
\<close>

record xenv =
  xe_vmem :: uptr
  xe_stack :: u64
  xe_clob :: "regn \<Rightarrow> u64"
  xe_scratch :: mem
  xe_brind :: "xstate \<Rightarrow> uptr \<times> mem"

definition call_regs :: "xenv \<Rightarrow> (regn \<Rightarrow> u64) \<Rightarrow> regn \<Rightarrow> u64" where
  "call_regs e f = (\<lambda>p. if rm_Test GPR_CALL_CLOBBER p then xe_clob e p else f p)"

definition call_mem :: "xenv \<Rightarrow> uptr \<Rightarrow> mem \<Rightarrow> mem" where
  "call_mem e sp m = (\<lambda>q. if 0 < sp - q \<and> sp - q \<le> xe_stack e then xe_scratch e q else m q)"

datatype xexit = XE_slot u32 bool xstate | XE_jmp uptr xstate | XE_trap xstate

datatype xout = XNext xstate | XGoto nat xstate | XLeave xexit

definition after_stub :: "xenv \<Rightarrow> xstate \<Rightarrow> mem \<Rightarrow> xstate" where
  "after_stub e xs m =
     xs\<lparr>xs_r := call_regs e (xs_r xs), xs_m := call_mem e (xs_r xs RSP) m, xs_f := None\<rparr>"

definition xcall :: "xenv \<Rightarrow> stub_id \<Rightarrow> xstate \<Rightarrow> xout option" where
  "xcall e sid xs =
     (if xs_r xs RSP AND 15 \<noteq> 0 then None
      else if sid = Id_brind then
        let (r, m) = xe_brind e xs in Some (XNext (set_reg (after_stub e xs m) RAX r))
      else case stub_op sid of
        None \<Rightarrow> None
      | Some op \<Rightarrow>
          let p = xs_r xs RDI in
          Some (case qcgstub_rv32 op (xe_vmem e) (read_cpu (xs_m xs) p) (xs_m xs) (ucast (xs_r xs RSI)) of
                  Next s' gip' m' \<Rightarrow> XNext (after_stub e xs (write_cpu m' p s'))
                | Trapped s' m' \<Rightarrow> XLeave (XE_trap (after_stub e xs (write_cpu m' p s')))))"

subsection \<open>Execution\<close>

definition sign_ext :: "xsz \<Rightarrow> u64 \<Rightarrow> u64" where
  "sign_ext sz v = (case sz of S8 \<Rightarrow> scast (ucast v :: u8) | S16 \<Rightarrow> scast (ucast v :: u16) | S32 \<Rightarrow> scast (ucast v :: u32) | S64 \<Rightarrow> v)"

primrec xstep :: "xenv \<Rightarrow> xinst \<Rightarrow> xstate \<Rightarrow> xout option" where
  "xstep e (X_mov d s) xs =
     do { sz \<leftarrow> opr_size d; v \<leftarrow> xread xs sz s; xs' \<leftarrow> xwrite xs sz d v; Some (XNext xs') }"
| "xstep e (X_op op d s) xs =
     (if opr_size d = Some S32 \<and> count_ok op s then
        do { a \<leftarrow> xread xs S32 d; b \<leftarrow> xread xs S32 s;
             xs' \<leftarrow> xwrite xs S32 d (ucast (xop_sem op (ucast a) (ucast b))); Some (XNext (xs'\<lparr>xs_f := None\<rparr>)) }
      else None)"
| "xstep e (X_cmp a b) xs =
     (if opr_size a = Some S32 then
        do { x \<leftarrow> xread xs S32 a; y \<leftarrow> xread xs S32 b;
             Some (XNext (xs\<lparr>xs_f := Some (cmp_flags (ucast x) (ucast y))\<rparr>)) }
      else None)"
| "xstep e (X_setcc cc r) xs =
     do { f \<leftarrow> xs_f xs; Some (XNext (set_reg xs r (reg_merge S8 (xs_r xs r) (of_bool (xcc_holds cc f))))) }"
| "xstep e (X_movzx d s) xs =
     do { sz \<leftarrow> opr_size s; v \<leftarrow> xread xs sz s; xs' \<leftarrow> xwrite xs S32 d v; Some (XNext xs') }"
| "xstep e (X_movsx d s) xs =
     do { sz \<leftarrow> opr_size s; v \<leftarrow> xread xs sz s; xs' \<leftarrow> xwrite xs S32 d (sign_ext sz v); Some (XNext xs') }"
| "xstep e (X_lea r a) xs = Some (XNext (set_reg xs r (take_bit 32 (ea xs a))))"
| "xstep e (X_push r) xs =
     (let sp = xs_r xs RSP - 8 in
      Some (XNext (set_reg (xs\<lparr>xs_m := unaligned_store64 (xs_m xs) sp (xs_r xs r)\<rparr>) RSP sp)))"
| "xstep e (X_pop r) xs =
     (let sp = xs_r xs RSP in
      Some (XNext (set_reg (set_reg xs RSP (sp + 8)) r (unaligned_load64 (xs_m xs) sp))))"
| "xstep e (X_jmp l) xs = Some (XGoto l xs)"
| "xstep e (X_jcc cc l) xs = do { f \<leftarrow> xs_f xs; Some (if xcc_holds cc f then XGoto l xs else XNext xs) }"
| "xstep e (X_bind l) xs = Some (XNext xs)"
| "xstep e (X_call sid) xs = xcall e sid xs"
| "xstep e (X_jmp_mem a) xs = Some (XLeave (XE_jmp (xload S64 (xs_m xs) (ea xs a)) xs))"
| "xstep e (X_jmp_reg r) xs = Some (XLeave (XE_jmp (xs_r xs r) xs))"
| "xstep e (X_slot g c) xs = Some (XLeave (XE_slot g c xs))"

text \<open>A program runs from a position for a number of steps.\<close>

definition label_pos :: "xinst list \<Rightarrow> nat \<Rightarrow> nat option" where
  "label_pos P l = find (\<lambda>i. P ! i = X_bind l) [0 ..< length P]"

datatype xrun_res = XRun nat xstate | XExit xexit | XStuck

fun xrun :: "xenv \<Rightarrow> xinst list \<Rightarrow> nat \<Rightarrow> nat \<Rightarrow> xstate \<Rightarrow> xrun_res" where
  "xrun e P 0 pc xs = XRun pc xs"
| "xrun e P (Suc n) pc xs =
     (if pc < length P then
        case xstep e (P ! pc) xs of
          None \<Rightarrow> XStuck
        | Some (XNext xs') \<Rightarrow> xrun e P n (Suc pc) xs'
        | Some (XGoto l xs') \<Rightarrow> (case label_pos P l of None \<Rightarrow> XStuck | Some k \<Rightarrow> xrun e P n k xs')
        | Some (XLeave x) \<Rightarrow> XExit x
      else XStuck)"

subsection \<open>Lemmas\<close>

text \<open>The flags of a comparison decide the conditions.\<close>

lemma bit31: "bit x 31 \<longleftrightarrow> 2 ^ 31 \<le> uint x" for x :: u32
proof -
  have "bit x 31 \<longleftrightarrow> odd (uint x div 2 ^ 31)" by (metis bit_iff_odd bit_uint_iff bit_imp_le_length)
  moreover have "uint x div 2 ^ 31 = (if 2 ^ 31 \<le> uint x then 1 else 0)"
    using uint_lt2p [of x] uint_ge_0 [of x] by auto
  ultimately show ?thesis by simp
qed

lemma sint31: "sint x = (if bit x 31 then uint x - 2 ^ 32 else uint x)" for x :: u32
proof -
  have "uint x < 2 ^ 32" using uint_lt2p [of x] by simp
  then have "take_bit 32 (uint x) = uint x" by (simp add: take_bit_int_eq_self)
  moreover have "sint x = take_bit 32 (uint x) - 2 ^ 32 * of_bool (bit (uint x) 31)"
    by (simp add: sint_uint signed_take_bit_eq_take_bit_minus)
  ultimately show ?thesis by (simp add: bit_uint_iff)
qed

lemma cmp_flags_signed: "f_sf (cmp_flags a b) \<noteq> f_of (cmp_flags a b) \<longleftrightarrow> a <s b"
proof -
  have d: "uint (a - b) = (if uint b \<le> uint a then uint a - uint b else uint a - uint b + 2 ^ 32)"
    by (simp add: uint_sub_if')
  show ?thesis
    using uint_lt2p [of a] uint_lt2p [of b] uint_ge_0 [of a] uint_ge_0 [of b]
    by (simp add: cmp_flags_def Let_def word_sless_alt sint31 bit31 d) (use uint_ge_0 [of a] uint_ge_0 [of b] in arith)
qed

end
