(* ===== verification/Arena.thy ===== *)
theory Arena
  imports Prelude
begin

section \<open>Arena allocation: arena.h, arena.cpp\<close>

text \<open>
  \<open>MemArena\<close> is a bump allocator over one host mapping. It holds the IR of a compilation job,
  the translation blocks and the generated code. The interface its clients rely on is the
  locale \<open>bump_allocator\<close>: allocations never overlap and stay inside the pool.
\<close>

subsection \<open>State and operations\<close>

record mem_arena =
  pool :: uptr
  pool_sz :: u64
  used :: u64

text \<open>A default-constructed arena has no pool.\<close>

definition new_arena :: mem_arena where
  "new_arena = \<lparr>pool = 0, pool_sz = 0, used = 0\<rparr>"

definition MAP_FAILED :: uptr where "MAP_FAILED = - 1"

text \<open>
  The host's \<open>mmap\<close> and \<open>munmap\<close> are parameters: \<open>host_mmap len prot\<close> is the address of a new
  anonymous private mapping or \<open>MAP_FAILED\<close>, and \<open>host_munmap addr len\<close> is its return code.
\<close>

definition Arena_Init ::
  "(u64 \<Rightarrow> u32 \<Rightarrow> uptr) \<Rightarrow> u64 \<Rightarrow> u32 \<Rightarrow> mem_arena \<Rightarrow> mem_arena res" where
  "Arena_Init host_mmap sz prot a =
     (if pool a \<noteq> 0 then Inl AssertFail
      else
        let psz = roundup sz 4096; p = host_mmap psz prot in
        if p = MAP_FAILED then Inl (Panic ''MemArena::Init failed'')
        else Inr (a\<lparr>pool_sz := psz, used := 0, pool := p\<rparr>))"

definition Arena_Destroy :: "(uptr \<Rightarrow> u64 \<Rightarrow> u32) \<Rightarrow> mem_arena \<Rightarrow> mem_arena res" where
  "Arena_Destroy host_munmap a =
     (if pool a = 0 then Inr a
      else if host_munmap (pool a) (pool_sz a) \<noteq> 0 then Inl (Panic ''MemArena::Destroy failed'')
      else Inr (a\<lparr>pool := 0\<rparr>))"

definition Arena_Reset :: "mem_arena \<Rightarrow> mem_arena" where
  "Arena_Reset a = a\<lparr>used := 0\<rparr>"

text \<open>The \<open>assert(0)\<close> of the full pool comes before its \<open>return nullptr\<close>.\<close>

definition Allocate :: "mem_arena \<Rightarrow> u64 \<Rightarrow> u64 \<Rightarrow> (uptr \<times> mem_arena) res" where
  "Allocate a alloc_sz align =
     (let alloc_start = roundup (used a) align in
      if alloc_start + alloc_sz > pool_sz a then Inl AssertFail
      else Inr (pool a + alloc_start, a\<lparr>used := alloc_start + alloc_sz\<rparr>))"

subsection \<open>The interface of the allocator\<close>

text \<open>
  An allocator that only moves a frontier. \<open>alloc r s\<close> serves the request \<open>r\<close>, which needs
  \<open>size_of r\<close> bytes; addresses are natural numbers.
\<close>

primrec alloc_seq :: "('r \<Rightarrow> 's \<Rightarrow> (nat \<times> 's) option) \<Rightarrow> 'r list \<Rightarrow> 's \<Rightarrow> (nat list \<times> 's) option" where
  "alloc_seq alloc [] s = Some ([], s)"
| "alloc_seq alloc (r # rs) s =
     (case alloc r s of
        None \<Rightarrow> None
      | Some (p, s1) \<Rightarrow>
          (case alloc_seq alloc rs s1 of None \<Rightarrow> None | Some (ps, s2) \<Rightarrow> Some (p # ps, s2)))"

locale bump_allocator =
  fixes inv :: "'s \<Rightarrow> bool" and req_ok :: "'s \<Rightarrow> 'r \<Rightarrow> bool" and size_of :: "'r \<Rightarrow> nat"
    and alloc :: "'r \<Rightarrow> 's \<Rightarrow> (nat \<times> 's) option"
    and frontier :: "'s \<Rightarrow> nat" and limit :: "'s \<Rightarrow> nat"
  assumes alloc_inv: "inv s \<Longrightarrow> req_ok s r \<Longrightarrow> alloc r s = Some (p, s') \<Longrightarrow> inv s'"
    and alloc_place: "inv s \<Longrightarrow> req_ok s r \<Longrightarrow> alloc r s = Some (p, s') \<Longrightarrow>
      frontier s \<le> p \<and> p + size_of r = frontier s' \<and> limit s' = limit s"
    and alloc_req_ok: "inv s \<Longrightarrow> req_ok s r \<Longrightarrow> alloc r s = Some (p, s') \<Longrightarrow> req_ok s' r' = req_ok s r'"
    and frontier_limit: "inv s \<Longrightarrow> frontier s \<le> limit s"
begin

lemma alloc_seq_spec:
  assumes "inv s" "\<forall>r \<in> set rs. req_ok s r" "alloc_seq alloc rs s = Some (ps, s')"
  shows "inv s' \<and> frontier s \<le> frontier s' \<and> limit s' = limit s \<and> length ps = length rs \<and>
    (\<forall>i < length rs. frontier s \<le> ps ! i \<and> ps ! i + size_of (rs ! i) \<le> frontier s') \<and>
    (\<forall>j < length rs. \<forall>i < j. ps ! i + size_of (rs ! i) \<le> ps ! j)"
  using assms
proof (induction rs arbitrary: s ps)
  case Nil
  then show ?case by simp
next
  case (Cons r rs)
  then obtain p s1 qs where a: "alloc r s = Some (p, s1)" "alloc_seq alloc rs s1 = Some (qs, s')"
    and ps: "ps = p # qs"
    by (auto split: option.splits)
  have ok: "req_ok s r" using Cons.prems(2) by simp
  note 1 = alloc_inv [OF Cons.prems(1) ok a(1)] and 2 = alloc_place [OF Cons.prems(1) ok a(1)]
  have "\<forall>q \<in> set rs. req_ok s1 q"
    using Cons.prems alloc_req_ok [OF Cons.prems(1) ok a(1)] by simp
  note 3 = Cons.IH [OF 1 this a(2)]
  show ?case
  proof (intro conjI allI impI)
    fix i assume "i < length (r # rs)"
    then show "frontier s \<le> ps ! i" "ps ! i + size_of ((r # rs) ! i) \<le> frontier s'"
      using 2 3 by (cases i; force simp: ps)+
  next
    fix i j assume "j < length (r # rs)" "i < j"
    then show "ps ! i + size_of ((r # rs) ! i) \<le> ps ! j"
      using 2 3 by (cases i; cases j; force simp: ps)
  qed (use 2 3 in \<open>auto simp: ps\<close>)
qed

lemma alloc_seq_disjoint:
  assumes "inv s" "\<forall>r \<in> set rs. req_ok s r" "alloc_seq alloc rs s = Some (ps, s')"
    "i < length rs" "j < length rs" "i \<noteq> j"
  shows "{ps ! i ..< ps ! i + size_of (rs ! i)} \<inter> {ps ! j ..< ps ! j + size_of (rs ! j)} = {}"
    "{ps ! i ..< ps ! i + size_of (rs ! i)} \<subseteq> {frontier s ..< limit s}"
proof -
  note 1 = alloc_seq_spec [OF assms(1-3)]
  from assms(4-6) consider "i < j" | "j < i" by linarith
  then have "ps ! i + size_of (rs ! i) \<le> ps ! j \<or> ps ! j + size_of (rs ! j) \<le> ps ! i"
    using 1 assms(4,5) by cases auto
  then show "{ps ! i ..< ps ! i + size_of (rs ! i)} \<inter> {ps ! j ..< ps ! j + size_of (rs ! j)} = {}"
    by auto
  have "ps ! i + size_of (rs ! i) \<le> limit s" "frontier s \<le> ps ! i"
    using 1 assms(4) frontier_limit [of s'] by fastforce+
  then show "{ps ! i ..< ps ! i + size_of (rs ! i)} \<subseteq> {frontier s ..< limit s}" by auto
qed

end

subsection \<open>MemArena implements it\<close>

text \<open>The pool lies inside the address space and what is used lies inside the pool.\<close>

definition arena_ok :: "mem_arena \<Rightarrow> bool" where
  "arena_ok a \<longleftrightarrow> used a \<le> pool_sz a \<and> unat (pool a) + unat (pool_sz a) < 2 ^ 64"

text \<open>A request, size and alignment, for which the bounds test of \<open>Allocate\<close> cannot wrap.\<close>

definition request_ok :: "mem_arena \<Rightarrow> u64 \<times> u64 \<Rightarrow> bool" where
  "request_ok a r \<longleftrightarrow> 0 < snd r \<and> unat (pool_sz a) + unat (fst r) + unat (snd r) < 2 ^ 64"

definition arena_alloc :: "u64 \<times> u64 \<Rightarrow> mem_arena \<Rightarrow> (nat \<times> mem_arena) option" where
  "arena_alloc r a = (case Allocate a (fst r) (snd r) of Inl e \<Rightarrow> None | Inr (p, a') \<Rightarrow> Some (unat p, a'))"

lemma roundup_ge:
  assumes "0 < (d :: nat)"
  shows "x \<le> (x + (d - 1)) div d * d" "(x + (d - 1)) div d * d \<le> x + (d - 1)"
proof -
  have "(x + (d - 1)) div d * d = x + (d - 1) - (x + (d - 1)) mod d"
    by (simp add: minus_mod_eq_div_mult)
  moreover have "(x + (d - 1)) mod d \<le> d - 1"
    using assms by (metis Suc_pred' less_Suc_eq_le mod_less_divisor)
  ultimately show "x \<le> (x + (d - 1)) div d * d" by linarith
qed simp

lemma Allocate_cases:
  assumes "arena_ok a" "request_ok a (sz, al)"
  defines "st \<equiv> (unat (used a) + (unat al - 1)) div unat al * unat al"
  shows "Allocate a sz al =
    (if unat (pool_sz a) < st + unat sz then Inl AssertFail
     else Inr (pool a + of_nat st, a\<lparr>used := of_nat (st + unat sz)\<rparr>))"
    and "unat (used a) \<le> st"
    and "st + unat sz < 2 ^ 64"
proof -
  have al: "0 < unat al" and sum: "unat (pool_sz a) + unat sz + unat al < 2 ^ 64"
    using assms(2) by (simp_all add: request_ok_def unat_gt_0 word_neq_0_conv)
  have used: "unat (used a) \<le> unat (pool_sz a)"
    using assms(1) by (simp add: arena_ok_def word_le_nat_alt)
  have le: "unat (used a) \<le> st" "st \<le> unat (used a) + (unat al - 1)"
    unfolding st_def using roundup_ge [OF al] by auto
  show "unat (used a) \<le> st" by fact
  show bound: "st + unat sz < 2 ^ 64" using le used sum by linarith
  have lt: "unat (used a) + (unat al - 1) < 2 ^ 64" using used sum by linarith
  have "unat (roundup (used a) al) = st"
    unfolding st_def using assms(2) lt by (subst unat_roundup) (simp_all add: request_ok_def)
  then have r: "roundup (used a) al = of_nat st"
    by (metis of_nat_unat ucast_id)
  have "unat (of_nat st + sz :: u64) = st + unat sz"
    using bound by (simp add: unat_word_ariths unat_of_nat take_bit_nat_eq_self)
  then have "(of_nat st + sz :: u64) > pool_sz a \<longleftrightarrow> unat (pool_sz a) < st + unat sz"
    by (simp add: word_less_nat_alt)
  then show "Allocate a sz al =
    (if unat (pool_sz a) < st + unat sz then Inl AssertFail
     else Inr (pool a + of_nat st, a\<lparr>used := of_nat (st + unat sz)\<rparr>))"
    by (simp add: Allocate_def r Let_def)
qed


lemma Allocate_Inr:
  assumes "arena_ok a" "request_ok a (sz, al)" "Allocate a sz al = Inr (p, a')"
  shows "arena_ok a' \<and> pool a' = pool a \<and> pool_sz a' = pool_sz a \<and>
    unat (pool a) + unat (used a) \<le> unat p \<and> unat p + unat sz = unat (pool a) + unat (used a') \<and>
    (unat al dvd unat (pool a) \<longrightarrow> unat al dvd unat p)"
proof -
  define st where "st = (unat (used a) + (unat al - 1)) div unat al * unat al"
  note 1 = Allocate_cases [OF assms(1,2), folded st_def]
  have fits: "st + unat sz \<le> unat (pool_sz a)" and p: "p = pool a + of_nat st"
    and a': "a' = a\<lparr>used := of_nat (st + unat sz)\<rparr>"
    using assms(3) 1(1) by (auto split: if_splits)
  have in_pool: "unat (pool a) + unat (pool_sz a) < 2 ^ 64"
    using assms(1) by (simp add: arena_ok_def)
  have u: "unat (of_nat (st + unat sz) :: u64) = st + unat sz" "unat (of_nat st :: u64) = st"
    using 1(3) by (simp_all only: unat_of_nat) (simp_all add: take_bit_nat_eq_self)
  have "unat (pool a) + st < 2 ^ 64" using fits in_pool by linarith
  then have up: "unat p = unat (pool a) + st"
    by (simp add: p unat_word_ariths u(2))
  have "used a' \<le> pool_sz a'"
    using fits u(1) by (simp add: a' word_le_nat_alt del: of_nat_add)
  then show ?thesis
    using in_pool 1(2) u(1) by (auto simp: arena_ok_def a' up st_def)
qed

lemma arena_alloc_place:
  assumes "arena_ok a" "request_ok a r" "arena_alloc r a = Some (p, a')"
  shows "arena_ok a' \<and> pool a' = pool a \<and> pool_sz a' = pool_sz a \<and>
    unat (pool a) + unat (used a) \<le> p \<and> p + unat (fst r) = unat (pool a) + unat (used a')"
proof -
  obtain q where "Allocate a (fst r) (snd r) = Inr (q, a')" "p = unat q"
    using assms(3) by (auto simp: arena_alloc_def split: sum.splits)
  then show ?thesis
    using Allocate_Inr [of a "fst r" "snd r" q a'] assms(1,2) by simp
qed

interpretation arena: bump_allocator arena_ok request_ok "\<lambda>r. unat (fst r)" arena_alloc
  "\<lambda>a. unat (pool a) + unat (used a)" "\<lambda>a. unat (pool a) + unat (pool_sz a)"
proof
  fix a a' :: mem_arena and r r' p
  show "arena_ok a \<Longrightarrow> unat (pool a) + unat (used a) \<le> unat (pool a) + unat (pool_sz a)"
    by (simp add: arena_ok_def word_le_nat_alt)
  assume a: "arena_ok a" "request_ok a r" "arena_alloc r a = Some (p, a')"
  note 1 = arena_alloc_place [OF a]
  show "arena_ok a'" "request_ok a' r' = request_ok a r'"
    "unat (pool a) + unat (used a) \<le> p \<and> p + unat (fst r) = unat (pool a') + unat (used a') \<and>
      unat (pool a') + unat (pool_sz a') = unat (pool a) + unat (pool_sz a)"
    using 1 by (simp_all add: request_ok_def)
qed

text \<open>
  C39. Any sequence of successful allocations from an arena returns blocks that lie inside the pool,
  after everything allocated before, and are pairwise disjoint.
\<close>

theorem Allocate_disjoint:
  assumes "arena_ok a" "\<forall>r \<in> set rs. request_ok a r" "alloc_seq arena_alloc rs a = Some (ps, a')"
    "i < length rs" "j < length rs" "i \<noteq> j"
  shows "{ps ! i ..< ps ! i + unat (fst (rs ! i))} \<inter> {ps ! j ..< ps ! j + unat (fst (rs ! j))} = {} \<and>
    {ps ! i ..< ps ! i + unat (fst (rs ! i))} \<subseteq>
      {unat (pool a) + unat (used a) ..< unat (pool a) + unat (pool_sz a)}"
  using arena.alloc_seq_disjoint [OF assms] by blast

theorem Allocate_disjoint_witness:
  "let a = \<lparr>pool = 0x10000, pool_sz = 4096, used = 3\<rparr>; rs = [(10, 8), (4, 16)] in
   alloc_seq arena_alloc rs a = Some ([0x10008, 0x10020], a\<lparr>used := 36\<rparr>) \<and>
   {0x10008 ..< 0x10012 :: nat} \<inter> {0x10020 ..< 0x10024} = {}"
proof -
  let ?a = "\<lparr>pool = 0x10000, pool_sz = 4096, used = 3\<rparr> :: mem_arena"
  have run: "alloc_seq arena_alloc [(10, 8), (4, 16)] ?a = Some ([0x10008, 0x10020], ?a\<lparr>used := 36\<rparr>)"
    by (simp add: arena_alloc_def Allocate_def roundup_def)
  have "arena_ok ?a" "\<forall>r \<in> set [(10, 8), (4, 16)]. request_ok ?a r"
    by (simp_all add: arena_ok_def request_ok_def)
  from Allocate_disjoint [OF this run, of 0 1] run show ?thesis
    by (simp add: Let_def)
qed

text \<open>
  An allocation succeeds exactly when the aligned block still fits into the pool; it is then
  aligned (when the pool is), ends at the new frontier and keeps the arena well formed. A full
  pool stops the program at its assertion.
\<close>

theorem Allocate_correct:
  assumes "arena_ok a" "request_ok a (sz, al)"
  shows "(case Allocate a sz al of
      Inl e \<Rightarrow> e = AssertFail \<and>
        unat (pool_sz a) < (unat (used a) + (unat al - 1)) div unat al * unat al + unat sz
    | Inr (p, a') \<Rightarrow> arena_ok a' \<and> pool_sz a' = pool_sz a \<and>
        unat p + unat sz = unat (pool a') + unat (used a') \<and>
        (unat al dvd unat (pool a) \<longrightarrow> unat al dvd unat p))"
proof (cases "Allocate a sz al")
  case (Inl e)
  with Allocate_cases(1) [OF assms] show ?thesis by (auto split: if_splits)
next
  case (Inr r)
  with Allocate_Inr [OF assms, of "fst r" "snd r"] show ?thesis by (auto split: prod.splits)
qed

theorem Allocate_correct_witness:
  "Allocate \<lparr>pool = 0x10000, pool_sz = 64, used = 3\<rparr> 60 8 = Inl AssertFail \<and> (64 :: nat) < 8 + 60"
  using Allocate_correct [of "\<lparr>pool = 0x10000, pool_sz = 64, used = 3\<rparr>" 60 8]
  by (simp add: arena_ok_def request_ok_def Allocate_def roundup_def)

text \<open>
  \<open>Init\<close> makes a well formed arena whose pool holds at least the requested size, rounded up to
  whole pages, when the host maps a range that ends below the top of the address space.
\<close>

theorem Arena_Init_ok:
  assumes "pool a = 0" "unat sz + 4095 < 2 ^ 64"
    and "\<And>len prot. host_mmap len prot \<noteq> MAP_FAILED \<Longrightarrow> unat (host_mmap len prot) + unat len < 2 ^ 64"
    and "host_mmap (roundup sz 4096) prot \<noteq> MAP_FAILED"
  shows "\<exists>a'. Arena_Init host_mmap sz prot a = Inr a' \<and> arena_ok a' \<and> used a' = 0 \<and>
    unat sz \<le> unat (pool_sz a') \<and> unat (pool_sz a') mod 4096 = 0"
proof -
  have "unat (roundup sz 4096) = (unat sz + 4095) div 4096 * 4096"
    using assms(2) by (subst unat_roundup) simp_all
  then show ?thesis
    using assms(1,4) assms(3) [OF assms(4)] roundup_ge(1) [of 4096 "unat sz"]
    by (simp add: Arena_Init_def arena_ok_def Let_def)
qed

theorem Arena_Init_ok_witness:
  "\<exists>a'. Arena_Init (\<lambda>len prot. if len < 2 ^ 32 then 0x10000 else MAP_FAILED) 5000 3 new_arena = Inr a' \<and>
     arena_ok a' \<and> unat (pool_sz a') = 8192"
proof -
  have "\<exists>a'. Arena_Init (\<lambda>len prot. if len < 2 ^ 32 then 0x10000 else MAP_FAILED) 5000 3 new_arena = Inr a' \<and>
      arena_ok a' \<and> used a' = 0 \<and> unat (5000 :: u64) \<le> unat (pool_sz a') \<and> unat (pool_sz a') mod 4096 = 0"
    by (rule Arena_Init_ok)
      (auto simp: new_arena_def roundup_def MAP_FAILED_def word_less_nat_alt split: if_splits)
  then show ?thesis
    by (simp add: Arena_Init_def new_arena_def roundup_def MAP_FAILED_def Let_def)
qed

end
