(* ===== verification/Ordered_Map.thy ===== *)
theory Ordered_Map
  imports Prelude
begin

section \<open>Ordered maps of the C++ library\<close>

text \<open>
  The translation cache keeps its blocks in a \<open>std::map\<close> and its links in a \<open>std::multimap\<close>. Both
  are association lists sorted by key: \<open>insert\<close> of a map keeps an existing binding, \<open>insert\<close> of a
  multimap goes behind the entries with the same key, \<open>upper_bound\<close> is the rest of the list from
  the first greater key. The locale \<open>ordered_map\<close> is the interface that clients of a map use.
\<close>

subsection \<open>The interface\<close>

locale ordered_map =
  fixes ok :: "'m \<Rightarrow> bool" and emp :: 'm
    and ins :: "'k::linorder \<Rightarrow> 'v \<Rightarrow> 'm \<Rightarrow> 'm" and find :: "'m \<Rightarrow> 'k \<Rightarrow> 'v option"
    and upper :: "'k \<Rightarrow> 'm \<Rightarrow> ('k \<times> 'v) option"
  assumes ok_emp: "ok emp" and find_emp: "find emp k = None"
    and ok_ins: "ok m \<Longrightarrow> ok (ins k v m)"
    and find_ins: "ok m \<Longrightarrow>
      find (ins k v m) k' = (if k' = k \<and> find m k = None then Some v else find m k')"
    and upper_None: "ok m \<Longrightarrow> upper k m = None \<longleftrightarrow> (\<forall>k'. k < k' \<longrightarrow> find m k' = None)"
    and upper_Some: "ok m \<Longrightarrow> upper k m = Some (k', v) \<longleftrightarrow>
      k < k' \<and> find m k' = Some v \<and> (\<forall>j. k < j \<and> j < k' \<longrightarrow> find m j = None)"
begin

lemma find_ins_new: "ok m \<Longrightarrow> find m k = None \<Longrightarrow> find (ins k v m) = (find m)(k \<mapsto> v)"
  by (auto simp: fun_eq_iff find_ins)

lemma upper_gap: "ok m \<Longrightarrow> upper k m = Some (k', v) \<Longrightarrow> k < j \<Longrightarrow> j < k' \<Longrightarrow> find m j = None"
  by (simp add: upper_Some)

lemma upper_above: "ok m \<Longrightarrow> upper k m = None \<Longrightarrow> k < j \<Longrightarrow> find m j = None"
  by (simp add: upper_None)

end

subsection \<open>Sorted association lists\<close>

definition om_ok :: "('k::linorder \<times> 'v) list \<Rightarrow> bool" where
  "om_ok m \<longleftrightarrow> sorted_wrt (<) (map fst m)"

fun om_insert :: "'k::linorder \<Rightarrow> 'v \<Rightarrow> ('k \<times> 'v) list \<Rightarrow> ('k \<times> 'v) list" where
  "om_insert k v [] = [(k, v)]"
| "om_insert k v ((k', v') # m) =
     (if k < k' then (k, v) # (k', v') # m
      else if k = k' then (k', v') # m
      else (k', v') # om_insert k v m)"

definition om_upper :: "'k::linorder \<Rightarrow> ('k \<times> 'v) list \<Rightarrow> ('k \<times> 'v) option" where
  "om_upper k m = (case dropWhile (\<lambda>e. fst e \<le> k) m of [] \<Rightarrow> None | e # _ \<Rightarrow> Some e)"

definition mm_insert :: "'k::linorder \<Rightarrow> 'v \<Rightarrow> ('k \<times> 'v) list \<Rightarrow> ('k \<times> 'v) list" where
  "mm_insert k v m = takeWhile (\<lambda>e. fst e \<le> k) m @ (k, v) # dropWhile (\<lambda>e. fst e \<le> k) m"

text \<open>
  The loops that erase from \<open>upper_bound(k)\<close> while the key is below a limit; they return what was
  erased and what is left. They compare the key
  of the iterator without testing for the end of the map: running off the end is undefined.
\<close>

definition om_erase_range ::
  "'k::linorder \<Rightarrow> ('k \<Rightarrow> bool) \<Rightarrow> ('k \<times> 'v) list \<Rightarrow> (('k \<times> 'v) list \<times> ('k \<times> 'v) list) res" where
  "om_erase_range k below m =
     (let keep = takeWhile (\<lambda>e. fst e \<le> k) m; rest = dropWhile (\<lambda>e. fst e \<le> k) m;
          del = takeWhile (\<lambda>e. below (fst e)) rest; left = dropWhile (\<lambda>e. below (fst e)) rest
      in if left = [] then Inl Undefined else Inr (del, keep @ left))"

lemma om_ok_Nil [simp]: "om_ok []"
  by (simp add: om_ok_def)

lemma om_ok_Cons: "om_ok ((k, v) # m) \<longleftrightarrow> om_ok m \<and> (\<forall>k' \<in> fst ` set m. k < k')"
  by (auto simp: om_ok_def)

lemma om_insert_keys: "fst ` set (om_insert k v m) = insert k (fst ` set m)"
  by (induction k v m rule: om_insert.induct) auto

lemma om_ok_insert: "om_ok m \<Longrightarrow> om_ok (om_insert k v m)"
  by (induction k v m rule: om_insert.induct) (auto simp: om_ok_Cons om_insert_keys)

lemma om_find_insert:
  "om_ok m \<Longrightarrow> map_of (om_insert k v m) k' = (if k' = k \<and> map_of m k = None then Some v else map_of m k')"
proof (induction k v m rule: om_insert.induct)
  case (2 k v k1 v1 m)
  then have "k < k1 \<Longrightarrow> map_of m k = None"
    by (force simp: om_ok_Cons map_of_eq_None_iff)
  with 2 show ?case by (auto simp: om_ok_Cons)
qed auto

lemma om_upper_Cons: "om_upper k ((k', v) # m) = (if k' \<le> k then om_upper k m else Some (k', v))"
  by (simp add: om_upper_def)

lemma om_upper_Some:
  "om_ok m \<Longrightarrow> om_upper k m = Some (k', v) \<longleftrightarrow>
     k < k' \<and> map_of m k' = Some v \<and> (\<forall>j. k < j \<and> j < k' \<longrightarrow> map_of m j = None)"
proof (induction m)
  case Nil
  then show ?case by (simp add: om_upper_def)
next
  case (Cons e m)
  obtain a b where e: "e = (a, b)" by fastforce
  have ok: "om_ok m" "\<And>j w. map_of m j = Some w \<Longrightarrow> a < j"
    using Cons.prems by (auto simp: e om_ok_Cons dest!: map_of_SomeD)
  show ?case
  proof (cases "a \<le> k")
    case True
    then have "om_upper k (e # m) = om_upper k m" "\<And>j. k < j \<Longrightarrow> map_of (e # m) j = map_of m j"
      by (auto simp: e om_upper_Cons)
    then show ?thesis
      using Cons.IH [OF ok(1)] by metis
  next
    case False
    show ?thesis
    proof
      assume "om_upper k (e # m) = Some (k', v)"
      with False have "k' = a" "v = b" "k < a" by (simp_all add: e om_upper_Cons)
      moreover have "map_of (e # m) j = None" if "j < a" for j
        using that ok(2) [of j] by (cases "map_of m j") (auto simp: e)
      ultimately show "k < k' \<and> map_of (e # m) k' = Some v \<and> (\<forall>j. k < j \<and> j < k' \<longrightarrow> map_of (e # m) j = None)"
        by (simp add: e)
    next
      assume r: "k < k' \<and> map_of (e # m) k' = Some v \<and> (\<forall>j. k < j \<and> j < k' \<longrightarrow> map_of (e # m) j = None)"
      have "k' = a"
      proof (rule ccontr)
        assume "k' \<noteq> a"
        with r have "a < k'" using ok(2) [of k' v] by (simp add: e)
        with r False have "map_of (e # m) a = None" by (simp add: not_le)
        then show False by (simp add: e)
      qed
      with r False show "om_upper k (e # m) = Some (k', v)" by (simp add: e om_upper_Cons)
    qed
  qed
qed

lemma om_upper_None: "om_ok m \<Longrightarrow> om_upper k m = None \<longleftrightarrow> (\<forall>k'. k < k' \<longrightarrow> map_of m k' = None)"
proof (induction m)
  case Nil
  then show ?case by (simp add: om_upper_def)
next
  case (Cons e m)
  obtain a b where e: "e = (a, b)" by fastforce
  show ?case
  proof (cases "a \<le> k")
    case True
    then show ?thesis
      using Cons by (simp add: e om_ok_Cons om_upper_Cons) (metis leD)
  next
    case False
    then have "om_upper k (e # m) = Some e" "k < a" "map_of (e # m) a = Some b"
      by (simp_all add: e om_upper_Cons)
    then show ?thesis by (metis option.distinct(1))
  qed
qed

interpretation om: ordered_map om_ok "[]" om_insert map_of om_upper
  by unfold_locales (simp_all add: om_ok_insert om_find_insert om_upper_None om_upper_Some)

end
