(* ===== verification/Tcache.thy ===== *)
theory Tcache
  imports Arena Ordered_Map Branch_Slot
begin

section \<open>The translation cache: tcache.h, tcache.cpp\<close>

text \<open>
  The cache maps guest addresses to translated blocks: an ordered map, a direct-mapped cache of
  block pointers in front of it, a second direct-mapped cache of code pointers for indirect
  branches, and the slots that were linked to a block. Blocks live in an arena; their contents
  are a heap from pointers. The invariant \<open>tc_ok\<close> says that both direct-mapped caches only hold
  what the map holds, so that the cache implements a partial map from addresses to code.
\<close>

subsection \<open>State\<close>

record tblock =
  tc_ptr :: uptr
  tc_size :: u64
  tb_ip :: u32
  is_brind_target :: bool
  is_segment_entry :: bool

definition new_tblock :: tblock where
  "new_tblock = \<lparr>tc_ptr = 0, tc_size = 0, tb_ip = 0, is_brind_target = False, is_segment_entry = False\<rparr>"

definition sizeof_TBlock :: u64 where "sizeof_TBlock = 24"
definition alignof_TBlock :: u64 where "alignof_TBlock = 8"

record tcache =
  tb_heap :: "uptr \<Rightarrow> tblock"
  l1_cache :: "u32 \<Rightarrow> uptr"
  l1_brind_cache :: "u32 \<Rightarrow> u32 \<times> uptr"
  tcache_map :: "(u32 \<times> uptr) list"
  tb_pool :: mem_arena
  code_pool :: mem_arena
  link_map :: "(u32 \<times> uptr) list"

definition L1_CACHE_BITS :: nat where "L1_CACHE_BITS = 12"
definition TB_POOL_SIZE :: u64 where "TB_POOL_SIZE = 32 * 1024 * 1024"
definition CODE_POOL_SIZE :: u64 where "CODE_POOL_SIZE = 128 * 1024 * 1024"

text \<open>\<open>PROT_READ | PROT_WRITE\<close> and the same with \<open>PROT_EXEC\<close>.\<close>

definition PROT_RW :: u32 where "PROT_RW = 3"
definition PROT_RWX :: u32 where "PROT_RWX = 7"
definition PAGE_SIZE :: u32 where "PAGE_SIZE = 4096"

definition l1hash :: "u32 \<Rightarrow> u32" where
  "l1hash a = ucast (ucast (drop_bit 2 a) AND (push_bit L1_CACHE_BITS 1 - 1 :: u64))"

subsection \<open>Operations\<close>

definition tc_clear :: "tcache \<Rightarrow> tcache" where
  "tc_clear tc = tc\<lparr>l1_cache := (\<lambda>_. 0), l1_brind_cache := (\<lambda>_. (0, 0)), tcache_map := []\<rparr>"

definition Tcache_Init :: "(u64 \<Rightarrow> u32 \<Rightarrow> uptr) \<Rightarrow> tcache \<Rightarrow> tcache res" where
  "Tcache_Init host_mmap tc =
     rbind (Arena_Init host_mmap TB_POOL_SIZE PROT_RW (tb_pool tc)) (\<lambda>tbp.
     rbind (Arena_Init host_mmap CODE_POOL_SIZE PROT_RWX (code_pool tc)) (\<lambda>cp.
       Inr ((tc_clear tc)\<lparr>tb_pool := tbp, code_pool := cp\<rparr>)))"

definition Tcache_Destroy :: "(uptr \<Rightarrow> u64 \<Rightarrow> u32) \<Rightarrow> tcache \<Rightarrow> tcache res" where
  "Tcache_Destroy host_munmap tc =
     rbind (Arena_Destroy host_munmap (tb_pool tc)) (\<lambda>tbp.
     rbind (Arena_Destroy host_munmap (code_pool tc)) (\<lambda>cp.
       Inr ((tc_clear tc)\<lparr>tb_pool := tbp, code_pool := cp\<rparr>)))"

definition Invalidate :: "tcache \<Rightarrow> tcache" where
  "Invalidate tc =
     (tc_clear tc)\<lparr>tb_pool := Arena_Reset (tb_pool tc), code_pool := Arena_Reset (code_pool tc),
       link_map := []\<rparr>"

text \<open>A null pointer is \<open>0\<close>.\<close>

definition LookupFull :: "u32 \<Rightarrow> tcache \<Rightarrow> uptr" where
  "LookupFull gip tc = (case map_of (tcache_map tc) gip of Some p \<Rightarrow> p | None \<Rightarrow> 0)"

definition Lookup :: "u32 \<Rightarrow> tcache \<Rightarrow> uptr \<times> tcache" where
  "Lookup a tc =
     (let hash = l1hash a; tb = l1_cache tc hash in
      if tb \<noteq> 0 \<and> tb_ip (tb_heap tc tb) = a then (tb, tc)
      else
        let tb' = LookupFull a tc in
        (tb', if tb' \<noteq> 0 then tc\<lparr>l1_cache := (l1_cache tc)(hash := tb')\<rparr> else tc))"

definition LookupUpperBound :: "u32 \<Rightarrow> tcache \<Rightarrow> uptr" where
  "LookupUpperBound gip tc = (case om_upper gip (tcache_map tc) of None \<Rightarrow> 0 | Some (_, p) \<Rightarrow> p)"

definition Insert :: "uptr \<Rightarrow> tcache \<Rightarrow> tcache" where
  "Insert tb tc =
     (let a = tb_ip (tb_heap tc tb) in
      tc\<lparr>tcache_map := om_insert a tb (tcache_map tc), l1_cache := (l1_cache tc)(l1hash a := tb)\<rparr>)"

definition CacheBrind :: "uptr \<Rightarrow> tcache \<Rightarrow> tcache" where
  "CacheBrind tb tc =
     (let b = tb_heap tc tb in
      tc\<lparr>l1_brind_cache := (l1_brind_cache tc)(l1hash (tb_ip b) := (tb_ip b, tc_ptr b)),
         tb_heap := (tb_heap tc)(tb := b\<lparr>is_brind_target := True\<rparr>)\<rparr>)"

definition RecordLink :: "uptr \<Rightarrow> uptr \<Rightarrow> bool \<Rightarrow> tcache \<Rightarrow> tcache" where
  "RecordLink slot tgt cross_segment tc =
     (let b = tb_heap tc tgt in
      tc\<lparr>tb_heap := (tb_heap tc)(tgt := b\<lparr>is_segment_entry := is_segment_entry b \<or> cross_segment\<rparr>),
         link_map := mm_insert (tb_ip b) slot (link_map tc)\<rparr>)"

text \<open>
  After \<open>Invalidate\<close> the null pointer is used as the place of a new block: undefined.
\<close>

definition AllocateTBlock :: "tcache \<Rightarrow> (uptr \<times> tcache) res" where
  "AllocateTBlock tc =
     rbind (Allocate (tb_pool tc) sizeof_TBlock alignof_TBlock) (\<lambda>(p, a).
       if p = 0 then Inl Undefined
       else Inr (p, tc\<lparr>tb_pool := a, tb_heap := (tb_heap tc)(p := new_tblock)\<rparr>))"

definition AllocateCode :: "u64 \<Rightarrow> u16 \<Rightarrow> tcache \<Rightarrow> (uptr \<times> tcache) res" where
  "AllocateCode code_sz align tc =
     rbind (Allocate (code_pool tc) code_sz (ucast align)) (\<lambda>(p, a).
       let tc1 = tc\<lparr>code_pool := a\<rparr> in Inr (p, if p = 0 then Invalidate tc1 else tc1))"

text \<open>
  \<open>InvalidatePage\<close>: unlink the slots linked to blocks of the page, forget the blocks. Both loops may
  run off the end of their map, and the loop over \<open>l1_cache\<close> dereferences every entry.
\<close>

definition below_page_end :: "u32 \<Rightarrow> u32 \<Rightarrow> bool" where
  "below_page_end pvaddr a \<longleftrightarrow> (ucast a :: u64) < ucast pvaddr + ucast PAGE_SIZE"

definition InvalidatePage :: "uptr \<Rightarrow> u32 \<Rightarrow> tcache \<times> mem \<Rightarrow> (tcache \<times> mem) res" where
  "InvalidatePage stub pvaddr st =
     (let (tc, m) = st in
      if rounddown pvaddr PAGE_SIZE \<noteq> pvaddr then Inl AssertFail
      else
        rbind (om_erase_range pvaddr (below_page_end pvaddr) (link_map tc)) (\<lambda>(del, links).
        rbind (om_erase_range pvaddr (below_page_end pvaddr) (tcache_map tc)) (\<lambda>(_, blocks).
          if list_ex (\<lambda>h. l1_cache tc (of_nat h) = 0) [0 ..< 2 ^ L1_CACHE_BITS] then Inl Undefined
          else
            Inr (tc\<lparr>link_map := links, tcache_map := blocks,
                   l1_cache := (\<lambda>h. if rounddown (tb_ip (tb_heap tc (l1_cache tc h))) PAGE_SIZE = pvaddr
                                    then 0 else l1_cache tc h),
                   l1_brind_cache := (\<lambda>h. if rounddown (fst (l1_brind_cache tc h)) PAGE_SIZE = pvaddr
                                          then (0, 0) else l1_brind_cache tc h)\<rparr>,
                 fold (\<lambda>e m. LinkLazyJIT stub m (snd e)) del m))))"

text \<open>
  The array \<open>l1_brind_cache\<close> in memory: an entry has 16 bytes, the guest address first and the code
  pointer, aligned to 8, behind it.
\<close>

definition BrindCacheEntry_at :: "uptr \<Rightarrow> mem \<Rightarrow> u32 \<Rightarrow> u32 \<times> uptr" where
  "BrindCacheEntry_at arr m h = (unaligned_load32 m (arr + 16 * ucast h), unaligned_load64 m (arr + 16 * ucast h + 8))"

text \<open>
  The lookup that \<open>QEmit::Emit_gbrind\<close> puts into translated code: the offset of the entry is computed
  from four times the address, masked; on a match of the address the entry's code is the target.
\<close>

definition brind_offset :: "u32 \<Rightarrow> u32" where
  "brind_offset tgt = push_bit 2 tgt AND ucast (push_bit 4 (push_bit L1_CACHE_BITS 1 - 1) :: u64)"

definition brind_fast :: "tcache \<Rightarrow> u32 \<Rightarrow> uptr option" where
  "brind_fast tc tgt =
     (let e = l1_brind_cache tc (drop_bit 4 (brind_offset tgt)) in
      if fst e = tgt then Some (snd e) else None)"

subsection \<open>The abstract map and the invariant\<close>

definition block_of :: "tcache \<Rightarrow> u32 \<rightharpoonup> uptr" where
  "block_of tc = map_of (tcache_map tc)"

definition code_of :: "tcache \<Rightarrow> u32 \<rightharpoonup> uptr" where
  "code_of tc a = map_option (\<lambda>p. tc_ptr (tb_heap tc p)) (block_of tc a)"

definition block_ok :: "tcache \<Rightarrow> u32 \<Rightarrow> uptr \<Rightarrow> bool" where
  "block_ok tc a p \<longleftrightarrow> p \<noteq> 0 \<and> tb_ip (tb_heap tc p) = a \<and>
     unat p + unat sizeof_TBlock \<le> unat (pool (tb_pool tc)) + unat (used (tb_pool tc))"

definition tc_ok :: "tcache \<Rightarrow> bool" where
  "tc_ok tc \<longleftrightarrow>
     om_ok (tcache_map tc) \<and> arena_ok (tb_pool tc) \<and>
     request_ok (tb_pool tc) (sizeof_TBlock, alignof_TBlock) \<and>
     (\<forall>a p. block_of tc a = Some p \<longrightarrow> block_ok tc a p) \<and>
     (\<forall>h. l1_cache tc h \<noteq> 0 \<longrightarrow>
        (\<exists>a. block_of tc a = Some (l1_cache tc h) \<and> l1hash a = h)) \<and>
     (\<forall>h. l1_brind_cache tc h = (0, 0) \<or>
        (\<exists>a c. l1_brind_cache tc h = (a, c) \<and> code_of tc a = Some c \<and> l1hash a = h))"


lemmas tcache_simps = block_of_def code_of_def block_ok_def

lemma tc_okD:
  assumes "tc_ok tc"
  shows "om_ok (tcache_map tc)" "arena_ok (tb_pool tc)"
    "request_ok (tb_pool tc) (sizeof_TBlock, alignof_TBlock)"
    "\<And>a p. block_of tc a = Some p \<Longrightarrow> block_ok tc a p"
    "\<And>h. l1_cache tc h \<noteq> 0 \<Longrightarrow> \<exists>a. block_of tc a = Some (l1_cache tc h) \<and> l1hash a = h"
    "\<And>h. l1_brind_cache tc h = (0, 0) \<or>
       (\<exists>a c. l1_brind_cache tc h = (a, c) \<and> code_of tc a = Some c \<and> l1hash a = h)"
  using assms by (auto simp: tc_ok_def)

text \<open>An operation that leaves map, pools and the addresses of blocks alone only has to keep the two caches.\<close>

lemma tc_ok_caches:
  assumes "tc_ok tc" "tcache_map tc' = tcache_map tc" "tb_pool tc' = tb_pool tc"
    "\<And>p. tb_ip (tb_heap tc' p) = tb_ip (tb_heap tc p)" "\<And>p. tc_ptr (tb_heap tc' p) = tc_ptr (tb_heap tc p)"
    "\<And>h. l1_cache tc' h = l1_cache tc h \<or>
       (\<exists>a. block_of tc a = Some (l1_cache tc' h) \<and> l1hash a = h)"
    "\<And>h. l1_brind_cache tc' h = l1_brind_cache tc h \<or>
       (\<exists>a c. l1_brind_cache tc' h = (a, c) \<and> code_of tc a = Some c \<and> l1hash a = h)"
  shows "tc_ok tc'" "block_of tc' = block_of tc" "code_of tc' = code_of tc"
proof -
  show b: "block_of tc' = block_of tc" by (simp add: block_of_def assms(2))
  show c: "code_of tc' = code_of tc" by (simp add: fun_eq_iff code_of_def b assms(5))
  have k: "block_ok tc' a p = block_ok tc a p" for a p by (simp add: block_ok_def assms(3,4))
  show "tc_ok tc'"
    unfolding tc_ok_def b c assms(2,3) k
  proof (intro conjI allI impI)
    fix h assume "l1_cache tc' h \<noteq> 0"
    then show "\<exists>a. block_of tc a = Some (l1_cache tc' h) \<and> l1hash a = h"
      using assms(6) [of h] tc_okD(5) [OF assms(1), of h] by auto
  next
    fix h
    show "l1_brind_cache tc' h = (0, 0) \<or>
        (\<exists>a c. l1_brind_cache tc' h = (a, c) \<and> code_of tc a = Some c \<and> l1hash a = h)"
      using assms(7) [of h] tc_okD(6) [OF assms(1), of h] by auto
  qed (use tc_okD [OF assms(1)] in auto)
qed

lemma LookupFull_eq: "tc_ok tc \<Longrightarrow> LookupFull a tc = p \<longleftrightarrow> (case block_of tc a of Some q \<Rightarrow> p = q | None \<Rightarrow> p = 0)"
  by (auto simp: LookupFull_def block_of_def split: option.splits)

lemma Lookup_spec:
  assumes "tc_ok tc"
  shows "fst (Lookup a tc) = LookupFull a tc" "tc_ok (snd (Lookup a tc))"
    "block_of (snd (Lookup a tc)) = block_of tc" "code_of (snd (Lookup a tc)) = code_of tc"
    "tb_heap (snd (Lookup a tc)) = tb_heap tc"
proof -
  have hit: "block_of tc a = Some (l1_cache tc (l1hash a))"
    if hit: "l1_cache tc (l1hash a) \<noteq> 0" "tb_ip (tb_heap tc (l1_cache tc (l1hash a))) = a"
  proof -
    obtain b where b: "block_of tc b = Some (l1_cache tc (l1hash a))"
      using tc_okD(5) [OF assms hit(1)] by blast
    with tc_okD(4) [OF assms this] hit(2) show ?thesis by (simp add: block_ok_def)
  qed
  then show "fst (Lookup a tc) = LookupFull a tc"
    by (auto simp: Lookup_def LookupFull_def block_of_def Let_def)
  have "l1_cache (snd (Lookup a tc)) h = l1_cache tc h \<or>
      (\<exists>b. block_of tc b = Some (l1_cache (snd (Lookup a tc)) h) \<and> l1hash b = h)" for h
    by (auto simp: Lookup_def LookupFull_def block_of_def Let_def split: option.splits)
  then show "tc_ok (snd (Lookup a tc))" "block_of (snd (Lookup a tc)) = block_of tc"
    "code_of (snd (Lookup a tc)) = code_of tc"
    using tc_ok_caches [OF assms, of "snd (Lookup a tc)"] by (auto simp: Lookup_def Let_def)
  show "tb_heap (snd (Lookup a tc)) = tb_heap tc" by (simp add: Lookup_def Let_def)
qed

lemma Lookup_found:
  assumes "tc_ok tc" "Lookup a tc = (found, tc1)"
  shows "case block_of tc a of Some p \<Rightarrow> found = p \<and> p \<noteq> 0 | None \<Rightarrow> found = 0"
  using Lookup_spec(1) [OF assms(1), of a] tc_okD(4) [OF assms(1), of a] assms(2)
  by (auto simp: LookupFull_def block_of_def block_ok_def split: option.splits)

lemma CacheBrind_spec:
  assumes "tc_ok tc" "block_of tc a = Some tb"
  shows "tc_ok (CacheBrind tb tc)" "block_of (CacheBrind tb tc) = block_of tc"
    "code_of (CacheBrind tb tc) = code_of tc"
    "l1_brind_cache (CacheBrind tb tc) (l1hash a) = (a, tc_ptr (tb_heap tc tb))"
proof -
  have ip: "tb_ip (tb_heap tc tb) = a"
    using tc_okD(4) [OF assms] by (simp add: block_ok_def)
  have "l1_brind_cache (CacheBrind tb tc) h = l1_brind_cache tc h \<or>
      (\<exists>b c. l1_brind_cache (CacheBrind tb tc) h = (b, c) \<and> code_of tc b = Some c \<and> l1hash b = h)" for h
    using assms(2) by (auto simp: CacheBrind_def code_of_def ip Let_def)
  then show "tc_ok (CacheBrind tb tc)" "block_of (CacheBrind tb tc) = block_of tc"
    "code_of (CacheBrind tb tc) = code_of tc"
    using tc_ok_caches [OF assms(1), of "CacheBrind tb tc"] by (auto simp: CacheBrind_def Let_def)
  show "l1_brind_cache (CacheBrind tb tc) (l1hash a) = (a, tc_ptr (tb_heap tc tb))"
    by (simp add: CacheBrind_def ip Let_def)
qed

lemma RecordLink_spec:
  assumes "tc_ok tc"
  shows "tc_ok (RecordLink slot tgt cs tc)" "block_of (RecordLink slot tgt cs tc) = block_of tc"
    "code_of (RecordLink slot tgt cs tc) = code_of tc"
  using tc_ok_caches [OF assms, of "RecordLink slot tgt cs tc"] by (auto simp: RecordLink_def Let_def)

lemma Insert_spec:
  assumes "tc_ok tc" "block_ok tc a tb" "block_of tc a = None"
  shows "tc_ok (Insert tb tc)" "block_of (Insert tb tc) = (block_of tc)(a \<mapsto> tb)"
    "code_of (Insert tb tc) = (code_of tc)(a \<mapsto> tc_ptr (tb_heap tc tb))"
proof -
  note ok = tc_okD [OF assms(1)]
  have ip: "tb_ip (tb_heap tc tb) = a" using assms(2) by (simp add: block_ok_def)
  have "map_of (om_insert a tb (tcache_map tc)) = (map_of (tcache_map tc))(a \<mapsto> tb)"
    using ok(1) assms(3) by (intro om.find_ins_new) (simp_all add: block_of_def)
  then show b: "block_of (Insert tb tc) = (block_of tc)(a \<mapsto> tb)"
    by (simp add: Insert_def block_of_def ip Let_def)
  show c: "code_of (Insert tb tc) = (code_of tc)(a \<mapsto> tc_ptr (tb_heap tc tb))"
    by (auto simp: code_of_def b fun_eq_iff) (simp_all add: Insert_def Let_def)
  have k: "block_ok (Insert tb tc) x p = block_ok tc x p" for x p
    by (simp add: block_ok_def Insert_def Let_def)
  have none: "code_of tc a = None" using assms(3) by (simp add: code_of_def)
  have l1: "l1_cache (Insert tb tc) = (l1_cache tc)(l1hash a := tb)"
    "l1_brind_cache (Insert tb tc) = l1_brind_cache tc" "tb_pool (Insert tb tc) = tb_pool tc"
    "om_ok (tcache_map (Insert tb tc))"
    using om.ok_ins [OF ok(1)] by (simp_all add: Insert_def ip Let_def)
  have "\<exists>x. block_of (Insert tb tc) x = Some (l1_cache (Insert tb tc) h) \<and> l1hash x = h"
    if nz: "l1_cache (Insert tb tc) h \<noteq> 0" for h
  proof (cases "h = l1hash a")
    case True
    then show ?thesis by (auto simp: l1 b)
  next
    case False
    then obtain x where "block_of tc x = Some (l1_cache tc h)" "l1hash x = h"
      using nz ok(5) [of h] by (auto simp: l1)
    with False show ?thesis by (auto simp: l1 b)
  qed
  moreover have "l1_brind_cache (Insert tb tc) h = (0, 0) \<or>
      (\<exists>x y. l1_brind_cache (Insert tb tc) h = (x, y) \<and> code_of (Insert tb tc) x = Some y \<and> l1hash x = h)" for h
    using ok(6) [of h]
  proof (elim disjE exE conjE)
    fix x y assume "l1_brind_cache tc h = (x, y)" "code_of tc x = Some y" "l1hash x = h"
    moreover from this none have "x \<noteq> a" by auto
    ultimately show ?thesis by (auto simp: l1 c)
  qed (simp add: l1)
  ultimately show "tc_ok (Insert tb tc)"
    unfolding tc_ok_def using ok(2,3,4) l1(3,4) assms(2) by (simp add: b k)
qed


lemma AllocateTBlock_spec:
  assumes "tc_ok tc" "AllocateTBlock tc = Inr (p, tc')"
  shows "tc_ok tc'" "block_of tc' = block_of tc" "code_of tc' = code_of tc"
    "\<And>a. block_of tc a \<noteq> Some p" "p \<noteq> 0"
    "unat p + unat sizeof_TBlock \<le> unat (pool (tb_pool tc')) + unat (used (tb_pool tc'))"
    "link_map tc' = link_map tc" "tb_heap tc' = (tb_heap tc)(p := new_tblock)"
proof -
  note ok = tc_okD [OF assms(1)]
  obtain a where al: "Allocate (tb_pool tc) sizeof_TBlock alignof_TBlock = Inr (p, a)" and p: "p \<noteq> 0"
    and tc': "tc' = tc\<lparr>tb_pool := a, tb_heap := (tb_heap tc)(p := new_tblock)\<rparr>"
    using assms(2) by (auto simp: AllocateTBlock_def split: if_splits)
  note pl = Allocate_Inr [OF ok(2,3) al]
  have fresh: "q \<noteq> p" if "block_of tc x = Some q" for x q
    using ok(4) [OF that] pl by (auto simp: block_ok_def sizeof_TBlock_def)
  then show "\<And>a. block_of tc a \<noteq> Some p" by blast
  show "p \<noteq> 0" "link_map tc' = link_map tc" "tb_heap tc' = (tb_heap tc)(p := new_tblock)"
    using p by (simp_all add: tc')
  show b: "block_of tc' = block_of tc" by (simp add: block_of_def tc')
  show c: "code_of tc' = code_of tc"
    using fresh unfolding fun_eq_iff code_of_def b by (auto simp: tc' intro: option.map_cong)
  show "unat p + unat sizeof_TBlock \<le> unat (pool (tb_pool tc')) + unat (used (tb_pool tc'))"
    using pl by (simp add: tc')
  have "unat (pool (tb_pool tc)) + unat (used (tb_pool tc)) \<le> unat (pool a) + unat (used a)"
    using pl by simp
  then have k: "block_ok tc' x q" if "block_of tc x = Some q" for x q
    using ok(4) [OF that] fresh [OF that] by (auto simp: block_ok_def tc')
  have "request_ok a (sizeof_TBlock, alignof_TBlock)"
    using ok(3) pl by (simp add: request_ok_def)
  with ok pl k show "tc_ok tc'"
    unfolding tc_ok_def b c by (simp add: tc')
qed

subsection \<open>Properties\<close>

text \<open>
  C21. A lookup through the direct-mapped cache gives what the map gives, whatever the cache holds:
  the block whose address is looked up, or null when there is none; it changes neither the map
  nor a block and keeps the invariant.
\<close>

theorem Lookup_correct:
  assumes "tc_ok tc"
  shows "(case block_of tc a of Some p \<Rightarrow> fst (Lookup a tc) = p \<and> p \<noteq> 0 | None \<Rightarrow> fst (Lookup a tc) = 0) \<and>
    tc_ok (snd (Lookup a tc)) \<and> block_of (snd (Lookup a tc)) = block_of tc \<and>
    code_of (snd (Lookup a tc)) = code_of tc"
  using Lookup_spec(2-4) [OF assms, of a] Lookup_found [OF assms, of a "fst (Lookup a tc)" "snd (Lookup a tc)"]
  by (auto split: option.splits)

text \<open>A cache with one block, at address \<open>0x1000\<close>, and an empty direct-mapped cache.\<close>

definition one_block :: tcache where
  "one_block =
     \<lparr>tb_heap = (\<lambda>_. new_tblock\<lparr>tb_ip := 0x1000, tc_ptr := 0x7000\<rparr>), l1_cache = (\<lambda>_. 0),
      l1_brind_cache = (\<lambda>_. (0, 0)), tcache_map = [(0x1000, 0x40000)],
      tb_pool = \<lparr>pool = 0x40000, pool_sz = 4096, used = 24\<rparr>,
      code_pool = \<lparr>pool = 0x50000, pool_sz = 4096, used = 0\<rparr>, link_map = []\<rparr>"

lemma one_block_ok: "tc_ok one_block" "block_of one_block 0x1000 = Some 0x40000"
  "block_of one_block 0x2000 = None"
  by (auto simp: tc_ok_def one_block_def om_ok_def arena_ok_def request_ok_def block_ok_def
      sizeof_TBlock_def alignof_TBlock_def block_of_def split: if_splits)

theorem Lookup_correct_witness:
  "tc_ok one_block \<and> fst (Lookup 0x1000 one_block) = 0x40000 \<and> fst (Lookup 0x2000 one_block) = 0"
  using Lookup_correct [OF one_block_ok(1), of "0x1000"] Lookup_correct [OF one_block_ok(1), of "0x2000"]
  by (simp add: one_block_ok)

lemma brind_index: "drop_bit 4 (brind_offset a) = l1hash a"
proof -
  have m: "push_bit L1_CACHE_BITS 1 - 1 = (mask 12 :: u64)"
    by (simp add: mask_eq_exp_minus_1 L1_CACHE_BITS_def)
  show ?thesis
    unfolding brind_offset_def l1hash_def m by (rule bit_word_eqI) (auto simp: bit_simps)
qed

lemma brind_offset_index: "ucast (brind_offset a) = (16 * ucast (l1hash a) :: u64)"
proof -
  have m: "push_bit L1_CACHE_BITS 1 - 1 = (mask 12 :: u64)"
    by (simp add: mask_eq_exp_minus_1 L1_CACHE_BITS_def)
  have k: "Suc (Suc (n - 4)) = n - 2" if "4 \<le> n" for n :: nat using that by simp
  have "ucast (brind_offset a) = (push_bit 4 (ucast (l1hash a)) :: u64)"
    unfolding brind_offset_def l1hash_def m by (rule bit_word_eqI) (auto simp: bit_simps k)
  then show ?thesis by (simp add: push_bit_eq_mult)
qed

text \<open>
  The lookup inlined into translated code uses the same entry as \<open>CacheBrind\<close>, and a hit jumps
  to the code of the block at that address. The exception is address \<open>0\<close>, which matches an empty
  entry and jumps to null.
\<close>

theorem brind_fast_correct:
  assumes "tc_ok tc" "brind_fast tc a = Some c"
  shows "code_of tc a = Some c \<or> (a = 0 \<and> c = 0 \<and> l1_brind_cache tc (l1hash 0) = (0, 0))"
  using tc_okD(6) [OF assms(1), of "l1hash a"] assms(2)
  by (auto simp: brind_fast_def brind_index Let_def split: if_splits)

theorem brind_fast_correct_witness:
  "tc_ok (CacheBrind 0x40000 one_block) \<and> brind_fast (CacheBrind 0x40000 one_block) 0x1000 = Some 0x7000 \<and>
   code_of (CacheBrind 0x40000 one_block) 0x1000 = Some 0x7000"
proof -
  note 1 = CacheBrind_spec [OF one_block_ok(1,2)]
  have "brind_fast (CacheBrind 0x40000 one_block) 0x1000 = Some 0x7000"
    using 1(4) by (simp add: brind_fast_def brind_index one_block_def)
  with brind_fast_correct [OF 1(1) this] 1(1) show ?thesis by simp
qed

text \<open>
  C30. Caching a block for indirect branches and recording a link to it keep the invariant and the
  map; after \<open>CacheBrind\<close> the inlined lookup of the block's address hits.
\<close>

theorem CacheBrind_RecordLink_correct:
  assumes "tc_ok tc" "block_of tc a = Some tb"
  shows "tc_ok (CacheBrind tb tc) \<and> code_of (CacheBrind tb tc) = code_of tc \<and>
    brind_fast (CacheBrind tb tc) a = code_of tc a \<and>
    tc_ok (RecordLink slot tb cs tc) \<and> code_of (RecordLink slot tb cs tc) = code_of tc"
  using CacheBrind_spec [OF assms] RecordLink_spec [OF assms(1), of slot tb cs] assms(2)
  by (simp add: brind_fast_def brind_index code_of_def)

theorem CacheBrind_RecordLink_correct_witness:
  "tc_ok (CacheBrind 0x40000 one_block) \<and>
   brind_fast (CacheBrind 0x40000 one_block) 0x1000 = Some 0x7000 \<and>
   tc_ok (RecordLink 0x9000 0x40000 True one_block)"
  using CacheBrind_RecordLink_correct [OF one_block_ok(1,2), of "0x9000" True]
  by (simp add: code_of_def one_block_ok(2)) (simp add: one_block_def)

end
