(* ===== verification/Qir_Wf.thy ===== *)
theory Qir_Wf
  imports Qir_Opt
begin

section \<open>Well-typed IR\<close>

text \<open>
  What the back end assumes of the IR it is given, and its assertions partly check: operands have
  the type their place needs, a virtual register is used at no more than its own width, a local
  register is written before it is read in the same block (locals do not escape a block:
  \<open>QRegAlloc::BlockBoundary\<close>), and the global register of the instruction pointer is touched only
  through its slot.
\<close>

subsection \<open>Types of virtual registers\<close>

primrec tbytes :: "vtype \<Rightarrow> nat" where
  "tbytes T_UNDEF = 0" | "tbytes T_I8 = 1" | "tbytes T_I16 = 2" | "tbytes T_I32 = 4"

text \<open>\<open>VRegsInfo::GetGlobalInfo\<close> and \<open>VRegsInfo::GetLocalType\<close>.\<close>

definition vreg_type :: "region \<Rightarrow> regn \<Rightarrow> vtype option" where
  "vreg_type rn r =
     (if IsGlobal rn r then Some (snd (rn_globals rn ! unat r))
      else if unat r < NumAll rn then Some (rn_locals rn ! (unat r - length (rn_globals rn)))
      else None)"

primrec opr_type :: "voperand \<Rightarrow> vtype" where
  "opr_type VBad = T_UNDEF" | "opr_type (VConst t c) = t" | "opr_type (VVReg t r) = t"
| "opr_type (VPReg t r) = t" | "opr_type (VSlot g t offs) = t"

primrec vreg_of :: "voperand \<Rightarrow> regn set" where
  "vreg_of VBad = {}" | "vreg_of (VConst t c) = {}" | "vreg_of (VVReg t r) = {r}"
| "vreg_of (VPReg t r) = {}" | "vreg_of (VSlot g t offs) = {}"

definition defs_of :: "inst \<Rightarrow> regn set" where
  "defs_of i = \<Union> (vreg_of ` set (outputs i))"

definition defs_list :: "inst list \<Rightarrow> regn set" where
  "defs_list is = \<Union> (defs_of ` set is)"

subsection \<open>Well-formed instructions\<close>

text \<open>A virtual register used at type \<open>t\<close>, with the locals in \<open>D\<close> written before.\<close>

primrec use_ok :: "region \<Rightarrow> regn set \<Rightarrow> vtype \<Rightarrow> voperand \<Rightarrow> bool" where
  "use_ok rn D t VBad = False"
| "use_ok rn D t (VConst t' c) = (t' = t \<and> t \<noteq> T_UNDEF)"
| "use_ok rn D t (VVReg t' r) =
     (t' = t \<and> t \<noteq> T_UNDEF \<and> r \<noteq> 31 \<and> (IsGlobal rn r \<or> r \<in> D) \<and>
      (case vreg_type rn r of None \<Rightarrow> False | Some t0 \<Rightarrow> tbytes t \<le> tbytes t0))"
| "use_ok rn D t (VPReg t' r) = False"
| "use_ok rn D t (VSlot g t' offs) = False"

primrec def_ok :: "region \<Rightarrow> voperand \<Rightarrow> bool" where
  "def_ok rn VBad = False"
| "def_ok rn (VConst t c) = False"
| "def_ok rn (VVReg t r) = (r \<noteq> 31 \<and> t \<noteq> T_UNDEF \<and> vreg_type rn r = Some t)"
| "def_ok rn (VPReg t r) = False"
| "def_ok rn (VSlot g t offs) = (g \<and> t = T_I32 \<and> slot_reg offs = Some 31)"

definition i32_vreg :: "voperand \<Rightarrow> bool" where
  "i32_vreg x \<longleftrightarrow> (case x of VVReg t r \<Rightarrow> t = T_I32 | _ \<Rightarrow> False)"

primrec in_types :: "inst \<Rightarrow> vtype list" where
  "in_types (Hcall sid a) = [T_I32]" | "in_types Br = []" | "in_types (Brcc cc a b) = [T_I32, T_I32]"
| "in_types (GBr t) = []" | "in_types (GBrind a) = [T_I32]" | "in_types (VMLoad sz sg d p) = [T_I32]"
| "in_types (VMStore sz sg p d) = [T_I32, sz]" | "in_types (Setcc cc d a b) = [T_I32, T_I32]"
| "in_types (Mov d s) = [opr_type d]" | "in_types (Binop bop d a b) = [T_I32, T_I32]"

primrec inst_shape :: "inst \<Rightarrow> bool" where
  "inst_shape (Hcall sid a) = (stub_op sid \<noteq> None \<and> is_const a)"
| "inst_shape Br = True"
| "inst_shape (Brcc cc a b) = True"
| "inst_shape (GBr t) = is_const t"
| "inst_shape (GBrind a) = True"
| "inst_shape (VMLoad sz sg d p) = (sz \<noteq> T_UNDEF \<and> i32_vreg d)"
| "inst_shape (VMStore sz sg p d) = (sz \<noteq> T_UNDEF \<and> sg = SG_U)"
| "inst_shape (Setcc cc d a b) = i32_vreg d"
| "inst_shape (Mov d s) = True"
| "inst_shape (Binop bop d a b) = i32_vreg d"

definition wf_inst :: "region \<Rightarrow> regn set \<Rightarrow> inst \<Rightarrow> bool" where
  "wf_inst rn D i \<longleftrightarrow>
     inst_shape i \<and> list_all2 (use_ok rn D) (in_types i) (inputs i) \<and> list_all (def_ok rn) (outputs i)"

fun wf_insts :: "region \<Rightarrow> regn set \<Rightarrow> inst list \<Rightarrow> bool" where
  "wf_insts rn D [] = True"
| "wf_insts rn D (i # is) = (wf_inst rn D i \<and> wf_insts rn (D \<union> defs_of i) is)"

definition wf_region :: "region \<Rightarrow> bool" where
  "wf_region rn \<longleftrightarrow>
     rn_globals rn = state_info \<and> T_UNDEF \<notin> set (rn_locals rn) \<and> (\<forall>k \<in> set (rn_blocks rn). wf_insts rn {} (bb_ilist k))"

text \<open>A block ends with a branch, or with a helper call that does not return; no branch comes before.\<close>

primrec is_term :: "inst \<Rightarrow> bool" where
  "is_term (Hcall sid a) = False" | "is_term Br = True" | "is_term (Brcc cc a b) = True"
| "is_term (GBr t) = True" | "is_term (GBrind a) = True" | "is_term (VMLoad sz sg d p) = False"
| "is_term (VMStore sz sg p d) = False" | "is_term (Setcc cc d a b) = False" | "is_term (Mov d s) = False"
| "is_term (Binop bop d a b) = False"

primrec is_hcall :: "inst \<Rightarrow> bool" where
  "is_hcall (Hcall sid a) = True" | "is_hcall Br = False" | "is_hcall (Brcc cc a b) = False"
| "is_hcall (GBr t) = False" | "is_hcall (GBrind a) = False" | "is_hcall (VMLoad sz sg d p) = False"
| "is_hcall (VMStore sz sg p d) = False" | "is_hcall (Setcc cc d a b) = False" | "is_hcall (Mov d s) = False"
| "is_hcall (Binop bop d a b) = False"

text \<open>The successors that a branch needs its block to have.\<close>

primrec nsucc :: "inst \<Rightarrow> nat" where
  "nsucc (Hcall sid a) = 0" | "nsucc Br = 1" | "nsucc (Brcc cc a b) = 2"
| "nsucc (GBr t) = 0" | "nsucc (GBrind a) = 0" | "nsucc (VMLoad sz sg d p) = 0"
| "nsucc (VMStore sz sg p d) = 0" | "nsucc (Setcc cc d a b) = 0" | "nsucc (Mov d s) = 0"
| "nsucc (Binop bop d a b) = 0"

definition succs_enough :: "region \<Rightarrow> bool" where
  "succs_enough rn \<longleftrightarrow> (\<forall>k \<in> set (rn_blocks rn). \<forall>i \<in> set (bb_ilist k). nsucc i \<le> length (bb_succs k))"

definition block_shape :: "inst list \<Rightarrow> bool" where
  "block_shape is \<longleftrightarrow>
     is = [] \<or> list_all (\<lambda>i. \<not> is_term i) (butlast is) \<and> (is_term (last is) \<or> is_hcall (last is))"

definition wf_blocks :: "region \<Rightarrow> bool" where
  "wf_blocks rn \<longleftrightarrow> (\<forall>k \<in> set (rn_blocks rn). block_shape (bb_ilist k))"

subsection \<open>Lemmas\<close>

lemma defs_list_simps [simp]:
  "defs_list [] = {}" "defs_list (i # is) = defs_of i \<union> defs_list is"
  "defs_list (xs @ ys) = defs_list xs \<union> defs_list ys"
  by (auto simp: defs_list_def)

lemma defs_of_simps [simp]:
  "defs_of (Hcall sid a) = {}" "defs_of Br = {}" "defs_of (Brcc cc a b) = {}" "defs_of (GBr t) = {}"
  "defs_of (GBrind a) = {}" "defs_of (VMLoad sz sg d p) = vreg_of d" "defs_of (VMStore sz sg p d) = {}"
  "defs_of (Setcc cc d a b) = vreg_of d" "defs_of (Mov d s) = vreg_of d" "defs_of (Binop bop d a b) = vreg_of d"
  by (simp_all add: defs_of_def)

lemma wf_insts_append:
  "wf_insts rn D (xs @ ys) \<longleftrightarrow> wf_insts rn D xs \<and> wf_insts rn (D \<union> defs_list xs) ys"
  by (induction xs arbitrary: D) (auto simp: Un_assoc)

text \<open>More locals and more definitions keep an instruction well formed.\<close>

definition rn_grows :: "region \<Rightarrow> region \<Rightarrow> bool" where
  "rn_grows rn rn' \<longleftrightarrow>
     rn_globals rn' = rn_globals rn \<and> rn_blocks rn' = rn_blocks rn \<and>
     (\<exists>ls. rn_locals rn' = rn_locals rn @ ls \<and> T_UNDEF \<notin> set ls)"

lemma rn_grows_refl [simp]: "rn_grows rn rn"
  by (simp add: rn_grows_def)

lemma rn_grows_trans: "rn_grows a b \<Longrightarrow> rn_grows b c \<Longrightarrow> rn_grows a c"
  by (auto simp: rn_grows_def)

lemma rn_grows_AddLocal: "t \<noteq> T_UNDEF \<Longrightarrow> rn_grows rn (snd (AddLocal rn t))"
  by (simp add: rn_grows_def)

lemma vreg_type_grows:
  assumes "rn_globals rn' = rn_globals rn" "rn_locals rn' = rn_locals rn @ ls" "vreg_type rn r = Some t"
  shows "vreg_type rn' r = Some t"
  using assms by (auto simp: vreg_type_def IsGlobal_def NumAll_def nth_append split: if_splits)

lemma use_ok_grows:
  assumes "rn_globals rn' = rn_globals rn" "rn_locals rn' = rn_locals rn @ ls" "D \<subseteq> D'" "use_ok rn D t x"
  shows "use_ok rn' D' t x"
  using assms vreg_type_grows [OF assms(1,2)]
  by (cases x) (auto simp: IsGlobal_def split: option.splits)

lemma def_ok_grows:
  assumes "rn_globals rn' = rn_globals rn" "rn_locals rn' = rn_locals rn @ ls" "def_ok rn x"
  shows "def_ok rn' x"
  using assms vreg_type_grows [OF assms(1,2)] by (cases x) auto

lemma wf_inst_grows:
  assumes "rn_globals rn' = rn_globals rn" "rn_locals rn' = rn_locals rn @ ls" "D \<subseteq> D'" "wf_inst rn D i"
  shows "wf_inst rn' D' i"
proof -
  have "list_all2 (use_ok rn' D') (in_types i) (inputs i)"
    using assms(4) use_ok_grows [OF assms(1-3)]
    by (auto simp: wf_inst_def elim: list_all2_mono)
  moreover have "list_all (def_ok rn') (outputs i)"
    using assms(4) def_ok_grows [OF assms(1,2)] by (simp add: wf_inst_def list_all_iff)
  ultimately show ?thesis using assms(4) by (simp add: wf_inst_def)
qed

lemma wf_insts_grows:
  assumes "rn_globals rn' = rn_globals rn" "rn_locals rn' = rn_locals rn @ ls" "D \<subseteq> D'" "wf_insts rn D is"
  shows "wf_insts rn' D' is"
  using assms(3,4)
proof (induction "is" arbitrary: D D')
  case (Cons i "is")
  from Cons.prems have "D \<union> defs_of i \<subseteq> D' \<union> defs_of i" by blast
  with Cons.IH [OF this] Cons.prems wf_inst_grows [OF assms(1,2) Cons.prems(1)] show ?case by simp
qed simp

lemma use_ok_const: "is_const x \<Longrightarrow> use_ok rn D t x \<Longrightarrow> \<exists>c. x = VConst t c"
  by (cases x) (simp_all add: is_const_def)

text \<open>Constant folding keeps instructions well formed.\<close>

lemma wf_fold_inst: "wf_inst rn D i \<Longrightarrow> wf_inst rn D (fold_inst i)"
proof (cases i)
  case (Binop bop d a b)
  assume wf: "wf_inst rn D i"
  show ?thesis
  proof (cases "bop = B_add")
    case True
    have d: "i32_vreg d" "def_ok rn d" "use_ok rn D T_I32 a" "use_ok rn D T_I32 b"
      using wf by (simp_all add: wf_inst_def Binop)
    then have "opr_type d = T_I32" by (simp add: i32_vreg_def split: voperand.splits)
    with d show ?thesis
      by (auto simp: Binop True fold_inst_def folder_visit_def visit_add_def is_const_def wf_inst_def
          Let_def split: voperand.splits if_splits)
  qed (use wf in \<open>simp add: Binop fold_inst_def folder_visit_def\<close>)
qed (simp_all add: fold_inst_def folder_visit_def)

lemma defs_fold_inst: "defs_of (fold_inst i) = defs_of i"
  by (cases i) (auto simp: fold_inst_def folder_visit_def visit_add_def is_const_def Let_def
      split: voperand.splits if_splits)

end
