(* ===== verification/Emit.thy ===== *)
theory Emit
  imports X86 Tcache Qir_Wf
begin

section \<open>Code emission: codegen/emit.h, codegen/emit.cpp, codegen/qcg.cpp\<close>

text \<open>
  \<open>QEmit\<close> turns every instruction of an allocated region into host instructions. Here each \<open>Emit_\<close>
  function gives the instructions it asks the assembler for, in order; the assembler itself, which
  turns them into bytes, is a library. A failed assertion and the use of a missing successor are
  faults. \<open>Emit_gbr\<close> on the level of bytes is in Branch_Slot.
\<close>

subsection \<open>Configuration\<close>

text \<open>
  What the emitter knows: whether the region makes no calls, the switch \<open>CONFIG_ZERO_MMU_BASE\<close>, the
  code segment, and the address of \<open>l1_brind_cache\<close>.
\<close>

record qemit =
  qe_leaf :: bool
  qe_zero_base :: bool
  qe_segment :: "u32 \<times> u32"
  qe_brind_cache :: uptr

definition spillframe_sp_offs :: "qemit \<Rightarrow> u32" where
  "spillframe_sp_offs c = 8 * (if qe_leaf c then 1 else 2)"

subsection \<open>Operands\<close>

primrec make_size :: "vtype \<Rightarrow> xsz res" where
  "make_size T_UNDEF = Inl AssertFail" | "make_size T_I8 = Inr S8" | "make_size T_I16 = Inr S16"
| "make_size T_I32 = Inr S32"

definition make_gpr :: "regn \<Rightarrow> vtype \<Rightarrow> xopr res" where
  "make_gpr pr t = rbind (make_size t) (\<lambda>sz. Inr (XReg sz pr))"

definition make_gpr_opr :: "voperand \<Rightarrow> xopr res" where
  "make_gpr_opr opr = (case opr of VPReg t p \<Rightarrow> make_gpr p t | _ \<Rightarrow> Inl AssertFail)"

definition make_imm :: "u32 \<Rightarrow> xopr" where
  "make_imm c = XImm (ucast c)"

text \<open>The offset is a \<open>u16\<close>, also after the frame offset is added.\<close>

definition make_slot :: "qemit \<Rightarrow> bool \<Rightarrow> vtype \<Rightarrow> u16 \<Rightarrow> xopr res" where
  "make_slot c g t offs =
     rbind (make_size t) (\<lambda>sz.
       Inr (if g then XM sz (XMem (Base64 STATE) None (ucast offs))
            else XM sz (XMem (Base64 SP) None (ucast (offs + ucast (spillframe_sp_offs c))))))"

definition make_operand :: "qemit \<Rightarrow> voperand \<Rightarrow> xopr res" where
  "make_operand c opr =
     (case opr of
        VPReg t p \<Rightarrow> make_gpr p t
      | VConst t i \<Rightarrow> Inr (make_imm i)
      | VSlot g t offs \<Rightarrow> make_slot c g t offs
      | _ \<Rightarrow> Inl AssertFail)"

primrec make_cc :: "condcode \<Rightarrow> xcc" where
  "make_cc CC_EQ = kEqual" | "make_cc CC_NE = kNotEqual" | "make_cc CC_LE = kSignedLE"
| "make_cc CC_LT = kSignedLT" | "make_cc CC_GE = kSignedGE" | "make_cc CC_GT = kSignedGT"
| "make_cc CC_LEU = kUnsignedLE" | "make_cc CC_LTU = kUnsignedLT" | "make_cc CC_GEU = kUnsignedGE"
| "make_cc CC_GTU = kUnsignedGT"

text \<open>
  A guest address: with a zero base it is the 32-bit register or the constant itself, otherwise the
  base register is added, and a constant is a signed displacement.
\<close>

definition make_vmem :: "qemit \<Rightarrow> voperand \<Rightarrow> xmem res" where
  "make_vmem c vbase =
     (case vbase of
        VPReg t p \<Rightarrow>
          if qe_zero_base c then
            rbind (make_gpr p t) (\<lambda>r. case r of XReg S32 q \<Rightarrow> Inr (XMem (Base32 q) None 0) | _ \<Rightarrow> Inl (Panic []))
          else rbind (make_gpr p t) (\<lambda>_. Inr (XMem (Base64 MEMBASE) (Some (p, 0)) 0))
      | VConst t i \<Rightarrow>
          Inr (if qe_zero_base c then XMem No_base None (ucast i) else XMem (Base64 MEMBASE) None (scast i))
      | _ \<Rightarrow> Inl AssertFail)"

subsection \<open>Instructions\<close>

definition FrameSetup :: "qemit \<Rightarrow> xinst list" where
  "FrameSetup c = (if \<not> qe_leaf c then [X_push RCX] else [])"

definition FrameDestroy :: "qemit \<Rightarrow> xinst list" where
  "FrameDestroy c = (if \<not> qe_leaf c then [X_pop RCX] else [])"

text \<open>Fills and spills by offset, which the passes do not use.\<close>

definition StateFill :: "regn \<Rightarrow> vtype \<Rightarrow> u16 \<Rightarrow> xinst list res" where
  "StateFill p t offs =
     rbind (make_size t) (\<lambda>sz. Inr [X_mov (XReg sz p) (XM sz (XMem (Base64 STATE) None (ucast offs)))])"

definition StateSpill :: "regn \<Rightarrow> vtype \<Rightarrow> u16 \<Rightarrow> xinst list res" where
  "StateSpill p t offs =
     rbind (make_size t) (\<lambda>sz. Inr [X_mov (XM sz (XMem (Base64 STATE) None (ucast offs))) (XReg sz p)])"

definition LocFill :: "regn \<Rightarrow> vtype \<Rightarrow> u16 \<Rightarrow> xinst list res" where
  "LocFill p t offs =
     rbind (make_size t) (\<lambda>sz. Inr [X_mov (XReg sz p) (XM sz (XMem (Base64 SP) None (ucast offs)))])"

definition LocSpill :: "regn \<Rightarrow> vtype \<Rightarrow> u16 \<Rightarrow> xinst list res" where
  "LocSpill p t offs =
     rbind (make_size t) (\<lambda>sz. Inr [X_mov (XM sz (XMem (Base64 SP) None (ucast offs))) (XReg sz p)])"

definition Emit_hcall :: "qemit \<Rightarrow> stub_id \<Rightarrow> voperand \<Rightarrow> xinst list res" where
  "Emit_hcall c stub a =
     (if qe_leaf c then Inl AssertFail
      else rbind (make_operand c a) (\<lambda>x.
        Inr [X_mov (XReg S64 RDI) (XReg S64 STATE), X_mov (XReg S64 RSI) x, X_call stub]))"

text \<open>\<open>bb\<close> is the number of the block, \<open>succs\<close> its successors; the next block in layout follows it.\<close>

definition succ_at :: "nat list \<Rightarrow> nat \<Rightarrow> nat res" where
  "succ_at succs k = (if k < length succs then Inr (succs ! k) else Inl (Panic []))"

definition Emit_br :: "nat \<Rightarrow> nat list \<Rightarrow> xinst list res" where
  "Emit_br bb succs =
     rbind (succ_at succs 0) (\<lambda>bb_s. Inr (if bb_s \<noteq> Suc bb then [X_jmp bb_s] else []))"

definition Emit_brcc :: "qemit \<Rightarrow> nat \<Rightarrow> nat list \<Rightarrow> condcode \<Rightarrow> voperand \<Rightarrow> voperand \<Rightarrow> xinst list res" where
  "Emit_brcc c bb succs cc vs0 vs1 =
     rbind (succ_at succs 0) (\<lambda>bb_t. rbind (succ_at succs 1) (\<lambda>bb_f.
     let (vs0', vs1', cc') = (if is_const vs0 then (vs1, vs0, SwapCC cc) else (vs0, vs1, cc)) in
     rbind (make_operand c vs0') (\<lambda>x. rbind (make_operand c vs1') (\<lambda>y.
       Inr ([X_cmp x y, X_jcc (make_cc cc') bb_t] @ (if bb_f \<noteq> Suc bb then [X_jmp bb_f] else []))))))"

definition Emit_gbr_code :: "qemit \<Rightarrow> voperand \<Rightarrow> xinst list res" where
  "Emit_gbr_code c tpc =
     (case tpc of
        VConst t g \<Rightarrow> Inr (FrameDestroy c @ [X_slot g (\<not> InSegment (qe_segment c) g)])
      | _ \<Rightarrow> Inl AssertFail)"

definition brind_mask :: u64 where
  "brind_mask = push_bit 4 (push_bit L1_CACHE_BITS 1 - 1)"

definition offs_brind_code :: u64 where "offs_brind_code = 8"

text \<open>The second component is the next unused label.\<close>

definition Emit_gbrind :: "qemit \<Rightarrow> voperand \<Rightarrow> nat \<Rightarrow> (xinst list \<times> nat) res" where
  "Emit_gbrind c a nl =
     rbind (make_gpr_opr a) (\<lambda>r.
       case r of
         XReg sz ptgt \<Rightarrow>
           if ptgt \<noteq> RSI then Inl AssertFail
           else
             let slowpath = nl; tmp0 = RDI; tmp1 = RDX in
             Inr ([X_mov (XReg S64 tmp1) (XImm (qe_brind_cache c)),
                   X_lea tmp0 (XMem No_base (Some (ptgt, 2)) 0),
                   X_op kIdAnd (XReg S32 tmp0) (XImm brind_mask),
                   X_cmp (XM S32 (XMem (Base64 tmp1) (Some (tmp0, 0)) 0)) (XReg S32 ptgt),
                   X_jcc kNotEqual slowpath] @
                  FrameDestroy c @
                  [X_jmp_mem (XMem (Base64 tmp1) (Some (tmp0, 0)) offs_brind_code),
                   X_bind slowpath,
                   X_mov (XReg S64 RDI) (XReg S64 STATE)] @
                  (if qe_leaf c then [X_push RCX] else []) @
                  [X_call Id_brind] @
                  (if qe_leaf c then [X_pop RCX] else FrameDestroy c) @
                  [X_jmp_reg RAX], Suc nl)
       | _ \<Rightarrow> Inl AssertFail)"

definition Emit_vmload :: "qemit \<Rightarrow> vtype \<Rightarrow> vsign \<Rightarrow> voperand \<Rightarrow> voperand \<Rightarrow> xinst list res" where
  "Emit_vmload c sz sg vrd vbase =
     rbind (make_gpr_opr vrd) (\<lambda>prd. rbind (make_vmem c vbase) (\<lambda>mem.
       if opr_type vrd \<noteq> T_I32 then Inl AssertFail
       else case sz of
         T_I8 \<Rightarrow> Inr [if sg = SG_U then X_movzx prd (XM S8 mem) else X_movsx prd (XM S8 mem)]
       | T_I16 \<Rightarrow> Inr [if sg = SG_U then X_movzx prd (XM S16 mem) else X_movsx prd (XM S16 mem)]
       | T_I32 \<Rightarrow> Inr [X_mov prd (XM S32 mem)]
       | _ \<Rightarrow> Inl Undefined))"

definition Emit_vmstore :: "qemit \<Rightarrow> vtype \<Rightarrow> vsign \<Rightarrow> voperand \<Rightarrow> voperand \<Rightarrow> xinst list res" where
  "Emit_vmstore c sz sg vbase vdata =
     rbind (make_operand c vdata) (\<lambda>pdata. rbind (make_vmem c vbase) (\<lambda>mem.
       if sg \<noteq> SG_U then Inl AssertFail
       else rbind (make_size sz) (\<lambda>s. Inr [X_mov (XM s mem) pdata])))"

definition Emit_setcc :: "qemit \<Rightarrow> condcode \<Rightarrow> voperand \<Rightarrow> voperand \<Rightarrow> voperand \<Rightarrow> xinst list res" where
  "Emit_setcc c cc vd vs0 vs1 =
     rbind (make_gpr_opr vd) (\<lambda>prd. rbind (make_gpr_opr vs0) (\<lambda>ps0.
       case (prd, ps0) of
         (XReg sz d, XReg sz0 p0) \<Rightarrow>
           let dst_aliased = (p0 = d \<or> (case vs1 of VPReg t p1 \<Rightarrow> p1 = d | _ \<Rightarrow> False)) in
           rbind (make_operand c vs0) (\<lambda>x. rbind (make_operand c vs1) (\<lambda>y.
             Inr ((if \<not> dst_aliased then [X_op kIdXor prd prd] else []) @
                  [X_cmp x y, X_setcc (make_cc cc) d] @
                  (if dst_aliased then [X_movzx prd (XReg S8 d)] else []))))
       | _ \<Rightarrow> Inl AssertFail))"

definition Emit_mov :: "qemit \<Rightarrow> voperand \<Rightarrow> voperand \<Rightarrow> xinst list res" where
  "Emit_mov c vrd vs0 =
     rbind (make_operand c vrd) (\<lambda>x. rbind (make_operand c vs0) (\<lambda>y. Inr [X_mov x y]))"

definition EmitInstBinop :: "qemit \<Rightarrow> xop \<Rightarrow> voperand \<Rightarrow> voperand \<Rightarrow> voperand \<Rightarrow> xinst list res" where
  "EmitInstBinop c op vrd vs0 vs1 =
     rbind (make_gpr_opr vrd) (\<lambda>d. rbind (make_gpr_opr vs0) (\<lambda>s0.
       case (d, s0) of
         (XReg _ p, XReg _ p0) \<Rightarrow>
           if p \<noteq> p0 then Inl AssertFail
           else rbind (make_operand c vs1) (\<lambda>y. Inr [X_op op d y])
       | _ \<Rightarrow> Inl AssertFail))"

text \<open>\<open>Emit_sra\<close>, \<open>Emit_srl\<close> and \<open>Emit_sll\<close> first check the shift count.\<close>

definition EmitShift :: "qemit \<Rightarrow> xop \<Rightarrow> voperand \<Rightarrow> voperand \<Rightarrow> voperand \<Rightarrow> xinst list res" where
  "EmitShift c op vrd vs0 vs1 =
     (if is_const vs1 \<or> (case vs1 of VPReg t p \<Rightarrow> p = RCX | _ \<Rightarrow> False) then EmitInstBinop c op vrd vs0 vs1
      else Inl AssertFail)"

primrec Emit_binop :: "qemit \<Rightarrow> binop \<Rightarrow> voperand \<Rightarrow> voperand \<Rightarrow> voperand \<Rightarrow> xinst list res" where
  "Emit_binop c B_add vrd vs0 vs1 = EmitInstBinop c kIdAdd vrd vs0 vs1"
| "Emit_binop c B_sub vrd vs0 vs1 = EmitInstBinop c kIdSub vrd vs0 vs1"
| "Emit_binop c B_and vrd vs0 vs1 = EmitInstBinop c kIdAnd vrd vs0 vs1"
| "Emit_binop c B_or vrd vs0 vs1 = EmitInstBinop c kIdOr vrd vs0 vs1"
| "Emit_binop c B_xor vrd vs0 vs1 = EmitInstBinop c kIdXor vrd vs0 vs1"
| "Emit_binop c B_sra vrd vs0 vs1 = EmitShift c kIdSar vrd vs0 vs1"
| "Emit_binop c B_srl vrd vs0 vs1 = EmitShift c kIdShr vrd vs0 vs1"
| "Emit_binop c B_sll vrd vs0 vs1 = EmitShift c kIdShl vrd vs0 vs1"

subsection \<open>The code generator\<close>

definition keep_label :: "nat \<Rightarrow> xinst list res \<Rightarrow> (xinst list \<times> nat) res" where
  "keep_label nl r = rbind r (\<lambda>is. Inr (is, nl))"

text \<open>\<open>QCodegenVisitor\<close>.\<close>

primrec emit_visit :: "qemit \<Rightarrow> nat \<Rightarrow> nat list \<Rightarrow> inst \<Rightarrow> nat \<Rightarrow> (xinst list \<times> nat) res" where
  "emit_visit c bb succs (Hcall stub a) nl = keep_label nl (Emit_hcall c stub a)"
| "emit_visit c bb succs Br nl = keep_label nl (Emit_br bb succs)"
| "emit_visit c bb succs (Brcc cc a b) nl = keep_label nl (Emit_brcc c bb succs cc a b)"
| "emit_visit c bb succs (GBr t) nl = keep_label nl (Emit_gbr_code c t)"
| "emit_visit c bb succs (GBrind a) nl = Emit_gbrind c a nl"
| "emit_visit c bb succs (VMLoad sz sg d p) nl = keep_label nl (Emit_vmload c sz sg d p)"
| "emit_visit c bb succs (VMStore sz sg p d) nl = keep_label nl (Emit_vmstore c sz sg p d)"
| "emit_visit c bb succs (Setcc cc d a b) nl = keep_label nl (Emit_setcc c cc d a b)"
| "emit_visit c bb succs (Mov d s) nl = keep_label nl (Emit_mov c d s)"
| "emit_visit c bb succs (Binop bop d a b) nl = keep_label nl (Emit_binop c bop d a b)"

text \<open>\<open>SetBlock\<close> binds the label of a block, then its instructions follow.\<close>

fun emit_insts :: "qemit \<Rightarrow> nat \<Rightarrow> nat list \<Rightarrow> inst list \<Rightarrow> nat \<Rightarrow> (xinst list \<times> nat) res" where
  "emit_insts c bb succs [] nl = Inr ([], nl)"
| "emit_insts c bb succs (i # is) nl =
     rbind (emit_visit c bb succs i nl) (\<lambda>(xs, nl1).
     rbind (emit_insts c bb succs is nl1) (\<lambda>(ys, nl2). Inr (xs @ ys, nl2)))"

definition emit_block :: "qemit \<Rightarrow> nat \<Rightarrow> block \<Rightarrow> nat \<Rightarrow> (xinst list \<times> nat) res" where
  "emit_block c bb k nl =
     rbind (emit_insts c bb (bb_succs k) (bb_ilist k) nl) (\<lambda>(xs, nl'). Inr (X_bind bb # xs, nl'))"

fun emit_blocks :: "qemit \<Rightarrow> nat \<Rightarrow> block list \<Rightarrow> nat \<Rightarrow> (xinst list \<times> nat) res" where
  "emit_blocks c bb [] nl = Inr ([], nl)"
| "emit_blocks c bb (k # ks) nl =
     rbind (emit_block c bb k nl) (\<lambda>(xs, nl1).
     rbind (emit_blocks c (Suc bb) ks nl1) (\<lambda>(ys, nl2). Inr (xs @ ys, nl2)))"

text \<open>The labels of the blocks are created first, by the constructor of \<open>QEmit\<close>.\<close>

definition QCodegen_Run :: "qemit \<Rightarrow> region \<Rightarrow> xinst list res" where
  "QCodegen_Run c rn =
     rbind (emit_blocks c 0 (rn_blocks rn) (length (rn_blocks rn))) (\<lambda>(xs, _). Inr (FrameSetup c @ xs))"

end
