(* ===== verification/Rv32_Qir.thy ===== *)
theory Rv32_Qir
  imports Qir_Opt
begin

section \<open>The translator: guest/rv32\_qir.cpp, guest/rv32\_qir.h, ir/compile.cpp\<close>

text \<open>
  \<open>RV32Translator\<close> turns guest code into IR. Its state is the region under construction, the
  builder's block (the builder always appends), the map from guest addresses to blocks, the
  control state and the current instruction address. A translation stops with \<open>Panic\<close> on an
  instruction it cannot decode.
\<close>

subsection \<open>State\<close>

datatype control = C_NEXT | C_BRANCH | C_TB_OVF

record translator =
  t_region :: region
  t_bb :: nat
  t_ip2bb :: "u32 \<rightharpoonup> nat"
  t_control :: control
  t_vmem :: uptr
  t_insn_ip :: u32

definition TB_MAX_INSNS :: nat where "TB_MAX_INSNS = 64"

subsection \<open>Operands\<close>

text \<open>\<open>vgpr\<close> is called with a non-zero register number only; \<open>gprop\<close> maps \<open>x0\<close> to zero.\<close>

definition vgpr :: "u8 \<Rightarrow> vtype \<Rightarrow> voperand" where
  "vgpr r t = VVReg t (of_nat GPR_START + ucast r - 1)"

definition vconst :: "u32 \<Rightarrow> voperand" where
  "vconst v = VConst T_I32 v"

definition gprop :: "u8 \<Rightarrow> vtype \<Rightarrow> voperand" where
  "gprop r t = (if r = 0 then VConst t 0 else vgpr r t)"

definition vtemp :: "translator \<Rightarrow> voperand \<times> translator" where
  "vtemp t = (let (r, rn) = AddLocal (t_region t) T_I32 in (VVReg T_I32 r, t\<lparr>t_region := rn\<rparr>))"

definition qb_create :: "translator \<Rightarrow> inst \<Rightarrow> translator" where
  "qb_create t ins =
     t\<lparr>t_region := upd_block (t_region t) (t_bb t)
        (\<lambda>k. k\<lparr>bb_ilist := Builder_Create (bb_ilist k) (length (bb_ilist k)) ins\<rparr>)\<rparr>"

definition add_succ :: "translator \<Rightarrow> nat \<Rightarrow> translator" where
  "add_succ t succ = t\<lparr>t_region := AddSucc (t_region t) (t_bb t) succ\<rparr>"

subsection \<open>Translation helpers\<close>

definition PreSideeff :: "translator \<Rightarrow> translator" where
  "PreSideeff t =
     (let offs = fst (state_info ! GRID_IP) in
      qb_create t (Mov (VSlot True T_I32 offs) (vconst (t_insn_ip t))))"

definition MakeGBr :: "translator \<Rightarrow> u32 \<Rightarrow> translator" where
  "MakeGBr t gip =
     (case t_ip2bb t gip of
        Some b \<Rightarrow> add_succ (qb_create t Br) b
      | None \<Rightarrow> qb_create t (GBr (vconst gip)))"

text \<open>The lambda \<open>make_target\<close> of \<open>TranslateBrcc\<close>: a new block moves the builder.\<close>

definition make_target :: "translator \<Rightarrow> u32 \<Rightarrow> nat \<times> translator" where
  "make_target t gip =
     (case t_ip2bb t gip of
        Some b \<Rightarrow> (b, t)
      | None \<Rightarrow>
          (let (b, rn) = CreateBlock (t_region t);
               t' = qb_create (t\<lparr>t_region := rn, t_bb := b\<rparr>) (GBr (vconst gip))
           in (b, t')))"

definition TranslateBrcc :: "translator \<Rightarrow> u32 \<Rightarrow> condcode \<Rightarrow> translator" where
  "TranslateBrcc t i cc =
     (let bb_src = t_bb t;
          (bb_f, t1) = make_target t (t_insn_ip t + 4);
          (bb_t, t2) = make_target t1 (t_insn_ip t1 + imm_B i);
          t3 = t2\<lparr>t_bb := bb_src\<rparr>;
          t4 = qb_create t3 (Brcc cc (gprop (insn_rs1 i) T_I32) (gprop (insn_rs2 i) T_I32))
      in add_succ (add_succ t4 bb_t) bb_f)"

definition TranslateSetcc_R :: "translator \<Rightarrow> u32 \<Rightarrow> condcode \<Rightarrow> translator" where
  "TranslateSetcc_R t i cc =
     (if insn_rd i \<noteq> 0 then
        qb_create t (Setcc cc (vgpr (insn_rd i) T_I32) (gprop (insn_rs1 i) T_I32)
          (gprop (insn_rs2 i) T_I32))
      else t)"

definition TranslateSetcc_I :: "translator \<Rightarrow> u32 \<Rightarrow> condcode \<Rightarrow> translator" where
  "TranslateSetcc_I t i cc =
     (if insn_rd i \<noteq> 0 then
        qb_create t (Setcc cc (vgpr (insn_rd i) T_I32) (gprop (insn_rs1 i) T_I32)
          (vconst (scast (imm_I i))))
      else t)"

definition TranslateLoad :: "translator \<Rightarrow> u32 \<Rightarrow> vtype \<Rightarrow> vsign \<Rightarrow> translator" where
  "TranslateLoad t i ty sg =
     (let (addr, t1) =
        (if imm_I i \<noteq> 0 then
           (let (tmp, t') = vtemp t in
            (tmp, qb_create t' (Binop B_add tmp (gprop (insn_rs1 i) T_I32) (vconst (scast (imm_I i))))))
         else (gprop (insn_rs1 i) T_I32, t))
      in if insn_rd i \<noteq> 0 then qb_create t1 (VMLoad ty sg (vgpr (insn_rd i) T_I32) addr)
         else qb_create t1 (VMLoad ty sg addr addr))"

definition TranslateStore :: "translator \<Rightarrow> u32 \<Rightarrow> vtype \<Rightarrow> vsign \<Rightarrow> translator" where
  "TranslateStore t i ty sg =
     (let (addr, t1) =
        (if imm_S i \<noteq> 0 then
           (let (tmp, t') = vtemp t in
            (tmp, qb_create t' (Binop B_add tmp (gprop (insn_rs1 i) T_I32) (vconst (scast (imm_S i))))))
         else (gprop (insn_rs1 i) T_I32, t))
      in qb_create t1 (VMStore ty sg addr (gprop (insn_rs2 i) ty)))"

definition TranslateHelper :: "translator \<Rightarrow> u32 \<Rightarrow> stub_id \<Rightarrow> translator" where
  "TranslateHelper t i stub = qb_create t (Hcall stub (vconst i))"

definition TRANSLATOR_ArithmRR :: "translator \<Rightarrow> u32 \<Rightarrow> binop \<Rightarrow> translator" where
  "TRANSLATOR_ArithmRR t i bop =
     (if insn_rd i \<noteq> 0 then
        qb_create t (Binop bop (vgpr (insn_rd i) T_I32) (gprop (insn_rs1 i) T_I32)
          (gprop (insn_rs2 i) T_I32))
      else t)"

text \<open>The immediate is \<open>i.imm()\<close> of the instruction's format, converted to \<open>u32\<close>.\<close>

definition TRANSLATOR_ArithmRI :: "translator \<Rightarrow> u32 \<Rightarrow> u32 \<Rightarrow> binop \<Rightarrow> translator" where
  "TRANSLATOR_ArithmRI t i imm bop =
     (if insn_rd i \<noteq> 0 then
        qb_create t (Binop bop (vgpr (insn_rd i) T_I32) (gprop (insn_rs1 i) T_I32) (vconst imm))
      else t)"

definition V_mov_const :: "translator \<Rightarrow> u32 \<Rightarrow> u32 \<Rightarrow> translator" where
  "V_mov_const t i v = (if insn_rd i \<noteq> 0 then qb_create t (Mov (vgpr (insn_rd i) T_I32) (vconst v)) else t)"

definition V_jal :: "translator \<Rightarrow> u32 \<Rightarrow> translator" where
  "V_jal t i = MakeGBr (V_mov_const t i (t_insn_ip t + 4)) (t_insn_ip t + imm_J i)"

definition V_jalr :: "translator \<Rightarrow> u32 \<Rightarrow> translator" where
  "V_jalr t i =
     (let (tgt, t1) = vtemp t;
          t2 = qb_create t1 (Binop B_add tgt (gprop (insn_rs1 i) T_I32) (vconst (scast (imm_I i))));
          t3 = qb_create t2 (Binop B_and tgt tgt (vconst (NOT 1)));
          t4 = V_mov_const t3 i (t_insn_ip t + 4)
      in qb_create t4 (GBrind tgt))"

subsection \<open>One instruction\<close>

primrec V_insn :: "rv_op \<Rightarrow> translator \<Rightarrow> u32 \<Rightarrow> translator res" where
  "V_insn I_illegal t i = Inl (Panic ''Unimplemented instruction illegal'')"
| "V_insn I_lui t i = Inr (V_mov_const t i (imm_U i))"
| "V_insn I_auipc t i = Inr (V_mov_const t i (imm_U i + t_insn_ip t))"
| "V_insn I_jal t i = Inr (V_jal t i)"
| "V_insn I_jalr t i = Inr (V_jalr t i)"
| "V_insn I_beq t i = Inr (TranslateBrcc t i CC_EQ)"
| "V_insn I_bne t i = Inr (TranslateBrcc t i CC_NE)"
| "V_insn I_blt t i = Inr (TranslateBrcc t i CC_LT)"
| "V_insn I_bge t i = Inr (TranslateBrcc t i CC_GE)"
| "V_insn I_bltu t i = Inr (TranslateBrcc t i CC_LTU)"
| "V_insn I_bgeu t i = Inr (TranslateBrcc t i CC_GEU)"
| "V_insn I_lb t i = Inr (TranslateLoad t i T_I8 SG_S)"
| "V_insn I_lh t i = Inr (TranslateLoad t i T_I16 SG_S)"
| "V_insn I_lw t i = Inr (TranslateLoad t i T_I32 SG_S)"
| "V_insn I_lbu t i = Inr (TranslateLoad t i T_I8 SG_U)"
| "V_insn I_lhu t i = Inr (TranslateLoad t i T_I16 SG_U)"
| "V_insn I_sb t i = Inr (TranslateStore t i T_I8 SG_U)"
| "V_insn I_sh t i = Inr (TranslateStore t i T_I16 SG_U)"
| "V_insn I_sw t i = Inr (TranslateStore t i T_I32 SG_U)"
| "V_insn I_addi t i = Inr (TRANSLATOR_ArithmRI t i (scast (imm_I i)) B_add)"
| "V_insn I_slti t i = Inr (TranslateSetcc_I t i CC_LT)"
| "V_insn I_sltiu t i = Inr (TranslateSetcc_I t i CC_LTU)"
| "V_insn I_xori t i = Inr (TRANSLATOR_ArithmRI t i (scast (imm_I i)) B_xor)"
| "V_insn I_ori t i = Inr (TRANSLATOR_ArithmRI t i (scast (imm_I i)) B_or)"
| "V_insn I_andi t i = Inr (TRANSLATOR_ArithmRI t i (scast (imm_I i)) B_and)"
| "V_insn I_slli t i = Inr (TRANSLATOR_ArithmRI t i (ucast (imm_IS i)) B_sll)"
| "V_insn I_srai t i = Inr (TRANSLATOR_ArithmRI t i (ucast (imm_IS i)) B_sra)"
| "V_insn I_srli t i = Inr (TRANSLATOR_ArithmRI t i (ucast (imm_IS i)) B_srl)"
| "V_insn I_sub t i = Inr (TRANSLATOR_ArithmRR t i B_sub)"
| "V_insn I_add t i = Inr (TRANSLATOR_ArithmRR t i B_add)"
| "V_insn I_sll t i = Inr (TRANSLATOR_ArithmRR t i B_sll)"
| "V_insn I_slt t i = Inr (TranslateSetcc_R t i CC_LT)"
| "V_insn I_sltu t i = Inr (TranslateSetcc_R t i CC_LTU)"
| "V_insn I_xor t i = Inr (TRANSLATOR_ArithmRR t i B_xor)"
| "V_insn I_sra t i = Inr (TRANSLATOR_ArithmRR t i B_sra)"
| "V_insn I_srl t i = Inr (TRANSLATOR_ArithmRR t i B_srl)"
| "V_insn I_or t i = Inr (TRANSLATOR_ArithmRR t i B_or)"
| "V_insn I_and t i = Inr (TRANSLATOR_ArithmRR t i B_and)"
| "V_insn I_fence t i = Inr (TranslateHelper t i Id_rv32_fence)"
| "V_insn I_fencei t i = Inr (TranslateHelper t i Id_rv32_fencei)"
| "V_insn I_ecall t i = Inr (TranslateHelper t i Id_rv32_ecall)"
| "V_insn I_ebreak t i = Inr (TranslateHelper t i Id_rv32_ebreak)"

text \<open>The wrapper \<open>H_##name\<close> of the macro \<open>TRANSLATOR\<close>.\<close>

definition H_translate :: "rv_op \<Rightarrow> translator \<Rightarrow> u32 \<Rightarrow> translator res" where
  "H_translate op t raw =
     (let t1 = (if has_flag op Flag_Trap \<or> has_flag op Flag_MayTrap then PreSideeff t else t) in
      rbind (V_insn op t1 raw) (\<lambda>t2.
        let t3 = (if has_flag op Flag_Branch \<or> has_flag op Flag_Trap
                  then t2\<lparr>t_control := C_BRANCH\<rparr> else t2)
        in Inr (t3\<lparr>t_insn_ip := t_insn_ip t3 + 4\<rparr>)))"

text \<open>\<open>code\<close> is the memory at translation time.\<close>

definition TranslateInsn :: "mem \<Rightarrow> translator \<Rightarrow> translator res" where
  "TranslateInsn code t =
     (let raw = fetch (t_vmem t) code (t_insn_ip t) in H_translate (Decode raw) t raw)"

subsection \<open>Ranges and regions\<close>

text \<open>
  The loop of \<open>TranslateIPRange\<close>; \<open>left\<close> is \<open>TB_MAX_INSNS - num_insns\<close>, so \<open>left = 0\<close> after
  an instruction is \<open>num_insns == TB_MAX_INSNS\<close>.
\<close>

fun translate_loop :: "nat \<Rightarrow> mem \<Rightarrow> u32 \<Rightarrow> translator \<Rightarrow> translator res" where
  "translate_loop 0 code boundary t = Inr t"
| "translate_loop (Suc left) code boundary t =
     rbind (TranslateInsn code t) (\<lambda>t'.
       if t_control t' \<noteq> C_NEXT then Inr t'
       else if left = 0 \<or> boundary \<le> t_insn_ip t' then
         Inr (MakeGBr (t'\<lparr>t_control := C_TB_OVF\<rparr>) (t_insn_ip t'))
       else translate_loop left code boundary t')"

definition TranslateIPRange :: "mem \<Rightarrow> u32 \<Rightarrow> u32 \<Rightarrow> translator \<Rightarrow> translator res" where
  "TranslateIPRange code gip boundary t =
     (if boundary = 0 then Inl AssertFail
      else case t_ip2bb t gip of
        None \<Rightarrow> Inl Undefined
      | Some b \<Rightarrow>
          translate_loop TB_MAX_INSNS code boundary
            (t\<lparr>t_insn_ip := gip, t_bb := b, t_control := C_NEXT\<rparr>))"

definition add_range_block :: "u32 \<times> u32 \<Rightarrow> translator \<Rightarrow> translator" where
  "add_range_block rg t =
     (let (b, rn) = CreateBlock (t_region t);
          m = (if fst rg \<in> dom (t_ip2bb t) then t_ip2bb t else (t_ip2bb t)(fst rg \<mapsto> b))
      in t\<lparr>t_region := rn, t_ip2bb := m\<rparr>)"

fun translate_ranges :: "mem \<Rightarrow> (u32 \<times> u32) list \<Rightarrow> translator \<Rightarrow> translator res" where
  "translate_ranges code [] t = Inr t"
| "translate_ranges code (rg # rgs) t =
     rbind (TranslateIPRange code (fst rg) (snd rg) t) (translate_ranges code rgs)"

definition new_translator :: "region \<Rightarrow> uptr \<Rightarrow> translator" where
  "new_translator rn vmem =
     \<lparr>t_region = rn, t_bb = 0, t_ip2bb = Map.empty, t_control = C_NEXT, t_vmem = vmem, t_insn_ip = 0\<rparr>"

definition Translate :: "mem \<Rightarrow> region \<Rightarrow> (u32 \<times> u32) list \<Rightarrow> uptr \<Rightarrow> region res" where
  "Translate code rn ipranges vmem =
     rbind (translate_ranges code ipranges
        (fold add_range_block ipranges (new_translator rn vmem))) (\<lambda>t. Inr (t_region t))"

definition CompilerGenRegionIR :: "mem \<Rightarrow> (u32 \<times> u32) list \<Rightarrow> uptr \<Rightarrow> region res" where
  "CompilerGenRegionIR code ipranges vmem = Translate code (new_region state_info) ipranges vmem"

end
