(* ===== verification/Rv32_Qir_Correct.thy ===== *)
theory Rv32_Qir_Correct
  imports Rv32_Qir
begin

section \<open>Correctness of the translator\<close>

text \<open>
  The IR emitted for a guest instruction does what the interpreter's handler for that
  instruction does. The first part lifts execution of IR to the block the builder appends to;
  the second relates guest CPU states with IR states; then every straight-line instruction,
  every control transfer, a whole instruction range and a region follow.
\<close>

subsection \<open>The block under construction\<close>

definition insts_of :: "translator \<Rightarrow> inst list" where
  "insts_of t = bb_ilist (rn_blocks (t_region t) ! t_bb t)"

definition run_bb :: "translator \<Rightarrow> qstate \<Rightarrow> qres option" where
  "run_bb t st = exec_insts (t_vmem t) (insts_of t) st"

definition bb_ok :: "translator \<Rightarrow> bool" where
  "bb_ok t \<longleftrightarrow> t_bb t < length (rn_blocks (t_region t))"

lemma qb_create_sel [simp]:
  "t_bb (qb_create t ins) = t_bb t" "t_ip2bb (qb_create t ins) = t_ip2bb t"
  "t_control (qb_create t ins) = t_control t" "t_vmem (qb_create t ins) = t_vmem t"
  "t_insn_ip (qb_create t ins) = t_insn_ip t"
  "rn_globals (t_region (qb_create t ins)) = rn_globals (t_region t)"
  "rn_locals (t_region (qb_create t ins)) = rn_locals (t_region t)"
  "length (rn_blocks (t_region (qb_create t ins))) = length (rn_blocks (t_region t))"
  "bb_ok (qb_create t ins) \<longleftrightarrow> bb_ok t"
  by (simp_all add: qb_create_def bb_ok_def)

lemma insts_of_create: "bb_ok t \<Longrightarrow> insts_of (qb_create t ins) = insts_of t @ [fold_inst ins]"
  by (simp add: insts_of_def qb_create_def bb_ok_def Builder_Create_eq il_insert_def)

lemma succs_create [simp]:
  "bb_ok t \<Longrightarrow> bb_succs (rn_blocks (t_region (qb_create t ins)) ! k) = bb_succs (rn_blocks (t_region t) ! k)"
  by (simp add: qb_create_def bb_ok_def)

lemma block_create_other:
  "bb_ok t \<Longrightarrow> k \<noteq> t_bb t \<Longrightarrow> rn_blocks (t_region (qb_create t ins)) ! k = rn_blocks (t_region t) ! k"
  by (simp add: qb_create_def bb_ok_def)

lemma run_create:
  assumes "bb_ok t" "run_bb t st = Some (QNext st1)"
  shows "run_bb (qb_create t ins) st = exec_inst (t_vmem t) ins st1"
  using assms
  by (cases "exec_inst (t_vmem t) ins st1")
    (auto simp: run_bb_def insts_of_create exec_insts_append exec_fold_inst split: qres.splits)

lemma vtemp_sel [simp]:
  "t_bb (snd (vtemp t)) = t_bb t" "t_ip2bb (snd (vtemp t)) = t_ip2bb t"
  "t_control (snd (vtemp t)) = t_control t" "t_vmem (snd (vtemp t)) = t_vmem t"
  "t_insn_ip (snd (vtemp t)) = t_insn_ip t" "bb_ok (snd (vtemp t)) = bb_ok t"
  "fst (vtemp t) = VVReg T_I32 (of_nat (NumAll (t_region t)))"
  "rn_globals (t_region (snd (vtemp t))) = rn_globals (t_region t)"
  "rn_locals (t_region (snd (vtemp t))) = rn_locals (t_region t) @ [T_I32]"
  "rn_blocks (t_region (snd (vtemp t))) = rn_blocks (t_region t)"
  "run_bb (snd (vtemp t)) = run_bb t"
  by (simp_all add: vtemp_def AddLocal_def bb_ok_def run_bb_def insts_of_def fun_eq_iff)

subsection \<open>Related states\<close>

definition cpu_rel :: "cpu_state \<Rightarrow> qstate \<Rightarrow> bool" where
  "cpu_rel s st \<longleftrightarrow>
     gpr s 0 = 0 \<and> trapno s = q_trap st \<and> (\<forall>r. r \<noteq> 0 \<and> r < 32 \<longrightarrow> q_vr st (gvr r) = gpr s r)"

lemma gvr_inj: "r \<noteq> 0 \<Longrightarrow> q \<noteq> 0 \<Longrightarrow> gvr r = gvr q \<longleftrightarrow> r = q"
  by (metis Suc_pred' unat_gt_0 unat_gvr word_unat_eq_iff)

lemma gvr_inverse: "r \<noteq> 0 \<Longrightarrow> ucast (gvr r) + 1 = (r :: u8)"
proof -
  assume r: "r \<noteq> 0"
  have "unat (gvr r) = unat r - 1" "unat r < 256" "0 < unat r"
    using r unat_gvr unsigned_less [of r, where 'a = nat] by (simp_all add: unat_gt_0)
  then show ?thesis
    by (simp add: word_unat_eq_iff unat_word_ariths unsigned_ucast_eq take_bit_eq_mod)
qed

lemma vgpr_eq: "vgpr r t = VVReg t (gvr r)"
  by (simp add: vgpr_def gvr_def GPR_START_def)

lemma set_vr_sel [simp]:
  "q_vr (set_vr st r v) = (q_vr st)(r := v)" "q_mem (set_vr st r v) = q_mem st"
  "q_trap (set_vr st r v) = q_trap st"
  by (simp_all add: set_vr_def)

lemma eval_gprop: "cpu_rel s st \<Longrightarrow> r < 32 \<Longrightarrow> eval_opr st (gprop r t) = Some (gpr s r)"
  by (auto simp: gprop_def vgpr_eq cpu_rel_def)

lemma cpu_rel_high:
  assumes "cpu_rel s st" "31 \<le> l"
  shows "cpu_rel s (set_vr st l v)"
proof -
  have "gvr r \<noteq> l" if "r \<noteq> 0" "r < 32" for r
    using gvr_less [OF that] assms(2) by auto
  then show ?thesis
    using assms(1) by (auto simp: cpu_rel_def)
qed

lemma cpu_rel_set:
  assumes "cpu_rel s st" "rd \<noteq> 0"
  shows "cpu_rel (set_gpr (set_gpr s rd v) 0 0) (set_vr st (gvr rd) v)"
  using assms gvr_inj by (auto simp: cpu_rel_def)

lemma cpu_rel_x0: "cpu_rel s st \<Longrightarrow> cpu_rel (set_gpr (set_gpr s 0 v) 0 0) st"
  by (auto simp: cpu_rel_def)

lemma cpu_rel_ip [simp]: "cpu_rel (s\<lparr>ip := i\<rparr>) st \<longleftrightarrow> cpu_rel s st"
  by (simp add: cpu_rel_def)

lemma cpu_rel_mem [simp]: "cpu_rel s (st\<lparr>q_mem := m\<rparr>) \<longleftrightarrow> cpu_rel s st"
  by (simp add: cpu_rel_def)

lemma local_index:
  assumes "32 \<le> n" "n < 2 ^ 16"
  shows "31 \<le> (of_nat n :: regn)"
  using assms by (simp add: word_le_nat_alt unat_of_nat take_bit_nat_eq_self)

subsection \<open>Straight-line instructions\<close>

text \<open>
  The block reached after emitting code relates to the interpreter's result: running the block
  from \<open>st\<close> falls through in a state that is related to \<open>s'\<close> and has memory \<open>m'\<close>.
\<close>

definition bb_sim :: "translator \<Rightarrow> qstate \<Rightarrow> cpu_state \<Rightarrow> mem \<Rightarrow> bool" where
  "bb_sim t st s m \<longleftrightarrow> (\<exists>st'. run_bb t st = Some (QNext st') \<and> cpu_rel s st' \<and> q_mem st' = m)"

lemma bb_simE:
  assumes "bb_sim t st s m"
  obtains st1 where "run_bb t st = Some (QNext st1)" "cpu_rel s st1" "q_mem st1 = m"
  using assms by (auto simp: bb_sim_def)

text \<open>Writing a guest register through a value that the operands determine.\<close>

lemma sim_write_rd:
  assumes "bb_ok t" "bb_sim t st s m"
    and "\<And>st1. cpu_rel s st1 \<Longrightarrow> q_mem st1 = m \<Longrightarrow>
      exec_inst (t_vmem t) ins st1 = Some (QNext (set_vr st1 (gvr rd) v))"
  shows "bb_sim (if rd \<noteq> 0 then qb_create t ins else t) st (set_gpr (set_gpr s rd v) 0 0) m"
proof -
  obtain st1 where st1: "run_bb t st = Some (QNext st1)" "cpu_rel s st1" "q_mem st1 = m"
    using assms(2) by (rule bb_simE)
  show ?thesis
  proof (cases "rd = 0")
    case True
    with st1 show ?thesis
      by (auto simp: bb_sim_def intro: cpu_rel_x0)
  next
    case False
    with assms(1,3) st1 show ?thesis
      by (auto simp: bb_sim_def run_create intro: cpu_rel_set)
  qed
qed

lemma sim_write_local:
  assumes "bb_ok t" "bb_sim t st s m" "31 \<le> l"
    and "\<And>st1. cpu_rel s st1 \<Longrightarrow> q_mem st1 = m \<Longrightarrow>
      exec_inst (t_vmem t) ins st1 = Some (QNext (set_vr st1 l v))"
  shows "bb_sim (qb_create t ins) st s m"
proof -
  obtain st1 where "run_bb t st = Some (QNext st1)" "cpu_rel s st1" "q_mem st1 = m"
    using assms(2) by (rule bb_simE)
  with assms show ?thesis
    by (auto simp: bb_sim_def run_create intro: cpu_rel_high)
qed

lemmas sim_simps = eval_gprop reg_fields_less vgpr_eq vconst_def

lemma sim_ArithmRR:
  assumes "bb_ok t" "bb_sim t st s m"
    and "v = binop_sem bop (gpr s (insn_rs1 i)) (gpr s (insn_rs2 i))"
  shows "bb_sim (TRANSLATOR_ArithmRR t i bop) st (set_gpr (set_gpr s (insn_rd i) v) 0 0) m"
  unfolding TRANSLATOR_ArithmRR_def assms(3)
  by (rule sim_write_rd [OF assms(1,2)]) (simp add: sim_simps)

lemma sim_ArithmRI:
  assumes "bb_ok t" "bb_sim t st s m"
    and "v = binop_sem bop (gpr s (insn_rs1 i)) imm"
  shows "bb_sim (TRANSLATOR_ArithmRI t i imm bop) st (set_gpr (set_gpr s (insn_rd i) v) 0 0) m"
  unfolding TRANSLATOR_ArithmRI_def assms(3)
  by (rule sim_write_rd [OF assms(1,2)]) (simp add: sim_simps)

lemma sim_Setcc_R:
  assumes "bb_ok t" "bb_sim t st s m"
    and "v = bool_u32 (cc_holds cc (gpr s (insn_rs1 i)) (gpr s (insn_rs2 i)))"
  shows "bb_sim (TranslateSetcc_R t i cc) st (set_gpr (set_gpr s (insn_rd i) v) 0 0) m"
  unfolding TranslateSetcc_R_def assms(3)
  by (rule sim_write_rd [OF assms(1,2)]) (simp add: sim_simps)

lemma sim_Setcc_I:
  assumes "bb_ok t" "bb_sim t st s m"
    and "v = bool_u32 (cc_holds cc (gpr s (insn_rs1 i)) (scast (imm_I i)))"
  shows "bb_sim (TranslateSetcc_I t i cc) st (set_gpr (set_gpr s (insn_rd i) v) 0 0) m"
  unfolding TranslateSetcc_I_def assms(3)
  by (rule sim_write_rd [OF assms(1,2)]) (simp add: sim_simps)

lemma sim_mov_const:
  assumes "bb_ok t" "bb_sim t st s m"
  shows "bb_sim (V_mov_const t i v) st (set_gpr (set_gpr s (insn_rd i) v) 0 0) m"
  unfolding V_mov_const_def
  by (rule sim_write_rd [OF assms]) (simp add: sim_simps)

lemma PreSideeff_run:
  assumes "bb_ok t" "bb_sim t st s m"
  obtains st1 where "run_bb (PreSideeff t) st = Some (QNext st1)" "cpu_rel s st1" "q_mem st1 = m"
    "q_vr st1 31 = t_insn_ip t"
proof -
  obtain st0 where st0: "run_bb t st = Some (QNext st0)" "cpu_rel s st0" "q_mem st0 = m"
    using assms(2) by (rule bb_simE)
  have "fst (state_info ! GRID_IP) = 128"
    by (simp add: state_info_def GRID_IP_def GPR_START_def GPR_END_def nth_append offs_ip_def offs_gpr_def)
  then have "run_bb (PreSideeff t) st = Some (QNext (set_vr st0 31 (t_insn_ip t)))"
    using st0 assms(1) by (simp add: PreSideeff_def run_create vconst_def)
  then show thesis
    using st0 by (intro that [of "set_vr st0 31 (t_insn_ip t)"]) (auto intro: cpu_rel_high)
qed

lemma sim_PreSideeff: "bb_ok t \<Longrightarrow> bb_sim t st s m \<Longrightarrow> bb_sim (PreSideeff t) st s m"
  by (erule (1) PreSideeff_run) (auto simp: bb_sim_def)

text \<open>The address computation that loads and stores share.\<close>

definition addr_code :: "translator \<Rightarrow> u8 \<Rightarrow> u16 \<Rightarrow> voperand \<times> translator" where
  "addr_code t r imm =
     (if imm \<noteq> 0 then
        (let (tmp, t') = vtemp t in
         (tmp, qb_create t' (Binop B_add tmp (gprop r T_I32) (vconst (scast imm)))))
      else (gprop r T_I32, t))"

lemma TranslateLoad_addr:
  "TranslateLoad t i ty sg =
    (let (addr, t1) = addr_code t (insn_rs1 i) (imm_I i)
     in if insn_rd i \<noteq> 0 then qb_create t1 (VMLoad ty sg (vgpr (insn_rd i) T_I32) addr)
        else qb_create t1 (VMLoad ty sg addr addr))"
  by (simp add: TranslateLoad_def addr_code_def)

lemma TranslateStore_addr:
  "TranslateStore t i ty sg =
    (let (addr, t1) = addr_code t (insn_rs1 i) (imm_S i)
     in qb_create t1 (VMStore ty sg addr (gprop (insn_rs2 i) ty)))"
  by (simp add: TranslateStore_def addr_code_def)

text \<open>Room for virtual registers: all 32 globals exist and register numbers have not wrapped.\<close>

definition vregs_ok :: "translator \<Rightarrow> bool" where
  "vregs_ok t \<longleftrightarrow> 32 \<le> NumAll (t_region t) \<and> NumAll (t_region t) < 2 ^ 16"

lemma addr_code_sim:
  assumes "bb_ok t" "vregs_ok t" "bb_sim t st s m" "r < 32" "addr_code t r imm = (addr, t1)"
  obtains st1 where "run_bb t1 st = Some (QNext st1)" "cpu_rel s st1" "q_mem st1 = m"
    "eval_opr st1 addr = Some (gpr s r + scast imm)" "bb_ok t1" "t_vmem t1 = t_vmem t"
    "imm \<noteq> 0 \<Longrightarrow> \<exists>l. addr = VVReg T_I32 l \<and> 31 \<le> l"
proof -
  obtain st0 where st0: "run_bb t st = Some (QNext st0)" "cpu_rel s st0" "q_mem st0 = m"
    using assms(3) by (rule bb_simE)
  show thesis
  proof (cases "imm = 0")
    case True
    with assms st0 show thesis
      by (intro that [of st0]) (auto simp: addr_code_def eval_gprop)
  next
    case False
    define l :: regn where "l = of_nat (NumAll (t_region t))"
    define t0 where "t0 = snd (vtemp t)"
    have vt: "vtemp t = (VVReg T_I32 l, t0)"
      by (simp add: prod_eq_iff l_def t0_def)
    have t0: "bb_ok t0" "t_vmem t0 = t_vmem t" "run_bb t0 = run_bb t"
      using assms(1) by (simp_all add: t0_def)
    have l: "31 \<le> l"
      using assms(2) by (simp add: l_def vregs_ok_def local_index)
    have addr: "addr = VVReg T_I32 l"
      and t1: "t1 = qb_create t0 (Binop B_add addr (gprop r T_I32) (vconst (scast imm)))"
      using assms(5) False by (auto simp: addr_code_def vt)
    have "run_bb t1 st = Some (QNext (set_vr st0 l (gpr s r + scast imm)))"
      unfolding t1 using assms(4) st0 t0
      by (subst run_create [where ?st1.0 = st0]) (simp_all add: addr eval_gprop vconst_def)
    then show thesis
      using st0 l t0
      by (intro that [of "set_vr st0 l (gpr s r + scast imm)"]) (auto simp: addr t1 intro: cpu_rel_high)
  qed
qed

lemma sim_Load:
  assumes "bb_ok t" "vregs_ok t" "bb_sim t st s m"
    and load: "vm_load ty sg m (guest_addr (t_vmem t) s (insn_rs1 i) (imm_I i)) = Some v"
    and x0: "insn_rd i = 0 \<Longrightarrow> imm_I i \<noteq> 0"
  shows "bb_sim (TranslateLoad t i ty sg) st
    (set_gpr (set_gpr s (insn_rd i) v) 0 0) m"
proof (cases "addr_code t (insn_rs1 i) (imm_I i)")
  case (Pair addr t1)
  from addr_code_sim [OF assms(1-3) reg_fields_less(2) Pair] obtain st1 where
    st1: "run_bb t1 st = Some (QNext st1)" "cpu_rel s st1" "q_mem st1 = m"
      "eval_opr st1 addr = Some (gpr s (insn_rs1 i) + scast (imm_I i))" "bb_ok t1" "t_vmem t1 = t_vmem t"
    and tmp: "imm_I i \<noteq> 0 \<Longrightarrow> \<exists>l. addr = VVReg T_I32 l \<and> 31 \<le> l"
    by metis
  show ?thesis
  proof (cases "insn_rd i = 0")
    case True
    with x0 tmp obtain l where "addr = VVReg T_I32 l" "31 \<le> l" by blast
    with True st1 load Pair show ?thesis
      by (auto simp: bb_sim_def TranslateLoad_addr run_create guest_addr_def
          intro!: cpu_rel_high cpu_rel_x0)
  next
    case False
    with st1 load Pair show ?thesis
      by (auto simp: bb_sim_def TranslateLoad_addr run_create guest_addr_def vgpr_eq
          intro!: cpu_rel_set)
  qed
qed

lemma sim_Store:
  assumes "bb_ok t" "vregs_ok t" "bb_sim t st s m"
    and store: "vm_store ty m (guest_addr (t_vmem t) s (insn_rs1 i) (imm_S i))
      (gpr s (insn_rs2 i)) = Some m'"
  shows "bb_sim (TranslateStore t i ty sg) st s m'"
proof (cases "addr_code t (insn_rs1 i) (imm_S i)")
  case (Pair addr t1)
  from addr_code_sim [OF assms(1-3) reg_fields_less(2) Pair] obtain st1 where
    "run_bb t1 st = Some (QNext st1)" "cpu_rel s st1" "q_mem st1 = m"
    "eval_opr st1 addr = Some (gpr s (insn_rs1 i) + scast (imm_S i))" "bb_ok t1" "t_vmem t1 = t_vmem t"
    by metis
  with store Pair show ?thesis
    by (auto simp: bb_sim_def TranslateStore_addr run_create guest_addr_def eval_gprop
        reg_fields_less)
qed

lemma cpu_rel_cpu_of: "cpu_rel s st \<Longrightarrow> r < 32 \<Longrightarrow> gpr (cpu_of st) r = gpr s r"
  by (auto simp: cpu_rel_def cpu_of_def)

lemma put_cpu_mem [simp]: "q_mem (put_cpu st s m) = m"
  by (simp add: put_cpu_def)

lemma cpu_rel_put:
  assumes "cpu_rel s st"
  shows "cpu_rel (s\<lparr>trapno := tc\<rparr>) (put_cpu st ((cpu_of st)\<lparr>ip := g, trapno := tc\<rparr>) m)"
    and "cpu_rel s (put_cpu st ((cpu_of st)\<lparr>ip := g\<rparr>) m)"
  using assms
  by (auto simp: cpu_rel_def put_cpu_def cpu_of_def gvr_less gvr_inverse)

lemma sim_fence:
  assumes "bb_ok t" "bb_sim t st s m" "stub \<in> {Id_rv32_fence, Id_rv32_fencei}"
  shows "bb_sim (TranslateHelper t i stub) st s m"
proof -
  obtain st1 where st1: "run_bb t st = Some (QNext st1)" "cpu_rel s st1" "q_mem st1 = m"
    using assms(2) by (rule bb_simE)
  have "exec_inst (t_vmem t) (Hcall stub (vconst i)) st1 =
      Some (QNext (put_cpu st1 ((cpu_of st1)\<lparr>ip := ip (cpu_of st1) + 4\<rparr>) m))"
    using assms(3) st1
    by (auto simp: stub_op_def vconst_def qcgstub_rv32_def H_handler_def)
  with st1 assms(1) show ?thesis
    unfolding TranslateHelper_def
    by (auto simp: bb_sim_def run_create simp del: exec_inst.simps intro: cpu_rel_put(2))
qed

text \<open>
  A load to \<open>x0\<close> with a zero offset is translated with the address operand as destination
  (\<open>TranslateLoad\<close>), which overwrites the base register; such instructions are excluded here
  and treated in the theory of regions.
\<close>

definition is_load :: "rv_op \<Rightarrow> bool" where
  "is_load op \<longleftrightarrow> op \<in> {I_lb, I_lh, I_lw, I_lbu, I_lhu}"

definition clobbers_base :: "u32 \<Rightarrow> bool" where
  "clobbers_base raw \<longleftrightarrow> is_load (Decode raw) \<and> insn_rd raw = 0 \<and> imm_I raw = 0"

definition straight :: "rv_op \<Rightarrow> bool" where
  "straight op \<longleftrightarrow> \<not> has_flag op Flag_Branch \<and> \<not> has_flag op Flag_Trap"

lemma vm_load_store_cases:
  "vm_load T_I8 SG_S m p = Some (scast (unaligned_load8 m p))"
  "vm_load T_I16 SG_S m p = Some (scast (unaligned_load16 m p))"
  "vm_load T_I32 SG_S m p = Some (unaligned_load32 m p)"
  "vm_load T_I8 SG_U m p = Some (ucast (unaligned_load8 m p))"
  "vm_load T_I16 SG_U m p = Some (ucast (unaligned_load16 m p))"
  "vm_store T_I8 m p v = Some (unaligned_store8 m p (ucast v))"
  "vm_store T_I16 m p v = Some (unaligned_store16 m p (ucast v))"
  "vm_store T_I32 m p v = Some (unaligned_store32 m p v)"
  by (simp_all add: vm_load_def vm_store_def)

lemma PreSideeff_sel [simp]:
  "bb_ok (PreSideeff t) \<longleftrightarrow> bb_ok t" "t_vmem (PreSideeff t) = t_vmem t"
  "t_insn_ip (PreSideeff t) = t_insn_ip t" "t_bb (PreSideeff t) = t_bb t"
  "t_ip2bb (PreSideeff t) = t_ip2bb t" "t_control (PreSideeff t) = t_control t"
  "NumAll (t_region (PreSideeff t)) = NumAll (t_region t)"
  "vregs_ok (PreSideeff t) \<longleftrightarrow> vregs_ok t"
  by (simp_all add: PreSideeff_def Let_def vregs_ok_def NumAll_def)

lemma bb_sim_ip [simp]: "bb_sim t st (s\<lparr>ip := g\<rparr>) m \<longleftrightarrow> bb_sim t st s m"
  by (simp add: bb_sim_def)

lemma set_gpr_ip: "set_gpr (s\<lparr>ip := g\<rparr>) r v = (set_gpr s r v)\<lparr>ip := g\<rparr>"
  by (simp add: set_gpr_def)

lemma unat_imm_IS_and_31: "unat (ucast (imm_IS raw) AND 31 :: u32) = unat (imm_IS raw)"
  by (simp add: unat_and_31 unat_ucast_imm_IS)

lemma V_straight_sim:
  assumes "bb_ok t" "vregs_ok t" "bb_sim t st s m" "straight op" "V_insn op t raw = Inr t'"
    and "is_load op \<Longrightarrow> insn_rd raw = 0 \<Longrightarrow> imm_I raw \<noteq> 0"
  shows "\<exists>s' m'. Impl op s (t_insn_ip t) (t_vmem t) m raw = Next s' (t_insn_ip t) m' \<and>
    bb_sim t' st (if has_flag op Flag_HasRd then set_gpr s' 0 0 else s') m'"
  using assms
  by (cases op)
    (auto simp: straight_def is_load_def Impl_defs unat_imm_IS_and_31 slt_word_def vm_load_store_cases
      intro!: sim_ArithmRR sim_ArithmRI sim_Setcc_R sim_Setcc_I sim_mov_const sim_fence sim_Load
        sim_Store)

subsection \<open>What emitting code leaves alone\<close>

definition emit_frame :: "translator \<Rightarrow> translator \<Rightarrow> bool" where
  "emit_frame t t' \<longleftrightarrow>
     t_bb t' = t_bb t \<and> t_ip2bb t' = t_ip2bb t \<and> t_control t' = t_control t \<and>
     t_vmem t' = t_vmem t \<and> t_insn_ip t' = t_insn_ip t \<and>
     length (rn_blocks (t_region t')) = length (rn_blocks (t_region t)) \<and>
     (\<forall>k. bb_succs (rn_blocks (t_region t') ! k) = bb_succs (rn_blocks (t_region t) ! k)) \<and>
     (\<forall>k. k \<noteq> t_bb t \<longrightarrow> rn_blocks (t_region t') ! k = rn_blocks (t_region t) ! k) \<and>
     NumAll (t_region t) \<le> NumAll (t_region t')"

lemma emit_frame_refl [intro!, simp]: "emit_frame t t"
  by (simp add: emit_frame_def)

lemma emit_frame_trans: "emit_frame t t1 \<Longrightarrow> emit_frame t1 t2 \<Longrightarrow> emit_frame t t2"
  unfolding emit_frame_def by simp

lemma emit_frame_bb_ok: "emit_frame t t' \<Longrightarrow> bb_ok t' \<longleftrightarrow> bb_ok t"
  by (simp add: emit_frame_def bb_ok_def)

lemma NumAll_create [simp]: "NumAll (t_region (qb_create t ins)) = NumAll (t_region t)"
  by (simp add: NumAll_def)

lemma NumAll_vtemp [simp]: "NumAll (t_region (snd (vtemp t))) = Suc (NumAll (t_region t))"
  by (simp add: NumAll_def)

lemma emit_frame_create: "bb_ok t \<Longrightarrow> emit_frame t t0 \<Longrightarrow> emit_frame t (qb_create t0 ins)"
  by (rule emit_frame_trans [of t t0])
    (simp_all add: emit_frame_def bb_ok_def block_create_other)

lemma emit_frame_PreSideeff: "bb_ok t \<Longrightarrow> emit_frame t (PreSideeff t)"
  by (simp add: PreSideeff_def Let_def emit_frame_create)

lemma emit_frame_vtemp: "emit_frame t (snd (vtemp t))"
  by (simp add: emit_frame_def)

lemmas V_defs = TRANSLATOR_ArithmRR_def TRANSLATOR_ArithmRI_def TranslateSetcc_R_def
  TranslateSetcc_I_def V_mov_const_def TranslateHelper_def

lemma addr_code_frame:
  assumes "bb_ok t" "addr_code t r imm = (addr, t1)"
  shows "emit_frame t t1" "NumAll (t_region t1) \<le> Suc (NumAll (t_region t))"
  using assms
  by (auto simp: addr_code_def split_beta intro!: emit_frame_create emit_frame_vtemp split: if_splits)

lemma V_straight_frame:
  assumes "bb_ok t" "straight op" "V_insn op t raw = Inr t'"
  shows "emit_frame t t' \<and> NumAll (t_region t') \<le> Suc (NumAll (t_region t))"
  using assms addr_code_frame [OF assms(1)]
  by (cases op)
    (auto simp: straight_def V_defs TranslateLoad_addr TranslateStore_addr Let_def
      intro!: emit_frame_create split: prod.splits)

text \<open>One straight-line instruction, with the wrapper around its translation and its handler.\<close>

lemma TranslateInsn_straight:
  assumes "bb_ok t" "vregs_ok t" "bb_sim t st s m" "TranslateInsn code t = Inr t'"
    and raw: "raw = fetch (t_vmem t) code (t_insn_ip t)"
    and "straight (Decode raw)" "\<not> clobbers_base raw"
  shows "\<exists>s' m'. H_handler (Decode raw) s (t_insn_ip t) (t_vmem t) m raw = Next s' (t_insn_ip t + 4) m' \<and>
    bb_sim t' st s' m'"
    and "emit_frame (t\<lparr>t_insn_ip := t_insn_ip t + 4\<rparr>) t'"
    and "NumAll (t_region t') \<le> Suc (NumAll (t_region t))"
proof -
  let ?op = "Decode raw"
  define t1 where "t1 = (if has_flag ?op Flag_Trap \<or> has_flag ?op Flag_MayTrap then PreSideeff t else t)"
  define s1 where "s1 = (if has_flag ?op Flag_Trap \<or> has_flag ?op Flag_MayTrap
      then s\<lparr>ip := t_insn_ip t\<rparr> else s)"
  have t1: "bb_ok t1" "vregs_ok t1" "bb_sim t1 st s1 m" "t_insn_ip t1 = t_insn_ip t"
    "t_vmem t1 = t_vmem t" "NumAll (t_region t1) = NumAll (t_region t)" "emit_frame t t1"
    using assms(1-3)
    by (auto simp: t1_def s1_def sim_PreSideeff intro!: emit_frame_PreSideeff
        simp del: has_flag_Trap has_flag_MayTrap)
  obtain t2 where t2: "V_insn ?op t1 raw = Inr t2" and t': "t' = t2\<lparr>t_insn_ip := t_insn_ip t2 + 4\<rparr>"
    using assms(4,6) unfolding TranslateInsn_def H_translate_def Let_def raw [symmetric] t1_def [symmetric]
    by (auto simp: straight_def simp del: has_flag_Trap has_flag_MayTrap has_flag_Branch)
  have load: "insn_rd raw = 0 \<Longrightarrow> is_load ?op \<Longrightarrow> imm_I raw \<noteq> 0"
    using assms(7) by (auto simp: clobbers_base_def)
  obtain s2 m2 where
    impl: "Impl ?op s1 (t_insn_ip t) (t_vmem t) m raw = Next s2 (t_insn_ip t) m2" and
    sim: "bb_sim t2 st (if has_flag ?op Flag_HasRd then set_gpr s2 0 0 else s2) m2"
    using V_straight_sim [OF t1(1-3) assms(6) t2] load t1(4,5) by auto
  have fr: "emit_frame t1 t2" "NumAll (t_region t2) \<le> Suc (NumAll (t_region t1))"
    using V_straight_frame [OF t1(1) assms(6) t2] by auto
  have sim': "bb_sim t' st (if has_flag ?op Flag_HasRd then set_gpr s2 0 0 else s2) m2"
    using sim by (simp add: t' bb_sim_def run_bb_def insts_of_def)
  show "\<exists>s' m'. H_handler ?op s (t_insn_ip t) (t_vmem t) m raw = Next s' (t_insn_ip t + 4) m' \<and>
      bb_sim t' st s' m'"
    using impl sim' assms(6) unfolding H_handler_def Let_def s1_def [symmetric]
    by (auto simp: straight_def simp del: has_flag_Trap has_flag_MayTrap has_flag_Branch)
  show "NumAll (t_region t') \<le> Suc (NumAll (t_region t))"
    using fr t1 by (simp add: t')
  show "emit_frame (t\<lparr>t_insn_ip := t_insn_ip t + 4\<rparr>) t'"
    using emit_frame_trans [OF t1(7) fr(1)] by (simp add: t' emit_frame_def)
qed


subsection \<open>Control transfers\<close>

text \<open>
  A finished block leaves to a guest address: it exits the region with that address, or goes
  to a successor that stands for the address. A block stands for an address when \<open>ip2bb\<close>
  says so, or when all it does is to exit with that address.
\<close>

definition succs_of :: "translator \<Rightarrow> nat list" where
  "succs_of t = bb_succs (rn_blocks (t_region t) ! t_bb t)"

definition leads :: "(u32 \<rightharpoonup> nat) \<Rightarrow> region \<Rightarrow> nat \<Rightarrow> u32 \<Rightarrow> bool" where
  "leads ip2bb rn b gip \<longleftrightarrow>
     b < length (rn_blocks rn) \<and> (ip2bb gip = Some b \<or> bb_ilist (rn_blocks rn ! b) = [GBr (vconst gip)])"

definition block_leaves :: "uptr \<Rightarrow> (u32 \<rightharpoonup> nat) \<Rightarrow> region \<Rightarrow> nat \<Rightarrow> qstate \<Rightarrow> hres \<Rightarrow> bool" where
  "block_leaves vmem ip2bb rn b st h \<longleftrightarrow>
     (let res = exec_insts vmem (bb_ilist (rn_blocks rn ! b)) st; succs = bb_succs (rn_blocks rn ! b) in
      case h of
        Next s gip m \<Rightarrow>
          (\<exists>st'. cpu_rel s st' \<and> q_mem st' = m \<and>
             (res = Some (QExit gip st') \<or>
              (\<exists>k < length succs. res = Some (QBr k st') \<and> leads ip2bb rn (succs ! k) gip)))
      | Trapped s m \<Rightarrow>
          trapno s = TC_UNALIGNED_IP \<or>
          (\<exists>st'. res = Some (QTrap st') \<and> cpu_rel s st' \<and> q_mem st' = m \<and> q_vr st' 31 = ip s))"

definition bb_leaves :: "translator \<Rightarrow> qstate \<Rightarrow> hres \<Rightarrow> bool" where
  "bb_leaves t = block_leaves (t_vmem t) (t_ip2bb t) (t_region t) (t_bb t)"

lemma bb_leaves_alt:
  "bb_leaves t st h \<longleftrightarrow>
     (case h of
        Next s gip m \<Rightarrow>
          (\<exists>st'. cpu_rel s st' \<and> q_mem st' = m \<and>
             (run_bb t st = Some (QExit gip st') \<or>
              (\<exists>k < length (succs_of t). run_bb t st = Some (QBr k st') \<and>
                 leads (t_ip2bb t) (t_region t) (succs_of t ! k) gip)))
      | Trapped s m \<Rightarrow>
          trapno s = TC_UNALIGNED_IP \<or>
          (\<exists>st'. run_bb t st = Some (QTrap st') \<and> cpu_rel s st' \<and> q_mem st' = m \<and> q_vr st' 31 = ip s))"
  by (cases h) (simp_all add: bb_leaves_def block_leaves_def run_bb_def insts_of_def succs_of_def Let_def)

text \<open>Every block of \<open>ip2bb\<close> exists.\<close>

definition ip2bb_ok :: "translator \<Rightarrow> bool" where
  "ip2bb_ok t \<longleftrightarrow> (\<forall>g b. t_ip2bb t g = Some b \<longrightarrow> b < length (rn_blocks (t_region t)))"

text \<open>The frame of a control transfer: blocks may be added; the others keep code and successors.\<close>

definition leave_frame :: "translator \<Rightarrow> translator \<Rightarrow> bool" where
  "leave_frame t t' \<longleftrightarrow>
     t_bb t' = t_bb t \<and> t_ip2bb t' = t_ip2bb t \<and> t_vmem t' = t_vmem t \<and>
     length (rn_blocks (t_region t)) \<le> length (rn_blocks (t_region t')) \<and>
     NumAll (t_region t) \<le> NumAll (t_region t') \<and>
     (\<forall>k < length (rn_blocks (t_region t)). k \<noteq> t_bb t \<longrightarrow>
        bb_ilist (rn_blocks (t_region t') ! k) = bb_ilist (rn_blocks (t_region t) ! k) \<and>
        bb_succs (rn_blocks (t_region t') ! k) = bb_succs (rn_blocks (t_region t) ! k))"

lemma leave_frame_refl [simp]: "leave_frame t t"
  by (simp add: leave_frame_def)

lemma leave_frame_trans: "leave_frame t t1 \<Longrightarrow> leave_frame t1 t2 \<Longrightarrow> leave_frame t t2"
  by (auto simp: leave_frame_def)

lemma emit_leave_frame: "emit_frame t t' \<Longrightarrow> leave_frame t t'"
  by (simp add: emit_frame_def leave_frame_def)

lemma leave_frame_create: "bb_ok t \<Longrightarrow> leave_frame t (qb_create t ins)"
  by (simp add: emit_frame_create emit_leave_frame)

lemma AddSucc_sel [simp]:
  assumes "b < length (rn_blocks rn)"
  shows "bb_ilist (rn_blocks (AddSucc rn b j) ! k) = bb_ilist (rn_blocks rn ! k)"
    "bb_succs (rn_blocks (AddSucc rn b j) ! k) =
       (if k = b then bb_succs (rn_blocks rn ! b) @ [j] else bb_succs (rn_blocks rn ! k))"
    "length (rn_blocks (AddSucc rn b j)) = length (rn_blocks rn)"
    "NumAll (AddSucc rn b j) = NumAll rn"
  using assms
  by (cases "j < length (rn_blocks rn)";
      auto simp: AddSucc_def upd_block_def nth_list_update list_update_beyond NumAll_def)+

lemma add_succ_sel [simp]:
  "t_bb (add_succ t j) = t_bb t" "t_ip2bb (add_succ t j) = t_ip2bb t" "t_vmem (add_succ t j) = t_vmem t"
  "t_insn_ip (add_succ t j) = t_insn_ip t" "t_control (add_succ t j) = t_control t"
  "t_region (add_succ t j) = AddSucc (t_region t) (t_bb t) j"
  by (simp_all add: add_succ_def)

lemma add_succ_run [simp]:
  assumes "bb_ok t"
  shows "bb_ok (add_succ t j)" "insts_of (add_succ t j) = insts_of t"
    "succs_of (add_succ t j) = succs_of t @ [j]" "run_bb (add_succ t j) = run_bb t"
    "leads m (t_region (add_succ t j)) b g = leads m (t_region t) b g"
    "leave_frame t (add_succ t j)"
  using assms
  by (auto simp: bb_ok_def insts_of_def succs_of_def run_bb_def leave_frame_def leads_def)

lemma succs_of_create [simp]: "bb_ok t \<Longrightarrow> succs_of (qb_create t ins) = succs_of t"
  by (simp add: succs_of_def)

lemma MakeGBr_leaves:
  assumes "bb_ok t" "ip2bb_ok t" "succs_of t = []" "bb_sim t st s m"
  shows "bb_leaves (MakeGBr t gip) st (Next s gip m)"
proof -
  obtain st1 where st1: "run_bb t st = Some (QNext st1)" "cpu_rel s st1" "q_mem st1 = m"
    using assms(4) by (rule bb_simE)
  show ?thesis
  proof (cases "t_ip2bb t gip")
    case None
    with st1 assms(1) show ?thesis
      by (auto simp: MakeGBr_def bb_leaves_alt run_create vconst_def)
  next
    case (Some b)
    then have "leads (t_ip2bb t) (t_region (qb_create t Br)) b gip"
      using assms(2) by (simp add: leads_def ip2bb_ok_def)
    with Some st1 assms(1,3) show ?thesis
      by (auto simp: MakeGBr_def bb_leaves_alt run_create simp del: add_succ_sel(6))
  qed
qed

lemma MakeGBr_frame:
  assumes "bb_ok t"
  shows "leave_frame t (MakeGBr t gip)" "NumAll (t_region (MakeGBr t gip)) = NumAll (t_region t)"
    "t_insn_ip (MakeGBr t gip) = t_insn_ip t" "t_control (MakeGBr t gip) = t_control t"
  using assms
  by (auto simp: MakeGBr_def leave_frame_create bb_ok_def [symmetric] split: option.splits
      intro!: leave_frame_trans [OF leave_frame_create add_succ_run(6)])


text \<open>\<open>make_target\<close> adds at most one block and moves the builder; nothing else changes.\<close>

definition grown :: "translator \<Rightarrow> translator \<Rightarrow> bool" where
  "grown t t' \<longleftrightarrow>
     t_ip2bb t' = t_ip2bb t \<and> t_vmem t' = t_vmem t \<and> t_insn_ip t' = t_insn_ip t \<and>
     t_control t' = t_control t \<and> NumAll (t_region t') = NumAll (t_region t) \<and>
     (\<exists>bs. rn_blocks (t_region t') = rn_blocks (t_region t) @ bs)"

lemma grown_trans: "grown t t1 \<Longrightarrow> grown t1 t2 \<Longrightarrow> grown t t2"
  unfolding grown_def by (elim conjE exE) (simp add: append_assoc)

lemma grown_leads: "grown t t' \<Longrightarrow> leads m (t_region t) b g \<Longrightarrow> leads m (t_region t') b g"
  by (auto simp: grown_def leads_def nth_append)

lemma grown_ip2bb_ok: "grown t t' \<Longrightarrow> ip2bb_ok t \<Longrightarrow> ip2bb_ok t'"
  by (fastforce simp: grown_def ip2bb_ok_def)

lemma make_target_spec:
  assumes "ip2bb_ok t" "make_target t g = (b, t')"
  shows "grown t t'" "leads (t_ip2bb t) (t_region t') b g"
    "t_ip2bb t g = Some b \<or> length (rn_blocks (t_region t)) \<le> b"
proof -
  have "grown t t' \<and> leads (t_ip2bb t) (t_region t') b g \<and>
      (t_ip2bb t g = Some b \<or> length (rn_blocks (t_region t)) \<le> b)"
  proof (cases "t_ip2bb t g")
    case None
    define t0 where "t0 = t\<lparr>t_region := snd (CreateBlock (t_region t)), t_bb := length (rn_blocks (t_region t))\<rparr>"
    have "bb_ok t0" by (simp add: t0_def bb_ok_def)
    moreover have eq: "b = t_bb t0" "t' = qb_create t0 (GBr (vconst g))"
      using assms(2) None
      by (auto simp: make_target_def t0_def split_beta Let_def)
    moreover have "insts_of t0 = []"
      by (simp add: insts_of_def t0_def new_block_def)
    ultimately have "bb_ilist (rn_blocks (t_region t') ! b) = [GBr (vconst g)]" "bb_ok t'" "t_bb t' = b"
      using insts_of_create [of t0 "GBr (vconst g)"]
      by (simp_all add: insts_of_def fold_inst_def folder_visit_def vconst_def)
    moreover have "grown t t'"
      unfolding eq(2)
      by (simp add: grown_def qb_create_def t0_def upd_block_def NumAll_def list_update_append)
    ultimately show ?thesis
      using eq(1) by (simp add: leads_def bb_ok_def t0_def)
  next
    case (Some c)
    with assms show ?thesis
      by (auto simp: make_target_def grown_def leads_def ip2bb_ok_def)
  qed
  then show "grown t t'" "leads (t_ip2bb t) (t_region t') b g"
    "t_ip2bb t g = Some b \<or> length (rn_blocks (t_region t)) \<le> b" by auto
qed

lemma leads_create:
  "bb_ok t \<Longrightarrow> leads m (t_region t) b g \<Longrightarrow> m g = Some b \<or> b \<noteq> t_bb t \<Longrightarrow>
    leads m (t_region (qb_create t ins)) b g"
  by (auto simp: leads_def block_create_other)

lemma Brcc_leaves:
  assumes "bb_ok t" "ip2bb_ok t" "succs_of t = []" "bb_sim t st s m"
    and c: "c = cc_holds cc (gpr s (insn_rs1 i)) (gpr s (insn_rs2 i))"
  shows "bb_leaves (TranslateBrcc t i cc) st
      (Next s (if c then t_insn_ip t + imm_B i else t_insn_ip t + 4) m)"
    and "leave_frame t (TranslateBrcc t i cc)"
    and "NumAll (t_region (TranslateBrcc t i cc)) = NumAll (t_region t)"
    and "t_insn_ip (TranslateBrcc t i cc) = t_insn_ip t"
proof -
  obtain bf t1 where f: "make_target t (t_insn_ip t + 4) = (bf, t1)" by fastforce
  note f' = make_target_spec [OF assms(2) f]
  obtain bt t2 where tt: "make_target t1 (t_insn_ip t1 + imm_B i) = (bt, t2)" by fastforce
  note tt' = make_target_spec [OF grown_ip2bb_ok [OF f'(1) assms(2)] tt]
  define t3 where "t3 = t2\<lparr>t_bb := t_bb t\<rparr>"
  define ins where "ins = Brcc cc (gprop (insn_rs1 i) T_I32) (gprop (insn_rs2 i) T_I32)"
  have eq: "TranslateBrcc t i cc = add_succ (add_succ (qb_create t3 ins) bt) bf"
    by (simp add: TranslateBrcc_def f tt t3_def ins_def Let_def)
  have g: "grown t t2" by (rule grown_trans [OF f'(1) tt'(1)])
  then have t3: "bb_ok t3" "run_bb t3 = run_bb t" "succs_of t3 = []" "t_vmem t3 = t_vmem t"
    "t_insn_ip t3 = t_insn_ip t" "NumAll (t_region t3) = NumAll (t_region t)" "t_ip2bb t3 = t_ip2bb t"
    "leave_frame t t3"
    using assms(1,3)
    by (auto simp: t3_def grown_def bb_ok_def run_bb_def insts_of_def succs_of_def nth_append
        leave_frame_def)
  have ip: "t_insn_ip t1 = t_insn_ip t" "t_ip2bb t1 = t_ip2bb t"
    using f'(1) by (simp_all add: grown_def)
  have leads: "leads (t_ip2bb t) (t_region t3) bt (t_insn_ip t + imm_B i)"
    "leads (t_ip2bb t) (t_region t3) bf (t_insn_ip t + 4)"
    using tt'(2) grown_leads [OF tt'(1) f'(2)] by (simp_all add: t3_def ip)
  obtain st1 where st1: "run_bb t st = Some (QNext st1)" "cpu_rel s st1" "q_mem st1 = m"
    using assms(4) by (rule bb_simE)
  have run: "run_bb (qb_create t3 ins) st = Some (QBr (if c then 0 else 1) st1)"
    using st1 t3(1,2) by (simp add: run_create ins_def eval_gprop reg_fields_less c)
  have "t_ip2bb t (t_insn_ip t + imm_B i) = Some bt \<or> bt \<noteq> t_bb t3"
    "t_ip2bb t (t_insn_ip t + 4) = Some bf \<or> bf \<noteq> t_bb t3"
    using tt'(3) f'(1,3) assms(1) by (auto simp: t3_def ip bb_ok_def grown_def)
  with leads have leads': "leads (t_ip2bb t) (t_region (qb_create t3 ins)) bt (t_insn_ip t + imm_B i)"
    "leads (t_ip2bb t) (t_region (qb_create t3 ins)) bf (t_insn_ip t + 4)"
    by (auto intro!: leads_create [OF t3(1)])
  show "bb_leaves (TranslateBrcc t i cc) st
      (Next s (if c then t_insn_ip t + imm_B i else t_insn_ip t + 4) m)"
    unfolding eq using leads' st1 t3(1,3,7) run
    by (cases c) (auto simp: bb_leaves_alt simp del: add_succ_sel(6))
  show "leave_frame t (TranslateBrcc t i cc)"
    unfolding eq using t3(1,8)
    by (auto intro!: leave_frame_trans [OF _ add_succ_run(6)] leave_frame_trans [OF t3(8) leave_frame_create])
  show "NumAll (t_region (TranslateBrcc t i cc)) = NumAll (t_region t)"
    "t_insn_ip (TranslateBrcc t i cc) = t_insn_ip t"
    unfolding eq using t3 by (simp_all add: bb_ok_def)
qed


lemma bb_leaves_ip [simp]: "bb_leaves t st (Next (s\<lparr>ip := g\<rparr>) gip m) = bb_leaves t st (Next s gip m)"
  by (simp add: bb_leaves_alt)

lemma mov_const_frame:
  "bb_ok t \<Longrightarrow> emit_frame t (V_mov_const t i v) \<and> NumAll (t_region (V_mov_const t i v)) = NumAll (t_region t)"
  by (auto simp: V_mov_const_def emit_frame_create)

lemma emit_frame_leave_pre:
  assumes "emit_frame t t1" "ip2bb_ok t" "succs_of t = []"
  shows "ip2bb_ok t1" "succs_of t1 = []" "t_vmem t1 = t_vmem t" "t_insn_ip t1 = t_insn_ip t"
  using assms by (simp_all add: emit_frame_def ip2bb_ok_def succs_of_def)

lemma jal_leaves:
  assumes "bb_ok t" "ip2bb_ok t" "succs_of t = []" "bb_sim t st s m"
  shows "bb_leaves (V_jal t i) st
      (Next (set_gpr (set_gpr s (insn_rd i) (t_insn_ip t + 4)) 0 0) (t_insn_ip t + imm_J i) m)"
    and "leave_frame t (V_jal t i)" "NumAll (t_region (V_jal t i)) = NumAll (t_region t)"
    and "t_insn_ip (V_jal t i) = t_insn_ip t"
proof -
  let ?t = "V_mov_const t i (t_insn_ip t + 4)"
  have fr: "emit_frame t ?t" "NumAll (t_region ?t) = NumAll (t_region t)"
    using mov_const_frame [OF assms(1)] by auto
  have ok: "bb_ok ?t" "ip2bb_ok ?t" "succs_of ?t = []" "t_insn_ip ?t = t_insn_ip t"
    using fr emit_frame_bb_ok emit_frame_leave_pre assms by auto
  show "bb_leaves (V_jal t i) st
      (Next (set_gpr (set_gpr s (insn_rd i) (t_insn_ip t + 4)) 0 0) (t_insn_ip t + imm_J i) m)"
    unfolding V_jal_def by (rule MakeGBr_leaves [OF ok(1-3) sim_mov_const [OF assms(1,4)]])
  show "leave_frame t (V_jal t i)" "NumAll (t_region (V_jal t i)) = NumAll (t_region t)"
    "t_insn_ip (V_jal t i) = t_insn_ip t"
    using MakeGBr_frame [OF ok(1)] fr ok(4)
    by (auto simp: V_jal_def intro: leave_frame_trans emit_leave_frame)
qed

lemma jalr_leaves:
  assumes "bb_ok t" "vregs_ok t" "bb_sim t st s m"
  shows "bb_leaves (V_jalr t i) st
      (Next (set_gpr (set_gpr s (insn_rd i) (t_insn_ip t + 4)) 0 0)
        ((gpr s (insn_rs1 i) + scast (imm_I i)) AND NOT 1) m)"
    and "leave_frame t (V_jalr t i)" "NumAll (t_region (V_jalr t i)) = Suc (NumAll (t_region t))"
    and "t_insn_ip (V_jalr t i) = t_insn_ip t"
proof -
  define l :: regn where "l = of_nat (NumAll (t_region t))"
  have l: "31 \<le> l"
    using assms(2) by (simp add: l_def vregs_ok_def local_index)
  define t1 where "t1 = snd (vtemp t)"
  define t2 where "t2 = qb_create t1 (Binop B_add (VVReg T_I32 l) (gprop (insn_rs1 i) T_I32)
    (vconst (scast (imm_I i))))"
  define t3 where "t3 = qb_create t2 (Binop B_and (VVReg T_I32 l) (VVReg T_I32 l) (vconst (NOT 1)))"
  define t4 where "t4 = V_mov_const t3 i (t_insn_ip t + 4)"
  have eq: "V_jalr t i = qb_create t4 (GBrind (VVReg T_I32 l))"
    by (simp add: V_jalr_def t4_def t3_def t2_def t1_def l_def split_beta Let_def)
  have fr: "emit_frame t t4" "NumAll (t_region t4) = Suc (NumAll (t_region t))"
    unfolding t4_def t3_def t2_def t1_def using assms(1)
    by (auto simp: mov_const_frame intro!: emit_frame_trans [OF _ conjunct1 [OF mov_const_frame]]
        emit_frame_create emit_frame_vtemp)
  obtain st0 where st0: "run_bb t st = Some (QNext st0)" "cpu_rel s st0" "q_mem st0 = m"
    using assms(3) by (rule bb_simE)
  let ?a = "gpr s (insn_rs1 i) + scast (imm_I i)"
  have t2: "run_bb t2 st = Some (QNext (set_vr st0 l ?a))" "bb_ok t2" "t_vmem t2 = t_vmem t"
    using st0 assms(1) by (simp_all add: t2_def t1_def run_create eval_gprop reg_fields_less vconst_def)
  define st3 where "st3 = set_vr (set_vr st0 l ?a) l (?a AND NOT 1)"
  have t3: "run_bb t3 st = Some (QNext st3)" "bb_ok t3"
    using t2 by (simp_all add: t3_def st3_def run_create vconst_def)
  have st3: "cpu_rel s st3" "q_mem st3 = m" "q_vr st3 l = ?a AND NOT 1"
    using l st0 by (auto simp: st3_def intro!: cpu_rel_high)
  have ne: "insn_rd i \<noteq> 0 \<Longrightarrow> gvr (insn_rd i) \<noteq> l"
    using gvr_less [of "insn_rd i"] reg_fields_less(1) [of i] l by auto
  have "\<exists>st4. run_bb t4 st = Some (QNext st4) \<and> q_vr st4 l = ?a AND NOT 1 \<and> q_mem st4 = m \<and>
      cpu_rel (set_gpr (set_gpr s (insn_rd i) (t_insn_ip t + 4)) 0 0) st4"
    using t3 st3 ne
    by (cases "insn_rd i = 0")
      (auto simp: t4_def V_mov_const_def run_create vgpr_eq vconst_def intro: cpu_rel_x0 cpu_rel_set)
  then obtain st4 where st4: "run_bb t4 st = Some (QNext st4)" "q_vr st4 l = ?a AND NOT 1" "q_mem st4 = m"
    "cpu_rel (set_gpr (set_gpr s (insn_rd i) (t_insn_ip t + 4)) 0 0) st4"
    by blast
  have ok4: "bb_ok t4"
    using fr(1) assms(1) by (simp add: emit_frame_bb_ok)
  show "bb_leaves (V_jalr t i) st
      (Next (set_gpr (set_gpr s (insn_rd i) (t_insn_ip t + 4)) 0 0) (?a AND NOT 1) m)"
    unfolding eq using st4 ok4 by (auto simp: bb_leaves_alt run_create)
  show "leave_frame t (V_jalr t i)" "NumAll (t_region (V_jalr t i)) = Suc (NumAll (t_region t))"
    "t_insn_ip (V_jalr t i) = t_insn_ip t"
    unfolding eq using fr assms(1) ok4
    by (auto simp: emit_frame_def intro!: emit_leave_frame emit_frame_create)
qed

lemma trap_leaves:
  assumes "bb_ok t" "bb_sim t st s m" "(stub, op) \<in> {(Id_rv32_ecall, I_ecall), (Id_rv32_ebreak, I_ebreak)}"
  shows "bb_leaves (TranslateHelper (PreSideeff t) i stub) st (H_handler op s (t_insn_ip t) (t_vmem t) m i)"
proof -
  obtain st1 where st1: "run_bb (PreSideeff t) st = Some (QNext st1)" "cpu_rel s st1" "q_mem st1 = m"
    "q_vr st1 31 = t_insn_ip t"
    using assms(1,2) by (rule PreSideeff_run)
  define tc where "tc = (if op = I_ecall then TC_ECALL else TC_EBREAK)"
  have "exec_inst (t_vmem t) (Hcall stub (vconst i)) st1 =
      Some (QTrap (put_cpu st1 ((cpu_of st1)\<lparr>ip := t_insn_ip t, trapno := tc\<rparr>) m))"
    using assms(3) st1
    by (auto simp: stub_op_def vconst_def qcgstub_rv32_def H_handler_def RAISE_TRAP_def tc_def cpu_of_def)
  moreover have "H_handler op s (t_insn_ip t) (t_vmem t) m i = Trapped (s\<lparr>ip := t_insn_ip t, trapno := tc\<rparr>) m"
    using assms(3) by (auto simp: H_handler_def RAISE_TRAP_def tc_def)
  ultimately show ?thesis
    using st1 assms(1) cpu_rel_put(1) [OF st1(2), of tc "t_insn_ip t" m]
    by (auto simp: bb_leaves_alt TranslateHelper_def run_create put_cpu_def cpu_rel_def simp del: exec_inst.simps)
qed


lemma bb_leaves_upd [simp]:
  "bb_leaves (t\<lparr>t_control := c\<rparr>) = bb_leaves t" "bb_leaves (t\<lparr>t_insn_ip := g\<rparr>) = bb_leaves t"
  by (simp_all add: bb_leaves_def fun_eq_iff)

lemma leave_frame_upd [simp]:
  "leave_frame t (t'\<lparr>t_control := c\<rparr>) = leave_frame t t'"
  "leave_frame t (t'\<lparr>t_insn_ip := g\<rparr>) = leave_frame t t'"
  by (simp_all add: leave_frame_def)

lemma unaligned_leaves: "trapno s = TC_UNALIGNED_IP \<Longrightarrow> bb_leaves t st (Trapped s m)"
  by (simp add: bb_leaves_alt)

lemma V_branch_leaves:
  assumes "bb_ok t" "vregs_ok t" "ip2bb_ok t" "succs_of t = []" "bb_sim t st s m"
    and "has_flag op Flag_Branch" "V_insn op t raw = Inr t'"
  shows "bb_leaves t' st (H_handler op s (t_insn_ip t) (t_vmem t) m raw) \<and> leave_frame t t' \<and>
    NumAll (t_region t') \<le> Suc (NumAll (t_region t))"
proof -
  note br = Brcc_leaves [OF assms(1,3-5) refl, where i = raw]
  have "bb_leaves (TranslateBrcc t raw cc) st (H_handler op s (t_insn_ip t) (t_vmem t) m raw)"
    if "Impl op = Impl_Branch P" "\<And>a b. P a b = cc_holds cc a b"
      "has_flag op Flag_Branch" "\<not> has_flag op Flag_HasRd" for op P cc
    using that br(1) [of cc]
    by (cases "cc_holds cc (gpr s (insn_rs1 raw)) (gpr s (insn_rs2 raw))")
      (auto simp: H_handler_def Impl_Branch_def RAISE_TRAP_def Let_def intro!: unaligned_leaves)
  note br' = this
  have brs:
    "bb_leaves (TranslateBrcc t raw CC_EQ) st (H_handler I_beq s (t_insn_ip t) (t_vmem t) m raw)"
    "bb_leaves (TranslateBrcc t raw CC_NE) st (H_handler I_bne s (t_insn_ip t) (t_vmem t) m raw)"
    "bb_leaves (TranslateBrcc t raw CC_LT) st (H_handler I_blt s (t_insn_ip t) (t_vmem t) m raw)"
    "bb_leaves (TranslateBrcc t raw CC_GE) st (H_handler I_bge s (t_insn_ip t) (t_vmem t) m raw)"
    "bb_leaves (TranslateBrcc t raw CC_LTU) st (H_handler I_bltu s (t_insn_ip t) (t_vmem t) m raw)"
    "bb_leaves (TranslateBrcc t raw CC_GEU) st (H_handler I_bgeu s (t_insn_ip t) (t_vmem t) m raw)"
    by (rule br', simp_all add: slt_word_def [abs_def] sge_word_def [abs_def])+
  have "bb_leaves (V_jal t raw) st (H_handler I_jal s (t_insn_ip t) (t_vmem t) m raw)"
    using jal_leaves(1) [OF assms(1,3-5), of raw]
    by (simp add: H_handler_def Impl_jal_def RAISE_TRAP_def Let_def set_gpr_ip unaligned_leaves)
  moreover have "bb_leaves (V_jalr t raw) st (H_handler I_jalr s (t_insn_ip t) (t_vmem t) m raw)"
    using jalr_leaves(1) [OF assms(1,2,5), of raw]
    by (simp add: H_handler_def Impl_jalr_def RAISE_TRAP_def Let_def set_gpr_ip unaligned_leaves)
  ultimately show ?thesis
    using assms(6,7)
    by (simp, elim disjE)
      (auto simp: brs br(2,3) jal_leaves(2,3) [OF assms(1,3-5)] jalr_leaves(2,3) [OF assms(1,2,5)])
qed

lemma TranslateInsn_leaves:
  assumes "bb_ok t" "vregs_ok t" "ip2bb_ok t" "succs_of t = []" "bb_sim t st s m"
    and "TranslateInsn code t = Inr t'"
    and raw: "raw = fetch (t_vmem t) code (t_insn_ip t)" and "\<not> straight (Decode raw)"
  shows "bb_leaves t' st (H_handler (Decode raw) s (t_insn_ip t) (t_vmem t) m raw)"
    and "leave_frame t t'" "NumAll (t_region t') \<le> Suc (NumAll (t_region t))" "t_control t' = C_BRANCH"
proof -
  let ?op = "Decode raw"
  have "bb_leaves t' st (H_handler ?op s (t_insn_ip t) (t_vmem t) m raw) \<and> leave_frame t t' \<and>
    NumAll (t_region t') \<le> Suc (NumAll (t_region t)) \<and> t_control t' = C_BRANCH"
  proof (cases "has_flag ?op Flag_Branch")
    case True
    moreover have "\<not> has_flag ?op Flag_Trap" "\<not> has_flag ?op Flag_MayTrap"
      using True by auto
    ultimately obtain t2 where t2: "V_insn ?op t raw = Inr t2"
      and t': "t' = t2\<lparr>t_control := C_BRANCH, t_insn_ip := t_insn_ip t2 + 4\<rparr>"
      using assms(6) unfolding TranslateInsn_def H_translate_def Let_def raw [symmetric]
      by (cases "V_insn ?op t raw")
        (simp_all del: has_flag_Trap has_flag_MayTrap has_flag_Branch)
    show ?thesis
      using V_branch_leaves [OF assms(1-5) True t2] by (simp add: t')
  next
    case False
    with assms(8) consider "?op = I_illegal" | "?op = I_ecall" | "?op = I_ebreak"
      by (auto simp: straight_def)
    then obtain stub where stub: "(stub, ?op) \<in> {(Id_rv32_ecall, I_ecall), (Id_rv32_ebreak, I_ebreak)}"
      and t': "t' = (TranslateHelper (PreSideeff t) raw stub)
          \<lparr>t_control := C_BRANCH, t_insn_ip := t_insn_ip t + 4\<rparr>"
      using assms(6) unfolding TranslateInsn_def H_translate_def Let_def raw [symmetric]
      by cases (auto simp: TranslateHelper_def)
    have "leave_frame t (TranslateHelper (PreSideeff t) raw stub)"
      using assms(1) by (simp add: TranslateHelper_def emit_frame_create emit_frame_PreSideeff emit_leave_frame)
    then show ?thesis
      using trap_leaves [OF assms(1,5) stub] by (simp add: t') (simp add: TranslateHelper_def)
  qed
  then show "bb_leaves t' st (H_handler ?op s (t_insn_ip t) (t_vmem t) m raw)"
    "leave_frame t t'" "NumAll (t_region t') \<le> Suc (NumAll (t_region t))" "t_control t' = C_BRANCH"
    by auto
qed

subsection \<open>Instruction ranges\<close>

text \<open>
  The reference: the interpreter's handlers, applied to up to \<open>n\<close> instructions of the code that
  was in memory when it was translated.
\<close>

definition interp_code_step :: "uptr \<Rightarrow> mem \<Rightarrow> cpu_state \<Rightarrow> u32 \<Rightarrow> mem \<Rightarrow> hres" where
  "interp_code_step vmem code s gip m =
     (let raw = fetch vmem code gip in H_handler (Decode raw) s gip vmem m raw)"

fun interp_run :: "uptr \<Rightarrow> mem \<Rightarrow> nat \<Rightarrow> cpu_state \<Rightarrow> u32 \<Rightarrow> mem \<Rightarrow> hres" where
  "interp_run vmem code 0 s gip m = Next s gip m"
| "interp_run vmem code (Suc n) s gip m =
     (case interp_code_step vmem code s gip m of
        Next s' gip' m' \<Rightarrow> interp_run vmem code n s' gip' m'
      | Trapped s' m' \<Rightarrow> Trapped s' m')"

lemma interp_code_step_x0: "gpr s 0 = 0 \<Longrightarrow> gpr (res_cpu (interp_code_step vmem code s gip m)) 0 = 0"
  by (simp add: interp_code_step_def Let_def handler_x0)

lemma interp_run_x0: "gpr s 0 = 0 \<Longrightarrow> gpr (res_cpu (interp_run vmem code n s gip m)) 0 = 0"
proof (induction n arbitrary: s gip m)
  case (Suc n)
  then show ?case
    using interp_code_step_x0 [OF Suc.prems, of vmem code gip m]
    by (cases "interp_code_step vmem code s gip m") auto
qed simp

lemma interp_run_add:
  "interp_run vmem code (n + k) s gip m =
     (case interp_run vmem code n s gip m of
        Next s' gip' m' \<Rightarrow> interp_run vmem code k s' gip' m'
      | Trapped s' m' \<Rightarrow> Trapped s' m')"
  by (induction n arbitrary: s gip m) (auto split: hres.splits)

definition no_clobber :: "uptr \<Rightarrow> mem \<Rightarrow> nat \<Rightarrow> u32 \<Rightarrow> bool" where
  "no_clobber vmem code n gip \<longleftrightarrow>
     list_all (\<lambda>k. \<not> clobbers_base (fetch vmem code (gip + 4 * of_nat k))) [0 ..< n]"


lemma no_clobber_alt:
  "no_clobber vmem code n gip \<longleftrightarrow> (\<forall>k < n. \<not> clobbers_base (fetch vmem code (gip + 4 * of_nat k)))"
  by (auto simp: no_clobber_def list_all_iff)

lemma no_clobber_Suc:
  "no_clobber vmem code (Suc n) gip \<longleftrightarrow>
     \<not> clobbers_base (fetch vmem code gip) \<and> no_clobber vmem code n (gip + 4)"
  by (simp add: no_clobber_alt All_less_Suc2 algebra_simps)

lemma translate_loop_sim:
  assumes "translate_loop left code boundary t = Inr t'" "0 < left" "bb_ok t" "ip2bb_ok t"
    "succs_of t = []" "32 \<le> NumAll (t_region t)" "NumAll (t_region t) + left < 2 ^ 16"
    "t_control t = C_NEXT" "no_clobber (t_vmem t) code left (t_insn_ip t)" "bb_sim t st s m"
  shows "leave_frame t t' \<and> NumAll (t_region t') \<le> NumAll (t_region t) + left \<and>
    (\<exists>n. 0 < n \<and> n \<le> left \<and> bb_leaves t' st (interp_run (t_vmem t) code n s (t_insn_ip t) m))"
  using assms
proof (induction left arbitrary: t s m)
  case 0
  then show ?case by simp
next
  case (Suc left)
  define raw where "raw = fetch (t_vmem t) code (t_insn_ip t)"
  obtain t1 where t1: "TranslateInsn code t = Inr t1"
    using Suc.prems(1) by (cases "TranslateInsn code t") auto
  have vr: "vregs_ok t"
    using Suc.prems(6,7) by (simp add: vregs_ok_def)
  show ?case
  proof (cases "straight (Decode raw)")
    case False
    note * = TranslateInsn_leaves [OF Suc.prems(3) vr Suc.prems(4,5,10) t1 raw_def False]
    have "t' = t1"
      using Suc.prems(1) t1 *(4) by simp
    with * have "leave_frame t t'" "NumAll (t_region t') \<le> NumAll (t_region t) + Suc left"
      "bb_leaves t' st (interp_run (t_vmem t) code 1 s (t_insn_ip t) m)"
      by (auto simp: interp_code_step_def raw_def Let_def split: hres.splits)
    then show ?thesis by (intro conjI exI [of _ 1]) auto
  next
    case True
    have nc: "\<not> clobbers_base raw" "no_clobber (t_vmem t) code left (t_insn_ip t + 4)"
      using Suc.prems(9) by (auto simp: no_clobber_Suc raw_def)
    note * = TranslateInsn_straight [OF Suc.prems(3) vr Suc.prems(10) t1 raw_def True nc(1)]
    obtain s' m' where h: "H_handler (Decode raw) s (t_insn_ip t) (t_vmem t) m raw =
        Next s' (t_insn_ip t + 4) m'" and sim: "bb_sim t1 st s' m'"
      using *(1) by blast
    have run: "interp_run (t_vmem t) code (Suc n) s (t_insn_ip t) m =
        interp_run (t_vmem t) code n s' (t_insn_ip t + 4) m'" for n
      using h by (simp add: interp_code_step_def raw_def Let_def)
    have fr: "t_control t1 = C_NEXT" "t_insn_ip t1 = t_insn_ip t + 4" "t_vmem t1 = t_vmem t"
        "bb_ok t1" "ip2bb_ok t1" "succs_of t1 = []" "leave_frame t t1"
      using *(2) Suc.prems(3-5,8)
      by (auto simp: emit_frame_def bb_ok_def ip2bb_ok_def succs_of_def leave_frame_def)
    show ?thesis
    proof (cases "left = 0 \<or> boundary \<le> t_insn_ip t1")
      case True
      define t2 where "t2 = t1\<lparr>t_control := C_TB_OVF\<rparr>"
      have t2: "bb_ok t2" "ip2bb_ok t2" "succs_of t2 = []" "bb_sim t2 st s' m'" "leave_frame t t2"
          "NumAll (t_region t2) \<le> Suc (NumAll (t_region t))"
        using fr sim *(3)
        by (auto simp: t2_def bb_ok_def ip2bb_ok_def succs_of_def bb_sim_def run_bb_def insts_of_def)
      have "t' = MakeGBr t2 (t_insn_ip t1)"
        using Suc.prems(1) t1 True fr(1) by (simp add: t2_def)
      with MakeGBr_leaves [OF t2(1-4), of "t_insn_ip t1"] MakeGBr_frame [OF t2(1)] t2(5,6) fr(2) run [of 0]
      show ?thesis
        by (intro conjI exI [of _ 1]) (auto intro: leave_frame_trans)
    next
      case False
      have "translate_loop left code boundary t1 = Inr t'"
        using Suc.prems(1) t1 False fr(1) by simp
      moreover have "NumAll (t_region t1) + left < 2 ^ 16" "32 \<le> NumAll (t_region t1)"
        using Suc.prems(6,7) *(3) *(2) by (simp_all add: emit_frame_def)
      ultimately have "leave_frame t1 t' \<and> NumAll (t_region t') \<le> NumAll (t_region t1) + left \<and>
        (\<exists>n. 0 < n \<and> n \<le> left \<and> bb_leaves t' st (interp_run (t_vmem t) code n s' (t_insn_ip t + 4) m'))"
        using Suc.IH [of t1 s' m'] False fr sim nc(2) by auto
      then obtain n where "leave_frame t1 t'" "NumAll (t_region t') \<le> NumAll (t_region t1) + left"
        "n \<le> left" "bb_leaves t' st (interp_run (t_vmem t) code (Suc n) s (t_insn_ip t) m)"
        using run by metis
      then show ?thesis
        using fr(7) *(3) by (intro conjI exI [of _ "Suc n"]) (auto intro: leave_frame_trans)
    qed
  qed
qed

end
