(* ===== verification/Rv32_Region.thy ===== *)
theory Rv32_Region
  imports Rv32_Qir_Correct
begin

section \<open>Correctness of translated regions\<close>

text \<open>
  A region translates several ranges of guest code, one block each, that may branch to one
  another. Executing the region agrees with running the interpreter's handlers on the code that
  was translated, until control leaves the region.
\<close>

subsection \<open>One block of the region\<close>

definition range_sim :: "uptr \<Rightarrow> mem \<Rightarrow> (u32 \<rightharpoonup> nat) \<Rightarrow> region \<Rightarrow> nat \<Rightarrow> u32 \<Rightarrow> bool" where
  "range_sim vmem code ip2bb rn b gip \<longleftrightarrow>
     b < length (rn_blocks rn) \<and>
     (\<forall>st s. cpu_rel s st \<longrightarrow>
       (\<exists>n. 0 < n \<and> n \<le> TB_MAX_INSNS \<and>
          block_leaves vmem ip2bb rn b st (interp_run vmem code n s gip (q_mem st))))"

lemma leads_mono:
  assumes "leave_frame t t'" "insts_of t = []" "leads m (t_region t) b g"
  shows "leads m (t_region t') b g"
  using assms by (cases "b = t_bb t") (auto simp: leave_frame_def leads_def insts_of_def)

lemma block_leaves_mono:
  assumes "leave_frame t t'" "insts_of t = []" "b \<noteq> t_bb t" "b < length (rn_blocks (t_region t))"
    and "block_leaves vmem m (t_region t) b st h"
  shows "block_leaves vmem m (t_region t') b st h"
proof -
  have "bb_ilist (rn_blocks (t_region t') ! b) = bb_ilist (rn_blocks (t_region t) ! b)"
    "bb_succs (rn_blocks (t_region t') ! b) = bb_succs (rn_blocks (t_region t) ! b)"
    using assms(1,3,4) by (simp_all add: leave_frame_def)
  with assms(5) leads_mono [OF assms(1,2)] show ?thesis
    unfolding block_leaves_def Let_def by (cases h) (simp_all, blast)
qed

lemma range_sim_mono:
  assumes "leave_frame t t'" "insts_of t = []" "b \<noteq> t_bb t"
    and "range_sim vmem code m (t_region t) b g"
  shows "range_sim vmem code m (t_region t') b g"
  using assms block_leaves_mono [OF assms(1-3)] unfolding range_sim_def leave_frame_def
  by (meson order_less_le_trans)

lemma bb_sim_start: "insts_of t = [] \<Longrightarrow> cpu_rel s st \<Longrightarrow> bb_sim t st s (q_mem st)"
  by (simp add: bb_sim_def run_bb_def)

lemma cpu_rel_ex: "\<exists>s st. cpu_rel s st"
proof -
  have "cpu_rel init_cpu \<lparr>q_vr = (\<lambda>_. 0), q_mem = (\<lambda>_. 0), q_trap = trapno init_cpu\<rparr>"
    by (simp add: cpu_rel_def init_cpu_def)
  then show ?thesis by blast
qed

text \<open>One call of \<open>TranslateIPRange\<close>, on a range whose block is still empty.\<close>

lemma TranslateIPRange_sim:
  assumes tr: "TranslateIPRange code gip boundary t = Inr t'"
    and b: "t_ip2bb t gip = Some b" "bb_ilist (rn_blocks (t_region t) ! b) = []"
      "bb_succs (rn_blocks (t_region t) ! b) = []"
    and ok: "ip2bb_ok t" "32 \<le> NumAll (t_region t)" "NumAll (t_region t) + TB_MAX_INSNS < 2 ^ 16"
    and nc: "no_clobber (t_vmem t) code TB_MAX_INSNS gip"
  shows "leave_frame (t\<lparr>t_bb := b\<rparr>) t'" "NumAll (t_region t') \<le> NumAll (t_region t) + TB_MAX_INSNS"
    "range_sim (t_vmem t) code (t_ip2bb t) (t_region t') b gip"
proof -
  define t0 where "t0 = t\<lparr>t_insn_ip := gip, t_bb := b, t_control := C_NEXT\<rparr>"
  have loop: "translate_loop TB_MAX_INSNS code boundary t0 = Inr t'"
    using tr b(1) by (simp add: TranslateIPRange_def t0_def split: if_splits)
  have t0: "bb_ok t0" "ip2bb_ok t0" "succs_of t0 = []" "insts_of t0 = []" "0 < TB_MAX_INSNS"
    using b ok(1) by (auto simp: t0_def bb_ok_def ip2bb_ok_def succs_of_def insts_of_def TB_MAX_INSNS_def)
  have sim: "leave_frame t0 t' \<and> NumAll (t_region t') \<le> NumAll (t_region t0) + TB_MAX_INSNS \<and>
      (\<exists>n. 0 < n \<and> n \<le> TB_MAX_INSNS \<and>
        bb_leaves t' st (interp_run (t_vmem t0) code n s (t_insn_ip t0) (q_mem st)))"
    if "cpu_rel s st" for s st
    using translate_loop_sim [OF loop t0(5,1,2,3) _ _ _ _ bb_sim_start [OF t0(4) that]] ok nc
    by (simp add: t0_def)
  obtain s0 st0 where "cpu_rel s0 st0" using cpu_rel_ex by blast
  from sim [OF this] have fr: "leave_frame t0 t'"
    and num: "NumAll (t_region t') \<le> NumAll (t_region t0) + TB_MAX_INSNS" by auto
  then show "leave_frame (t\<lparr>t_bb := b\<rparr>) t'" "NumAll (t_region t') \<le> NumAll (t_region t) + TB_MAX_INSNS"
    by (simp_all add: t0_def leave_frame_def)
  have "t_bb t' = b" "t_vmem t' = t_vmem t" "t_ip2bb t' = t_ip2bb t" "b < length (rn_blocks (t_region t'))"
    using fr t0(1) by (simp_all add: leave_frame_def t0_def bb_ok_def)
  then show "range_sim (t_vmem t) code (t_ip2bb t) (t_region t') b gip"
    using sim by (fastforce simp: range_sim_def bb_leaves_def t0_def)
qed

subsection \<open>All ranges\<close>

definition empty_block :: "region \<Rightarrow> nat \<Rightarrow> bool" where
  "empty_block rn b \<longleftrightarrow> bb_ilist (rn_blocks rn ! b) = [] \<and> bb_succs (rn_blocks rn ! b) = []"

lemma translate_ranges_sim:
  assumes "translate_ranges code rgs t = Inr t'" "distinct (map fst rgs)"
    and "\<forall>rg \<in> set rgs. \<exists>b. t_ip2bb t (fst rg) = Some b \<and> empty_block (t_region t) b"
    and "inj_on (t_ip2bb t) (dom (t_ip2bb t))" "ip2bb_ok t" "32 \<le> NumAll (t_region t)"
    and "NumAll (t_region t) + TB_MAX_INSNS * length rgs < 2 ^ 16"
    and "\<forall>rg \<in> set rgs. no_clobber (t_vmem t) code TB_MAX_INSNS (fst rg)"
    and "t_ip2bb t g = Some b"
    and "g \<in> fst ` set rgs \<or> range_sim (t_vmem t) code (t_ip2bb t) (t_region t) b g"
  shows "range_sim (t_vmem t) code (t_ip2bb t) (t_region t') b g"
  using assms
proof (induction rgs arbitrary: t)
  case Nil
  then show ?case by simp
next
  case (Cons rg rgs)
  obtain c where c: "t_ip2bb t (fst rg) = Some c" "empty_block (t_region t) c"
    using Cons.prems(3) by auto
  obtain t1 where t1: "TranslateIPRange code (fst rg) (snd rg) t = Inr t1"
    and tl: "translate_ranges code rgs t1 = Inr t'"
    using Cons.prems(1) by (cases "TranslateIPRange code (fst rg) (snd rg) t") auto
  have num: "NumAll (t_region t) + TB_MAX_INSNS < 2 ^ 16"
    using Cons.prems(7) by simp
  have nc: "no_clobber (t_vmem t) code TB_MAX_INSNS (fst rg)"
    using Cons.prems(8) by simp
  note * = TranslateIPRange_sim [OF t1 c(1) _ _ Cons.prems(5,6) num nc]
  have fr: "leave_frame (t\<lparr>t_bb := c\<rparr>) t1"
    and num1: "NumAll (t_region t1) \<le> NumAll (t_region t) + TB_MAX_INSNS"
    and sim1: "range_sim (t_vmem t) code (t_ip2bb t) (t_region t1) c (fst rg)"
    using * c(2) by (simp_all add: empty_block_def)
  have same: "t_ip2bb t1 = t_ip2bb t" "t_vmem t1 = t_vmem t"
    using fr by (simp_all add: leave_frame_def)
  have num2: "32 \<le> NumAll (t_region t1)"
    using fr Cons.prems(6) by (simp add: leave_frame_def)
  have uniq: "h = fst rg" if "t_ip2bb t h = Some c" for h
    using inj_onD [OF Cons.prems(4), of h "fst rg"] c(1) that by (auto simp: domI)
  have emp: "\<exists>b. t_ip2bb t (fst rg') = Some b \<and> empty_block (t_region t1) b" if rg': "rg' \<in> set rgs" for rg'
  proof -
    obtain b' where b': "t_ip2bb t (fst rg') = Some b'" "empty_block (t_region t) b'"
      using bspec [OF Cons.prems(3), of rg'] rg' by auto
    moreover have "fst rg' \<noteq> fst rg"
      using Cons.prems(2) imageI [OF rg', of fst] by (cases "fst rg' = fst rg") simp_all
    ultimately have "b' \<noteq> c" using uniq by auto
    with b' fr Cons.prems(5) show ?thesis
      by (auto simp: leave_frame_def empty_block_def ip2bb_ok_def)
  qed
  have keep: "g \<in> fst ` set rgs \<or> range_sim (t_vmem t) code (t_ip2bb t) (t_region t1) b g"
  proof (cases "g = fst rg")
    case True
    with Cons.prems(9) c(1) sim1 show ?thesis by simp
  next
    case False
    then have "b \<noteq> c" using uniq Cons.prems(9) by auto
    with False Cons.prems(10) c(2) show ?thesis
      using range_sim_mono [OF fr, of b] by (auto simp: insts_of_def empty_block_def)
  qed
  have "ip2bb_ok t1"
    using Cons.prems(5) fr by (fastforce simp: ip2bb_ok_def leave_frame_def)
  then have "range_sim (t_vmem t1) code (t_ip2bb t1) (t_region t') b g"
    using Cons.prems num1 num2 emp keep by (intro Cons.IH [OF tl]) (simp_all add: same)
  then show ?case by (simp add: same)
qed


text \<open>The state \<open>Translate\<close> starts from: one empty block per range, in the order of the ranges.\<close>

definition range_index :: "(u32 \<times> u32) list \<Rightarrow> u32 \<rightharpoonup> nat" where
  "range_index rgs = map_of (zip (map fst rgs) [0 ..< length rgs])"

lemma range_index_Cons:
  "range_index (rg # rgs) h = (if h = fst rg then Some 0 else map_option Suc (range_index rgs h))"
proof -
  have "[0 ..< length (rg # rgs)] = 0 # map Suc [0 ..< length rgs]"
    by (simp add: upt_conv_Cons map_Suc_upt del: upt_Suc)
  then show ?thesis
    by (simp add: range_index_def zip_map2 map_of_map [unfolded comp_def] del: upt_Suc)
qed

lemma range_index_nth: "distinct (map fst rgs) \<Longrightarrow> j < length rgs \<Longrightarrow> range_index rgs (fst (rgs ! j)) = Some j"
  unfolding range_index_def by (intro map_of_is_SomeI) (auto simp: set_zip intro!: exI [of _ j])

lemma range_index_SomeD: "range_index rgs g = Some b \<Longrightarrow> b < length rgs \<and> g = fst (rgs ! b)"
  unfolding range_index_def by (drule map_of_SomeD) (auto simp: set_zip)

lemma add_range_block_fold:
  assumes "distinct (map fst rgs)" "fst ` set rgs \<inter> dom (t_ip2bb t) = {}"
  shows "rn_blocks (t_region (fold add_range_block rgs t)) =
      rn_blocks (t_region t) @ replicate (length rgs) new_block"
    and "NumAll (t_region (fold add_range_block rgs t)) = NumAll (t_region t)"
    and "t_vmem (fold add_range_block rgs t) = t_vmem t"
    and "t_ip2bb (fold add_range_block rgs t) g =
      (case range_index rgs g of
         Some k \<Rightarrow> Some (length (rn_blocks (t_region t)) + k) | None \<Rightarrow> t_ip2bb t g)"
proof -
  have "rn_blocks (t_region (fold add_range_block rgs t)) =
      rn_blocks (t_region t) @ replicate (length rgs) new_block \<and>
    NumAll (t_region (fold add_range_block rgs t)) = NumAll (t_region t) \<and>
    t_vmem (fold add_range_block rgs t) = t_vmem t \<and>
    t_ip2bb (fold add_range_block rgs t) g =
      (case range_index rgs g of
         Some k \<Rightarrow> Some (length (rn_blocks (t_region t)) + k) | None \<Rightarrow> t_ip2bb t g)"
    using assms
  proof (induction rgs arbitrary: t)
    case Nil
    then show ?case by (simp add: range_index_def)
  next
    case (Cons rg rgs)
    define t1 where "t1 = add_range_block rg t"
    have t1: "rn_blocks (t_region t1) = rn_blocks (t_region t) @ [new_block]" "t_vmem t1 = t_vmem t"
      "NumAll (t_region t1) = NumAll (t_region t)"
      "t_ip2bb t1 = (t_ip2bb t)(fst rg \<mapsto> length (rn_blocks (t_region t)))"
      using Cons.prems(2) by (auto simp: t1_def add_range_block_def split_beta Let_def NumAll_def)
    have "range_index rgs (fst rg) = None"
      using Cons.prems(1) range_index_SomeD [of rgs "fst rg"]
      by (cases "range_index rgs (fst rg)") auto
    moreover have "fst ` set rgs \<inter> dom (t_ip2bb t1) = {}" "distinct (map fst rgs)"
      using Cons.prems by (auto simp: t1)
    note Cons.IH [OF this(2,1)]
    ultimately show ?case
      by (auto simp: range_index_Cons t1 t1_def [symmetric] split: option.splits)
  qed
  then show "rn_blocks (t_region (fold add_range_block rgs t)) =
      rn_blocks (t_region t) @ replicate (length rgs) new_block"
    "NumAll (t_region (fold add_range_block rgs t)) = NumAll (t_region t)"
    "t_vmem (fold add_range_block rgs t) = t_vmem t"
    "t_ip2bb (fold add_range_block rgs t) g =
      (case range_index rgs g of
         Some k \<Rightarrow> Some (length (rn_blocks (t_region t)) + k) | None \<Rightarrow> t_ip2bb t g)"
    by auto
qed


lemma Translate_sim:
  assumes "CompilerGenRegionIR code rgs vmem = Inr rn" "distinct (map fst rgs)"
    "32 + TB_MAX_INSNS * length rgs < 2 ^ 16"
    "\<forall>rg \<in> set rgs. no_clobber vmem code TB_MAX_INSNS (fst rg)"
  obtains ip2bb where "\<And>j. j < length rgs \<Longrightarrow> ip2bb (fst (rgs ! j)) = Some j"
    "\<And>g b. ip2bb g = Some b \<Longrightarrow> range_sim vmem code ip2bb rn b g"
proof -
  define t0 where "t0 = fold add_range_block rgs (new_translator (new_region state_info) vmem)"
  have init: "rn_blocks (t_region (new_translator (new_region state_info) vmem)) = []"
    "t_ip2bb (new_translator (new_region state_info) vmem) = Map.empty"
    "t_vmem (new_translator (new_region state_info) vmem) = vmem"
    "NumAll (t_region (new_translator (new_region state_info) vmem)) = 32"
    by (simp_all add: new_translator_def new_region_def NumAll_def)
  define ip2bb where "ip2bb = range_index rgs"
  have t0: "rn_blocks (t_region t0) = replicate (length rgs) new_block" "t_vmem t0 = vmem"
    "NumAll (t_region t0) = 32" "t_ip2bb t0 = ip2bb"
    using add_range_block_fold [OF assms(2), of "new_translator (new_region state_info) vmem"] init
    unfolding t0_def ip2bb_def by (auto simp: fun_eq_iff split: option.splits)
  obtain t' where t': "translate_ranges code rgs t0 = Inr t'" and rn: "rn = t_region t'"
    using assms(1) unfolding CompilerGenRegionIR_def Translate_def t0_def [symmetric]
    by (cases "translate_ranges code rgs t0") auto
  note idx = range_index_nth [OF assms(2), folded ip2bb_def]
  note dom = range_index_SomeD [of rgs, folded ip2bb_def]
  have "range_sim vmem code ip2bb rn b g" if "ip2bb g = Some b" for g b
  proof -
    have "range_sim (t_vmem t0) code (t_ip2bb t0) (t_region t') b g"
    proof (rule translate_ranges_sim [OF t' assms(2)])
      show "\<forall>rg \<in> set rgs. \<exists>b. t_ip2bb t0 (fst rg) = Some b \<and> empty_block (t_region t0) b"
      proof
        fix rg
        assume "rg \<in> set rgs"
        then obtain i where "i < length rgs" "rg = rgs ! i" by (auto simp: in_set_conv_nth)
        then show "\<exists>b. t_ip2bb t0 (fst rg) = Some b \<and> empty_block (t_region t0) b"
          using idx [of i] by (simp add: t0 empty_block_def new_block_def)
      qed
      show "inj_on (t_ip2bb t0) (dom (t_ip2bb t0))"
        unfolding t0 by (rule inj_onI) (metis dom domD)
      show "ip2bb_ok t0" "g \<in> fst ` set rgs \<or> range_sim (t_vmem t0) code (t_ip2bb t0) (t_region t0) b g"
        using dom dom [OF that] by (simp_all add: t0 ip2bb_ok_def)
    qed (use assms that in \<open>simp_all add: t0\<close>)
    then show ?thesis by (simp add: t0 rn)
  qed
  with idx that show thesis by blast
qed

subsection \<open>Executing the region\<close>

text \<open>
  What executing the region from guest address \<open>gip\<close> may produce: an exit to the address and
  in the state the interpreter reaches after some number of instructions; a trap the interpreter
  raises in the same state; or, when \<open>fuel\<close> blocks were not enough, the interpreter has executed
  at least \<open>fuel\<close> instructions without a trap. The interpreter's trap on a misaligned jump target,
  within the instructions that \<open>fuel\<close> blocks cover, is the exception: translated code does not check
  jump targets.
\<close>

definition unaligned_within :: "uptr \<Rightarrow> mem \<Rightarrow> nat \<Rightarrow> cpu_state \<Rightarrow> u32 \<Rightarrow> mem \<Rightarrow> bool" where
  "unaligned_within vmem code fuel s gip m \<longleftrightarrow>
     (\<exists>n s' m'. n \<le> TB_MAX_INSNS * fuel \<and> interp_run vmem code n s gip m = Trapped s' m' \<and> trapno s' = TC_UNALIGNED_IP)"

definition region_agrees ::
  "uptr \<Rightarrow> mem \<Rightarrow> nat \<Rightarrow> cpu_state \<Rightarrow> u32 \<Rightarrow> mem \<Rightarrow> qres option \<Rightarrow> bool" where
  "region_agrees vmem code fuel s gip m res \<longleftrightarrow>
     (\<exists>n s' m'. n \<le> TB_MAX_INSNS * fuel \<and> interp_run vmem code n s gip m = Trapped s' m' \<and>
        trapno s' = TC_UNALIGNED_IP) \<or>
     (case res of
        Some (QExit g st') \<Rightarrow>
          \<exists>n s'. 0 < n \<and> interp_run vmem code n s gip m = Next s' g (q_mem st') \<and> cpu_rel s' st'
      | Some (QTrap st') \<Rightarrow>
          \<exists>n s'. interp_run vmem code n s gip m = Trapped s' (q_mem st') \<and> cpu_rel s' st' \<and>
            q_vr st' 31 = ip s'
      | None \<Rightarrow> \<exists>n s' g m'. fuel \<le> n \<and> interp_run vmem code n s gip m = Next s' g m'
      | _ \<Rightarrow> False)"

lemma region_agrees_prefix:
  assumes "interp_run vmem code n s gip m = Next s1 g1 m1" "0 < n" "n \<le> TB_MAX_INSNS" "region_agrees vmem code fuel s1 g1 m1 res"
  shows "region_agrees vmem code (Suc fuel) s gip m res"
proof -
  have run: "interp_run vmem code (n + k) s gip m = interp_run vmem code k s1 g1 m1" for k
    using assms(1) by (simp add: interp_run_add)
  from assms(4) consider
      (unaligned) k s' m' where "k \<le> TB_MAX_INSNS * fuel" "interp_run vmem code k s1 g1 m1 = Trapped s' m'" "trapno s' = TC_UNALIGNED_IP"
    | (exit) k s' g st' where "res = Some (QExit g st')" "0 < k"
        "interp_run vmem code k s1 g1 m1 = Next s' g (q_mem st')" "cpu_rel s' st'"
    | (trap) k s' st' where "res = Some (QTrap st')" "interp_run vmem code k s1 g1 m1 = Trapped s' (q_mem st')"
        "cpu_rel s' st'" "q_vr st' 31 = ip s'"
    | (fuel) k s' g m' where "res = None" "fuel \<le> k" "interp_run vmem code k s1 g1 m1 = Next s' g m'"
    unfolding region_agrees_def by (auto split: option.splits qres.splits)
  then show ?thesis
  proof cases
    case (unaligned k s' m')
    with run [of k] assms(3) show ?thesis by (auto simp: region_agrees_def intro!: exI [of _ "n + k"])
  next
    case (exit k s' g st')
    with run [of k] show ?thesis
      by (auto simp: region_agrees_def intro!: exI [of _ "n + k"])
  next
    case (trap k s' st')
    with run [of k] show ?thesis
      by (auto simp: region_agrees_def intro!: exI [of _ "n + k"])
  next
    case (fuel k s' g m')
    with run [of k] assms(2) show ?thesis
      by (auto simp: region_agrees_def intro!: exI [of _ "n + k"])
  qed
qed

lemma exec_region_agrees:
  assumes "\<And>g b. ip2bb g = Some b \<Longrightarrow> range_sim vmem code ip2bb rn b g"
    and "ip2bb gip = Some b" "cpu_rel s st"
  shows "region_agrees vmem code fuel s gip (q_mem st) (exec_region vmem fuel rn b st)"
  using assms(2,3)
proof (induction fuel arbitrary: b gip s st)
  case 0
  have "interp_run vmem code 0 s gip (q_mem st) = Next s gip (q_mem st)" by simp
  then show ?case by (auto simp: region_agrees_def intro!: exI [of _ 0])
next
  case (Suc fuel)
  obtain n where n: "0 < n" "block_leaves vmem ip2bb rn b st (interp_run vmem code n s gip (q_mem st))" "n \<le> TB_MAX_INSNS"
    and b: "b < length (rn_blocks rn)"
    using assms(1) [OF Suc.prems(1)] Suc.prems(2) by (auto simp: range_sim_def)
  show ?case
  proof (cases "interp_run vmem code n s gip (q_mem st)")
    case (Trapped s' m')
    have "n \<le> TB_MAX_INSNS * Suc fuel" using n(3) by simp
    then show ?thesis using Trapped n(2) b unfolding block_leaves_def region_agrees_def by auto blast
  next
    case (Next s1 g1 m1)
    with n(2) obtain st1 where st1: "cpu_rel s1 st1" "q_mem st1 = m1" and
      r: "exec_insts vmem (bb_ilist (rn_blocks rn ! b)) st = Some (QExit g1 st1) \<or>
        (\<exists>k < length (bb_succs (rn_blocks rn ! b)).
          exec_insts vmem (bb_ilist (rn_blocks rn ! b)) st = Some (QBr k st1) \<and>
          leads ip2bb rn (bb_succs (rn_blocks rn ! b) ! k) g1)"
      by (auto simp: block_leaves_def Let_def)
    show ?thesis
      using r
    proof (elim disjE exE conjE)
      assume "exec_insts vmem (bb_ilist (rn_blocks rn ! b)) st = Some (QExit g1 st1)"
      with Next st1 n(1) b show ?thesis
        by (auto simp: region_agrees_def)
    next
      fix k
      let ?c = "bb_succs (rn_blocks rn ! b) ! k"
      assume k: "k < length (bb_succs (rn_blocks rn ! b))"
        "exec_insts vmem (bb_ilist (rn_blocks rn ! b)) st = Some (QBr k st1)" "leads ip2bb rn ?c g1"
      then have step: "exec_region vmem (Suc fuel) rn b st = exec_region vmem fuel rn ?c st1"
        using b by simp
      show ?thesis
      proof (cases "ip2bb g1 = Some ?c")
        case True
        from Suc.IH [OF this st1(1)] show ?thesis
          unfolding step using region_agrees_prefix [OF Next n(1,3)] st1(2) by simp
      next
        case False
        then have "?c < length (rn_blocks rn)" "bb_ilist (rn_blocks rn ! ?c) = [GBr (vconst g1)]"
          using k(3) by (auto simp: leads_def)
        then show ?thesis
          unfolding step using Next st1 n(1)
          by (cases fuel) (auto simp: region_agrees_def vconst_def intro!: exI [of _ n])
      qed
    qed
  qed
qed


text \<open>The region stops only for lack of fuel: then every block on the way ended with a branch inside the region.\<close>

lemma exec_region_runs_on:
  assumes "\<And>g b. ip2bb g = Some b \<Longrightarrow> range_sim vmem code ip2bb rn b g"
    and "ip2bb gip = Some b" "cpu_rel s st" "exec_region vmem fuel rn b st = None"
    and "\<nexists>n s' m'. n \<le> TB_MAX_INSNS * fuel \<and> interp_run vmem code n s gip (q_mem st) = Trapped s' m' \<and> trapno s' = TC_UNALIGNED_IP"
  shows "runs_on vmem fuel rn b st"
  using assms(2-5)
proof (induction fuel arbitrary: b gip s st)
  case (Suc fuel)
  obtain n where n: "n \<le> TB_MAX_INSNS" "block_leaves vmem ip2bb rn b st (interp_run vmem code n s gip (q_mem st))"
    and b: "b < length (rn_blocks rn)"
    using assms(1) [OF Suc.prems(1)] Suc.prems(2) by (auto simp: range_sim_def)
  show ?case
  proof (cases "interp_run vmem code n s gip (q_mem st)")
    case (Trapped s' m')
    moreover have "n \<le> TB_MAX_INSNS * Suc fuel" using n(1) by simp
    ultimately have "trapno s' \<noteq> TC_UNALIGNED_IP" using Suc.prems(4) by blast
    then show ?thesis using Trapped n(2) b Suc.prems(3) by (auto simp: block_leaves_def)
  next
    case (Next s1 g1 m1)
    with n(2) obtain st1 where st1: "cpu_rel s1 st1" "q_mem st1 = m1" and
      r: "exec_insts vmem (bb_ilist (rn_blocks rn ! b)) st = Some (QExit g1 st1) \<or>
        (\<exists>k < length (bb_succs (rn_blocks rn ! b)).
          exec_insts vmem (bb_ilist (rn_blocks rn ! b)) st = Some (QBr k st1) \<and>
          leads ip2bb rn (bb_succs (rn_blocks rn ! b) ! k) g1)"
      by (auto simp: block_leaves_def Let_def)
    then obtain k where k: "k < length (bb_succs (rn_blocks rn ! b))"
      "exec_insts vmem (bb_ilist (rn_blocks rn ! b)) st = Some (QBr k st1)" "leads ip2bb rn (bb_succs (rn_blocks rn ! b) ! k) g1"
      using Suc.prems(3) b by auto
    let ?c = "bb_succs (rn_blocks rn ! b) ! k"
    have ex: "exec_region vmem fuel rn ?c st1 = None" using Suc.prems(3) b k by simp
    have "runs_on vmem fuel rn ?c st1"
    proof (cases "ip2bb g1 = Some ?c")
      case True
      show ?thesis
      proof (rule Suc.IH [OF True st1(1) ex], safe)
        fix j s' m' assume j: "j \<le> TB_MAX_INSNS * fuel" "interp_run vmem code j s1 g1 (q_mem st1) = Trapped s' m'"
          "trapno s' = TC_UNALIGNED_IP"
        have "interp_run vmem code (n + j) s gip (q_mem st) = Trapped s' m'" "n + j \<le> TB_MAX_INSNS * Suc fuel"
          using Next j st1(2) n(1) by (simp_all add: interp_run_add)
        then show False using Suc.prems(4) j(3) by blast
      qed
    next
      case False
      then have "?c < length (rn_blocks rn)" "bb_ilist (rn_blocks rn ! ?c) = [GBr (vconst g1)]"
        using k(3) by (auto simp: leads_def)
      then show ?thesis using ex by (cases fuel) (auto simp: vconst_def)
    qed
    then show ?thesis using b k by auto
  qed
qed simp

lemma translated_region_agrees:
  assumes "CompilerGenRegionIR code rgs vmem = Inr rn" "distinct (map fst rgs)"
    "32 + TB_MAX_INSNS * length rgs < 2 ^ 16"
    "\<forall>rg \<in> set rgs. no_clobber vmem code TB_MAX_INSNS (fst rg)"
    "j < length rgs" "cpu_rel s st"
  shows "region_agrees vmem code fuel s (fst (rgs ! j)) (q_mem st) (exec_region vmem fuel rn j st)"
    and "exec_region vmem fuel rn j st = None \<Longrightarrow>
      (\<exists>n s' m'. n \<le> TB_MAX_INSNS * fuel \<and> interp_run vmem code n s (fst (rgs ! j)) (q_mem st) = Trapped s' m' \<and>
         trapno s' = TC_UNALIGNED_IP) \<or> runs_on vmem fuel rn j st"
proof -
  obtain ip2bb where i: "\<And>j. j < length rgs \<Longrightarrow> ip2bb (fst (rgs ! j)) = Some j"
    and r: "\<And>g b. ip2bb g = Some b \<Longrightarrow> range_sim vmem code ip2bb rn b g"
    using assms(1-4) by (rule Translate_sim) blast
  show "region_agrees vmem code fuel s (fst (rgs ! j)) (q_mem st) (exec_region vmem fuel rn j st)"
    by (rule exec_region_agrees [OF r i [OF assms(5)] assms(6)])
  show "(\<exists>n s' m'. n \<le> TB_MAX_INSNS * fuel \<and> interp_run vmem code n s (fst (rgs ! j)) (q_mem st) = Trapped s' m' \<and>
         trapno s' = TC_UNALIGNED_IP) \<or> runs_on vmem fuel rn j st"
    if "exec_region vmem fuel rn j st = None"
    using exec_region_runs_on [OF r i [OF assms(5)] assms(6) that] by blast
qed

text \<open>
  C4. Translated code refines the interpreter. For every list of ranges with distinct start
  addresses that the translator accepts, none of whose first 64 words (the most that a range translates) is a
  load to \<open>x0\<close> with zero offset, whose translation is wrong, executing the region from the block of any range, in any state related to a
  guest state, agrees with running the interpreter's handlers from that range's address: same exit
  address, registers and memory, or same trap. When it has not ended after \<open>fuel\<close> blocks, it has not
  got stuck: each block it came through ended in a branch to a block of the region. Excepted are
  guest states from which the interpreter, within the instructions of \<open>fuel\<close> blocks, traps on a jump to a
  misaligned address, which translated code does not check. The bound on the number of ranges keeps
  the 16-bit virtual register numbers from wrapping.
\<close>

theorem region_correct:
  assumes "CompilerGenRegionIR code rgs vmem = Inr rn" "distinct (map fst rgs)"
    "32 + TB_MAX_INSNS * length rgs < 2 ^ 16"
    "\<forall>rg \<in> set rgs. no_clobber vmem code TB_MAX_INSNS (fst rg)"
    "j < length rgs" "cpu_rel s st"
  shows "region_agrees vmem code fuel s (fst (rgs ! j)) (q_mem st) (exec_region vmem fuel rn j st) \<and>
    (exec_region vmem fuel rn j st = None \<longrightarrow>
       unaligned_within vmem code fuel s (fst (rgs ! j)) (q_mem st) \<or> runs_on vmem fuel rn j st)"
  using translated_region_agrees [OF assms, of fuel] by (auto simp: unaligned_within_def)

text \<open>Memory filled with the byte \<open>0x63\<close> is code: every word is \<open>bltu x6, x22\<close>.\<close>

definition bltu_mem :: mem where "bltu_mem = (\<lambda>_. 0x63)"

lemma bltu_mem_fetch: "fetch vmem bltu_mem g = 0x63636363" "Decode 0x63636363 = I_bltu"
  "insn_rs1 0x63636363 = 6" "insn_rs2 0x63636363 = 22" "imm_B 0x63636363 \<noteq> 0"
  by (simp_all add: fetch_def bltu_mem_def unaligned_load32_def unaligned_load16_def unaligned_load8_def
      Decode_defs insn_field_defs imm_B_def bf_decode_u_def bf_decode_s_def bf_size_def)

definition bltu_region :: region where
  "bltu_region =
     \<lparr>rn_globals = state_info, rn_locals = [],
      rn_blocks = [\<lparr>bb_ilist = [Brcc CC_LTU (VVReg T_I32 5) (VVReg T_I32 21)], bb_succs = [2, 1], bb_preds = []\<rparr>,
        \<lparr>bb_ilist = [GBr (VConst T_I32 0x1004)], bb_succs = [], bb_preds = [0]\<rparr>,
        \<lparr>bb_ilist = [GBr (VConst T_I32 (0x1000 + imm_B 0x63636363))], bb_succs = [], bb_preds = [0]\<rparr>]\<rparr>"

lemma bltu_translate: "CompilerGenRegionIR bltu_mem [(0x1000, 0x2000)] 0 = Inr bltu_region"
proof -
  have "translate_loop TB_MAX_INSNS code boundary t =
      rbind (TranslateInsn code t) (\<lambda>t'.
        if t_control t' \<noteq> C_NEXT then Inr t'
        else if 63 = (0 :: nat) \<or> boundary \<le> t_insn_ip t' then
          Inr (MakeGBr (t'\<lparr>t_control := C_TB_OVF\<rparr>) (t_insn_ip t'))
        else translate_loop 63 code boundary t')" for code boundary t
    using translate_loop.simps(2) [of 63] by (simp add: TB_MAX_INSNS_def)
  then show ?thesis
    by (simp add: CompilerGenRegionIR_def Translate_def add_range_block_def new_translator_def
        new_region_def CreateBlock_def TranslateIPRange_def TranslateInsn_def bltu_mem_fetch H_translate_def
        TranslateBrcc_def make_target_def qb_create_def Builder_Create_eq gprop_def vgpr_def vconst_def
        upd_block_def new_block_def il_insert_def fold_inst_def folder_visit_def AddSucc_def add_succ_def
        bltu_region_def GPR_START_def)
qed

theorem region_correct_witness:
  "CompilerGenRegionIR bltu_mem [(0x1000, 0x2000)] 0 = Inr bltu_region \<and>
   (let st = \<lparr>q_vr = (\<lambda>_. 0), q_mem = bltu_mem, q_trap = TC_NONE\<rparr> in
    exec_region 0 2 bltu_region 0 st = Some (QExit 0x1004 st) \<and>
    region_agrees 0 bltu_mem 2 init_cpu 0x1000 bltu_mem (Some (QExit 0x1004 st)))"
proof -
  define st where "st = \<lparr>q_vr = (\<lambda>_. 0), q_mem = bltu_mem, q_trap = TC_NONE\<rparr>"
  have rel: "cpu_rel init_cpu st"
    by (simp add: cpu_rel_def init_cpu_def st_def)
  have nc: "no_clobber 0 bltu_mem TB_MAX_INSNS g" for g
    by (simp add: no_clobber_alt bltu_mem_fetch clobbers_base_def is_load_def)
  have ex: "exec_region 0 2 bltu_region 0 st = Some (QExit 0x1004 st)"
    by (simp add: bltu_region_def st_def numeral_2_eq_2)
  show ?thesis
    using region_correct [OF bltu_translate _ _ _ _ rel, of 0 2] nc ex bltu_translate
    by (simp add: st_def [symmetric] TB_MAX_INSNS_def) (simp add: st_def)
qed


subsection \<open>Where translation and interpretation differ\<close>

lemma handler_illegal_iff:
  "H_handler op s gip vmem m raw = Trapped (s\<lparr>ip := gip, trapno := TC_ILLEGAL_INSN\<rparr>) m \<longleftrightarrow> op = I_illegal"
proof
  assume h: "H_handler op s gip vmem m raw = Trapped (s\<lparr>ip := gip, trapno := TC_ILLEGAL_INSN\<rparr>) m"
  then obtain s1 where
    "Impl op s1 gip vmem m raw = Trapped (s\<lparr>ip := gip, trapno := TC_ILLEGAL_INSN\<rparr>) m"
    unfolding H_handler_def Let_def
    by (auto split: hres.splits if_splits simp del: has_flag_Trap has_flag_MayTrap has_flag_Branch has_flag_HasRd)
  then show "op = I_illegal"
    by (cases op) (auto simp: Impl_defs split: if_splits dest!: arg_cong [where f = trapno])
qed (simp add: H_handler_def RAISE_TRAP_def)

text \<open>
  C34. Translating an instruction fails exactly on a word that does not decode, and then with the
  panic of \<open>V_illegal\<close>; every instruction of RV32I is translated. The interpreter does not stop
  on such a word: its handler raises \<open>ILLEGAL_INSN\<close> at that address.
\<close>

theorem TranslateInsn_fails_iff:
  "(TranslateInsn code t = Inl e \<longleftrightarrow>
      Decode (fetch (t_vmem t) code (t_insn_ip t)) = I_illegal \<and>
      e = Panic ''Unimplemented instruction illegal'') \<and>
   (Decode (fetch vmem code gip) = I_illegal \<longleftrightarrow>
      interp_code_step vmem code s gip m = Trapped (s\<lparr>ip := gip, trapno := TC_ILLEGAL_INSN\<rparr>) m)"
proof
  show "TranslateInsn code t = Inl e \<longleftrightarrow>
      Decode (fetch (t_vmem t) code (t_insn_ip t)) = I_illegal \<and>
      e = Panic ''Unimplemented instruction illegal''"
    by (cases "Decode (fetch (t_vmem t) code (t_insn_ip t))")
      (auto simp: TranslateInsn_def H_translate_def Let_def)
  show "Decode (fetch vmem code gip) = I_illegal \<longleftrightarrow>
      interp_code_step vmem code s gip m = Trapped (s\<lparr>ip := gip, trapno := TC_ILLEGAL_INSN\<rparr>) m"
    by (simp add: interp_code_step_def Let_def handler_illegal_iff)
qed

text \<open>
  C35. The translation of \<open>lw x0, 0(rs1)\<close> uses the address operand as the destination of the
  load: after it, \<open>rs1\<close> holds the loaded word, while the handler leaves every register alone.
\<close>

theorem load_x0_clobbers_base:
  assumes "Decode raw = I_lw" "insn_rd raw = 0" "imm_I raw = 0" "insn_rs1 raw \<noteq> 0"
    and "bb_ok t" "insts_of t = []" "cpu_rel s st"
  shows "(\<exists>t' st'. H_translate I_lw t raw = Inr t' \<and> run_bb t' st = Some (QNext st') \<and>
      q_vr st' (gvr (insn_rs1 raw)) =
        unaligned_load32 (q_mem st) (t_vmem t + ucast (gpr s (insn_rs1 raw)))) \<and>
    gpr (res_cpu (H_handler I_lw s gip (t_vmem t) (q_mem st) raw)) (insn_rs1 raw) = gpr s (insn_rs1 raw)"
proof
  obtain st1 where st1: "run_bb (PreSideeff t) st = Some (QNext st1)" "cpu_rel s st1" "q_mem st1 = q_mem st"
    using PreSideeff_run [OF assms(5) bb_sim_start [OF assms(6,7)]] by blast
  have ev: "eval_opr st1 (gprop (insn_rs1 raw) T_I32) = Some (gpr s (insn_rs1 raw))"
    using st1 by (simp add: eval_gprop reg_fields_less)
  define t1 where "t1 = TranslateLoad (PreSideeff t) raw T_I32 SG_S"
  define t' where "t' = t1\<lparr>t_insn_ip := t_insn_ip t1 + 4\<rparr>"
  have "run_bb t1 st = Some (QNext (set_vr st1 (gvr (insn_rs1 raw))
      (unaligned_load32 (q_mem st) (t_vmem t + ucast (gpr s (insn_rs1 raw))))))"
    using assms st1 ev
    by (simp add: t1_def TranslateLoad_def run_create vm_load_def) (simp add: gprop_def vgpr_eq)
  then have run: "run_bb t' st = Some (QNext (set_vr st1 (gvr (insn_rs1 raw))
      (unaligned_load32 (q_mem st) (t_vmem t + ucast (gpr s (insn_rs1 raw))))))"
    by (simp add: t'_def run_bb_def insts_of_def)
  moreover have "H_translate I_lw t raw = Inr t'"
    by (simp add: H_translate_def t'_def t1_def Let_def)
  ultimately show "\<exists>t' st'. H_translate I_lw t raw = Inr t' \<and> run_bb t' st = Some (QNext st') \<and>
      q_vr st' (gvr (insn_rs1 raw)) =
        unaligned_load32 (q_mem st) (t_vmem t + ucast (gpr s (insn_rs1 raw)))"
    by (intro exI conjI) auto
  show "gpr (res_cpu (H_handler I_lw s gip (t_vmem t) (q_mem st) raw)) (insn_rs1 raw) =
      gpr s (insn_rs1 raw)"
    using assms by (simp add: H_handler_def Impl_Load_def Let_def)
qed

text \<open>\<open>0x00032003\<close> is \<open>lw x0, 0(x6)\<close>; here \<open>x6\<close> holds 8 and memory is filled with ones.\<close>

theorem load_x0_clobbers_base_witness:
  "\<exists>t' st'. H_translate I_lw ((new_translator (new_region state_info) 0)
        \<lparr>t_region := snd (CreateBlock (new_region state_info))\<rparr>) 0x00032003 = Inr t' \<and>
     run_bb t' \<lparr>q_vr = (\<lambda>r. if r = 5 then 8 else 0), q_mem = (\<lambda>_. 1), q_trap = TC_NONE\<rparr> =
       Some (QNext st') \<and> q_vr st' 5 = 0x01010101"
proof -
  define t where "t = (new_translator (new_region state_info) 0)
    \<lparr>t_region := snd (CreateBlock (new_region state_info))\<rparr>"
  define st where "st = \<lparr>q_vr = (\<lambda>r. if r = 5 then 8 else 0), q_mem = (\<lambda>_. 1 :: u8), q_trap = TC_NONE\<rparr>"
  have raw: "Decode 0x00032003 = I_lw" "insn_rd 0x00032003 = 0" "imm_I 0x00032003 = 0"
    "insn_rs1 0x00032003 = 6"
    by (simp_all add: Decode_defs insn_field_defs imm_I_def bf_decode_u_def bf_decode_s_def bf_size_def)
  have "bb_ok t" "insts_of t = []"
    by (simp_all add: t_def bb_ok_def insts_of_def new_translator_def new_region_def new_block_def)
  moreover have "gvr r = 5 \<longleftrightarrow> r = 6" if "r \<noteq> 0" for r
    using gvr_inj [OF that, of 6] by (simp add: gvr_def)
  then have "cpu_rel (set_gpr init_cpu 6 8) st"
    by (auto simp: cpu_rel_def st_def init_cpu_def)
  ultimately obtain t' st' where "H_translate I_lw t 0x00032003 = Inr t'" "run_bb t' st = Some (QNext st')"
    "q_vr st' (gvr 6) = unaligned_load32 (q_mem st) (t_vmem t + 8)"
    using load_x0_clobbers_base [OF raw(1-3), of t "set_gpr init_cpu 6 8" st 0] raw(4) by auto
  then show ?thesis
    by (auto simp: t_def st_def gvr_def unaligned_load32_def unaligned_load16_def unaligned_load8_def)
qed

end
