(* ===== verification/Select.thy ===== *)
theory Select
  imports Arch_Traits Qir_Wf
begin

section \<open>Instruction selection: codegen/select.cpp\<close>

text \<open>
  \<open>QSel\<close> rewrites the operands of every instruction so that they satisfy the constraints of the
  target description: an input that has to be the output register is copied there first, and a
  constant that the instruction cannot encode is loaded into a new local register. The copies are
  created by the builder right before the instruction, so the part of the block before the
  instruction is the list the builder appends to.
\<close>

subsection \<open>The pass\<close>

record selop =
  so_region :: region
  so_pre :: "inst list"
  so_src :: "voperand list"

definition is_vgpr :: "regn \<Rightarrow> voperand \<Rightarrow> bool" where
  "is_vgpr r x \<longleftrightarrow> (case x of VVReg t q \<Rightarrow> q = r | _ \<Rightarrow> False)"

definition sel_mov :: "voperand \<Rightarrow> voperand \<Rightarrow> selop \<Rightarrow> selop" where
  "sel_mov d x s = s\<lparr>so_pre := Builder_Create (so_pre s) (length (so_pre s)) (Mov d x)\<rparr>"

text \<open>\<open>MakeVGPR(type, qb.CreateVGPR(type))\<close>.\<close>

definition sel_temp :: "vtype \<Rightarrow> selop \<Rightarrow> voperand \<times> selop" where
  "sel_temp t s = (let (r, rn) = AddLocal (so_region s) t in (VVReg t r, s\<lparr>so_region := rn\<rparr>))"

text \<open>The bodies of the two loops of \<open>SelectOperands\<close>.\<close>

definition sel_alias :: "ra_op_ct list \<Rightarrow> voperand list \<Rightarrow> nat \<Rightarrow> selop \<Rightarrow> selop res" where
  "sel_alias op_ct dstl i s =
     (let ct = op_ct ! (length dstl + i) in
      if \<not> ct_has_alias ct then Inr s
      else case dstl ! ct_alias ct of
        VVReg dt dr \<Rightarrow>
          if is_vgpr dr (so_src s ! i) then Inr s
          else
            let other = (\<lambda>k. k \<noteq> i \<and> is_vgpr dr (so_src s ! k));
                ks = [0 ..< length (so_src s)];
                s1 = (if list_ex other ks then
                        let (tmp, s') = sel_temp dt s; s'' = sel_mov tmp (VVReg dt dr) s' in
                        s''\<lparr>so_src := map (\<lambda>k. if other k then tmp else so_src s ! k) ks\<rparr>
                      else s);
                s2 = sel_mov (VVReg dt dr) (so_src s1 ! i) s1
            in Inr (s2\<lparr>so_src := (so_src s2)[i := VVReg dt dr]\<rparr>)
      | _ \<Rightarrow> Inl AssertFail)"

definition sel_lower :: "ra_op_ct list \<Rightarrow> nat \<Rightarrow> nat \<Rightarrow> selop \<Rightarrow> selop res" where
  "sel_lower op_ct dst_n i s =
     (let ct = op_ct ! (dst_n + i) in
      case so_src s ! i of
        VConst t val \<Rightarrow>
          if ct_ci ct \<noteq> CI_NO \<and> match_gp_const t (ucast val) (ct_ci ct) then Inr s
          else
            let (tmp, s1) = sel_temp t s; s2 = sel_mov tmp (VConst t val) s1
            in Inr (s2\<lparr>so_src := (so_src s2)[i := tmp]\<rparr>)
      | _ \<Rightarrow> Inr s)"

primrec set_inputs :: "inst \<Rightarrow> voperand list \<Rightarrow> inst" where
  "set_inputs (Hcall sid a) xs = Hcall sid (xs ! 0)" | "set_inputs Br xs = Br"
| "set_inputs (Brcc cc a b) xs = Brcc cc (xs ! 0) (xs ! 1)" | "set_inputs (GBr t) xs = GBr t"
| "set_inputs (GBrind a) xs = GBrind (xs ! 0)"
| "set_inputs (VMLoad sz sg d p) xs = VMLoad sz sg d (xs ! 0)"
| "set_inputs (VMStore sz sg p d) xs = VMStore sz sg (xs ! 0) (xs ! 1)"
| "set_inputs (Setcc cc d a b) xs = Setcc cc d (xs ! 0) (xs ! 1)"
| "set_inputs (Mov d s) xs = Mov d (xs ! 0)"
| "set_inputs (Binop bop d a b) xs = Binop bop d (xs ! 0) (xs ! 1)"

definition SelectOperands :: "inst \<Rightarrow> region \<Rightarrow> inst list \<Rightarrow> (region \<times> inst list \<times> inst) res" where
  "SelectOperands ins rn pre =
     (case op_info ins of
        None \<Rightarrow> Inl AssertFail
      | Some (op_ct, _) \<Rightarrow>
          let ks = [0 ..< length (inputs ins)];
              s0 = \<lparr>so_region = rn, so_pre = pre, so_src = inputs ins\<rparr>
          in rbind (rfold (sel_alias op_ct (outputs ins)) ks s0) (\<lambda>s1.
             rbind (rfold (sel_lower op_ct (length (outputs ins))) ks s1) (\<lambda>s2.
               Inr (so_region s2, so_pre s2, set_inputs ins (so_src s2)))))"

text \<open>\<open>QSelVisitor\<close>: \<open>br\<close>, \<open>gbr\<close> and \<open>hcall\<close> are left alone.\<close>

definition sel_visit :: "inst \<Rightarrow> region \<Rightarrow> inst list \<Rightarrow> (region \<times> inst list \<times> inst) res" where
  "sel_visit ins rn pre =
     (case ins of
        Hcall _ _ \<Rightarrow> Inr (rn, pre, ins) | Br \<Rightarrow> Inr (rn, pre, ins) | GBr _ \<Rightarrow> Inr (rn, pre, ins)
      | _ \<Rightarrow> SelectOperands ins rn pre)"

text \<open>The loops of \<open>QSel::Run\<close>; the flag is \<open>MachineRegionInfo::has_calls\<close>.\<close>

definition sel_step :: "inst \<Rightarrow> region \<times> inst list \<times> bool \<Rightarrow> (region \<times> inst list \<times> bool) res" where
  "sel_step ins st =
     (case st of (rn, pre, calls) \<Rightarrow>
        rbind (sel_visit ins rn pre) (\<lambda>(rn', pre', ins').
          Inr (rn', pre' @ [ins'], calls \<or> GetOpFlags ins' AND HAS_CALLS \<noteq> 0)))"

definition sel_block :: "nat \<Rightarrow> region \<times> bool \<Rightarrow> (region \<times> bool) res" where
  "sel_block b st =
     (case st of (rn, calls) \<Rightarrow>
        rbind (rfold sel_step (bb_ilist (rn_blocks rn ! b)) (rn, [], calls)) (\<lambda>(rn', is, calls').
          Inr (upd_block rn' b (\<lambda>k. k\<lparr>bb_ilist := is\<rparr>), calls')))"

definition QSel_Run :: "region \<Rightarrow> (region \<times> bool) res" where
  "QSel_Run rn = rfold sel_block [0 ..< length (rn_blocks rn)] (rn, False)"

lemma sel_prefix:
  "Builder_Create (xs @ ys) (length xs) i = Builder_Create xs (length xs) i @ ys"
  by (simp add: Builder_Create_eq il_insert_def)

lemma sel_mov_eq: "sel_mov d x s = s\<lparr>so_pre := so_pre s @ [Mov d x]\<rparr>"
  by (simp add: sel_mov_def Builder_Create_eq il_insert_def fold_inst_def folder_visit_def)

subsection \<open>What the constraints ask of a selected instruction\<close>

definition imm_ok :: "ra_op_ct \<Rightarrow> voperand \<Rightarrow> bool" where
  "imm_ok ct x \<longleftrightarrow> (case x of VConst t c \<Rightarrow> match_gp_const t (ucast c) (ct_ci ct) | _ \<Rightarrow> True)"

definition alias_ok :: "ra_op_ct \<Rightarrow> voperand list \<Rightarrow> voperand \<Rightarrow> bool" where
  "alias_ok ct dstl x \<longleftrightarrow> (ct_has_alias ct \<longrightarrow> x = dstl ! ct_alias ct)"

definition ct_ok :: "inst \<Rightarrow> bool" where
  "ct_ok ins \<longleftrightarrow>
     (case op_info ins of
        None \<Rightarrow> True
      | Some (op_ct, _) \<Rightarrow>
          list_all2 imm_ok (drop (length (outputs ins)) op_ct) (inputs ins) \<and>
          list_all2 (\<lambda>ct. alias_ok ct (outputs ins)) (drop (length (outputs ins)) op_ct) (inputs ins))"

subsection \<open>Simulation\<close>

text \<open>States that agree on memory and on the first \<open>N\<close> registers outside \<open>X\<close>.\<close>

definition agree :: "nat \<Rightarrow> regn set \<Rightarrow> qstate \<Rightarrow> qstate \<Rightarrow> bool" where
  "agree N X st st' \<longleftrightarrow>
     (\<forall>r. unat r < N \<and> r \<notin> X \<longrightarrow> q_vr st' r = q_vr st r) \<and> q_mem st' = q_mem st \<and> q_trap st' = q_trap st"

fun res_agree :: "nat \<Rightarrow> qres \<Rightarrow> qres \<Rightarrow> bool" where
  "res_agree N (QNext st) (QNext st') = agree N {} st st'"
| "res_agree N (QBr k st) (QBr k' st') = (k = k' \<and> agree N {} st st')"
| "res_agree N (QExit x st) (QExit x' st') = (x = x' \<and> agree N {} st st')"
| "res_agree N (QTrap st) (QTrap st') = agree N {} st st'"
| "res_agree N _ _ = False"

definition sel_dyn :: "nat \<Rightarrow> inst \<Rightarrow> inst list \<Rightarrow> voperand list \<Rightarrow> bool" where
  "sel_dyn N ins movs src \<longleftrightarrow>
     (\<forall>vmem st st0. agree N {} st st0 \<longrightarrow>
        (\<exists>st2. exec_insts vmem movs st0 = Some (QNext st2) \<and> agree N (defs_of ins) st st2 \<and>
           (\<forall>k < length (inputs ins). eval_opr st2 (src ! k) = eval_opr st (inputs ins ! k))))"

definition sel_static :: "region \<Rightarrow> regn set \<Rightarrow> inst \<Rightarrow> inst list \<Rightarrow> selop \<Rightarrow> bool" where
  "sel_static rn D ins movs s \<longleftrightarrow>
     rn_grows rn (so_region s) \<and> wf_insts (so_region s) D movs \<and> list_all ct_ok movs \<and>
     list_all2 (use_ok (so_region s) (D \<union> defs_list movs)) (in_types ins) (so_src s)"

lemma ct_ok_Mov [simp]: "ct_ok (Mov d x)"
  by (simp add: ct_ok_def CT_INFO_eval imm_ok_def alias_ok_def ct_reg_def match_gp_const_simps split: voperand.splits)

definition sel_inv :: "nat \<Rightarrow> region \<Rightarrow> regn set \<Rightarrow> inst \<Rightarrow> inst list \<Rightarrow> selop \<Rightarrow> bool" where
  "sel_inv N rn D ins pre s \<longleftrightarrow>
     (\<exists>movs. so_pre s = pre @ movs \<and> sel_static rn D ins movs s \<and> sel_dyn N ins movs (so_src s))"

lemma NumAll_AddLocal [simp]: "NumAll (snd (AddLocal rn t)) = Suc (NumAll rn)"
  by (simp add: NumAll_def)

lemma fresh_local:
  assumes "NumAll rn < 2 ^ 16" "rn_globals rn = state_info"
  shows "unat (of_nat (NumAll rn) :: regn) = NumAll rn" "(of_nat (NumAll rn) :: regn) \<noteq> 31"
    "vreg_type (snd (AddLocal rn t)) (of_nat (NumAll rn)) = Some t"
    "vreg_type rn r = Some t' \<Longrightarrow> r \<noteq> of_nat (NumAll rn)"
proof -
  show u: "unat (of_nat (NumAll rn) :: regn) = NumAll rn"
    using assms(1) by (simp add: unat_of_nat take_bit_nat_eq_self)
  have ge: "32 \<le> NumAll rn" using assms(2) by (simp add: NumAll_def)
  then show "(of_nat (NumAll rn) :: regn) \<noteq> 31" using u by (auto dest: arg_cong [where f = unat])
  show "vreg_type (snd (AddLocal rn t)) (of_nat (NumAll rn)) = Some t"
    unfolding vreg_type_def IsGlobal_def u by (simp add: NumAll_def)
  show "vreg_type rn r = Some t' \<Longrightarrow> r \<noteq> of_nat (NumAll rn)"
    using u by (auto simp: vreg_type_def IsGlobal_def NumAll_def split: if_splits)
qed

lemma use_ok_vreg: "use_ok rn D t x \<Longrightarrow> r \<in> vreg_of x \<Longrightarrow> \<exists>t'. vreg_type rn r = Some t'"
  by (cases x) (auto split: option.splits)

lemma eval_set_other: "r \<notin> vreg_of x \<Longrightarrow> use_ok rn D t x \<Longrightarrow> eval_opr (set_vr st r v) x = eval_opr st x"
  by (cases x) (auto simp: set_vr_def)

lemma use_ok_eval: "use_ok rn D t x \<Longrightarrow> \<exists>v. eval_opr st x = Some v"
  by (cases x) auto

lemma agree_set_fresh: "agree N X st st' \<Longrightarrow> N \<le> unat r \<Longrightarrow> agree N X st (set_vr st' r v)"
  by (auto simp: agree_def set_vr_def)

lemma agree_set_in: "agree N X st st' \<Longrightarrow> r \<in> X \<Longrightarrow> agree N X st (set_vr st' r v)"
  by (auto simp: agree_def set_vr_def)

lemma use_okD: "list_all2 (use_ok rn D) ts xs \<Longrightarrow> k < length xs \<Longrightarrow> use_ok rn D (ts ! k) (xs ! k)"
  by (simp add: list_all2_conv_all_nth)

text \<open>Loading a value into a new local and using that instead.\<close>

lemma sel_inv_temp:
  assumes inv: "sel_inv N rn D ins pre s" and N: "N \<le> NumAll rn" and g: "rn_globals rn = state_info"
    and b: "NumAll (so_region s) < 2 ^ 16" and len: "length (so_src s) = length (inputs ins)"
    and K: "\<And>k. k < length (so_src s) \<Longrightarrow> P k \<Longrightarrow> so_src s ! k = x"
    and x: "k0 < length (so_src s)" "P k0" "\<And>k. k < length (so_src s) \<Longrightarrow> P k \<Longrightarrow> in_types ins ! k = t"
  shows "sel_inv N rn D ins pre
    ((sel_mov (fst (sel_temp t s)) x (snd (sel_temp t s)))\<lparr>so_src :=
       map (\<lambda>k. if P k then fst (sel_temp t s) else so_src s ! k) [0 ..< length (so_src s)]\<rparr>)"
    (is "sel_inv N rn D ins pre ?s'")
proof -
  obtain movs where pre: "so_pre s = pre @ movs" and st: "sel_static rn D ins movs s"
    and dyn: "sel_dyn N ins movs (so_src s)"
    using inv by (auto simp: sel_inv_def)
  define r where "r = (of_nat (NumAll (so_region s)) :: regn)"
  define rn' where "rn' = snd (AddLocal (so_region s) t)"
  have tmp: "fst (sel_temp t s) = VVReg t r" "snd (sel_temp t s) = s\<lparr>so_region := rn'\<rparr>"
    by (simp_all add: sel_temp_def r_def rn'_def split_beta Let_def)
  have grow: "rn_grows rn (so_region s)" using st by (simp add: sel_static_def)
  then have g': "rn_globals (so_region s) = state_info" by (simp add: g rn_grows_def)
  note fr = fresh_local(1,2) [OF b g', folded r_def] fresh_local(3) [OF b g', of t, folded r_def rn'_def]
    fresh_local(4) [OF b g', folded r_def]
  have "N \<le> NumAll (so_region s)" using N grow by (auto simp: rn_grows_def NumAll_def)
  then have Nr: "N \<le> unat r" by (simp add: fr(1))
  have uses: "list_all2 (use_ok (so_region s) (D \<union> defs_list movs)) (in_types ins) (so_src s)"
    using st by (simp add: sel_static_def)
  note use = use_okD [OF uses]
  have grow2: "rn_globals rn' = rn_globals (so_region s)" "rn_locals rn' = rn_locals (so_region s) @ [t]"
    by (simp_all add: rn'_def)
  have xk: "so_src s ! k0 = x" "in_types ins ! k0 = t" using K x by auto
  have ux: "use_ok (so_region s) (D \<union> defs_list movs) t x" using use [OF x(1)] by (simp add: xk)
  then have t: "t \<noteq> T_UNDEF" by (cases x) auto
  have dtmp: "def_ok rn' (VVReg t r)" using fr t by simp
  have wfm: "wf_insts rn' D (movs @ [Mov (VVReg t r) x])"
    using st wf_insts_grows [OF grow2, of D D movs] use_ok_grows [OF grow2 _ ux, of "D \<union> defs_list movs"] dtmp
    by (simp add: sel_static_def wf_insts_append wf_inst_def)
  have utmp: "use_ok rn' (D \<union> defs_list (movs @ [Mov (VVReg t r) x])) t (VVReg t r)"
    using fr t by simp
  have "sel_static rn D ins (movs @ [Mov (VVReg t r) x]) ?s'"
    unfolding sel_static_def
  proof (intro conjI)
    show "rn_grows rn (so_region ?s')"
      using grow rn_grows_AddLocal [OF t, of "so_region s"]
      by (simp add: sel_mov_eq tmp rn'_def) (rule rn_grows_trans)
    show "wf_insts (so_region ?s') D (movs @ [Mov (VVReg t r) x])"
      using wfm by (simp add: sel_mov_eq tmp)
    show "list_all ct_ok (movs @ [Mov (VVReg t r) x])" using st by (simp add: sel_static_def)
    have "use_ok rn' (D \<union> defs_list (movs @ [Mov (VVReg t r) x])) (in_types ins ! k) (so_src s ! k)"
      if "k < length (so_src s)" for k
      by (rule use_ok_grows [OF grow2 _ use [OF that]]) auto
    with utmp x(3) show "list_all2 (use_ok (so_region ?s') (D \<union> defs_list (movs @ [Mov (VVReg t r) x])))
        (in_types ins) (so_src ?s')"
      using list_all2_lengthD [OF uses] by (simp add: list_all2_conv_all_nth sel_mov_eq tmp)
  qed
  moreover have "sel_dyn N ins (movs @ [Mov (VVReg t r) x]) (so_src ?s')"
    unfolding sel_dyn_def
  proof (intro allI impI)
    fix vmem st st0
    assume "agree N {} st st0"
    with dyn obtain st2 where st2: "exec_insts vmem movs st0 = Some (QNext st2)" "agree N (defs_of ins) st st2"
      and ev: "\<And>k. k < length (inputs ins) \<Longrightarrow> eval_opr st2 (so_src s ! k) = eval_opr st (inputs ins ! k)"
      unfolding sel_dyn_def by blast
    obtain v where v: "eval_opr st2 x = Some v" using use_ok_eval [OF ux] by blast
    have nr: "r \<notin> vreg_of (so_src s ! k)" if "k < length (so_src s)" for k
      using use_ok_vreg [OF use [OF that]] fr(4) by blast
    have "exec_insts vmem (movs @ [Mov (VVReg t r) x]) st0 = Some (QNext (set_vr st2 r v))"
      using st2 v by (simp add: exec_insts_append)
    moreover have "agree N (defs_of ins) st (set_vr st2 r v)"
      using st2(2) Nr by (rule agree_set_fresh)
    moreover have "eval_opr (set_vr st2 r v) (so_src ?s' ! k) = eval_opr st (inputs ins ! k)"
      if k: "k < length (inputs ins)" for k
    proof (cases "P k")
      case True
      with k K len have "so_src s ! k = x" by simp
      then show ?thesis using ev [OF k] True k len v by (simp add: sel_mov_eq tmp) (simp add: set_vr_def)
    next
      case False
      then show ?thesis
        using ev [OF k] k len eval_set_other [OF nr [of k] use [of k]] by (simp add: sel_mov_eq tmp)
    qed
    ultimately show "\<exists>st2. exec_insts vmem (movs @ [Mov (VVReg t r) x]) st0 = Some (QNext st2) \<and>
        agree N (defs_of ins) st st2 \<and>
        (\<forall>k < length (inputs ins). eval_opr st2 (so_src ?s' ! k) = eval_opr st (inputs ins ! k))"
      by blast
  qed
  ultimately show ?thesis
    unfolding sel_inv_def by (intro exI [of _ "movs @ [Mov (VVReg t r) x]"]) (simp add: sel_mov_eq tmp pre)
qed

text \<open>Copying an input to the output register.\<close>

lemma sel_inv_alias:
  assumes inv: "sel_inv N rn D ins pre s" and len: "length (so_src s) = length (inputs ins)"
    and i: "i < length (so_src s)" "in_types ins ! i = t" and d: "def_ok rn (VVReg t r)" "r \<in> defs_of ins"
    and other: "\<And>k. k < length (so_src s) \<Longrightarrow> k \<noteq> i \<Longrightarrow> \<not> is_vgpr r (so_src s ! k)"
  shows "sel_inv N rn D ins pre
    ((sel_mov (VVReg t r) (so_src s ! i) s)\<lparr>so_src := (so_src s)[i := VVReg t r]\<rparr>)"
    (is "sel_inv N rn D ins pre ?s'")
proof -
  obtain movs where pre: "so_pre s = pre @ movs" and st: "sel_static rn D ins movs s"
    and dyn: "sel_dyn N ins movs (so_src s)"
    using inv by (auto simp: sel_inv_def)
  have grow: "rn_grows rn (so_region s)" using st by (simp add: sel_static_def)
  have uses: "list_all2 (use_ok (so_region s) (D \<union> defs_list movs)) (in_types ins) (so_src s)"
    using st by (simp add: sel_static_def)
  note use = use_okD [OF uses]
  obtain ls where ls: "rn_globals (so_region s) = rn_globals rn" "rn_locals (so_region s) = rn_locals rn @ ls"
    using grow by (auto simp: rn_grows_def)
  have d': "def_ok (so_region s) (VVReg t r)" by (rule def_ok_grows [OF ls d(1)])
  have "sel_static rn D ins (movs @ [Mov (VVReg t r) (so_src s ! i)]) ?s'"
    unfolding sel_static_def
  proof (intro conjI)
    show "wf_insts (so_region ?s') D (movs @ [Mov (VVReg t r) (so_src s ! i)])"
      using st use [OF i(1)] d' i(2) by (simp add: sel_static_def sel_mov_eq wf_insts_append wf_inst_def)
    have "use_ok (so_region s) (D \<union> defs_list (movs @ [Mov (VVReg t r) (so_src s ! i)])) (in_types ins ! k) (so_src s ! k)"
      if "k < length (so_src s)" for k
      by (rule use_ok_grows [OF _ _ _ use [OF that], of _ "[]"]) auto
    moreover have "use_ok (so_region s) (D \<union> defs_list (movs @ [Mov (VVReg t r) (so_src s ! i)])) t (VVReg t r)"
      using d' by simp
    ultimately show "list_all2 (use_ok (so_region ?s') (D \<union> defs_list (movs @ [Mov (VVReg t r) (so_src s ! i)])))
        (in_types ins) (so_src ?s')"
      using i list_all2_lengthD [OF uses] by (auto simp: list_all2_conv_all_nth sel_mov_eq nth_list_update)
  qed (use grow st in \<open>simp_all add: sel_mov_eq sel_static_def\<close>)
  moreover have "sel_dyn N ins (movs @ [Mov (VVReg t r) (so_src s ! i)]) (so_src ?s')"
    unfolding sel_dyn_def
  proof (intro allI impI)
    fix vmem st st0
    assume "agree N {} st st0"
    with dyn obtain st2 where st2: "exec_insts vmem movs st0 = Some (QNext st2)" "agree N (defs_of ins) st st2"
      and ev: "\<And>k. k < length (inputs ins) \<Longrightarrow> eval_opr st2 (so_src s ! k) = eval_opr st (inputs ins ! k)"
      unfolding sel_dyn_def by blast
    obtain v where v: "eval_opr st2 (so_src s ! i) = Some v" using use_ok_eval [OF use [OF i(1)]] by blast
    have "exec_insts vmem (movs @ [Mov (VVReg t r) (so_src s ! i)]) st0 = Some (QNext (set_vr st2 r v))"
      using st2 v by (simp add: exec_insts_append)
    moreover have "agree N (defs_of ins) st (set_vr st2 r v)"
      using st2(2) d(2) by (rule agree_set_in)
    moreover have "eval_opr (set_vr st2 r v) (so_src ?s' ! k) = eval_opr st (inputs ins ! k)"
      if k: "k < length (inputs ins)" for k
    proof (cases "k = i")
      case True
      then show ?thesis using ev [OF k] k len v by (simp add: set_vr_def)
    next
      case False
      then have "r \<notin> vreg_of (so_src s ! k)"
        using other [of k] k len by (cases "so_src s ! k") (auto simp: is_vgpr_def)
      then show ?thesis
        using False ev [OF k] k len eval_set_other [OF _ use [of k], of r] by simp
    qed
    ultimately show "\<exists>st2. exec_insts vmem (movs @ [Mov (VVReg t r) (so_src s ! i)]) st0 = Some (QNext st2) \<and>
        agree N (defs_of ins) st st2 \<and>
        (\<forall>k < length (inputs ins). eval_opr st2 (so_src ?s' ! k) = eval_opr st (inputs ins ! k))"
      by blast
  qed
  ultimately show ?thesis
    unfolding sel_inv_def
    by (intro exI [of _ "movs @ [Mov (VVReg t r) (so_src s ! i)]"]) (simp add: sel_mov_eq pre)
qed

subsection \<open>The loops\<close>

lemmas ct_reg_simps = ct_reg_def

lemma alias_binop:
  assumes "op_info ins = Some (op_ct, ord)" "wf_inst rn D ins" "i < length (inputs ins)"
    "ct_has_alias (op_ct ! (length (outputs ins) + i))"
  obtains bop r a b where "ins = Binop bop (VVReg T_I32 r) a b" "i = 0"
    "ct_alias (op_ct ! (length (outputs ins) + i)) = 0"
proof (cases ins)
  case (Binop bop d a b)
  obtain r where d: "d = VVReg T_I32 r"
    using assms(2) by (auto simp: Binop wf_inst_def i32_vreg_def split: voperand.splits)
  have "i = 0 \<and> ct_alias (op_ct ! (length (outputs ins) + i)) = 0"
    using assms(1,3,4) by (cases bop; cases i) (auto simp: Binop CT_INFO_eval ct_reg_def)
  with that [of bop r a b] show ?thesis by (auto simp: Binop d)
qed (use assms in \<open>auto simp: CT_INFO_eval ct_reg_def less_Suc_eq numeral_2_eq_2\<close>)

lemma op_info_length: "op_info ins = Some (op_ct, ord) \<Longrightarrow> length op_ct = length (outputs ins) + length (inputs ins)"
proof (cases ins)
  case (Binop bop d a b)
  then show "op_info ins = Some (op_ct, ord) \<Longrightarrow> ?thesis" by (cases bop) (auto simp: CT_INFO_eval)
qed (auto simp: CT_INFO_eval)

definition sel_loop_inv :: "nat \<Rightarrow> region \<Rightarrow> regn set \<Rightarrow> inst \<Rightarrow> inst list \<Rightarrow> nat \<Rightarrow> selop \<Rightarrow> bool" where
  "sel_loop_inv N rn D ins pre n s \<longleftrightarrow>
     sel_inv N rn D ins pre s \<and> length (so_src s) = length (inputs ins) \<and>
     NumAll (so_region s) \<le> NumAll rn + n"

lemma sel_alias_step:
  assumes inv: "sel_loop_inv N rn D ins pre i s" and oi: "op_info ins = Some (op_ct, ord)"
    and wf: "wf_inst rn D ins" and i: "i < length (inputs ins)" and N: "N \<le> NumAll rn"
    and g: "rn_globals rn = state_info" and b: "NumAll rn + i < 2 ^ 16"
  shows "\<exists>s'. sel_alias op_ct (outputs ins) i s = Inr s' \<and> sel_loop_inv N rn D ins pre (Suc i) s' \<and>
    alias_ok (op_ct ! (length (outputs ins) + i)) (outputs ins) (so_src s' ! i)"
proof (cases "ct_has_alias (op_ct ! (length (outputs ins) + i))")
  case False
  then show ?thesis using inv by (auto simp: sel_alias_def alias_ok_def sel_loop_inv_def)
next
  case has: True
  from alias_binop [OF oi wf i has] obtain bop r a c where ins: "ins = Binop bop (VVReg T_I32 r) a c"
    and i0: "i = 0" and al: "ct_alias (op_ct ! (length (outputs ins) + i)) = 0" by blast
  have inv': "sel_inv N rn D ins pre s" "length (so_src s) = length (inputs ins)"
    "NumAll (so_region s) \<le> NumAll rn" using inv i0 by (simp_all add: sel_loop_inv_def)
  have d: "def_ok rn (VVReg T_I32 r)" "r \<in> defs_of ins" using wf by (simp_all add: ins wf_inst_def)
  have tys: "k < length (inputs ins) \<Longrightarrow> in_types ins ! k = T_I32" for k
    by (auto simp: ins less_Suc_eq numeral_2_eq_2)
  obtain movs where uses: "list_all2 (use_ok (so_region s) (D \<union> defs_list movs)) (in_types ins) (so_src s)"
    using inv'(1) by (auto simp: sel_inv_def sel_static_def)
  have src: "is_vgpr r (so_src s ! k) \<longleftrightarrow> so_src s ! k = VVReg T_I32 r" if "k < length (inputs ins)" for k
    using use_okD [OF uses, of k] tys that inv'(2) by (cases "so_src s ! k") (auto simp: is_vgpr_def)
  show ?thesis
  proof (cases "is_vgpr r (so_src s ! i)")
    case True
    then show ?thesis using inv src [OF i] al has
      by (auto simp: sel_alias_def alias_ok_def sel_loop_inv_def ins)
  next
    case False
    define other where "other = (\<lambda>k. k \<noteq> i \<and> is_vgpr r (so_src s ! k))"
    define s1 where "s1 = (if list_ex other [0 ..< length (so_src s)] then
        (sel_mov (fst (sel_temp T_I32 s)) (VVReg T_I32 r) (snd (sel_temp T_I32 s)))\<lparr>so_src :=
           map (\<lambda>k. if other k then fst (sel_temp T_I32 s) else so_src s ! k) [0 ..< length (so_src s)]\<rparr>
        else s)"
    have s1: "sel_inv N rn D ins pre s1 \<and> length (so_src s1) = length (inputs ins) \<and>
        NumAll (so_region s1) \<le> NumAll rn + 1 \<and> so_src s1 ! i = so_src s ! i \<and>
        (\<forall>k < length (inputs ins). k \<noteq> i \<longrightarrow> \<not> is_vgpr r (so_src s1 ! k))"
    proof (cases "list_ex other [0 ..< length (so_src s)]")
      case True
      then obtain k0 where k0: "k0 < length (so_src s)" "other k0" by (auto simp: list_ex_iff)
      have b': "NumAll (so_region s) < 2 ^ 16" using inv'(3) b i0 by simp
      have ot: "so_src s ! k = VVReg T_I32 r" if "k < length (so_src s)" "other k" for k
        using that src [of k] inv'(2) by (auto simp: other_def)
      have "sel_inv N rn D ins pre s1"
        unfolding s1_def if_P [OF True]
        by (rule sel_inv_temp [OF inv'(1) N g b' inv'(2), of other _ k0]) (use ot k0 tys inv'(2) in simp_all)
      moreover have "fst (sel_temp T_I32 s) = VVReg T_I32 (of_nat (NumAll (so_region s)))"
        by (simp add: sel_temp_def split_beta Let_def)
      moreover have "r \<noteq> of_nat (NumAll (so_region s))"
      proof -
        have gs: "rn_grows rn (so_region s)" using inv'(1) by (auto simp: sel_inv_def sel_static_def)
        then have g': "rn_globals (so_region s) = state_info" by (simp add: g rn_grows_def)
        have "vreg_type (so_region s) r = Some T_I32"
          using gs d(1) vreg_type_grows [of "so_region s" rn _ r] by (auto simp: rn_grows_def)
        then show ?thesis by (rule fresh_local(4) [OF b' g'])
      qed
      ultimately show ?thesis
        using True inv'(2,3) i by (auto simp: s1_def sel_mov_eq sel_temp_def Let_def split_beta other_def is_vgpr_def)
    next
      case False
      then have "\<forall>k < length (inputs ins). k \<noteq> i \<longrightarrow> \<not> is_vgpr r (so_src s ! k)"
        using inv'(2) by (auto simp: list_ex_iff other_def)
      then show ?thesis using False inv' by (simp add: s1_def)
    qed
    define s2 where "s2 = (sel_mov (VVReg T_I32 r) (so_src s1 ! i) s1)\<lparr>so_src := (so_src s1)[i := VVReg T_I32 r]\<rparr>"
    have "sel_inv N rn D ins pre s2"
      unfolding s2_def using s1 i tys d by (intro sel_inv_alias) auto
    moreover have "sel_alias op_ct (outputs ins) i s = Inr s2"
      using False has al
      by (simp add: sel_alias_def ins s2_def s1_def other_def Let_def split_beta sel_mov_eq)
    ultimately show ?thesis
      using s1 i i0 al by (auto simp: sel_loop_inv_def s2_def sel_mov_eq alias_ok_def ins)
  qed
qed

lemma sel_lower_step:
  assumes inv: "sel_loop_inv N rn D ins pre n s" and i: "i < length (inputs ins)" and N: "N \<le> NumAll rn"
    and g: "rn_globals rn = state_info" and b: "NumAll rn + n < 2 ^ 16"
  shows "\<exists>s'. sel_lower op_ct dn i s = Inr s' \<and> sel_loop_inv N rn D ins pre (Suc n) s' \<and>
    imm_ok (op_ct ! (dn + i)) (so_src s' ! i) \<and> (\<forall>k. k \<noteq> i \<longrightarrow> so_src s' ! k = so_src s ! k) \<and>
    (is_const (so_src s ! i) \<or> so_src s' ! i = so_src s ! i)"
proof -
  have inv': "sel_inv N rn D ins pre s" "length (so_src s) = length (inputs ins)"
    "NumAll (so_region s) < 2 ^ 16" using inv b by (simp_all add: sel_loop_inv_def)
  show ?thesis
  proof (cases "\<exists>t c. so_src s ! i = VConst t c \<and> \<not> imm_ok (op_ct ! (dn + i)) (VConst t c)")
    case True
    then obtain t c where c: "so_src s ! i = VConst t c" "\<not> imm_ok (op_ct ! (dn + i)) (VConst t c)" by blast
    obtain movs where uses: "list_all2 (use_ok (so_region s) (D \<union> defs_list movs)) (in_types ins) (so_src s)"
      using inv'(1) by (auto simp: sel_inv_def sel_static_def)
    have t: "in_types ins ! i = t" using use_okD [OF uses, of i] c(1) i inv'(2) by simp
    have upd: "map (\<lambda>k. if k = i then x else so_src s ! k) [0 ..< length (inputs ins)] = (so_src s)[i := x]" for x
      by (rule nth_equalityI) (auto simp: nth_list_update inv'(2))
    have "sel_inv N rn D ins pre ((sel_mov (fst (sel_temp t s)) (VConst t c) (snd (sel_temp t s)))\<lparr>so_src :=
        (so_src s)[i := fst (sel_temp t s)]\<rparr>)"
      using sel_inv_temp [OF inv'(1) N g inv'(3,2), of "\<lambda>k. k = i" "VConst t c" i t] c(1) i inv'(2) t
      by (simp add: upd)
    with c inv i show ?thesis
      by (auto simp: sel_lower_def imm_ok_def sel_temp_def split_beta Let_def sel_mov_eq sel_loop_inv_def
          is_const_def)
  next
    case False
    then have "sel_lower op_ct dn i s = Inr s"
      using match_gp_const_simps(2)
      by (cases "so_src s ! i") (auto simp: sel_lower_def imm_ok_def Let_def)
    moreover have "imm_ok (op_ct ! (dn + i)) (so_src s ! i)"
      using False by (cases "so_src s ! i") (auto simp: imm_ok_def)
    ultimately show ?thesis using inv by (auto simp: sel_loop_inv_def)
  qed
qed

lemma SelectOperands_inv:
  assumes oi: "op_info ins = Some (op_ct, ord)" and wf: "wf_inst rn D ins" and N: "N \<le> NumAll rn"
    and small: "\<forall>x \<in> set (inputs ins). \<forall>r \<in> vreg_of x. unat r < N"
    and g: "rn_globals rn = state_info" and b: "NumAll rn + 4 \<le> 2 ^ 16"
  obtains s where "SelectOperands ins rn pre = Inr (so_region s, so_pre s, set_inputs ins (so_src s))"
    "sel_loop_inv N rn D ins pre 4 s"
    "\<And>k. k < length (inputs ins) \<Longrightarrow> alias_ok (op_ct ! (length (outputs ins) + k)) (outputs ins) (so_src s ! k)"
    "\<And>k. k < length (inputs ins) \<Longrightarrow> imm_ok (op_ct ! (length (outputs ins) + k)) (so_src s ! k)"
proof -
  let ?n = "length (inputs ins)"
  let ?al = "\<lambda>s k. alias_ok (op_ct ! (length (outputs ins) + k)) (outputs ins) (so_src s ! k)"
  let ?im = "\<lambda>s k. imm_ok (op_ct ! (length (outputs ins) + k)) (so_src s ! k)"
  have n: "?n \<le> 2" by (cases ins) simp_all
  define s0 where "s0 = \<lparr>so_region = rn, so_pre = pre, so_src = inputs ins\<rparr>"
  have "eval_opr st0 (inputs ins ! k) = eval_opr st (inputs ins ! k)" if "agree N {} st st0" "k < ?n" for st st0 k
  proof -
    have "use_ok rn D (in_types ins ! k) (inputs ins ! k)" using wf that(2) by (simp add: wf_inst_def use_okD)
    moreover have "\<forall>r \<in> vreg_of (inputs ins ! k). unat r < N" using small nth_mem [OF that(2)] by blast
    ultimately show ?thesis using that(1) by (cases "inputs ins ! k") (simp_all add: agree_def)
  qed
  then have "sel_dyn N ins [] (inputs ins)"
    unfolding sel_dyn_def by (simp add: agree_def)
  then have "sel_loop_inv N rn D ins pre 0 s0"
    using wf by (simp add: sel_loop_inv_def sel_inv_def sel_static_def s0_def wf_inst_def)
  then have "\<exists>s1. rfold (sel_alias op_ct (outputs ins)) [0 ..< ?n] s0 = Inr s1 \<and>
      (sel_loop_inv N rn D ins pre ?n s1 \<and> (\<forall>k < ?n. ?al s1 k))"
  proof (intro rfold_upt [where P = "\<lambda>i s. sel_loop_inv N rn D ins pre i s \<and> (\<forall>k < i. ?al s k)"])
    fix i s
    assume i: "i < ?n" and P: "sel_loop_inv N rn D ins pre i s \<and> (\<forall>k < i. ?al s k)"
    have "NumAll rn + i < 2 ^ 16" using b i n by simp
    with sel_alias_step [OF conjunct1 [OF P] oi wf i N g] obtain s' where
      s': "sel_alias op_ct (outputs ins) i s = Inr s'" "sel_loop_inv N rn D ins pre (Suc i) s'" "?al s' i" by blast
    have "?al s' k" if "k < i" for k
    proof (cases "ct_has_alias (op_ct ! (length (outputs ins) + i))")
      case True
      have "i = 0" by (rule alias_binop [OF oi wf i True])
      then show ?thesis using that by simp
    next
      case False
      then show ?thesis using s'(1) P that by (simp add: sel_alias_def)
    qed
    with s' show "\<exists>s'. sel_alias op_ct (outputs ins) i s = Inr s' \<and>
        (sel_loop_inv N rn D ins pre (Suc i) s' \<and> (\<forall>k < Suc i. ?al s' k))"
      by (auto simp: less_Suc_eq)
  qed simp
  then obtain s1 where s1: "rfold (sel_alias op_ct (outputs ins)) [0 ..< ?n] s0 = Inr s1"
    "sel_loop_inv N rn D ins pre ?n s1" "\<And>k. k < ?n \<Longrightarrow> ?al s1 k" by blast
  have "\<exists>s2. rfold (sel_lower op_ct (length (outputs ins))) [0 ..< ?n] s1 = Inr s2 \<and>
      (sel_loop_inv N rn D ins pre (?n + ?n) s2 \<and> (\<forall>k < ?n. ?al s2 k) \<and> (\<forall>k < ?n. ?im s2 k))"
  proof (intro rfold_upt [where P = "\<lambda>i s. sel_loop_inv N rn D ins pre (?n + i) s \<and>
      (\<forall>k < ?n. ?al s k) \<and> (\<forall>k < i. ?im s k)"])
    fix i s
    assume i: "i < ?n" and P: "sel_loop_inv N rn D ins pre (?n + i) s \<and>
      (\<forall>k < ?n. ?al s k) \<and> (\<forall>k < i. ?im s k)"
    have "NumAll rn + (?n + i) < 2 ^ 16" using b i n by simp
    with sel_lower_step [OF conjunct1 [OF P] i N g] obtain s' where
      s': "sel_lower op_ct (length (outputs ins)) i s = Inr s'" "sel_loop_inv N rn D ins pre (Suc (?n + i)) s'" "?im s' i"
      "\<And>k. k \<noteq> i \<Longrightarrow> so_src s' ! k = so_src s ! k" "is_const (so_src s ! i) \<or> so_src s' ! i = so_src s ! i" by blast
    have "\<not> ct_has_alias (op_ct ! (length (outputs ins) + i))" if "is_const (so_src s ! i)"
    proof
      assume has: "ct_has_alias (op_ct ! (length (outputs ins) + i))"
      obtain bop r a b where "ins = Binop bop (VVReg T_I32 r) a b"
        "ct_alias (op_ct ! (length (outputs ins) + i)) = 0" by (rule alias_binop [OF oi wf i has])
      moreover have "?al s i" using P i by blast
      ultimately show False using has that by (simp add: alias_ok_def is_const_def)
    qed
    then have "?al s' i" using s'(5) P i by (auto simp: alias_ok_def)
    then have "?al s' k" if "k < ?n" for k using P that s'(4) by (cases "k = i") auto
    moreover have "?im s' k" if "k < Suc i" for k using P that s'(3,4) by (cases "k = i") auto
    ultimately show "\<exists>s'. sel_lower op_ct (length (outputs ins)) i s = Inr s' \<and>
        (sel_loop_inv N rn D ins pre (?n + Suc i) s' \<and> (\<forall>k < ?n. ?al s' k) \<and> (\<forall>k < Suc i. ?im s' k))"
      using s' by auto
  qed (use s1 in simp)
  then obtain s2 where s2: "rfold (sel_lower op_ct (length (outputs ins))) [0 ..< ?n] s1 = Inr s2"
    "sel_loop_inv N rn D ins pre (?n + ?n) s2" "\<And>k. k < ?n \<Longrightarrow> ?al s2 k" "\<And>k. k < ?n \<Longrightarrow> ?im s2 k" by blast
  have "sel_loop_inv N rn D ins pre 4 s2" using s2(2) n by (simp add: sel_loop_inv_def)
  moreover have "SelectOperands ins rn pre = Inr (so_region s2, so_pre s2, set_inputs ins (so_src s2))"
    using s1(1) s2(1) oi by (simp add: SelectOperands_def s0_def)
  ultimately show thesis using that s2 by blast
qed

subsection \<open>One instruction\<close>

lemma inputs_set_inputs [simp]:
  "length xs = length (inputs ins) \<Longrightarrow> inputs (set_inputs ins xs) = xs"
  by (cases ins) (auto simp: length_Suc_conv numeral_2_eq_2)

lemma set_inputs_simps [simp]:
  "outputs (set_inputs ins xs) = outputs ins" "op_info (set_inputs ins xs) = op_info ins"
  "in_types (set_inputs ins xs) = in_types ins" "GetOpFlags (set_inputs ins xs) = GetOpFlags ins"
  "defs_of (set_inputs ins xs) = defs_of ins"
  by (cases ins; simp)+

lemma inst_shape_set_inputs: "op_info ins \<noteq> None \<Longrightarrow> inst_shape ins \<Longrightarrow> inst_shape (set_inputs ins xs)"
  by (cases ins) auto

lemma agree_write:
  assumes "agree N (vreg_of d) st st2" "def_ok rn d" "write_opr st d v = Some st'"
  shows "\<exists>st2'. write_opr st2 d v = Some st2' \<and> agree N {} st' st2'"
  using assms by (cases d) (auto simp: agree_def set_vr_def)

lemma exec_set_inputs:
  assumes ag: "agree N (defs_of ins) st st2" and oi: "op_info ins \<noteq> None"
    and wf: "list_all (def_ok rn) (outputs ins)" and len: "length src = length (inputs ins)"
    and ev: "\<And>k. k < length (inputs ins) \<Longrightarrow> eval_opr st2 (src ! k) = eval_opr st (inputs ins ! k)"
    and ex: "exec_inst vmem ins st = Some r"
  shows "\<exists>r'. exec_inst vmem (set_inputs ins src) st2 = Some r' \<and> res_agree N r r'"
proof -
  have ev': "list_all2 (\<lambda>x y. eval_opr st2 x = eval_opr st y) src (inputs ins)"
    using ev len by (simp add: list_all2_conv_all_nth)
  have q: "q_mem st2 = q_mem st" "q_trap st2 = q_trap st" using ag by (simp_all add: agree_def)
  have mem: "agree N {} (st\<lparr>q_mem := m\<rparr>) (st2\<lparr>q_mem := m\<rparr>)" if "defs_of ins = {}" for m
    using ag that by (simp add: agree_def)
  have wr: "\<exists>r'. (\<exists>y. write_opr st2 d v = Some y \<and> QNext y = r') \<and> res_agree N (QNext st') r'"
    if "defs_of ins = vreg_of d" "def_ok rn d" "write_opr st d v = Some st'" for d v st'
    using agree_write [of N d st st2 rn v st'] ag that by auto
  show ?thesis
  proof (cases ins)
    case (Brcc cc a b)
    then show ?thesis using ag ev' ex by (auto simp: list_all2_Cons2 split: Option.bind_splits)
  qed (use ag oi wf ev' ex q in \<open>auto simp: list_all2_Cons2 bind_eq_Some_conv intro!: wr mem [simplified]\<close>)
qed

lemma agree_cpu_of: "agree N {} st st0 \<Longrightarrow> 32 \<le> N \<Longrightarrow> cpu_of st0 = cpu_of st"
proof -
  assume ag: "agree N {} st st0" and N: "32 \<le> N"
  have "unat (gvr r) < N" if "r \<noteq> 0" "\<not> 32 \<le> r" for r
    using gvr_less [of r] that N by (simp add: word_less_nat_alt word_le_nat_alt)
  moreover have "unat (31 :: regn) < N" using N by simp
  ultimately show ?thesis using ag unfolding cpu_of_def agree_def by (auto simp: fun_eq_iff)
qed

definition sel_sim :: "nat \<Rightarrow> inst list \<Rightarrow> inst list \<Rightarrow> bool" where
  "sel_sim N is is' \<longleftrightarrow>
     (\<forall>vmem st st0 r. agree N {} st st0 \<longrightarrow> exec_insts vmem is st = Some r \<longrightarrow>
        (\<exists>r'. exec_insts vmem is' st0 = Some r' \<and> res_agree N r r'))"

lemma exec_insts_single: "exec_insts vmem [i] st = exec_inst vmem i st"
  by (auto split: Option.bind_splits qres.splits)

lemma sel_visit_spec:
  assumes wf: "wf_inst rn D ins" and N: "32 \<le> N" "N \<le> NumAll rn"
    and small: "\<forall>x \<in> set (inputs ins). \<forall>r \<in> vreg_of x. unat r < N"
    and g: "rn_globals rn = state_info" and b: "NumAll rn + 4 \<le> 2 ^ 16"
  obtains rn' movs ins' where "sel_visit ins rn pre = Inr (rn', pre @ movs, ins')" "rn_grows rn rn'"
    "NumAll rn' \<le> NumAll rn + 4" "wf_insts rn' D (movs @ [ins'])" "list_all ct_ok (movs @ [ins'])"
    "defs_of ins' = defs_of ins" "GetOpFlags ins' = GetOpFlags ins" "sel_sim N [ins] (movs @ [ins'])"
proof (cases "op_info ins")
  case None
  then have v: "sel_visit ins rn pre = Inr (rn, pre @ [], ins)"
    by (cases ins) (simp_all add: sel_visit_def)
  have "\<exists>r'. exec_inst vmem ins st0 = Some r' \<and> res_agree N r r'"
    if ag: "agree N {} st st0" and ex: "exec_inst vmem ins st = Some r" for vmem st st0 r
  proof (cases ins)
    case (Hcall sid a)
    obtain c where "a = VConst T_I32 c" using wf use_ok_const [of a rn D T_I32] by (auto simp: Hcall wf_inst_def)
    moreover have "agree N {} (put_cpu st s m) (put_cpu st0 s m)" for s m
      using ag by (auto simp: agree_def put_cpu_def)
    moreover have "q_mem st0 = q_mem st" using ag by (simp add: agree_def)
    moreover obtain op where "stub_op sid = Some op" using wf by (auto simp: Hcall wf_inst_def)
    ultimately show ?thesis using ex agree_cpu_of [OF ag N(1)]
      by (cases "qcgstub_rv32 op vmem (cpu_of st) (q_mem st) c") (auto simp: Hcall)
  qed (use None wf that in \<open>auto simp: wf_inst_def is_const_def split: voperand.splits\<close>)
  then have "sel_sim N [ins] [ins]" unfolding sel_sim_def exec_insts_single by blast
  with that [of rn "[]" ins] v None wf show thesis by (simp add: ct_ok_def)
next
  case (Some oc)
  then obtain op_ct ord where oi: "op_info ins = Some (op_ct, ord)" by (cases oc) auto
  obtain s where so: "SelectOperands ins rn pre = Inr (so_region s, so_pre s, set_inputs ins (so_src s))"
    and inv: "sel_loop_inv N rn D ins pre 4 s"
    and al: "\<And>k. k < length (inputs ins) \<Longrightarrow> alias_ok (op_ct ! (length (outputs ins) + k)) (outputs ins) (so_src s ! k)"
    and im: "\<And>k. k < length (inputs ins) \<Longrightarrow> imm_ok (op_ct ! (length (outputs ins) + k)) (so_src s ! k)"
    using SelectOperands_inv [OF oi wf N(2) small g b] by blast
  obtain movs where pre: "so_pre s = pre @ movs" and st: "sel_static rn D ins movs s"
    and dyn: "sel_dyn N ins movs (so_src s)" and len: "length (so_src s) = length (inputs ins)"
    using inv by (auto simp: sel_loop_inv_def sel_inv_def)
  have v: "sel_visit ins rn pre = Inr (so_region s, pre @ movs, set_inputs ins (so_src s))"
    using so oi pre by (cases ins) (simp_all add: sel_visit_def)
  have outs: "list_all (def_ok (so_region s)) (outputs ins)"
    using wf st def_ok_grows [of "so_region s" rn]
    by (auto simp: wf_inst_def sel_static_def rn_grows_def list_all_iff)
  have "wf_insts (so_region s) D (movs @ [set_inputs ins (so_src s)])"
    using st len outs wf inst_shape_set_inputs [of ins] oi
    by (simp add: sel_static_def wf_insts_append wf_inst_def)
  moreover have "ct_ok (set_inputs ins (so_src s))"
    using al im len op_info_length [OF oi] by (simp add: ct_ok_def oi list_all2_conv_all_nth)
  then have "list_all ct_ok (movs @ [set_inputs ins (so_src s)])" using st by (simp add: sel_static_def)
  moreover have "sel_sim N [ins] (movs @ [set_inputs ins (so_src s)])"
    unfolding sel_sim_def exec_insts_single
  proof (intro allI impI)
    fix vmem st st0 r
    assume "agree N {} st st0" and ex: "exec_inst vmem ins st = Some r"
    with dyn obtain st2 where st2: "exec_insts vmem movs st0 = Some (QNext st2)" "agree N (defs_of ins) st st2"
      and ev: "\<And>k. k < length (inputs ins) \<Longrightarrow> eval_opr st2 (so_src s ! k) = eval_opr st (inputs ins ! k)"
      unfolding sel_dyn_def by blast
    have "\<exists>r'. exec_inst vmem (set_inputs ins (so_src s)) st2 = Some r' \<and> res_agree N r r'"
      by (rule exec_set_inputs [OF st2(2) _ outs len ev ex]) (simp_all add: oi)
    with st2(1) show "\<exists>r'. exec_insts vmem (movs @ [set_inputs ins (so_src s)]) st0 = Some r' \<and> res_agree N r r'"
      by (auto simp: exec_insts_append exec_insts_single simp del: exec_insts.simps)
  qed
  ultimately show thesis
    using that [OF v] st inv by (simp add: sel_static_def sel_loop_inv_def)
qed

subsection \<open>Blocks and regions\<close>

lemma sel_sim_append:
  assumes "sel_sim N [i] is1" "sel_sim N is is2"
  shows "sel_sim N (i # is) (is1 @ is2)"
  unfolding sel_sim_def
proof (intro allI impI)
  fix vmem st st0 r
  assume ag: "agree N {} st st0" and ex: "exec_insts vmem (i # is) st = Some r"
  then obtain r1 where r1: "exec_inst vmem i st = Some r1"
    and rest: "(case r1 of QNext st' \<Rightarrow> exec_insts vmem is st' | _ \<Rightarrow> Some r1) = Some r"
    by (auto simp: bind_eq_Some_conv)
  then obtain r1' where r1': "exec_insts vmem is1 st0 = Some r1'" "res_agree N r1 r1'"
    using assms(1) ag unfolding sel_sim_def exec_insts_single by blast
  show "\<exists>r'. exec_insts vmem (is1 @ is2) st0 = Some r' \<and> res_agree N r r'"
  proof (cases r1)
    case (QNext st')
    with r1' obtain st0' where "r1' = QNext st0'" "agree N {} st' st0'" by (cases r1') auto
    with rest QNext r1'(1) assms(2) show ?thesis by (auto simp: exec_insts_append sel_sim_def)
  qed (use r1' rest in \<open>cases r1'; auto simp: exec_insts_append\<close>)+
qed

lemma wf_inst_small:
  "wf_inst rn D i \<Longrightarrow> x \<in> set (inputs i) \<Longrightarrow> r \<in> vreg_of x \<Longrightarrow> unat r < NumAll rn"
proof -
  assume wf: "wf_inst rn D i" and x: "x \<in> set (inputs i)" and r: "r \<in> vreg_of x"
  from wf x obtain t where "use_ok rn D t x"
    by (auto simp: wf_inst_def list_all2_conv_all_nth in_set_conv_nth)
  from use_ok_vreg [OF this r] show ?thesis
    by (auto simp: vreg_type_def IsGlobal_def NumAll_def split: if_splits)
qed

lemma rn_grows_num: "rn_grows rn rn' \<Longrightarrow> NumAll rn \<le> NumAll rn'"
  by (auto simp: rn_grows_def NumAll_def)

definition has_call :: "inst list \<Rightarrow> bool" where
  "has_call is \<longleftrightarrow> list_ex (\<lambda>i. GetOpFlags i AND HAS_CALLS \<noteq> 0) is"

lemma sel_insts_spec:
  assumes "wf_insts rn D is" "rn_grows rn0 rn" "wf_insts rn0 D0 is" "rn_globals rn0 = state_info"
    "NumAll rn + 4 * length is \<le> 2 ^ 16"
  shows "\<exists>rn' is'. rfold sel_step is (rn, pre, calls) = Inr (rn', pre @ is', calls \<or> has_call is) \<and>
    rn_grows rn rn' \<and> NumAll rn' \<le> NumAll rn + 4 * length is \<and> wf_insts rn' D is' \<and>
    list_all ct_ok is' \<and> sel_sim (NumAll rn0) is is'"
  using assms
proof (induction "is" arbitrary: rn D D0 pre calls)
  case Nil
  then show ?case by (auto simp: has_call_def sel_sim_def)
next
  case (Cons i "is")
  let ?N = "NumAll rn0"
  have g: "rn_globals rn = state_info" and wf: "wf_inst rn D i"
    using Cons.prems by (simp_all add: rn_grows_def)
  have N: "32 \<le> ?N" "?N \<le> NumAll rn" "NumAll rn + 4 \<le> 2 ^ 16"
    using Cons.prems rn_grows_num [of rn0 rn] by (simp_all add: NumAll_def)
  have small: "\<forall>x \<in> set (inputs i). \<forall>r \<in> vreg_of x. unat r < ?N"
    using wf_inst_small [of rn0 D0 i] Cons.prems(3) by auto
  obtain rn1 movs i' where v: "sel_visit i rn pre = Inr (rn1, pre @ movs, i')" and gr: "rn_grows rn rn1"
    and num: "NumAll rn1 \<le> NumAll rn + 4" and wf1: "wf_insts rn1 D (movs @ [i'])" and ct: "list_all ct_ok (movs @ [i'])"
    and df: "defs_of i' = defs_of i" and fl: "GetOpFlags i' = GetOpFlags i" and sim: "sel_sim ?N [i] (movs @ [i'])"
    using sel_visit_spec [OF wf N(1,2) small g N(3)] by blast
  have ls: "rn_globals rn1 = rn_globals rn" "\<exists>l. rn_locals rn1 = rn_locals rn @ l"
    using gr by (auto simp: rn_grows_def)
  then obtain l where l: "rn_locals rn1 = rn_locals rn @ l" by blast
  have "wf_insts rn1 (D \<union> defs_list (movs @ [i'])) is"
    by (rule wf_insts_grows [OF ls(1) l, of "D \<union> defs_of i"]) (use Cons.prems(1) df in auto)
  moreover have "rn_grows rn0 rn1" using Cons.prems(2) gr by (rule rn_grows_trans)
  moreover have "wf_insts rn0 (D0 \<union> defs_of i) is" using Cons.prems(3) by simp
  moreover have "NumAll rn1 + 4 * length is \<le> 2 ^ 16" using Cons.prems(5) num by simp
  ultimately obtain rn2 is2 where
    r2: "rfold sel_step is (rn1, (pre @ movs) @ [i'], calls \<or> GetOpFlags i' AND HAS_CALLS \<noteq> 0) =
      Inr (rn2, ((pre @ movs) @ [i']) @ is2, (calls \<or> GetOpFlags i' AND HAS_CALLS \<noteq> 0) \<or> has_call is)"
    and 2: "rn_grows rn1 rn2" "NumAll rn2 \<le> NumAll rn1 + 4 * length is"
      "wf_insts rn2 (D \<union> defs_list (movs @ [i'])) is2" "list_all ct_ok is2" "sel_sim ?N is is2"
    using Cons.IH [of rn1 "D \<union> defs_list (movs @ [i'])" "D0 \<union> defs_of i"] Cons.prems(4) by blast
  have "rfold sel_step (i # is) (rn, pre, calls) = Inr (rn2, pre @ (movs @ i' # is2), calls \<or> has_call (i # is))"
    using r2 v fl by (simp add: sel_step_def has_call_def disj_assoc)
  moreover have "wf_insts rn2 D (movs @ i' # is2)"
    using 2(1,3) wf1 wf_insts_grows [of rn2 rn1 _ D D "movs @ [i']"]
    by (auto simp: rn_grows_def wf_insts_append Un_assoc)
  moreover have "sel_sim ?N (i # is) (movs @ i' # is2)"
    using sel_sim_append [OF sim 2(5)] by simp
  ultimately show ?case
    using 2 gr num ct by (intro exI [of _ rn2] exI [of _ "movs @ i' # is2"]) (auto intro: rn_grows_trans)
qed

definition num_insts :: "region \<Rightarrow> nat" where
  "num_insts rn = sum_list (map (length \<circ> bb_ilist) (rn_blocks rn))"

abbreviation insts_at :: "region \<Rightarrow> nat \<Rightarrow> inst list" where
  "insts_at rn b \<equiv> bb_ilist (rn_blocks rn ! b)"

abbreviation succs_at :: "region \<Rightarrow> nat \<Rightarrow> nat list" where
  "succs_at rn b \<equiv> bb_succs (rn_blocks rn ! b)"

subsection \<open>Shape of the blocks\<close>

text \<open>Selection adds moves in front of instructions, which stay what they are.\<close>

definition movs_only :: "inst list \<Rightarrow> inst list \<Rightarrow> bool" where
  "movs_only pre pre' \<longleftrightarrow> (\<exists>ms. pre' = pre @ ms \<and> list_all (\<lambda>i. \<exists>d s. i = Mov d s) ms)"

lemma movs_only_refl [simp]: "movs_only pre pre"
  by (simp add: movs_only_def)

lemma movs_only_snoc: "movs_only pre pre' \<Longrightarrow> movs_only pre (pre' @ [Mov d s])"
  by (auto simp: movs_only_def)

lemma sel_alias_movs: "sel_alias op_ct dstl i s = Inr s' \<Longrightarrow> movs_only pre (so_pre s) \<Longrightarrow> movs_only pre (so_pre s')"
  by (auto simp: sel_alias_def sel_mov_eq sel_temp_def Let_def split_beta
      simp del: append_assoc intro!: movs_only_snoc split: if_splits voperand.splits)

lemma sel_lower_movs: "sel_lower op_ct n i s = Inr s' \<Longrightarrow> movs_only pre (so_pre s) \<Longrightarrow> movs_only pre (so_pre s')"
  by (auto simp: sel_lower_def sel_mov_eq sel_temp_def Let_def split_beta intro: movs_only_snoc
      split: if_splits voperand.splits)

lemma set_inputs_term [simp]: "is_term (set_inputs i xs) = is_term i" "is_hcall (set_inputs i xs) = is_hcall i"
    "nsucc (set_inputs i xs) = nsucc i"
  by (cases i; simp)+

lemma sel_visit_movs:
  assumes "sel_visit ins rn pre = Inr (rn', pre', ins')"
  shows "movs_only pre pre' \<and> is_term ins' = is_term ins \<and> is_hcall ins' = is_hcall ins \<and> nsucc ins' = nsucc ins"
proof (cases "op_info ins")
  case None
  then show ?thesis using assms by (cases ins) (auto simp: sel_visit_def)
next
  case (Some ct)
  obtain op_ct ord where ct: "ct = (op_ct, ord)" by fastforce
  let ?ks = "[0 ..< length (inputs ins)]"
  have "SelectOperands ins rn pre = Inr (rn', pre', ins')" using assms Some by (cases ins) (auto simp: sel_visit_def)
  then obtain s1 s2 where s: "rfold (sel_alias op_ct (outputs ins)) ?ks \<lparr>so_region = rn, so_pre = pre, so_src = inputs ins\<rparr> = Inr s1"
    "rfold (sel_lower op_ct (length (outputs ins))) ?ks s1 = Inr s2" "pre' = so_pre s2" "ins' = set_inputs ins (so_src s2)"
    using Some by (auto simp: SelectOperands_def ct Let_def)
  have "movs_only pre (so_pre s1)"
    by (rule rfold_invariant [OF s(1)]) (auto intro: sel_alias_movs)
  then have "movs_only pre (so_pre s2)"
    by (rule rfold_invariant [OF s(2), where P = "\<lambda>s. movs_only pre (so_pre s)"]) (auto intro: sel_lower_movs)
  then show ?thesis by (simp add: s(3,4))
qed

definition same_shape :: "inst list \<Rightarrow> inst list \<Rightarrow> bool" where
  "same_shape is is' \<longleftrightarrow>
     (is' = [] \<longleftrightarrow> is = []) \<and> (block_shape is \<longrightarrow> block_shape is') \<and>
     (list_ex is_hcall is' \<longleftrightarrow> list_ex is_hcall is) \<and>
     (\<forall>n. list_all (\<lambda>i. nsucc i \<le> n) is \<longrightarrow> list_all (\<lambda>i. nsucc i \<le> n) is')"

lemma block_shape_Cons:
  "block_shape (i # is) \<longleftrightarrow> (if is = [] then is_term i \<or> is_hcall i else \<not> is_term i \<and> block_shape is)"
  by (auto simp: block_shape_def)

lemma block_shape_movs:
  assumes "list_all (\<lambda>i. \<exists>d s. i = Mov d s) ms" "xs \<noteq> []"
  shows "block_shape (ms @ xs) \<longleftrightarrow> block_shape xs"
  using assms by (induction ms) (auto simp: block_shape_Cons)

lemma same_shape_Cons:
  assumes "list_all (\<lambda>i. \<exists>d s. i = Mov d s) ms" "is_term i' = is_term i" "is_hcall i' = is_hcall i" "nsucc i' = nsucc i"
    "same_shape is is'"
  shows "same_shape (i # is) (ms @ i' # is')"
proof -
  have "\<not> list_ex is_hcall ms" "list_all (\<lambda>i. nsucc i \<le> n) ms" for n using assms(1) by (induction ms) auto
  then show ?thesis using assms by (auto simp: same_shape_def block_shape_movs [OF assms(1)] block_shape_Cons)
qed

lemma sel_insts_shape:
  assumes "rfold sel_step is (rn, pre, c) = Inr (rn', pre', c')"
  shows "\<exists>is'. pre' = pre @ is' \<and> same_shape is is'"
  using assms
proof (induction "is" arbitrary: rn pre c)
  case (Cons i "is")
  obtain rn1 pre1 i' where v: "sel_visit i rn pre = Inr (rn1, pre1, i')"
    using Cons.prems by (auto simp: sel_step_def)
  obtain ms where ms: "pre1 = pre @ ms" "list_all (\<lambda>i. \<exists>d s. i = Mov d s) ms" and t: "is_term i' = is_term i" "is_hcall i' = is_hcall i" "nsucc i' = nsucc i"
    using sel_visit_movs [OF v] by (auto simp: movs_only_def)
  have "\<exists>c1. rfold sel_step is (rn1, pre1 @ [i'], c1) = Inr (rn', pre', c')"
    using Cons.prems by (auto simp: sel_step_def [of i] v)
  then obtain is2 where is2: "pre' = (pre1 @ [i']) @ is2" "same_shape is is2" using Cons.IH by blast
  have "same_shape (i # is) (ms @ i' # is2)" by (rule same_shape_Cons [OF ms(2) t is2(2)])
  then show ?case using is2(1) ms(1) by (intro exI [of _ "ms @ i' # is2"]) simp
qed (simp add: same_shape_def)

text \<open>What selection has done to the blocks before \<open>i\<close>.\<close>

definition sel_done :: "region \<Rightarrow> nat \<Rightarrow> region \<times> bool \<Rightarrow> bool" where
  "sel_done rn i st \<longleftrightarrow>
     (case st of (rn', calls) \<Rightarrow>
        rn_globals rn' = rn_globals rn \<and> (\<exists>ls. rn_locals rn' = rn_locals rn @ ls \<and> T_UNDEF \<notin> set ls) \<and>
        length (rn_blocks rn') = length (rn_blocks rn) \<and>
        NumAll rn' \<le> NumAll rn + 4 * sum_list (map (length \<circ> bb_ilist) (take i (rn_blocks rn))) \<and>
        (\<forall>k < length (rn_blocks rn). succs_at rn' k = succs_at rn k \<and>
           (if k < i then wf_insts rn' {} (insts_at rn' k) \<and> list_all ct_ok (insts_at rn' k) \<and>
              sel_sim (NumAll rn) (insts_at rn k) (insts_at rn' k) \<and> same_shape (insts_at rn k) (insts_at rn' k)
            else insts_at rn' k = insts_at rn k)) \<and>
        (calls \<longleftrightarrow> (\<exists>k < i. has_call (insts_at rn k))))"

lemma sum_take_le: "i < length (xs :: 'a list) \<Longrightarrow> sum_list (map f (take i xs)) + f (xs ! i) \<le> (sum_list (map f xs) :: nat)"
proof -
  assume i: "i < length xs"
  have "sum_list (map f xs) = sum_list (map f (take (Suc i) xs)) + sum_list (map f (drop (Suc i) xs))"
    by (metis append_take_drop_id map_append sum_list_append)
  with i show ?thesis by (simp add: take_Suc_conv_app_nth)
qed

lemma sel_block_step:
  assumes wf: "wf_region rn" and bound: "NumAll rn + 4 * num_insts rn \<le> 2 ^ 16"
    and i: "i < length (rn_blocks rn)" and inv: "sel_done rn i st"
  shows "\<exists>st'. sel_block i st = Inr st' \<and> sel_done rn (Suc i) st'"
proof -
  obtain rn1 calls where st: "st = (rn1, calls)" by fastforce
  note iv = inv [unfolded sel_done_def st prod.case]
  obtain ls where ls: "rn_locals rn1 = rn_locals rn @ ls" and lt: "T_UNDEF \<notin> set ls" using iv by blast
  have g: "rn_globals rn = state_info" "rn_globals rn1 = rn_globals rn" using wf iv by (simp_all add: wf_region_def)
  have len: "length (rn_blocks rn1) = length (rn_blocks rn)" using iv by simp
  have il: "insts_at rn1 i = insts_at rn i" using iv i by simp
  have wfi: "wf_insts rn {} (insts_at rn i)" using wf i by (simp add: wf_region_def)
  define rnb where "rnb = rn1\<lparr>rn_blocks := rn_blocks rn\<rparr>"
  have num: "NumAll rn1 + 4 * length (insts_at rn i) \<le> 2 ^ 16"
    using iv bound sum_take_le [OF i, of "length \<circ> bb_ilist"] by (simp add: num_insts_def)
  define rn0 where "rn0 = rn\<lparr>rn_blocks := rn_blocks rn1\<rparr>"
  have cong: "wf_insts rn0 D xs = wf_insts rn D xs" for D xs
    using wf_insts_grows [of rn0 rn "[]" D D xs] wf_insts_grows [of rn rn0 "[]" D D xs]
    by (auto simp: rn0_def)
  have gr0: "rn_grows rn0 rn1" "NumAll rn0 = NumAll rn" using g ls lt by (simp_all add: rn_grows_def rn0_def NumAll_def)
  have "\<exists>rn' is'. rfold sel_step (insts_at rn i) (rn1, [], calls) = Inr (rn', [] @ is', calls \<or> has_call (insts_at rn i)) \<and>
    rn_grows rn1 rn' \<and> NumAll rn' \<le> NumAll rn1 + 4 * length (insts_at rn i) \<and> wf_insts rn' {} is' \<and>
    list_all ct_ok is' \<and> sel_sim (NumAll rn0) (insts_at rn i) is'"
  proof (rule sel_insts_spec [OF _ gr0(1) _ _ num])
    show "wf_insts rn1 {} (insts_at rn i)" by (rule wf_insts_grows [OF g(2) ls _ wfi]) simp
    show "wf_insts rn0 {} (insts_at rn i)" using wfi by (simp add: cong)
    show "rn_globals rn0 = state_info" using g by (simp add: rn0_def)
  qed
  then obtain rn2 is2 where r2: "rfold sel_step (insts_at rn i) (rn1, [], calls) = Inr (rn2, is2, calls \<or> has_call (insts_at rn i))"
    and 2: "rn_grows rn1 rn2" "NumAll rn2 \<le> NumAll rn1 + 4 * length (insts_at rn i)" "wf_insts rn2 {} is2"
      "list_all ct_ok is2" "sel_sim (NumAll rn) (insts_at rn i) is2"
    using gr0(2) by auto
  have shp: "same_shape (insts_at rn i) is2" using sel_insts_shape [OF r2] by simp
  define rn3 where "rn3 = upd_block rn2 i (\<lambda>k. k\<lparr>bb_ilist := is2\<rparr>)"
  have b2: "rn_blocks rn2 = rn_blocks rn1" and g2: "rn_globals rn2 = rn_globals rn1"
    using 2(1) by (simp_all add: rn_grows_def)
  obtain l2 where l2: "rn_locals rn2 = rn_locals rn1 @ l2" "T_UNDEF \<notin> set l2" using 2(1) by (auto simp: rn_grows_def)
  have wf3: "wf_insts rn3 {} xs" if "wf_insts rn1 {} xs" for xs
    by (rule wf_insts_grows [of rn3 rn1 l2, OF _ _ _ that]) (simp_all add: rn3_def g2 l2(1))
  have wf3': "wf_insts rn3 {} is2"
    by (rule wf_insts_grows [of rn3 rn2 "[]", OF _ _ _ 2(3)]) (simp_all add: rn3_def)
  have n3: "NumAll rn3 = NumAll rn2" by (simp add: rn3_def NumAll_def)
  have blk: "k < length (rn_blocks rn) \<Longrightarrow> insts_at rn3 k = (if k = i then is2 else insts_at rn1 k) \<and>
      succs_at rn3 k = succs_at rn1 k" for k
    using i len by (simp add: rn3_def b2)
  have sumS: "sum_list (map (length \<circ> bb_ilist) (take (Suc i) (rn_blocks rn))) =
      sum_list (map (length \<circ> bb_ilist) (take i (rn_blocks rn))) + length (insts_at rn i)"
    using i by (simp add: take_Suc_conv_app_nth)
  have "sel_done rn (Suc i) (rn3, calls \<or> has_call (insts_at rn i))"
    unfolding sel_done_def prod.case sumS
  proof (intro conjI allI impI)
    show "rn_globals rn3 = rn_globals rn" "\<exists>ls. rn_locals rn3 = rn_locals rn @ ls \<and> T_UNDEF \<notin> set ls"
      "length (rn_blocks rn3) = length (rn_blocks rn)"
      using g g2 ls lt l2 len b2 by (simp_all add: rn3_def)
    show "NumAll rn3 \<le> NumAll rn + 4 * (sum_list (map (length \<circ> bb_ilist) (take i (rn_blocks rn))) + length (insts_at rn i))"
      using 2(2) iv by (simp add: n3)
    show "(calls \<or> has_call (insts_at rn i)) = (\<exists>k < Suc i. has_call (insts_at rn k))"
      using iv by (auto simp: less_Suc_eq)
  next
    fix k assume k: "k < length (rn_blocks rn)"
    show "succs_at rn3 k = succs_at rn k" using iv k blk by simp
    show "if k < Suc i then wf_insts rn3 {} (insts_at rn3 k) \<and> list_all ct_ok (insts_at rn3 k) \<and>
        sel_sim (NumAll rn) (insts_at rn k) (insts_at rn3 k) \<and> same_shape (insts_at rn k) (insts_at rn3 k) else insts_at rn3 k = insts_at rn k"
      using iv k blk [OF k] wf3 wf3' 2(4,5) shp by (auto simp: less_Suc_eq)
  qed
  moreover have "sel_block i st = Inr (rn3, calls \<or> has_call (insts_at rn i))"
    using r2 il by (simp add: sel_block_def st rn3_def)
  ultimately show ?thesis by blast
qed

lemma sel_region_sim:
  assumes dn: "sel_done rn (length (rn_blocks rn)) (rn', calls)"
    and "exec_region vmem fuel rn b st = Some r" "agree (NumAll rn) {} st st0"
  shows "\<exists>r'. exec_region vmem fuel rn' b st0 = Some r' \<and> res_agree (NumAll rn) r r'"
  using assms(2,3)
proof (induction fuel arbitrary: b st st0)
  case (Suc fuel)
  have b: "b < length (rn_blocks rn)" using Suc.prems(1) by (auto split: if_splits)
  then obtain r1 where r1: "exec_insts vmem (insts_at rn b) st = Some r1"
    using Suc.prems(1) by (auto simp: bind_eq_Some_conv)
  have blk: "length (rn_blocks rn') = length (rn_blocks rn)" "succs_at rn' b = succs_at rn b"
    "sel_sim (NumAll rn) (insts_at rn b) (insts_at rn' b)"
    using dn b by (simp_all add: sel_done_def)
  then obtain r1' where r1': "exec_insts vmem (insts_at rn' b) st0 = Some r1'" "res_agree (NumAll rn) r1 r1'"
    using Suc.prems(2) r1 unfolding sel_sim_def by blast
  show ?case
  proof (cases r1)
    case (QBr k st1)
    with r1'(2) obtain st1' where 1: "r1' = QBr k st1'" "agree (NumAll rn) {} st1 st1'" by (cases r1') auto
    have k: "k < length (succs_at rn b)" "exec_region vmem fuel rn (succs_at rn b ! k) st1 = Some r"
      using Suc.prems(1) b r1 QBr by (auto split: if_splits)
    from Suc.IH [OF k(2) 1(2)] show ?thesis using b blk r1'(1) 1(1) k(1) by simp
  qed (use Suc.prems(1) b r1 r1' blk in \<open>cases r1'; auto\<close>)+
qed simp

lemma sel_runs_on:
  assumes dn: "sel_done rn (length (rn_blocks rn)) (rn', calls)"
    and "runs_on vmem fuel rn b st" "agree (NumAll rn) {} st st0"
  shows "runs_on vmem fuel rn' b st0"
  using assms(2,3)
proof (induction fuel arbitrary: b st st0)
  case (Suc fuel)
  then obtain k st1 where b: "b < length (rn_blocks rn)" "exec_insts vmem (insts_at rn b) st = Some (QBr k st1)"
    and k: "k < length (succs_at rn b)" "runs_on vmem fuel rn (succs_at rn b ! k) st1"
    by (auto split: option.splits qres.splits)
  have blk: "length (rn_blocks rn') = length (rn_blocks rn)" "succs_at rn' b = succs_at rn b"
    "sel_sim (NumAll rn) (insts_at rn b) (insts_at rn' b)"
    using dn b by (simp_all add: sel_done_def)
  then obtain r1 where r1: "exec_insts vmem (insts_at rn' b) st0 = Some r1" "res_agree (NumAll rn) (QBr k st1) r1"
    using Suc.prems(2) b(2) unfolding sel_sim_def by blast
  then obtain st1' where "r1 = QBr k st1'" "agree (NumAll rn) {} st1 st1'" by (cases r1) auto
  with Suc.IH [OF k(2)] show ?case using b blk r1(1) k(1) by simp
qed simp

lemma QSel_Run_done:
  assumes "wf_region rn" "NumAll rn + 4 * num_insts rn \<le> 2 ^ 16"
  obtains rn' calls where "QSel_Run rn = Inr (rn', calls)" "sel_done rn (length (rn_blocks rn)) (rn', calls)"
proof -
  have "sel_done rn 0 (rn, False)" by (simp add: sel_done_def)
  then have "\<exists>st. QSel_Run rn = Inr st \<and> sel_done rn (length (rn_blocks rn)) st"
    unfolding QSel_Run_def by (intro rfold_upt [where P = "sel_done rn"] sel_block_step [OF assms])
  then show thesis using that by (metis surj_pair)
qed

lemma sel_done_wf:
  assumes d: "sel_done rn (length (rn_blocks rn)) (rn', calls)" and wf: "wf_region rn"
  shows "wf_region rn' \<and> (\<forall>k \<in> set (rn_blocks rn'). list_all ct_ok (bb_ilist k))"
proof -
  have "wf_insts rn' {} (bb_ilist k) \<and> list_all ct_ok (bb_ilist k)" if "k \<in> set (rn_blocks rn')" for k
    using d that by (auto simp: sel_done_def in_set_conv_nth)
  moreover have "rn_globals rn' = state_info" "T_UNDEF \<notin> set (rn_locals rn')"
    using d wf by (auto simp: sel_done_def wf_region_def)
  ultimately show ?thesis by (simp add: wf_region_def)
qed

lemma sel_done_shape:
  assumes "sel_done rn (length (rn_blocks rn)) (rn', calls)" "wf_blocks rn"
  shows "wf_blocks rn'"
proof -
  have "block_shape (insts_at rn' i)" if "i < length (rn_blocks rn')" for i
    using assms that by (simp add: sel_done_def wf_blocks_def same_shape_def)
  then show ?thesis unfolding wf_blocks_def by (metis in_set_conv_nth)
qed

lemma sel_done_calls:
  assumes "sel_done rn (length (rn_blocks rn)) (rn', calls)"
  shows "calls \<longleftrightarrow> (\<exists>k \<in> set (rn_blocks rn). has_call (bb_ilist k))"
proof -
  have "calls \<longleftrightarrow> (\<exists>k < length (rn_blocks rn). has_call (insts_at rn k))"
    using assms by (simp add: sel_done_def)
  then show ?thesis by (metis in_set_conv_nth)
qed

text \<open>
  C5. Instruction selection succeeds on every well-typed region whose registers can be numbered,
  gives a well-typed region in which every operand satisfies the constraints of the target
  description, reports exactly whether there are calls, and does not change what the region
  computes: executing the selected region ends in the same way, with the same memory and the same
  values in all registers the region had before.
\<close>

theorem select_correct:
  assumes "wf_region rn" "NumAll rn + 4 * num_insts rn \<le> 2 ^ 16"
  shows "\<exists>rn' calls. QSel_Run rn = Inr (rn', calls) \<and> wf_region rn' \<and>
    (\<forall>k \<in> set (rn_blocks rn'). list_all ct_ok (bb_ilist k)) \<and>
    (calls \<longleftrightarrow> (\<exists>k \<in> set (rn_blocks rn). has_call (bb_ilist k))) \<and>
    (\<forall>vmem fuel b st r. exec_region vmem fuel rn b st = Some r \<longrightarrow>
       (\<exists>r'. exec_region vmem fuel rn' b st = Some r' \<and> res_agree (NumAll rn) r r'))"
proof -
  obtain rn' calls where r: "QSel_Run rn = Inr (rn', calls)" and d: "sel_done rn (length (rn_blocks rn)) (rn', calls)"
    by (rule QSel_Run_done [OF assms])
  have "\<exists>r'. exec_region vmem fuel rn' b st = Some r' \<and> res_agree (NumAll rn) r r'"
    if "exec_region vmem fuel rn b st = Some r" for vmem fuel b st r
    by (rule sel_region_sim [OF d that]) (simp add: agree_def)
  then show ?thesis using r sel_done_wf [OF d assms(1)] sel_done_calls [OF d] by blast
qed

text \<open>\<open>sub x1, x2, x1\<close>: the second input is the output register, and has to be saved first.\<close>

definition sub_region :: "inst list \<Rightarrow> vtype list \<Rightarrow> region" where
  "sub_region is ls = \<lparr>rn_globals = state_info, rn_locals = ls,
     rn_blocks = [\<lparr>bb_ilist = is, bb_succs = [], bb_preds = []\<rparr>]\<rparr>"

definition sub_insts :: "inst list" where
  "sub_insts = [Binop B_sub (VVReg T_I32 0) (VVReg T_I32 1) (VVReg T_I32 0), GBr (VConst T_I32 0x1000)]"

definition sub_selected :: "inst list" where
  "sub_selected = [Mov (VVReg T_I32 32) (VVReg T_I32 0), Mov (VVReg T_I32 0) (VVReg T_I32 1),
     Binop B_sub (VVReg T_I32 0) (VVReg T_I32 0) (VVReg T_I32 32), GBr (VConst T_I32 0x1000)]"

lemma sub_wf: "wf_region (sub_region sub_insts [])"
  by (simp add: wf_region_def sub_region_def sub_insts_def wf_inst_def i32_vreg_def vreg_type_def IsGlobal_def
      is_const_def state_info_def GPR_START_def GPR_END_def nth_append)

lemma sub_select: "QSel_Run (sub_region sub_insts []) = Inr (sub_region sub_selected [T_I32], False)"
  by (simp add: QSel_Run_def sub_region_def sub_insts_def sub_selected_def sel_block_def sel_step_def
      sel_visit_def SelectOperands_def CT_INFO_eval ct_reg_def sel_alias_def is_vgpr_def sel_temp_def sel_mov_eq
      sel_lower_def AddLocal_def NumAll_def upt_rec HAS_CALLS_def REXIT_def upd_block_def)

theorem select_correct_witness:
  "wf_region (sub_region sub_insts []) \<and>
   QSel_Run (sub_region sub_insts []) = Inr (sub_region sub_selected [T_I32], False) \<and>
   list_all ct_ok sub_selected \<and>
   (\<exists>st'. exec_region 0 1 (sub_region sub_selected [T_I32]) 0
        \<lparr>q_vr = (\<lambda>r. if r = 0 then 3 else 10), q_mem = (\<lambda>_. 0), q_trap = TC_NONE\<rparr> = Some (QExit 0x1000 st') \<and>
      q_vr st' 0 = 7)"
proof -
  have n: "NumAll (sub_region sub_insts []) + 4 * num_insts (sub_region sub_insts []) \<le> 2 ^ 16"
    by (simp add: NumAll_def sub_region_def num_insts_def sub_insts_def)
  have "list_all ct_ok sub_selected"
    using select_correct [OF sub_wf n] by (simp add: sub_select) (simp add: sub_region_def)
  then show ?thesis
    by (simp add: sub_wf sub_select) (simp add: sub_region_def sub_selected_def set_vr_def)
qed

end
