(* ===== verification/Select_Cost.thy ===== *)
theory Select_Cost
  imports Select
begin

section \<open>Registers that instruction selection adds\<close>

text \<open>
  How many local registers \<open>QSel\<close> creates: one for an input that its output would overwrite, one for
  every constant that cannot be encoded. Constants are compared as zero-extended 64-bit numbers, so
  a negative immediate never fits a signed 32-bit field and always takes a register.
\<close>

subsection \<open>One instruction\<close>

definition big_imm :: "voperand \<Rightarrow> nat" where
  "big_imm x = (case x of VConst t c \<Rightarrow> if c < 0x80000000 then 0 else 1 | _ \<Rightarrow> 0)"

definition const_cost :: "voperand \<Rightarrow> nat" where
  "const_cost x = (case x of VConst t c \<Rightarrow> 1 | _ \<Rightarrow> 0)"

definition alias_cost :: "voperand \<Rightarrow> voperand \<Rightarrow> voperand \<Rightarrow> nat" where
  "alias_cost d a b = (case d of VVReg t r \<Rightarrow> if \<not> is_vgpr r a \<and> is_vgpr r b then 1 else 0 | _ \<Rightarrow> 0)"

primrec sel_cost :: "inst \<Rightarrow> nat" where
  "sel_cost (Hcall sid a) = 0" | "sel_cost Br = 0" | "sel_cost (GBr t) = 0" | "sel_cost (Mov d s) = 0"
| "sel_cost (VMLoad sz sg d p) = 0"
| "sel_cost (Brcc cc a b) = const_cost a + big_imm b"
| "sel_cost (GBrind a) = const_cost a"
| "sel_cost (VMStore sz sg p d) = const_cost d"
| "sel_cost (Setcc cc d a b) = const_cost a + big_imm b"
| "sel_cost (Binop bop d a b) =
     alias_cost d a b + (if bop \<in> {B_add, B_sub, B_or, B_xor} then big_imm b else 0)"


definition lower_cost :: "ra_op_ct \<Rightarrow> voperand \<Rightarrow> nat" where
  "lower_cost ct x = (if is_const x \<and> \<not> imm_ok ct x then 1 else 0)"

lemma sel_lower_num:
  assumes "sel_lower op_ct n i s = Inr s'"
  shows "NumAll (so_region s') \<le> NumAll (so_region s) + lower_cost (op_ct ! (n + i)) (so_src s ! i)"
    "k \<noteq> i \<Longrightarrow> so_src s' ! k = so_src s ! k"
  using assms match_gp_const_simps(2)
  by (cases "so_src s ! i"; auto simp: sel_lower_def lower_cost_def is_const_def imm_ok_def sel_temp_def sel_mov_eq
      Let_def split_beta split: if_splits)+

lemma lower_loop_num:
  assumes "rfold (sel_lower op_ct n) [0 ..< m] s = Inr s'"
  shows "NumAll (so_region s') \<le> NumAll (so_region s) + (\<Sum>i < m. lower_cost (op_ct ! (n + i)) (so_src s ! i)) \<and>
    (\<forall>k \<ge> m. so_src s' ! k = so_src s ! k)"
  using assms
proof (induction m arbitrary: s')
  case (Suc m)
  then obtain s1 where s1: "rfold (sel_lower op_ct n) [0 ..< m] s = Inr s1" "sel_lower op_ct n m s1 = Inr s'"
    by (auto simp: rfold_append)
  from Suc.IH [OF s1(1)] sel_lower_num [OF s1(2)] show ?case by fastforce
qed simp

lemma sel_alias_none: "\<not> ct_has_alias (op_ct ! (length dstl + i)) \<Longrightarrow> sel_alias op_ct dstl i s = Inr s"
  by (simp add: sel_alias_def Let_def)

lemma alias_loop_none:
  "(\<And>i. i < m \<Longrightarrow> \<not> ct_has_alias (op_ct ! (length dstl + i))) \<Longrightarrow> rfold (sel_alias op_ct dstl) [0 ..< m] s = Inr s"
  by (induction m) (simp_all add: rfold_append sel_alias_none)

lemma sel_alias_num:
  assumes "sel_alias op_ct [VVReg t r] 0 s = Inr s'" "ct_has_alias (op_ct ! 1)" "ct_alias (op_ct ! 1) = 0"
    and src: "so_src s = [a, b]"
  shows "NumAll (so_region s') = NumAll (so_region s) + alias_cost (VVReg t r) a b"
    "\<not> is_const (so_src s' ! 0)" "lower_cost ct (so_src s' ! 1) \<le> lower_cost ct b"
proof -
  have l: "length (so_src s) = 2" "[0 ..< 2] = [0, 1 :: nat]" using src by (simp_all add: upt_rec)
  have al: "ct_has_alias (op_ct ! Suc 0)" "ct_alias (op_ct ! Suc 0) = 0" using assms(2,3) by simp_all
  have c: "is_vgpr r x \<Longrightarrow> \<not> is_const x" for x by (cases x) (simp_all add: is_vgpr_def is_const_def)
  have nc: "\<not> is_const (VVReg t q)" for q by (simp add: is_const_def)
  have u: "[0 ..< Suc (Suc 0)] = [0, Suc 0]" by (simp add: upt_rec)
  have r1: "s' = s" if "is_vgpr r a" using assms(1) that by (simp add: sel_alias_def al src)
  have r2: "so_region s' = snd (AddLocal (so_region s) t) \<and> (\<exists>q. so_src s' = [VVReg t r, VVReg t q])"
    if "\<not> is_vgpr r a" "is_vgpr r b"
    using assms(1) that by (simp add: sel_alias_def al src u sel_mov_eq sel_temp_def split_beta) auto
  have r3: "so_region s' = so_region s \<and> so_src s' = [VVReg t r, b]" if "\<not> is_vgpr r a" "\<not> is_vgpr r b"
    using assms(1) that by (simp add: sel_alias_def al src u sel_mov_eq) auto
  show "NumAll (so_region s') = NumAll (so_region s) + alias_cost (VVReg t r) a b"
    using r1 r2 r3 by (cases "is_vgpr r a"; cases "is_vgpr r b"; simp add: alias_cost_def)
  show "\<not> is_const (so_src s' ! 0)"
    using r1 r2 r3 c nc by (cases "is_vgpr r a"; cases "is_vgpr r b"; auto simp: src)
  show "lower_cost ct (so_src s' ! 1) \<le> lower_cost ct b"
    using r1 r2 r3 nc by (cases "is_vgpr r a"; cases "is_vgpr r b"; auto simp: src lower_cost_def)
qed

lemma binop_ct_facts:
  assumes "binop_ct bop = (op_ct, ord)"
  shows "ct_has_alias (op_ct ! 1)" "ct_alias (op_ct ! 1) = 0" "\<not> ct_has_alias (op_ct ! 2)"
    "ct_ci (op_ct ! 2) = (if bop \<in> {B_add, B_sub, B_or, B_xor} then CI_S32 else if bop = B_and then CI_U32 else CI_ANY)"
  using assms by (cases bop; auto simp: CT_INFO_eval ct_reg_def)+

lemma lower_cost_ci:
  "lower_cost ct x = (if ct_ci ct = CI_S32 then big_imm x else if ct_ci ct = CI_NO then const_cost x else lower_cost ct x)"
  "ct_ci ct = CI_ANY \<Longrightarrow> lower_cost ct x = 0" "ct_ci ct = CI_U32 \<Longrightarrow> lower_cost ct x = 0"
  by (cases x; simp add: lower_cost_def is_const_def imm_ok_def big_imm_def const_cost_def match_gp_const_simps)+

lemma sel_cost_step:
  assumes "sel_visit ins rn pre = Inr (rn', pre', ins')"
  shows "NumAll rn' \<le> NumAll rn + sel_cost ins"
proof (cases "op_info ins")
  case None
  then show ?thesis using assms by (cases ins) (auto simp: sel_visit_def)
next
  case (Some ct)
  obtain op_ct ord where ct: "ct = (op_ct, ord)" by fastforce
  let ?ks = "[0 ..< length (inputs ins)]"
  define s0 where "s0 = \<lparr>so_region = rn, so_pre = pre, so_src = inputs ins\<rparr>"
  have "SelectOperands ins rn pre = Inr (rn', pre', ins')" using assms Some by (cases ins) (auto simp: sel_visit_def)
  then obtain s1 s2 where s: "rfold (sel_alias op_ct (outputs ins)) ?ks s0 = Inr s1"
    "rfold (sel_lower op_ct (length (outputs ins))) ?ks s1 = Inr s2" "rn' = so_region s2"
    using Some by (auto simp: SelectOperands_def ct Let_def s0_def)
  have low: "NumAll rn' \<le> NumAll (so_region s1) +
      (\<Sum>i < length (inputs ins). lower_cost (op_ct ! (length (outputs ins) + i)) (so_src s1 ! i))"
    using lower_loop_num [OF s(2)] s(3) by simp
  show ?thesis
  proof (cases "\<exists>bop d a b. ins = Binop bop d a b")
    case False
    have "\<not> ct_has_alias (op_ct ! (length (outputs ins) + i))" if "i < length (inputs ins)" for i
      using that False Some by (cases ins) (auto simp: ct CT_INFO_eval ct_reg_def less_Suc_eq)
    then have "s1 = s0" using s(1) alias_loop_none [of "length (inputs ins)" op_ct "outputs ins" s0] by simp
    then show ?thesis
      using low False Some
      by (cases ins) (auto simp: ct s0_def CT_INFO_eval ct_reg_def lower_cost_def imm_ok_def const_cost_def big_imm_def
          is_const_def match_gp_const_simps lessThan_Suc numeral_2_eq_2 split: voperand.splits if_splits)
  next
    case True
    then obtain bop d a b where ins: "ins = Binop bop d a b" by blast
    have oc: "binop_ct bop = (op_ct, ord)" using Some by (simp add: ins ct)
    note al = binop_ct_facts [OF oc]
    have ci: "lower_cost (op_ct ! 2) b \<le> (if bop \<in> {B_add, B_sub, B_or, B_xor} then big_imm b else 0)"
      using al(4) lower_cost_ci [of "op_ct ! 2" b] by (cases bop) (auto split: if_splits)
    have "sel_alias op_ct [d] 0 s0 = Inr s1"
      using s(1) al(3) by (auto simp: ins sel_alias_none numeral_2_eq_2 rfold_append)
    then show ?thesis
    proof (cases d)
      case (VVReg t r)
      have src: "so_src s0 = [a, b]" by (simp add: s0_def ins)
      have "sel_alias op_ct [VVReg t r] 0 s0 = Inr s1" using \<open>sel_alias op_ct [d] 0 s0 = Inr s1\<close> VVReg by simp
      note n = sel_alias_num [OF this al(1,2) src]
      have "lower_cost (op_ct ! 1) (so_src s1 ! 0) = 0" using n(2) by (simp add: lower_cost_def)
      moreover have "lower_cost (op_ct ! 2) (so_src s1 ! 1) \<le> lower_cost (op_ct ! 2) b" by (rule n(3))
      moreover have "NumAll rn' \<le> NumAll (so_region s1) + (lower_cost (op_ct ! 1) (so_src s1 ! 0) + lower_cost (op_ct ! 2) (so_src s1 ! 1))"
        using low by (simp add: ins numeral_2_eq_2 lessThan_Suc)
      moreover have "NumAll (so_region s1) = NumAll rn + alias_cost d a b" using n(1) by (simp add: s0_def VVReg)
      ultimately show ?thesis using ci by (simp add: ins)
    qed (use al in \<open>simp_all add: sel_alias_def Let_def\<close>)
  qed
qed

lemma sel_cost_le: "sel_cost ins \<le> 2"
  by (cases ins) (auto simp: const_cost_def big_imm_def alias_cost_def split: voperand.splits)

subsection \<open>Blocks and regions\<close>

definition list_cost :: "inst list \<Rightarrow> nat" where
  "list_cost is = sum_list (map sel_cost is)"

definition region_cost :: "region \<Rightarrow> nat" where
  "region_cost rn = sum_list (map (list_cost \<circ> bb_ilist) (rn_blocks rn))"

lemma list_cost_simps [simp]:
  "list_cost [] = 0" "list_cost (i # is) = sel_cost i + list_cost is" "list_cost (xs @ ys) = list_cost xs + list_cost ys"
  by (simp_all add: list_cost_def)

lemma sel_insts_cost:
  assumes "rfold sel_step is (rn, pre, c) = Inr (rn', pre', c')"
  shows "NumAll rn' \<le> NumAll rn + list_cost is"
  using assms
proof (induction "is" arbitrary: rn pre c)
  case (Cons i "is")
  obtain rn1 pre1 i' where v: "sel_visit i rn pre = Inr (rn1, pre1, i')"
    using Cons.prems by (auto simp: sel_step_def)
  have "\<exists>c1. rfold sel_step is (rn1, pre1 @ [i'], c1) = Inr (rn', pre', c')"
    using Cons.prems by (auto simp: sel_step_def [of i] v)
  then show ?case using Cons.IH sel_cost_step [OF v] by fastforce
qed simp

lemma sel_visit_blocks:
  assumes "sel_visit ins rn pre = Inr (rn', pre', ins')"
  shows "rn_blocks rn' = rn_blocks rn"
proof (cases "op_info ins")
  case None
  then show ?thesis using assms by (cases ins) (auto simp: sel_visit_def)
next
  case (Some ct)
  obtain op_ct ord where ct: "ct = (op_ct, ord)" by fastforce
  let ?ks = "[0 ..< length (inputs ins)]"
  have "SelectOperands ins rn pre = Inr (rn', pre', ins')" using assms Some by (cases ins) (auto simp: sel_visit_def)
  then obtain s1 s2 where s: "rfold (sel_alias op_ct (outputs ins)) ?ks \<lparr>so_region = rn, so_pre = pre, so_src = inputs ins\<rparr> = Inr s1"
    "rfold (sel_lower op_ct (length (outputs ins))) ?ks s1 = Inr s2" "rn' = so_region s2"
    using Some by (auto simp: SelectOperands_def ct Let_def)
  have "rn_blocks (so_region s1) = rn_blocks rn"
    by (rule rfold_invariant [OF s(1)])
      (auto simp: sel_alias_def sel_mov_eq sel_temp_def Let_def split_beta split: if_splits voperand.splits)
  then show ?thesis unfolding s(3)
    by (rule rfold_invariant [OF s(2), where P = "\<lambda>s. rn_blocks (so_region s) = rn_blocks rn"])
      (auto simp: sel_lower_def sel_mov_eq sel_temp_def Let_def split_beta split: if_splits voperand.splits)
qed

lemma sel_insts_blocks:
  assumes "rfold sel_step is (rn, pre, c) = Inr (rn', pre', c')"
  shows "rn_blocks rn' = rn_blocks rn"
proof -
  have "case (rn', pre', c') of (rn1, _) \<Rightarrow> rn_blocks rn1 = rn_blocks rn"
    by (rule rfold_invariant [OF assms]) (auto simp: sel_step_def, metis sel_visit_blocks)
  then show ?thesis by simp
qed

lemma QSel_Run_cost:
  assumes "QSel_Run rn = Inr (rn', calls)"
  shows "NumAll rn' \<le> NumAll rn + region_cost rn"
proof -
  define P where "P = (\<lambda>i (rn1, c :: bool). length (rn_blocks rn1) = length (rn_blocks rn) \<and>
    (\<forall>k. i \<le> k \<and> k < length (rn_blocks rn) \<longrightarrow> rn_blocks rn1 ! k = rn_blocks rn ! k) \<and>
    NumAll rn1 \<le> NumAll rn + sum_list (map (list_cost \<circ> bb_ilist) (take i (rn_blocks rn))))"
  have "P (length (rn_blocks rn)) (rn', calls)"
  proof (rule rfold_upt_inv [OF assms [unfolded QSel_Run_def]])
    show "P 0 (rn, False)" by (simp add: P_def)
    fix i st st' assume i: "i < length (rn_blocks rn)" and P: "P i st" and b: "sel_block i st = Inr st'"
    obtain rn1 c1 rn2 c2 where st: "st = (rn1, c1)" "st' = (rn2, c2)" by fastforce
    obtain rn3 is3 where 3: "rfold sel_step (insts_at rn1 i) (rn1, [], c1) = Inr (rn3, is3, c2)"
      "rn2 = upd_block rn3 i (\<lambda>k. k\<lparr>bb_ilist := is3\<rparr>)"
      using b by (auto simp: sel_block_def st)
    have "NumAll rn2 = NumAll rn3" by (simp add: 3(2) NumAll_def)
    moreover have "insts_at rn1 i = insts_at rn i" using P i by (simp add: P_def st)
    ultimately show "P (Suc i) st'"
      using P i sel_insts_cost [OF 3(1)] sel_insts_blocks [OF 3(1)]
      by (auto simp: P_def st 3(2) upd_block_def take_Suc_conv_app_nth)
  qed
  then show ?thesis by (simp add: P_def region_cost_def)
qed

end
