(* ===== verification/Mir_Sem.thy ===== *)
theory Mir_Sem
  imports Qir_Wf
begin

section \<open>Meaning of the IR after register allocation\<close>

text \<open>
  After \<open>QRegAlloc\<close> the operands are physical registers, slots of the guest CPU state, slots of the
  spill frame, and constants. This is what such IR means: a specification between the allocator
  and the emitter. A register operand of type \<open>I8\<close> or \<open>I16\<close> is the low part of the register, and
  writing it leaves the rest alone; the frame is addressed by bytes, so slots that overlap would
  show; a helper call leaves the registers that the calling convention does not preserve with
  arbitrary values, the parameter \<open>clob\<close>.
\<close>

subsection \<open>States\<close>

record mstate =
  m_pr :: "regn \<Rightarrow> u32"
  m_frame :: mem
  m_gs :: "regn \<Rightarrow> u32"
  m_mem :: mem
  m_trap :: trap_code

text \<open>The part of a value that a type keeps, and writing a part of a register.\<close>

primrec tval :: "vtype \<Rightarrow> u32 \<Rightarrow> u32" where
  "tval T_UNDEF v = 0" | "tval T_I8 v = take_bit 8 v" | "tval T_I16 v = take_bit 16 v" | "tval T_I32 v = v"

primrec tmerge :: "vtype \<Rightarrow> u32 \<Rightarrow> u32 \<Rightarrow> u32" where
  "tmerge T_UNDEF old v = old"
| "tmerge T_I8 old v = (old AND NOT (mask 8)) OR take_bit 8 v"
| "tmerge T_I16 old v = (old AND NOT (mask 16)) OR take_bit 16 v"
| "tmerge T_I32 old v = v"

primrec frame_load :: "vtype \<Rightarrow> mem \<Rightarrow> u16 \<Rightarrow> u32" where
  "frame_load T_UNDEF m offs = 0"
| "frame_load T_I8 m offs = ucast (unaligned_load8 m (ucast offs))"
| "frame_load T_I16 m offs = ucast (unaligned_load16 m (ucast offs))"
| "frame_load T_I32 m offs = unaligned_load32 m (ucast offs)"

primrec frame_store :: "vtype \<Rightarrow> mem \<Rightarrow> u16 \<Rightarrow> u32 \<Rightarrow> mem" where
  "frame_store T_UNDEF m offs v = m"
| "frame_store T_I8 m offs v = unaligned_store8 m (ucast offs) (ucast v)"
| "frame_store T_I16 m offs v = unaligned_store16 m (ucast offs) (ucast v)"
| "frame_store T_I32 m offs v = unaligned_store32 m (ucast offs) v"

primrec meval :: "mstate \<Rightarrow> voperand \<Rightarrow> u32 option" where
  "meval ms VBad = None"
| "meval ms (VConst t c) = Some c"
| "meval ms (VVReg t r) = None"
| "meval ms (VPReg t p) = (if t = T_UNDEF then None else Some (tval t (m_pr ms p)))"
| "meval ms (VSlot g t offs) =
     (if g then if t = T_I32 then do { r \<leftarrow> slot_reg offs; Some (m_gs ms r) } else None
      else if t = T_UNDEF then None else Some (frame_load t (m_frame ms) offs))"

primrec mwrite :: "mstate \<Rightarrow> voperand \<Rightarrow> u32 \<Rightarrow> mstate option" where
  "mwrite ms VBad v = None"
| "mwrite ms (VConst t c) v = None"
| "mwrite ms (VVReg t r) v = None"
| "mwrite ms (VPReg t p) v =
     (if t = T_UNDEF then None
      else Some (ms\<lparr>m_pr := (m_pr ms)(p := tmerge t (m_pr ms p) v)\<rparr>))"
| "mwrite ms (VSlot g t offs) v =
     (if g then
        if t = T_I32 then do { r \<leftarrow> slot_reg offs; Some (ms\<lparr>m_gs := (m_gs ms)(r := v)\<rparr>) } else None
      else if t = T_UNDEF then None else Some (ms\<lparr>m_frame := frame_store t (m_frame ms) offs v\<rparr>))"

subsection \<open>Execution\<close>

definition as_q :: "mstate \<Rightarrow> qstate" where
  "as_q ms = \<lparr>q_vr = m_gs ms, q_mem = m_mem ms, q_trap = m_trap ms\<rparr>"

text \<open>\<open>saved\<close> tells the registers a call preserves.\<close>

definition after_call :: "(regn \<Rightarrow> bool) \<Rightarrow> (regn \<Rightarrow> u32) \<Rightarrow> mstate \<Rightarrow> cpu_state \<Rightarrow> mem \<Rightarrow> mstate" where
  "after_call saved clob ms s m =
     (let q = put_cpu (as_q ms) s m in
      ms\<lparr>m_pr := (\<lambda>p. if saved p then m_pr ms p else clob p), m_gs := q_vr q, m_mem := q_mem q,
        m_trap := q_trap q\<rparr>)"

datatype mres = MNext mstate | MBr nat mstate | MExit u32 mstate | MTrap mstate

record menv =
  e_vmem :: uptr
  e_saved :: "regn \<Rightarrow> bool"
  e_clob :: "regn \<Rightarrow> u32"

primrec mexec_inst :: "menv \<Rightarrow> inst \<Rightarrow> mstate \<Rightarrow> mres option" where
  "mexec_inst e (Hcall sid a) ms =
     do { op \<leftarrow> stub_op sid; raw \<leftarrow> meval ms a;
          Some (case qcgstub_rv32 op (e_vmem e) (cpu_of (as_q ms)) (m_mem ms) raw of
                  Next s' gip' m' \<Rightarrow> MNext (after_call (e_saved e) (e_clob e) ms s' m')
                | Trapped s' m' \<Rightarrow> MTrap (after_call (e_saved e) (e_clob e) ms s' m')) }"
| "mexec_inst e Br ms = Some (MBr 0 ms)"
| "mexec_inst e (Brcc cc a b) ms =
     do { x \<leftarrow> meval ms a; y \<leftarrow> meval ms b; Some (MBr (if cc_holds cc x y then 0 else 1) ms) }"
| "mexec_inst e (GBr t) ms = do { x \<leftarrow> meval ms t; Some (MExit x ms) }"
| "mexec_inst e (GBrind t) ms = do { x \<leftarrow> meval ms t; Some (MExit x ms) }"
| "mexec_inst e (VMLoad sz sg d p) ms =
     do { a \<leftarrow> meval ms p; v \<leftarrow> vm_load sz sg (m_mem ms) (e_vmem e + ucast a);
          ms' \<leftarrow> mwrite ms d v; Some (MNext ms') }"
| "mexec_inst e (VMStore sz sg p d) ms =
     do { a \<leftarrow> meval ms p; v \<leftarrow> meval ms d;
          m' \<leftarrow> vm_store sz (m_mem ms) (e_vmem e + ucast a) v; Some (MNext (ms\<lparr>m_mem := m'\<rparr>)) }"
| "mexec_inst e (Setcc cc d a b) ms =
     do { x \<leftarrow> meval ms a; y \<leftarrow> meval ms b;
          ms' \<leftarrow> mwrite ms d (bool_u32 (cc_holds cc x y)); Some (MNext ms') }"
| "mexec_inst e (Mov d s) ms =
     do { x \<leftarrow> meval ms s; ms' \<leftarrow> mwrite ms d x; Some (MNext ms') }"
| "mexec_inst e (Binop bop d a b) ms =
     do { x \<leftarrow> meval ms a; y \<leftarrow> meval ms b;
          ms' \<leftarrow> mwrite ms d (binop_sem bop x y); Some (MNext ms') }"

fun mexec_insts :: "menv \<Rightarrow> inst list \<Rightarrow> mstate \<Rightarrow> mres option" where
  "mexec_insts e [] ms = Some (MNext ms)"
| "mexec_insts e (i # is) ms =
     do { r \<leftarrow> mexec_inst e i ms;
          (case r of MNext ms' \<Rightarrow> mexec_insts e is ms' | _ \<Rightarrow> Some r) }"

fun mexec_region :: "menv \<Rightarrow> nat \<Rightarrow> region \<Rightarrow> nat \<Rightarrow> mstate \<Rightarrow> mres option" where
  "mexec_region e 0 rn b ms = None"
| "mexec_region e (Suc fuel) rn b ms =
     (if b < length (rn_blocks rn) then
        do { r \<leftarrow> mexec_insts e (bb_ilist (rn_blocks rn ! b)) ms;
             (case r of
                MBr k ms' \<Rightarrow>
                  if k < length (bb_succs (rn_blocks rn ! b))
                  then mexec_region e fuel rn (bb_succs (rn_blocks rn ! b) ! k) ms' else None
              | MNext ms' \<Rightarrow> None
              | _ \<Rightarrow> Some r) }
      else None)"

text \<open>Still running after that many blocks, as \<open>runs_on\<close> for virtual registers.\<close>

fun mruns_on :: "menv \<Rightarrow> nat \<Rightarrow> region \<Rightarrow> nat \<Rightarrow> mstate \<Rightarrow> bool" where
  "mruns_on e 0 rn b ms = True"
| "mruns_on e (Suc fuel) rn b ms =
     (b < length (rn_blocks rn) \<and>
      (case mexec_insts e (bb_ilist (rn_blocks rn ! b)) ms of
         Some (MBr k ms') \<Rightarrow>
           k < length (bb_succs (rn_blocks rn ! b)) \<and> mruns_on e fuel rn (bb_succs (rn_blocks rn ! b) ! k) ms'
       | _ \<Rightarrow> False))"

subsection \<open>Lemmas\<close>

lemma mruns_on_None: "mruns_on e fuel rn b ms \<Longrightarrow> mexec_region e fuel rn b ms = None"
  by (induction fuel arbitrary: b ms) (auto split: option.splits mres.splits)

lemma mexec_insts_append:
  "mexec_insts e (xs @ ys) ms =
     do { r \<leftarrow> mexec_insts e xs ms;
          (case r of MNext ms' \<Rightarrow> mexec_insts e ys ms' | _ \<Rightarrow> Some r) }"
  by (induction xs arbitrary: ms) (auto split: Option.bind_splits mres.splits)

lemma mexec_insts_single: "mexec_insts e [i] ms = mexec_inst e i ms"
  by (auto split: Option.bind_splits mres.splits)

lemma tval_tval [simp]: "tval t (tval t v) = tval t v"
  by (cases t) simp_all

lemma tval_tmerge [simp]: "tval t (tmerge t old v) = tval t v"
  by (cases t; simp; rule bit_word_eqI; auto simp: bit_simps)

lemma tval_take_bit: "tval t v = take_bit (8 * tbytes t) v"
  by (cases t) (simp_all add: take_bit_word_eq_self)

lemma tval_smaller:
  assumes "tbytes t \<le> tbytes t0" "tval t0 v = tval t0 w"
  shows "tval t v = tval t w"
proof -
  have "tval t x = take_bit (8 * tbytes t) (tval t0 x)" for x
    using assms(1) by (simp add: tval_take_bit min_def)
  with assms(2) show ?thesis by simp
qed

text \<open>Slots of the frame that do not overlap do not disturb each other.\<close>

lemma frame_load_store: "frame_load t (frame_store t m offs v) offs = tval t v"
proof -
  have "ucast (ucast v :: u8) = take_bit 8 v" "ucast (ucast v :: u16) = take_bit 16 v"
    by (rule bit_word_eqI; auto simp: bit_simps)+
  then show ?thesis by (cases t) (simp_all add: mem_simps)
qed

lemma frame_load_cong:
  assumes "\<And>i. i < tbytes t \<Longrightarrow> m' (ucast offs + of_nat i) = m (ucast offs + of_nat i)"
  shows "frame_load t m' offs = frame_load t m offs"
  using assms [of 0] assms [of 1] assms [of 2] assms [of 3]
  by (cases t) (simp_all add: unaligned_load8_def unaligned_load16_def unaligned_load32_def)

lemma frame_store_frame:
  assumes "\<And>j. j < tbytes t \<Longrightarrow> q \<noteq> ucast offs + of_nat j"
  shows "frame_store t m offs v q = m q"
  using assms [of 0] assms [of 1] assms [of 2] assms [of 3]
  by (cases t) (simp_all add: unaligned_store8_def unaligned_store16_def unaligned_store32_def)

lemma frame_addr_neq:
  assumes "unat o1 + i \<noteq> unat o2 + j" "i < 4" "j < 4"
  shows "ucast (o1 :: u16) + of_nat i \<noteq> (ucast (o2 :: u16) + of_nat j :: uptr)"
proof
  assume eq: "ucast o1 + of_nat i = (ucast o2 + of_nat j :: uptr)"
  have u: "unat (ucast x + of_nat k :: uptr) = unat x + k" if "k < 4" for x :: u16 and k
  proof -
    have "unat x < 2 ^ 16" using unsigned_less [of x, where 'a = nat] by simp
    then have "unat (of_nat (unat x + k) :: uptr) = unat x + k"
      using that by (simp only: unat_of_nat) (simp add: take_bit_nat_eq_self)
    then show ?thesis by simp
  qed
  from eq have "unat (ucast o1 + of_nat i :: uptr) = unat (ucast o2 + of_nat j :: uptr)" by simp
  with assms show False by (simp add: u)
qed

lemma frame_disjoint:
  assumes "unat o1 + tbytes t1 \<le> unat o2 \<or> unat o2 + tbytes t2 \<le> unat o1"
  shows "frame_load t1 (frame_store t2 m o2 v) o1 = frame_load t1 m o1"
proof -
  have "tbytes t \<le> 4" for t by (cases t) simp_all
  then have "j < tbytes t \<Longrightarrow> j < 4" for j t by (meson le_trans not_le)
  then show ?thesis
    using assms by (intro frame_load_cong frame_store_frame frame_addr_neq) fastforce+
qed

lemma state_info_nth: "v < 32 \<Longrightarrow> state_info ! v = (of_nat (4 * Suc v), T_I32)"
proof (cases "v < 31")
  case False
  moreover assume "v < 32"
  ultimately have "v = 31" by simp
  then show ?thesis
    by (simp add: state_info_def GPR_START_def GPR_END_def nth_append offs_gpr_def offs_ip_def)
qed (simp add: state_info_def GPR_START_def GPR_END_def nth_append offs_gpr_def)

lemma slot_reg_state_info:
  assumes "v < 32"
  shows "slot_reg (fst (state_info ! v)) = Some (of_nat v)"
proof -
  have inj: "of_nat (4 * Suc i) = (of_nat (4 * Suc v) :: u16) \<Longrightarrow> i = v" if "i < 32" for i
  proof -
    have u: "unat (of_nat (4 * Suc k) :: u16) = 4 * Suc k" if "k < 32" for k
      using that by (simp only: unat_of_nat) (simp add: take_bit_nat_eq_self)
    assume "of_nat (4 * Suc i) = (of_nat (4 * Suc v) :: u16)"
    then have "unat (of_nat (4 * Suc i) :: u16) = unat (of_nat (4 * Suc v) :: u16)" by simp
    with u [OF that] u [OF assms] show ?thesis by simp
  qed
  have "find (\<lambda>i. fst (state_info ! i) = fst (state_info ! v)) [0 ..< GRID_END] = Some v"
    unfolding find_Some_iff
  proof (intro exI [of _ v] conjI allI impI)
    show "v < length [0 ..< GRID_END]" using assms by (simp add: GRID_END_def GRID_IP_def GPR_END_def)
    then have len: "v < GRID_END" by simp
    then show "fst (state_info ! ([0 ..< GRID_END] ! v)) = fst (state_info ! v)" "v = [0 ..< GRID_END] ! v"
      by simp_all
    fix j assume j: "j < v"
    then show "fst (state_info ! ([0 ..< GRID_END] ! j)) \<noteq> fst (state_info ! v)"
      using len assms inj [of j] by (simp add: state_info_nth del: of_nat_mult of_nat_Suc) blast
  qed
  then show ?thesis by (simp add: slot_reg_def)
qed

end
