(* ===== verification/Rv32_Wf.thy ===== *)
theory Rv32_Wf
  imports Rv32_Region Select_Cost Mir_Sem
begin

section \<open>Translated regions are well typed and small\<close>

text \<open>
  The translator establishes what the back end assumes of its input (Qir_Wf), and the
  registers of a translated range, with those that instruction selection adds, are few enough for
  the tables of the register allocator. The invariant follows the block under construction.
\<close>

subsection \<open>Emitting into a block\<close>

text \<open>Block \<open>ob\<close> is open, the others are finished; \<open>k\<close> bounds the registers and \<open>n\<close> the instructions.\<close>

definition bounded :: "nat \<Rightarrow> nat \<Rightarrow> region \<Rightarrow> bool" where
  "bounded k n rn \<longleftrightarrow> NumAll rn + region_cost rn \<le> k \<and> num_insts rn \<le> n"

definition open_wf :: "nat \<Rightarrow> nat \<Rightarrow> nat \<Rightarrow> region \<Rightarrow> bool" where
  "open_wf ob k n rn \<longleftrightarrow>
     wf_region rn \<and> ob < length (rn_blocks rn) \<and>
     (\<forall>b < length (rn_blocks rn). b \<noteq> ob \<longrightarrow> block_shape (insts_at rn b)) \<and>
     list_all (\<lambda>i. \<not> is_term i) (insts_at rn ob) \<and> bounded k n rn"

definition closed_wf :: "nat \<Rightarrow> nat \<Rightarrow> region \<Rightarrow> bool" where
  "closed_wf k n rn \<longleftrightarrow> wf_region rn \<and> wf_blocks rn \<and> bounded k n rn"

definition emit_at :: "region \<Rightarrow> nat \<Rightarrow> inst \<Rightarrow> region" where
  "emit_at rn b ins = upd_block rn b (\<lambda>k. k\<lparr>bb_ilist := bb_ilist k @ [fold_inst ins]\<rparr>)"

lemma emit_at_sel [simp]:
  "rn_globals (emit_at rn b ins) = rn_globals rn" "rn_locals (emit_at rn b ins) = rn_locals rn"
  "length (rn_blocks (emit_at rn b ins)) = length (rn_blocks rn)" "NumAll (emit_at rn b ins) = NumAll rn"
  "b < length (rn_blocks rn) \<Longrightarrow>
     insts_at (emit_at rn b ins) c = (if c = b then insts_at rn b @ [fold_inst ins] else insts_at rn c)"
  by (simp_all add: emit_at_def upd_block_def NumAll_def nth_list_update)

lemma qb_create_emit: "bb_ok t \<Longrightarrow> t_region (qb_create t ins) = emit_at (t_region t) (t_bb t) ins"
  by (simp add: qb_create_def emit_at_def upd_block_def bb_ok_def Builder_Create_eq il_insert_def)

lemma all_blocks_nth: "(\<forall>k \<in> set (rn_blocks rn). P (bb_ilist k)) \<longleftrightarrow> (\<forall>b < length (rn_blocks rn). P (insts_at rn b))"
  by (metis in_set_conv_nth)

lemma wf_region_nth:
  "wf_region rn \<longleftrightarrow> rn_globals rn = state_info \<and> T_UNDEF \<notin> set (rn_locals rn) \<and>
     (\<forall>b < length (rn_blocks rn). wf_insts rn {} (insts_at rn b))"
  by (simp add: wf_region_def all_blocks_nth)

lemma wf_blocks_nth: "wf_blocks rn \<longleftrightarrow> (\<forall>b < length (rn_blocks rn). block_shape (insts_at rn b))"
  by (simp add: wf_blocks_def all_blocks_nth)

lemma wf_insts_cong:
  assumes "rn_globals rn' = rn_globals rn" "rn_locals rn' = rn_locals rn"
  shows "wf_insts rn' D is = wf_insts rn D is" "wf_inst rn' D i = wf_inst rn D i"
  using assms wf_insts_grows [of rn' rn "[]" D D] wf_insts_grows [of rn rn' "[]" D D]
    wf_inst_grows [of rn' rn "[]" D D] wf_inst_grows [of rn rn' "[]" D D] by auto

lemma emit_at_wf:
  assumes "wf_region rn" "b < length (rn_blocks rn)" "wf_inst rn (defs_list (insts_at rn b)) ins"
  shows "wf_region (emit_at rn b ins)"
  using assms wf_fold_inst [OF assms(3)]
  by (auto simp: wf_region_nth wf_insts_append wf_insts_cong [of "emit_at rn b ins" rn])

text \<open>The folder exchanges operands to have the constant second; only a zero is ever first.\<close>

primrec zero_first :: "inst \<Rightarrow> bool" where
  "zero_first (Hcall sid a) = True" | "zero_first Br = True" | "zero_first (Brcc cc a b) = True" | "zero_first (GBr t) = True"
| "zero_first (GBrind a) = True" | "zero_first (VMLoad sz sg d p) = True" | "zero_first (VMStore sz sg p d) = True"
| "zero_first (Setcc cc d a b) = True" | "zero_first (Mov d s) = True"
| "zero_first (Binop bop d a b) = (case a of VConst t c \<Rightarrow> c = 0 | _ \<Rightarrow> True)"

lemma sel_cost_fold: "zero_first i \<Longrightarrow> sel_cost (fold_inst i) \<le> sel_cost i"
proof (cases i)
  case (Binop bop d a b)
  moreover assume "zero_first i"
  ultimately show ?thesis
    by (cases "bop = B_add"; cases a)
      (auto simp: fold_inst_def folder_visit_def visit_add_def is_const_def Let_def split: voperand.splits if_splits)
qed (simp_all add: fold_inst_def folder_visit_def)

lemma fold_term [simp]: "is_term (fold_inst i) = is_term i" "is_hcall (fold_inst i) = is_hcall i"
  by (cases i; auto simp: fold_inst_def folder_visit_def visit_add_def Let_def split: voperand.splits if_splits)+

lemma sum_update:
  fixes f :: "'a \<Rightarrow> nat"
  assumes "b < length xs"
  shows "sum_list (map f (xs[b := y])) + f (xs ! b) = sum_list (map f xs) + f y"
proof -
  have "f (xs ! b) \<le> sum_list (map f xs)" using assms by (simp add: member_le_sum_list)
  then show ?thesis using assms by (simp add: map_update sum_list_update)
qed

lemma emit_at_bounded:
  assumes "b < length (rn_blocks rn)" "bounded k n rn" "zero_first ins"
  shows "bounded (k + sel_cost ins) (Suc n) (emit_at rn b ins)"
proof -
  let ?k' = "(rn_blocks rn ! b)\<lparr>bb_ilist := insts_at rn b @ [fold_inst ins]\<rparr>"
  have bl: "rn_blocks (emit_at rn b ins) = (rn_blocks rn)[b := ?k']" by (simp add: emit_at_def upd_block_def)
  have "region_cost (emit_at rn b ins) = region_cost rn + sel_cost (fold_inst ins)"
    using sum_update [OF assms(1), of "list_cost \<circ> bb_ilist" ?k'] by (simp add: region_cost_def bl)
  moreover have "num_insts (emit_at rn b ins) = Suc (num_insts rn)"
    using sum_update [OF assms(1), of "length \<circ> bb_ilist" ?k'] by (simp add: num_insts_def bl)
  ultimately show ?thesis using assms(2) sel_cost_fold [OF assms(3)] by (simp add: bounded_def)
qed

lemma bounded_mono: "bounded k n rn \<Longrightarrow> k \<le> k' \<Longrightarrow> n \<le> n' \<Longrightarrow> bounded k' n' rn"
  by (simp add: bounded_def)

lemma open_wf_mono: "open_wf ob k n rn \<Longrightarrow> k \<le> k' \<Longrightarrow> n \<le> n' \<Longrightarrow> open_wf ob k' n' rn"
  unfolding open_wf_def by (blast intro: bounded_mono)

lemma closed_wf_mono: "closed_wf k n rn \<Longrightarrow> k \<le> k' \<Longrightarrow> n \<le> n' \<Longrightarrow> closed_wf k' n' rn"
  unfolding closed_wf_def by (blast intro: bounded_mono)

lemma emit_open:
  assumes "open_wf ob k n rn" "wf_inst rn (defs_list (insts_at rn ob)) ins" "\<not> is_term ins" "zero_first ins"
  shows "open_wf ob (k + sel_cost ins) (Suc n) (emit_at rn ob ins)"
  using assms emit_at_wf [of rn ob ins] emit_at_bounded [of ob rn k n ins] by (auto simp: open_wf_def)

lemma emit_end:
  assumes "open_wf ob k n rn" "wf_inst rn (defs_list (insts_at rn ob)) ins" "is_term ins \<or> is_hcall ins" "zero_first ins"
  shows "closed_wf (k + sel_cost ins) (Suc n) (emit_at rn ob ins)"
proof -
  have "block_shape (insts_at rn ob @ [fold_inst ins])"
    using assms by (auto simp: block_shape_def open_wf_def)
  then show ?thesis
    using assms emit_at_wf [of rn ob ins] emit_at_bounded [of ob rn k n ins]
    by (auto simp: open_wf_def closed_wf_def wf_blocks_nth)
qed

subsection \<open>Straight-line instructions\<close>

definition t_open :: "nat \<Rightarrow> nat \<Rightarrow> translator \<Rightarrow> bool" where
  "t_open k n t \<longleftrightarrow> open_wf (t_bb t) k n (t_region t)"

definition t_closed :: "nat \<Rightarrow> nat \<Rightarrow> translator \<Rightarrow> bool" where
  "t_closed k n t \<longleftrightarrow> closed_wf k n (t_region t)"

lemma t_open_globals: "t_open k n t \<Longrightarrow> rn_globals (t_region t) = state_info"
  by (simp add: t_open_def open_wf_def wf_region_def)

lemma t_open_bb: "t_open k n t \<Longrightarrow> bb_ok t"
  by (simp add: t_open_def open_wf_def bb_ok_def)

lemma t_open_mono: "t_open k n t \<Longrightarrow> k \<le> k' \<Longrightarrow> n \<le> n' \<Longrightarrow> t_open k' n' t"
  unfolding t_open_def by (rule open_wf_mono)

lemma t_closed_mono: "t_closed k n t \<Longrightarrow> k \<le> k' \<Longrightarrow> n \<le> n' \<Longrightarrow> t_closed k' n' t"
  unfolding t_closed_def by (rule closed_wf_mono)

lemma create_open:
  assumes "t_open k n t" "wf_inst (t_region t) (defs_list (insts_of t)) ins" "\<not> is_term ins" "zero_first ins"
    "k + sel_cost ins \<le> k'" "Suc n \<le> n'"
  shows "t_open k' n' (qb_create t ins)"
  using emit_open [of "t_bb t" k n "t_region t" ins] assms t_open_bb [OF assms(1)]
  by (simp add: t_open_def insts_of_def qb_create_emit) (blast intro: open_wf_mono)

lemma create_end:
  assumes "t_open k n t" "wf_inst (t_region t) (defs_list (insts_of t)) ins" "is_term ins \<or> is_hcall ins" "zero_first ins"
    "k + sel_cost ins \<le> k'" "Suc n \<le> n'"
  shows "t_closed k' n' (qb_create t ins)"
  using emit_end [of "t_bb t" k n "t_region t" ins] assms t_open_bb [OF assms(1)]
  by (simp add: t_open_def t_closed_def insts_of_def qb_create_emit) (blast intro: closed_wf_mono)

lemma len_state_info: "length state_info = 32"
  by (simp add: state_info_def GPR_START_def GPR_END_def)

lemma gvr_props:
  assumes "r \<noteq> 0" "r < 32"
  shows "gvr r \<noteq> 31" "unat (gvr r) < 32" "unat (gvr r) < 31"
proof -
  show "unat (gvr r) < 31" using gvr_less [OF assms] by (simp add: word_less_nat_alt)
  then show "gvr r \<noteq> 31" "unat (gvr r) < 32" by auto
qed

lemma use_gprop:
  assumes "rn_globals rn = state_info" "r < 32" "ty \<noteq> T_UNDEF"
  shows "use_ok rn D ty (gprop r ty)"
proof (cases "r = 0")
  case False
  have "tbytes ty \<le> 4" by (cases ty) simp_all
  then show ?thesis
    using assms False gvr_props [OF False assms(2)]
    by (simp add: gprop_def vgpr_eq vreg_type_def IsGlobal_def len_state_info state_info_nth)
qed (use assms in \<open>simp add: gprop_def\<close>)

lemma def_vgpr:
  assumes "rn_globals rn = state_info" "r \<noteq> 0" "r < 32"
  shows "def_ok rn (vgpr r T_I32)" "i32_vreg (vgpr r T_I32)"
  using assms gvr_props [OF assms(2,3)]
  by (simp_all add: vgpr_eq vreg_type_def IsGlobal_def len_state_info state_info_nth i32_vreg_def)

lemma gprop_cost [simp]: "big_imm (gprop r ty) = 0" "big_imm x \<le> Suc 0" "const_cost x \<le> Suc 0" "alias_cost d a b \<le> Suc 0"
  by (auto simp: gprop_def big_imm_def vgpr_def const_cost_def alias_cost_def split: voperand.splits)

lemma alias_cost_const [simp]: "alias_cost d a (VConst ty c) = 0"
  by (auto simp: alias_cost_def is_vgpr_def split: voperand.splits)

lemma gprop_simps [simp]:
  "case gprop r ty of VConst t c \<Rightarrow> c = 0 | _ \<Rightarrow> True" "opr_type (vgpr r ty) = ty"
  by (simp_all add: gprop_def vgpr_def)

lemma open_ArithmRR: "t_open k n t \<Longrightarrow> t_open (k + 1) (n + 1) (TRANSLATOR_ArithmRR t i bop)"
  using t_open_globals [of k n t]
  by (auto simp: TRANSLATOR_ArithmRR_def wf_inst_def def_vgpr use_gprop reg_fields_less intro!: create_open
      intro: t_open_mono)

lemma open_ArithmRI: "t_open k n t \<Longrightarrow> t_open (k + 1) (n + 1) (TRANSLATOR_ArithmRI t i imm bop)"
  using t_open_globals [of k n t]
  by (auto simp: TRANSLATOR_ArithmRI_def wf_inst_def def_vgpr use_gprop reg_fields_less vconst_def intro!: create_open
      intro: t_open_mono)

lemma open_Setcc_R: "t_open k n t \<Longrightarrow> t_open (k + 1) (n + 1) (TranslateSetcc_R t i cc)"
  using t_open_globals [of k n t]
  by (auto simp: TranslateSetcc_R_def wf_inst_def def_vgpr use_gprop reg_fields_less intro!: create_open
      intro: t_open_mono)

lemma open_Setcc_I: "t_open k n t \<Longrightarrow> t_open (k + 2) (n + 1) (TranslateSetcc_I t i cc)"
  using t_open_globals [of k n t] gprop_cost(3) [of "gprop (insn_rs1 i) T_I32"] gprop_cost(2) [of "vconst (scast (imm_I i))"]
  by (auto simp: TranslateSetcc_I_def wf_inst_def def_vgpr use_gprop reg_fields_less vconst_def
      simp del: gprop_cost intro!: create_open intro: t_open_mono)

lemma open_mov_const: "t_open k n t \<Longrightarrow> t_open k (n + 1) (V_mov_const t i v)"
  using t_open_globals [of k n t]
  by (auto simp: V_mov_const_def wf_inst_def def_vgpr reg_fields_less vconst_def
      intro!: create_open intro: t_open_mono)

lemma open_fence: "t_open k n t \<Longrightarrow> stub_op sid \<noteq> None \<Longrightarrow> t_open k (n + 1) (TranslateHelper t i sid)"
  by (auto simp: TranslateHelper_def wf_inst_def vconst_def is_const_def intro!: create_open)

lemma open_PreSideeff: "t_open k n t \<Longrightarrow> t_open k (n + 1) (PreSideeff t)"
proof -
  assume t: "t_open k n t"
  have s: "slot_reg (fst (state_info ! GRID_IP)) = Some 31"
    using slot_reg_state_info [of 31] by (simp add: GRID_IP_def GPR_END_def)
  show ?thesis
    unfolding PreSideeff_def Let_def
    by (rule create_open [OF t]) (simp_all add: wf_inst_def s vconst_def)
qed

text \<open>A new local register.\<close>

lemma open_vtemp:
  assumes t: "t_open k n t" and k: "k < 2 ^ 16"
  defines "r \<equiv> (of_nat (NumAll (t_region t)) :: regn)"
  shows "t_open (k + 1) n (snd (vtemp t))" "def_ok (t_region (snd (vtemp t))) (VVReg T_I32 r)"
    "r \<in> D \<Longrightarrow> use_ok (t_region (snd (vtemp t))) D T_I32 (VVReg T_I32 r)" "31 < unat r"
proof -
  let ?rn = "t_region t" and ?rn' = "t_region (snd (vtemp t))"
  have w: "wf_region ?rn" "bounded k n ?rn" using t by (simp_all add: t_open_def open_wf_def)
  have g: "rn_globals ?rn = state_info" using w(1) by (simp add: wf_region_def)
  have n: "32 \<le> NumAll ?rn" "NumAll ?rn < 2 ^ 16" using w(2) k g by (simp_all add: bounded_def NumAll_def len_state_info)
  then have u: "unat r = NumAll ?rn" by (simp add: r_def unat_of_nat take_bit_nat_eq_self)
  then show r31: "31 < unat r" using n by simp
  have ty: "vreg_type ?rn' r = Some T_I32"
    using n by (simp add: vreg_type_def IsGlobal_def g len_state_info u) (simp add: NumAll_def nth_append g len_state_info)
  show "def_ok ?rn' (VVReg T_I32 r)" "r \<in> D \<Longrightarrow> use_ok ?rn' D T_I32 (VVReg T_I32 r)"
    using ty r31 by auto
  have wf: "wf_region ?rn'"
    using w(1) wf_insts_grows [of ?rn' ?rn "[T_I32]" "{}" "{}"] by (auto simp: wf_region_nth)
  have "NumAll ?rn' = Suc (NumAll ?rn)" "region_cost ?rn' = region_cost ?rn" "num_insts ?rn' = num_insts ?rn"
    by (simp_all add: region_cost_def num_insts_def)
  then show "t_open (k + 1) n (snd (vtemp t))"
    using t wf by (simp add: t_open_def open_wf_def bounded_def)
qed

lemma insts_vtemp [simp]: "insts_of (snd (vtemp t)) = insts_of t"
  by (simp add: insts_of_def)

lemma open_addr:
  assumes t: "t_open k n t" and k: "k < 2 ^ 16" and r: "r < 32" and ac: "addr_code t r imm = (addr, t1)"
  shows "t_open (k + 2) (n + 1) t1 \<and> use_ok (t_region t1) (defs_list (insts_of t1)) T_I32 addr \<and>
    (imm \<noteq> 0 \<longrightarrow> i32_vreg addr \<and> def_ok (t_region t1) addr)"
proof (cases "imm = 0")
  case True
  then show ?thesis using ac t use_gprop [OF t_open_globals [OF t] r] by (auto simp: addr_code_def intro: t_open_mono)
next
  case False
  let ?r = "of_nat (NumAll (t_region t)) :: regn"
  define t0 where "t0 = snd (vtemp t)"
  note v = open_vtemp [OF t k, folded t0_def]
  define i where "i = Binop B_add (VVReg T_I32 ?r) (gprop r T_I32) (vconst (scast imm))"
  have e: "addr = VVReg T_I32 ?r" "t1 = qb_create t0 i"
    using ac False by (auto simp: addr_code_def split_beta t0_def i_def Let_def)
  have "wf_inst (t_region t0) (defs_list (insts_of t0)) i"
    using v(2) use_gprop [OF t_open_globals [OF v(1)] r, of T_I32]
    by (simp add: i_def wf_inst_def i32_vreg_def vconst_def)
  then have t1: "t_open (k + 2) (n + 1) t1"
    unfolding e(2) by (intro create_open [OF v(1)]) (simp_all add: i_def vconst_def)
  have d: "?r \<in> defs_list (insts_of t1)"
    using t_open_bb [OF v(1)] by (simp add: e insts_of_create defs_fold_inst) (simp add: i_def)
  have "use_ok (t_region t1) D T_I32 addr = use_ok (t_region t0) D T_I32 addr" "def_ok (t_region t1) addr = def_ok (t_region t0) addr" for D
    by (simp_all add: e vreg_type_def IsGlobal_def NumAll_def)
  then show ?thesis using t1 v(2) v(3) [OF d] by (simp add: e(1) i32_vreg_def)
qed

lemma open_Load:
  assumes t: "t_open k n t" and k: "k < 2 ^ 16" and ty: "ty \<noteq> T_UNDEF" and nc: "insn_rd i = 0 \<Longrightarrow> imm_I i \<noteq> 0"
  shows "t_open (k + 2) (n + 2) (TranslateLoad t i ty sg)"
proof -
  obtain addr t1 where ac: "addr_code t (insn_rs1 i) (imm_I i) = (addr, t1)" by fastforce
  note a = open_addr [OF t k reg_fields_less(2) ac]
  have g: "rn_globals (t_region t1) = state_info" using a t_open_globals by blast
  show ?thesis
    using a nc def_vgpr [OF g _ reg_fields_less(1), of i] ty
    by (auto simp: TranslateLoad_addr ac wf_inst_def intro!: create_open [of "k + 2" "n + 1"])
qed

lemma open_Store:
  assumes t: "t_open k n t" and k: "k < 2 ^ 16" and ty: "ty \<noteq> T_UNDEF"
  shows "t_open (k + 3) (n + 2) (TranslateStore t i ty SG_U)"
proof -
  obtain addr t1 where ac: "addr_code t (insn_rs1 i) (imm_S i) = (addr, t1)" by fastforce
  note a = open_addr [OF t k reg_fields_less(2) ac]
  have g: "rn_globals (t_region t1) = state_info" using a t_open_globals by blast
  show ?thesis
    using a use_gprop [OF g reg_fields_less(3) ty, of _ i] ty
    by (auto simp: TranslateStore_addr ac wf_inst_def intro!: create_open [of "k + 2" "n + 1"])
qed

lemma V_straight_open:
  assumes "t_open k n t" "k < 2 ^ 16" "straight op" "V_insn op t raw = Inr t'"
    and "is_load op \<Longrightarrow> insn_rd raw = 0 \<Longrightarrow> imm_I raw \<noteq> 0"
  shows "t_open (k + 3) (n + 2) t'"
proof -
  note t_open_mono [where k' = "k + 3" and n' = "n + 2"]
  note this [OF open_ArithmRR [OF assms(1)]] this [OF open_ArithmRI [OF assms(1)]] this [OF open_Setcc_R [OF assms(1)]]
    this [OF open_Setcc_I [OF assms(1)]] this [OF open_mov_const [OF assms(1)]] this [OF open_fence [OF assms(1)]]
    this [OF open_Load [OF assms(1,2)]] open_Store [OF assms(1,2)]
  then show ?thesis using assms(3-5) by (cases op) (auto simp: straight_def is_load_def stub_op_def)
qed

subsection \<open>Control transfers\<close>

text \<open>Only the registers and the instructions of the blocks matter.\<close>

definition same_code :: "region \<Rightarrow> region \<Rightarrow> bool" where
  "same_code rn rn' \<longleftrightarrow> rn_globals rn' = rn_globals rn \<and> rn_locals rn' = rn_locals rn \<and>
     map bb_ilist (rn_blocks rn') = map bb_ilist (rn_blocks rn)"

lemma same_code_wf:
  assumes "same_code rn rn'"
  shows "closed_wf k n rn' = closed_wf k n rn" "open_wf ob k n rn' = open_wf ob k n rn"
proof -
  have e: "rn_globals rn' = rn_globals rn" "rn_locals rn' = rn_locals rn"
    "map bb_ilist (rn_blocks rn') = map bb_ilist (rn_blocks rn)"
    using assms by (simp_all add: same_code_def)
  have l: "length (rn_blocks rn') = length (rn_blocks rn)" using e(3) by (metis length_map)
  have i: "insts_at rn' b = insts_at rn b" if "b < length (rn_blocks rn)" for b
    using that e(3) l by (metis nth_map)
  have "region_cost rn' = region_cost rn" "num_insts rn' = num_insts rn" "NumAll rn' = NumAll rn"
    using e unfolding region_cost_def num_insts_def NumAll_def by (metis map_map)+
  then have b: "bounded k n rn' = bounded k n rn" for k n by (simp add: bounded_def)
  have w: "wf_region rn' = wf_region rn" using i l wf_insts_cong [OF e(1,2)] by (simp add: wf_region_nth e)
  show "closed_wf k n rn' = closed_wf k n rn" using i l by (simp add: closed_wf_def b w wf_blocks_nth)
  show "open_wf ob k n rn' = open_wf ob k n rn" using i l by (auto simp: open_wf_def b w)
qed

lemma same_code_AddSucc: "b < length (rn_blocks rn) \<Longrightarrow> same_code rn (AddSucc rn b j)"
  unfolding same_code_def
  by (intro conjI nth_equalityI)
    (auto simp: AddSucc_def upd_block_def nth_list_update)

lemma closed_add_succ: "bb_ok t \<Longrightarrow> t_closed k n (add_succ t j) = t_closed k n t"
  using same_code_wf(1) [OF same_code_AddSucc] by (simp add: t_closed_def bb_ok_def)

lemma closed_MakeGBr:
  assumes t: "t_open k n t"
  shows "t_closed k (n + 1) (MakeGBr t g)"
proof (cases "t_ip2bb t g")
  case None
  then show ?thesis by (auto simp: MakeGBr_def wf_inst_def vconst_def is_const_def intro!: create_end [OF t])
next
  case (Some b)
  have "t_closed k (n + 1) (qb_create t Br)" by (rule create_end [OF t]) (simp_all add: wf_inst_def)
  then show ?thesis using Some t_open_bb [OF t] by (simp add: MakeGBr_def closed_add_succ)
qed

lemma open_CreateBlock: "open_wf ob k n rn \<Longrightarrow> open_wf ob k n (snd (CreateBlock rn))"
proof -
  assume o: "open_wf ob k n rn"
  let ?rn = "snd (CreateBlock rn)"
  have e: "rn_globals ?rn = rn_globals rn" "rn_locals ?rn = rn_locals rn" "rn_blocks ?rn = rn_blocks rn @ [new_block]"
    by (simp_all add: CreateBlock_def)
  have i: "insts_at ?rn b = (if b < length (rn_blocks rn) then insts_at rn b else [])" if "b < length (rn_blocks ?rn)" for b
    using that by (auto simp: e nth_append new_block_def less_Suc_eq)
  have "bounded k n ?rn"
    using o by (simp add: open_wf_def bounded_def region_cost_def num_insts_def NumAll_def e new_block_def)
  moreover have "wf_region ?rn" using o i wf_insts_cong [OF e(1,2)] by (simp add: open_wf_def wf_region_nth e(1,2))
  ultimately show ?thesis using o i by (simp add: open_wf_def block_shape_def e(3))
qed

lemma emit_other:
  assumes o: "open_wf ob k n rn" and b: "b \<noteq> ob" "b < length (rn_blocks rn)" "insts_at rn b = []"
    and i: "wf_inst rn {} ins" "is_term ins" "zero_first ins"
  shows "open_wf ob (k + sel_cost ins) (Suc n) (emit_at rn b ins)"
  using o b i emit_at_wf [of rn b ins] emit_at_bounded [of b rn k n ins] by (auto simp: open_wf_def block_shape_def)

lemma open_make_target:
  assumes o: "open_wf ob k n (t_region t)" and mt: "make_target t g = (b, t')"
  shows "open_wf ob k (n + 1) (t_region t')"
proof (cases "t_ip2bb t g")
  case None
  define t0 where "t0 = t\<lparr>t_region := snd (CreateBlock (t_region t)), t_bb := length (rn_blocks (t_region t))\<rparr>"
  have ok: "bb_ok t0" by (simp add: t0_def bb_ok_def CreateBlock_def)
  have "t' = qb_create t0 (GBr (vconst g))"
    using mt None by (auto simp: make_target_def t0_def split_beta Let_def CreateBlock_def)
  then have r: "t_region t' = emit_at (t_region t0) (t_bb t0) (GBr (vconst g))" using ok by (simp add: qb_create_emit)
  have o0: "open_wf ob k n (t_region t0)" using open_CreateBlock [OF o] by (simp add: t0_def)
  have "open_wf ob (k + sel_cost (GBr (vconst g))) (Suc n) (t_region t')"
    unfolding r
    by (rule emit_other [OF o0])
      (use o in \<open>simp_all add: t0_def open_wf_def CreateBlock_def new_block_def wf_inst_def vconst_def is_const_def\<close>)
  then show ?thesis by simp
next
  case (Some c)
  then show ?thesis using o mt by (auto simp: make_target_def intro: open_wf_mono)
qed

lemma closed_Brcc:
  assumes t: "t_open k n t"
  shows "t_closed (k + 1) (n + 3) (TranslateBrcc t i cc)"
proof -
  obtain b1 t1 where 1: "make_target t (t_insn_ip t + 4) = (b1, t1)" by fastforce
  obtain b2 t2 where 2: "make_target t1 (t_insn_ip t1 + imm_B i) = (b2, t2)" by fastforce
  define t3 where "t3 = t2\<lparr>t_bb := t_bb t\<rparr>"
  have "open_wf (t_bb t) k (n + 1 + 1) (t_region t2)"
    by (rule open_make_target [OF open_make_target [OF t [unfolded t_open_def] 1] 2])
  then have o: "t_open k (n + 2) t3" by (simp add: t_open_def t3_def)
  define br where "br = Brcc cc (gprop (insn_rs1 i) T_I32) (gprop (insn_rs2 i) T_I32)"
  have "t_closed (k + 1) (n + 3) (qb_create t3 br)"
    by (rule create_end [OF o])
      (simp_all add: br_def wf_inst_def use_gprop [OF t_open_globals [OF o]] reg_fields_less)
  moreover have "TranslateBrcc t i cc = add_succ (add_succ (qb_create t3 br) b2) b1"
    by (simp add: TranslateBrcc_def 1 2 Let_def t3_def br_def)
  moreover have "bb_ok (add_succ (qb_create t3 br) b2)" using t_open_bb [OF o] by simp
  ultimately show ?thesis using t_open_bb [OF o] by (simp add: closed_add_succ)
qed

lemma closed_jalr:
  assumes t: "t_open k n t" and k: "k < 2 ^ 16"
  shows "t_closed (k + 2) (n + 4) (V_jalr t i)"
proof -
  let ?r = "of_nat (NumAll (t_region t)) :: regn"
  let ?tgt = "VVReg T_I32 ?r"
  define t1 where "t1 = snd (vtemp t)"
  define t2 where "t2 = qb_create t1 (Binop B_add ?tgt (gprop (insn_rs1 i) T_I32) (vconst (scast (imm_I i))))"
  define t3 where "t3 = qb_create t2 (Binop B_and ?tgt ?tgt (vconst (NOT 1)))"
  define t4 where "t4 = V_mov_const t3 i (t_insn_ip t + 4)"
  have e: "V_jalr t i = qb_create t4 (GBrind ?tgt)"
    by (simp add: V_jalr_def split_beta Let_def t1_def t2_def t3_def t4_def)
  note v = open_vtemp [OF t k, folded t1_def]
  have same: "rn_globals (t_region t') = rn_globals (t_region t1) \<and> rn_locals (t_region t') = rn_locals (t_region t1)"
    if "t' \<in> {t2, t3, t4}" for t'
    using that by (auto simp: t2_def t3_def t4_def V_mov_const_def)
  have cong: "use_ok (t_region t') D T_I32 ?tgt = use_ok (t_region t1) D T_I32 ?tgt" "def_ok (t_region t') ?tgt = def_ok (t_region t1) ?tgt"
    if "t' \<in> {t2, t3, t4}" for t' D
    using same [OF that] by (simp_all add: vreg_type_def IsGlobal_def NumAll_def)
  have o2: "t_open (k + 2) (n + 1) t2"
    unfolding t2_def
    by (rule create_open [OF v(1)])
      (use v(2) in \<open>simp_all add: wf_inst_def i32_vreg_def vconst_def use_gprop [OF t_open_globals [OF v(1)]] reg_fields_less\<close>)
  have d2: "?r \<in> defs_list (insts_of t2)"
    using t_open_bb [OF v(1)] by (simp add: t2_def insts_of_create defs_fold_inst)
  have u2: "use_ok (t_region t2) (defs_list (insts_of t2)) T_I32 ?tgt" "def_ok (t_region t2) ?tgt"
    using v(2) v(3) [OF d2] cong by blast+
  have o3: "t_open (k + 2) (n + 2) t3"
    unfolding t3_def
    by (rule create_open [OF o2]) (use u2 in \<open>simp_all add: wf_inst_def i32_vreg_def vconst_def alias_cost_def is_vgpr_def\<close>)
  have o4: "t_open (k + 2) (n + 3) t4" unfolding t4_def by (rule t_open_mono [OF open_mov_const [OF o3]]) simp_all
  have "?r \<in> defs_list (insts_of t4)"
    using d2 t_open_bb [OF o2] t_open_bb [OF o3] by (auto simp: t4_def V_mov_const_def t3_def insts_of_create)
  then have u4: "use_ok (t_region t4) (defs_list (insts_of t4)) T_I32 ?tgt" using v(3) cong by blast
  show ?thesis unfolding e
    by (rule create_end [OF o4]) (use u4 in \<open>simp_all add: wf_inst_def const_cost_def\<close>)
qed

lemma V_branch_closed:
  assumes t: "t_open k n t" and k: "k < 2 ^ 16" and st: "\<not> straight op" and v: "V_insn op t raw = Inr t'"
  shows "t_closed (k + 3) (n + 4) t'"
proof -
  note mono = t_closed_mono [where k' = "k + 3" and n' = "n + 4"]
  have jal: "t_closed k (n + 1 + 1) (V_jal t raw)"
    unfolding V_jal_def by (rule closed_MakeGBr [OF open_mov_const [OF t]])
  have h: "t_closed k (n + 1) (TranslateHelper t raw sid)" if "stub_op sid \<noteq> None" for sid
    unfolding TranslateHelper_def by (rule create_end [OF t]) (use that in \<open>simp_all add: wf_inst_def vconst_def is_const_def\<close>)
  show ?thesis
    using st v mono [OF jal] mono [OF closed_jalr [OF t k]] mono [OF closed_Brcc [OF t]] mono [OF h]
    by (cases op) (auto simp: straight_def stub_op_def)
qed

subsection \<open>Ranges\<close>

lemma t_open_upd [simp]:
  "t_open k n (t\<lparr>t_insn_ip := g\<rparr>) = t_open k n t" "t_open k n (t\<lparr>t_control := c\<rparr>) = t_open k n t"
  "t_closed k n (t\<lparr>t_insn_ip := g\<rparr>) = t_closed k n t" "t_closed k n (t\<lparr>t_control := c\<rparr>) = t_closed k n t"
  by (simp_all add: t_open_def t_closed_def)

lemma TranslateInsn_wf:
  assumes t: "t_open k n t" and k: "k < 2 ^ 16" and tr: "TranslateInsn code t = Inr t'"
    and raw: "raw = fetch (t_vmem t) code (t_insn_ip t)" and nc: "\<not> clobbers_base raw"
  shows "if straight (Decode raw) then t_open (k + 3) (n + 5) t' else t_closed (k + 3) (n + 5) t'"
    "straight (Decode raw) \<longrightarrow> t_control t' = t_control t"
    "\<not> straight (Decode raw) \<longrightarrow> t_control t' = C_BRANCH"
proof -
  let ?op = "Decode raw"
  define t1 where "t1 = (if has_flag ?op Flag_Trap \<or> has_flag ?op Flag_MayTrap then PreSideeff t else t)"
  have t1: "t_open k (n + 1) t1" "bb_ok t1" "t_control t1 = t_control t"
    using t open_PreSideeff [OF t] t_open_bb [OF t] by (auto simp: t1_def intro: t_open_mono)
  define ctl where "ctl = (\<lambda>t2 :: translator. if has_flag ?op Flag_Branch \<or> has_flag ?op Flag_Trap then t2\<lparr>t_control := C_BRANCH\<rparr> else t2)"
  obtain t2 where t2: "V_insn ?op t1 raw = Inr t2" and t': "t' = (ctl t2)\<lparr>t_insn_ip := t_insn_ip (ctl t2) + 4\<rparr>"
    using tr unfolding TranslateInsn_def H_translate_def Let_def raw [symmetric] t1_def [symmetric] ctl_def by auto
  have load: "is_load ?op \<Longrightarrow> insn_rd raw = 0 \<Longrightarrow> imm_I raw \<noteq> 0" using nc by (auto simp: clobbers_base_def)
  show "if straight ?op then t_open (k + 3) (n + 5) t' else t_closed (k + 3) (n + 5) t'"
  proof (cases "straight ?op")
    case True
    have "t_open (k + 3) (n + 1 + 2) t2" by (rule V_straight_open [OF t1(1) k True t2 load])
    then have "t_open (k + 3) (n + 5) t2" by (rule t_open_mono) simp_all
    then show ?thesis using True by (simp add: t' ctl_def)
  next
    case False
    have "t_closed (k + 3) (n + 5) t2" by (rule t_closed_mono [OF V_branch_closed [OF t1(1) k False t2]]) simp_all
    then show ?thesis using False by (simp add: t' ctl_def)
  qed
  show "straight ?op \<longrightarrow> t_control t' = t_control t"
    using V_straight_frame [OF t1(2) _ t2] t1(3) by (auto simp: t' ctl_def straight_def emit_frame_def)
  show "\<not> straight ?op \<longrightarrow> t_control t' = C_BRANCH" by (auto simp: t' ctl_def straight_def)
qed

lemma TranslateInsn_insn_ip:
  assumes "bb_ok t" "TranslateInsn code t = Inr t'" "raw = fetch (t_vmem t) code (t_insn_ip t)" "straight (Decode raw)"
  shows "t_insn_ip t' = t_insn_ip t + 4 \<and> t_vmem t' = t_vmem t"
proof -
  let ?op = "Decode raw"
  define t1 where "t1 = (if has_flag ?op Flag_Trap \<or> has_flag ?op Flag_MayTrap then PreSideeff t else t)"
  have t1: "bb_ok t1" "t_insn_ip t1 = t_insn_ip t" "t_vmem t1 = t_vmem t" using assms(1) by (auto simp: t1_def)
  obtain t2 where t2: "V_insn ?op t1 raw = Inr t2" and t': "t' = t2\<lparr>t_insn_ip := t_insn_ip t2 + 4\<rparr>"
    using assms(2,4) unfolding TranslateInsn_def H_translate_def Let_def assms(3) [symmetric] t1_def [symmetric]
    by (auto simp: straight_def simp del: has_flag_Trap has_flag_MayTrap has_flag_Branch)
  then show ?thesis using V_straight_frame [OF t1(1) assms(4) t2] t1 by (simp add: t' emit_frame_def)
qed

lemma translate_loop_wf:
  assumes "translate_loop left code boundary t = Inr t'" "0 < left" "t_open k n t" "t_control t = C_NEXT"
    "k + 3 * left \<le> 2 ^ 16" "no_clobber (t_vmem t) code left (t_insn_ip t)"
  shows "t_closed (k + 3 * left) (n + 6 * left) t'"
  using assms
proof (induction left arbitrary: t k n)
  case 0
  then show ?case by simp
next
  case (Suc left)
  define raw where "raw = fetch (t_vmem t) code (t_insn_ip t)"
  obtain t1 where t1: "TranslateInsn code t = Inr t1" using Suc.prems(1) by (cases "TranslateInsn code t") auto
  have nc: "\<not> clobbers_base raw" "no_clobber (t_vmem t) code left (t_insn_ip t + 4)"
    using Suc.prems(6) by (auto simp: no_clobber_Suc raw_def)
  have k: "k < 2 ^ 16" using Suc.prems(5) by simp
  note * = TranslateInsn_wf [OF Suc.prems(3) k t1 raw_def nc(1)]
  note mono = t_closed_mono [where k' = "k + 3 * Suc left" and n' = "n + 6 * Suc left"]
  show ?case
  proof (cases "straight (Decode raw)")
    case False
    then have "t' = t1" "t_closed (k + 3) (n + 5) t1" using * Suc.prems(1) t1 by simp_all
    then show ?thesis by (intro mono [where k = "k + 3" and n = "n + 5"]) simp_all
  next
    case True
    have fr: "t_insn_ip t1 = t_insn_ip t + 4" "t_vmem t1 = t_vmem t"
      using TranslateInsn_insn_ip [OF t_open_bb [OF Suc.prems(3)] t1 raw_def True] by simp_all
    have o1: "t_open (k + 3) (n + 5) t1" "t_control t1 = C_NEXT" using * True Suc.prems(4) by simp_all
    show ?thesis
    proof (cases "left = 0 \<or> boundary \<le> t_insn_ip t1")
      case True
      then have "t' = MakeGBr (t1\<lparr>t_control := C_TB_OVF\<rparr>) (t_insn_ip t1)" using Suc.prems(1) t1 o1(2) by auto
      then have "t_closed (k + 3) (n + 5 + 1) t'" using closed_MakeGBr [of "k + 3" "n + 5"] o1(1) by simp
      then show ?thesis by (rule mono) simp_all
    next
      case False
      then have "translate_loop left code boundary t1 = Inr t'" using Suc.prems(1) t1 o1(2) by simp
      then have "t_closed (k + 3 + 3 * left) (n + 5 + 6 * left) t'"
        by (rule Suc.IH) (use False o1 Suc.prems(5) nc(2) fr in simp_all)
      then show ?thesis by (rule mono) simp_all
    qed
  qed
qed

lemma TranslateIPRange_wf:
  assumes tr: "TranslateIPRange code gip boundary t = Inr t'" and b: "t_ip2bb t gip = Some b" "empty_block (t_region t) b" "ip2bb_ok t"
    and t: "t_closed k n t" and k: "k + 192 \<le> 2 ^ 16" and nc: "no_clobber (t_vmem t) code TB_MAX_INSNS gip"
  shows "t_closed (k + 192) (n + 384) t'"
proof -
  define t0 where "t0 = t\<lparr>t_insn_ip := gip, t_bb := b, t_control := C_NEXT\<rparr>"
  have loop: "translate_loop TB_MAX_INSNS code boundary t0 = Inr t'"
    using tr b(1) by (simp add: TranslateIPRange_def t0_def split: if_splits)
  have o: "t_open k n t0"
    using t b by (auto simp: t_open_def t_closed_def open_wf_def closed_wf_def wf_blocks_nth t0_def empty_block_def ip2bb_ok_def)
  have "t_closed (k + 3 * TB_MAX_INSNS) (n + 6 * TB_MAX_INSNS) t'"
    by (rule translate_loop_wf [OF loop _ o]) (use k nc in \<open>simp_all add: t0_def TB_MAX_INSNS_def\<close>)
  then show ?thesis by (simp add: TB_MAX_INSNS_def)
qed

lemma translate_ranges_wf:
  assumes "translate_ranges code rgs t = Inr t'" "distinct (map fst rgs)"
    and "\<forall>rg \<in> set rgs. \<exists>b. t_ip2bb t (fst rg) = Some b \<and> empty_block (t_region t) b"
    and "inj_on (t_ip2bb t) (dom (t_ip2bb t))" "ip2bb_ok t" "t_closed k n t"
    and "k + 192 * length rgs < 2 ^ 16" "\<forall>rg \<in> set rgs. no_clobber (t_vmem t) code TB_MAX_INSNS (fst rg)"
  shows "t_closed (k + 192 * length rgs) (n + 384 * length rgs) t'"
  using assms
proof (induction rgs arbitrary: t k n)
  case (Cons rg rgs)
  obtain c where c: "t_ip2bb t (fst rg) = Some c" "empty_block (t_region t) c" using Cons.prems(3) by auto
  obtain t1 where t1: "TranslateIPRange code (fst rg) (snd rg) t = Inr t1" and tl: "translate_ranges code rgs t1 = Inr t'"
    using Cons.prems(1) by (cases "TranslateIPRange code (fst rg) (snd rg) t") auto
  have num: "32 \<le> NumAll (t_region t)" "NumAll (t_region t) + TB_MAX_INSNS < 2 ^ 16"
    using Cons.prems(6,7)
    by (auto simp: t_closed_def closed_wf_def bounded_def wf_region_def NumAll_def len_state_info TB_MAX_INSNS_def)
  have nc: "no_clobber (t_vmem t) code TB_MAX_INSNS (fst rg)" using Cons.prems(8) by simp
  have "t_closed (k + 192) (n + 384) t1"
    by (rule TranslateIPRange_wf [OF t1 c Cons.prems(5,6) _ nc]) (use Cons.prems(7) in simp)
  moreover have fr: "leave_frame (t\<lparr>t_bb := c\<rparr>) t1"
    using TranslateIPRange_sim [OF t1 c(1) _ _ Cons.prems(5) num nc] c(2) by (simp add: empty_block_def)
  then have same: "t_ip2bb t1 = t_ip2bb t" "t_vmem t1 = t_vmem t" by (simp_all add: leave_frame_def)
  have uniq: "h = fst rg" if "t_ip2bb t h = Some c" for h
    using inj_onD [OF Cons.prems(4), of h "fst rg"] c(1) that by (auto simp: domI)
  have "\<exists>b. t_ip2bb t (fst rg') = Some b \<and> empty_block (t_region t1) b" if rg': "rg' \<in> set rgs" for rg'
  proof -
    obtain b' where b': "t_ip2bb t (fst rg') = Some b'" "empty_block (t_region t) b'"
      using bspec [OF Cons.prems(3), of rg'] rg' by auto
    moreover have "fst rg' \<noteq> fst rg" using Cons.prems(2) imageI [OF rg', of fst] by (cases "fst rg' = fst rg") simp_all
    ultimately have "b' \<noteq> c" using uniq by auto
    with b' fr Cons.prems(5) show ?thesis by (auto simp: leave_frame_def empty_block_def ip2bb_ok_def)
  qed
  moreover have "ip2bb_ok t1" using Cons.prems(5) fr by (fastforce simp: ip2bb_ok_def leave_frame_def)
  ultimately have "t_closed (k + 192 + 192 * length rgs) (n + 384 + 384 * length rgs) t'"
    using Cons.prems by (intro Cons.IH [OF tl]) (simp_all add: same)
  then show ?case by (simp add: algebra_simps)
qed simp

lemma CompilerGenRegionIR_wf:
  assumes "CompilerGenRegionIR code rgs vmem = Inr rn" "distinct (map fst rgs)" "32 + 192 * length rgs < 2 ^ 16"
    "\<forall>rg \<in> set rgs. no_clobber vmem code TB_MAX_INSNS (fst rg)"
  shows "closed_wf (32 + 192 * length rgs) (384 * length rgs) rn"
proof -
  define t0 where "t0 = fold add_range_block rgs (new_translator (new_region state_info) vmem)"
  have init: "rn_blocks (t_region (new_translator (new_region state_info) vmem)) = []"
    "t_ip2bb (new_translator (new_region state_info) vmem) = Map.empty"
    "t_vmem (new_translator (new_region state_info) vmem) = vmem"
    by (simp_all add: new_translator_def new_region_def)
  have t0: "rn_blocks (t_region t0) = replicate (length rgs) new_block" "t_vmem t0 = vmem" "t_ip2bb t0 = range_index rgs"
    using add_range_block_fold [OF assms(2), of "new_translator (new_region state_info) vmem"] init
    unfolding t0_def by (auto simp: fun_eq_iff split: option.splits)
  have "rn_globals (t_region (fold add_range_block rgs t)) = rn_globals (t_region t) \<and>
      rn_locals (t_region (fold add_range_block rgs t)) = rn_locals (t_region t)" for t
    by (induction rgs arbitrary: t) (simp_all add: add_range_block_def CreateBlock_def split_beta Let_def)
  then have g: "rn_globals (t_region t0) = state_info" "rn_locals (t_region t0) = []"
    by (simp_all add: t0_def new_translator_def new_region_def)
  have c0: "t_closed 32 0 t0"
    by (auto simp: t_closed_def closed_wf_def wf_region_def wf_blocks_def bounded_def region_cost_def num_insts_def
        NumAll_def t0(1) g new_block_def block_shape_def len_state_info sum_list_replicate)
  obtain t' where t': "translate_ranges code rgs t0 = Inr t'" and rn: "rn = t_region t'"
    using assms(1) unfolding CompilerGenRegionIR_def Translate_def t0_def [symmetric]
    by (cases "translate_ranges code rgs t0") auto
  note idx = range_index_nth [OF assms(2)] and dom = range_index_SomeD [of rgs]
  have "t_closed (32 + 192 * length rgs) (0 + 384 * length rgs) t'"
  proof (rule translate_ranges_wf [OF t' assms(2) _ _ _ c0 assms(3)])
    show "\<forall>rg \<in> set rgs. \<exists>b. t_ip2bb t0 (fst rg) = Some b \<and> empty_block (t_region t0) b"
    proof
      fix rg assume "rg \<in> set rgs"
      then obtain i where "i < length rgs" "rg = rgs ! i" by (auto simp: in_set_conv_nth)
      then show "\<exists>b. t_ip2bb t0 (fst rg) = Some b \<and> empty_block (t_region t0) b"
        using idx [of i] by (simp add: t0 empty_block_def new_block_def)
    qed
    show "inj_on (t_ip2bb t0) (dom (t_ip2bb t0))" unfolding t0 by (rule inj_onI) (metis dom domD)
    show "ip2bb_ok t0" using dom by (simp add: t0 ip2bb_ok_def)
  qed (use assms in \<open>simp add: t0\<close>)
  then show ?thesis by (simp add: t_closed_def rn)
qed

end
