(* ===== verification/Regalloc.thy ===== *)
theory Regalloc
  imports Select Mir_Sem
begin

section \<open>Register allocation: codegen/regalloc.cpp\<close>

text \<open>
  \<open>QRegAlloc\<close> walks over the instructions of a region once and replaces virtual registers by
  physical ones. Per virtual register it tracks where the value is (nowhere, in its slot, in a
  register, in both), per physical register who is in it. Globals have slots in the guest CPU
  state, locals get slots in the spill frame when they are first spilled. Instructions it creates
  (fills, spills, copies) go right before the current one.
\<close>

subsection \<open>State\<close>

definition NO_SPILL :: u16 where "NO_SPILL = - 1"
definition N_PREGS :: nat where "N_PREGS = GPR_NUM"
definition MAX_VREGS :: nat where "MAX_VREGS = 512"
definition frame_size :: u16 where "frame_size = spillframe_size"

datatype location = L_DEAD | L_MEM | L_REG

record rtrack =
  rt_type :: vtype
  rt_global :: bool
  rt_offs :: u16
  rt_p :: regn
  rt_loc :: location
  rt_synced :: bool

text \<open>An \<open>RTrack *\<close> is an index into \<open>vregs\<close>, null is \<open>None\<close>; \<open>ra_pre\<close> is the block up to the current
  instruction, where the builder inserts.\<close>

record ra =
  ra_frame_cur :: u16
  ra_vregs :: "rtrack list"
  ra_p2v :: "regn \<Rightarrow> nat option"
  ra_pre :: "inst list"

definition upd_track :: "nat \<Rightarrow> (rtrack \<Rightarrow> rtrack) \<Rightarrow> ra \<Rightarrow> ra" where
  "upd_track v f a = a\<lparr>ra_vregs := (ra_vregs a)[v := f (ra_vregs a ! v)]\<rparr>"

definition EmitMov :: "voperand \<Rightarrow> voperand \<Rightarrow> ra \<Rightarrow> ra" where
  "EmitMov d s a = a\<lparr>ra_pre := Builder_Create (ra_pre a) (length (ra_pre a)) (Mov d s)\<rparr>"

definition new_rtrack :: rtrack where
  "new_rtrack = \<lparr>rt_type = T_UNDEF, rt_global = False, rt_offs = NO_SPILL, rt_p = 0, rt_loc = L_DEAD,
     rt_synced = False\<rparr>"

definition AddTrack :: "ra \<Rightarrow> (nat \<times> ra) res" where
  "AddTrack a =
     (if length (ra_vregs a) = MAX_VREGS then Inl (Panic [])
      else Inr (length (ra_vregs a), a\<lparr>ra_vregs := ra_vregs a @ [new_rtrack]\<rparr>))"

definition AddTrackGlobal :: "vtype \<Rightarrow> u16 \<Rightarrow> ra \<Rightarrow> ra res" where
  "AddTrackGlobal t state_offs a =
     rbind (AddTrack a) (\<lambda>(v, a').
       Inr (upd_track v (\<lambda>k. k\<lparr>rt_global := True, rt_type := t, rt_offs := state_offs\<rparr>) a'))"

definition AddTrackLocal :: "vtype \<Rightarrow> ra \<Rightarrow> ra res" where
  "AddTrackLocal t a =
     rbind (AddTrack a) (\<lambda>(v, a').
       Inr (upd_track v (\<lambda>k. k\<lparr>rt_global := False, rt_type := t, rt_offs := NO_SPILL\<rparr>) a'))"

text \<open>The constructor.\<close>

definition QRegAlloc :: "region \<Rightarrow> ra res" where
  "QRegAlloc rn =
     rbind (rfold (\<lambda>(offs, t). AddTrackGlobal t offs) (rn_globals rn)
        \<lparr>ra_frame_cur = 0, ra_vregs = [], ra_p2v = (\<lambda>_. None), ra_pre = []\<rparr>) (\<lambda>a.
     rfold AddTrackLocal (rn_locals rn) a)"

subsection \<open>Spilling and filling\<close>

text \<open>The sum is computed in \<open>int\<close>.\<close>

definition AllocFrameSlot :: "nat \<Rightarrow> ra \<Rightarrow> ra res" where
  "AllocFrameSlot v a =
     (let k = ra_vregs a ! v in
      if rt_offs k \<noteq> NO_SPILL \<or> rt_global k then Inl AssertFail
      else rbind (VTypeToSize (rt_type k)) (\<lambda>slot_sz.
        let slot_offs = ucast (roundup (ucast (ra_frame_cur a) :: u32) (ucast slot_sz)) :: u16 in
        if unat slot_offs + unat slot_sz > unat frame_size then Inl (Panic [])
        else Inr ((upd_track v (\<lambda>k. k\<lparr>rt_offs := slot_offs\<rparr>) a)\<lparr>ra_frame_cur := slot_offs + ucast slot_sz\<rparr>)))"

definition EmitSpill :: "nat \<Rightarrow> ra \<Rightarrow> ra res" where
  "EmitSpill v a =
     rbind (if \<not> rt_global (ra_vregs a ! v) \<and> rt_offs (ra_vregs a ! v) = NO_SPILL
            then AllocFrameSlot v a else Inr a) (\<lambda>a'.
       let k = ra_vregs a' ! v in
       Inr (EmitMov (VSlot (rt_global k) (rt_type k) (rt_offs k)) (VPReg (rt_type k) (rt_p k)) a'))"

definition EmitFill :: "nat \<Rightarrow> ra \<Rightarrow> ra res" where
  "EmitFill v a =
     (let k = ra_vregs a ! v in
      if rt_offs k = NO_SPILL then Inl AssertFail
      else Inr (EmitMov (VPReg (rt_type k) (rt_p k)) (VSlot (rt_global k) (rt_type k) (rt_offs k)) a))"

definition SyncSpill :: "nat \<Rightarrow> ra \<Rightarrow> ra res" where
  "SyncSpill v a =
     (let k = ra_vregs a ! v in
      if rt_synced k then Inr a
      else case rt_loc k of
        L_MEM \<Rightarrow> Inr a
      | L_REG \<Rightarrow> rbind (EmitSpill v a) (\<lambda>a'. Inr (upd_track v (\<lambda>k. k\<lparr>rt_synced := True\<rparr>) a'))
      | L_DEAD \<Rightarrow> Inl (Panic []))"

definition Release :: "bool \<Rightarrow> nat \<Rightarrow> ra \<Rightarrow> ra" where
  "Release kill v a =
     (let k = ra_vregs a ! v;
          a' = upd_track v (\<lambda>k. k\<lparr>rt_loc :=
             if rt_global k then L_MEM else if kill then L_DEAD else L_MEM\<rparr>) a
      in if rt_loc k = L_REG then a'\<lparr>ra_p2v := (ra_p2v a')(rt_p k := None)\<rparr> else a')"

definition Spill_track :: "nat \<Rightarrow> ra \<Rightarrow> ra res" where
  "Spill_track v a = rbind (SyncSpill v a) (\<lambda>a'. Inr (Release False v a'))"

definition Spill_preg :: "regn \<Rightarrow> ra \<Rightarrow> ra res" where
  "Spill_preg p a = (case ra_p2v a p of None \<Rightarrow> Inr a | Some v \<Rightarrow> Spill_track v a)"

definition pregs :: "regn list" where
  "pregs = map of_nat [0 ..< N_PREGS]"

definition AllocPReg :: "reg_mask \<Rightarrow> reg_mask \<Rightarrow> ra \<Rightarrow> (regn \<times> ra) res" where
  "AllocPReg desire avoid a =
     (let target = desire AND NOT avoid in
      case find (\<lambda>p. ra_p2v a p = None \<and> rm_Test target p) pregs of
        Some p \<Rightarrow> Inr (p, a)
      | None \<Rightarrow>
          (case find (rm_Test target) pregs of
             Some p \<Rightarrow> rbind (Spill_preg p a) (\<lambda>a'. Inr (p, a'))
           | None \<Rightarrow> Inl (Panic [])))"

definition Fill :: "nat \<Rightarrow> reg_mask \<Rightarrow> reg_mask \<Rightarrow> ra \<Rightarrow> ra res" where
  "Fill v desire avoid a =
     (case rt_loc (ra_vregs a ! v) of
        L_MEM \<Rightarrow>
          rbind (AllocPReg desire avoid a) (\<lambda>(p, a').
            let a'' = upd_track v (\<lambda>k. k\<lparr>rt_p := p, rt_loc := L_REG, rt_synced := True\<rparr>) a'
            in EmitFill v (a''\<lparr>ra_p2v := (ra_p2v a'')(p := Some v)\<rparr>))
      | L_REG \<Rightarrow> Inr a
      | L_DEAD \<Rightarrow> Inl (Panic []))"

subsection \<open>Boundaries\<close>

definition Prologue :: "ra \<Rightarrow> ra" where
  "Prologue a = a\<lparr>ra_vregs := map (\<lambda>k. k\<lparr>rt_loc := if rt_global k then L_MEM else L_DEAD\<rparr>) (ra_vregs a)\<rparr>"

definition spill_global :: "nat \<Rightarrow> ra \<Rightarrow> ra res" where
  "spill_global i a = (if rt_global (ra_vregs a ! i) then Spill_track i a else Inr a)"

definition BlockBoundary :: "ra \<Rightarrow> ra res" where
  "BlockBoundary a = rfold spill_global [0 ..< length (ra_vregs a)] a"

definition RegionBoundary :: "ra \<Rightarrow> ra res" where
  "RegionBoundary a =
     rfold (\<lambda>i a. if rt_global (ra_vregs a ! i) then Spill_track i a else Inr (Release False i a))
       [0 ..< length (ra_vregs a)] a"

subsection \<open>Instructions\<close>

text \<open>The bodies of the loops of \<open>AllocOp\<close>: the allocator, the operands and the registers to avoid.\<close>

type_synonym alloc_st = "ra \<times> voperand list \<times> reg_mask"

definition alloc_src :: "ra_op_ct list \<Rightarrow> nat list \<Rightarrow> nat \<Rightarrow> nat \<Rightarrow> alloc_st \<Rightarrow> alloc_st res" where
  "alloc_src op_ct op_order dst_n i_ao st =
     (case st of (a, srcl, avoid) \<Rightarrow>
        let i = op_order ! (dst_n + i_ao); ct = op_ct ! (dst_n + i) in
        case srcl ! i of
          VVReg t r \<Rightarrow>
            let v = unat r in
            rbind (Fill v (ct_cr ct) avoid a) (\<lambda>a1.
            let k = ra_vregs a1 ! v in
            rbind
              (if \<not> rm_Test (ct_cr ct) (rt_p k) then
                 rbind (AllocPReg (ct_cr ct) avoid a1) (\<lambda>(p, a2).
                   Inr (p, EmitMov (VPReg (rt_type k) p) (VPReg (rt_type k) (rt_p k)) a2))
               else Inr (rt_p k, a1))
              (\<lambda>(p, a2). Inr (a2, srcl[i := VPReg t p], rm_Set avoid p)))
        | _ \<Rightarrow> Inr st)"

definition sync_global :: "nat \<Rightarrow> ra \<Rightarrow> ra res" where
  "sync_global i a = (if rt_global (ra_vregs a ! i) then SyncSpill i a else Inr a)"

definition alloc_dst :: "ra_op_ct list \<Rightarrow> nat list \<Rightarrow> nat \<Rightarrow> alloc_st \<Rightarrow> alloc_st res" where
  "alloc_dst op_ct op_order i_ao st =
     (case st of (a, dstl, avoid) \<Rightarrow>
        let i = op_order ! i_ao; ct = op_ct ! i in
        case dstl ! i of
          VVReg t r \<Rightarrow>
            let v = unat r in
            rbind
              (if ct_has_alias ct then Inr a
               else rbind (AllocPReg (ct_cr ct) avoid a) (\<lambda>(p, a1).
                 let k = ra_vregs a1 ! v;
                     p2v = (if rt_loc k = L_REG then (ra_p2v a1)(rt_p k := None) else ra_p2v a1)
                 in Inr (upd_track v (\<lambda>k. k\<lparr>rt_loc := L_REG, rt_p := p\<rparr>) (a1\<lparr>ra_p2v := p2v(p := Some v)\<rparr>))))
              (\<lambda>a2. let a3 = upd_track v (\<lambda>k. k\<lparr>rt_synced := False\<rparr>) a2; p = rt_p (ra_vregs a3 ! v) in
                 Inr (a3, dstl[i := VPReg t p], rm_Set avoid p))
        | _ \<Rightarrow> Inr st)"

primrec set_outputs :: "inst \<Rightarrow> voperand list \<Rightarrow> inst" where
  "set_outputs (Hcall sid a) xs = Hcall sid a" | "set_outputs Br xs = Br"
| "set_outputs (Brcc cc a b) xs = Brcc cc a b" | "set_outputs (GBr t) xs = GBr t"
| "set_outputs (GBrind a) xs = GBrind a"
| "set_outputs (VMLoad sz sg d p) xs = VMLoad sz sg (xs ! 0) p"
| "set_outputs (VMStore sz sg p d) xs = VMStore sz sg p d"
| "set_outputs (Setcc cc d a b) xs = Setcc cc (xs ! 0) a b"
| "set_outputs (Mov d s) xs = Mov (xs ! 0) s"
| "set_outputs (Binop bop d a b) xs = Binop bop (xs ! 0) a b"

definition AllocOp :: "inst \<Rightarrow> ra \<Rightarrow> (inst \<times> ra) res" where
  "AllocOp ins a =
     (case op_info ins of
        None \<Rightarrow> Inl AssertFail
      | Some (op_ct, op_order) \<Rightarrow>
          let dst_n = length (outputs ins); src_n = length (inputs ins) in
          rbind (rfold (alloc_src op_ct op_order dst_n) [0 ..< src_n] (a, inputs ins, GPR_FIXED))
            (\<lambda>(a1, srcl, avoid).
          rbind (if GetOpFlags ins AND SIDEEFF \<noteq> 0 then rfold sync_global [0 ..< length (ra_vregs a1)] a1 else Inr a1)
            (\<lambda>a2.
          rbind (rfold (alloc_dst op_ct op_order) [0 ..< dst_n] (a2, outputs ins, avoid))
            (\<lambda>(a3, dstl, _). Inr (set_outputs (set_inputs ins srcl) dstl, a3)))))"

text \<open>
  The second loop of \<open>CallOp\<close> counts in a \<open>u8\<close>: with more than 255 virtual registers the counter
  wraps and the loop does not end. The counter has 256 values, so that many rounds decide.
\<close>

fun call_globals :: "nat \<Rightarrow> u8 \<Rightarrow> ra \<Rightarrow> ra res" where
  "call_globals fuel i a =
     (if unat i < length (ra_vregs a) then
        (case fuel of
           0 \<Rightarrow> Inl Hang
         | Suc n \<Rightarrow> rbind (spill_global (unat i) a) (call_globals n (i + 1)))
      else Inr a)"

declare call_globals.simps [simp del]

definition CallOp :: "bool \<Rightarrow> ra \<Rightarrow> ra res" where
  "CallOp use_globals a =
     rbind (rfold (\<lambda>p a. if rm_Test GPR_CALL_CLOBBER p then Spill_preg p a else Inr a) pregs a) (\<lambda>a1.
       if use_globals then call_globals 256 0 a1 else Inr a1)"

text \<open>\<open>QRegAllocVisitor\<close>.\<close>

definition ra_visit :: "inst \<Rightarrow> ra \<Rightarrow> (inst \<times> ra) res" where
  "ra_visit ins a =
     (case ins of
        Br \<Rightarrow> rbind (BlockBoundary a) (\<lambda>a'. Inr (ins, a'))
      | Brcc _ _ _ \<Rightarrow> rbind (AllocOp ins a) (\<lambda>(ins', a'). rbind (BlockBoundary a') (\<lambda>a''. Inr (ins', a'')))
      | GBr _ \<Rightarrow> rbind (RegionBoundary a) (\<lambda>a'. Inr (ins, a'))
      | GBrind _ \<Rightarrow> rbind (AllocOp ins a) (\<lambda>(ins', a'). rbind (RegionBoundary a') (\<lambda>a''. Inr (ins', a'')))
      | Hcall _ _ \<Rightarrow> rbind (CallOp True a) (\<lambda>a'. Inr (ins, a'))
      | _ \<Rightarrow> AllocOp ins a)"

definition ra_step_inst :: "inst \<Rightarrow> ra \<Rightarrow> ra res" where
  "ra_step_inst ins a = rbind (ra_visit ins a) (\<lambda>(ins', a'). Inr (a'\<lparr>ra_pre := ra_pre a' @ [ins']\<rparr>))"

definition ra_block :: "nat \<Rightarrow> region \<times> ra \<Rightarrow> (region \<times> ra) res" where
  "ra_block b st =
     (case st of (rn, a) \<Rightarrow>
        rbind (rfold ra_step_inst (bb_ilist (rn_blocks rn ! b)) (a\<lparr>ra_pre := []\<rparr>)) (\<lambda>a'.
          Inr (upd_block rn b (\<lambda>k. k\<lparr>bb_ilist := ra_pre a'\<rparr>), a')))"

definition QRegAlloc_Run :: "region \<Rightarrow> region res" where
  "QRegAlloc_Run rn =
     rbind (QRegAlloc rn) (\<lambda>a.
     rbind (rfold ra_block [0 ..< length (rn_blocks rn)] (rn, Prologue a)) (\<lambda>(rn', _). Inr rn'))"

end
