(* ===== verification/Regalloc_Correct.thy ===== *)
theory Regalloc_Correct
  imports Regalloc
begin

section \<open>Correctness of register allocation\<close>

text \<open>
  The allocator's state is related to a state over virtual registers and a machine state: every
  defined virtual register has its value where the tracker says. Each operation of the allocator
  keeps the invariant of its tables, does not fault, and emits code that keeps the relation.
\<close>

subsection \<open>Invariant\<close>

abbreviation trk :: "ra \<Rightarrow> nat \<Rightarrow> rtrack" where
  "trk a v \<equiv> ra_vregs a ! v"

abbreviation nv :: "ra \<Rightarrow> nat" where
  "nv a \<equiv> length (ra_vregs a)"

text \<open>The locals that have a slot in the frame.\<close>

definition slots :: "ra \<Rightarrow> nat set" where
  "slots a = {v. 32 \<le> v \<and> v < nv a \<and> rt_offs (trk a v) \<noteq> NO_SPILL}"

definition slot_apart :: "ra \<Rightarrow> nat \<Rightarrow> nat \<Rightarrow> bool" where
  "slot_apart a v w \<longleftrightarrow>
     unat (rt_offs (trk a v)) + tbytes (rt_type (trk a v)) \<le> unat (rt_offs (trk a w)) \<or>
     unat (rt_offs (trk a w)) + tbytes (rt_type (trk a w)) \<le> unat (rt_offs (trk a v))"

definition frame_inv :: "ra \<Rightarrow> bool" where
  "frame_inv a \<longleftrightarrow>
     unat (ra_frame_cur a) \<le> 4 * card (slots a) \<and>
     (\<forall>v \<in> slots a. unat (rt_offs (trk a v)) + tbytes (rt_type (trk a v)) \<le> unat (ra_frame_cur a)) \<and>
     (\<forall>v \<in> slots a. \<forall>w \<in> slots a. v \<noteq> w \<longrightarrow> slot_apart a v w)"

definition track_inv :: "ra \<Rightarrow> bool" where
  "track_inv a \<longleftrightarrow>
     32 \<le> nv a \<and> nv a \<le> 288 \<and> (\<forall>v < nv a. rt_global (trk a v) \<longleftrightarrow> v < 32) \<and>
     (\<forall>v < nv a. rt_type (trk a v) \<noteq> T_UNDEF) \<and>
     (\<forall>v < 32. rt_type (trk a v) = T_I32 \<and> rt_offs (trk a v) = fst (state_info ! v) \<and>
        rt_loc (trk a v) \<noteq> L_DEAD) \<and> rt_loc (trk a 31) = L_MEM"

definition preg_inv :: "ra \<Rightarrow> bool" where
  "preg_inv a \<longleftrightarrow>
     (\<forall>v < nv a. rt_loc (trk a v) = L_REG \<longrightarrow>
        unat (rt_p (trk a v)) < 16 \<and> \<not> rm_Test GPR_FIXED (rt_p (trk a v)) \<and>
        ra_p2v a (rt_p (trk a v)) = Some v) \<and>
     (\<forall>p v. ra_p2v a p = Some v \<longrightarrow> v < nv a \<and> rt_loc (trk a v) = L_REG \<and> rt_p (trk a v) = p)"

text \<open>The virtual registers in \<open>D\<close> have a value somewhere.\<close>

definition in_slot :: "rtrack \<Rightarrow> bool" where
  "in_slot k \<longleftrightarrow> rt_loc k = L_MEM \<or> rt_synced k"

definition defd :: "nat set \<Rightarrow> ra \<Rightarrow> bool" where
  "defd D a \<longleftrightarrow>
     (\<forall>v \<in> D. v < nv a \<and> rt_loc (trk a v) \<noteq> L_DEAD \<and>
        (in_slot (trk a v) \<longrightarrow> rt_offs (trk a v) \<noteq> NO_SPILL))"

definition good :: "nat set \<Rightarrow> ra \<Rightarrow> bool" where
  "good D a \<longleftrightarrow> track_inv a \<and> preg_inv a \<and> frame_inv a \<and> defd D a"

subsection \<open>Relation to the states\<close>

definition slot_val :: "ra \<Rightarrow> mstate \<Rightarrow> nat \<Rightarrow> u32" where
  "slot_val a ms v =
     (if v < 32 then m_gs ms (of_nat v) else frame_load (rt_type (trk a v)) (m_frame ms) (rt_offs (trk a v)))"

definition holds :: "ra \<Rightarrow> qstate \<Rightarrow> mstate \<Rightarrow> nat \<Rightarrow> bool" where
  "holds a st ms v \<longleftrightarrow>
     (let k = trk a v; x = tval (rt_type k) (q_vr st (of_nat v)) in
      (rt_loc k = L_REG \<longrightarrow> tval (rt_type k) (m_pr ms (rt_p k)) = x) \<and>
      (in_slot k \<longrightarrow> slot_val a ms v = x))"

definition rel :: "nat set \<Rightarrow> ra \<Rightarrow> qstate \<Rightarrow> mstate \<Rightarrow> bool" where
  "rel D a st ms \<longleftrightarrow> (\<forall>v \<in> D. holds a st ms v) \<and> m_mem ms = q_mem st \<and> m_trap ms = q_trap st"

text \<open>Registers that hold operands of the current instruction.\<close>

definition binds :: "(regn \<times> vtype \<times> regn) set \<Rightarrow> qstate \<Rightarrow> mstate \<Rightarrow> bool" where
  "binds B st ms \<longleftrightarrow> (\<forall>(p, t, r) \<in> B. tval t (m_pr ms p) = tval t (q_vr st r))"

text \<open>
  Instructions the allocator adds are moves between a register and a register or a slot; it uses
  no register that the code generator has reserved.
\<close>

definition mreg :: "regn \<Rightarrow> bool" where
  "mreg p \<longleftrightarrow> unat p < 16 \<and> \<not> rm_Test GPR_FIXED p"

lemma mreg16: "mreg p \<Longrightarrow> unat p < 16"
  by (simp add: mreg_def)

text \<open>Operands of allocated code: a register, a constant, or a slot that lies inside its area.\<close>

primrec mtyp :: "vtype \<Rightarrow> voperand \<Rightarrow> bool" where
  "mtyp t VBad = False"
| "mtyp t (VConst t' c) = (t' = t \<and> t \<noteq> T_UNDEF)"
| "mtyp t (VVReg t' r) = False"
| "mtyp t (VPReg t' p) = (t' = t \<and> t \<noteq> T_UNDEF \<and> mreg p)"
| "mtyp t (VSlot g t' offs) = (t' = t \<and> t \<noteq> T_UNDEF \<and>
     (if g then t = T_I32 \<and> slot_reg offs \<noteq> None else unat offs + tbytes t \<le> unat frame_size))"

definition is_slot :: "voperand \<Rightarrow> bool" where
  "is_slot x \<longleftrightarrow> (case x of VSlot g t offs \<Rightarrow> True | _ \<Rightarrow> False)"

definition is_preg :: "voperand \<Rightarrow> bool" where
  "is_preg x \<longleftrightarrow> (case x of VPReg t p \<Rightarrow> True | _ \<Rightarrow> False)"

lemmas opr_kinds = is_slot_def is_preg_def is_const_def

definition mov_ok :: "voperand \<Rightarrow> voperand \<Rightarrow> bool" where
  "mov_ok d s \<longleftrightarrow> mtyp (opr_type d) d \<and> mtyp (opr_type d) s \<and> \<not> is_const d \<and> \<not> (is_slot d \<and> is_slot s)"

definition emitted_ok :: "inst \<Rightarrow> bool" where
  "emitted_ok i \<longleftrightarrow> (case i of Mov d s \<Rightarrow> mov_ok d s | _ \<Rightarrow> False)"

definition ra_sim ::
  "nat set \<Rightarrow> ra \<Rightarrow> (regn \<times> vtype \<times> regn) set \<Rightarrow> ra \<Rightarrow> (regn \<times> vtype \<times> regn) set \<Rightarrow> bool" where
  "ra_sim D a B a' B' \<longleftrightarrow>
     (\<exists>is. ra_pre a' = ra_pre a @ is \<and> list_all emitted_ok is \<and>
        (\<forall>e st ms. rel D a st ms \<and> binds B st ms \<longrightarrow>
           (\<exists>ms'. mexec_insts e is ms = Some (MNext ms') \<and> rel D a' st ms' \<and> binds B' st ms')))"

definition same_vregs :: "ra \<Rightarrow> ra \<Rightarrow> bool" where
  "same_vregs a a' \<longleftrightarrow> nv a' = nv a \<and> (\<forall>v < nv a. rt_type (trk a' v) = rt_type (trk a v))"

text \<open>Registers in \<open>avoid\<close> are not taken from their owners.\<close>

definition pins :: "reg_mask \<Rightarrow> ra \<Rightarrow> ra \<Rightarrow> bool" where
  "pins avoid a a' \<longleftrightarrow>
     (\<forall>w < nv a. rt_loc (trk a w) = L_REG \<and> rm_Test avoid (rt_p (trk a w)) \<longrightarrow>
        rt_loc (trk a' w) = L_REG \<and> rt_p (trk a' w) = rt_p (trk a w))"

definition quiet :: "nat set \<Rightarrow> ra \<Rightarrow> ra \<Rightarrow> bool" where
  "quiet D a a' \<longleftrightarrow> good D a' \<and> same_vregs a a' \<and> (\<forall>B. ra_sim D a B a' B)"

lemma slot_val_pr [simp]:
  "slot_val a (ms\<lparr>m_pr := f\<rparr>) v = slot_val a ms v" "slot_val a (ms\<lparr>m_mem := m\<rparr>) v = slot_val a ms v"
  by (simp_all add: slot_val_def)

lemma slot_val_gs [simp]:
  "slot_val a (ms\<lparr>m_gs := (m_gs ms)(r := x)\<rparr>) v = (if v < 32 \<and> of_nat v = r then x else slot_val a ms v)"
  by (simp add: slot_val_def)

lemma ra_sim_refl [simp]: "ra_sim D a B a B"
  unfolding ra_sim_def by (intro exI [of _ "[]"]) auto

lemma ra_sim_trans:
  assumes "ra_sim D a B a1 B1" "ra_sim D a1 B1 a2 B2"
  shows "ra_sim D a B a2 B2"
proof -
  obtain is1 is2 where 1: "ra_pre a1 = ra_pre a @ is1 \<and> list_all emitted_ok is1"
    "ra_pre a2 = ra_pre a1 @ is2 \<and> list_all emitted_ok is2"
    "\<And>e st ms. rel D a st ms \<and> binds B st ms \<Longrightarrow>
       \<exists>ms'. mexec_insts e is1 ms = Some (MNext ms') \<and> rel D a1 st ms' \<and> binds B1 st ms'"
    "\<And>e st ms. rel D a1 st ms \<and> binds B1 st ms \<Longrightarrow>
       \<exists>ms'. mexec_insts e is2 ms = Some (MNext ms') \<and> rel D a2 st ms' \<and> binds B2 st ms'"
    using assms unfolding ra_sim_def by blast
  have "\<exists>ms'. mexec_insts e (is1 @ is2) ms = Some (MNext ms') \<and> rel D a2 st ms' \<and> binds B2 st ms'"
    if "rel D a st ms \<and> binds B st ms" for e st ms
    using 1(3) [OF that, of e] 1(4) [of st _ e] by (fastforce simp: mexec_insts_append)
  with 1(1,2) show ?thesis unfolding ra_sim_def by (intro exI [of _ "is1 @ is2"]) simp
qed

lemma same_vregs_refl [simp]: "same_vregs a a"
  by (simp add: same_vregs_def)

lemma same_vregs_trans: "same_vregs a b \<Longrightarrow> same_vregs b c \<Longrightarrow> same_vregs a c"
  by (simp add: same_vregs_def)

lemma quiet_refl: "good D a \<Longrightarrow> quiet D a a"
  by (simp add: quiet_def)

lemma quiet_trans: "quiet D a b \<Longrightarrow> quiet D b c \<Longrightarrow> quiet D a c"
  by (meson quiet_def ra_sim_trans same_vregs_trans)

text \<open>Steps that emit nothing, or one instruction.\<close>

lemma ra_sim_pure:
  assumes "ra_pre a' = ra_pre a" "\<And>st ms. rel D a st ms \<Longrightarrow> rel D a' st ms"
  shows "ra_sim D a B a' B"
  using assms unfolding ra_sim_def by (intro exI [of _ "[]"]) auto

lemma ra_sim_one:
  assumes "ra_pre a' = ra_pre a @ [i]" "emitted_ok i"
    "\<And>e st ms. rel D a st ms \<Longrightarrow> binds B st ms \<Longrightarrow>
       \<exists>ms'. mexec_inst e i ms = Some (MNext ms') \<and> rel D a' st ms' \<and> binds B' st ms'"
  shows "ra_sim D a B a' B'"
  using assms unfolding ra_sim_def
  by (intro exI [of _ "[i]"]) (auto simp: mexec_insts_single simp del: mexec_insts.simps)

lemma upd_track_sel [simp]:
  "nv (upd_track v f a) = nv a" "ra_p2v (upd_track v f a) = ra_p2v a" "ra_pre (upd_track v f a) = ra_pre a"
  "ra_frame_cur (upd_track v f a) = ra_frame_cur a"
  "v < nv a \<Longrightarrow> trk (upd_track v f a) w = (if w = v then f (trk a v) else trk a w)"
  by (simp_all add: upd_track_def nth_list_update)

lemma EmitMov_sel [simp]:
  "ra_vregs (EmitMov d s a) = ra_vregs a" "ra_p2v (EmitMov d s a) = ra_p2v a"
  "ra_frame_cur (EmitMov d s a) = ra_frame_cur a" "ra_pre (EmitMov d s a) = ra_pre a @ [Mov d s]"
  by (simp_all add: EmitMov_def Builder_Create_eq il_insert_def fold_inst_def folder_visit_def)

text \<open>The instructions emitted so far do not matter for the invariant and the relation.\<close>

lemma ra_pre_irrelevant [simp]:
  "good D (a\<lparr>ra_pre := xs\<rparr>) = good D a" "rel D (a\<lparr>ra_pre := xs\<rparr>) st ms = rel D a st ms"
  "same_vregs a' (a\<lparr>ra_pre := xs\<rparr>) = same_vregs a' a" "pins m a' (a\<lparr>ra_pre := xs\<rparr>) = pins m a' a"
proof -
  have "slots (a\<lparr>ra_pre := xs\<rparr>) = slots a" "slot_apart (a\<lparr>ra_pre := xs\<rparr>) = slot_apart a"
    by (simp_all add: slots_def slot_apart_def fun_eq_iff)
  then show "good D (a\<lparr>ra_pre := xs\<rparr>) = good D a"
    by (simp add: good_def track_inv_def preg_inv_def frame_inv_def defd_def)
  have "holds (a\<lparr>ra_pre := xs\<rparr>) st ms v = holds a st ms v" for v
    by (simp add: holds_def slot_val_def Let_def)
  then show "rel D (a\<lparr>ra_pre := xs\<rparr>) st ms = rel D a st ms" by (simp add: rel_def)
qed (simp_all add: same_vregs_def pins_def)

subsection \<open>Frame slots\<close>

lemma unat_NO_SPILL: "unat NO_SPILL = 65535"
  by (simp add: NO_SPILL_def unsigned_minus_1_eq_mask mask_eq_exp_minus_1)

lemma VTypeToSize_eq: "t \<noteq> T_UNDEF \<Longrightarrow> VTypeToSize t = Inr (of_nat (tbytes t))"
  by (cases t) (simp_all add: VTypeToSize_def)

lemma roundup_slot:
  assumes "t \<noteq> T_UNDEF" "x \<le> 4 * k" "k \<le> 255"
  shows "x \<le> (x + (tbytes t - 1)) div tbytes t * tbytes t"
    "(x + (tbytes t - 1)) div tbytes t * tbytes t \<le> 4 * k"
  using assms by (cases t; simp)+

lemma frame_slot_offs:
  assumes "t \<noteq> T_UNDEF" "unat fc \<le> 4 * k" "k \<le> 255"
  defines "offs \<equiv> ucast (roundup (ucast (fc :: u16) :: u32) (ucast (of_nat (tbytes t) :: u8))) :: u16"
  shows "unat fc \<le> unat offs" "unat offs \<le> 4 * k"
proof -
  have t: "tbytes t \<in> {1, 2, 4}" using assms(1) by (cases t) simp_all
  have u: "unat (ucast (of_nat (tbytes t) :: u8) :: u32) = tbytes t" using t by auto
  have fc: "unat (ucast fc :: u32) = unat fc"
    using assms(2,3) by (simp add: unsigned_ucast_eq take_bit_nat_eq_self)
  have "unat (roundup (ucast fc :: u32) (ucast (of_nat (tbytes t) :: u8))) =
      (unat fc + (tbytes t - 1)) div tbytes t * tbytes t"
    using t assms(2,3) by (subst unat_roundup) (auto simp: u fc word_less_nat_alt)
  moreover note roundup_slot [OF assms(1-3)]
  moreover have "unat offs = unat (roundup (ucast fc :: u32) (ucast (of_nat (tbytes t) :: u8)))"
    if "unat (roundup (ucast fc :: u32) (ucast (of_nat (tbytes t) :: u8))) < 2 ^ 16"
    using that by (simp add: offs_def unsigned_ucast_eq take_bit_nat_eq_self)
  ultimately show "unat fc \<le> unat offs" "unat offs \<le> 4 * k" using assms(3) by simp_all
qed

lemma card_slots_less:
  assumes "nv a \<le> 288" "32 \<le> v" "v < nv a" "v \<notin> slots a"
  shows "card (slots a) \<le> 255"
proof -
  have "slots a \<subseteq> {32 ..< nv a} - {v}" using assms by (auto simp: slots_def)
  then have "card (slots a) \<le> card ({32 ..< nv a} - {v})" by (intro card_mono) auto
  with assms show ?thesis by simp
qed

lemma AllocFrameSlot_spec:
  assumes inv: "track_inv a" "frame_inv a" and v: "v < nv a" "32 \<le> v" "rt_offs (trk a v) = NO_SPILL"
  obtains offs fc where
    "AllocFrameSlot v a = Inr ((upd_track v (\<lambda>k. k\<lparr>rt_offs := offs\<rparr>) a)\<lparr>ra_frame_cur := fc\<rparr>)"
    "offs \<noteq> NO_SPILL"
    "frame_inv ((upd_track v (\<lambda>k. k\<lparr>rt_offs := offs\<rparr>) a)\<lparr>ra_frame_cur := fc\<rparr>)"
proof -
  let ?t = "rt_type (trk a v)"
  have t: "?t \<noteq> T_UNDEF" "\<not> rt_global (trk a v)" "nv a \<le> 288" using inv(1) v by (auto simp: track_inv_def)
  have nin: "v \<notin> slots a" using v(3) by (simp add: slots_def)
  have card: "card (slots a) \<le> 255" by (rule card_slots_less [OF t(3) v(2,1) nin])
  have fin: "finite (slots a)" by (rule finite_subset [of _ "{..< nv a}"]) (auto simp: slots_def)
  have fc: "unat (ra_frame_cur a) \<le> 4 * card (slots a)" using inv(2) by (simp add: frame_inv_def)
  define offs where "offs = (ucast (roundup (ucast (ra_frame_cur a) :: u32) (ucast (of_nat (tbytes ?t) :: u8))) :: u16)"
  note off = frame_slot_offs [OF t(1) fc card, folded offs_def]
  have tb: "tbytes ?t \<le> 4" "0 < tbytes ?t" "unat (of_nat (tbytes ?t) :: u8) = tbytes ?t"
    "unat (ucast (of_nat (tbytes ?t) :: u8) :: u16) = tbytes ?t" using t(1) by (cases ?t; simp)+
  have small: "unat offs + tbytes ?t \<le> 1024" using off(2) card tb by simp
  have ns: "offs \<noteq> NO_SPILL" using small unat_NO_SPILL by auto
  define fc' where "fc' = offs + ucast (of_nat (tbytes ?t) :: u8)"
  have fc': "unat fc' = unat offs + tbytes ?t"
    unfolding fc'_def using small tb by (subst unat_add_lem [THEN iffD1]) (simp_all only:, simp)
  define a' where "a' = (upd_track v (\<lambda>k. k\<lparr>rt_offs := offs\<rparr>) a)\<lparr>ra_frame_cur := fc'\<rparr>"
  have a': "AllocFrameSlot v a = Inr a'"
    using v(3) t small tb
    by (simp add: AllocFrameSlot_def VTypeToSize_eq offs_def [symmetric] a'_def fc'_def frame_size_def
        spillframe_size_def)
  have tr: "trk a' w = (if w = v then (trk a v)\<lparr>rt_offs := offs\<rparr> else trk a w)" "nv a' = nv a" for w
    using v(1) by (simp_all add: a'_def)
  have sl: "slots a' = insert v (slots a)"
    using v ns by (auto simp: slots_def tr)
  have end_le: "unat (rt_offs (trk a w)) + tbytes (rt_type (trk a w)) \<le> unat (ra_frame_cur a)" if "w \<in> slots a" for w
    using inv(2) that by (simp add: frame_inv_def)
  have "frame_inv a'"
    unfolding frame_inv_def sl
  proof (intro conjI ballI impI)
    show "unat (ra_frame_cur a') \<le> 4 * card (insert v (slots a))"
      using fin nin off(2) tb by (simp add: a'_def fc')
    show "unat (rt_offs (trk a' w)) + tbytes (rt_type (trk a' w)) \<le> unat (ra_frame_cur a')"
      if "w \<in> insert v (slots a)" for w
      using that end_le [of w] off(1) nin by (auto simp: tr) (simp_all add: a'_def fc')
    show "slot_apart a' w1 w2" if "w1 \<in> insert v (slots a)" "w2 \<in> insert v (slots a)" "w1 \<noteq> w2" for w1 w2
      using that end_le [of w1] end_le [of w2] off(1) inv(2)
      by (auto simp: slot_apart_def tr frame_inv_def)
  qed
  with that [where offs = offs and fc = fc'] a' ns show thesis by (simp add: a'_def)
qed

subsection \<open>Spills\<close>

text \<open>Changing the flags of one register that keep its place.\<close>

lemma rel_update:
  assumes "rel D a st ms" and "\<And>v. v \<in> D \<Longrightarrow> holds a st ms v \<Longrightarrow> holds a' st ms' v"
    and "m_mem ms' = m_mem ms" "m_trap ms' = m_trap ms"
  shows "rel D a' st ms'"
  using assms by (simp add: rel_def)

lemma same_upd_track:
  assumes "v < nv a" "\<And>k. rt_type (f k) = rt_type k"
  shows "same_vregs a (upd_track v f a)"
  using assms by (simp add: same_vregs_def)

text \<open>
  Storing register \<open>p\<close> of \<open>v\<close> into the slot of \<open>v\<close>, which has one: no other value is disturbed.
\<close>

definition put_slot :: "ra \<Rightarrow> nat \<Rightarrow> mstate \<Rightarrow> u32 \<Rightarrow> mstate" where
  "put_slot a v ms x =
     (if v < 32 then ms\<lparr>m_gs := (m_gs ms)(of_nat v := x)\<rparr>
      else ms\<lparr>m_frame := frame_store (rt_type (trk a v)) (m_frame ms) (rt_offs (trk a v)) x\<rparr>)"

lemma put_slot_sel [simp]:
  "m_pr (put_slot a v ms x) = m_pr ms" "m_mem (put_slot a v ms x) = m_mem ms" "m_trap (put_slot a v ms x) = m_trap ms"
  by (simp_all add: put_slot_def)

lemma of_nat_vreg_eq:
  assumes "v < 2 ^ 16" "w < 2 ^ 16" shows "(of_nat v :: regn) = of_nat w \<longleftrightarrow> v = w"
proof -
  have "unat (of_nat x :: regn) = x" if "x < 2 ^ 16" for x
    using that by (simp add: unat_of_nat take_bit_nat_eq_self)
  with assms show ?thesis by metis
qed

lemma slot_val_put:
  assumes "track_inv a" "frame_inv a" "v < nv a" "w < nv a" "rt_offs (trk a v) \<noteq> NO_SPILL"
    "rt_offs (trk a w) \<noteq> NO_SPILL"
  shows "slot_val a (put_slot a v ms x) w = (if w = v then tval (rt_type (trk a v)) x else slot_val a ms w)"
proof (cases "w = v")
  case True
  then show ?thesis using assms(1) by (simp add: slot_val_def put_slot_def frame_load_store track_inv_def)
next
  case False
  have n: "nv a \<le> 288" using assms(1) by (simp add: track_inv_def)
  have "slot_apart a w v" if "32 \<le> v" "32 \<le> w"
    using assms(2-6) False that by (simp add: frame_inv_def slots_def)
  then show ?thesis
    using False assms(3,4) n frame_disjoint [of "rt_offs (trk a w)" "rt_type (trk a w)" "rt_offs (trk a v)" "rt_type (trk a v)"]
    by (auto simp: slot_val_def put_slot_def of_nat_vreg_eq slot_apart_def not_less)
qed

lemma mtyp_slot:
  assumes "track_inv a" "frame_inv a" "v < nv a" "rt_offs (trk a v) \<noteq> NO_SPILL"
  shows "mtyp (rt_type (trk a v)) (VSlot (rt_global (trk a v)) (rt_type (trk a v)) (rt_offs (trk a v)))"
proof (cases "v < 32")
  case True
  then show ?thesis using assms(1,3) slot_reg_state_info [OF True] by (simp add: track_inv_def)
next
  case False
  then have v: "v \<in> slots a" using assms(3,4) by (simp add: slots_def)
  have n: "nv a \<le> 288" using assms(1) by (simp add: track_inv_def)
  have "slots a \<subseteq> {32 ..< nv a}" by (auto simp: slots_def)
  then have "card (slots a) \<le> card {32 ..< nv a}" by (intro card_mono) auto
  then have "card (slots a) \<le> 256" using n by simp
  then have "unat (rt_offs (trk a v)) + tbytes (rt_type (trk a v)) \<le> unat frame_size"
    using assms(2) v by (force simp: frame_inv_def frame_size_def spillframe_size_def)
  then show ?thesis using False assms(1,3) by (simp add: track_inv_def)
qed

lemma mexec_spill:
  assumes "track_inv a" "v < nv a"
  shows "mexec_inst e (Mov (VSlot (rt_global (trk a v)) (rt_type (trk a v)) (rt_offs (trk a v)))
      (VPReg (rt_type (trk a v)) p)) ms =
    Some (MNext (put_slot a v ms (tval (rt_type (trk a v)) (m_pr ms p))))"
proof (cases "v < 32")
  case True
  then show ?thesis using assms slot_reg_state_info [OF True] by (simp add: track_inv_def put_slot_def)
next
  case False
  then show ?thesis using assms by (simp add: track_inv_def put_slot_def)
qed

lemma mexec_fill:
  assumes "track_inv a" "v < nv a"
  shows "mexec_inst e (Mov (VPReg (rt_type (trk a v)) p)
      (VSlot (rt_global (trk a v)) (rt_type (trk a v)) (rt_offs (trk a v)))) ms =
    Some (MNext (ms\<lparr>m_pr := (m_pr ms)(p := tmerge (rt_type (trk a v)) (m_pr ms p) (slot_val a ms v))\<rparr>))"
proof (cases "v < 32")
  case True
  then show ?thesis using assms slot_reg_state_info [OF True] by (simp add: track_inv_def slot_val_def)
next
  case False
  then show ?thesis using assms by (simp add: track_inv_def slot_val_def)
qed

lemma track_offs_global: "track_inv a \<Longrightarrow> v < 32 \<Longrightarrow> rt_offs (trk a v) \<noteq> NO_SPILL"
proof -
  assume a: "track_inv a" "v < 32"
  have "rt_offs (trk a v) = fst (state_info ! v)" using a by (simp add: track_inv_def)
  then have "rt_offs (trk a v) = of_nat (4 * Suc v)" unfolding state_info_nth [OF a(2)] fst_conv .
  moreover have "unat (of_nat (4 * Suc v) :: u16) = 4 * Suc v"
    using a(2) by (simp only: unat_of_nat) (simp add: take_bit_nat_eq_self)
  ultimately have "unat (rt_offs (trk a v)) = 4 * Suc v" by simp
  then show ?thesis using a(2) unat_NO_SPILL by auto
qed

text \<open>A state that differs from \<open>a\<close> in the slots and flags of \<open>v\<close> only.\<close>

lemma SyncSpill_spec:
  assumes good: "good D a" and v: "v < nv a" "rt_loc (trk a v) \<noteq> L_DEAD"
  obtains a' where "SyncSpill v a = Inr a'" "quiet D a a'" "in_slot (trk a' v)"
    "\<And>w. w < nv a \<Longrightarrow> rt_loc (trk a' w) = rt_loc (trk a w) \<and> rt_p (trk a' w) = rt_p (trk a w) \<and>
       (in_slot (trk a w) \<longrightarrow> in_slot (trk a' w))" "ra_p2v a' = ra_p2v a"
proof (cases "in_slot (trk a v)")
  case True
  then have "SyncSpill v a = Inr a" by (auto simp: SyncSpill_def in_slot_def Let_def)
  with that [of a] True quiet_refl [OF good] show thesis by simp
next
  case False
  have inv: "track_inv a" "preg_inv a" "frame_inv a" "defd D a" using good by (simp_all add: good_def)
  have loc: "rt_loc (trk a v) = L_REG" "\<not> rt_synced (trk a v)"
    using False v(2) by (cases "rt_loc (trk a v)"; simp add: in_slot_def)+
  obtain a1 o1 where a1: "(if \<not> rt_global (trk a v) \<and> rt_offs (trk a v) = NO_SPILL then AllocFrameSlot v a else Inr a) = Inr a1"
    and fr: "frame_inv a1" and off: "o1 \<noteq> NO_SPILL" and offv: "v < 32 \<Longrightarrow> o1 = rt_offs (trk a v)"
    and tr: "nv a1 = nv a" "ra_p2v a1 = ra_p2v a" "ra_pre a1 = ra_pre a"
      "\<And>w. trk a1 w = (if w = v then (trk a v)\<lparr>rt_offs := o1\<rparr> else trk a w)"
  proof (cases "\<not> rt_global (trk a v) \<and> rt_offs (trk a v) = NO_SPILL")
    case True
    then have "32 \<le> v" using inv(1) v(1) by (simp add: track_inv_def)
    from AllocFrameSlot_spec [OF inv(1,3) v(1) this conjunct2 [OF True]] obtain offs fc where
      *: "AllocFrameSlot v a = Inr ((upd_track v (\<lambda>k. k\<lparr>rt_offs := offs\<rparr>) a)\<lparr>ra_frame_cur := fc\<rparr>)" "offs \<noteq> NO_SPILL"
      "frame_inv ((upd_track v (\<lambda>k. k\<lparr>rt_offs := offs\<rparr>) a)\<lparr>ra_frame_cur := fc\<rparr>)" by metis
    show thesis by (rule that [of "(upd_track v (\<lambda>k. k\<lparr>rt_offs := offs\<rparr>) a)\<lparr>ra_frame_cur := fc\<rparr>" offs])
      (use * True v(1) \<open>32 \<le> v\<close> in simp_all)
  next
    case False
    then show thesis
      using that [of a "rt_offs (trk a v)"] inv(3) track_offs_global [OF inv(1), of v] v(1) inv(1)
      by (auto simp: track_inv_def)
  qed
  define a' where "a' = upd_track v (\<lambda>k. k\<lparr>rt_synced := True\<rparr>)
     (EmitMov (VSlot (rt_global (trk a1 v)) (rt_type (trk a1 v)) (rt_offs (trk a1 v)))
        (VPReg (rt_type (trk a1 v)) (rt_p (trk a1 v))) a1)"
  have ss: "SyncSpill v a = Inr a'"
    using loc a1 by (simp add: SyncSpill_def EmitSpill_def a'_def Let_def)
  have tr': "trk a' w = (if w = v then (trk a v)\<lparr>rt_offs := o1, rt_synced := True\<rparr> else trk a w)" for w
    using tr v(1) by (simp add: a'_def)
  have n: "nv a' = nv a" "ra_p2v a' = ra_p2v a" "ra_frame_cur a' = ra_frame_cur a1"
    using tr by (simp_all add: a'_def)
  have ti: "track_inv a1" "track_inv a'"
    using inv(1) offv v(1) loc unfolding track_inv_def n tr(1)
    by (auto simp: tr' tr(4))
  have pi: "preg_inv a'" using inv(2) unfolding preg_inv_def n by (simp add: tr' loc)
  have sl: "slots a' = slots a1" "slot_apart a' = slot_apart a1"
    using off by (auto simp: slots_def slot_apart_def fun_eq_iff tr' tr n)
  have fi: "frame_inv a'"
    using fr unfolding frame_inv_def sl n by (auto simp: tr' tr(4))
  have de: "defd D a'" using inv(4) off unfolding defd_def n by (auto simp: tr' in_slot_def)
  have sv: "slot_val a' ms w = slot_val a1 ms w" for ms w
    by (simp add: slot_val_def tr' tr(4))
  have "ra_sim D a B a' B" for B
  proof (rule ra_sim_one)
    show "ra_pre a' = ra_pre a @ [Mov (VSlot (rt_global (trk a1 v)) (rt_type (trk a1 v)) (rt_offs (trk a1 v)))
        (VPReg (rt_type (trk a1 v)) (rt_p (trk a1 v)))]" by (simp add: a'_def tr)
    show "emitted_ok (Mov (VSlot (rt_global (trk a1 v)) (rt_type (trk a1 v)) (rt_offs (trk a1 v)))
        (VPReg (rt_type (trk a1 v)) (rt_p (trk a1 v))))"
      using inv(2) v(1) loc mtyp_slot [OF ti(1) fr, of v] off ti(1)
      by (simp add: emitted_ok_def mov_ok_def opr_kinds mreg_def preg_inv_def tr track_inv_def)
    fix e st ms assume r: "rel D a st ms" "binds B st ms"
    define x where "x = tval (rt_type (trk a1 v)) (m_pr ms (rt_p (trk a1 v)))"
    have "rel D a' st (put_slot a1 v ms x)"
    proof (rule rel_update [OF r(1)])
      fix w assume w: "w \<in> D" and h: "holds a st ms w"
      have wn: "w < nv a" and wo: "in_slot (trk a w) \<longrightarrow> rt_offs (trk a w) \<noteq> NO_SPILL"
        using inv(4) w by (auto simp: defd_def)
      show "holds a' st (put_slot a1 v ms x) w"
      proof (cases "w = v")
        case True
        with h loc show ?thesis
          using slot_val_put [OF ti(1) fr, of v v ms x] v(1) off tr(1)
          by (simp add: holds_def sv x_def tr' tr(4) Let_def)
      next
        case False
        then have "slot_val a ms w = slot_val a1 ms w" by (simp add: slot_val_def tr(4))
        with h False show ?thesis
          using slot_val_put [OF ti(1) fr, of v w ms x] v(1) off tr wn wo
          by (simp add: holds_def sv tr' Let_def)
      qed
    qed simp_all
    then show "\<exists>ms'. mexec_inst e (Mov (VSlot (rt_global (trk a1 v)) (rt_type (trk a1 v)) (rt_offs (trk a1 v)))
        (VPReg (rt_type (trk a1 v)) (rt_p (trk a1 v)))) ms = Some (MNext ms') \<and> rel D a' st ms' \<and> binds B st ms'"
      using mexec_spill [OF ti(1), of v e "rt_p (trk a1 v)" ms] v(1) r(2) tr(1) by (simp add: x_def binds_def)
  qed
  moreover have "same_vregs a a'" by (simp add: same_vregs_def n tr')
  ultimately have "quiet D a a'" using ti pi fi de by (simp add: quiet_def good_def)
  with that [OF ss] n show thesis by (simp add: tr' in_slot_def)
qed

lemma Release_spec:
  assumes good: "good D a" and v: "v < nv a" "v \<in> D \<longrightarrow> in_slot (trk a v)"
  defines "a' \<equiv> Release False v a"
  shows "quiet D a a'" "rt_loc (trk a' v) = L_MEM"
    "\<And>w. w \<noteq> v \<Longrightarrow> trk a' w = trk a w"
    "ra_p2v a' = (if rt_loc (trk a v) = L_REG then (ra_p2v a)(rt_p (trk a v) := None) else ra_p2v a)"
proof -
  have inv: "track_inv a" "preg_inv a" "frame_inv a" "defd D a" using good by (simp_all add: good_def)
  have tr: "trk a' w = (if w = v then (trk a v)\<lparr>rt_loc := L_MEM\<rparr> else trk a w)" for w
    using v(1) by (auto simp: a'_def Release_def Let_def)
  show p2v: "ra_p2v a' = (if rt_loc (trk a v) = L_REG then (ra_p2v a)(rt_p (trk a v) := None) else ra_p2v a)"
    by (simp add: a'_def Release_def Let_def)
  have n: "nv a' = nv a" "ra_pre a' = ra_pre a" "ra_frame_cur a' = ra_frame_cur a"
    by (simp_all add: a'_def Release_def Let_def)
  have ti: "track_inv a'" using inv(1) unfolding track_inv_def n by (simp add: tr)
  have pi: "preg_inv a'"
    unfolding preg_inv_def n
  proof (intro conjI allI impI)
    fix w assume w: "w < nv a" "rt_loc (trk a' w) = L_REG"
    then have wv: "w \<noteq> v" "rt_loc (trk a w) = L_REG" by (auto simp: tr split: if_splits)
    then have pw: "ra_p2v a (rt_p (trk a w)) = Some w" "unat (rt_p (trk a w)) < 16" "\<not> rm_Test GPR_FIXED (rt_p (trk a w))"
      using inv(2) w(1) by (simp_all add: preg_inv_def)
    then have "rt_p (trk a w) \<noteq> rt_p (trk a v)" if "rt_loc (trk a v) = L_REG"
      using inv(2) v(1) wv(1) that by (metis option.inject preg_inv_def)
    with pw wv show "unat (rt_p (trk a' w)) < 16" "\<not> rm_Test GPR_FIXED (rt_p (trk a' w))"
      "ra_p2v a' (rt_p (trk a' w)) = Some w" by (simp_all add: tr p2v)
  next
    fix p w assume p: "ra_p2v a' p = Some w"
    then have "ra_p2v a p = Some w" "rt_loc (trk a v) = L_REG \<Longrightarrow> p \<noteq> rt_p (trk a v)"
      by (auto simp: p2v split: if_splits)
    then have "w < nv a" "rt_loc (trk a w) = L_REG" "rt_p (trk a w) = p" "w \<noteq> v"
      using inv(2) by (auto simp: preg_inv_def)
    then show "w < nv a" "rt_loc (trk a' w) = L_REG" "rt_p (trk a' w) = p" by (simp_all add: tr)
  qed
  have sl: "slots a' = slots a" "slot_apart a' = slot_apart a"
    by (auto simp: slots_def slot_apart_def fun_eq_iff tr n)
  have fi: "frame_inv a'" using inv(3) unfolding frame_inv_def sl n by (auto simp: tr)
  have de: "defd D a'" using inv(4) v(2) unfolding defd_def n by (auto simp: tr in_slot_def)
  have sv: "slot_val a' ms w = slot_val a ms w" for ms w by (simp add: slot_val_def tr)
  have "holds a' st ms w" if "w \<in> D" "holds a st ms w" for st ms w
    using that v(2) unfolding holds_def sv by (auto simp: tr Let_def in_slot_def)
  then have "rel D a' st ms" if "rel D a st ms" for st ms using that by (simp add: rel_def)
  then have "ra_sim D a B a' B" for B by (rule ra_sim_pure [OF n(2)])
  then show "quiet D a a'" using ti pi fi de by (simp add: quiet_def good_def same_vregs_def n tr)
  show "rt_loc (trk a' v) = L_MEM" "\<And>w. w \<noteq> v \<Longrightarrow> trk a' w = trk a w" by (simp_all add: tr)
qed

lemma quiet_nv: "quiet D a a' \<Longrightarrow> nv a' = nv a"
  by (simp add: quiet_def same_vregs_def)

lemma quiet_good: "quiet D a a' \<Longrightarrow> good D a'"
  by (simp add: quiet_def)

lemma Spill_track_spec:
  assumes good: "good D a" and v: "v < nv a" "rt_loc (trk a v) \<noteq> L_DEAD"
  obtains a' where "Spill_track v a = Inr a'" "quiet D a a'" "rt_loc (trk a' v) = L_MEM"
    "\<And>w. w < nv a \<Longrightarrow> w \<noteq> v \<Longrightarrow> rt_loc (trk a' w) = rt_loc (trk a w) \<and> rt_p (trk a' w) = rt_p (trk a w)"
    "ra_p2v a' = (if rt_loc (trk a v) = L_REG then (ra_p2v a)(rt_p (trk a v) := None) else ra_p2v a)"
    "\<forall>w < nv a. in_slot (trk a w) \<longrightarrow> in_slot (trk a' w)"
proof -
  obtain a1 where a1: "SyncSpill v a = Inr a1" "quiet D a a1" "in_slot (trk a1 v)"
    "\<And>w. w < nv a \<Longrightarrow> rt_loc (trk a1 w) = rt_loc (trk a w) \<and> rt_p (trk a1 w) = rt_p (trk a w) \<and>
       (in_slot (trk a w) \<longrightarrow> in_slot (trk a1 w))" "ra_p2v a1 = ra_p2v a"
    using SyncSpill_spec [OF good v] by metis
  have v1: "v < nv a1" using a1(2) v(1) by (simp add: quiet_nv)
  have "v \<in> D \<longrightarrow> in_slot (trk a1 v)" using a1(3) by simp
  note R = Release_spec [OF quiet_good [OF a1(2)] v1 this]
  show thesis
  proof (rule that [of "Release False v a1"])
    show "Spill_track v a = Inr (Release False v a1)" by (simp add: Spill_track_def a1(1))
    show "quiet D a (Release False v a1)" using a1(2) R(1) by (rule quiet_trans)
    show "ra_p2v (Release False v a1) = (if rt_loc (trk a v) = L_REG then (ra_p2v a)(rt_p (trk a v) := None) else ra_p2v a)"
      using R(4) a1(4) [OF v(1)] a1(5) by simp
    show "\<forall>w < nv a. in_slot (trk a w) \<longrightarrow> in_slot (trk (Release False v a1) w)"
    proof (intro allI impI)
      fix w assume "w < nv a" "in_slot (trk a w)"
      then show "in_slot (trk (Release False v a1) w)"
        using R(2) R(3) [of w] a1(4) [of w] by (cases "w = v") (simp_all, simp add: in_slot_def)
    qed
  qed (use R a1(4) in simp_all)
qed

subsection \<open>Taking a register\<close>

lemma set_pregs: "p \<in> set pregs \<longleftrightarrow> unat p < 16"
proof
  assume "p \<in> set pregs"
  then show "unat p < 16"
    by (auto simp: pregs_def N_PREGS_def GPR_NUM_def unat_of_nat take_bit_nat_eq_self)
next
  assume "unat p < 16"
  then show "p \<in> set pregs"
    by (auto simp: pregs_def N_PREGS_def GPR_NUM_def image_iff intro!: bexI [of _ "unat p"])
qed

lemma find_SomeD: "find P xs = Some x \<Longrightarrow> P x \<and> x \<in> set xs"
  by (auto simp: find_Some_iff)

definition has_target :: "reg_mask \<Rightarrow> reg_mask \<Rightarrow> bool" where
  "has_target desire avoid \<longleftrightarrow> (\<exists>q. unat q < 16 \<and> rm_Test desire q \<and> \<not> rm_Test avoid q)"

lemma AllocPReg_spec:
  assumes good: "good D a" and ex: "has_target desire avoid"
  obtains p a' where "AllocPReg desire avoid a = Inr (p, a')" "quiet D a a'" "unat p < 16" "rm_Test desire p"
    "\<not> rm_Test avoid p" "ra_p2v a' p = None" "pins avoid a a'"
    "\<And>w. w < nv a \<Longrightarrow> rt_loc (trk a w) = L_REG \<Longrightarrow> rt_p (trk a w) \<noteq> p \<Longrightarrow>
       rt_loc (trk a' w) = L_REG \<and> rt_p (trk a' w) = rt_p (trk a w)"
    "\<And>w. w < nv a \<Longrightarrow> rt_loc (trk a w) = L_MEM \<Longrightarrow> rt_loc (trk a' w) = L_MEM"
    "\<forall>w < nv a. in_slot (trk a w) \<longrightarrow> in_slot (trk a' w)"
proof -
  let ?T = "desire AND NOT avoid"
  have T: "rm_Test ?T p \<longleftrightarrow> rm_Test desire p \<and> \<not> rm_Test avoid p" if "unat p < 16" for p
    using that by simp
  show thesis
  proof (cases "find (\<lambda>p. ra_p2v a p = None \<and> rm_Test ?T p) pregs")
    case (Some p)
    from find_SomeD [OF this] have "ra_p2v a p = None" "rm_Test ?T p" "unat p < 16" by (simp_all add: set_pregs)
    then show thesis
      by (intro that [of p a]) (use Some T [of p] quiet_refl [OF good] in \<open>simp_all add: AllocPReg_def pins_def\<close>)
  next
    case None
    obtain q where "q \<in> set pregs" "rm_Test ?T q" using ex T by (auto simp: has_target_def set_pregs)
    then have "find (rm_Test ?T) pregs \<noteq> None" by (auto simp: find_None_iff)
    then obtain p where p: "find (rm_Test ?T) pregs = Some p" by blast
    from find_SomeD [OF p] have t: "rm_Test ?T p" "unat p < 16" by (simp_all add: set_pregs)
    have pi: "preg_inv a" using good by (simp add: good_def)
    show thesis
    proof (cases "ra_p2v a p")
      case free: None
      with None t have False unfolding find_None_iff by (auto simp: set_pregs)
      then show thesis ..
    next
      case (Some v)
      then have v: "v < nv a" "rt_loc (trk a v) = L_REG" "rt_p (trk a v) = p" using pi by (auto simp: preg_inv_def)
      obtain a' where a': "Spill_track v a = Inr a'" "quiet D a a'" "rt_loc (trk a' v) = L_MEM"
        "\<And>w. w < nv a \<Longrightarrow> w \<noteq> v \<Longrightarrow> rt_loc (trk a' w) = rt_loc (trk a w) \<and> rt_p (trk a' w) = rt_p (trk a w)"
        "ra_p2v a' = (if rt_loc (trk a v) = L_REG then (ra_p2v a)(rt_p (trk a v) := None) else ra_p2v a)"
        "\<forall>w < nv a. in_slot (trk a w) \<longrightarrow> in_slot (trk a' w)"
        by (rule Spill_track_spec [OF good v(1)]) (simp_all add: v(2))
      have "AllocPReg desire avoid a = Inr (p, a')"
        using None p Some a'(1) by (simp add: AllocPReg_def Spill_preg_def)
      then show thesis
      proof (rule that)
        show "pins avoid a a'" unfolding pins_def
        proof (intro allI impI)
          fix w assume w: "w < nv a" "rt_loc (trk a w) = L_REG \<and> rm_Test avoid (rt_p (trk a w))"
          then have "w \<noteq> v" using v(3) t T [OF t(2)] by auto
          with a'(4) w show "rt_loc (trk a' w) = L_REG \<and> rt_p (trk a' w) = rt_p (trk a w)" by simp
        qed
      next
        fix w assume w: "w < nv a" "rt_loc (trk a w) = L_REG" "rt_p (trk a w) \<noteq> p"
        then have "w \<noteq> v" using v by auto
        with a'(4) w show "rt_loc (trk a' w) = L_REG \<and> rt_p (trk a' w) = rt_p (trk a w)" by simp
      next
        fix w assume w: "w < nv a" "rt_loc (trk a w) = L_MEM"
        with a'(3,4) show "rt_loc (trk a' w) = L_MEM" by (cases "w = v") auto
      next
        show "quiet D a a'" "unat p < 16" by (fact a'(2) t(2))+
        show "rm_Test desire p" "\<not> rm_Test avoid p" using t T [OF t(2)] by simp_all
        show "ra_p2v a' p = None" by (simp add: a'(5) v)
        show "\<forall>w < nv a. in_slot (trk a w) \<longrightarrow> in_slot (trk a' w)" by (rule a'(6))
      qed
    qed
  qed
qed

subsection \<open>Fills and copies\<close>

definition avoids :: "reg_mask \<Rightarrow> (regn \<times> vtype \<times> regn) set \<Rightarrow> bool" where
  "avoids avoid B \<longleftrightarrow> (\<forall>(p, t, r) \<in> B. rm_Test avoid p)"

definition fixed_in :: "reg_mask \<Rightarrow> bool" where
  "fixed_in avoid \<longleftrightarrow> (\<forall>q. rm_Test GPR_FIXED q \<longrightarrow> rm_Test avoid q)"

lemma pins_refl [simp]: "pins avoid a a"
  by (simp add: pins_def)

lemma pins_trans:
  assumes "pins avoid a b" "pins avoid b c" "nv b = nv a"
  shows "pins avoid a c"
  using assms by (simp add: pins_def)

lemma binds_other: "avoids avoid B \<Longrightarrow> \<not> rm_Test avoid p \<Longrightarrow> binds B st ms \<Longrightarrow>
    binds B st (ms\<lparr>m_pr := (m_pr ms)(p := x)\<rparr>)"
  by (fastforce simp: binds_def avoids_def)

text \<open>Putting a defined register into a free physical one.\<close>

lemma preg_inv_place:
  assumes pi: "preg_inv a" and v: "v < nv a" "rt_loc (trk a v) \<noteq> L_REG"
    and p: "unat p < 16" "\<not> rm_Test GPR_FIXED p" "ra_p2v a p = None"
    and n: "nv a' = nv a" and p2v: "ra_p2v a' = (ra_p2v a)(p := Some v)"
    and tv: "rt_loc (trk a' v) = L_REG" "rt_p (trk a' v) = p" and tw: "\<And>w. w \<noteq> v \<Longrightarrow> trk a' w = trk a w"
  shows "preg_inv a'"
  unfolding preg_inv_def n
proof (intro conjI allI impI)
  fix w assume w: "w < nv a" "rt_loc (trk a' w) = L_REG"
  have "unat (rt_p (trk a' w)) < 16 \<and> \<not> rm_Test GPR_FIXED (rt_p (trk a' w)) \<and> ra_p2v a' (rt_p (trk a' w)) = Some w"
  proof (cases "w = v")
    case False
    then have *: "unat (rt_p (trk a w)) < 16" "\<not> rm_Test GPR_FIXED (rt_p (trk a w))" "ra_p2v a (rt_p (trk a w)) = Some w"
      using pi w tw by (simp_all add: preg_inv_def)
    then have "rt_p (trk a w) \<noteq> p" using p(3) by auto
    with * False show ?thesis by (simp add: tw p2v)
  qed (simp add: tv p p2v)
  then show "unat (rt_p (trk a' w)) < 16" "\<not> rm_Test GPR_FIXED (rt_p (trk a' w))"
    "ra_p2v a' (rt_p (trk a' w)) = Some w" by simp_all
next
  fix q w assume q: "ra_p2v a' q = Some w"
  have "w < nv a \<and> rt_loc (trk a' w) = L_REG \<and> rt_p (trk a' w) = q"
  proof (cases "q = p")
    case False
    then have *: "w < nv a" "rt_loc (trk a w) = L_REG" "rt_p (trk a w) = q"
      using q pi by (simp_all add: p2v preg_inv_def)
    then have "w \<noteq> v" using v(2) by auto
    with * show ?thesis by (simp add: tw)
  qed (use q v(1) tv in \<open>simp add: p2v\<close>)
  then show "w < nv a" "rt_loc (trk a' w) = L_REG" "rt_p (trk a' w) = q" by simp_all
qed

lemma frame_inv_cong:
  assumes "frame_inv a" "nv a' = nv a" "ra_frame_cur a' = ra_frame_cur a"
    "\<And>w. rt_offs (trk a' w) = rt_offs (trk a w) \<and> rt_type (trk a' w) = rt_type (trk a w)"
  shows "frame_inv a'"
proof -
  have "slots a' = slots a" "slot_apart a' = slot_apart a"
    by (simp_all add: slots_def slot_apart_def fun_eq_iff assms(2,4))
  with assms show ?thesis by (simp add: frame_inv_def)
qed

lemma Fill_spec:
  assumes good: "good D a" and v: "v \<in> D" "v \<noteq> 31" and ex: "has_target desire avoid" and fx: "fixed_in avoid"
  obtains a' where "Fill v desire avoid a = Inr a'" "good D a'" "same_vregs a a'"
    "\<And>B. avoids avoid B \<Longrightarrow> ra_sim D a B a' B" "rt_loc (trk a' v) = L_REG" "pins avoid a a'"
proof (cases "rt_loc (trk a v)")
  case L_DEAD
  then show thesis using good v(1) by (simp add: good_def defd_def)
next
  case L_REG
  then show thesis by (intro that [of a]) (simp_all add: Fill_def good)
next
  case L_MEM
  have vn: "v < nv a" using good v(1) by (simp add: good_def defd_def)
  obtain p a1 where a1: "AllocPReg desire avoid a = Inr (p, a1)" "quiet D a a1" "unat p < 16"
    "\<not> rm_Test avoid p" "ra_p2v a1 p = None" "pins avoid a a1" "rt_loc (trk a1 v) = L_MEM"
    by (rule AllocPReg_spec [OF good ex]) (use vn L_MEM in blast)
  have n1: "nv a1 = nv a" using a1(2) by (rule quiet_nv)
  have inv: "track_inv a1" "preg_inv a1" "frame_inv a1" "defd D a1"
    using quiet_good [OF a1(2)] by (simp_all add: good_def)
  define k where "k = (trk a1 v)\<lparr>rt_p := p, rt_loc := L_REG, rt_synced := True\<rparr>"
  define a2 where "a2 = (upd_track v (\<lambda>k. k\<lparr>rt_p := p, rt_loc := L_REG, rt_synced := True\<rparr>) a1)\<lparr>ra_p2v := (ra_p2v a1)(p := Some v)\<rparr>"
  have tr: "trk a2 w = (if w = v then k else trk a1 w)" for w using vn n1 by (simp add: a2_def k_def)
  have off: "rt_offs (trk a1 v) \<noteq> NO_SPILL" using inv(4) v(1) a1(7) by (simp add: defd_def in_slot_def)
  define i where "i = Mov (VPReg (rt_type (trk a2 v)) p) (VSlot (rt_global (trk a2 v)) (rt_type (trk a2 v)) (rt_offs (trk a2 v)))"
  define a' where "a' = EmitMov (VPReg (rt_type (trk a2 v)) p) (VSlot (rt_global (trk a2 v)) (rt_type (trk a2 v)) (rt_offs (trk a2 v))) a2"
  have tr': "trk a' w = (if w = v then k else trk a1 w)" for w using tr by (simp add: a'_def)
  have n: "nv a' = nv a" "ra_p2v a' = (ra_p2v a1)(p := Some v)" "ra_frame_cur a' = ra_frame_cur a1" "ra_pre a' = ra_pre a1 @ [i]"
    using n1 by (simp_all add: a'_def a2_def i_def)
  have fill: "Fill v desire avoid a = Inr a'"
    using L_MEM a1(1) off vn n1 by (simp add: Fill_def EmitFill_def a'_def a2_def Let_def)
  have ti: "track_inv a'" using inv(1) v(2) unfolding track_inv_def n n1 by (simp add: tr' k_def)
  have pi: "preg_inv a'"
    by (rule preg_inv_place [OF inv(2), of v p])
      (use vn n n1 a1 fx in \<open>auto simp: tr' k_def fixed_in_def\<close>)
  have fi: "frame_inv a'" by (rule frame_inv_cong [OF inv(3)]) (simp_all add: n n1 tr' k_def)
  have de: "defd D a'" using inv(4) off unfolding defd_def n n1 by (auto simp: tr' k_def)
  have gd: "good D a'" using ti pi fi de by (simp add: good_def)
  have same: "same_vregs a a'"
    using a1(2) by (auto simp: quiet_def same_vregs_def n tr' k_def)
  have sv: "slot_val a' ms w = slot_val a1 ms w" for ms w by (simp add: slot_val_def tr' k_def)
  have sim: "ra_sim D a1 B a' B" if B: "avoids avoid B" for B
  proof (rule ra_sim_one [OF n(4)])
    show "emitted_ok i"
      using a1(3,4) fx mtyp_slot [OF ti fi, of v] vn n(1) off ti
      by (auto simp: emitted_ok_def mov_ok_def opr_kinds i_def mreg_def fixed_in_def tr tr' k_def track_inv_def)
    fix e st ms assume r: "rel D a1 st ms" "binds B st ms"
    define ms' where "ms' = ms\<lparr>m_pr := (m_pr ms)(p := tmerge (rt_type (trk a' v)) (m_pr ms p) (slot_val a' ms v))\<rparr>"
    have ex: "mexec_inst e i ms = Some (MNext ms')"
      using mexec_fill [OF ti, of v e p ms] vn n(1) by (simp add: i_def ms'_def tr tr')
    have "rel D a' st ms'"
    proof (rule rel_update [OF r(1)])
      fix w assume w: "w \<in> D" and h: "holds a1 st ms w"
      have "slot_val a' ms' w = slot_val a' ms w" by (simp add: slot_val_def ms'_def)
      then have sl: "slot_val a' ms' w = slot_val a1 ms w" by (simp add: sv)
      show "holds a' st ms' w"
      proof (cases "w = v")
        case True
        with h a1(7) show ?thesis
          by (simp add: holds_def sl Let_def in_slot_def) (simp add: ms'_def tr' k_def sv)
      next
        case False
        have "rt_p (trk a1 w) \<noteq> p" if "rt_loc (trk a1 w) = L_REG"
          using inv(2) inv(4) w that a1(5) by (auto simp: preg_inv_def defd_def)
        with h False show ?thesis
          by (simp add: holds_def sl Let_def tr') (simp add: ms'_def)
      qed
    qed (simp_all add: ms'_def)
    moreover have "binds B st ms'" unfolding ms'_def by (rule binds_other [OF B a1(4) r(2)])
    ultimately show "\<exists>ms'. mexec_inst e i ms = Some (MNext ms') \<and> rel D a' st ms' \<and> binds B st ms'"
      using ex by blast
  qed
  show thesis
  proof (rule that [OF fill gd same])
    show "ra_sim D a B a' B" if "avoids avoid B" for B
      using a1(2) sim [OF that] by (meson quiet_def ra_sim_trans)
    show "rt_loc (trk a' v) = L_REG" by (simp add: tr' k_def)
    show "pins avoid a a'"
      using a1(6) L_MEM by (auto simp: pins_def tr')
  qed
qed

text \<open>Writing a register nobody owns.\<close>

lemma rel_free_preg:
  assumes "good D a" "rel D a st ms" "ra_p2v a p = None"
  shows "rel D a st (ms\<lparr>m_pr := (m_pr ms)(p := x)\<rparr>)"
proof (rule rel_update [OF assms(2)])
  fix w assume w: "w \<in> D" and h: "holds a st ms w"
  have "rt_p (trk a w) \<noteq> p" if "rt_loc (trk a w) = L_REG"
    using assms(1,3) w that by (auto simp: good_def preg_inv_def defd_def)
  with h show "holds a st (ms\<lparr>m_pr := (m_pr ms)(p := x)\<rparr>) w"
    by (simp add: holds_def Let_def)
qed simp_all

lemma alloc_src_spec:
  assumes good: "good D a" and x: "srcl ! i = VVReg t r" and i: "i = op_order ! (dst_n + i_ao)"
    and v: "unat r \<in> D" "r \<noteq> 31" and t: "t \<noteq> T_UNDEF" "tbytes t \<le> tbytes (rt_type (trk a (unat r)))"
    and ex: "has_target (ct_cr (op_ct ! (dst_n + i))) avoid" and fx: "fixed_in avoid"
  obtains a' p where "alloc_src op_ct op_order dst_n i_ao (a, srcl, avoid) = Inr (a', srcl[i := VPReg t p], rm_Set avoid p)"
    "good D a'" "same_vregs a a'" "mreg p" "rm_Test (ct_cr (op_ct ! (dst_n + i))) p" "pins avoid a a'"
    "\<forall>B. avoids avoid B \<longrightarrow> ra_sim D a B a' (insert (p, t, r) B)"
    "(\<forall>q. unat q < 16 \<longrightarrow> rm_Test (ct_cr (op_ct ! (dst_n + i))) q) \<longrightarrow>
       rt_loc (trk a' (unat r)) = L_REG \<and> rt_p (trk a' (unat r)) = p"
proof -
  let ?v = "unat r" and ?cr = "ct_cr (op_ct ! (dst_n + i))"
  have v31: "?v \<noteq> 31" using v(2) by (simp add: word_unat_eq_iff)
  obtain a1 where a1: "Fill ?v ?cr avoid a = Inr a1" "good D a1" "same_vregs a a1"
    "\<And>B. avoids avoid B \<Longrightarrow> ra_sim D a B a1 B" "rt_loc (trk a1 ?v) = L_REG" "pins avoid a a1"
    by (rule Fill_spec [OF good v(1) v31 ex fx]) blast
  define k where "k = trk a1 ?v"
  have vn: "?v < nv a1" using a1(2) v(1) by (simp add: good_def defd_def)
  have ty: "rt_type k = rt_type (trk a ?v)" using a1(3) vn by (simp add: same_vregs_def k_def)
  have p16: "mreg (rt_p k)" using a1(2,5) vn by (simp add: good_def preg_inv_def k_def mreg_def)
  have kt: "rt_type k \<noteq> T_UNDEF" using a1(2) vn by (simp add: good_def track_inv_def k_def)
  have rel_k: "tval (rt_type k) (m_pr ms (rt_p k)) = tval (rt_type k) (q_vr st r)" if "rel D a1 st ms" for st ms
    using that v(1) a1(5) by (auto simp: rel_def holds_def k_def Let_def)
  show thesis
  proof (cases "rm_Test ?cr (rt_p k)")
    case True
    show thesis
    proof (rule that [of a1 "rt_p k"])
      show "alloc_src op_ct op_order dst_n i_ao (a, srcl, avoid) = Inr (a1, srcl[i := VPReg t (rt_p k)], rm_Set avoid (rt_p k))"
        using True x by (simp add: alloc_src_def i [symmetric] a1(1) k_def Let_def)
      show "\<forall>B. avoids avoid B \<longrightarrow> ra_sim D a B a1 (insert (rt_p k, t, r) B)"
      proof (intro allI impI)
        fix B assume that: "avoids avoid B"
        show "ra_sim D a B a1 (insert (rt_p k, t, r) B)"
        proof (rule ra_sim_trans [OF a1(4) [OF that]])
        have "tval t (m_pr ms (rt_p k)) = tval t (q_vr st r)" if "rel D a1 st ms" for st ms
          using t(2) ty rel_k [OF that] by (metis tval_smaller)
          then show "ra_sim D a1 B a1 (insert (rt_p k, t, r) B)"
            unfolding ra_sim_def by (intro exI [of _ "[]"]) (auto simp: binds_def)
        qed
      qed
    qed (use a1 True p16 in \<open>simp_all add: k_def\<close>)
  next
    case False
    obtain p a2 where a2: "AllocPReg ?cr avoid a1 = Inr (p, a2)" "quiet D a1 a2" "unat p < 16" "rm_Test ?cr p"
      "\<not> rm_Test avoid p" "ra_p2v a2 p = None" "pins avoid a1 a2" "rt_loc (trk a2 ?v) = L_REG \<and> rt_p (trk a2 ?v) = rt_p k"
    proof (rule AllocPReg_spec [OF a1(2) ex])
      fix p a2
      assume *: "AllocPReg ?cr avoid a1 = Inr (p, a2)" "quiet D a1 a2" "unat p < 16" "rm_Test ?cr p"
        "\<not> rm_Test avoid p" "ra_p2v a2 p = None" "pins avoid a1 a2"
        and keep: "\<And>w. w < nv a1 \<Longrightarrow> rt_loc (trk a1 w) = L_REG \<Longrightarrow> rt_p (trk a1 w) \<noteq> p \<Longrightarrow>
           rt_loc (trk a2 w) = L_REG \<and> rt_p (trk a2 w) = rt_p (trk a1 w)"
      have "rt_p (trk a1 ?v) \<noteq> p" using False *(4) by (auto simp: k_def)
      from keep [OF vn a1(5) this] * show thesis by (intro that) (simp_all add: k_def)
    qed
    define i1 where "i1 = Mov (VPReg (rt_type k) p) (VPReg (rt_type k) (rt_p k))"
    define a' where "a' = EmitMov (VPReg (rt_type k) p) (VPReg (rt_type k) (rt_p k)) a2"
    have n: "ra_pre a' = ra_pre a2 @ [i1]" "ra_vregs a' = ra_vregs a2" by (simp_all add: a'_def i1_def)
    have g2: "good D a2" using a2(2) by (rule quiet_good)
    have cong: "good D a' = good D a2" "rel D a' st ms = rel D a2 st ms" "same_vregs a1 a' = same_vregs a1 a2" for st ms
      by (simp_all add: a'_def EmitMov_def)
    have nv2: "nv a2 = nv a1" using a2(2) by (rule quiet_nv)
    show thesis
    proof (rule that [of a' p])
      show "alloc_src op_ct op_order dst_n i_ao (a, srcl, avoid) = Inr (a', srcl[i := VPReg t p], rm_Set avoid p)"
        using False x by (simp add: alloc_src_def i [symmetric] a1(1) k_def [symmetric] a2(1) a'_def Let_def)
      show "good D a'" "same_vregs a a'" using g2 a1(3) a2(2) cong by (auto simp: quiet_def intro: same_vregs_trans)
      show "pins avoid a a'"
        using pins_trans [OF a1(6) a2(7)] a1(3) by (simp add: pins_def n same_vregs_def)
      have "ra_sim D a B a' (insert (p, t, r) B)" if B: "avoids avoid B" for B
      proof (rule ra_sim_trans [OF a1(4) [OF B]], rule ra_sim_trans)
        show "ra_sim D a1 B a2 B" using a2(2) by (simp add: quiet_def)
        show "ra_sim D a2 B a' (insert (p, t, r) B)"
        proof (rule ra_sim_one [OF n(1)])
          show "emitted_ok i1" using a2(3,5) fx p16 kt by (auto simp: emitted_ok_def mov_ok_def opr_kinds i1_def mreg_def fixed_in_def)
          fix e st ms assume r: "rel D a2 st ms" "binds B st ms"
          define y where "y = tmerge (rt_type k) (m_pr ms p) (tval (rt_type k) (m_pr ms (rt_p k)))"
          have ty2: "rt_type (trk a2 ?v) = rt_type k" using a2(2) vn by (simp add: quiet_def same_vregs_def k_def)
          have "tval (rt_type k) (m_pr ms (rt_p k)) = tval (rt_type k) (q_vr st r)"
            using r(1) v(1) a2(8) ty2 by (auto simp: rel_def holds_def Let_def)
          then have "tval (rt_type k) y = tval (rt_type k) (q_vr st r)" by (simp add: y_def)
          then have "tval t y = tval t (q_vr st r)" using t(2) ty by (metis tval_smaller)
          moreover have "binds B st (ms\<lparr>m_pr := (m_pr ms)(p := y)\<rparr>)" by (rule binds_other [OF B a2(5) r(2)])
          moreover have "rel D a2 st (ms\<lparr>m_pr := (m_pr ms)(p := y)\<rparr>)" by (rule rel_free_preg [OF g2 r(1) a2(6)])
          moreover have "mexec_inst e i1 ms = Some (MNext (ms\<lparr>m_pr := (m_pr ms)(p := y)\<rparr>))"
            using kt by (simp add: i1_def y_def)
          ultimately show "\<exists>ms'. mexec_inst e i1 ms = Some (MNext ms') \<and> rel D a' st ms' \<and> binds (insert (p, t, r) B) st ms'"
            by (simp add: cong binds_def)
        qed
      qed
      then show "\<forall>B. avoids avoid B \<longrightarrow> ra_sim D a B a' (insert (p, t, r) B)" by blast
      show "(\<forall>q. unat q < 16 \<longrightarrow> rm_Test ?cr q) \<longrightarrow> rt_loc (trk a' ?v) = L_REG \<and> rt_p (trk a' ?v) = p"
        using False p16 by (auto simp: mreg_def)
      show "mreg p" using a2(3,5) fx by (auto simp: mreg_def fixed_in_def)
    qed (use a2 in simp_all)
  qed
qed

subsection \<open>The inputs of an instruction\<close>

definition vr_types :: "region \<Rightarrow> ra \<Rightarrow> bool" where
  "vr_types rn a \<longleftrightarrow> rn_globals rn = state_info \<and> nv a = NumAll rn \<and>
     (\<forall>v < nv a. vreg_type rn (of_nat v) = Some (rt_type (trk a v)))"

lemma vr_types_same: "vr_types rn a \<Longrightarrow> same_vregs a a' \<Longrightarrow> vr_types rn a'"
  by (simp add: vr_types_def same_vregs_def)

text \<open>The registers defined when the locals in \<open>D\<close> have been written.\<close>

definition vset :: "regn set \<Rightarrow> nat set" where
  "vset D = {..< 32} \<union> unat ` D"

lemma use_ok_VVReg:
  assumes "vr_types rn a" "use_ok rn D t (VVReg t' r)"
  shows "t' = t" "t \<noteq> T_UNDEF" "r \<noteq> 31" "unat r \<in> vset D" "tbytes t \<le> tbytes (rt_type (trk a (unat r)))"
proof -
  have "\<exists>t0. vreg_type rn r = Some t0 \<and> tbytes t \<le> tbytes t0" using assms(2) by (auto split: option.splits)
  then obtain t0 where t0: "vreg_type rn r = Some t0" "tbytes t \<le> tbytes t0" by blast
  then have "unat r < NumAll rn" by (auto simp: vreg_type_def IsGlobal_def NumAll_def split: if_splits)
  then have "vreg_type rn (of_nat (unat r)) = Some (rt_type (trk a (unat r)))"
    using assms(1) by (simp add: vr_types_def del: of_nat_unat)
  then show "tbytes t \<le> tbytes (rt_type (trk a (unat r)))" using t0 by simp
  show "t' = t" "t \<noteq> T_UNDEF" "r \<noteq> 31" "unat r \<in> vset D"
    using assms by (auto simp: vset_def IsGlobal_def vr_types_def)
qed

text \<open>Operand \<open>x\<close> has become \<open>y\<close>.\<close>

definition opr_done :: "ra \<Rightarrow> (regn \<times> vtype \<times> regn) set \<Rightarrow> reg_mask \<Rightarrow> voperand \<Rightarrow> voperand \<Rightarrow> bool" where
  "opr_done a B cr x y \<longleftrightarrow>
     (case x of
        VVReg t r \<Rightarrow> \<exists>p. y = VPReg t p \<and> (p, t, r) \<in> B \<and> mreg p \<and> rm_Test cr p \<and>
          (cr = CT_R \<longrightarrow> unat r < nv a \<and> rt_loc (trk a (unat r)) = L_REG \<and> rt_p (trk a (unat r)) = p)
      | _ \<Rightarrow> y = x)"

lemma opr_done_mono:
  assumes "opr_done a B cr x y" "pins avoid a a'" "avoids avoid B" "B \<subseteq> B'" "nv a' = nv a"
  shows "opr_done a' B' cr x y"
proof (cases x)
  case (VVReg t r)
  obtain p where p: "y = VPReg t p" "(p, t, r) \<in> B" "mreg p" "rm_Test cr p"
    and R: "cr = CT_R \<longrightarrow> unat r < nv a \<and> rt_loc (trk a (unat r)) = L_REG \<and> rt_p (trk a (unat r)) = p"
    using assms(1) by (auto simp: opr_done_def VVReg)
  have "rm_Test avoid p" using assms(3) p(2) by (auto simp: avoids_def)
  with R assms(2,5) have "cr = CT_R \<longrightarrow> unat r < nv a' \<and> rt_loc (trk a' (unat r)) = L_REG \<and> rt_p (trk a' (unat r)) = p"
    by (auto simp: pins_def)
  with p assms(4) show ?thesis by (auto simp: opr_done_def VVReg)
qed (use assms(1) in \<open>simp_all add: opr_done_def\<close>)

definition avoid_few :: "nat \<Rightarrow> reg_mask \<Rightarrow> bool" where
  "avoid_few j avoid \<longleftrightarrow> (\<exists>S. finite S \<and> card S \<le> j \<and> (\<forall>q. rm_Test avoid q \<longrightarrow> rm_Test GPR_FIXED q \<or> q \<in> S))"

lemma avoid_few_mono: "avoid_few j avoid \<Longrightarrow> j \<le> k \<Longrightarrow> avoid_few k avoid"
  unfolding avoid_few_def by (meson order_trans)

lemma avoid_few_Set: "avoid_few j avoid \<Longrightarrow> unat p < 16 \<Longrightarrow> avoid_few (Suc j) (rm_Set avoid p)"
proof -
  assume "avoid_few j avoid" and p: "unat p < 16"
  then obtain S where "finite S" "card S \<le> j" "\<forall>q. rm_Test avoid q \<longrightarrow> rm_Test GPR_FIXED q \<or> q \<in> S"
    by (auto simp: avoid_few_def)
  then show ?thesis
    unfolding avoid_few_def using p by (intro exI [of _ "insert p S"]) (auto intro: order_trans [OF card_insert_le_m1])
qed

lemma CT_R_all: "unat q < 16 \<Longrightarrow> rm_Test CT_R q"
  by (simp add: CT_R_def rm_Test_ALL)

lemma has_target_R: "avoid_few 2 avoid \<Longrightarrow> has_target CT_R avoid"
proof -
  assume "avoid_few 2 avoid"
  then obtain S where S: "finite S" "card S \<le> 2" "\<And>q. rm_Test avoid q \<Longrightarrow> rm_Test GPR_FIXED q \<or> q \<in> S"
    by (auto simp: avoid_few_def)
  have "\<not> {0, 1, 2 :: regn} \<subseteq> S"
  proof
    assume "{0, 1, 2 :: regn} \<subseteq> S"
    then have "card {0, 1, 2 :: regn} \<le> card S" using S(1) by (rule card_mono [rotated])
    with S(2) show False by simp
  qed
  then obtain q :: regn where q: "q \<in> {0, 1, 2}" "q \<notin> S" by blast
  then have "unat q < 16" "\<not> rm_Test GPR_FIXED q" by (auto simp: rm_Test_FIXED reg_defs)
  then show ?thesis using q(2) S(3) CT_R_all by (auto simp: has_target_def)
qed

lemma has_target_fixed: "has_target CT_CX GPR_FIXED" "has_target CT_SI GPR_FIXED"
  unfolding has_target_def CT_CX_def CT_SI_def
  by (rule exI [of _ RCX], simp add: rm_Test_FIXED reg_defs) (rule exI [of _ RSI], simp add: rm_Test_FIXED reg_defs)

text \<open>The constraints on the inputs, in the order in which they are allocated.\<close>

definition crs_ok :: "ra_op_ct list \<Rightarrow> nat list \<Rightarrow> nat \<Rightarrow> nat \<Rightarrow> bool" where
  "crs_ok op_ct op_order dst_n src_n \<longleftrightarrow>
     src_n \<le> 2 \<and> length op_order = dst_n + src_n \<and> distinct (drop dst_n op_order) \<and>
     set (drop dst_n op_order) = {..< src_n} \<and>
     (\<forall>j < src_n. let cr = ct_cr (op_ct ! (dst_n + op_order ! (dst_n + j))) in
        cr = CT_R \<or> (j = 0 \<and> (cr = CT_CX \<or> cr = CT_SI)))"

lemma op_info_crs_ok: "op_info ins = Some (op_ct, ord) \<Longrightarrow> crs_ok op_ct ord (length (outputs ins)) (length (inputs ins))"
proof (cases ins)
  case (Binop bop d a b)
  then show "op_info ins = Some (op_ct, ord) \<Longrightarrow> ?thesis"
    by (cases bop) (auto simp: CT_INFO_eval crs_ok_def ct_reg_def less_Suc_eq)
qed (auto simp: CT_INFO_eval crs_ok_def ct_reg_def less_Suc_eq)

definition src_inv ::
  "region \<Rightarrow> regn set \<Rightarrow> inst \<Rightarrow> ra_op_ct list \<Rightarrow> nat list \<Rightarrow> ra \<Rightarrow> nat \<Rightarrow> alloc_st \<Rightarrow> bool" where
  "src_inv rn D ins op_ct ord a0 j st \<longleftrightarrow>
     (case st of (a, srcl, avoid) \<Rightarrow>
        good (vset D) a \<and> same_vregs a0 a \<and> fixed_in avoid \<and> avoid_few j avoid \<and>
        (j = 0 \<longrightarrow> avoid = GPR_FIXED) \<and> length srcl = length (inputs ins) \<and>
        (\<forall>k < length (inputs ins). k \<notin> set (take j (drop (length (outputs ins)) ord)) \<longrightarrow> srcl ! k = inputs ins ! k) \<and>
        (\<exists>B. avoids avoid B \<and> ra_sim (vset D) a0 {} a B \<and>
           (\<forall>k \<in> set (take j (drop (length (outputs ins)) ord)).
              opr_done a B (ct_cr (op_ct ! (length (outputs ins) + k))) (inputs ins ! k) (srcl ! k))))"

lemma alloc_src_step:
  assumes inv: "src_inv rn D ins op_ct ord a0 j st" and j: "j < length (inputs ins)"
    and oi: "op_info ins = Some (op_ct, ord)" and wf: "wf_inst rn D ins" and ty: "vr_types rn a0"
  shows "\<exists>st'. alloc_src op_ct ord (length (outputs ins)) j st = Inr st' \<and> src_inv rn D ins op_ct ord a0 (Suc j) st'"
proof -
  let ?dn = "length (outputs ins)"
  obtain a srcl avoid where st: "st = (a, srcl, avoid)" by (cases st)
  define i where "i = ord ! (?dn + j)"
  let ?cr = "ct_cr (op_ct ! (?dn + i))"
  note crs = op_info_crs_ok [OF oi]
  have ol: "length ord = ?dn + length (inputs ins)" using crs by (simp add: crs_ok_def)
  have tk: "take (Suc j) (drop ?dn ord) = take j (drop ?dn ord) @ [i]"
    using j ol by (simp add: take_Suc_conv_app_nth i_def)
  have i_new: "i \<notin> set (take j (drop ?dn ord))" "i < length (inputs ins)"
  proof -
    have "distinct (take (Suc j) (drop ?dn ord))" using crs by (simp add: crs_ok_def)
    then show "i \<notin> set (take j (drop ?dn ord))" unfolding tk by simp
    have "i \<in> set (drop ?dn ord)" using j ol by (auto simp: i_def in_set_conv_nth intro!: exI [of _ j])
    then show "i < length (inputs ins)" using crs by (simp add: crs_ok_def)
  qed
  note inv' = inv [unfolded src_inv_def st prod.case]
  have iv: "good (vset D) a" "same_vregs a0 a" "fixed_in avoid" "avoid_few j avoid"
    "j = 0 \<Longrightarrow> avoid = GPR_FIXED" "length srcl = length (inputs ins)"
    "\<And>k. k < length (inputs ins) \<Longrightarrow> k \<notin> set (take j (drop ?dn ord)) \<Longrightarrow> srcl ! k = inputs ins ! k"
    using inv' by simp_all
  obtain B where B: "avoids avoid B" "ra_sim (vset D) a0 {} a B"
      "\<And>k. k \<in> set (take j (drop ?dn ord)) \<Longrightarrow> opr_done a B (ct_cr (op_ct ! (?dn + k))) (inputs ins ! k) (srcl ! k)"
    using inv' by blast
  have xi: "srcl ! i = inputs ins ! i" using iv(7) i_new by blast
  have use: "use_ok rn D (in_types ins ! i) (inputs ins ! i)"
    using wf i_new(2) by (simp add: wf_inst_def use_okD)
  have few: "avoid_few (Suc j) avoid" using iv(4) by (rule avoid_few_mono) simp
  have keep: ?thesis if "\<forall>t r. inputs ins ! i \<noteq> VVReg t r"
  proof -
    have "alloc_src op_ct ord ?dn j st = Inr st"
      using that xi by (cases "inputs ins ! i") (simp_all add: alloc_src_def st i_def [symmetric] Let_def)
    moreover have "opr_done a B ?cr (inputs ins ! i) (srcl ! i)"
      using that xi by (cases "inputs ins ! i") (simp_all add: opr_done_def)
    then have "\<forall>k \<in> set (take (Suc j) (drop ?dn ord)).
        opr_done a B (ct_cr (op_ct ! (?dn + k))) (inputs ins ! k) (srcl ! k)"
      unfolding tk using B(3) by simp
    then have "src_inv rn D ins op_ct ord a0 (Suc j) st"
      unfolding src_inv_def st prod.case using iv few B(1,2)
      by (intro conjI exI [of _ B]) (simp_all add: tk)
    ultimately show ?thesis by blast
  qed
  show ?thesis
  proof (cases "inputs ins ! i")
    case (VVReg t r)
    have ta: "vr_types rn a" using vr_types_same [OF ty iv(2)] .
    note u = use_ok_VVReg [OF ta use [unfolded VVReg]]
    have tt: "t \<noteq> T_UNDEF" "tbytes t \<le> tbytes (rt_type (trk a (unat r)))" using u by simp_all
    have cr: "?cr = CT_R \<or> (j = 0 \<and> (?cr = CT_CX \<or> ?cr = CT_SI))"
      using crs j by (simp add: crs_ok_def Let_def i_def)
    have "j \<le> 1" using j crs by (simp add: crs_ok_def)
    then have "avoid_few 2 avoid" using iv(4) by (intro avoid_few_mono [OF iv(4)]) simp
    then have tgt: "has_target ?cr avoid"
      using cr has_target_R has_target_fixed iv(5) by auto
    obtain a' p where s: "alloc_src op_ct ord ?dn j (a, srcl, avoid) = Inr (a', srcl[i := VPReg t p], rm_Set avoid p)"
      and g: "good (vset D) a'" "same_vregs a a'" and p: "mreg p" "rm_Test ?cr p" and pin: "pins avoid a a'"
      and sim: "\<forall>B. avoids avoid B \<longrightarrow> ra_sim (vset D) a B a' (insert (p, t, r) B)"
      and home: "(\<forall>q. unat q < 16 \<longrightarrow> rm_Test ?cr q) \<longrightarrow> rt_loc (trk a' (unat r)) = L_REG \<and> rt_p (trk a' (unat r)) = p"
      by (rule alloc_src_spec [OF iv(1) xi [unfolded VVReg] i_def u(4,3) tt tgt iv(3)])
    have nv': "nv a' = nv a" using g(2) by (simp add: same_vregs_def)
    have "unat r < nv a'" using g(1) u(4) by (simp add: good_def defd_def)
    then have new: "opr_done a' (insert (p, t, r) B) ?cr (inputs ins ! i) (srcl[i := VPReg t p] ! i)"
      using p home CT_R_all i_new(2) iv(6) by (auto simp: opr_done_def VVReg)
    have old: "opr_done a' (insert (p, t, r) B) (ct_cr (op_ct ! (?dn + k))) (inputs ins ! k) (srcl[i := VPReg t p] ! k)"
      if "k \<in> set (take j (drop ?dn ord))" for k
      using opr_done_mono [OF B(3) [OF that] pin B(1) _ nv', of "insert (p, t, r) B"] that i_new(1)
      by (cases "k = i") auto
    have "src_inv rn D ins op_ct ord a0 (Suc j) (a', srcl[i := VPReg t p], rm_Set avoid p)"
      unfolding src_inv_def prod.case
    proof (intro conjI allI impI)
      show "good (vset D) a'" by (rule g)
      show "same_vregs a0 a'" using iv(2) g(2) by (rule same_vregs_trans)
      show "fixed_in (rm_Set avoid p)" using iv(3) mreg16 [OF p(1)] by (simp add: fixed_in_def)
      show "avoid_few (Suc j) (rm_Set avoid p)" using iv(4) mreg16 [OF p(1)] by (rule avoid_few_Set)
      show "srcl[i := VPReg t p] ! k = inputs ins ! k"
        if "k < length (inputs ins)" "k \<notin> set (take (Suc j) (drop ?dn ord))" for k
        using that iv(7) [of k] unfolding tk by auto
      show "\<exists>B. avoids (rm_Set avoid p) B \<and> ra_sim (vset D) a0 {} a' B \<and>
          (\<forall>k \<in> set (take (Suc j) (drop ?dn ord)).
            opr_done a' B (ct_cr (op_ct ! (?dn + k))) (inputs ins ! k) (srcl[i := VPReg t p] ! k))"
      proof (intro exI [of _ "insert (p, t, r) B"] conjI)
        show "avoids (rm_Set avoid p) (insert (p, t, r) B)" using B(1) mreg16 [OF p(1)] by (auto simp: avoids_def)
        show "ra_sim (vset D) a0 {} a' (insert (p, t, r) B)" using B(2) sim [rule_format, OF B(1)] by (rule ra_sim_trans)
      qed (use new old tk in auto)
    qed (simp_all add: iv(6))
    with s show ?thesis by (auto simp: st)
  qed (rule keep, simp)+
qed

subsection \<open>Synchronising globals\<close>

lemma good_locD: "good D a \<Longrightarrow> v < 32 \<Longrightarrow> v < nv a \<and> rt_loc (trk a v) \<noteq> L_DEAD"
  by (auto simp: good_def track_inv_def)

lemma good_global: "good D a \<Longrightarrow> v < nv a \<Longrightarrow> rt_global (trk a v) \<longleftrightarrow> v < 32"
  by (simp add: good_def track_inv_def)

lemma sync_globals_spec:
  assumes good: "good D a"
  obtains a' where "rfold sync_global [0 ..< nv a] a = Inr a'" "quiet D a a'" "pins m a a'"
    "\<forall>v < 32. in_slot (trk a' v)"
proof -
  define P where "P = (\<lambda>i a'. quiet D a a' \<and>
    (\<forall>w < nv a. rt_loc (trk a' w) = rt_loc (trk a w) \<and> rt_p (trk a' w) = rt_p (trk a w)) \<and>
    (\<forall>w < i. w < 32 \<longrightarrow> in_slot (trk a' w)))"
  have "\<exists>a'. rfold sync_global [0 ..< nv a] a = Inr a' \<and> P (nv a) a'"
  proof (rule rfold_upt)
    fix i a1 assume i: "i < nv a" and P1: "P i a1"
    then have q: "quiet D a a1" by (simp add: P_def)
    have g1: "good D a1" and n1: "nv a1 = nv a" using q by (simp_all add: quiet_good quiet_nv)
    show "\<exists>a'. sync_global i a1 = Inr a' \<and> P (Suc i) a'"
    proof (cases "i < 32")
      case True
      obtain a2 where "SyncSpill i a1 = Inr a2" "quiet D a1 a2" "in_slot (trk a2 i)"
        "\<And>w. w < nv a1 \<Longrightarrow> rt_loc (trk a2 w) = rt_loc (trk a1 w) \<and> rt_p (trk a2 w) = rt_p (trk a1 w) \<and>
           (in_slot (trk a1 w) \<longrightarrow> in_slot (trk a2 w))" "ra_p2v a2 = ra_p2v a1"
        using SyncSpill_spec [OF g1, of i] good_locD [OF g1 True] by blast
      moreover have "rt_global (trk a1 i)" using good_global [OF g1] True i n1 by simp
      ultimately show ?thesis
        using P1 i n1 quiet_trans [OF q] unfolding P_def by (auto simp: sync_global_def less_Suc_eq)
    next
      case False
      then have "\<not> rt_global (trk a1 i)" using good_global [OF g1] i n1 by simp
      then show ?thesis using P1 False unfolding P_def by (auto simp: sync_global_def less_Suc_eq)
    qed
  next
    show "P 0 a" using good by (simp add: P_def quiet_refl)
  qed
  then obtain a' where a': "rfold sync_global [0 ..< nv a] a = Inr a'" "P (nv a) a'" by blast
  have "32 \<le> nv a" using good by (simp add: good_def track_inv_def)
  then show thesis using a' by (intro that [of a']) (auto simp: P_def pins_def)
qed

subsection \<open>The output of an instruction\<close>

lemma rel_def_reg:
  assumes r: "rel D a1 st ms" and de: "defd D a1" "nv a1 \<le> 288" and t: "t = rt_type (trk a' (unat r))"
    and v: "rt_loc (trk a' (unat r)) = L_REG" "rt_p (trk a' (unat r)) = p" "\<not> rt_synced (trk a' (unat r))"
    and other: "\<And>w. w \<in> D \<Longrightarrow> w \<noteq> unat r \<Longrightarrow> trk a' w = trk a1 w"
    and free: "\<And>w. w \<in> D \<Longrightarrow> w \<noteq> unat r \<Longrightarrow> rt_loc (trk a1 w) = L_REG \<Longrightarrow> rt_p (trk a1 w) \<noteq> p"
  shows "rel (insert (unat r) D) a' (set_vr st r y) (ms\<lparr>m_pr := (m_pr ms)(p := tmerge t (m_pr ms p) y)\<rparr>)"
    (is "rel _ _ ?st ?ms")
proof -
  have "holds a' ?st ?ms w" if w: "w \<in> insert (unat r) D" for w
  proof (cases "w = unat r")
    case True
    then show ?thesis using v t by (simp add: holds_def in_slot_def set_vr_def Let_def)
  next
    case False
    with w have wD: "w \<in> D" by simp
    then have "w < 2 ^ 16" using de by (fastforce simp: defd_def)
    then have "(of_nat w :: regn) \<noteq> r"
      using False of_nat_vreg_eq [of w "unat r"] unsigned_less [of r, where 'a = nat] by simp
    moreover have "holds a1 st ms w" using r wD by (simp add: rel_def)
    moreover have "slot_val a' ms w = slot_val a1 ms w" using other [OF wD False] by (simp add: slot_val_def)
    ultimately show ?thesis
      using other [OF wD False] free [OF wD False] by (simp add: holds_def set_vr_def Let_def)
  qed
  then show ?thesis using r by (simp add: rel_def set_vr_def)
qed

lemma rel_subset: "rel D a st ms \<Longrightarrow> D' \<subseteq> D \<Longrightarrow> rel D' a st ms"
  by (auto simp: rel_def)

lemma good_subset: "good D a \<Longrightarrow> D' \<subseteq> D \<Longrightarrow> good D' a"
  by (auto simp: good_def defd_def)

definition dst_rel :: "nat set \<Rightarrow> ra \<Rightarrow> ra \<Rightarrow> vtype \<Rightarrow> regn \<Rightarrow> regn \<Rightarrow> bool" where
  "dst_rel D a1 a' t r p \<longleftrightarrow>
     (\<forall>st ms y. rel D a1 st ms \<longrightarrow>
        rel (insert (unat r) D) a' (set_vr st r y) (ms\<lparr>m_pr := (m_pr ms)(p := tmerge t (m_pr ms p) y)\<rparr>))"

lemma alloc_dst_spec:
  assumes good: "good D a" and v: "unat r < nv a" "unat r \<noteq> 31" and t: "t = rt_type (trk a (unat r))"
    and ord: "op_order ! 0 = 0" and fx: "fixed_in avoid"
    and tgt: "\<not> ct_has_alias (op_ct ! 0) \<Longrightarrow> has_target (ct_cr (op_ct ! 0)) avoid"
    and al: "ct_has_alias (op_ct ! 0) \<Longrightarrow> rt_loc (trk a (unat r)) = L_REG"
  obtains a1 a' p where "alloc_dst op_ct op_order 0 (a, [VVReg t r], avoid) = Inr (a', [VPReg t p], rm_Set avoid p)"
    "quiet D a a1" "pins avoid a a1" "ra_pre a' = ra_pre a1" "good (insert (unat r) D) a'" "same_vregs a a'"
    "dst_rel D a1 a' t r p" "mreg p" "\<forall>w < nv a. in_slot (trk a w) \<longrightarrow> in_slot (trk a1 w)"
    "if ct_has_alias (op_ct ! 0) then p = rt_p (trk a (unat r)) \<and> a1 = a else rm_Test (ct_cr (op_ct ! 0)) p \<and> \<not> rm_Test avoid p"
proof (cases "ct_has_alias (op_ct ! 0)")
  case True
  let ?v = "unat r"
  have inv: "track_inv a" "preg_inv a" "frame_inv a" "defd D a" using good by (simp_all add: good_def)
  define a' where "a' = upd_track ?v (\<lambda>k. k\<lparr>rt_synced := False\<rparr>) a"
  have tr: "trk a' w = (if w = ?v then (trk a ?v)\<lparr>rt_synced := False\<rparr> else trk a w)" for w using v(1) by (simp add: a'_def)
  have n: "nv a' = nv a" "ra_p2v a' = ra_p2v a" "ra_pre a' = ra_pre a" "ra_frame_cur a' = ra_frame_cur a" by (simp_all add: a'_def)
  have "track_inv a'" using inv(1) unfolding track_inv_def n by (simp add: tr)
  moreover have "preg_inv a'" using inv(2) unfolding preg_inv_def n by (simp add: tr)
  moreover have "frame_inv a'" by (rule frame_inv_cong [OF inv(3)]) (simp_all add: n tr)
  moreover have "defd (insert ?v D) a'"
    using inv(4) al [OF True] v(1) unfolding defd_def n by (auto simp: tr in_slot_def)
  ultimately have g: "good (insert ?v D) a'" by (simp add: good_def)
  have pv: "ra_p2v a (rt_p (trk a ?v)) = Some ?v" "mreg (rt_p (trk a ?v))"
    using inv(2) v(1) al [OF True] by (simp_all add: preg_inv_def mreg_def)
  have "dst_rel D a a' t r (rt_p (trk a ?v))"
    unfolding dst_rel_def
  proof (intro allI impI)
    fix st ms y assume "rel D a st ms"
    then show "rel (insert ?v D) a' (set_vr st r y) (ms\<lparr>m_pr := (m_pr ms)(rt_p (trk a ?v) := tmerge t (m_pr ms (rt_p (trk a ?v))) y)\<rparr>)"
    proof (rule rel_def_reg)
      show "rt_p (trk a w) \<noteq> rt_p (trk a ?v)" if "w \<in> D" "w \<noteq> ?v" "rt_loc (trk a w) = L_REG" for w
        using inv(2,4) that pv(1) by (metis defd_def option.inject preg_inv_def)
    qed (use inv(1,4) al [OF True] t in \<open>simp_all add: tr track_inv_def\<close>)
  qed
  then show thesis
    using True pv g quiet_refl [OF good] v(1)
    by (intro that [of a' "rt_p (trk a ?v)" a])
      (simp_all add: alloc_dst_def ord n same_vregs_def tr Let_def, simp add: a'_def)
next
  case False
  let ?v = "unat r"
  obtain p a1 where a1: "AllocPReg (ct_cr (op_ct ! 0)) avoid a = Inr (p, a1)" "quiet D a a1" "unat p < 16"
    "rm_Test (ct_cr (op_ct ! 0)) p" "\<not> rm_Test avoid p" "ra_p2v a1 p = None" "pins avoid a a1"
    "\<forall>w < nv a. in_slot (trk a w) \<longrightarrow> in_slot (trk a1 w)"
    by (rule AllocPReg_spec [OF good tgt [OF False]]) blast
  have n1: "nv a1 = nv a" using a1(2) by (rule quiet_nv)
  have g1: "good D a1" using a1(2) by (rule quiet_good)
  have inv: "track_inv a1" "preg_inv a1" "frame_inv a1" "defd D a1" using g1 by (simp_all add: good_def)
  define a2 where "a2 = Release False ?v a1"
  have v1: "?v < nv a1" using v n1 by simp
  have gD: "good (D - {?v}) a1" using g1 by (rule good_subset) blast
  have "?v \<in> D - {?v} \<longrightarrow> in_slot (trk a1 ?v)" by simp
  note R' = Release_spec [OF gD v1 this, folded a2_def]
  define k where "k = (trk a1 ?v)\<lparr>rt_loc := L_REG, rt_p := p, rt_synced := False\<rparr>"
  define p2v where "p2v = (if rt_loc (trk a1 ?v) = L_REG then (ra_p2v a1)(rt_p (trk a1 ?v) := None) else ra_p2v a1)"
  define a' where "a' = upd_track ?v (\<lambda>k. k\<lparr>rt_synced := False\<rparr>)
    (upd_track ?v (\<lambda>k. k\<lparr>rt_loc := L_REG, rt_p := p\<rparr>) (a1\<lparr>ra_p2v := p2v(p := Some ?v)\<rparr>))"
  have tr: "trk a' w = (if w = ?v then k else trk a1 w)" for w using v1 by (simp add: a'_def k_def)
  have n: "nv a' = nv a" "ra_p2v a' = p2v(p := Some ?v)" "ra_pre a' = ra_pre a1" "ra_frame_cur a' = ra_frame_cur a1"
    using n1 by (simp_all add: a'_def)
  have "track_inv a'" using inv(1) v(2) n1 unfolding track_inv_def n by (simp add: tr k_def)
  moreover have "preg_inv a'"
  proof (rule preg_inv_place [of a2 ?v p])
    show "preg_inv a2" using quiet_good [OF R'(1)] by (simp add: good_def)
    show "?v < nv a2" "nv a' = nv a2" using quiet_nv [OF R'(1)] v1 n n1 by simp_all
    show "\<not> rm_Test GPR_FIXED p" using fx a1(5) by (auto simp: fixed_in_def)
    show "ra_p2v a2 p = None" "ra_p2v a' = (ra_p2v a2)(p := Some ?v)" using a1(6) by (simp_all add: R'(4) n p2v_def)
  qed (use R' a1(3) in \<open>simp_all add: tr k_def\<close>)
  moreover have "frame_inv a'" by (rule frame_inv_cong [OF inv(3)]) (simp_all add: n n1 tr k_def)
  moreover have "defd (insert ?v D) a'"
    using inv(4) v(1) n1 unfolding defd_def n by (auto simp: tr k_def in_slot_def)
  ultimately have g: "good (insert ?v D) a'" by (simp add: good_def)
  have ty: "rt_type (trk a1 ?v) = t" using a1(2) v(1) t by (simp add: quiet_def same_vregs_def)
  have "dst_rel D a1 a' t r p"
    unfolding dst_rel_def
  proof (intro allI impI)
    fix st ms y assume "rel D a1 st ms"
    then show "rel (insert ?v D) a' (set_vr st r y) (ms\<lparr>m_pr := (m_pr ms)(p := tmerge t (m_pr ms p) y)\<rparr>)"
    proof (rule rel_def_reg)
      show "rt_p (trk a1 w) \<noteq> p" if "w \<in> D" "w \<noteq> ?v" "rt_loc (trk a1 w) = L_REG" for w
        using inv(2,4) that a1(6) by (auto simp: preg_inv_def defd_def)
    qed (use inv(1,4) ty in \<open>simp_all add: tr k_def track_inv_def\<close>)
  qed
  moreover have "same_vregs a a'" using a1(2) by (auto simp: quiet_def same_vregs_def n tr k_def)
  moreover have "alloc_dst op_ct op_order 0 (a, [VVReg t r], avoid) = Inr (a', [VPReg t p], rm_Set avoid p)"
    using False a1(1) v1 by (simp add: alloc_dst_def ord Let_def a'_def p2v_def)
  ultimately show thesis
    using False a1 g n fx by (intro that [of a' p a1]) (auto simp: mreg_def fixed_in_def)
qed

subsection \<open>Executing an allocated instruction\<close>

fun inst_res :: "nat set \<Rightarrow> ra \<Rightarrow> qres \<Rightarrow> mres \<Rightarrow> bool" where
  "inst_res D a (QNext st) (MNext ms) = rel D a st ms"
| "inst_res D a (QBr k st) (MBr k' ms) = (k = k' \<and> rel D a st ms)"
| "inst_res D a (QExit x st) (MExit x' ms) = (x = x' \<and> rel D a st ms)"
| "inst_res D a (QTrap st) (MTrap ms) = rel D a st ms"
| "inst_res D a _ _ = False"

definition opr_val :: "qstate \<Rightarrow> mstate \<Rightarrow> vtype \<Rightarrow> voperand \<Rightarrow> voperand \<Rightarrow> bool" where
  "opr_val st ms t x y \<longleftrightarrow>
     (\<exists>v v'. eval_opr st x = Some v \<and> meval ms y = Some v' \<and> tval t v' = tval t v)"

lemma opr_done_val:
  assumes "opr_done a B cr x y" "binds B st ms" "use_ok rn D t x"
  shows "opr_val st ms t x y"
  using assms by (cases x) (auto simp: opr_done_def opr_val_def binds_def)

lemma tmerge_tval: "tval t v' = tval t v \<Longrightarrow> tmerge t old v' = tmerge t old v"
  by (cases t) simp_all

lemma vm_store_tval:
  assumes "tval sz v' = tval sz v" shows "vm_store sz m p v' = vm_store sz m p v"
proof -
  have "ucast (take_bit 8 x) = (ucast x :: u8)" "ucast (take_bit 16 x) = (ucast x :: u16)" for x :: u32
    by (rule bit_word_eqI; auto simp: bit_simps)+
  then show ?thesis using assms by (cases sz) (auto simp: vm_store_def, metis+)
qed

lemma exec_nodst:
  assumes out: "outputs ins = []" "op_info ins \<noteq> None" and r: "rel D a st ms"
    and ops: "list_all2 (\<lambda>(t, x) y. opr_val st ms t x y) (zip (in_types ins) (inputs ins)) srcl"
    and ex: "exec_inst (e_vmem e) ins st = Some q"
  shows "\<exists>q'. mexec_inst e (set_inputs ins srcl) ms = Some q' \<and> inst_res D a q q'"
proof -
  have m: "m_mem ms = q_mem st" using r by (simp add: rel_def)
  have rm: "rel D a (st\<lparr>q_mem := m'\<rparr>) (ms\<lparr>m_mem := m'\<rparr>)" for m'
    using r by (simp add: rel_def holds_def Let_def)
  show ?thesis
  proof (cases ins)
    case (Brcc cc x1 x2)
    then show ?thesis using ops ex r by (auto simp: list_all2_Cons1 opr_val_def)
  next
    case (GBrind x1)
    then show ?thesis using ops ex r by (auto simp: list_all2_Cons1 opr_val_def)
  next
    case (VMStore sz sg p d)
    obtain y1 y2 v1 v2 v2' where y: "srcl = [y1, y2]" "eval_opr st p = Some v1" "meval ms y1 = Some v1"
      "eval_opr st d = Some v2" "meval ms y2 = Some v2'" "tval sz v2' = tval sz v2"
      using ops by (auto simp: VMStore list_all2_Cons1 opr_val_def)
    obtain m' where m': "vm_store sz (q_mem st) (e_vmem e + ucast v1) v2 = Some m'" "q = QNext (st\<lparr>q_mem := m'\<rparr>)"
      using ex y by (auto simp: VMStore bind_eq_Some_conv)
    show ?thesis using y m' rm [of m'] m vm_store_tval [OF y(6)] by (simp add: VMStore)
  qed (use out in simp_all)
qed

lemma exec_dst:
  assumes out: "outputs ins = [VVReg t r]" "inst_shape ins" "t \<noteq> T_UNDEF" and r: "rel D a st ms" and d: "dst_rel D a a' t r p"
    and ops: "list_all2 (\<lambda>(t, x) y. opr_val st ms t x y) (zip (in_types ins) (inputs ins)) srcl"
    and ex: "exec_inst (e_vmem e) ins st = Some q"
  shows "\<exists>q'. mexec_inst e (set_outputs (set_inputs ins srcl) [VPReg t p]) ms = Some q' \<and> inst_res (insert (unat r) D) a' q q'"
proof -
  have m: "m_mem ms = q_mem st" using r by (simp add: rel_def)
  have dr: "rel (insert (unat r) D) a' (set_vr st r y) (ms\<lparr>m_pr := (m_pr ms)(p := tmerge t (m_pr ms p) y')\<rparr>)"
    if "tval t y' = tval t y" for y y'
    using d r by (simp add: dst_rel_def tmerge_tval [OF that])
  show ?thesis
  proof (cases ins)
    case (Mov d s)
    then obtain y v v' where "srcl = [y]" "eval_opr st s = Some v" "meval ms y = Some v'" "tval t v' = tval t v"
      using ops out(1) by (auto simp: list_all2_Cons1 opr_val_def)
    then show ?thesis using ex dr [of v' v] out by (auto simp: Mov)
  next
    case (VMLoad sz sg d p0)
    have t: "t = T_I32" using out by (simp add: VMLoad i32_vreg_def)
    obtain y v where y: "srcl = [y]" "eval_opr st p0 = Some v" "meval ms y = Some v"
      using ops by (auto simp: VMLoad list_all2_Cons1 opr_val_def)
    obtain x where x: "vm_load sz sg (q_mem st) (e_vmem e + ucast v) = Some x"
      using ex y by (auto simp: VMLoad bind_eq_Some_conv)
    then show ?thesis using ex y m dr [of x x] out t by (auto simp: VMLoad)
  next
    case (Setcc cc d x1 x2)
    then show ?thesis using ops ex out dr by (auto simp: list_all2_Cons1 opr_val_def i32_vreg_def)
  next
    case (Binop bop d x1 x2)
    then show ?thesis using ops ex out dr by (auto simp: list_all2_Cons1 opr_val_def i32_vreg_def)
  qed (use out in simp_all)
qed

text \<open>The slot of the instruction pointer, whose register is never in a physical register.\<close>

lemma exec_slot:
  assumes out: "outputs ins = [VSlot g t offs]" "def_ok rn (VSlot g t offs)" "inst_shape ins" and g: "good D a"
    and r: "rel D a st ms"
    and ops: "list_all2 (\<lambda>(t, x) y. opr_val st ms t x y) (zip (in_types ins) (inputs ins)) srcl"
    and ex: "exec_inst (e_vmem e) ins st = Some q"
  shows "\<exists>q'. mexec_inst e (set_outputs (set_inputs ins srcl) (outputs ins)) ms = Some q' \<and> inst_res D a q q'"
proof -
  obtain s where ins: "ins = Mov (VSlot g t offs) s"
    using out(1,3) by (cases ins) (auto simp: i32_vreg_def)
  have go: "g" "t = T_I32" "slot_reg offs = Some 31" using out(2) by simp_all
  obtain y v where y: "srcl = [y]" "eval_opr st s = Some v" "meval ms y = Some v"
    using ops go by (auto simp: ins list_all2_Cons1 opr_val_def)
  have tr: "track_inv a" "defd D a" using g by (simp_all add: good_def)
  have "holds a (set_vr st 31 v) (ms\<lparr>m_gs := (m_gs ms)(31 := v)\<rparr>) w" if w: "w \<in> D" "holds a st ms w" for w
  proof -
    have n: "w < 2 ^ 16" using tr w(1) by (fastforce simp: track_inv_def defd_def)
    show ?thesis
    proof (cases "w = 31")
      case True
      then show ?thesis using tr(1) by (simp add: holds_def track_inv_def set_vr_def Let_def)
    next
      case False
      then have "(of_nat w :: regn) \<noteq> 31" using of_nat_vreg_eq [OF n, of 31] by simp
      then show ?thesis using w(2) by (simp add: holds_def set_vr_def Let_def)
    qed
  qed
  then have "rel D a (set_vr st 31 v) (ms\<lparr>m_gs := (m_gs ms)(31 := v)\<rparr>)"
    using r by (simp add: rel_def set_vr_def)
  then show ?thesis using ex y go by (auto simp: ins)
qed

subsection \<open>One instruction\<close>

text \<open>
  What allocation of one instruction achieves: the instructions \<open>is\<close> are put before it, and
  executing them and the allocated instruction does what the instruction did. When the instruction
  has side effects, the globals are in the guest CPU state at that point.
\<close>

definition inst_sim :: "nat set \<Rightarrow> ra \<Rightarrow> inst \<Rightarrow> nat set \<Rightarrow> ra \<Rightarrow> inst list \<Rightarrow> inst \<Rightarrow> bool" where
  "inst_sim D a ins D' a' is ins' \<longleftrightarrow>
     (\<forall>e st ms q. (\<forall>p. e_saved e p \<longleftrightarrow> \<not> rm_Test GPR_CALL_CLOBBER p) \<longrightarrow> rel D a st ms \<longrightarrow>
        exec_inst (e_vmem e) ins st = Some q \<longrightarrow>
        (\<exists>ms1 q'. mexec_insts e is ms = Some (MNext ms1) \<and> mexec_inst e ins' ms1 = Some q' \<and> inst_res D' a' q q' \<and>
           (GetOpFlags ins AND SIDEEFF \<noteq> 0 \<longrightarrow> (\<forall>r < 32. m_gs ms1 r = q_vr st r))))"

text \<open>The constraints of the target on allocated operands.\<close>

definition preg_ok :: "ra_op_ct \<Rightarrow> voperand \<Rightarrow> bool" where
  "preg_ok ct y \<longleftrightarrow> (case y of VPReg t p \<Rightarrow> mreg p \<and> rm_Test (ct_cr ct) p | VVReg t r \<Rightarrow> False | _ \<Rightarrow> True)"

definition mval :: "vtype \<Rightarrow> voperand \<Rightarrow> bool" where
  "mval t x \<longleftrightarrow> mtyp t x \<and> \<not> is_slot x"

definition mdst :: "vtype \<Rightarrow> voperand \<Rightarrow> bool" where
  "mdst t x \<longleftrightarrow> mtyp t x \<and> is_preg x"

primrec minst_ok :: "inst \<Rightarrow> bool" where
  "minst_ok (Hcall sid a) = (stub_op sid \<noteq> None \<and> is_const a)"
| "minst_ok Br = True"
| "minst_ok (Brcc cc a b) = (mval T_I32 a \<and> mval T_I32 b)"
| "minst_ok (GBr t) = is_const t"
| "minst_ok (GBrind a) = mval T_I32 a"
| "minst_ok (VMLoad sz sg d p) = (sz \<noteq> T_UNDEF \<and> mdst T_I32 d \<and> mval T_I32 p)"
| "minst_ok (VMStore sz sg p d) = (sz \<noteq> T_UNDEF \<and> sg = SG_U \<and> mval T_I32 p \<and> mval sz d)"
| "minst_ok (Setcc cc d a b) = (mdst T_I32 d \<and> mval T_I32 a \<and> mval T_I32 b)"
| "minst_ok (Mov d s) = mov_ok d s"
| "minst_ok (Binop bop d a b) = (mdst T_I32 d \<and> mval T_I32 a \<and> mval T_I32 b)"

definition mct_ok :: "inst \<Rightarrow> bool" where
  "mct_ok ins \<longleftrightarrow> ct_ok ins \<and> minst_ok ins \<and>
     (case op_info ins of
        None \<Rightarrow> True
      | Some (op_ct, _) \<Rightarrow> list_all2 preg_ok op_ct (outputs ins @ inputs ins))"

text \<open>What becomes of an output.\<close>

definition dst_as :: "voperand \<Rightarrow> voperand \<Rightarrow> bool" where
  "dst_as d d' \<longleftrightarrow>
     (case d of VVReg t r \<Rightarrow> (\<exists>p. d' = VPReg t p \<and> t \<noteq> T_UNDEF \<and> mreg p)
      | VSlot g t offs \<Rightarrow> d' = d \<and> g \<and> t = T_I32 \<and> slot_reg offs = Some 31 | _ \<Rightarrow> False)"

lemma AllocOp_minst:
  assumes "inst_shape ins" "op_info ins \<noteq> None" "list_all2 mval (in_types ins) srcl" "list_all2 dst_as (outputs ins) dstl"
  shows "minst_ok (set_outputs (set_inputs ins srcl) dstl)"
proof (cases ins)
  case (Mov d s)
  then obtain y d' where "srcl = [y]" "dstl = [d']" "mval (opr_type d) y" "dst_as d d'"
    using assms(3,4) by (auto simp: list_all2_Cons1)
  then show ?thesis
    by (cases d) (auto simp: Mov mov_ok_def dst_as_def mval_def opr_kinds split: voperand.splits)
qed (use assms in \<open>auto simp: list_all2_Cons1 dst_as_def mdst_def i32_vreg_def opr_kinds split: voperand.splits\<close>)

lemma globals_synced:
  assumes "good (vset D) a" "rel (vset D) a st ms" "\<forall>v < 32. in_slot (trk a v)"
  shows "\<forall>r < 32. m_gs ms r = q_vr st r"
proof (intro allI impI)
  fix r :: regn assume "r < 32"
  then have r: "unat r < 32" by (simp add: word_less_nat_alt)
  then have "holds a st ms (unat r)" using assms(2) by (simp add: rel_def vset_def)
  moreover have "rt_type (trk a (unat r)) = T_I32" using assms(1) r by (simp add: good_def track_inv_def)
  ultimately show "m_gs ms r = q_vr st r" using assms(3) r by (simp add: holds_def slot_val_def Let_def)
qed

lemma SyncStage:
  assumes good: "good D a"
  obtains a' where "(if c then rfold sync_global [0 ..< nv a] a else Inr a) = Inr a'" "quiet D a a'" "pins m a a'"
    "c \<longrightarrow> (\<forall>v < 32. in_slot (trk a' v))"
proof (cases c)
  case True
  obtain a' where "rfold sync_global [0 ..< nv a] a = Inr a'" "quiet D a a'" "pins m a a'" "\<forall>v < 32. in_slot (trk a' v)"
    by (rule sync_globals_spec [OF good])
  then show thesis using that [of a'] True by simp
next
  case False
  then show thesis using that [of a] quiet_refl [OF good] by simp
qed

lemma vset_insert [simp]: "insert (unat r) (vset D) = vset (insert r D)"
  by (auto simp: vset_def)

lemma op_info_out:
  assumes "op_info ins = Some (op_ct, ord)" "outputs ins = [d]"
  shows "ord ! 0 = 0 \<and> ct_cr (op_ct ! 0) = CT_R \<and>
    (ct_has_alias (op_ct ! 0) \<longrightarrow>
       ct_has_alias (op_ct ! 1) \<and> ct_alias (op_ct ! 1) = 0 \<and> ct_cr (op_ct ! 1) = CT_R \<and> inputs ins \<noteq> []) \<and>
    (\<forall>k < length (inputs ins). ct_has_alias (op_ct ! Suc k) \<longrightarrow>
       k = 0 \<and> ct_alias (op_ct ! 1) = 0 \<and> ct_has_alias (op_ct ! 0))"
proof (cases ins)
  case (Binop bop x y z)
  then show ?thesis using assms by (cases bop) (auto simp: CT_INFO_eval ct_reg_def less_Suc_eq)
qed (use assms in \<open>auto simp: CT_INFO_eval ct_reg_def less_Suc_eq\<close>)

lemma op_info_noout: "op_info ins = Some (op_ct, ord) \<Longrightarrow> outputs ins = [] \<Longrightarrow> k < length (inputs ins) \<Longrightarrow> \<not> ct_has_alias (op_ct ! k)"
  by (cases ins) (auto simp: CT_INFO_eval ct_reg_def less_Suc_eq)

lemma alloc_srcs_spec:
  assumes good: "good (vset D) a" and ty: "vr_types rn a" and wf: "wf_inst rn D ins" and oi: "op_info ins = Some (op_ct, ord)"
  obtains a1 srcl avoid B where
    "rfold (alloc_src op_ct ord (length (outputs ins))) [0 ..< length (inputs ins)] (a, inputs ins, GPR_FIXED) = Inr (a1, srcl, avoid)"
    "good (vset D) a1" "same_vregs a a1" "fixed_in avoid" "avoid_few 2 avoid" "avoids avoid B" "ra_sim (vset D) a {} a1 B"
    "length srcl = length (inputs ins)"
    "\<forall>k < length (inputs ins). opr_done a1 B (ct_cr (op_ct ! (length (outputs ins) + k))) (inputs ins ! k) (srcl ! k)"
proof -
  have "src_inv rn D ins op_ct ord a 0 (a, inputs ins, GPR_FIXED)"
    using good by (auto simp: src_inv_def fixed_in_def avoid_few_def avoids_def intro: exI [of _ "{}"])
  then have "\<exists>st. rfold (alloc_src op_ct ord (length (outputs ins))) [0 ..< length (inputs ins)] (a, inputs ins, GPR_FIXED) = Inr st \<and>
      src_inv rn D ins op_ct ord a (length (inputs ins)) st"
    by (intro rfold_upt [where P = "src_inv rn D ins op_ct ord a"] alloc_src_step [OF _ _ oi wf ty])
  then obtain a1 srcl avoid where r:
    "rfold (alloc_src op_ct ord (length (outputs ins))) [0 ..< length (inputs ins)] (a, inputs ins, GPR_FIXED) = Inr (a1, srcl, avoid)"
    and iv: "src_inv rn D ins op_ct ord a (length (inputs ins)) (a1, srcl, avoid)" by (metis prod_cases3)
  note crs = op_info_crs_ok [OF oi]
  have tk: "set (take (length (inputs ins)) (drop (length (outputs ins)) ord)) = {..< length (inputs ins)}"
    using crs by (simp add: crs_ok_def)
  note iv' = iv [unfolded src_inv_def prod.case tk]
  obtain B where "avoids avoid B" "ra_sim (vset D) a {} a1 B"
    "\<forall>k \<in> {..< length (inputs ins)}. opr_done a1 B (ct_cr (op_ct ! (length (outputs ins) + k))) (inputs ins ! k) (srcl ! k)"
    using iv' by blast
  moreover have "avoid_few 2 avoid" using iv' crs by (auto simp: crs_ok_def intro: avoid_few_mono)
  ultimately show thesis using that [OF r] iv' by simp
qed

lemma list_all2_zip_ops:
  assumes "length xs = length ts" "length ys = length ts" "\<And>k. k < length ts \<Longrightarrow> P (ts ! k) (xs ! k) (ys ! k)"
  shows "list_all2 (\<lambda>(t, x) y. P t x y) (zip ts xs) ys"
  using assms by (simp add: list_all2_conv_all_nth)

lemma set_outputs_simps [simp]:
  "length xs = length (outputs ins) \<Longrightarrow> outputs (set_outputs ins xs) = xs"
  "inputs (set_outputs ins xs) = inputs ins" "op_info (set_outputs ins xs) = op_info ins"
  "GetOpFlags (set_outputs ins xs) = GetOpFlags ins"
  by (cases ins; auto simp: length_Suc_conv)+

lemma AllocOp_front:
  assumes good: "good (vset D) a" and ty: "vr_types rn a" and wf: "wf_inst rn D ins" and ct: "ct_ok ins"
    and oi: "op_info ins = Some (op_ct, ord)"
  obtains a2 srcl avoid B where
    "\<forall>dstl a3 av. rfold (alloc_dst op_ct ord) [0 ..< length (outputs ins)] (a2, outputs ins, avoid) = Inr (a3, dstl, av) \<longrightarrow>
       AllocOp ins a = Inr (set_outputs (set_inputs ins srcl) dstl, a3)"
    "good (vset D) a2" "same_vregs a a2" "fixed_in avoid" "avoid_few 2 avoid" "ra_sim (vset D) a {} a2 B"
    "length srcl = length (inputs ins)"
    "\<forall>st ms. binds B st ms \<longrightarrow> list_all2 (\<lambda>(t, x) y. opr_val st ms t x y) (zip (in_types ins) (inputs ins)) srcl"
    "\<forall>k < length (inputs ins). opr_done a2 B (ct_cr (op_ct ! (length (outputs ins) + k))) (inputs ins ! k) (srcl ! k)"
    "\<forall>k < length (inputs ins). imm_ok (op_ct ! (length (outputs ins) + k)) (srcl ! k) \<and> preg_ok (op_ct ! (length (outputs ins) + k)) (srcl ! k)"
    "list_all2 mval (in_types ins) srcl"
    "GetOpFlags ins AND SIDEEFF \<noteq> 0 \<longrightarrow> (\<forall>v < 32. in_slot (trk a2 v))"
proof -
  let ?dn = "length (outputs ins)"
  obtain a1 srcl avoid B where
    src: "rfold (alloc_src op_ct ord ?dn) [0 ..< length (inputs ins)] (a, inputs ins, GPR_FIXED) = Inr (a1, srcl, avoid)"
    and g1: "good (vset D) a1" and s1: "same_vregs a a1" and fx: "fixed_in avoid" and few: "avoid_few 2 avoid"
    and avB: "avoids avoid B" and sim1: "ra_sim (vset D) a {} a1 B" and len: "length srcl = length (inputs ins)"
    and done1: "\<forall>k < length (inputs ins). opr_done a1 B (ct_cr (op_ct ! (?dn + k))) (inputs ins ! k) (srcl ! k)"
    by (rule alloc_srcs_spec [OF good ty wf oi])
  obtain a2 where sy: "(if GetOpFlags ins AND SIDEEFF \<noteq> 0 then rfold sync_global [0 ..< nv a1] a1 else Inr a1) = Inr a2"
    and q2: "quiet (vset D) a1 a2" and pin2: "pins avoid a1 a2"
    and sync: "GetOpFlags ins AND SIDEEFF \<noteq> 0 \<longrightarrow> (\<forall>v < 32. in_slot (trk a2 v))"
    by (rule SyncStage [OF g1])
  have g2: "good (vset D) a2" using q2 by (rule quiet_good)
  have s2: "same_vregs a a2" using s1 q2 by (meson quiet_def same_vregs_trans)
  have sim2: "ra_sim (vset D) a {} a2 B" using sim1 q2 by (meson quiet_def ra_sim_trans)
  have done2: "opr_done a2 B (ct_cr (op_ct ! (?dn + k))) (inputs ins ! k) (srcl ! k)" if "k < length (inputs ins)" for k
    using done1 that opr_done_mono [OF _ pin2 avB order_refl quiet_nv [OF q2]] by blast
  have use: "use_ok rn D (in_types ins ! k) (inputs ins ! k)" if "k < length (inputs ins)" for k
    using wf that by (simp add: wf_inst_def use_okD)
  have tl: "length (in_types ins) = length (inputs ins)" using wf by (auto simp: wf_inst_def dest: list_all2_lengthD)
  have vals: "list_all2 (\<lambda>(t, x) y. opr_val st ms t x y) (zip (in_types ins) (inputs ins)) srcl" if "binds B st ms" for st ms
    by (rule list_all2_zip_ops) (use len tl opr_done_val [OF done2 that use] in simp_all)
  have AO: "AllocOp ins a = Inr (set_outputs (set_inputs ins srcl) dstl, a3)"
    if "rfold (alloc_dst op_ct ord) [0 ..< ?dn] (a2, outputs ins, avoid) = Inr (a3, dstl, av)" for dstl a3 av
    using that src sy by (simp add: AllocOp_def oi Let_def)
  have imm: "imm_ok (op_ct ! (?dn + k)) (srcl ! k)" "preg_ok (op_ct ! (?dn + k)) (srcl ! k)" if k: "k < length (inputs ins)" for k
  proof -
    have "imm_ok (op_ct ! (?dn + k)) (inputs ins ! k)"
      using ct k op_info_length [OF oi] by (simp add: ct_ok_def oi list_all2_conv_all_nth)
    then show "imm_ok (op_ct ! (?dn + k)) (srcl ! k)" "preg_ok (op_ct ! (?dn + k)) (srcl ! k)"
      using done2 [OF k] use [OF k] by (cases "inputs ins ! k"; auto simp: opr_done_def imm_ok_def preg_ok_def)+
  qed
  have "mval (in_types ins ! k) (srcl ! k)" if "k < length (inputs ins)" for k
    using done2 [OF that] use [OF that] by (cases "inputs ins ! k") (auto simp: opr_done_def mval_def opr_kinds)
  then have mv: "list_all2 mval (in_types ins) srcl" using len tl by (simp add: list_all2_conv_all_nth)
  show thesis
    by (rule that [of a2 avoid srcl B]) (use AO g2 s2 fx few sim2 len vals done2 imm mv sync in blast)+
qed

lemma AllocOp_mct:
  assumes "op_info ins = Some (op_ct, ord)" "length srcl = length (inputs ins)" "length dstl = length (outputs ins)"
    and "\<forall>k < length (inputs ins). imm_ok (op_ct ! (length (outputs ins) + k)) (srcl ! k) \<and> preg_ok (op_ct ! (length (outputs ins) + k)) (srcl ! k)"
    and "\<And>k. k < length (outputs ins) \<Longrightarrow> preg_ok (op_ct ! k) (dstl ! k)"
    and "\<And>k. k < length (inputs ins) \<Longrightarrow> alias_ok (op_ct ! (length (outputs ins) + k)) dstl (srcl ! k)"
    and "inst_shape ins" "list_all2 mval (in_types ins) srcl" "list_all2 dst_as (outputs ins) dstl"
  shows "mct_ok (set_outputs (set_inputs ins srcl) dstl)"
  using assms op_info_length [OF assms(1)] AllocOp_minst [OF assms(7) _ assms(8,9)]
  by (simp add: mct_ok_def ct_ok_def list_all2_conv_all_nth nth_append)
    (metis add_diff_inverse_nat less_diff_conv2 linorder_not_less add.commute)

lemma emitted_mct_ok: "emitted_ok i \<Longrightarrow> mct_ok i"
proof (cases i)
  case (Mov d s)
  assume "emitted_ok i"
  then have m: "mov_ok d s" by (simp add: emitted_ok_def Mov)
  have "preg_ok ct x" if "mtyp t x" "ct_cr ct = CT_R" for ct x t
    using that CT_R_all [OF mreg16] by (cases x) (simp_all add: preg_ok_def)
  with m show ?thesis by (simp add: mct_ok_def Mov CT_INFO_eval ct_reg_def) (auto simp: mov_ok_def)
qed (simp_all add: emitted_ok_def)

lemma AllocOp_spec:
  assumes good: "good (vset D) a" and ty: "vr_types rn a" and wf: "wf_inst rn D ins" and ct: "ct_ok ins"
    and oi: "op_info ins = Some (op_ct, ord)"
  obtains ins' a' "is" where "AllocOp ins a = Inr (ins', a')" "good (vset (D \<union> defs_of ins)) a'" "same_vregs a a'"
    "ra_pre a' = ra_pre a @ is" "list_all emitted_ok is" "inst_sim (vset D) a ins (vset (D \<union> defs_of ins)) a' is ins'" "mct_ok ins'"
proof -
  let ?dn = "length (outputs ins)"
  obtain a2 srcl avoid B where
    AO': "\<forall>dstl a3 av. rfold (alloc_dst op_ct ord) [0 ..< ?dn] (a2, outputs ins, avoid) = Inr (a3, dstl, av) \<longrightarrow>
       AllocOp ins a = Inr (set_outputs (set_inputs ins srcl) dstl, a3)"
    and g2: "good (vset D) a2" and s2: "same_vregs a a2" and fx: "fixed_in avoid" and few: "avoid_few 2 avoid"
    and sim2: "ra_sim (vset D) a {} a2 B" and len: "length srcl = length (inputs ins)"
    and vals': "\<forall>st ms. binds B st ms \<longrightarrow> list_all2 (\<lambda>(t, x) y. opr_val st ms t x y) (zip (in_types ins) (inputs ins)) srcl"
    and done2: "\<forall>k < length (inputs ins). opr_done a2 B (ct_cr (op_ct ! (?dn + k))) (inputs ins ! k) (srcl ! k)"
    and imm: "\<forall>k < length (inputs ins). imm_ok (op_ct ! (?dn + k)) (srcl ! k) \<and> preg_ok (op_ct ! (?dn + k)) (srcl ! k)"
    and mv: "list_all2 mval (in_types ins) srcl"
    and sync: "GetOpFlags ins AND SIDEEFF \<noteq> 0 \<longrightarrow> (\<forall>v < 32. in_slot (trk a2 v))"
    by (rule AllocOp_front [OF good ty wf ct oi])
  note AO = AO' [rule_format]
  note vals = vals' [rule_format]
  have ty2: "vr_types rn a2" using vr_types_same [OF ty s2] .
  have shape: "inst_shape ins" and outs: "list_all (def_ok rn) (outputs ins)" using wf by (simp_all add: wf_inst_def)
  obtain is2 where pre2: "ra_pre a2 = ra_pre a @ is2" and em2: "list_all emitted_ok is2"
    and dyn2: "\<And>e st ms. rel (vset D) a st ms \<Longrightarrow>
       \<exists>ms'. mexec_insts e is2 ms = Some (MNext ms') \<and> rel (vset D) a2 st ms' \<and> binds B st ms'"
    using sim2 unfolding ra_sim_def by (force simp: binds_def)
  note mct = AllocOp_mct [OF oi len _ imm]
  consider (none) "outputs ins = []" | (one) d where "outputs ins = [d]" by (cases ins) auto
  then show thesis
  proof cases
    case none
    have df: "defs_of ins = {}" by (simp add: defs_of_def none)
    show thesis
    proof (rule that [OF AO [where ?a3.0 = a2 and dstl = "[]" and av = avoid]])
      show "rfold (alloc_dst op_ct ord) [0 ..< ?dn] (a2, outputs ins, avoid) = Inr (a2, [], avoid)" by (simp add: none)
      show "good (vset (D \<union> defs_of ins)) a2" "same_vregs a a2" "ra_pre a2 = ra_pre a @ is2" "list_all emitted_ok is2"
        using g2 s2 pre2 em2 by (simp_all add: df)
      show "mct_ok (set_outputs (set_inputs ins srcl) [])"
        by (rule mct) (use none op_info_noout [OF oi none] shape mv in \<open>simp_all add: alias_ok_def\<close>)
      show "inst_sim (vset D) a ins (vset (D \<union> defs_of ins)) a2 is2 (set_outputs (set_inputs ins srcl) [])"
        unfolding inst_sim_def
      proof (intro allI impI)
        fix e :: menv and st ms q assume r: "rel (vset D) a st ms" and ex: "exec_inst (e_vmem e) ins st = Some q"
        obtain ms1 where m1: "mexec_insts e is2 ms = Some (MNext ms1)" "rel (vset D) a2 st ms1" "binds B st ms1"
          using dyn2 [OF r] by blast
        have "\<exists>q'. mexec_inst e (set_inputs ins srcl) ms1 = Some q' \<and> inst_res (vset D) a2 q q'"
          by (rule exec_nodst [OF none _ m1(2) vals [OF m1(3)] ex]) (simp add: oi)
        moreover have "set_outputs (set_inputs ins srcl) [] = set_inputs ins srcl" using none by (cases ins) simp_all
        ultimately show "\<exists>ms1 q'. mexec_insts e is2 ms = Some (MNext ms1) \<and>
            mexec_inst e (set_outputs (set_inputs ins srcl) []) ms1 = Some q' \<and> inst_res (vset (D \<union> defs_of ins)) a2 q q' \<and>
            (GetOpFlags ins AND SIDEEFF \<noteq> 0 \<longrightarrow> (\<forall>r < 32. m_gs ms1 r = q_vr st r))"
          using m1 sync globals_synced [OF g2 m1(2)] by (auto simp: df)
      qed
    qed
  next
    case (one d)
    note oo = op_info_out [OF oi one]
    show thesis
    proof (cases d)
      case (VVReg t r)
      have df: "defs_of ins = {r}" by (simp add: defs_of_def one VVReg)
      have dok: "r \<noteq> 31" "t \<noteq> T_UNDEF" "vreg_type rn r = Some t" using outs by (simp_all add: one VVReg)
      then have rn: "unat r < NumAll rn" by (auto simp: vreg_type_def IsGlobal_def NumAll_def split: if_splits)
      have vn: "unat r < nv a2" "unat r \<noteq> 31" using ty2 rn dok(1) by (simp_all add: vr_types_def word_unat_eq_iff)
      have "vreg_type rn (of_nat (unat r)) = Some (rt_type (trk a2 (unat r)))"
        using ty2 vn(1) unfolding vr_types_def by blast
      then have tt: "t = rt_type (trk a2 (unat r))" using dok(3) by simp
      have tgt: "has_target (ct_cr (op_ct ! 0)) avoid" using oo has_target_R [OF few] by simp
      have al0: "inputs ins ! 0 = VVReg t r \<and> 0 < length (inputs ins)" if "ct_has_alias (op_ct ! 0)"
      proof -
        have "0 < length (inputs ins)" using oo that by simp
        moreover from this have "alias_ok (op_ct ! (?dn + 0)) (outputs ins) (inputs ins ! 0)"
          using ct op_info_length [OF oi] by (auto simp: ct_ok_def oi list_all2_conv_all_nth)
        ultimately show ?thesis using oo that by (simp add: alias_ok_def one VVReg)
      qed
      have al: "rt_loc (trk a2 (unat r)) = L_REG \<and> srcl ! 0 = VPReg t (rt_p (trk a2 (unat r)))" if "ct_has_alias (op_ct ! 0)"
        using done2 [rule_format, of 0] al0 [OF that] oo that by (auto simp: opr_done_def one)
      obtain b a' p where ad: "alloc_dst op_ct ord 0 (a2, [VVReg t r], avoid) = Inr (a', [VPReg t p], rm_Set avoid p)"
        and qb: "quiet (vset D) a2 b" and pinb: "pins avoid a2 b" and pre': "ra_pre a' = ra_pre b"
        and g': "good (insert (unat r) (vset D)) a'" and s': "same_vregs a2 a'"
        and dr: "dst_rel (vset D) b a' t r p" and p16: "mreg p"
        and inb: "\<forall>w < nv a2. in_slot (trk a2 w) \<longrightarrow> in_slot (trk b w)"
        and pp: "if ct_has_alias (op_ct ! 0) then p = rt_p (trk a2 (unat r)) \<and> b = a2 else rm_Test (ct_cr (op_ct ! 0)) p \<and> \<not> rm_Test avoid p"
        by (rule alloc_dst_spec [OF g2 vn tt _ fx, of ord op_ct]) (use oo tgt al in auto)
      obtain is3 where pre3: "ra_pre b = ra_pre a2 @ is3" and em3: "list_all emitted_ok is3"
        and dyn3: "\<And>e st ms. rel (vset D) a2 st ms \<Longrightarrow> binds B st ms \<Longrightarrow>
           \<exists>ms'. mexec_insts e is3 ms = Some (MNext ms') \<and> rel (vset D) b st ms' \<and> binds B st ms'"
        using qb unfolding quiet_def ra_sim_def by blast
      show thesis
      proof (rule that [OF AO [where ?a3.0 = a' and dstl = "[VPReg t p]" and av = "rm_Set avoid p"]])
        show "rfold (alloc_dst op_ct ord) [0 ..< ?dn] (a2, outputs ins, avoid) = Inr (a', [VPReg t p], rm_Set avoid p)"
          using ad by (simp add: one VVReg)
        show "good (vset (D \<union> defs_of ins)) a'" using g' by (simp add: df)
        show "same_vregs a a'" using s2 s' by (rule same_vregs_trans)
        show "ra_pre a' = ra_pre a @ (is2 @ is3)" "list_all emitted_ok (is2 @ is3)"
          using em2 em3 by (simp_all add: pre' pre3 pre2)
        show "mct_ok (set_outputs (set_inputs ins srcl) [VPReg t p])"
        proof (rule mct)
          show "preg_ok (op_ct ! k) ([VPReg t p] ! k)" if "k < ?dn" for k
            using that p16 oo CT_R_all [OF mreg16 [OF p16]] by (simp add: one preg_ok_def)
          show "alias_ok (op_ct ! (?dn + k)) [VPReg t p] (srcl ! k)" if "k < length (inputs ins)" for k
            using that oo pp al by (auto simp: alias_ok_def one)
        qed (use shape mv p16 dok(2) in \<open>simp_all add: one VVReg dst_as_def\<close>)
        show "inst_sim (vset D) a ins (vset (D \<union> defs_of ins)) a' (is2 @ is3) (set_outputs (set_inputs ins srcl) [VPReg t p])"
          unfolding inst_sim_def
        proof (intro allI impI)
          fix e :: menv and st ms q assume r: "rel (vset D) a st ms" and ex: "exec_inst (e_vmem e) ins st = Some q"
          obtain ms1 where m1: "mexec_insts e is2 ms = Some (MNext ms1)" "rel (vset D) a2 st ms1" "binds B st ms1"
            using dyn2 [OF r] by blast
          obtain ms2 where m2: "mexec_insts e is3 ms1 = Some (MNext ms2)" "rel (vset D) b st ms2" "binds B st ms2"
            using dyn3 [OF m1(2,3)] by blast
          have q': "\<exists>q'. mexec_inst e (set_outputs (set_inputs ins srcl) [VPReg t p]) ms2 = Some q' \<and>
              inst_res (insert (unat r) (vset D)) a' q q'"
            by (rule exec_dst [OF _ shape dok(2) m2(2) dr vals [OF m2(3)] ex]) (simp add: one VVReg)
          have "GetOpFlags ins AND SIDEEFF \<noteq> 0 \<longrightarrow> (\<forall>v < 32. in_slot (trk b v))"
            using sync inb g2 by (auto simp: good_def track_inv_def)
          then have "GetOpFlags ins AND SIDEEFF \<noteq> 0 \<longrightarrow> (\<forall>r < 32. m_gs ms2 r = q_vr st r)"
            using globals_synced [OF quiet_good [OF qb] m2(2)] by blast
          with q' m1(1) m2(1) show "\<exists>ms1 q'. mexec_insts e (is2 @ is3) ms = Some (MNext ms1) \<and>
              mexec_inst e (set_outputs (set_inputs ins srcl) [VPReg t p]) ms1 = Some q' \<and> inst_res (vset (D \<union> defs_of ins)) a' q q' \<and>
              (GetOpFlags ins AND SIDEEFF \<noteq> 0 \<longrightarrow> (\<forall>r < 32. m_gs ms1 r = q_vr st r))"
            by (auto simp: mexec_insts_append df)
        qed
      qed
    next
      case (VSlot g t offs)
      have df: "defs_of ins = {}" by (simp add: defs_of_def one VSlot)
      have mov: "\<exists>s. ins = Mov d s" using shape one VSlot by (cases ins) (auto simp: i32_vreg_def)
      show thesis
      proof (rule that [OF AO [where ?a3.0 = a2 and dstl = "[d]" and av = avoid]])
        show "rfold (alloc_dst op_ct ord) [0 ..< ?dn] (a2, outputs ins, avoid) = Inr (a2, [d], avoid)"
          using oo by (simp add: one alloc_dst_def VSlot Let_def)
        show "good (vset (D \<union> defs_of ins)) a2" "same_vregs a a2" "ra_pre a2 = ra_pre a @ is2" "list_all emitted_ok is2"
        using g2 s2 pre2 em2 by (simp_all add: df)
        show "mct_ok (set_outputs (set_inputs ins srcl) [d])"
          by (rule mct) (use mov oi shape mv outs in \<open>auto simp: one VSlot preg_ok_def alias_ok_def dst_as_def CT_INFO_eval ct_reg_def\<close>)
        show "inst_sim (vset D) a ins (vset (D \<union> defs_of ins)) a2 is2 (set_outputs (set_inputs ins srcl) [d])"
          unfolding inst_sim_def
        proof (intro allI impI)
          fix e :: menv and st ms q assume r: "rel (vset D) a st ms" and ex: "exec_inst (e_vmem e) ins st = Some q"
          obtain ms1 where m1: "mexec_insts e is2 ms = Some (MNext ms1)" "rel (vset D) a2 st ms1" "binds B st ms1"
            using dyn2 [OF r] by blast
          have ds: "outputs ins = [VSlot g t offs]" "def_ok rn (VSlot g t offs)" using one VSlot outs by simp_all
          have "\<exists>q'. mexec_inst e (set_outputs (set_inputs ins srcl) (outputs ins)) ms1 = Some q' \<and> inst_res (vset D) a2 q q'"
            by (rule exec_slot [OF ds shape g2 m1(2) vals [OF m1(3)] ex])
          then show "\<exists>ms1 q'. mexec_insts e is2 ms = Some (MNext ms1) \<and>
              mexec_inst e (set_outputs (set_inputs ins srcl) [d]) ms1 = Some q' \<and> inst_res (vset (D \<union> defs_of ins)) a2 q q' \<and>
              (GetOpFlags ins AND SIDEEFF \<noteq> 0 \<longrightarrow> (\<forall>r < 32. m_gs ms1 r = q_vr st r))"
            using m1 sync globals_synced [OF g2 m1(2)] by (auto simp: df one)
        qed
      qed
    qed (use outs one in simp_all)
  qed
qed

end
