(* ===== verification/Regalloc_Region.thy ===== *)
theory Regalloc_Region
  imports Regalloc_Correct
begin

section \<open>Correctness of register allocation: boundaries, blocks and regions\<close>

text \<open>
  At the end of a block the globals go back to the guest CPU state, before a helper call also the
  registers the call clobbers are emptied. From this, with the lemmas on single instructions, the
  allocated region does what the region did, and the allocator does not panic.
\<close>

subsection \<open>Spilling the globals\<close>

definition gl_mem :: "ra \<Rightarrow> bool" where
  "gl_mem a \<longleftrightarrow> (\<forall>v < 32. rt_loc (trk a v) = L_MEM)"

lemma gl_mem_pre [simp]: "gl_mem (a\<lparr>ra_pre := xs\<rparr>) = gl_mem a"
  by (simp add: gl_mem_def)

text \<open>The first \<open>i\<close> registers are done; no register has been taken.\<close>

definition gspill :: "nat set \<Rightarrow> ra \<Rightarrow> nat \<Rightarrow> ra \<Rightarrow> bool" where
  "gspill D a i a' \<longleftrightarrow>
     quiet D a a' \<and> (\<forall>w < i. w < 32 \<longrightarrow> rt_loc (trk a' w) = L_MEM) \<and> (\<forall>p. ra_p2v a p = None \<longrightarrow> ra_p2v a' p = None)"

lemma gspill_0: "good D a \<Longrightarrow> gspill D a 0 a"
  by (simp add: gspill_def quiet_refl)

lemma gspill_nv: "gspill D a i a' \<Longrightarrow> nv a' = nv a"
  unfolding gspill_def by (blast intro: quiet_nv)

lemma gspill_all: "gspill D a (nv a) a' \<Longrightarrow> gl_mem a'"
  by (auto simp: gspill_def gl_mem_def quiet_def good_def track_inv_def same_vregs_def)

lemma spill_one:
  assumes P: "gspill D a i a1" and i: "i < nv a" and loc: "rt_loc (trk a1 i) \<noteq> L_DEAD"
  shows "\<exists>a2. Spill_track i a1 = Inr a2 \<and> gspill D a (Suc i) a2"
proof -
  have q: "quiet D a a1" using P by (simp add: gspill_def)
  note g1 = quiet_good [OF q] and n1 = quiet_nv [OF q]
  have i1: "i < nv a1" using i n1 by simp
  obtain a2 where "Spill_track i a1 = Inr a2" "quiet D a1 a2" "rt_loc (trk a2 i) = L_MEM"
    "\<And>w. w < nv a1 \<Longrightarrow> w \<noteq> i \<Longrightarrow> rt_loc (trk a2 w) = rt_loc (trk a1 w) \<and> rt_p (trk a2 w) = rt_p (trk a1 w)"
    "ra_p2v a2 = (if rt_loc (trk a1 i) = L_REG then (ra_p2v a1)(rt_p (trk a1 i) := None) else ra_p2v a1)"
    "\<forall>w < nv a1. in_slot (trk a1 w) \<longrightarrow> in_slot (trk a2 w)"
    by (rule Spill_track_spec [OF g1 i1 loc]) blast
  then show ?thesis using P i n1 quiet_trans [OF q] unfolding gspill_def by (auto simp: less_Suc_eq)
qed

lemma spill_global_step:
  assumes P: "gspill D a i a1" and i: "i < nv a"
  shows "\<exists>a2. spill_global i a1 = Inr a2 \<and> gspill D a (Suc i) a2"
proof -
  have q: "quiet D a a1" using P by (simp add: gspill_def)
  note g1 = quiet_good [OF q] and n1 = quiet_nv [OF q]
  show ?thesis
  proof (cases "i < 32")
    case True
    then have "spill_global i a1 = Spill_track i a1" using good_global [OF g1] i n1 by (simp add: spill_global_def)
    then show ?thesis using spill_one [OF P i] good_locD [OF g1 True] by simp
  next
    case False
    then have "spill_global i a1 = Inr a1" using good_global [OF g1] i n1 by (simp add: spill_global_def)
    then show ?thesis using P False by (auto simp: gspill_def less_Suc_eq)
  qed
qed

lemma BlockBoundary_spec:
  assumes "good D a"
  obtains a' where "BlockBoundary a = Inr a'" "quiet D a a'" "gl_mem a'"
proof -
  have "\<exists>a'. rfold spill_global [0 ..< nv a] a = Inr a' \<and> gspill D a (nv a) a'"
    by (rule rfold_upt) (use spill_global_step gspill_0 [OF assms] in blast)+
  then obtain a' where a': "rfold spill_global [0 ..< nv a] a = Inr a'" "gspill D a (nv a) a'" by blast
  then show thesis using that [of a'] gspill_all by (simp add: BlockBoundary_def gspill_def)
qed

lemma vset_local: "i \<in> vset {} \<longleftrightarrow> i < 32"
  by (simp add: vset_def)

lemma RegionBoundary_spec:
  assumes "good (vset {}) a"
  obtains a' where "RegionBoundary a = Inr a'" "quiet (vset {}) a a'" "gl_mem a'"
proof -
  let ?f = "\<lambda>i a. if rt_global (trk a i) then Spill_track i a else Inr (Release False i a)"
  have "\<exists>a'. rfold ?f [0 ..< nv a] a = Inr a' \<and> gspill (vset {}) a (nv a) a'"
  proof (rule rfold_upt)
    show "gspill (vset {}) a 0 a" by (rule gspill_0 [OF assms])
    fix i a1 assume i: "i < nv a" and P: "gspill (vset {}) a i a1"
    then have q: "quiet (vset {}) a a1" by (simp add: gspill_def)
    note g1 = quiet_good [OF q] and n1 = quiet_nv [OF q]
    show "\<exists>a2. ?f i a1 = Inr a2 \<and> gspill (vset {}) a (Suc i) a2"
    proof (cases "i < 32")
      case True
      then have "rt_global (trk a1 i)" using good_global [OF g1] i n1 by simp
      then show ?thesis using spill_one [OF P i] good_locD [OF g1 True] by simp
    next
      case False
      then have l: "\<not> rt_global (trk a1 i)" using good_global [OF g1] i n1 by simp
      have i1: "i < nv a1" "i \<in> vset {} \<longrightarrow> in_slot (trk a1 i)" using i n1 False by (simp_all add: vset_local)
      note R = Release_spec [OF g1 i1]
      have "gspill (vset {}) a (Suc i) (Release False i a1)"
        using P False R(3) quiet_trans [OF q R(1)] unfolding gspill_def R(4) by (auto simp: less_Suc_eq)
      then show ?thesis using l by simp
    qed
  qed
  then obtain a' where "rfold ?f [0 ..< nv a] a = Inr a'" "gspill (vset {}) a (nv a) a'" by blast
  then show thesis using that [of a'] gspill_all by (simp add: RegionBoundary_def gspill_def)
qed

subsection \<open>Helper calls\<close>

lemma call_globals_spec:
  assumes "gspill D a i a1" "i \<le> nv a" "nv a \<le> 255" "nv a - i \<le> fuel"
  shows "\<exists>a2. call_globals fuel (of_nat i) a1 = Inr a2 \<and> gspill D a (nv a) a2"
  using assms
proof (induction fuel arbitrary: i a1)
  case 0
  have "nv a1 = nv a" by (rule gspill_nv [OF 0(1)])
  moreover have "unat (of_nat i :: u8) = i" using 0 by (simp add: unat_of_nat take_bit_nat_eq_self)
  moreover have "i = nv a" using 0 by simp
  ultimately show ?case using 0 by (simp add: call_globals.simps)
next
  case (Suc n)
  have u: "unat (of_nat i :: u8) = i" using Suc.prems by (simp add: unat_of_nat take_bit_nat_eq_self)
  have n1: "nv a1 = nv a" by (rule gspill_nv [OF Suc.prems(1)])
  show ?case
  proof (cases "i < nv a")
    case True
    obtain a2 where a2: "spill_global i a1 = Inr a2" "gspill D a (Suc i) a2"
      using spill_global_step [OF Suc.prems(1) True] by blast
    have "\<exists>a3. call_globals n (of_nat (Suc i)) a2 = Inr a3 \<and> gspill D a (nv a) a3"
      by (rule Suc.IH [OF a2(2)]) (use Suc.prems True in simp_all)
    then show ?thesis using True u n1 a2(1) by (simp add: call_globals.simps [of "Suc n"] add.commute)
  next
    case False
    then show ?thesis using Suc.prems u n1 by (simp add: call_globals.simps)
  qed
qed

text \<open>With more virtual registers the loop never ends.\<close>

lemma call_globals_hangs:
  assumes "good D a" "256 \<le> nv a"
  shows "call_globals fuel i a = Inl Hang"
  using assms
proof (induction fuel arbitrary: i a)
  case 0
  then show ?case using unsigned_less [of i, where 'a = nat] by (subst call_globals.simps) simp
next
  case (Suc n)
  have i: "unat i < nv a" using Suc.prems unsigned_less [of i, where 'a = nat] by simp
  obtain a' where a': "spill_global (unat i) a = Inr a'" "quiet D a a'"
  proof (cases "rt_global (trk a (unat i))")
    case True
    then have "unat i < 32" using good_global [OF Suc.prems(1) i] by simp
    then have l: "rt_loc (trk a (unat i)) \<noteq> L_DEAD" using good_locD [OF Suc.prems(1)] by simp
    show thesis
      by (rule Spill_track_spec [OF Suc.prems(1) i l]) (use that True in \<open>simp add: spill_global_def\<close>)
  next
    case False
    then show thesis using that quiet_refl [OF Suc.prems(1)] by (simp add: spill_global_def)
  qed
  have "call_globals n (i + 1) a' = Inl Hang"
    using Suc.IH [of a' "i + 1"] quiet_good [OF a'(2)] quiet_nv [OF a'(2)] Suc.prems(2) by simp
  then show ?case using i a'(1) by (subst call_globals.simps) simp
qed


text \<open>The registers a call clobbers hold nothing.\<close>

definition no_clob :: "ra \<Rightarrow> bool" where
  "no_clob a \<longleftrightarrow> (\<forall>p. unat p < 16 \<and> rm_Test GPR_CALL_CLOBBER p \<longrightarrow> ra_p2v a p = None)"

lemma Spill_preg_step:
  assumes q: "quiet D a a1"
  shows "\<exists>a2. Spill_preg p a1 = Inr a2 \<and> quiet D a a2 \<and> ra_p2v a2 p = None \<and>
    (\<forall>p'. ra_p2v a1 p' = None \<longrightarrow> ra_p2v a2 p' = None)"
proof (cases "ra_p2v a1 p")
  case None
  then show ?thesis using q by (simp add: Spill_preg_def)
next
  case (Some v)
  note g1 = quiet_good [OF q]
  have v: "v < nv a1" "rt_loc (trk a1 v) = L_REG" "rt_p (trk a1 v) = p"
    using g1 Some by (auto simp: good_def preg_inv_def)
  obtain a2 where "Spill_track v a1 = Inr a2" "quiet D a1 a2"
    "ra_p2v a2 = (if rt_loc (trk a1 v) = L_REG then (ra_p2v a1)(rt_p (trk a1 v) := None) else ra_p2v a1)"
    by (rule Spill_track_spec [OF g1 v(1)]) (use v(2) in auto)
  then show ?thesis using Some v quiet_trans [OF q] by (auto simp: Spill_preg_def)
qed

lemma clobber_loop:
  assumes good: "good D a"
  shows "\<exists>a'. rfold (\<lambda>p a. if rm_Test GPR_CALL_CLOBBER p then Spill_preg p a else Inr a) pregs a = Inr a' \<and>
    quiet D a a' \<and> no_clob a'"
proof -
  let ?f = "\<lambda>p a. if rm_Test GPR_CALL_CLOBBER p then Spill_preg p a else Inr a"
  define P where "P = (\<lambda>i a'. quiet D a a' \<and>
    (\<forall>k < i. rm_Test GPR_CALL_CLOBBER (of_nat k) \<longrightarrow> ra_p2v a' (of_nat k) = None))"
  have "\<exists>a'. rfold (\<lambda>i. ?f (of_nat i)) [0 ..< N_PREGS] a = Inr a' \<and> P N_PREGS a'"
  proof (rule rfold_upt)
    show "P 0 a" using quiet_refl [OF good] by (simp add: P_def)
    fix i a1 assume "P i a1"
    then show "\<exists>a2. ?f (of_nat i) a1 = Inr a2 \<and> P (Suc i) a2"
      using Spill_preg_step [of D a a1 "of_nat i"] unfolding P_def less_Suc_eq by auto
  qed
  then obtain a' where a': "rfold (\<lambda>i. ?f (of_nat i)) [0 ..< N_PREGS] a = Inr a'" "P N_PREGS a'" by blast
  have "ra_p2v a' p = None" if "unat p < 16" "rm_Test GPR_CALL_CLOBBER p" for p
    using a'(2) that by (simp add: P_def N_PREGS_def GPR_NUM_def) (metis of_nat_unat ucast_id)
  then show ?thesis using a' by (simp add: pregs_def rfold_map comp_def no_clob_def P_def)
qed

lemma CallOp_spec:
  assumes good: "good D a" and n: "nv a \<le> 255"
  obtains a' where "CallOp True a = Inr a'" "quiet D a a'" "gl_mem a'" "no_clob a'"
proof -
  obtain a1 where a1: "rfold (\<lambda>p a. if rm_Test GPR_CALL_CLOBBER p then Spill_preg p a else Inr a) pregs a = Inr a1"
    "quiet D a a1" "no_clob a1"
    using clobber_loop [OF good] by blast
  note n1 = quiet_nv [OF a1(2)]
  obtain a2 where a2: "call_globals 256 0 a1 = Inr a2" "gspill D a1 (nv a1) a2"
    using call_globals_spec [OF gspill_0 [OF quiet_good [OF a1(2)]], of 256] n n1 by auto
  show thesis
  proof (rule that)
    show "CallOp True a = Inr a2" using a1(1) a2(1) by (simp add: CallOp_def)
    show "quiet D a a2" using a1(2) a2(2) unfolding gspill_def by (blast intro: quiet_trans)
    show "gl_mem a2" by (rule gspill_all [OF a2(2)])
    show "no_clob a2" using a1(3) a2(2) by (simp add: no_clob_def gspill_def)
  qed
qed

lemma CallOp_hangs:
  assumes good: "good D a" and n: "256 \<le> nv a"
  shows "CallOp True a = Inl Hang"
proof -
  obtain a1 where a1: "rfold (\<lambda>p a. if rm_Test GPR_CALL_CLOBBER p then Spill_preg p a else Inr a) pregs a = Inr a1"
    "quiet D a a1" using clobber_loop [OF good] by blast
  then have "call_globals 256 0 a1 = Inl Hang"
    using call_globals_hangs [OF quiet_good [OF a1(2)]] quiet_nv [OF a1(2)] n by simp
  then show ?thesis using a1(1) by (simp add: CallOp_def)
qed

text \<open>A helper call keeps the locals where they are, and the globals are in the guest CPU state.\<close>

lemma cpu_of_as_q:
  assumes "\<forall>r < 32. m_gs ms r = q_vr st r" "m_trap ms = q_trap st"
  shows "cpu_of (as_q ms) = cpu_of st"
proof -
  have "m_gs ms (gvr r) = q_vr st (gvr r)" if "r \<noteq> 0" "r < 32" for r
    using assms(1) less_trans [OF gvr_less [OF that], of 32] by simp
  then show ?thesis using assms by (auto simp: cpu_of_def as_q_def fun_eq_iff linorder_not_le leD)
qed

lemma after_call_rel:
  assumes good: "good (vset D) a" and gl: "gl_mem a" and nc: "no_clob a" and r: "rel (vset D) a st ms"
    and sv: "\<forall>p. saved p \<longleftrightarrow> \<not> rm_Test GPR_CALL_CLOBBER p"
  shows "rel (vset D) a (put_cpu st s m) (after_call saved clob ms s m)"
proof -
  have tr: "track_inv a" "preg_inv a" "defd (vset D) a" using good by (simp_all add: good_def)
  have "holds a (put_cpu st s m) (after_call saved clob ms s m) v" if v: "v \<in> vset D" for v
  proof -
    have h: "holds a st ms v" using r v by (simp add: rel_def)
    have n: "v < nv a" "nv a \<le> 288" using tr v by (auto simp: defd_def track_inv_def)
    have u: "unat (of_nat v :: regn) = v" using n by (simp add: unat_of_nat take_bit_nat_eq_self)
    show ?thesis
    proof (cases "v < 32")
      case True
      then have "rt_loc (trk a v) = L_MEM" "rt_type (trk a v) = T_I32" "of_nat v < (31 :: regn) \<or> of_nat v = (31 :: regn)"
        using gl tr(1) u by (auto simp: gl_mem_def track_inv_def word_less_nat_alt word_unat_eq_iff)
      then show ?thesis
        using True by (auto simp: holds_def Let_def slot_val_def after_call_def put_cpu_def as_q_def in_slot_def)
    next
      case False
      then have g: "\<not> (of_nat v :: regn) < 31" "(of_nat v :: regn) \<noteq> 31"
        using u by (auto simp: word_less_nat_alt word_unat_eq_iff)
      have "saved (rt_p (trk a v))" if "rt_loc (trk a v) = L_REG"
        using that tr(2) n(1) nc sv by (auto simp: preg_inv_def no_clob_def)
      then show ?thesis
        using False g h by (auto simp: holds_def Let_def slot_val_def after_call_def put_cpu_def)
    qed
  qed
  then show ?thesis by (simp add: rel_def after_call_def put_cpu_def Let_def)
qed

lemma gl_mem_synced:
  assumes "good (vset D) a" "gl_mem a" "rel (vset D) a st ms"
  shows "\<forall>r < 32. m_gs ms r = q_vr st r"
  using globals_synced [OF assms(1,3)] assms(2) by (simp add: gl_mem_def in_slot_def)

lemma exec_hcall:
  assumes good: "good (vset D) a" and gl: "gl_mem a" and nc: "no_clob a" and r: "rel (vset D) a st ms"
    and sv: "\<forall>p. e_saved e p \<longleftrightarrow> \<not> rm_Test GPR_CALL_CLOBBER p" and c: "is_const x"
    and ex: "exec_inst (e_vmem e) (Hcall sid x) st = Some q"
  shows "\<exists>q'. mexec_inst e (Hcall sid x) ms = Some q' \<and> inst_res (vset D) a q q'"
proof -
  obtain t y where x: "x = VConst t y" using c by (cases x) (simp_all add: is_const_def)
  have m: "m_mem ms = q_mem st" "m_trap ms = q_trap st" using r by (simp_all add: rel_def)
  have "cpu_of (as_q ms) = cpu_of st" by (rule cpu_of_as_q [OF gl_mem_synced [OF good gl r] m(2)])
  then show ?thesis
    using ex m after_call_rel [OF good gl nc r sv]
    by (cases "stub_op sid") (auto simp: x split: hres.splits)
qed

subsection \<open>Every instruction\<close>

text \<open>After a branch that leaves the region the locals are gone.\<close>

definition live_after :: "regn set \<Rightarrow> inst \<Rightarrow> regn set" where
  "live_after D ins = (case ins of GBr _ \<Rightarrow> {} | GBrind _ \<Rightarrow> {} | _ \<Rightarrow> D \<union> defs_of ins)"

lemma live_after_other: "\<not> is_term ins \<Longrightarrow> live_after D ins = D \<union> defs_of ins"
  by (cases ins) (simp_all add: live_after_def)

definition visit_ok :: "regn set \<Rightarrow> inst \<Rightarrow> ra \<Rightarrow> bool" where
  "visit_ok D ins a \<longleftrightarrow>
     (\<exists>ins' a' is. ra_visit ins a = Inr (ins', a') \<and> good (vset (live_after D ins)) a' \<and> same_vregs a a' \<and>
        ra_pre a' = ra_pre a @ is \<and> list_all emitted_ok is \<and> inst_sim (vset D) a ins (vset (live_after D ins)) a' is ins' \<and> mct_ok ins' \<and>
        (is_term ins \<or> is_hcall ins \<longrightarrow> gl_mem a'))"

lemma visit_okI:
  assumes "ra_visit ins a = Inr (ins', a')" "good (vset (live_after D ins)) a'" "same_vregs a a'"
    "ra_pre a' = ra_pre a @ pre" "list_all emitted_ok pre" "inst_sim (vset D) a ins (vset (live_after D ins)) a' pre ins'" "mct_ok ins'"
    "is_term ins \<or> is_hcall ins \<longrightarrow> gl_mem a'"
  shows "visit_ok D ins a"
  using assms unfolding visit_ok_def by blast

lemma vset_mono: "D \<subseteq> D' \<Longrightarrow> vset D \<subseteq> vset D'"
  by (auto simp: vset_def)

text \<open>
  An instruction without output: its operands are put into registers, the boundary code follows,
  and the operands are still there.
\<close>

lemma visit_boundary:
  assumes s1: "same_vregs a a1" "ra_sim (vset D) a {} a1 B" and q2: "quiet (vset D') a1 a2" and gl: "gl_mem a2"
    and D': "D' \<subseteq> D" "live_after D ins = D'" and v: "ra_visit ins a = Inr (ins', a2)" "mct_ok ins'"
    and step: "\<And>e st ms q. (\<forall>p. e_saved e p \<longleftrightarrow> \<not> rm_Test GPR_CALL_CLOBBER p) \<Longrightarrow> rel (vset D') a2 st ms \<Longrightarrow>
      binds B st ms \<Longrightarrow> exec_inst (e_vmem e) ins st = Some q \<Longrightarrow>
      \<exists>q'. mexec_inst e ins' ms = Some q' \<and> inst_res (vset D') a2 q q'"
  shows "visit_ok D ins a"
proof -
  have g2: "good (vset D') a2" and s2: "same_vregs a1 a2" and sim2: "ra_sim (vset D') a1 B a2 B"
    using q2 by (simp_all add: quiet_def)
  obtain is1 is2 where p: "ra_pre a1 = ra_pre a @ is1" "ra_pre a2 = ra_pre a1 @ is2" "list_all emitted_ok is1" "list_all emitted_ok is2"
    and d1: "\<And>e st ms. rel (vset D) a st ms \<Longrightarrow>
      \<exists>ms'. mexec_insts e is1 ms = Some (MNext ms') \<and> rel (vset D) a1 st ms' \<and> binds B st ms'"
    and d2: "\<And>e st ms. rel (vset D') a1 st ms \<Longrightarrow> binds B st ms \<Longrightarrow>
      \<exists>ms'. mexec_insts e is2 ms = Some (MNext ms') \<and> rel (vset D') a2 st ms' \<and> binds B st ms'"
    using s1(2) sim2 unfolding ra_sim_def by (force simp: binds_def)
  have "inst_sim (vset D) a ins (vset D') a2 (is1 @ is2) ins'" unfolding inst_sim_def
  proof (intro allI impI)
    fix e :: menv and st ms q assume sv: "\<forall>p. e_saved e p \<longleftrightarrow> \<not> rm_Test GPR_CALL_CLOBBER p"
      and r: "rel (vset D) a st ms" and ex: "exec_inst (e_vmem e) ins st = Some q"
    obtain ms1 where m1: "mexec_insts e is1 ms = Some (MNext ms1)" "rel (vset D) a1 st ms1" "binds B st ms1"
      using d1 [OF r] by blast
    obtain ms2 where m2: "mexec_insts e is2 ms1 = Some (MNext ms2)" "rel (vset D') a2 st ms2" "binds B st ms2"
      using d2 [OF rel_subset [OF m1(2) vset_mono [OF D'(1)]] m1(3)] by blast
    show "\<exists>ms1 q'. mexec_insts e (is1 @ is2) ms = Some (MNext ms1) \<and> mexec_inst e ins' ms1 = Some q' \<and>
        inst_res (vset D') a2 q q' \<and> (GetOpFlags ins AND SIDEEFF \<noteq> 0 \<longrightarrow> (\<forall>r < 32. m_gs ms1 r = q_vr st r))"
      using m1(1) m2(1) step [OF sv m2(2,3) ex] gl_mem_synced [OF g2 gl m2(2)] by (auto simp: mexec_insts_append)
  qed
  then show ?thesis
    by (intro visit_okI [OF v(1) _ same_vregs_trans [OF s1(1) s2], where pre = "is1 @ is2"])
      (use g2 p v(2) gl in \<open>simp_all add: D'(2)\<close>)
qed

lemma mct_ok_none: "op_info ins = None \<Longrightarrow> inst_shape ins \<Longrightarrow> mct_ok ins"
  by (cases ins) (simp_all add: mct_ok_def ct_ok_def)

lemma visit_Br:
  assumes good: "good (vset D) a"
  shows "visit_ok D Br a"
proof -
  obtain a' where a': "BlockBoundary a = Inr a'" "quiet (vset D) a a'" "gl_mem a'" by (rule BlockBoundary_spec [OF good])
  show ?thesis
    by (rule visit_boundary [OF same_vregs_refl ra_sim_refl a'(2,3)])
      (use a'(1) in \<open>auto simp: ra_visit_def live_after_def mct_ok_none\<close>)
qed

lemma good_none: "good (vset D) a \<Longrightarrow> good (vset {}) a"
  by (rule good_subset) (auto simp: vset_def)

lemma visit_GBr:
  assumes good: "good (vset D) a" and wf: "wf_inst rn D (GBr t)"
  shows "visit_ok D (GBr t) a"
proof -
  obtain a' where a': "RegionBoundary a = Inr a'" "quiet (vset {}) a a'" "gl_mem a'"
    by (rule RegionBoundary_spec [OF good_none [OF good]])
  obtain ty c where t: "t = VConst ty c" using wf by (cases t) (simp_all add: wf_inst_def is_const_def)
  show ?thesis
    by (rule visit_boundary [OF same_vregs_refl ra_sim_refl a'(2,3)])
      (use a'(1) in \<open>auto simp: t ra_visit_def live_after_def mct_ok_none is_const_def\<close>)
qed

lemma visit_Hcall:
  assumes good: "good (vset D) a" and n: "nv a \<le> 255" and wf: "wf_inst rn D (Hcall sid x)"
  shows "visit_ok D (Hcall sid x) a"
proof -
  obtain a' where a': "CallOp True a = Inr a'" "quiet (vset D) a a'" "gl_mem a'" "no_clob a'"
    by (rule CallOp_spec [OF good n])
  have c: "is_const x" using wf by (simp add: wf_inst_def)
  show ?thesis
  proof (rule visit_boundary [OF same_vregs_refl ra_sim_refl a'(2,3)])
    fix e :: menv and st ms q
    assume "\<forall>p. e_saved e p \<longleftrightarrow> \<not> rm_Test GPR_CALL_CLOBBER p" "rel (vset D) a' st ms"
      "exec_inst (e_vmem e) (Hcall sid x) st = Some q"
    then show "\<exists>q'. mexec_inst e (Hcall sid x) ms = Some q' \<and> inst_res (vset D) a' q q'"
      by (intro exec_hcall [OF quiet_good [OF a'(2)] a'(3,4)] c)
  qed (use a'(1) wf in \<open>simp_all add: ra_visit_def live_after_def mct_ok_none wf_inst_def\<close>)
qed

text \<open>Branches with operands: the code of \<open>AllocOp\<close>, then the boundary.\<close>

lemma visit_branch:
  assumes good: "good (vset D) a" and ty: "vr_types rn a" and wf: "wf_inst rn D ins" and ct: "ct_ok ins"
    and oi: "op_info ins = Some (op_ct, ord)" and none: "outputs ins = []"
    and D': "D' \<subseteq> D" "live_after D ins = D'"
    and bd: "\<And>a1. good (vset D) a1 \<Longrightarrow> \<exists>a2. bdry a1 = Inr a2 \<and> quiet (vset D') a1 a2 \<and> gl_mem a2"
    and v: "ra_visit ins a = rbind (AllocOp ins a) (\<lambda>(ins', a'). rbind (bdry a') (\<lambda>a''. Inr (ins', a'')))"
  shows "visit_ok D ins a"
proof -
  obtain a2 srcl avoid B where
    AO: "\<forall>dstl a3 av. rfold (alloc_dst op_ct ord) [0 ..< length (outputs ins)] (a2, outputs ins, avoid) = Inr (a3, dstl, av) \<longrightarrow>
       AllocOp ins a = Inr (set_outputs (set_inputs ins srcl) dstl, a3)"
    and g2: "good (vset D) a2" and s2: "same_vregs a a2" and "fixed_in avoid" "avoid_few 2 avoid"
    and sim2: "ra_sim (vset D) a {} a2 B" and len: "length srcl = length (inputs ins)"
    and vals: "\<forall>st ms. binds B st ms \<longrightarrow> list_all2 (\<lambda>(t, x) y. opr_val st ms t x y) (zip (in_types ins) (inputs ins)) srcl"
    and "\<forall>k < length (inputs ins). opr_done a2 B (ct_cr (op_ct ! (length (outputs ins) + k))) (inputs ins ! k) (srcl ! k)"
    and imm: "\<forall>k < length (inputs ins). imm_ok (op_ct ! (length (outputs ins) + k)) (srcl ! k) \<and>
       preg_ok (op_ct ! (length (outputs ins) + k)) (srcl ! k)"
    and mv: "list_all2 mval (in_types ins) srcl"
    and "GetOpFlags ins AND SIDEEFF \<noteq> 0 \<longrightarrow> (\<forall>v < 32. in_slot (trk a2 v))"
    by (rule AllocOp_front [OF good ty wf ct oi])
  obtain a3 where a3: "bdry a2 = Inr a3" "quiet (vset D') a2 a3" "gl_mem a3" using bd [OF g2] by blast
  have so: "set_outputs (set_inputs ins srcl) [] = set_inputs ins srcl" using none by (cases ins) simp_all
  have AO': "AllocOp ins a = Inr (set_inputs ins srcl, a2)"
    using AO [rule_format, of a2 "[]" avoid] by (simp add: none so)
  show ?thesis
  proof (rule visit_boundary [OF s2 sim2 a3(2,3) D'])
    show "ra_visit ins a = Inr (set_inputs ins srcl, a3)" using v AO' a3(1) by simp
    show "mct_ok (set_inputs ins srcl)"
      using AllocOp_mct [OF oi len _ imm, of "[]"] op_info_noout [OF oi none] wf mv by (simp add: none so alias_ok_def wf_inst_def)
    fix e :: menv and st ms q
    assume r: "rel (vset D') a3 st ms" and b: "binds B st ms" and ex: "exec_inst (e_vmem e) ins st = Some q"
    show "\<exists>q'. mexec_inst e (set_inputs ins srcl) ms = Some q' \<and> inst_res (vset D') a3 q q'"
      by (rule exec_nodst [OF none _ r vals [rule_format, OF b] ex]) (simp add: oi)
  qed
qed

lemma ra_visit_spec:
  assumes good: "good (vset D) a" and ty: "vr_types rn a" and wf: "wf_inst rn D ins" and ct: "ct_ok ins"
    and n: "is_hcall ins \<longrightarrow> nv a \<le> 255"
  shows "visit_ok D ins a"
proof (cases "is_term ins \<or> is_hcall ins")
  case False
  then have "op_info ins \<noteq> None" and v: "ra_visit ins a = AllocOp ins a"
    by (cases ins; simp add: ra_visit_def)+
  then obtain op_ct ord where oi: "op_info ins = Some (op_ct, ord)" by auto
  obtain ins' a' "is" where "AllocOp ins a = Inr (ins', a')" "good (vset (D \<union> defs_of ins)) a'" "same_vregs a a'"
    "ra_pre a' = ra_pre a @ is" "list_all emitted_ok is" "inst_sim (vset D) a ins (vset (D \<union> defs_of ins)) a' is ins'" "mct_ok ins'"
    by (rule AllocOp_spec [OF good ty wf ct oi])
  then show ?thesis using False v by (intro visit_okI) (auto simp: live_after_other)
next
  case True
  have block: "\<exists>a2. BlockBoundary a1 = Inr a2 \<and> quiet (vset D) a1 a2 \<and> gl_mem a2" if "good (vset D) a1" for a1
    by (rule BlockBoundary_spec [OF that]) blast
  have region: "\<exists>a2. RegionBoundary a1 = Inr a2 \<and> quiet (vset {}) a1 a2 \<and> gl_mem a2" if "good (vset D) a1" for a1
    by (rule RegionBoundary_spec [OF good_none [OF that]]) blast
  show ?thesis
  proof (cases ins)
    case (Brcc cc x y)
    then obtain op_ct ord where oi: "op_info ins = Some (op_ct, ord)" by (metis op_info.simps(4) surj_pair)
    show ?thesis
      by (rule visit_branch [OF good ty wf ct oi _ order_refl _ block])
        (auto simp: Brcc live_after_def ra_visit_def)
  next
    case (GBrind x)
    then obtain op_ct ord where oi: "op_info ins = Some (op_ct, ord)" by (metis op_info.simps(5) surj_pair)
    show ?thesis
      by (rule visit_branch [OF good ty wf ct oi _ empty_subsetI _ region])
        (auto simp: GBrind live_after_def ra_visit_def)
  qed (use True visit_Br [OF good] visit_GBr [OF good] visit_Hcall [OF good] n wf in auto)
qed

subsection \<open>Blocks\<close>

text \<open>Between blocks only the guest CPU state, the trap number and the memory matter.\<close>

definition grel :: "qstate \<Rightarrow> mstate \<Rightarrow> bool" where
  "grel st ms \<longleftrightarrow> (\<forall>r < 32. m_gs ms r = q_vr st r) \<and> m_mem ms = q_mem st \<and> m_trap ms = q_trap st"

fun res_grel :: "qres \<Rightarrow> mres \<Rightarrow> bool" where
  "res_grel (QNext st) (MNext ms) = True"
| "res_grel (QBr k st) (MBr k' ms) = (k' = k \<and> grel st ms)"
| "res_grel (QExit x st) (MExit x' ms) = (x' = x \<and> grel st ms)"
| "res_grel (QTrap st) (MTrap ms) = grel st ms"
| "res_grel _ _ = False"

definition call_env :: "menv \<Rightarrow> bool" where
  "call_env e \<longleftrightarrow> (\<forall>p. e_saved e p \<longleftrightarrow> \<not> rm_Test GPR_CALL_CLOBBER p)"

definition code_sim :: "nat set \<Rightarrow> ra \<Rightarrow> inst list \<Rightarrow> inst list \<Rightarrow> bool" where
  "code_sim D a is code \<longleftrightarrow>
     (\<forall>e st ms q. call_env e \<longrightarrow> rel D a st ms \<longrightarrow> exec_insts (e_vmem e) is st = Some q \<longrightarrow>
        (\<exists>q'. mexec_insts e code ms = Some q' \<and> res_grel q q'))"

lemma rel_grel:
  assumes "good (vset D) a" "gl_mem a" "rel (vset D) a st ms"
  shows "grel st ms"
  using gl_mem_synced [OF assms] assms(3) by (simp add: grel_def rel_def)

lemma grel_rel:
  assumes "good (vset {}) a" "gl_mem a" "grel st ms"
  shows "rel (vset {}) a st ms"
proof -
  have "holds a st ms v" if "v < 32" for v
  proof -
    have "rt_type (trk a v) = T_I32" "rt_loc (trk a v) = L_MEM" using assms that by (auto simp: good_def track_inv_def gl_mem_def)
    moreover have "(of_nat v :: regn) < 32" using that by (simp add: word_less_nat_alt unat_of_nat take_bit_nat_eq_self)
    ultimately show ?thesis using assms(3) that by (simp add: holds_def slot_val_def grel_def Let_def)
  qed
  then show ?thesis using assms(3) by (simp add: rel_def grel_def vset_local)
qed

lemma exec_inst_next:
  "\<not> is_term i \<Longrightarrow> \<not> is_hcall i \<Longrightarrow> exec_inst vmem i st = Some q \<Longrightarrow> \<exists>st'. q = QNext st'"
  by (cases i) (auto simp: bind_eq_Some_conv)

lemma exec_inst_term: "is_term i \<Longrightarrow> exec_inst vmem i st = Some q \<Longrightarrow> \<nexists>st'. q = QNext st'"
  by (cases i) (auto simp: bind_eq_Some_conv)

text \<open>The code of one instruction in front of the code of the rest.\<close>

lemma code_sim_Cons:
  assumes sim: "inst_sim (vset D) a ins (vset D') a1 pre ins'" and g1: "good (vset D') a1"
    and gl: "is_term ins \<or> is_hcall ins \<longrightarrow> gl_mem a1"
    and rest: "is_term ins \<or> code_sim (vset D') a1 is code"
  shows "code_sim (vset D) a (ins # is) (pre @ ins' # code)"
  unfolding code_sim_def
proof (intro allI impI)
  fix e :: menv and st ms q
  assume e: "call_env e" and r: "rel (vset D) a st ms" and ex: "exec_insts (e_vmem e) (ins # is) st = Some q"
  obtain q1 where q1: "exec_inst (e_vmem e) ins st = Some q1" using ex by (auto simp: bind_eq_Some_conv)
  obtain ms1 q1' where m: "mexec_insts e pre ms = Some (MNext ms1)" "mexec_inst e ins' ms1 = Some q1'"
    and ir: "inst_res (vset D') a1 q1 q1'"
    using sim e r q1 unfolding inst_sim_def call_env_def by blast
  have run: "mexec_insts e (pre @ ins' # code) ms = (case q1' of MNext ms' \<Rightarrow> mexec_insts e code ms' | _ \<Rightarrow> Some q1')"
    using m by (simp add: mexec_insts_append)
  show "\<exists>q'. mexec_insts e (pre @ ins' # code) ms = Some q' \<and> res_grel q q'"
  proof (cases "\<exists>st'. q1 = QNext st'")
    case True
    then obtain st' ms' where n: "q1 = QNext st'" "q1' = MNext ms'" "rel (vset D') a1 st' ms'"
      using ir by (cases q1') auto
    then have "\<not> is_term ins" using exec_inst_term [OF _ q1] by blast
    with rest e n(3) ex q1 n(1) run n(2) show ?thesis by (auto simp: code_sim_def)
  next
    case False
    then have "gl_mem a1" using gl exec_inst_next [OF _ _ q1] by blast
    then have "res_grel q1 q1'" "\<nexists>ms'. q1' = MNext ms'"
      using ir False rel_grel [OF g1] by (cases q1; cases q1'; auto)+
    moreover have "q = q1" using ex q1 False by (cases q1) auto
    ultimately show ?thesis using run by (cases q1') auto
  qed
qed

lemma rt_pre [simp]:
  "good D (a\<lparr>ra_pre := xs\<rparr>) = good D a" "code_sim D (a\<lparr>ra_pre := xs\<rparr>) = code_sim D a"
  "vr_types rn (a\<lparr>ra_pre := xs\<rparr>) = vr_types rn a" "same_vregs (a\<lparr>ra_pre := xs\<rparr>) a' = same_vregs a a'"
  by (simp_all add: code_sim_def fun_eq_iff vr_types_def same_vregs_def)

definition block_ok :: "regn set \<Rightarrow> inst list \<Rightarrow> ra \<Rightarrow> bool" where
  "block_ok D is a \<longleftrightarrow>
     (\<exists>a' code. rfold ra_step_inst is a = Inr a' \<and> ra_pre a' = ra_pre a @ code \<and> good (vset {}) a' \<and> same_vregs a a' \<and>
        list_all mct_ok code \<and> same_shape is code \<and> code_sim (vset D) a is code \<and> (block_shape is \<and> is \<noteq> [] \<longrightarrow> gl_mem a'))"

lemma ra_visit_kind:
  assumes "ra_visit ins a = Inr (ins', a')"
  shows "is_term ins' = is_term ins" "is_hcall ins' = is_hcall ins" "nsucc ins' = nsucc ins"
proof -
  have "is_term i' = is_term i \<and> is_hcall i' = is_hcall i \<and> nsucc i' = nsucc i" if al: "AllocOp i b = Inr (i', b')" for i i' b b'
  proof -
    obtain xs ys where "i' = set_outputs (set_inputs i xs) ys"
      using al by (auto simp: AllocOp_def Let_def split: option.splits prod.splits)
    then show ?thesis by (cases i) simp_all
  qed
  then show "is_term ins' = is_term ins" "is_hcall ins' = is_hcall ins" "nsucc ins' = nsucc ins"
    using assms by (cases ins; fastforce simp: ra_visit_def)+
qed

lemma ra_insts_spec:
  assumes "good (vset D) a" "vr_types rn a" "wf_insts rn D is" "list_all ct_ok is"
    "list_ex is_hcall is \<longrightarrow> nv a \<le> 255" "list_all (\<lambda>i. \<not> is_term i) (butlast is)"
  shows "block_ok D is a"
  using assms
proof (induction "is" arbitrary: D a)
  case Nil
  have "code_sim (vset D) a [] []" by (simp add: code_sim_def)
  then show ?case using good_none [OF Nil(1)] by (simp add: block_ok_def same_shape_def)
next
  case (Cons ins "is")
  have "visit_ok D ins a" by (rule ra_visit_spec [OF Cons.prems(1,2)]) (use Cons.prems in auto)
  then obtain ins' a1 pre where v: "ra_visit ins a = Inr (ins', a1)" and g1: "good (vset (live_after D ins)) a1"
    and s1: "same_vregs a a1" and p1: "ra_pre a1 = ra_pre a @ pre" and em: "list_all emitted_ok pre"
    and sim: "inst_sim (vset D) a ins (vset (live_after D ins)) a1 pre ins'" and m: "mct_ok ins'"
    and gl: "is_term ins \<or> is_hcall ins \<longrightarrow> gl_mem a1"
    unfolding visit_ok_def by blast
  define a2 where "a2 = a1\<lparr>ra_pre := ra_pre a1 @ [ins']\<rparr>"
  have st: "ra_step_inst ins a = Inr a2" by (simp add: ra_step_inst_def v a2_def)
  have mp: "list_all mct_ok (pre @ [ins'])" using em m by (auto simp: list_all_iff emitted_mct_ok)
  have mv: "list_all (\<lambda>i. \<exists>d s. i = Mov d s) pre"
    by (rule list.pred_mono_strong [OF em]) (auto simp: emitted_ok_def elim: inst.exhaust split: inst.splits)
  note shape = same_shape_Cons [OF mv ra_visit_kind [OF v]]
  show ?case
  proof (cases "is")
    case Nil
    have rest: "is_term ins \<or> code_sim (vset (live_after D ins)) a1 [] []" by (simp add: code_sim_def)
    have "code_sim (vset D) a [ins] (pre @ [ins'])" by (rule code_sim_Cons [OF sim g1 gl rest])
    moreover have "block_shape [ins] \<longrightarrow> gl_mem a2" using gl by (auto simp: block_shape_def a2_def)
    ultimately show ?thesis
      unfolding block_ok_def Nil
      by (intro exI [of _ a2] exI [of _ "pre @ [ins']"])
        (use st s1 p1 mp good_none [OF g1] shape [of "[]" "[]"] in \<open>simp add: a2_def same_shape_def\<close>)
  next
    case (Cons i2 is2)
    then have nt: "\<not> is_term ins" "list_all (\<lambda>i. \<not> is_term i) (butlast is)" using Cons.prems(6) by auto
    have la: "live_after D ins = D \<union> defs_of ins" by (rule live_after_other [OF nt(1)])
    have "block_ok (live_after D ins) is a2"
      by (rule Cons.IH) (use Cons.prems g1 s1 nt vr_types_same [OF Cons.prems(2) s1] in \<open>auto simp: a2_def la same_vregs_def\<close>)
    then obtain a3 code where 3: "rfold ra_step_inst is a2 = Inr a3" "ra_pre a3 = ra_pre a2 @ code" "good (vset {}) a3"
      "same_vregs a2 a3" "list_all mct_ok code" "same_shape is code" "code_sim (vset (live_after D ins)) a2 is code"
      "block_shape is \<and> is \<noteq> [] \<longrightarrow> gl_mem a3"
      unfolding block_ok_def by blast
    have "code_sim (vset D) a (ins # is) (pre @ ins' # code)"
      by (rule code_sim_Cons [OF sim g1 gl]) (use 3(7) in \<open>simp add: a2_def\<close>)
    moreover have "same_shape (ins # is) (pre @ ins' # code)" by (rule shape [OF 3(6)])
    moreover have "block_shape (ins # is) \<longrightarrow> block_shape is" using Cons by (simp add: block_shape_def)
    moreover have "same_vregs a a3" using s1 3(4) by (auto simp: a2_def intro: same_vregs_trans)
    ultimately show ?thesis
      unfolding block_ok_def
      by (intro exI [of _ a3] exI [of _ "pre @ ins' # code"]) (use st 3 p1 mp Cons in \<open>auto simp: a2_def\<close>)
  qed
qed

subsection \<open>Regions\<close>

text \<open>The tables after the constructor.\<close>

lemma AddTrackGlobal_eq:
  assumes "nv a < 512"
  shows "AddTrackGlobal t offs a = Inr (a\<lparr>ra_vregs := ra_vregs a @ [new_rtrack\<lparr>rt_global := True, rt_type := t, rt_offs := offs\<rparr>]\<rparr>)"
  using assms by (simp add: AddTrackGlobal_def AddTrack_def MAX_VREGS_def upd_track_def)

lemma AddTrackLocal_eq:
  assumes "nv a < 512"
  shows "AddTrackLocal t a = Inr (a\<lparr>ra_vregs := ra_vregs a @ [new_rtrack\<lparr>rt_type := t\<rparr>]\<rparr>)"
  using assms by (simp add: AddTrackLocal_def AddTrack_def MAX_VREGS_def upd_track_def new_rtrack_def)

lemma rfold_AddTrackGlobal:
  "nv a + length gs \<le> 512 \<Longrightarrow> rfold (\<lambda>(offs, t). AddTrackGlobal t offs) gs a =
     Inr (a\<lparr>ra_vregs := ra_vregs a @ map (\<lambda>(offs, t). new_rtrack\<lparr>rt_global := True, rt_type := t, rt_offs := offs\<rparr>) gs\<rparr>)"
  by (induction gs arbitrary: a) (auto simp: AddTrackGlobal_eq)

lemma rfold_AddTrackLocal:
  "nv a + length ls \<le> 512 \<Longrightarrow> rfold AddTrackLocal ls a =
     Inr (a\<lparr>ra_vregs := ra_vregs a @ map (\<lambda>t. new_rtrack\<lparr>rt_type := t\<rparr>) ls\<rparr>)"
  by (induction ls arbitrary: a) (auto simp: AddTrackLocal_eq)

definition init_tracks :: "region \<Rightarrow> rtrack list" where
  "init_tracks rn =
     map (\<lambda>(offs, t). new_rtrack\<lparr>rt_global := True, rt_type := t, rt_offs := offs\<rparr>) (rn_globals rn) @
     map (\<lambda>t. new_rtrack\<lparr>rt_type := t\<rparr>) (rn_locals rn)"

lemma QRegAlloc_eq:
  assumes "NumAll rn \<le> 512"
  shows "QRegAlloc rn = Inr \<lparr>ra_frame_cur = 0, ra_vregs = init_tracks rn, ra_p2v = (\<lambda>_. None), ra_pre = []\<rparr>"
  using assms by (simp add: QRegAlloc_def rfold_AddTrackGlobal rfold_AddTrackLocal init_tracks_def NumAll_def)

lemma state_info_snd: "v < 32 \<Longrightarrow> snd (state_info ! v) = T_I32"
  by (simp add: state_info_nth)

lemma Prologue_trk: "v < nv a \<Longrightarrow> trk (Prologue a) v = (trk a v)\<lparr>rt_loc := if rt_global (trk a v) then L_MEM else L_DEAD\<rparr>"
  by (simp add: Prologue_def)

lemma QRegAlloc_good:
  assumes wf: "wf_region rn" and n: "NumAll rn \<le> 288"
  obtains a where "QRegAlloc rn = Inr a" "good (vset {}) (Prologue a)" "gl_mem (Prologue a)" "vr_types rn (Prologue a)"
    "nv (Prologue a) = NumAll rn"
proof -
  define a where "a = \<lparr>ra_frame_cur = 0, ra_vregs = init_tracks rn, ra_p2v = (\<lambda>_. None :: nat option), ra_pre = []\<rparr>"
  have g: "rn_globals rn = state_info" "T_UNDEF \<notin> set (rn_locals rn)" using wf by (simp_all add: wf_region_def)
  have len: "length state_info = 32" by (simp add: state_info_def GPR_START_def GPR_END_def)
  have nn: "nv a = NumAll rn" "nv (Prologue a) = NumAll rn" "32 \<le> NumAll rn" "NumAll rn = 32 + length (rn_locals rn)"
    by (simp_all add: a_def Prologue_def init_tracks_def NumAll_def g len)
  have gk: "trk a v = new_rtrack\<lparr>rt_global := True, rt_type := T_I32, rt_offs := fst (state_info ! v)\<rparr>" if "v < 32" for v
    using that by (simp add: a_def init_tracks_def nth_append g len state_info_nth)
  have lk: "trk a v = new_rtrack\<lparr>rt_type := rn_locals rn ! (v - 32)\<rparr>" if "32 \<le> v" "v < NumAll rn" for v
    using that nn by (simp add: a_def init_tracks_def nth_append g len)
  have lt: "rn_locals rn ! (v - 32) \<noteq> T_UNDEF" if "32 \<le> v" "v < NumAll rn" for v
  proof -
    have "v - 32 < length (rn_locals rn)" using that nn(4) by simp
    from nth_mem [OF this] show ?thesis using g(2) by metis
  qed
  have pg: "trk (Prologue a) v = new_rtrack\<lparr>rt_global := True, rt_type := T_I32, rt_offs := fst (state_info ! v), rt_loc := L_MEM\<rparr>"
    if "v < 32" for v using that nn by (simp add: Prologue_trk gk)
  have pl: "trk (Prologue a) v = new_rtrack\<lparr>rt_type := rn_locals rn ! (v - 32), rt_loc := L_DEAD\<rparr>"
    if "32 \<le> v" "v < NumAll rn" for v
    using that nn lk [OF that] by (simp add: Prologue_trk) (simp add: new_rtrack_def)
  have p: "trk (Prologue a) v = (if v < 32
      then new_rtrack\<lparr>rt_global := True, rt_type := T_I32, rt_offs := fst (state_info ! v), rt_loc := L_MEM\<rparr>
      else new_rtrack\<lparr>rt_type := rn_locals rn ! (v - 32), rt_loc := L_DEAD\<rparr>)" if "v < NumAll rn" for v
    using that pg pl by simp
  have ti: "track_inv (Prologue a)"
    using n nn(3) lt by (auto simp: track_inv_def nn(2) p new_rtrack_def)
  have pi: "preg_inv (Prologue a)"
    using nn(3) by (auto simp: preg_inv_def nn(2) p new_rtrack_def) (simp_all add: Prologue_def a_def)
  have "slots (Prologue a) = {}" by (auto simp: slots_def nn(2) p new_rtrack_def)
  then have fi: "frame_inv (Prologue a)" by (simp add: frame_inv_def) (simp add: Prologue_def a_def)
  have de: "defd (vset {}) (Prologue a)"
    using nn(3) track_offs_global [OF ti] by (auto simp: defd_def vset_local nn(2) p new_rtrack_def)
  have "vr_types rn (Prologue a)"
    unfolding vr_types_def nn(2)
  proof (intro conjI allI impI g(1) refl)
    fix v assume v: "v < NumAll rn"
    then have "unat (of_nat v :: regn) = v" using n by (simp add: unat_of_nat take_bit_nat_eq_self)
    then show "vreg_type rn (of_nat v) = Some (rt_type (trk (Prologue a) v))"
      using v by (simp add: vreg_type_def IsGlobal_def g len p state_info_snd)
  qed
  moreover have "good (vset {}) (Prologue a)" using ti pi fi de by (simp add: good_def)
  moreover have "gl_mem (Prologue a)" using nn(3) by (simp add: gl_mem_def p)
  ultimately show thesis using that [of a] nn QRegAlloc_eq [of rn] n by (simp add: a_def)
qed

definition blk_sim :: "inst list \<Rightarrow> inst list \<Rightarrow> bool" where
  "blk_sim is code \<longleftrightarrow>
     (\<forall>e st ms q. call_env e \<longrightarrow> grel st ms \<longrightarrow> exec_insts (e_vmem e) is st = Some q \<longrightarrow>
        (\<exists>q'. mexec_insts e code ms = Some q' \<and> res_grel q q'))"

lemma code_sim_blk: "good (vset {}) a \<Longrightarrow> gl_mem a \<Longrightarrow> code_sim (vset {}) a is code \<Longrightarrow> blk_sim is code"
  unfolding blk_sim_def code_sim_def by (blast intro: grel_rel)

text \<open>What allocation has done to the blocks before \<open>i\<close>.\<close>

definition ra_inv :: "region \<Rightarrow> nat \<Rightarrow> region \<times> ra \<Rightarrow> bool" where
  "ra_inv rn i st \<longleftrightarrow>
     (case st of (rn', a) \<Rightarrow>
        good (vset {}) a \<and> gl_mem a \<and> vr_types rn a \<and> length (rn_blocks rn') = length (rn_blocks rn) \<and>
        (\<forall>k < length (rn_blocks rn). succs_at rn' k = succs_at rn k \<and>
           (if k < i then list_all mct_ok (insts_at rn' k) \<and> same_shape (insts_at rn k) (insts_at rn' k) \<and>
              blk_sim (insts_at rn k) (insts_at rn' k)
            else insts_at rn' k = insts_at rn k)))"

definition ra_able :: "region \<Rightarrow> bool" where
  "ra_able rn \<longleftrightarrow>
     wf_region rn \<and> wf_blocks rn \<and> (\<forall>k \<in> set (rn_blocks rn). list_all ct_ok (bb_ilist k)) \<and> NumAll rn \<le> 288 \<and>
     ((\<exists>k \<in> set (rn_blocks rn). list_ex is_hcall (bb_ilist k)) \<longrightarrow> NumAll rn \<le> 255)"

text \<open>The blocks before a helper call are allocated whatever the number of registers.\<close>

definition ra_selected :: "region \<Rightarrow> bool" where
  "ra_selected rn \<longleftrightarrow>
     wf_region rn \<and> wf_blocks rn \<and> (\<forall>k \<in> set (rn_blocks rn). list_all ct_ok (bb_ilist k)) \<and> NumAll rn \<le> 288"

lemma ra_block_step:
  assumes able: "ra_selected rn" and calls: "list_ex is_hcall (insts_at rn i) \<longrightarrow> NumAll rn \<le> 255" and i: "i < length (rn_blocks rn)" and inv: "ra_inv rn i st"
  shows "\<exists>st'. ra_block i st = Inr st' \<and> ra_inv rn (Suc i) st'"
proof -
  obtain rn1 a where st: "st = (rn1, a)" by fastforce
  note iv = inv [unfolded ra_inv_def st prod.case]
  have il: "insts_at rn1 i = insts_at rn i" using iv i by simp
  have mem: "rn_blocks rn ! i \<in> set (rn_blocks rn)" using i by simp
  have nn: "nv a = NumAll rn" using iv by (simp add: vr_types_def)
  have shape: "block_shape (insts_at rn i)" using able mem by (simp add: ra_selected_def wf_blocks_def)
  have "block_ok {} (insts_at rn i) (a\<lparr>ra_pre := []\<rparr>)"
  proof (rule ra_insts_spec [where rn = rn])
    show "wf_insts rn {} (insts_at rn i)" "list_all ct_ok (insts_at rn i)"
      using able mem by (simp_all add: ra_selected_def wf_region_def)
    show "list_ex is_hcall (insts_at rn i) \<longrightarrow> nv (a\<lparr>ra_pre := []\<rparr>) \<le> 255"
      using calls nn by simp
    show "list_all (\<lambda>i. \<not> is_term i) (butlast (insts_at rn i))" using shape by (auto simp: block_shape_def)
  qed (use iv in simp_all)
  then obtain a' code where 1: "rfold ra_step_inst (insts_at rn i) (a\<lparr>ra_pre := []\<rparr>) = Inr a'" "ra_pre a' = code"
    "good (vset {}) a'" "same_vregs a a'" "list_all mct_ok code" "same_shape (insts_at rn i) code" "code_sim (vset {}) a (insts_at rn i) code"
    "insts_at rn i \<noteq> [] \<longrightarrow> gl_mem a'"
    using shape by (auto simp: block_ok_def)
  have gl: "gl_mem a'" using 1(1,8) iv by (cases "insts_at rn i = []") auto
  define rn2 where "rn2 = upd_block rn1 i (\<lambda>k. k\<lparr>bb_ilist := code\<rparr>)"
  have blk: "k < length (rn_blocks rn) \<Longrightarrow> insts_at rn2 k = (if k = i then code else insts_at rn1 k) \<and>
      succs_at rn2 k = succs_at rn1 k" for k
    using iv i by (simp add: rn2_def)
  have "blk_sim (insts_at rn i) code" using iv 1(7) by (blast intro: code_sim_blk)
  then have "ra_inv rn (Suc i) (rn2, a')"
    unfolding ra_inv_def prod.case
    using 1(3,5,6) gl iv vr_types_same [OF _ 1(4), of rn] blk by (auto simp: rn2_def less_Suc_eq)
  moreover have "ra_block i st = Inr (rn2, a')" using 1(1,2) il by (simp add: ra_block_def st rn2_def)
  ultimately show ?thesis by blast
qed

lemma QRegAlloc_Run_done:
  assumes "ra_able rn"
  obtains rn' a where "QRegAlloc_Run rn = Inr rn'" "ra_inv rn (length (rn_blocks rn)) (rn', a)"
proof -
  have wf: "wf_region rn" "NumAll rn \<le> 288" using assms by (simp_all add: ra_able_def)
  obtain a where a: "QRegAlloc rn = Inr a" "good (vset {}) (Prologue a)" "gl_mem (Prologue a)" "vr_types rn (Prologue a)"
    by (rule QRegAlloc_good [OF wf])
  then have "ra_inv rn 0 (rn, Prologue a)" by (simp add: ra_inv_def)
  then have "\<exists>st. rfold ra_block [0 ..< length (rn_blocks rn)] (rn, Prologue a) = Inr st \<and> ra_inv rn (length (rn_blocks rn)) st"
    using assms by (intro rfold_upt [where P = "ra_inv rn"] ra_block_step) (auto simp: ra_able_def ra_selected_def)
  then show thesis using a(1) that by (auto simp: QRegAlloc_Run_def)
qed

lemma ra_region_sim:
  assumes inv: "ra_inv rn (length (rn_blocks rn)) (rn', a)" and e: "call_env e"
    and "exec_region (e_vmem e) fuel rn b st = Some q" "grel st ms"
  shows "\<exists>q'. mexec_region e fuel rn' b ms = Some q' \<and> res_grel q q'"
  using assms(3,4)
proof (induction fuel arbitrary: b st ms)
  case (Suc fuel)
  have b: "b < length (rn_blocks rn)" using Suc.prems(1) by (auto split: if_splits)
  then obtain q1 where q1: "exec_insts (e_vmem e) (insts_at rn b) st = Some q1"
    using Suc.prems(1) by (auto simp: bind_eq_Some_conv)
  have blk: "length (rn_blocks rn') = length (rn_blocks rn)" "succs_at rn' b = succs_at rn b"
    "blk_sim (insts_at rn b) (insts_at rn' b)"
    using inv b by (simp_all add: ra_inv_def)
  then obtain q1' where q1': "mexec_insts e (insts_at rn' b) ms = Some q1'" "res_grel q1 q1'"
    using Suc.prems(2) q1 e unfolding blk_sim_def by blast
  show ?case
  proof (cases q1)
    case (QBr k st1)
    with q1'(2) obtain ms1 where 1: "q1' = MBr k ms1" "grel st1 ms1" by (cases q1') auto
    have k: "k < length (succs_at rn b)" "exec_region (e_vmem e) fuel rn (succs_at rn b ! k) st1 = Some q"
      using Suc.prems(1) b q1 QBr by (auto split: if_splits)
    from Suc.IH [OF k(2) 1(2)] show ?thesis using b blk q1'(1) 1(1) k(1) by simp
  qed (use Suc.prems(1) b q1 q1' blk in \<open>cases q1'; auto\<close>)+
qed simp

lemma ra_runs_on:
  assumes inv: "ra_inv rn (length (rn_blocks rn)) (rn', a)" and e: "call_env e"
    and "runs_on (e_vmem e) fuel rn b st" "grel st ms"
  shows "mruns_on e fuel rn' b ms"
  using assms(3,4)
proof (induction fuel arbitrary: b st ms)
  case (Suc fuel)
  then obtain k st1 where b: "b < length (rn_blocks rn)" "exec_insts (e_vmem e) (insts_at rn b) st = Some (QBr k st1)"
    and k: "k < length (succs_at rn b)" "runs_on (e_vmem e) fuel rn (succs_at rn b ! k) st1"
    by (auto split: option.splits qres.splits)
  have blk: "length (rn_blocks rn') = length (rn_blocks rn)" "succs_at rn' b = succs_at rn b"
    "blk_sim (insts_at rn b) (insts_at rn' b)"
    using inv b by (simp_all add: ra_inv_def)
  then obtain q1 where q1: "mexec_insts e (insts_at rn' b) ms = Some q1" "res_grel (QBr k st1) q1"
    using Suc.prems(2) b(2) e unfolding blk_sim_def by blast
  then obtain ms1 where "q1 = MBr k ms1" "grel st1 ms1" by (cases q1) auto
  with Suc.IH [OF k(2)] show ?case using b blk q1(1) k(1) by simp
qed simp

text \<open>
  C6. Register allocation succeeds on every well-typed, selected region with at most 288 virtual
  registers (255 when it calls helpers): it does not panic and all its loops end. In the result
  all operands are physical registers outside the reserved ones, slots and encodable constants, as
  the target description asks, and executing it from a state with the same guest CPU state and
  memory ends in the same way with the same guest CPU state and memory, whatever the helper calls
  leave in the registers they may clobber.
\<close>

theorem regalloc_correct:
  assumes "ra_able rn"
  shows "\<exists>rn'. QRegAlloc_Run rn = Inr rn' \<and> (\<forall>k \<in> set (rn_blocks rn'). list_all mct_ok (bb_ilist k)) \<and>
    (\<forall>e fuel b st ms q. call_env e \<longrightarrow> grel st ms \<longrightarrow> exec_region (e_vmem e) fuel rn b st = Some q \<longrightarrow>
       (\<exists>q'. mexec_region e fuel rn' b ms = Some q' \<and> res_grel q q'))"
proof -
  obtain rn' a where r: "QRegAlloc_Run rn = Inr rn'" and inv: "ra_inv rn (length (rn_blocks rn)) (rn', a)"
    by (rule QRegAlloc_Run_done [OF assms])
  have "list_all mct_ok (insts_at rn' k)" if "k < length (rn_blocks rn')" for k
    using inv that by (simp add: ra_inv_def)
  then have "\<forall>k \<in> set (rn_blocks rn'). list_all mct_ok (bb_ilist k)" by (metis in_set_conv_nth)
  with r show ?thesis by (blast intro: ra_region_sim [OF inv])
qed

lemma sub_able: "ra_able (sub_region sub_selected [T_I32])"
  by (simp add: ra_able_def wf_region_def wf_blocks_def block_shape_def sub_region_def sub_selected_def wf_inst_def
      i32_vreg_def vreg_type_def IsGlobal_def NumAll_def is_const_def state_info_def GPR_START_def GPR_END_def nth_append
      ct_ok_def CT_INFO_eval ct_reg_def imm_ok_def alias_ok_def)

theorem regalloc_correct_witness:
  "ra_able (sub_region sub_selected [T_I32]) \<and>
   (\<exists>rn'. QRegAlloc_Run (sub_region sub_selected [T_I32]) = Inr rn' \<and>
     (\<exists>ms'. mexec_region \<lparr>e_vmem = 0, e_saved = (\<lambda>p. \<not> rm_Test GPR_CALL_CLOBBER p), e_clob = (\<lambda>_. 0xdead)\<rparr> 1 rn' 0
          \<lparr>m_pr = (\<lambda>_. 0xbeef), m_frame = (\<lambda>_. 0), m_gs = (\<lambda>r. if r = 0 then 3 else 10), m_mem = (\<lambda>_. 0), m_trap = TC_NONE\<rparr> =
        Some (MExit 0x1000 ms') \<and> m_gs ms' 0 = 7))"
proof -
  let ?rn = "sub_region sub_selected [T_I32]"
  let ?e = "\<lparr>e_vmem = 0, e_saved = (\<lambda>p. \<not> rm_Test GPR_CALL_CLOBBER p), e_clob = (\<lambda>_. 0xdead)\<rparr>"
  let ?ms = "\<lparr>m_pr = (\<lambda>_. 0xbeef), m_frame = (\<lambda>_. 0), m_gs = (\<lambda>r. if r = 0 then 3 else 10), m_mem = (\<lambda>_. 0), m_trap = TC_NONE\<rparr>"
  let ?st = "\<lparr>q_vr = (\<lambda>r. if r = 0 then 3 else 10), q_mem = (\<lambda>_. 0), q_trap = TC_NONE\<rparr>"
  obtain rn' where r: "QRegAlloc_Run ?rn = Inr rn'" and
    sim: "\<forall>e fuel b st ms q. call_env e \<longrightarrow> grel st ms \<longrightarrow> exec_region (e_vmem e) fuel ?rn b st = Some q \<longrightarrow>
       (\<exists>q'. mexec_region e fuel rn' b ms = Some q' \<and> res_grel q q')"
    using regalloc_correct [OF sub_able] by blast
  obtain st' where st': "exec_region (e_vmem ?e) 1 ?rn 0 ?st = Some (QExit 0x1000 st')" "q_vr st' 0 = 7"
    by (simp add: sub_region_def sub_selected_def set_vr_def)
  have "call_env ?e" "grel ?st ?ms" by (simp_all add: call_env_def grel_def)
  then obtain q' where q': "mexec_region ?e 1 rn' 0 ?ms = Some q'" "res_grel (QExit 0x1000 st') q'"
    using sim st'(1) by blast
  then obtain ms' where "q' = MExit 0x1000 ms'" "m_gs ms' 0 = 7" using st'(2) by (cases q') (auto simp: grel_def)
  with q'(1) r sub_able show ?thesis by blast
qed

subsection \<open>More than 255 virtual registers\<close>

lemma ra_insts_hang:
  assumes "good (vset D) a" "vr_types rn a" "wf_insts rn D is" "list_all ct_ok is" "256 \<le> nv a"
    "list_all (\<lambda>i. \<not> is_term i) (butlast is)" "list_ex is_hcall is"
  shows "rfold ra_step_inst is a = Inl Hang"
  using assms
proof (induction "is" arbitrary: D a)
  case (Cons ins "is")
  show ?case
  proof (cases "is_hcall ins")
    case True
    then have "ra_visit ins a = Inl Hang"
      using CallOp_hangs [OF Cons.prems(1,5)] by (cases ins) (simp_all add: ra_visit_def)
    then show ?thesis by (simp add: ra_step_inst_def)
  next
    case False
    then have ne: "is \<noteq> []" "list_ex is_hcall is" using Cons.prems(7) by auto
    then have nt: "\<not> is_term ins" "list_all (\<lambda>i. \<not> is_term i) (butlast is)" using Cons.prems(6) by auto
    have "visit_ok D ins a" by (rule ra_visit_spec [OF Cons.prems(1,2)]) (use Cons.prems False in auto)
    then obtain ins' a1 where v: "ra_visit ins a = Inr (ins', a1)" and g1: "good (vset (live_after D ins)) a1" and s1: "same_vregs a a1"
      unfolding visit_ok_def by blast
    define a2 where "a2 = a1\<lparr>ra_pre := ra_pre a1 @ [ins']\<rparr>"
    have st: "ra_step_inst ins a = Inr a2" by (simp add: ra_step_inst_def v a2_def)
    have la: "live_after D ins = D \<union> defs_of ins" by (rule live_after_other [OF nt(1)])
    have "rfold ra_step_inst is a2 = Inl Hang"
      by (rule Cons.IH [of "live_after D ins"])
        (use Cons.prems g1 s1 nt ne vr_types_same [OF Cons.prems(2) s1] in \<open>auto simp: a2_def la same_vregs_def\<close>)
    then show ?thesis by (simp add: st)
  qed
qed simp

lemma ra_block_hangs:
  assumes able: "ra_selected rn" and n: "256 \<le> NumAll rn" and i: "i < length (rn_blocks rn)" "list_ex is_hcall (insts_at rn i)"
    and inv: "ra_inv rn i st"
  shows "ra_block i st = Inl Hang"
proof -
  obtain rn1 a where st: "st = (rn1, a)" by fastforce
  note iv = inv [unfolded ra_inv_def st prod.case]
  have mem: "rn_blocks rn ! i \<in> set (rn_blocks rn)" using i by simp
  have "block_shape (insts_at rn i)" using able mem by (simp add: ra_selected_def wf_blocks_def)
  then have nt: "list_all (\<lambda>i. \<not> is_term i) (butlast (insts_at rn i))" by (auto simp: block_shape_def)
  have "rfold ra_step_inst (insts_at rn i) (a\<lparr>ra_pre := []\<rparr>) = Inl Hang"
    by (rule ra_insts_hang [where rn = rn and D = "{}"])
      (use iv able mem nt i n in \<open>simp_all add: ra_selected_def wf_region_def vr_types_def\<close>)
  then show ?thesis using iv i(1) by (simp add: ra_block_def st)
qed

text \<open>
  C32. The loop over the virtual registers in \<open>CallOp\<close> counts in eight bits. So the allocation of a well-typed, selected
  region of 256 to 288 virtual registers, which the tables and the spill frame have room for, never ends
  when some block of the region has a helper call; and when none has, it succeeds.
\<close>

theorem regalloc_hangs:
  assumes "wf_region rn" "wf_blocks rn" "\<forall>k \<in> set (rn_blocks rn). list_all ct_ok (bb_ilist k)"
    and "256 \<le> NumAll rn" "NumAll rn \<le> 288"
  shows "if \<exists>k \<in> set (rn_blocks rn). list_ex is_hcall (bb_ilist k) then QRegAlloc_Run rn = Inl Hang
    else \<exists>rn'. QRegAlloc_Run rn = Inr rn'"
proof (cases "\<exists>i < length (rn_blocks rn). list_ex is_hcall (insts_at rn i)")
  case True
  then obtain i where i: "i < length (rn_blocks rn)" "list_ex is_hcall (insts_at rn i)"
    and least: "\<And>j. j < i \<Longrightarrow> \<not> list_ex is_hcall (insts_at rn j)"
    using exists_least_iff [of "\<lambda>i. i < length (rn_blocks rn) \<and> list_ex is_hcall (insts_at rn i)"] by (auto dest: less_trans)
  have able: "ra_selected rn" using assms by (simp add: ra_selected_def)
  obtain a where a: "QRegAlloc rn = Inr a" "good (vset {}) (Prologue a)" "gl_mem (Prologue a)" "vr_types rn (Prologue a)"
    by (rule QRegAlloc_good [OF assms(1,5)])
  then have "ra_inv rn 0 (rn, Prologue a)" by (simp add: ra_inv_def)
  then obtain st where st: "rfold ra_block [0 ..< i] (rn, Prologue a) = Inr st" "ra_inv rn i st"
    using rfold_upt [where P = "ra_inv rn" and f = ra_block and n = i] ra_block_step [OF able] least i(1) by (meson less_trans)
  have "[0 ..< length (rn_blocks rn)] = [0 ..< i] @ i # [Suc i ..< length (rn_blocks rn)]"
    using i(1) by (metis less_imp_add_positive upt_add_eq_append upt_conv_Cons zero_le less_imp_le add_0)
  then have "QRegAlloc_Run rn = Inl Hang"
    using a(1) st(1) ra_block_hangs [OF able assms(4) i st(2)] by (simp add: QRegAlloc_Run_def rfold_append)
  moreover have "\<exists>k \<in> set (rn_blocks rn). list_ex is_hcall (bb_ilist k)" using i nth_mem by blast
  ultimately show ?thesis by simp
next
  case False
  then have none: "\<not> (\<exists>k \<in> set (rn_blocks rn). list_ex is_hcall (bb_ilist k))" by (metis in_set_conv_nth)
  then have "ra_able rn" using assms by (simp add: ra_able_def)
  then obtain rn' a where "QRegAlloc_Run rn = Inr rn'" by (rule QRegAlloc_Run_done)
  then show ?thesis unfolding if_not_P [OF none] by blast
qed

theorem regalloc_hangs_witness:
  "QRegAlloc_Run (sub_region [Mov (VVReg T_I32 0) (VVReg T_I32 1), Hcall Id_rv32_fence (VConst T_I32 0)] (replicate 224 T_I32)) = Inl Hang \<and>
   (\<exists>rn'. QRegAlloc_Run (sub_region sub_selected (replicate 224 T_I32)) = Inr rn')"
proof -
  let ?calls = "sub_region [Mov (VVReg T_I32 0) (VVReg T_I32 1), Hcall Id_rv32_fence (VConst T_I32 0)] (replicate 224 T_I32)"
    and ?none = "sub_region sub_selected (replicate 224 T_I32)"
  note defs = wf_region_def wf_blocks_def block_shape_def sub_region_def sub_selected_def wf_inst_def stub_op_def
    i32_vreg_def vreg_type_def IsGlobal_def NumAll_def is_const_def state_info_def GPR_START_def GPR_END_def nth_append
    ct_ok_def CT_INFO_eval ct_reg_def imm_ok_def alias_ok_def
  have "wf_region ?calls" "wf_blocks ?calls" "\<forall>k \<in> set (rn_blocks ?calls). list_all ct_ok (bb_ilist k)"
    "256 \<le> NumAll ?calls" "NumAll ?calls \<le> 288" "wf_region ?none" "wf_blocks ?none"
    "\<forall>k \<in> set (rn_blocks ?none). list_all ct_ok (bb_ilist k)" "256 \<le> NumAll ?none" "NumAll ?none \<le> 288"
    by (simp_all add: defs)
  then have "if \<exists>k \<in> set (rn_blocks ?calls). list_ex is_hcall (bb_ilist k) then QRegAlloc_Run ?calls = Inl Hang else \<exists>rn'. QRegAlloc_Run ?calls = Inr rn'"
    "if \<exists>k \<in> set (rn_blocks ?none). list_ex is_hcall (bb_ilist k) then QRegAlloc_Run ?none = Inl Hang else \<exists>rn'. QRegAlloc_Run ?none = Inr rn'"
    using regalloc_hangs [of ?calls] regalloc_hangs [of ?none] by blast+
  then show ?thesis by (simp add: sub_region_def sub_selected_def)
qed

end
