(* ===== verification/Backend.thy ===== *)
theory Backend
  imports Rv32_Wf Regalloc_Region
begin

section \<open>From guest code to allocated code: codegen/qcg.cpp\<close>

text \<open>
  The passes that \<open>GenerateCode\<close> runs before it emits machine code, on what the translator
  produced: they do not panic and end, and the allocated code behaves as the interpreter does.
\<close>

text \<open>\<open>QSelPass::run\<close> and \<open>QRegAllocPass::run\<close>, in the order of \<open>GenerateCode\<close>; the flag is \<open>has_calls\<close>.\<close>

definition GenerateCode_passes :: "region \<Rightarrow> (region \<times> bool) res" where
  "GenerateCode_passes rn =
     rbind (QSel_Run rn) (\<lambda>(rn1, has_calls). rbind (QRegAlloc_Run rn1) (\<lambda>rn2. Inr (rn2, has_calls)))"

subsection \<open>Translation gives the back end what it assumes\<close>


lemma bltu_no_clobber: "no_clobber 0 bltu_mem TB_MAX_INSNS g"
  by (simp add: no_clobber_alt bltu_mem_fetch clobbers_base_def is_load_def)


subsection \<open>The passes succeed\<close>

lemma passes_done:
  assumes "CompilerGenRegionIR code rgs vmem = Inr rn" "distinct (map fst rgs)" "length rgs = 1"
    "\<forall>rg \<in> set rgs. no_clobber vmem code TB_MAX_INSNS (fst rg)"
  obtains rn1 rn2 a calls where "GenerateCode_passes rn = Inr (rn2, calls)"
    "sel_done rn (length (rn_blocks rn)) (rn1, calls)" "ra_inv rn1 (length (rn_blocks rn1)) (rn2, a)"
    "length (rn_blocks rn) = length (rn_blocks rn1)" "32 \<le> NumAll rn"
proof -
  have c: "closed_wf (32 + 192 * length rgs) (384 * length rgs) rn"
    by (rule CompilerGenRegionIR_wf [OF assms(1,2) _ assms(4)]) (simp add: assms(3))
  then have wf: "wf_region rn" "wf_blocks rn" and num: "NumAll rn + region_cost rn \<le> 224" "num_insts rn \<le> 384"
    using assms(3) by (simp_all add: closed_wf_def bounded_def)
  have n: "NumAll rn + 4 * num_insts rn \<le> 2 ^ 16" using num by simp
  obtain rn1 calls where s: "QSel_Run rn = Inr (rn1, calls)" and d: "sel_done rn (length (rn_blocks rn)) (rn1, calls)"
    by (rule QSel_Run_done [OF wf(1) n])
  have "NumAll rn1 \<le> 224" using QSel_Run_cost [OF s] num by simp
  then have able: "ra_able rn1"
    using sel_done_wf [OF d wf(1)] sel_done_shape [OF d wf(2)] by (simp add: ra_able_def)
  obtain rn2 a where r: "QRegAlloc_Run rn1 = Inr rn2" and iv: "ra_inv rn1 (length (rn_blocks rn1)) (rn2, a)"
    by (rule QRegAlloc_Run_done [OF able])
  have "length (rn_blocks rn) = length (rn_blocks rn1)" using d by (simp add: sel_done_def)
  moreover have "32 \<le> NumAll rn" using wf(1) by (simp add: wf_region_def NumAll_def len_state_info)
  ultimately show thesis using that s d r iv by (simp add: GenerateCode_passes_def)
qed

text \<open>
  What the translator accepts compiles: on the region of a translated range, instruction
  selection and register allocation end without a panic or a failed assertion, and every operand
  of the result can be encoded in its place.
\<close>

theorem GenerateCode_passes_total:
  assumes "CompilerGenRegionIR code [rg] vmem = Inr rn" "no_clobber vmem code TB_MAX_INSNS (fst rg)"
  shows "\<exists>rn2 calls. GenerateCode_passes rn = Inr (rn2, calls) \<and>
    (\<forall>k \<in> set (rn_blocks rn2). list_all mct_ok (bb_ilist k))"
proof -
  obtain rn1 rn2 a calls where p: "GenerateCode_passes rn = Inr (rn2, calls)"
    and iv: "ra_inv rn1 (length (rn_blocks rn1)) (rn2, a)"
    by (rule passes_done [OF assms(1)]) (use assms(2) in auto)
  have "list_all mct_ok (insts_at rn2 k)" if "k < length (rn_blocks rn2)" for k
    using iv that by (simp add: ra_inv_def)
  then have "\<forall>k \<in> set (rn_blocks rn2). list_all mct_ok (bb_ilist k)" by (metis in_set_conv_nth)
  with p show ?thesis by blast
qed

theorem GenerateCode_passes_total_witness:
  "\<exists>rn2 calls. GenerateCode_passes bltu_region = Inr (rn2, calls) \<and>
    (\<forall>k \<in> set (rn_blocks rn2). list_all mct_ok (bb_ilist k))"
  using GenerateCode_passes_total [OF bltu_translate] bltu_no_clobber by simp

subsection \<open>Allocated code and the interpreter\<close>

text \<open>The guest state that allocated code works on, and what its execution may produce.\<close>

definition mrel :: "cpu_state \<Rightarrow> mstate \<Rightarrow> bool" where
  "mrel s ms \<longleftrightarrow> cpu_rel s (as_q ms)"

definition mregion_agrees ::
  "uptr \<Rightarrow> mem \<Rightarrow> nat \<Rightarrow> cpu_state \<Rightarrow> u32 \<Rightarrow> mem \<Rightarrow> mres option \<Rightarrow> bool" where
  "mregion_agrees vmem code fuel s gip m res \<longleftrightarrow>
     unaligned_within vmem code fuel s gip m \<or>
     (case res of
        Some (MExit g ms') \<Rightarrow>
          \<exists>n s'. 0 < n \<and> interp_run vmem code n s gip m = Next s' g (m_mem ms') \<and> mrel s' ms'
      | Some (MTrap ms') \<Rightarrow>
          \<exists>n s'. interp_run vmem code n s gip m = Trapped s' (m_mem ms') \<and> mrel s' ms' \<and> m_gs ms' 31 = ip s'
      | None \<Rightarrow> \<exists>n s' g m'. fuel \<le> n \<and> interp_run vmem code n s gip m = Next s' g m'
      | _ \<Rightarrow> False)"

lemma cpu_rel_agree:
  assumes "cpu_rel s st" "agree N {} st st1" "32 \<le> N" "grel st1 ms"
  shows "mrel s ms" "m_mem ms = q_mem st" "m_gs ms 31 = q_vr st 31"
proof -
  have v: "m_gs ms r = q_vr st r" if "r < 32" for r
  proof -
    have "unat r < N" using that assms(3) by (simp add: word_less_nat_alt)
    then show ?thesis using assms(2,4) that by (simp add: agree_def grel_def)
  qed
  then have "m_gs ms (gvr r) = q_vr st (gvr r)" if "r \<noteq> 0" "r < 32" for r
    using less_trans [OF gvr_less [OF that], of 32] by simp
  then show "mrel s ms" using assms by (simp add: mrel_def cpu_rel_def as_q_def agree_def grel_def)
  show "m_mem ms = q_mem st" "m_gs ms 31 = q_vr st 31" using assms v [of 31] by (simp_all add: agree_def grel_def)
qed

lemma compiled_region_sim:
  assumes tr: "CompilerGenRegionIR code [rg] vmem = Inr rn" and nc: "no_clobber vmem code TB_MAX_INSNS (fst rg)"
    and ps: "GenerateCode_passes rn = Inr (rn2, calls)" and e: "call_env e" "e_vmem e = vmem" and m: "mrel s ms"
  shows "mregion_agrees vmem code fuel s (fst rg) (m_mem ms) (mexec_region e fuel rn2 0 ms)" (is ?agrees)
    "mexec_region e fuel rn2 0 ms = None \<Longrightarrow> unaligned_within vmem code fuel s (fst rg) (m_mem ms) \<or> mruns_on e fuel rn2 0 ms"
proof -
  let ?runs_on = "mexec_region e fuel rn2 0 ms = None \<longrightarrow> unaligned_within vmem code fuel s (fst rg) (m_mem ms) \<or> mruns_on e fuel rn2 0 ms"
  obtain rn1 rn2' a calls' where ps': "GenerateCode_passes rn = Inr (rn2', calls')"
    and d: "sel_done rn (length (rn_blocks rn)) (rn1, calls')" and iv: "ra_inv rn1 (length (rn_blocks rn1)) (rn2', a)"
    and len: "length (rn_blocks rn) = length (rn_blocks rn1)" and n32: "32 \<le> NumAll rn"
    by (rule passes_done [OF tr]) (use nc in auto)
  have [simp]: "rn2' = rn2" using ps ps' by simp
  define st where "st = as_q ms"
  have rel: "cpu_rel s st" "grel st ms" "agree (NumAll rn) {} st st" "q_mem st = m_mem ms"
    using m by (simp_all add: mrel_def st_def grel_def as_q_def agree_def)
  have ag: "region_agrees vmem code fuel s (fst rg) (m_mem ms) (exec_region vmem fuel rn 0 st)"
    using translated_region_agrees(1) [OF tr _ _ _ _ rel(1), of 0 fuel] nc rel(4) by (simp add: TB_MAX_INSNS_def)
  have "?agrees \<and> ?runs_on"
  proof (cases "exec_region vmem fuel rn 0 st")
    case None
    have "unaligned_within vmem code fuel s (fst rg) (m_mem ms) \<or> runs_on vmem fuel rn 0 st"
      using translated_region_agrees(2) [OF tr _ _ _ _ rel(1) , of 0 fuel] None nc rel(4)
      by (simp add: TB_MAX_INSNS_def unaligned_within_def)
    moreover have "mruns_on e fuel rn2 0 ms" if "runs_on vmem fuel rn 0 st"
      using ra_runs_on [OF iv e(1) _ rel(2)] sel_runs_on [OF d that rel(3)] e(2) by simp
    ultimately show ?thesis
      using ag None mruns_on_None by (fastforce simp: region_agrees_def mregion_agrees_def unaligned_within_def)
  next
    case (Some r)
    obtain r1 where r1: "exec_region vmem fuel rn1 0 st = Some r1" "res_agree (NumAll rn) r r1"
      using sel_region_sim [OF d Some rel(3)] by blast
    obtain q where q: "mexec_region e fuel rn2 0 ms = Some q" "res_grel r1 q"
      using ra_region_sim [OF iv e(1), of fuel 0 st r1 ms] r1(1) rel(2) e(2) by auto
    show ?thesis
    proof (cases r)
      case (QExit g st')
      obtain st1 ms' where 1: "r1 = QExit g st1" "agree (NumAll rn) {} st' st1" "q = MExit g ms'" "grel st1 ms'"
        using r1(2) q(2) QExit by (cases r1; cases q) auto
      then show ?thesis
        using ag Some q(1) QExit cpu_rel_agree [OF _ 1(2) n32 1(4)]
        by (auto simp: region_agrees_def mregion_agrees_def unaligned_within_def)
    next
      case (QTrap st')
      obtain st1 ms' where 1: "r1 = QTrap st1" "agree (NumAll rn) {} st' st1" "q = MTrap ms'" "grel st1 ms'"
        using r1(2) q(2) QTrap by (cases r1; cases q) auto
      then show ?thesis
        using ag Some q(1) QTrap cpu_rel_agree [OF _ 1(2) n32 1(4)]
        by (auto simp: region_agrees_def mregion_agrees_def unaligned_within_def) blast
    qed (use ag Some in \<open>auto simp: region_agrees_def mregion_agrees_def unaligned_within_def\<close>)
  qed
  then show ?agrees "mexec_region e fuel rn2 0 ms = None \<Longrightarrow> unaligned_within vmem code fuel s (fst rg) (m_mem ms) \<or> mruns_on e fuel rn2 0 ms"
    by blast+
qed

text \<open>
  C3. Compiled code, before emission, refines the interpreter. For a translated range none of
  whose first 64 words is a load to \<open>x0\<close> with zero offset: from any machine state whose guest CPU state is that of the
  interpreter, with anything in the host registers and the spill frame and whatever helper calls leave
  in the registers they clobber, the allocated code ends at the address and in the registers and memory
  the interpreter reaches, or with its trap. When it has not ended after \<open>fuel\<close> blocks, it has not got
  stuck, and the interpreter is still running too. Excepted are guest states from which the
  interpreter, within the instructions of \<open>fuel\<close> blocks, traps on a misaligned jump, which translated
  code does not check.
\<close>

theorem compiled_region_correct:
  assumes tr: "CompilerGenRegionIR code [rg] vmem = Inr rn" and nc: "no_clobber vmem code TB_MAX_INSNS (fst rg)"
    and ps: "GenerateCode_passes rn = Inr (rn2, calls)" and e: "call_env e" "e_vmem e = vmem" and m: "mrel s ms"
  shows "mregion_agrees vmem code fuel s (fst rg) (m_mem ms) (mexec_region e fuel rn2 0 ms) \<and>
    (mexec_region e fuel rn2 0 ms = None \<longrightarrow>
       unaligned_within vmem code fuel s (fst rg) (m_mem ms) \<or> mruns_on e fuel rn2 0 ms)"
  using compiled_region_sim [OF assms, of fuel] by blast

theorem compiled_region_correct_witness:
  "\<exists>rn2 calls. GenerateCode_passes bltu_region = Inr (rn2, calls) \<and>
    (let e = \<lparr>e_vmem = 0, e_saved = (\<lambda>p. \<not> rm_Test GPR_CALL_CLOBBER p), e_clob = (\<lambda>_. 0xdead)\<rparr>;
         ms = \<lparr>m_pr = (\<lambda>_. 0xbeef), m_frame = (\<lambda>_. 0), m_gs = (\<lambda>_. 0), m_mem = bltu_mem, m_trap = TC_NONE\<rparr>
     in mregion_agrees 0 bltu_mem 2 init_cpu 0x1000 bltu_mem (mexec_region e 2 rn2 0 ms))"
proof -
  obtain rn2 calls where p: "GenerateCode_passes bltu_region = Inr (rn2, calls)"
    by (rule passes_done [OF bltu_translate]) (use bltu_no_clobber in auto)
  have "mrel init_cpu \<lparr>m_pr = (\<lambda>_. 0xbeef), m_frame = (\<lambda>_. 0), m_gs = (\<lambda>_. 0), m_mem = bltu_mem, m_trap = TC_NONE\<rparr>"
    by (simp add: mrel_def cpu_rel_def as_q_def init_cpu_def)
  from compiled_region_correct [OF bltu_translate _ p _ _ this, of _ 2] show ?thesis
    using p bltu_no_clobber by (intro exI [of _ rn2] exI [of _ calls]) (simp add: call_env_def Let_def)
qed

end
