(* ===== verification/Emit_Mem.thy ===== *)
theory Emit_Mem
  imports Emit Backend
begin

section \<open>Host memory of translated code\<close>

text \<open>
  Translated code works on the guest CPU state, on the spill frame, on guest memory and on the stack
  below. These are areas of host memory; here is what it means that they do not overlap, and that
  they hold what a state of allocated code says.
\<close>

subsection \<open>Layout\<close>

text \<open>
  \<open>ly_frame\<close> is the address of the spill frame that the trampoline has made, above the return address,
  \<open>ly_stack\<close> the number of bytes that calls may use below, \<open>ly_host\<close> all other memory of the host.
\<close>

record xlay =
  ly_state :: uptr
  ly_frame :: uptr
  ly_stack :: u64
  ly_host :: mem

definition in_cpu :: "xlay \<Rightarrow> uptr \<Rightarrow> bool" where
  "in_cpu ly q \<longleftrightarrow> q - ly_state ly < sizeof_cpu_words"

definition in_frame :: "xlay \<Rightarrow> uptr \<Rightarrow> bool" where
  "in_frame ly q \<longleftrightarrow> q - ly_frame ly < ucast spillframe_size"

text \<open>The guest's four gigabytes, and the three bytes behind them that an access may reach.\<close>

definition in_guest :: "uptr \<Rightarrow> bool" where
  "in_guest q \<longleftrightarrow> q < 2 ^ 32 + 3"

definition entry_sp :: "xlay \<Rightarrow> uptr" where
  "entry_sp ly = ly_frame ly - 8"

definition in_stk :: "xlay \<Rightarrow> uptr \<Rightarrow> bool" where
  "in_stk ly q \<longleftrightarrow> 0 < entry_sp ly - q \<and> entry_sp ly - q \<le> ly_stack ly + 8"

definition lay_ok :: "xlay \<Rightarrow> bool" where
  "lay_ok ly \<longleftrightarrow>
     (\<forall>q. in_cpu ly q \<longrightarrow> \<not> in_frame ly q \<and> \<not> in_guest q \<and> \<not> in_stk ly q) \<and>
     (\<forall>q. in_frame ly q \<longrightarrow> \<not> in_guest q \<and> \<not> in_stk ly q) \<and>
     (\<forall>q. in_guest q \<longrightarrow> \<not> in_stk ly q) \<and>
     ly_frame ly AND 15 = 0 \<and> ly_stack ly < 2 ^ 63"

definition ms_word :: "mstate \<Rightarrow> nat \<Rightarrow> u32" where
  "ms_word ms k =
     (if k = 0 then 0 else if k < 33 then m_gs ms (of_nat (k - 1)) else trap_num (m_trap ms))"

text \<open>Memory holds the guest CPU state, the frame and guest memory of \<open>ms\<close>.\<close>

definition cpu_in :: "xlay \<Rightarrow> (nat \<Rightarrow> u32) \<Rightarrow> mem \<Rightarrow> bool" where
  "cpu_in ly w m \<longleftrightarrow> (\<forall>x < sizeof_cpu_words. m (ly_state ly + x) = word_bytes w x)"

definition frame_in :: "xlay \<Rightarrow> mem \<Rightarrow> mem \<Rightarrow> bool" where
  "frame_in ly f m \<longleftrightarrow> (\<forall>x < ucast spillframe_size. m (ly_frame ly + x) = f x)"

definition guest_in :: "mem \<Rightarrow> mem \<Rightarrow> bool" where
  "guest_in g m \<longleftrightarrow> (\<forall>q. in_guest q \<longrightarrow> m q = g q)"

definition host_in :: "xlay \<Rightarrow> mem \<Rightarrow> bool" where
  "host_in ly m \<longleftrightarrow>
     (\<forall>q. \<not> in_cpu ly q \<and> \<not> in_frame ly q \<and> \<not> in_guest q \<and> \<not> in_stk ly q \<longrightarrow> m q = ly_host ly q)"

definition mem_ok :: "xlay \<Rightarrow> mstate \<Rightarrow> mem \<Rightarrow> bool" where
  "mem_ok ly ms m \<longleftrightarrow>
     cpu_in ly (ms_word ms) m \<and> frame_in ly (m_frame ms) m \<and> guest_in (m_mem ms) m \<and> host_in ly m"

subsection \<open>Accesses relative to a base\<close>

definition shifted :: "uptr \<Rightarrow> mem \<Rightarrow> mem" where
  "shifted b m = (\<lambda>x. m (b + x))"

lemma load_shifted:
  "unaligned_load8 m (b + x) = unaligned_load8 (shifted b m) x"
  "unaligned_load16 m (b + x) = unaligned_load16 (shifted b m) x"
  "unaligned_load32 m (b + x) = unaligned_load32 (shifted b m) x"
  by (simp_all add: shifted_def unaligned_load8_def unaligned_load16_def unaligned_load32_def add.assoc)

lemma store_shifted:
  "shifted b (unaligned_store8 m (b + x) v8) = unaligned_store8 (shifted b m) x v8"
  "shifted b (unaligned_store16 m (b + x) v16) = unaligned_store16 (shifted b m) x v16"
  "shifted b (unaligned_store32 m (b + x) v32) = unaligned_store32 (shifted b m) x v32"
  by (auto simp: shifted_def unaligned_store8_def unaligned_store16_def unaligned_store32_def add.assoc fun_eq_iff)

definition sz_bytes :: "xsz \<Rightarrow> u64" where
  "sz_bytes sz = (case sz of S8 \<Rightarrow> 1 | S16 \<Rightarrow> 2 | S32 \<Rightarrow> 4 | S64 \<Rightarrow> 8)"

text \<open>A store changes only its own bytes.\<close>

lemma xstore_frame:
  assumes "sz \<noteq> S64" "\<not> q - a < sz_bytes sz"
  shows "xstore sz m a v q = m q"
proof -
  have "q \<noteq> a + x" if "x < sz_bytes sz" for x using assms(2) that by auto
  from this [of 0] this [of 1] this [of 2] this [of 3] assms(1) show ?thesis
    by (cases sz) (simp_all add: sz_bytes_def unaligned_store8_def unaligned_store16_def unaligned_store32_def)
qed

lemma store64_frame:
  assumes "\<not> q - a < 8"
  shows "unaligned_store64 m a v q = m q"
proof -
  have n: "q \<noteq> a + x" if "x < 8" for x using assms that by auto
  show ?thesis
    using n [of 0] n [of 1] n [of 2] n [of 3] n [of 4] n [of 5] n [of 6] n [of 7]
    by (simp add: unaligned_store64_def unaligned_store32_def add.assoc)
qed


subsection \<open>Words of the CPU state\<close>

lemma small_add:
  assumes "unat x + k < 2 ^ 64"
  shows "unat (x + of_nat k :: u64) = unat x + k"
proof -
  have "unat (of_nat k :: u64) = k" using assms by (simp add: unat_of_nat take_bit_nat_eq_self)
  then show ?thesis using assms by (simp add: unat_word_ariths)
qed

lemma unat_of_nat64: "k < 2 ^ 64 \<Longrightarrow> unat (of_nat k :: u64) = k"
  by (simp add: unat_of_nat take_bit_nat_eq_self)

lemma ucast_up_down [simp]: "ucast (ucast (v :: u32) :: u64) = v"
  by (rule bit_word_eqI) (simp add: bit_simps)

lemma word_of_bytes:
  "ucast (ucast w :: u8) OR push_bit 8 (ucast (ucast (drop_bit 8 w) :: u8)) OR
     push_bit 16 (ucast (ucast (drop_bit 16 w) :: u8)) OR push_bit 24 (ucast (ucast (drop_bit 24 w) :: u8)) = (w :: u32)" (is "?l = _")
proof (rule bit_word_eqI)
  fix n assume "n < LENGTH(32)"
  then consider "n < 8" | "8 \<le> n" "n < 16" | "16 \<le> n" "n < 24" | "24 \<le> n" "n < 32" by fastforce
  then show "bit ?l n = bit w n"
    by cases (auto simp: bit_simps)
qed

lemma word_bytes_at:
  assumes "k < 2 ^ 32" "j < 4"
  shows "word_bytes w (of_nat (4 * k) + of_nat j) = ucast (drop_bit (8 * j) (w k))"
proof -
  have "unat (of_nat (4 * k) + of_nat j :: uptr) = 4 * k + j"
    using assms by (subst small_add) (simp_all add: unat_of_nat64 del: of_nat_mult)
  then show ?thesis using assms(2) by (simp add: word_bytes_def)
qed

lemma load_word_bytes:
  assumes "k < 2 ^ 32" "\<And>x. x - of_nat (4 * k) < 4 \<Longrightarrow> m x = word_bytes w x"
  shows "unaligned_load32 m (of_nat (4 * k)) = w k"
proof -
  let ?p = "of_nat (4 * k) :: uptr"
  have "m (?p + of_nat j) = ucast (drop_bit (8 * j) (w k))" if "j < 4" for j
  proof -
    have "of_nat j < (4 :: uptr)" using that by (simp add: word_less_nat_alt unat_of_nat64)
    then show ?thesis using assms(2) [of "?p + of_nat j"] word_bytes_at [OF assms(1) that] by simp
  qed
  from this [of 0] this [of 1] this [of 2] this [of 3] show ?thesis
    by (simp add: unaligned_load32_def word_of_bytes)
qed

lemma store_word_bytes:
  assumes "k < 2 ^ 32" "unat x < 2 ^ 34" "m x = word_bytes w x"
  shows "unaligned_store32 m (of_nat (4 * k)) v x = word_bytes (w(k := v)) x"
proof -
  let ?p = "of_nat (4 * k) :: uptr"
  have u: "unat (?p + of_nat j) = 4 * k + j" if "j < 4" for j
    using assms(1) that by (subst small_add) (simp_all add: unat_of_nat64 del: of_nat_mult)
  have eq: "x = ?p + of_nat j \<longleftrightarrow> unat x = 4 * k + j" if "j < 4" for j
    using u [OF that] by (auto simp: word_unat_eq_iff)
  note e = eq [of 0] eq [of 1] eq [of 2] eq [of 3]
  show ?thesis
  proof (cases "unat x div 4 = k")
    case True
    define j where "j = unat x mod 4"
    have j: "unat x = 4 * k + j" "j < 4" using True by (auto simp: j_def)
    then have "word_bytes (w(k := v)) x = ucast (drop_bit (8 * j) v)" by (simp add: word_bytes_def)
    moreover have "unaligned_store32 m ?p v x = ucast (drop_bit (8 * j) v)"
      using e j(2) by (auto simp: unaligned_store32_def j(1) numeral_eq_Suc less_Suc_eq)
    ultimately show ?thesis by simp
  next
    case False
    then show ?thesis
      using e assms(3) by (auto simp: unaligned_store32_def word_bytes_def)
  qed
qed


subsection \<open>Stores into the areas\<close>

lemma in_area:
  fixes q :: uptr
  assumes "q - (b + x) < n" "unat x + unat n \<le> unat l"
  shows "q - b < l"
proof -
  have "q - b = (q - (b + x)) + x" by simp
  moreover have "unat (q - (b + x)) < unat n" using assms(1) by (simp add: word_less_nat_alt)
  ultimately have "unat (q - b) \<le> unat (q - (b + x)) + unat x" by (metis unat_plus_if' le_add2 diff_le_self le_refl)
  with \<open>unat (q - (b + x)) < unat n\<close> assms(2) show ?thesis by (simp add: word_less_nat_alt)
qed

lemma cpu_in_cong: "cpu_in ly w m \<Longrightarrow> (\<And>q. in_cpu ly q \<Longrightarrow> m' q = m q) \<Longrightarrow> cpu_in ly w m'"
  by (simp add: cpu_in_def in_cpu_def)

lemma frame_in_cong: "frame_in ly f m \<Longrightarrow> (\<And>q. in_frame ly q \<Longrightarrow> m' q = m q) \<Longrightarrow> frame_in ly f m'"
  by (simp add: frame_in_def in_frame_def)

lemma guest_in_cong: "guest_in g m \<Longrightarrow> (\<And>q. in_guest q \<Longrightarrow> m' q = m q) \<Longrightarrow> guest_in g m'"
  by (simp add: guest_in_def)

lemma host_in_cong:
  "host_in ly m \<Longrightarrow> (\<And>q. \<not> in_cpu ly q \<Longrightarrow> \<not> in_frame ly q \<Longrightarrow> \<not> in_guest q \<Longrightarrow> \<not> in_stk ly q \<Longrightarrow> m' q = m q) \<Longrightarrow> host_in ly m'"
  by (simp add: host_in_def)

lemma lay_okD:
  assumes "lay_ok ly"
  shows "in_cpu ly q \<Longrightarrow> \<not> in_frame ly q \<and> \<not> in_guest q \<and> \<not> in_stk ly q"
    "in_frame ly q \<Longrightarrow> \<not> in_cpu ly q \<and> \<not> in_guest q \<and> \<not> in_stk ly q"
    "in_guest q \<Longrightarrow> \<not> in_cpu ly q \<and> \<not> in_frame ly q \<and> \<not> in_stk ly q"
  using assms unfolding lay_ok_def by blast+

lemma unat_up16: "unat (ucast (x :: u16) :: u64) = unat x"
proof -
  have "unat x < 2 ^ 16" using unsigned_less [of x, where 'a = nat] by simp
  then show ?thesis by (simp add: unsigned_ucast_eq take_bit_nat_eq_self)
qed

lemma slot_reg_SomeD:
  assumes "slot_reg offs = Some r"
  obtains i where "i < 32" "r = of_nat i" "ucast offs = (of_nat (4 * Suc i) :: uptr)"
proof -
  obtain i where "find (\<lambda>i. fst (state_info ! i) = offs) [0 ..< GRID_END] = Some i" "r = of_nat i"
    using assms by (auto simp: slot_reg_def)
  then have i: "i < 32" "r = of_nat i" "offs = fst (state_info ! i)"
    by (auto simp: find_Some_iff GRID_END_def GRID_IP_def GPR_END_def)
  have "unat (of_nat (4 * Suc i) :: u16) = 4 * Suc i" using i(1) by (simp only: unat_of_nat) (simp add: take_bit_nat_eq_self)
  moreover have "unat (of_nat (4 * Suc i) :: uptr) = 4 * Suc i" using i(1) by (intro unat_of_nat64) simp
  ultimately have "ucast offs = (of_nat (4 * Suc i) :: uptr)"
    using i(1) unat_up16 [of offs] by (simp only: word_unat_eq_iff i(3) state_info_nth fst_conv)
  with i that show thesis by blast
qed

lemma ms_word_set:
  assumes "i < 32" "k < 34"
  shows "ms_word (ms\<lparr>m_gs := (m_gs ms)(of_nat i := v)\<rparr>) k = ((ms_word ms)(Suc i := v)) k"
  using assms of_nat_vreg_eq [of "k - 1" i] by (auto simp: ms_word_def)

lemma word_bytes_cong: "x < sizeof_cpu_words \<Longrightarrow> (\<And>k. k < 34 \<Longrightarrow> w k = w' k) \<Longrightarrow> word_bytes w x = word_bytes w' x"
proof -
  assume "x < sizeof_cpu_words" and e: "\<And>k. k < 34 \<Longrightarrow> w k = w' k"
  then have "unat x div 4 < 34" by (simp add: sizeof_cpu_words_def word_less_nat_alt)
  with e show ?thesis by (simp add: word_bytes_def)
qed

lemma cpu_in_load:
  assumes "cpu_in ly w m" "k < 34"
  shows "unaligned_load32 m (ly_state ly + of_nat (4 * k)) = w k"
proof -
  have "unaligned_load32 (shifted (ly_state ly) m) (of_nat (4 * k)) = w k"
  proof (rule load_word_bytes)
    fix x :: uptr assume "x - of_nat (4 * k) < 4"
    then have "x < sizeof_cpu_words"
      using in_area [of x 0 "of_nat (4 * k)" 4 sizeof_cpu_words] assms(2)
      by (simp add: sizeof_cpu_words_def unat_of_nat64 del: of_nat_mult)
    with assms(1) show "shifted (ly_state ly) m x = word_bytes w x" by (simp add: shifted_def cpu_in_def)
  qed (use assms in simp)
  then show ?thesis by (simp add: load_shifted)
qed

lemma cpu_in_store:
  assumes "cpu_in ly w m" "k < 34"
  shows "cpu_in ly (w(k := v)) (unaligned_store32 m (ly_state ly + of_nat (4 * k)) v)"
    "\<not> in_cpu ly q \<Longrightarrow> unaligned_store32 m (ly_state ly + of_nat (4 * k)) v q = m q"
proof -
  show "cpu_in ly (w(k := v)) (unaligned_store32 m (ly_state ly + of_nat (4 * k)) v)"
    unfolding cpu_in_def
  proof (intro allI impI)
    fix x :: uptr assume x: "x < sizeof_cpu_words"
    have "unaligned_store32 m (ly_state ly + of_nat (4 * k)) v (ly_state ly + x) =
        shifted (ly_state ly) (unaligned_store32 m (ly_state ly + of_nat (4 * k)) v) x" by (simp add: shifted_def)
    also have "\<dots> = unaligned_store32 (shifted (ly_state ly) m) (of_nat (4 * k)) v x" by (simp only: store_shifted)
    also have "\<dots> = word_bytes (w(k := v)) x"
      by (rule store_word_bytes) (use assms x in \<open>simp_all add: shifted_def cpu_in_def sizeof_cpu_words_def word_less_nat_alt\<close>)
    finally show "unaligned_store32 m (ly_state ly + of_nat (4 * k)) v (ly_state ly + x) = word_bytes (w(k := v)) x" .
  qed
  assume q: "\<not> in_cpu ly q"
  have "\<not> q - (ly_state ly + of_nat (4 * k)) < sz_bytes S32"
    using q in_area [of q "ly_state ly" "of_nat (4 * k)" 4 sizeof_cpu_words] assms(2)
    by (auto simp: in_cpu_def sz_bytes_def sizeof_cpu_words_def unat_of_nat64 simp del: of_nat_mult)
  then show "unaligned_store32 m (ly_state ly + of_nat (4 * k)) v q = m q"
    using xstore_frame [of S32 q _ m "ucast v"] by simp
qed

lemma mem_ok_set_gs:
  assumes "lay_ok ly" "mem_ok ly ms m" "slot_reg offs = Some r"
  shows "unaligned_load32 m (ly_state ly + ucast offs) = m_gs ms r"
    "mem_ok ly (ms\<lparr>m_gs := (m_gs ms)(r := v)\<rparr>) (unaligned_store32 m (ly_state ly + ucast offs) v)"
proof -
  obtain i where i: "i < 32" "r = of_nat i" "ucast offs = (of_nat (4 * Suc i) :: uptr)" by (rule slot_reg_SomeD [OF assms(3)])
  have c: "cpu_in ly (ms_word ms) m" using assms(2) by (simp add: mem_ok_def)
  from cpu_in_load [OF c, of "Suc i"] i show "unaligned_load32 m (ly_state ly + ucast offs) = m_gs ms r"
    by (simp add: ms_word_def)
  note st = cpu_in_store [OF c, where k = "Suc i" and v = v, folded i(3)]
  let ?m = "unaligned_store32 m (ly_state ly + ucast offs) v"
  have "cpu_in ly (ms_word (ms\<lparr>m_gs := (m_gs ms)(r := v)\<rparr>)) ?m"
    unfolding cpu_in_def
  proof (intro allI impI)
    fix x :: uptr assume x: "x < sizeof_cpu_words"
    have "?m (ly_state ly + x) = word_bytes ((ms_word ms)(Suc i := v)) x" using st(1) i(1) x by (simp add: cpu_in_def)
    also have "\<dots> = word_bytes (ms_word (ms\<lparr>m_gs := (m_gs ms)(r := v)\<rparr>)) x"
      by (rule word_bytes_cong [OF x]) (simp only: i(2) ms_word_set [OF i(1)])
    finally show "?m (ly_state ly + x) = word_bytes (ms_word (ms\<lparr>m_gs := (m_gs ms)(r := v)\<rparr>)) x" .
  qed
  moreover have "frame_in ly (m_frame ms) ?m"
    by (rule frame_in_cong [of ly _ m]) (use assms lay_okD(2) [OF assms(1)] st(2) i(1) in \<open>simp_all add: mem_ok_def\<close>)
  moreover have "guest_in (m_mem ms) ?m"
    by (rule guest_in_cong [of _ m]) (use assms lay_okD(3) [OF assms(1)] st(2) i(1) in \<open>simp_all add: mem_ok_def\<close>)
  moreover have "host_in ly ?m"
    by (rule host_in_cong [of _ m]) (use assms st(2) i(1) in \<open>simp_all add: mem_ok_def\<close>)
  ultimately show "mem_ok ly (ms\<lparr>m_gs := (m_gs ms)(r := v)\<rparr>) ?m" by (simp add: mem_ok_def)
qed


subsection \<open>The frame and guest memory\<close>

lemma ucast_chain [simp]:
  "ucast (ucast (b :: u8) :: u32) = (ucast b :: u64)" "ucast (ucast (h :: u16) :: u32) = (ucast h :: u64)"
  by (rule bit_word_eqI; auto simp: bit_simps dest: bit_imp_le_length)+

lemma xload_shifted: "sz \<noteq> S64 \<Longrightarrow> xload sz m (b + x) = xload sz (shifted b m) x"
  by (cases sz) (simp_all add: load_shifted)

lemma xstore_shifted: "sz \<noteq> S64 \<Longrightarrow> shifted b (xstore sz m (b + x) v) = xstore sz (shifted b m) x v"
  by (cases sz) (simp_all add: store_shifted)

lemma make_size_cases:
  assumes "make_size t = Inr sz"
  shows "t = T_I8 \<and> sz = S8 \<or> t = T_I16 \<and> sz = S16 \<or> t = T_I32 \<and> sz = S32"
  using assms by (cases t) auto

lemma xload_frame_load: "make_size t = Inr sz \<Longrightarrow> xload sz m (ucast offs) = ucast (frame_load t m offs)"
  by (drule make_size_cases) auto

lemma bit_take_bit_eq:
  "take_bit k (ucast (w :: u64)) = take_bit k (v :: u32) \<Longrightarrow> n < k \<Longrightarrow> k \<le> 32 \<Longrightarrow> bit w n = bit v n"
  by (drule arg_cong [of _ _ "\<lambda>x. bit x n"]) (simp add: bit_simps)

lemma ucast_low:
  "take_bit 8 (ucast (w :: u64)) = take_bit 8 (v :: u32) \<Longrightarrow> (ucast w :: u8) = ucast v"
  "take_bit 16 (ucast w) = take_bit 16 v \<Longrightarrow> (ucast w :: u16) = ucast v"
  using bit_take_bit_eq [of 8 w v] bit_take_bit_eq [of 16 w v] by (auto intro!: bit_word_eqI simp: bit_simps)

text \<open>A store at the width of a type keeps the part of the value that the type has.\<close>

lemma xstore_vm_store:
  assumes "make_size t = Inr sz" "tval t (ucast w) = tval t v" "vm_store t g p v = Some g'" "f x = g x"
  shows "xstore sz f p w x = g' x"
  using make_size_cases [OF assms(1)] assms(2-4) ucast_low [of w v]
  by (elim disjE) (auto simp: vm_store_def unaligned_store8_def unaligned_store16_def unaligned_store32_def)

lemma vm_store_frame: "t \<noteq> T_UNDEF \<Longrightarrow> vm_store t m (ucast offs) v = Some (frame_store t m offs v)"
  by (cases t) (simp_all add: vm_store_def)

lemma frame_area:
  assumes "unat (offs :: u16) + tbytes t \<le> unat frame_size" "make_size t = Inr sz" "q - (ly_frame ly + ucast offs) < sz_bytes sz"
  shows "in_frame ly q"
proof -
  have "unat (sz_bytes sz) = tbytes t" using make_size_cases [OF assms(2)] by (auto simp: sz_bytes_def)
  then show ?thesis
    using in_area [OF assms(3)] assms(1) unat_up16 [of offs] unat_up16 [of spillframe_size]
    by (simp add: in_frame_def frame_size_def)
qed

lemma mem_ok_frame_load:
  assumes "mem_ok ly ms m" "unat offs + tbytes t \<le> unat frame_size" "make_size t = Inr sz"
  shows "xload sz m (ly_frame ly + ucast offs) = ucast (frame_load t (m_frame ms) offs)"
proof -
  have sz: "sz \<noteq> S64" using make_size_cases [OF assms(3)] by auto
  have "frame_load t (shifted (ly_frame ly) m) offs = frame_load t (m_frame ms) offs"
  proof (rule frame_load_cong)
    fix i assume "i < tbytes t"
    then have "unat (ucast offs + of_nat i :: u64) < unat (ucast frame_size :: u64)"
      using assms(2) by (subst small_add) (simp_all add: unat_up16 frame_size_def spillframe_size_def)
    then show "shifted (ly_frame ly) m (ucast offs + of_nat i) = m_frame ms (ucast offs + of_nat i)"
      using assms(1) by (simp add: mem_ok_def frame_in_def shifted_def frame_size_def word_less_nat_alt)
  qed
  then show ?thesis by (simp add: xload_shifted [OF sz] xload_frame_load [OF assms(3)])
qed

lemma mem_ok_frame_store:
  assumes lay: "lay_ok ly" and ok: "mem_ok ly ms m" and offs: "unat offs + tbytes t \<le> unat frame_size"
    and t: "make_size t = Inr sz" "tval t (ucast w) = tval t v"
  shows "mem_ok ly (ms\<lparr>m_frame := frame_store t (m_frame ms) offs v\<rparr>) (xstore sz m (ly_frame ly + ucast offs) w)"
proof -
  have sz: "sz \<noteq> S64" using make_size_cases [OF t(1)] by auto
  let ?m = "xstore sz m (ly_frame ly + ucast offs) w"
  have out: "?m q = m q" if "\<not> in_frame ly q" for q
    using that frame_area [OF offs t(1)] by (intro xstore_frame [OF sz]) blast
  have "frame_in ly (frame_store t (m_frame ms) offs v) ?m"
    unfolding frame_in_def
  proof (intro allI impI)
    fix x :: uptr assume x: "x < ucast spillframe_size"
    have "?m (ly_frame ly + x) = shifted (ly_frame ly) ?m x" by (simp add: shifted_def)
    also have "\<dots> = xstore sz (shifted (ly_frame ly) m) (ucast offs) w x" by (simp only: xstore_shifted [OF sz])
    also have "\<dots> = frame_store t (m_frame ms) offs v x"
      by (rule xstore_vm_store [OF t vm_store_frame]) (use ok x t(1) in \<open>auto simp: shifted_def mem_ok_def frame_in_def\<close>)
    finally show "?m (ly_frame ly + x) = frame_store t (m_frame ms) offs v x" .
  qed
  moreover have "cpu_in ly (ms_word ms) ?m"
    by (rule cpu_in_cong [of ly _ m]) (use ok lay_okD(1) [OF lay] out in \<open>simp_all add: mem_ok_def\<close>)
  moreover have "guest_in (m_mem ms) ?m"
    by (rule guest_in_cong [of _ m]) (use ok lay_okD(3) [OF lay] out in \<open>simp_all add: mem_ok_def\<close>)
  moreover have "host_in ly ?m"
    by (rule host_in_cong [of _ m]) (use ok out in \<open>simp_all add: mem_ok_def\<close>)
  moreover have "ms_word (ms\<lparr>m_frame := frame_store t (m_frame ms) offs v\<rparr>) = ms_word ms" by (simp add: ms_word_def fun_eq_iff)
  ultimately show ?thesis by (simp add: mem_ok_def)
qed

lemma unat_up32: "unat (ucast (x :: u32) :: u64) = unat x"
proof -
  have "unat x < 2 ^ 32" using unsigned_less [of x, where 'a = nat] by simp
  then show ?thesis by (simp add: unsigned_ucast_eq take_bit_nat_eq_self)
qed

lemma guest_area:
  assumes "q - ucast (a :: u32) < n" "n \<le> 4"
  shows "in_guest q"
proof -
  have a: "unat a < 2 ^ 32" using unsigned_less [of a, where 'a = nat] by simp
  have n: "unat n \<le> 4" using assms(2) by (simp add: word_le_nat_alt)
  have "q - 0 < (2 ^ 32 + 3 :: u64)"
  proof (rule in_area [where x = "ucast a" and n = n])
    show "q - (0 + ucast a) < n" using assms(1) by simp
    show "unat (ucast a :: u64) + unat n \<le> unat (2 ^ 32 + 3 :: u64)" using a n by (simp add: unat_up32) 
  qed
  then show ?thesis by (simp add: in_guest_def)
qed


lemma guest_loads:
  assumes "guest_in g m"
  shows "unaligned_load8 m (ucast (a :: u32)) = unaligned_load8 g (ucast a)"
    "unaligned_load16 m (ucast a) = unaligned_load16 g (ucast a)"
    "unaligned_load32 m (ucast a) = unaligned_load32 g (ucast a)"
proof -
  have "m (ucast a + x) = g (ucast a + x)" if "x < 4" for x
    using assms guest_area [of "ucast a + x" a 4] that by (simp add: guest_in_def)
  from this [of 0] this [of 1] this [of 2] this [of 3]
  show "unaligned_load8 m (ucast a) = unaligned_load8 g (ucast a)"
    "unaligned_load16 m (ucast a) = unaligned_load16 g (ucast a)"
    "unaligned_load32 m (ucast a) = unaligned_load32 g (ucast a)"
    by (simp_all add: unaligned_load8_def unaligned_load16_def unaligned_load32_def)
qed

lemma mem_ok_guest_store:
  assumes lay: "lay_ok ly" and ok: "mem_ok ly ms m" and st: "vm_store t (m_mem ms) (ucast (a :: u32)) v = Some g'"
    and t: "make_size t = Inr sz" "tval t (ucast w) = tval t v"
  shows "mem_ok ly (ms\<lparr>m_mem := g'\<rparr>) (xstore sz m (ucast a) w)"
proof -
  let ?m = "xstore sz m (ucast a) w"
  have sz: "sz \<noteq> S64" "sz_bytes sz \<le> 4" using make_size_cases [OF t(1)] by (auto simp: sz_bytes_def)
  have out: "?m q = m q" if "\<not> in_guest q" for q
    using that guest_area [OF _ sz(2)] by (intro xstore_frame [OF sz(1)]) blast
  have "guest_in g' ?m"
    unfolding guest_in_def
    by (intro allI impI xstore_vm_store [OF t st]) (use ok in \<open>simp add: mem_ok_def guest_in_def\<close>)
  moreover have "cpu_in ly (ms_word ms) ?m"
    by (rule cpu_in_cong [of ly _ m]) (use ok lay_okD(1) [OF lay] out in \<open>simp_all add: mem_ok_def\<close>)
  moreover have "frame_in ly (m_frame ms) ?m"
    by (rule frame_in_cong [of ly _ m]) (use ok lay_okD(2) [OF lay] out in \<open>simp_all add: mem_ok_def\<close>)
  moreover have "host_in ly ?m"
    by (rule host_in_cong [of _ m]) (use ok out in \<open>simp_all add: mem_ok_def\<close>)
  moreover have "ms_word (ms\<lparr>m_mem := g'\<rparr>) = ms_word ms" by (simp add: ms_word_def fun_eq_iff)
  ultimately show ?thesis by (simp add: mem_ok_def)
qed

subsection \<open>States\<close>

definition regs_rel :: "mstate \<Rightarrow> xstate \<Rightarrow> bool" where
  "regs_rel ms xs \<longleftrightarrow> (\<forall>p. mreg p \<longrightarrow> m_pr ms p = ucast (xs_r xs p))"

text \<open>The stack pointer while the region runs.\<close>

definition body_sp :: "qemit \<Rightarrow> xlay \<Rightarrow> uptr" where
  "body_sp c ly = ly_frame ly - ucast (spillframe_sp_offs c)"

definition xrel :: "qemit \<Rightarrow> xlay \<Rightarrow> mstate \<Rightarrow> xstate \<Rightarrow> bool" where
  "xrel c ly ms xs \<longleftrightarrow>
     xs_r xs STATE = ly_state ly \<and> xs_r xs SP = body_sp c ly \<and> regs_rel ms xs \<and> mem_ok ly ms (xs_m xs)"

lemma mreg_fixed: "mreg p \<Longrightarrow> p \<noteq> STATE \<and> p \<noteq> SP \<and> STATE \<noteq> p \<and> SP \<noteq> p"
  by (auto simp: mreg_def rm_Test_FIXED)

lemma slot_addr:
  assumes "xs_r xs SP = body_sp c ly" "unat offs + k \<le> unat frame_size"
  shows "xs_r xs SP + ucast (offs + ucast (spillframe_sp_offs c) :: u16) = ly_frame ly + ucast offs"
proof -
  have so: "spillframe_sp_offs c = 8 \<or> spillframe_sp_offs c = 16" by (simp add: spillframe_sp_offs_def)
  have "unat (offs + ucast (spillframe_sp_offs c) :: u16) = unat offs + unat (spillframe_sp_offs c)"
    using so assms(2) by (auto simp: frame_size_def spillframe_size_def unat_word_ariths)
  then have "unat (ucast (offs + ucast (spillframe_sp_offs c) :: u16) :: u64) =
      unat (ucast offs + ucast (spillframe_sp_offs c) :: u64)"
    using so assms(2) by (auto simp: unat_up16 frame_size_def spillframe_size_def unat_word_ariths)
  then have "ucast (offs + ucast (spillframe_sp_offs c) :: u16) = (ucast offs + ucast (spillframe_sp_offs c) :: u64)"
    by (simp only: word_unat_eq_iff)
  then show ?thesis using assms(1) by (simp add: body_sp_def)
qed

lemma take_bit_tval: "make_size t = Inr sz \<Longrightarrow> take_bit (xbits sz) w = ucast (tval t (ucast w))" for w :: u64
  by (drule make_size_cases) (auto intro!: bit_word_eqI simp: bit_simps)

lemma take_bit_ucast_small: "LENGTH('a :: len) \<le> n \<Longrightarrow> take_bit n (ucast (x :: 'a word) :: 'b :: len word) = ucast x"
  by (rule bit_word_eqI) (auto simp: bit_simps dest: bit_imp_le_length)

lemma frame_load_tval: "t \<noteq> T_UNDEF \<Longrightarrow> tval t (frame_load t m offs) = frame_load t m offs"
  by (cases t) (simp_all add: take_bit_ucast_small)

lemma make_operand_read:
  assumes r: "xrel c ly ms xs" "lay_ok ly" and x: "mtyp t x" "meval ms x = Some v"
  obtains y sz where "make_operand c x = Inr y" "make_size t = Inr sz" "xread xs sz y = Some (ucast (tval t v))"
    "\<not> is_const x \<longrightarrow> opr_size y = Some sz"
proof -
  have t: "t \<noteq> T_UNDEF" using x(1) by (cases x) auto
  then obtain sz where sz: "make_size t = Inr sz" by (cases t) auto
  have b: "take_bit (xbits sz) (ucast (a :: u32) :: u64) = ucast (tval t a)" for a
    using take_bit_tval [OF sz, of "ucast a"] by simp
  show thesis
  proof (cases x)
    case (VConst t' a)
    then show thesis using that [of "XImm (ucast a)" sz] x sz b [of a] by (simp add: make_operand_def make_imm_def is_const_def)
  next
    case (VPReg t' p)
    then show thesis
      using that [of "XReg sz p" sz] x sz r(1) take_bit_tval [OF sz, of "xs_r xs p"]
      by (auto simp: make_operand_def make_gpr_def xrel_def regs_rel_def)
  next
    case (VSlot g t' offs)
    show thesis
    proof (cases g)
      case True
      with x VSlot obtain q where q: "slot_reg offs = Some q" "t = T_I32" "v = m_gs ms q" "t' = t" by (auto simp: bind_eq_Some_conv)
      have "unaligned_load32 (xs_m xs) (ly_state ly + ucast offs) = m_gs ms q"
        using r by (intro mem_ok_set_gs(1) [OF r(2) _ q(1)]) (simp add: xrel_def)
      then show thesis
        using that [of "XM sz (XMem (Base64 STATE) None (ucast offs))" sz] r(1) sz q True VSlot
        by (auto simp: make_operand_def make_slot_def ea_def xrel_def)
    next
      case False
      have q: "t' = t" "unat offs + tbytes t \<le> unat frame_size" "v = frame_load t (m_frame ms) offs"
        using x VSlot False t by auto
      have "xload sz (xs_m xs) (ly_frame ly + ucast offs) = ucast v"
        using r(1) unfolding q(3) by (intro mem_ok_frame_load [OF _ q(2) sz]) (simp add: xrel_def)
      moreover have "xs_r xs SP + ucast (offs + ucast (spillframe_sp_offs c) :: u16) = ly_frame ly + ucast offs"
        using r(1) by (intro slot_addr [OF _ q(2)]) (simp add: xrel_def)
      ultimately show thesis
        using that [of "XM sz (XMem (Base64 SP) None (ucast (offs + ucast (spillframe_sp_offs c))))" sz] sz False VSlot q(1)
          frame_load_tval [OF t, of "m_frame ms" offs]
        by (auto simp: make_operand_def make_slot_def ea_def q(3))
    qed
  qed (use x in auto)
qed

end
