(* ===== verification/Emit_Correct.thy ===== *)
theory Emit_Correct
  imports Emit_Mem
begin

section \<open>Correctness of emission\<close>

text \<open>
  Every instruction of allocated code and the host instructions emitted for it do the same, in
  states that are related by \<open>xrel\<close>; then blocks, and whole regions. The build without a zero base
  (used with the address sanitizer) is emitted by the same definitions; the proofs are for the
  default, where guest memory starts at address 0.
\<close>

subsection \<open>Writing an operand\<close>

lemma tmerge_reg_merge:
  assumes "make_size t = Inr sz" "tval t (ucast w) = tval t v"
  shows "ucast (reg_merge sz old w) = tmerge t (ucast old) v"
proof -
  have 1: "ucast (take_bit n w) = take_bit n v" if "take_bit n (ucast w) = take_bit n v" "n \<le> 32" for n
    using bit_take_bit_eq [OF that(1) _ that(2)] that(2) by (auto intro!: bit_word_eqI simp: bit_simps)
  have 2: "ucast (old AND NOT (mask n) :: u64) = (ucast old AND NOT (mask n) :: u32)" for n
    by (auto intro!: bit_word_eqI simp: bit_simps)
  have 3: "ucast (a OR b) = (ucast a OR ucast b :: u32)" for a b :: u64
    by (auto intro!: bit_word_eqI simp: bit_simps)
  show ?thesis
    using make_size_cases [OF assms(1)] assms(2) 1 [of 8] 1 [of 16] 1 [of 32]
    by (auto simp: 2 3 take_bit_word_eq_self)
qed

lemma xrel_set_reg:
  assumes "xrel c ly ms xs" "mreg p" "ucast w = v"
  shows "xrel c ly (ms\<lparr>m_pr := (m_pr ms)(p := v)\<rparr>) (set_reg xs p w)"
proof -
  have "ms_word (ms\<lparr>m_pr := (m_pr ms)(p := v)\<rparr>) = ms_word ms" by (simp add: ms_word_def fun_eq_iff)
  then show ?thesis
    using assms mreg_fixed [OF assms(2)] by (simp add: xrel_def regs_rel_def set_reg_def mem_ok_def)
qed

lemma xrel_mem:
  assumes "xrel c ly ms xs" "mem_ok ly ms' m" "m_pr ms' = m_pr ms"
  shows "xrel c ly ms' (xs\<lparr>xs_m := m\<rparr>)"
  using assms by (simp add: xrel_def regs_rel_def)

lemma make_operand_write:
  assumes r: "xrel c ly ms xs" "lay_ok ly" and x: "mtyp t x" "\<not> is_const x" "mwrite ms x v = Some ms'"
    and w: "tval t (ucast w) = tval t v" and sz: "make_size t = Inr sz"
  obtains y xs' where "make_operand c x = Inr y" "opr_size y = Some sz" "xwrite xs sz y w = Some xs'"
    "xrel c ly ms' xs'"
proof -
  have t: "t \<noteq> T_UNDEF" using x(1) by (cases x) auto
  have ok: "mem_ok ly ms (xs_m xs)" using r(1) by (simp add: xrel_def)
  show thesis
  proof (cases x)
    case (VPReg t' p)
    have p: "mreg p" "t' = t" "ms' = ms\<lparr>m_pr := (m_pr ms)(p := tmerge t (m_pr ms p) v)\<rparr>" using x VPReg t by auto
    have "m_pr ms p = ucast (xs_r xs p)" using r(1) p(1) by (simp add: xrel_def regs_rel_def)
    with xrel_set_reg [OF r(1) p(1) tmerge_reg_merge [OF sz w]] show thesis
      using that [of "XReg sz p"] p sz VPReg by (simp add: make_operand_def make_gpr_def)
  next
    case (VSlot g t' offs)
    show thesis
    proof (cases g)
      case True
      with x VSlot obtain q where q: "slot_reg offs = Some q" "t = T_I32" "t' = t" "ms' = ms\<lparr>m_gs := (m_gs ms)(q := v)\<rparr>"
        by (auto simp: bind_eq_Some_conv)
      have "xrel c ly ms' (xs\<lparr>xs_m := unaligned_store32 (xs_m xs) (ly_state ly + ucast offs) v\<rparr>)"
        using mem_ok_set_gs(2) [OF r(2) ok q(1), of v] q(4) by (intro xrel_mem [OF r(1)]) simp_all
      then show thesis
        using that [of "XM sz (XMem (Base64 STATE) None (ucast offs))"] r(1) sz q w True VSlot
        by (auto simp: make_operand_def make_slot_def ea_def xrel_def)
    next
      case False
      have q: "t' = t" "unat offs + tbytes t \<le> unat frame_size" "ms' = ms\<lparr>m_frame := frame_store t (m_frame ms) offs v\<rparr>"
        using x VSlot False t by auto
      have "xrel c ly ms' (xs\<lparr>xs_m := xstore sz (xs_m xs) (ly_frame ly + ucast offs) w\<rparr>)"
        using mem_ok_frame_store [OF r(2) ok q(2) sz w] q(3) by (intro xrel_mem [OF r(1)]) simp_all
      moreover have "xs_r xs SP + ucast (offs + ucast (spillframe_sp_offs c) :: u16) = ly_frame ly + ucast offs"
        using r(1) by (intro slot_addr [OF _ q(2)]) (simp add: xrel_def)
      ultimately show thesis
        using that [of "XM sz (XMem (Base64 SP) None (ucast (offs + ucast (spillframe_sp_offs c))))"] sz False VSlot q(1)
        by (auto simp: make_operand_def make_slot_def ea_def)
    qed
  qed (use x in \<open>auto simp: is_const_def\<close>)
qed

lemma xrel_flags: "xrel c ly ms (xs\<lparr>xs_f := f\<rparr>) = xrel c ly ms xs"
  by (simp add: xrel_def regs_rel_def)

subsection \<open>Straight-line code\<close>

fun xexec :: "xenv \<Rightarrow> xinst list \<Rightarrow> xstate \<Rightarrow> xout option" where
  "xexec e [] xs = Some (XNext xs)"
| "xexec e (i # is) xs = do { r \<leftarrow> xstep e i xs; (case r of XNext xs' \<Rightarrow> xexec e is xs' | _ \<Rightarrow> Some r) }"

lemma xexec_append:
  "xexec e (is @ js) xs = do { r \<leftarrow> xexec e is xs; (case r of XNext xs' \<Rightarrow> xexec e js xs' | _ \<Rightarrow> Some r) }"
  by (induction "is" arbitrary: xs) (auto split: Option.bind_splits xout.splits)

text \<open>A move, an operation, a comparison.\<close>

lemma emit_mov:
  assumes r: "xrel c ly ms xs" "lay_ok ly" and ok: "mov_ok d s" and ex: "mexec_inst me (Mov d s) ms = Some q"
  shows "\<exists>is ms' xs'. Emit_mov c d s = Inr is \<and> q = MNext ms' \<and> xexec e is xs = Some (XNext xs') \<and> xrel c ly ms' xs'"
proof -
  obtain v ms' where v: "meval ms s = Some v" "mwrite ms d v = Some ms'" "q = MNext ms'"
    using ex by (auto simp: bind_eq_Some_conv)
  have t: "mtyp (opr_type d) d" "mtyp (opr_type d) s" "\<not> is_const d" using ok by (simp_all add: mov_ok_def)
  obtain y sz where y: "make_operand c s = Inr y" "make_size (opr_type d) = Inr sz"
    "xread xs sz y = Some (ucast (tval (opr_type d) v))" by (rule make_operand_read [OF r t(2) v(1)])
  obtain z xs' where z: "make_operand c d = Inr z" "opr_size z = Some sz"
    "xwrite xs sz z (ucast (tval (opr_type d) v)) = Some xs'" "xrel c ly ms' xs'"
    by (rule make_operand_write [OF r t(1,3) v(2) _ y(2), of "ucast (tval (opr_type d) v)"]) auto
  then show ?thesis using v y by (simp add: Emit_mov_def)
qed

lemma emit_cmp:
  assumes r: "xrel c ly ms xs" "lay_ok ly" and a: "mval T_I32 a" "\<not> is_const a" "meval ms a = Some x"
    and b: "mval T_I32 b" "meval ms b = Some y"
  obtains a' b' where "make_operand c a = Inr a'" "make_operand c b = Inr b'"
    "xstep e (X_cmp a' b') xs = Some (XNext (xs\<lparr>xs_f := Some (cmp_flags x y)\<rparr>))"
proof -
  have t: "mtyp T_I32 a" "mtyp T_I32 b" using a b by (simp_all add: mval_def)
  obtain a' where a': "make_operand c a = Inr a'" "xread xs S32 a' = Some (ucast x)" "opr_size a' = Some S32"
    by (rule make_operand_read [OF r t(1) a(3)]) (use a(2) in auto)
  obtain b' where b': "make_operand c b = Inr b'" "xread xs S32 b' = Some (ucast y)"
    by (rule make_operand_read [OF r t(2) b(2)]) auto
  show thesis by (rule that [OF a'(1) b'(1)]) (simp add: a' b')
qed


subsection \<open>What the target description guarantees\<close>

lemma preg_cx: "rm_Test CT_CX p \<longleftrightarrow> p = RCX" and preg_si: "rm_Test CT_SI p \<longleftrightarrow> p = RSI"
  by (auto simp: CT_CX_def CT_SI_def reg_defs)

lemma mval_cases: "mval t x \<Longrightarrow> (\<exists>i. x = VConst t i \<and> t \<noteq> T_UNDEF) \<or> (\<exists>p. x = VPReg t p \<and> mreg p \<and> t \<noteq> T_UNDEF)"
  by (cases x) (auto simp: mval_def is_slot_def)

lemma mdst_cases: "mdst t x \<Longrightarrow> \<exists>p. x = VPReg t p \<and> mreg p \<and> t \<noteq> T_UNDEF"
  by (cases x) (auto simp: mdst_def is_preg_def)

lemma not_imm: "imm_ok (ct_reg cr CI_NO al) x \<Longrightarrow> \<not> is_const x"
  by (cases x) (simp_all add: imm_ok_def ct_reg_def match_gp_const_simps is_const_def)

lemma mct_Binop:
  assumes "mct_ok (Binop bop d a b)"
  shows "a = d" "mdst T_I32 d" "mval T_I32 b" "bop \<in> {B_sra, B_srl, B_sll} \<Longrightarrow> is_const b \<or> b = VPReg T_I32 RCX"
proof -
  have ok: "ct_ok (Binop bop d a b)" "minst_ok (Binop bop d a b)" "list_all2 preg_ok (fst (binop_ct bop)) [d, a, b]"
    using assms by (auto simp: mct_ok_def split: prod.splits)
  show "a = d"
    using ok(1) by (cases bop) (simp_all add: ct_ok_def CT_INFO_eval alias_ok_def ct_reg_def)
  show "mdst T_I32 d" and b: "mval T_I32 b" using ok(2) by simp_all
  show "is_const b \<or> b = VPReg T_I32 RCX" if "bop \<in> {B_sra, B_srl, B_sll}"
    using that ok(3) mval_cases [OF b] by (auto simp: CT_INFO_eval ct_reg_def preg_ok_def preg_cx is_const_def)
qed

lemma mct_Setcc:
  assumes "mct_ok (Setcc cc d a b)"
  shows "mdst T_I32 d" "mval T_I32 a" "\<not> is_const a" "mval T_I32 b"
  using assms by (auto simp: mct_ok_def ct_ok_def CT_INFO_eval dest: not_imm)

lemma mct_Brcc:
  assumes "mct_ok (Brcc cc a b)"
  shows "mval T_I32 a" "\<not> is_const a" "mval T_I32 b"
  using assms by (auto simp: mct_ok_def ct_ok_def CT_INFO_eval dest: not_imm)

lemma mct_GBrind:
  assumes "mct_ok (GBrind a)"
  shows "a = VPReg T_I32 RSI"
proof -
  have "mval T_I32 a" "imm_ok (ct_reg CT_SI CI_NO None) a" "preg_ok (ct_reg CT_SI CI_NO None) a"
    using assms by (simp_all add: mct_ok_def ct_ok_def CT_INFO_eval)
  with mval_cases [of T_I32 a] not_imm [of CT_SI None a] show ?thesis
    by (auto simp: preg_ok_def preg_si is_const_def) (simp_all add: ct_reg_def preg_si)
qed

lemma mct_VMStore:
  assumes "mct_ok (VMStore sz sg p d)"
  shows "sz \<noteq> T_UNDEF" "sg = SG_U" "mval T_I32 p" "mtyp sz d" "\<not> is_const d"
  using assms by (auto simp: mct_ok_def ct_ok_def CT_INFO_eval mval_def dest: not_imm)

subsection \<open>Instructions that fall through\<close>

lemma xrel_reg: "xrel c ly ms xs \<Longrightarrow> mreg p \<Longrightarrow> m_pr ms p = ucast (xs_r xs p)"
  by (simp add: xrel_def regs_rel_def)

lemma ucast_take32: "ucast (take_bit 32 w :: u64) = (ucast w :: u32)"
  by (auto intro!: bit_word_eqI simp: bit_simps)

lemma take32_ucast: "take_bit 32 (ucast (v :: u32) :: u64) = ucast v"
  by (rule take_bit_ucast_small) simp

lemma EmitInstBinop_run:
  assumes r: "xrel c ly ms xs" "lay_ok ly" and p: "mreg p" and b: "mval T_I32 b" "meval ms b = Some y"
    and cnt: "is_shift op \<longrightarrow> is_const b \<or> b = VPReg T_I32 RCX"
  shows "\<exists>is xs'. EmitInstBinop c op (VPReg T_I32 p) (VPReg T_I32 p) b = Inr is \<and> xexec e is xs = Some (XNext xs') \<and>
    xrel c ly (ms\<lparr>m_pr := (m_pr ms)(p := xop_sem op (m_pr ms p) y)\<rparr>) xs'"
proof -
  have t: "mtyp T_I32 b" using b(1) by (simp add: mval_def)
  obtain z where z: "make_operand c b = Inr z" "xread xs S32 z = Some (ucast y)"
    by (rule make_operand_read [OF r t b(2)]) auto
  have co: "count_ok op z"
    using mval_cases [OF b(1)] z(1) cnt
    by (auto simp: count_ok_def make_operand_def make_imm_def make_gpr_def is_const_def)
  define w where "w = (ucast (xop_sem op (m_pr ms p) y) :: u64)"
  have "xrel c ly (ms\<lparr>m_pr := (m_pr ms)(p := xop_sem op (m_pr ms p) y)\<rparr>) (set_reg xs p w)"
    by (rule xrel_set_reg [OF r(1) p]) (simp add: w_def)
  then show ?thesis
    using z co xrel_reg [OF r(1) p]
    by (simp add: EmitInstBinop_def make_gpr_opr_def make_gpr_def ucast_take32 take32_ucast w_def xrel_flags)
qed

primrec xop_of :: "binop \<Rightarrow> xop" where
  "xop_of B_add = kIdAdd" | "xop_of B_sub = kIdSub" | "xop_of B_and = kIdAnd" | "xop_of B_or = kIdOr"
| "xop_of B_xor = kIdXor" | "xop_of B_sra = kIdSar" | "xop_of B_srl = kIdShr" | "xop_of B_sll = kIdShl"

lemma xop_of_sem: "xop_sem (xop_of bop) a b = binop_sem bop a b"
  by (cases bop) simp_all

lemma Emit_binop_eq:
  assumes "bop \<in> {B_sra, B_srl, B_sll} \<Longrightarrow> is_const b \<or> b = VPReg T_I32 RCX"
  shows "Emit_binop c bop d a b = EmitInstBinop c (xop_of bop) d a b"
  using assms by (cases bop) (auto simp: EmitShift_def)

lemma emit_binop:
  assumes r: "xrel c ly ms xs" "lay_ok ly" and ok: "mct_ok (Binop bop d a b)"
    and ex: "mexec_inst me (Binop bop d a b) ms = Some q"
  shows "\<exists>is ms' xs'. Emit_binop c bop d a b = Inr is \<and> q = MNext ms' \<and> xexec e is xs = Some (XNext xs') \<and> xrel c ly ms' xs'"
proof -
  note m = mct_Binop [OF ok]
  obtain p where p: "d = VPReg T_I32 p" "mreg p" using mdst_cases [OF m(2)] by blast
  obtain y where y: "meval ms b = Some y" "q = MNext (ms\<lparr>m_pr := (m_pr ms)(p := binop_sem bop (m_pr ms p) y)\<rparr>)"
    using ex by (auto simp: m(1) p(1) bind_eq_Some_conv)
  have "is_shift (xop_of bop) \<longrightarrow> is_const b \<or> b = VPReg T_I32 RCX"
    using m(4) by (cases bop) (simp_all add: is_shift_def)
  note run = EmitInstBinop_run [OF r p(2) m(3) y(1) this]
  have "Emit_binop c bop d a b = EmitInstBinop c (xop_of bop) d a b" by (rule Emit_binop_eq) (rule m(4))
  then show ?thesis using run y(2) by (simp add: m(1) p(1) xop_of_sem)
qed


lemma make_cc_holds: "xcc_holds (make_cc cc) (cmp_flags a b) = cc_holds cc a b"
proof -
  have u: "f_zf (cmp_flags a b) \<longleftrightarrow> a = b" "f_cf (cmp_flags a b) \<longleftrightarrow> a < b" by (auto simp: cmp_flags_def Let_def)
  have s: "f_sf (cmp_flags a b) = f_of (cmp_flags a b) \<longleftrightarrow> \<not> a <s b" using cmp_flags_signed [of a b] by blast
  have "sint a = sint b \<longleftrightarrow> a = b" by (auto intro: signed_word_eqI)
  then have i: "a = b \<longleftrightarrow> \<not> sint a < sint b \<and> \<not> sint b < sint a" by auto
  show ?thesis
  proof (cases cc)
    case CC_LE
    then show ?thesis using i by (auto simp: u s word_sless_alt)
  next
    case CC_GT
    then show ?thesis using i by (auto simp: u s word_sless_alt)
  qed (auto simp: u s word_sless_alt)
qed

lemma take8_merge: "take_bit 8 (reg_merge S8 old (of_bool b)) = of_bool b" "reg_merge S8 0 (of_bool b) = of_bool b"
  by (auto intro!: bit_word_eqI simp: bit_simps)

lemma setcc_run:
  assumes r: "xrel c ly ms xs" "lay_ok ly" and p: "mreg p" and a: "mval T_I32 a" "\<not> is_const a" "meval ms a = Some x"
    and b: "mval T_I32 b" "meval ms b = Some y"
  obtains a' b' where "make_operand c a = Inr a'" "make_operand c b = Inr b'"
    "xexec e [X_cmp a' b', X_setcc (make_cc cc) p] xs =
       Some (XNext (set_reg (xs\<lparr>xs_f := Some (cmp_flags x y)\<rparr>) p (reg_merge S8 (xs_r xs p) (of_bool (cc_holds cc x y)))))"
proof -
  obtain a' b' where ab: "make_operand c a = Inr a'" "make_operand c b = Inr b'"
    "xstep e (X_cmp a' b') xs = Some (XNext (xs\<lparr>xs_f := Some (cmp_flags x y)\<rparr>))" by (rule emit_cmp [OF r a b])
  then show thesis using that by (simp del: xstep.simps(3) add: make_cc_holds)
qed

lemma emit_setcc:
  assumes r: "xrel c ly ms xs" "lay_ok ly" and ok: "mct_ok (Setcc cc d a b)"
    and ex: "mexec_inst me (Setcc cc d a b) ms = Some q"
  shows "\<exists>is ms' xs'. Emit_setcc c cc d a b = Inr is \<and> q = MNext ms' \<and> xexec e is xs = Some (XNext xs') \<and> xrel c ly ms' xs'"
proof -
  note m = mct_Setcc [OF ok]
  obtain p where p: "d = VPReg T_I32 p" "mreg p" using mdst_cases [OF m(1)] by blast
  obtain p0 where p0: "a = VPReg T_I32 p0" "mreg p0" using mval_cases [OF m(2)] m(3) by (auto simp: is_const_def)
  obtain x y where xy: "meval ms a = Some x" "meval ms b = Some y"
    "q = MNext (ms\<lparr>m_pr := (m_pr ms)(p := bool_u32 (cc_holds cc x y))\<rparr>)"
    using ex by (auto simp: p(1) bind_eq_Some_conv)
  define al where "al \<longleftrightarrow> p0 = p \<or> (case b of VPReg t p1 \<Rightarrow> p1 = p | _ \<Rightarrow> False)"
  define v where "v = bool_u32 (cc_holds cc x y)"
  have v: "ucast (of_bool (cc_holds cc x y) :: u64) = v" by (simp add: v_def bool_u32_def)
  have emit: "Emit_setcc c cc d a b = Inr ((if \<not> al then [X_op kIdXor (XReg S32 p) (XReg S32 p)] else []) @
      [X_cmp a' b', X_setcc (make_cc cc) p] @ (if al then [X_movzx (XReg S32 p) (XReg S8 p)] else []))"
    if "make_operand c a = Inr a'" "make_operand c b = Inr b'" for a' b'
    using that by (simp add: Emit_setcc_def p p0 make_gpr_opr_def make_gpr_def al_def Let_def)
  show ?thesis
  proof (cases al)
    case True
    obtain a' b' where ab: "make_operand c a = Inr a'" "make_operand c b = Inr b'"
      "xexec e [X_cmp a' b', X_setcc (make_cc cc) p] xs =
         Some (XNext (set_reg (xs\<lparr>xs_f := Some (cmp_flags x y)\<rparr>) p (reg_merge S8 (xs_r xs p) (of_bool (cc_holds cc x y)))))"
      by (rule setcc_run [OF r p(2) m(2,3) xy(1) m(4) xy(2)])
    have "xrel c ly (ms\<lparr>m_pr := (m_pr ms)(p := v)\<rparr>) (set_reg (xs\<lparr>xs_f := Some (cmp_flags x y)\<rparr>) p (of_bool (cc_holds cc x y)))"
      by (rule xrel_set_reg [OF _ p(2)]) (use r(1) v in \<open>simp_all add: xrel_flags\<close>)
    moreover have "xexec e ([X_cmp a' b', X_setcc (make_cc cc) p] @ [X_movzx (XReg S32 p) (XReg S8 p)]) xs =
        Some (XNext (set_reg (xs\<lparr>xs_f := Some (cmp_flags x y)\<rparr>) p (of_bool (cc_holds cc x y))))"
      unfolding xexec_append ab(3) by (simp add: set_reg_def take8_merge del: reg_merge.simps(1))
    moreover have "Emit_setcc c cc d a b = Inr ([X_cmp a' b', X_setcc (make_cc cc) p] @ [X_movzx (XReg S32 p) (XReg S8 p)])"
      using emit [OF ab(1,2)] True by simp
    ultimately show ?thesis using xy(3) v_def by blast
  next
    case False
    define ms1 where "ms1 = ms\<lparr>m_pr := (m_pr ms)(p := 0)\<rparr>"
    define xs1 where "xs1 = (set_reg xs p 0)\<lparr>xs_f := None\<rparr>"
    have r1: "xrel c ly ms1 xs1" unfolding ms1_def xs1_def xrel_flags by (rule xrel_set_reg [OF r(1) p(2)]) simp
    have e1: "meval ms1 a = Some x" using xy(1) False by (simp add: p0 ms1_def al_def)
    have e2: "meval ms1 b = Some y" using xy(2) False mval_cases [OF m(4)] by (auto simp: ms1_def al_def)
    obtain a' b' where ab: "make_operand c a = Inr a'" "make_operand c b = Inr b'"
      "xexec e [X_cmp a' b', X_setcc (make_cc cc) p] xs1 =
         Some (XNext (set_reg (xs1\<lparr>xs_f := Some (cmp_flags x y)\<rparr>) p (reg_merge S8 (xs_r xs1 p) (of_bool (cc_holds cc x y)))))"
      by (rule setcc_run [OF r1 r(2) p(2) m(2,3) e1 m(4) e2])
    have xo: "xstep e (X_op kIdXor (XReg S32 p) (XReg S32 p)) xs = Some (XNext xs1)"
      by (simp add: count_ok_def is_shift_def xs1_def)
    have "xrel c ly (ms1\<lparr>m_pr := (m_pr ms1)(p := v)\<rparr>) (set_reg (xs1\<lparr>xs_f := Some (cmp_flags x y)\<rparr>) p (of_bool (cc_holds cc x y)))"
      by (rule xrel_set_reg [OF _ p(2)]) (use r1 v in \<open>simp_all add: xrel_flags\<close>)
    moreover have "ms1\<lparr>m_pr := (m_pr ms1)(p := v)\<rparr> = ms\<lparr>m_pr := (m_pr ms)(p := v)\<rparr>" by (simp add: ms1_def)
    moreover have "xs_r xs1 p = 0" by (simp add: xs1_def set_reg_def)
    moreover have "xexec e ([X_op kIdXor (XReg S32 p) (XReg S32 p)] @ [X_cmp a' b', X_setcc (make_cc cc) p]) xs =
        xexec e [X_cmp a' b', X_setcc (make_cc cc) p] xs1" using xo by simp
    moreover have "Emit_setcc c cc d a b = Inr ([X_op kIdXor (XReg S32 p) (XReg S32 p)] @ [X_cmp a' b', X_setcc (make_cc cc) p])"
      using emit [OF ab(1,2)] False by simp
    ultimately show ?thesis using xy(3) v_def ab(3) take8_merge(2) by metis
  qed
qed

subsection \<open>Guest memory\<close>

lemma mct_VMLoad:
  assumes "mct_ok (VMLoad sz sg d p)"
  shows "sz \<noteq> T_UNDEF" "mdst T_I32 d" "mval T_I32 p"
  using assms by (auto simp: mct_ok_def)

lemma make_vmem_ea:
  assumes r: "xrel c ly ms xs" and c: "qe_zero_base c" and p: "mval T_I32 p" "meval ms p = Some a"
  obtains x where "make_vmem c p = Inr x" "ea xs x = ucast a"
proof -
  consider i where "p = VConst T_I32 i" | q where "p = VPReg T_I32 q" "mreg q" using mval_cases [OF p(1)] by blast
  then show thesis
  proof cases
    case (1 i)
    then show thesis using that [of "XMem No_base None (ucast i)"] c p(2) by (simp add: make_vmem_def ea_def)
  next
    case (2 q)
    then show thesis
      using that [of "XMem (Base32 q) None 0"] c p(2) xrel_reg [OF r 2(2)] by (simp add: make_vmem_def make_gpr_def ea_def)
  qed
qed

lemma low32_ext: "ucast (ucast (b :: u8) :: u64) = (ucast b :: u32)" "ucast (ucast (h :: u16) :: u64) = (ucast h :: u32)"
  "ucast (scast b :: u64) = (scast b :: u32)" "ucast (scast h :: u64) = (scast h :: u32)"
  "ucast (ucast b :: u64) = b" "ucast (ucast h :: u64) = h"
  by (rule bit_word_eqI; auto simp: bit_simps dest: bit_imp_le_length)+

lemma emit_vmload:
  assumes r: "xrel c ly ms xs" "lay_ok ly" "qe_zero_base c" "e_vmem me = 0" and ok: "mct_ok (VMLoad sz sg d p)"
    and ex: "mexec_inst me (VMLoad sz sg d p) ms = Some q"
  shows "\<exists>is ms' xs'. Emit_vmload c sz sg d p = Inr is \<and> q = MNext ms' \<and> xexec e is xs = Some (XNext xs') \<and> xrel c ly ms' xs'"
proof -
  note m = mct_VMLoad [OF ok]
  obtain pr where d: "d = VPReg T_I32 pr" "mreg pr" using mdst_cases [OF m(2)] by blast
  obtain a v where a: "meval ms p = Some a" "vm_load sz sg (m_mem ms) (ucast a) = Some v"
    "q = MNext (ms\<lparr>m_pr := (m_pr ms)(pr := v)\<rparr>)"
    using ex by (auto simp: d(1) r(4) bind_eq_Some_conv)
  obtain x where x: "make_vmem c p = Inr x" "ea xs x = ucast a" by (rule make_vmem_ea [OF r(1,3) m(3) a(1)])
  have g: "guest_in (m_mem ms) (xs_m xs)" using r(1) by (simp add: xrel_def mem_ok_def)
  note st = xrel_set_reg [OF r(1) d(2)]
  have "\<exists>is w. Emit_vmload c sz sg d p = Inr is \<and> xexec e is xs = Some (XNext (set_reg xs pr (take_bit 32 w))) \<and> ucast w = v"
    using m(1) a(2) x guest_loads [OF g, of a]
    by (cases sz; cases sg)
      (auto simp: Emit_vmload_def d make_gpr_opr_def make_gpr_def vm_load_def opr_type_def sign_ext_def low32_ext)
  with st a(3) show ?thesis by (metis ucast_take32)
qed

lemma emit_vmstore:
  assumes r: "xrel c ly ms xs" "lay_ok ly" "qe_zero_base c" "e_vmem me = 0" and ok: "mct_ok (VMStore sz sg p d)"
    and ex: "mexec_inst me (VMStore sz sg p d) ms = Some q"
  shows "\<exists>is ms' xs'. Emit_vmstore c sz sg p d = Inr is \<and> q = MNext ms' \<and> xexec e is xs = Some (XNext xs') \<and> xrel c ly ms' xs'"
proof -
  note m = mct_VMStore [OF ok]
  obtain a v g' where a: "meval ms p = Some a" "meval ms d = Some v" "vm_store sz (m_mem ms) (ucast a) v = Some g'"
    "q = MNext (ms\<lparr>m_mem := g'\<rparr>)"
    using ex by (auto simp: r(4) bind_eq_Some_conv)
  obtain x where x: "make_vmem c p = Inr x" "ea xs x = ucast a" by (rule make_vmem_ea [OF r(1,3) m(3) a(1)])
  obtain y s where y: "make_operand c d = Inr y" "make_size sz = Inr s" "xread xs s y = Some (ucast (tval sz v))"
    by (rule make_operand_read [OF r(1,2) m(4) a(2)])
  have "mem_ok ly (ms\<lparr>m_mem := g'\<rparr>) (xstore s (xs_m xs) (ucast a) (ucast (tval sz v)))"
    by (rule mem_ok_guest_store [OF r(2) _ a(3) y(2)]) (use r(1) in \<open>simp_all add: xrel_def\<close>)
  from xrel_mem [OF r(1) this] show ?thesis
    using x y m(2) a(4) by (simp add: Emit_vmstore_def)
qed

subsection \<open>Helper calls\<close>

lemma trap_of_num [simp]: "trap_of (trap_num t) = t"
  by (cases t) (simp_all add: trap_of_def)

lemma of_nat_pred8: "r \<noteq> 0 \<Longrightarrow> of_nat (unat r - 1) = gvr r"
proof -
  assume "r \<noteq> 0"
  have "unat r < 256" using unsigned_less [of r, where 'a = nat] by simp
  then have "unat r - 1 < 2 ^ LENGTH(16)" by simp
  then have "unat (of_nat (unat r - 1) :: regn) = unat r - 1" by (simp only: unat_of_nat mod_less)
  with unat_gvr [OF \<open>r \<noteq> 0\<close>] show "of_nat (unat r - 1) = gvr r" by (simp only: word_unat_eq_iff)
qed

lemma up8: "4 * ucast (r :: u8) = (of_nat (4 * unat r) :: u64)"
proof -
  have "unat (ucast r :: u64) = unat r"
    using unsigned_less [of r, where 'a = nat] by (simp add: unsigned_ucast_eq take_bit_nat_eq_self)
  then have "ucast r = (of_nat (unat r) :: u64)" by (metis of_nat_unat ucast_id)
  then show ?thesis by simp
qed

lemma read_cpu_of:
  assumes "mem_ok ly ms m"
  shows "read_cpu m (ly_state ly) = cpu_of (as_q ms)"
proof -
  have c: "cpu_in ly (ms_word ms) m" using assms by (simp add: mem_ok_def)
  have 1: "unaligned_load32 m (ly_state ly + 4 * ucast r) = (if r = 0 then 0 else m_gs ms (gvr r))" if "r < 32" for r :: u8
  proof -
    have "unat r < 32" using that by (simp add: word_less_nat_alt)
    then show ?thesis
      using cpu_in_load [OF c, of "unat r"] of_nat_pred8 [of r] by (simp only: up8) (auto simp: ms_word_def unat_eq_0)
  qed
  moreover have "unaligned_load32 m (ly_state ly + 128) = m_gs ms 31" "unaligned_load32 m (ly_state ly + 132) = trap_num (m_trap ms)"
    using cpu_in_load [OF c, of 32] cpu_in_load [OF c, of 33] by (simp_all add: ms_word_def)
  ultimately show ?thesis
    using 1 [of 0] unfolding read_cpu_def cpu_of_def as_q_def by (auto simp: not_le fun_eq_iff)
qed

text \<open>The stubs that translated code calls do not look at memory and do not change it, nor the registers of the guest.\<close>

lemma stub_effect:
  assumes "stub_op sid = Some op"
  obtains s' gip' where "gpr s' = gpr s" "\<And>m. qcgstub_rv32 op vmem s m raw = Next s' gip' m"
  | s' where "gpr s' = gpr s" "\<And>m. qcgstub_rv32 op vmem s m raw = Trapped s' m"
proof -
  have "op \<in> {I_fence, I_fencei, I_ecall, I_ebreak}" using assms by (cases sid) (simp_all add: stub_op_def)
  then show thesis
    using that(1) [of "s\<lparr>ip := ip s + 4\<rparr>" "ip s + 4"] that(2) [of "s\<lparr>trapno := TC_ECALL\<rparr>"] that(2) [of "s\<lparr>trapno := TC_EBREAK\<rparr>"]
    by (auto simp: qcgstub_rv32_def H_handler_def RAISE_TRAP_def Let_def)
qed

lemma in_stk_below:
  assumes "lay_ok ly" "0 < body_sp c ly - q" "body_sp c ly - q \<le> ly_stack ly"
  shows "in_stk ly q"
proof -
  have so: "spillframe_sp_offs c = 8 \<or> spillframe_sp_offs c = 16" by (simp add: spillframe_sp_offs_def)
  define d where "d = body_sp c ly - q"
  have k: "unat (ly_stack ly) < 2 ^ 63" using assms(1) by (simp add: lay_ok_def word_less_nat_alt)
  have d: "0 < unat d" "unat d \<le> unat (ly_stack ly)" using assms(2,3) by (simp_all add: d_def word_less_nat_alt word_le_nat_alt)
  have "entry_sp ly - q = d \<or> entry_sp ly - q = d + 8"
    using so by (auto simp: entry_sp_def d_def body_sp_def)
  moreover have "unat (d + 8) = unat d + 8" "unat (ly_stack ly + 8) = unat (ly_stack ly) + 8"
    using small_add [of d 8] small_add [of "ly_stack ly" 8] d k by simp_all
  ultimately show ?thesis using d by (auto simp: in_stk_def word_less_nat_alt word_le_nat_alt)
qed

text \<open>The environment of a call in the two machines.\<close>

definition env_rel :: "xlay \<Rightarrow> menv \<Rightarrow> xenv \<Rightarrow> bool" where
  "env_rel ly me e \<longleftrightarrow> call_env me \<and> (\<forall>p. e_clob me p = ucast (xe_clob e p)) \<and> e_vmem me = 0 \<and> xe_vmem e = 0 \<and>
     xe_stack e = ly_stack ly"

lemma mem_ok_stub:
  assumes lay: "lay_ok ly" and ok: "mem_ok ly ms m" and g: "gpr s' 0 = 0"
    and out: "\<And>q. \<not> in_stk ly q \<Longrightarrow> m' q = write_cpu m (ly_state ly) s' q"
  shows "mem_ok ly (after_call sv cl ms s' (m_mem ms)) m'"
proof -
  let ?ms = "after_call sv cl ms s' (m_mem ms)"
  note D = lay_okD [OF lay]
  have w: "ms_word ?ms k = cpu_word s' k" if k: "k < 34" for k
  proof -
    have "k = 0 \<or> k = Suc (k - 1) \<and> k - 1 < 31 \<or> k = 32 \<or> k = 33" using k by arith
    then consider "k = 0" | i where "k = Suc i" "i < 31" | "k = 32" | "k = 33" by blast
    then show ?thesis
    proof cases
      case (2 i)
      have "(of_nat i :: regn) < 31" using 2 by (simp add: word_less_nat_alt unat_of_nat take_bit_nat_eq_self)
      moreover have "ucast (of_nat i :: regn) = (of_nat i :: u8)" using 2 by (simp add: unsigned_of_nat take_bit_nat_eq_self)
      ultimately show ?thesis
        using 2 by (simp add: ms_word_def cpu_word_def after_call_def put_cpu_def Let_def add.commute)
    qed (simp_all add: ms_word_def cpu_word_def after_call_def put_cpu_def Let_def g)
  qed
  have o: "m' q = m q" if "\<not> in_stk ly q" "\<not> in_cpu ly q" for q using out that by (simp add: write_cpu_def in_cpu_def)
  have "cpu_in ly (ms_word ?ms) m'"
    unfolding cpu_in_def
  proof (intro allI impI)
    fix x :: uptr assume x: "x < sizeof_cpu_words"
    then have "in_cpu ly (ly_state ly + x)" by (simp add: in_cpu_def)
    then have "m' (ly_state ly + x) = word_bytes (cpu_word s') x" using D(1) out x by (simp add: write_cpu_def)
    also have "\<dots> = word_bytes (ms_word ?ms) x" by (rule word_bytes_cong [OF x]) (simp add: w)
    finally show "m' (ly_state ly + x) = word_bytes (ms_word ?ms) x" .
  qed
  moreover have "m_frame ?ms = m_frame ms" "m_mem ?ms = m_mem ms" by (simp_all add: after_call_def put_cpu_def Let_def)
  moreover have "frame_in ly (m_frame ms) m'" by (rule frame_in_cong [of ly _ m]) (use ok o D(2) in \<open>simp_all add: mem_ok_def\<close>)
  moreover have "guest_in (m_mem ms) m'" by (rule guest_in_cong [of _ m]) (use ok o D(3) in \<open>simp_all add: mem_ok_def\<close>)
  moreover have "host_in ly m'" by (rule host_in_cong [of _ m]) (use ok o in \<open>simp_all add: mem_ok_def\<close>)
  ultimately show ?thesis by (simp add: mem_ok_def)
qed

lemma saved_regs: "\<not> rm_Test GPR_CALL_CLOBBER STATE" "\<not> rm_Test GPR_CALL_CLOBBER SP"
  "rm_Test GPR_CALL_CLOBBER RDI" "rm_Test GPR_CALL_CLOBBER RSI" "RDI \<noteq> SP" "RSI \<noteq> SP" "RDI \<noteq> STATE" "RSI \<noteq> STATE" "RSI \<noteq> RDI"
  by (simp_all add: rm_Test_CLOBBER reg_defs)

lemma after_stub_rel:
  assumes r: "xrel c ly ms xs" "lay_ok ly" "env_rel ly me e" and g: "gpr s' 0 = 0"
    and x: "\<And>p. \<not> rm_Test GPR_CALL_CLOBBER p \<Longrightarrow> xs_r xs1 p = xs_r xs p" "xs_m xs1 = xs_m xs"
  shows "xrel c ly (after_call (e_saved me) (e_clob me) ms s' (m_mem ms)) (after_stub e xs1 (write_cpu (xs_m xs1) (ly_state ly) s'))"
proof -
  have ok: "mem_ok ly ms (xs_m xs)" using r(1) by (simp add: xrel_def)
  have sp: "xs_r xs1 RSP = body_sp c ly" using x(1) [OF saved_regs(2)] r(1) by (simp add: xrel_def SP_def)
  have "mem_ok ly (after_call (e_saved me) (e_clob me) ms s' (m_mem ms)) (call_mem e (xs_r xs1 RSP) (write_cpu (xs_m xs1) (ly_state ly) s'))"
    unfolding x(2) sp
  proof (rule mem_ok_stub [OF r(2) ok g])
    fix q assume "\<not> in_stk ly q"
    then show "call_mem e (body_sp c ly) (write_cpu (xs_m xs) (ly_state ly) s') q = write_cpu (xs_m xs) (ly_state ly) s' q"
      using in_stk_below [OF r(2), of c q] r(3) by (auto simp: call_mem_def env_rel_def)
  qed
  then show ?thesis
    using r(1,3) x(1) x(1) [OF saved_regs(1)] x(1) [OF saved_regs(2)] saved_regs(1,2)
    by (auto simp: xrel_def after_stub_def call_regs_def regs_rel_def after_call_def env_rel_def call_env_def Let_def)
qed

lemma call_aligned:
  assumes "lay_ok ly"
  shows "(ly_frame ly - 16) AND 15 = 0"
proof -
  have t: "uint (x AND 15) = uint x mod 16" for x :: u64
    using take_bit_eq_mask [of 4 "uint x"] by (simp add: uint_and mask_eq_exp_minus_1 take_bit_eq_mod)
  have "uint (ly_frame ly - 16) mod 16 = (uint (ly_frame ly) - 16) mod 2 ^ 64 mod 16" by (simp add: uint_word_ariths)
  also have "\<dots> = uint (ly_frame ly) mod 16" by (subst mod_mod_cancel) simp_all
  also have "\<dots> = 0" using assms t [of "ly_frame ly"] by (simp add: lay_ok_def)
  finally show ?thesis using t [of "ly_frame ly - 16"] by (metis uint_0_iff)
qed

lemma emit_hcall:
  assumes r: "xrel c ly ms xs" "lay_ok ly" "env_rel ly me e" and ok: "mct_ok (Hcall sid a)"
    and ex: "mexec_inst me (Hcall sid a) ms = Some q" and leaf: "\<not> qe_leaf c"
  shows "\<exists>is. Emit_hcall c sid a = Inr is \<and>
    ((\<exists>ms' xs'. q = MNext ms' \<and> xexec e is xs = Some (XNext xs') \<and> xrel c ly ms' xs') \<or>
     (\<exists>ms' xs'. q = MTrap ms' \<and> xexec e is xs = Some (XLeave (XE_trap xs')) \<and> xrel c ly ms' xs'))"
proof -
  obtain t raw where a: "a = VConst t raw" using ok by (cases a) (auto simp: mct_ok_def is_const_def)
  obtain op where op: "stub_op sid = Some op" using ex by (auto simp: bind_eq_Some_conv)
  have nb: "sid \<noteq> Id_brind" using op by (auto simp: stub_op_def)
  define xs1 where "xs1 = set_reg (set_reg xs RDI (ly_state ly)) RSI (ucast raw)"
  define is0 where "is0 = [X_mov (XReg S64 RDI) (XReg S64 STATE), X_mov (XReg S64 RSI) (XImm (ucast raw)), X_call sid]"
  have run: "xexec e is0 xs =
      (case xcall e sid xs1 of Some (XNext z) \<Rightarrow> Some (XNext z) | y \<Rightarrow> y)"
    using r(1) by (auto simp: is0_def xs1_def xrel_def take_bit_word_eq_self split: option.splits xout.splits)
  have x1: "\<And>p. \<not> rm_Test GPR_CALL_CLOBBER p \<Longrightarrow> xs_r xs1 p = xs_r xs p" "xs_m xs1 = xs_m xs"
    using saved_regs(3,4) by (auto simp: xs1_def set_reg_def)
  have x2: "xs_r xs1 RDI = ly_state ly" "ucast (xs_r xs1 RSI) = raw" using saved_regs(9) by (auto simp: xs1_def set_reg_def)
  have cpu: "read_cpu (xs_m xs1) (ly_state ly) = cpu_of (as_q ms)" unfolding x1(2) by (rule read_cpu_of) (use r(1) in \<open>simp add: xrel_def\<close>)
  have al: "xs_r xs1 RSP AND 15 = 0"
    using call_aligned [OF r(2)] x1(1) [OF saved_regs(2)] r(1) leaf by (simp add: xrel_def body_sp_def spillframe_sp_offs_def SP_def)
  have vm: "e_vmem me = 0" "xe_vmem e = 0" using r(3) by (simp_all add: env_rel_def)
  have g: "gpr (cpu_of (as_q ms)) 0 = 0" by (simp add: cpu_of_def)
  have em: "Emit_hcall c sid a = Inr is0"
    using leaf by (simp add: is0_def Emit_hcall_def a make_operand_def make_imm_def)
  note rel = after_stub_rel [OF r _ x1]
  consider s' gip' where "gpr s' = gpr (cpu_of (as_q ms))" "\<And>m. qcgstub_rv32 op 0 (cpu_of (as_q ms)) m raw = Next s' gip' m"
    | s' where "gpr s' = gpr (cpu_of (as_q ms))" "\<And>m. qcgstub_rv32 op 0 (cpu_of (as_q ms)) m raw = Trapped s' m"
    using stub_effect [OF op, of "cpu_of (as_q ms)" 0 raw] by blast
  then show ?thesis
  proof cases
    case (1 s' gip')
    then have "xcall e sid xs1 = Some (XNext (after_stub e xs1 (write_cpu (xs_m xs1) (ly_state ly) s')))"
      using nb al by (simp add: op vm xcall_def x2 cpu)
    moreover have "q = MNext (after_call (e_saved me) (e_clob me) ms s' (m_mem ms))" using ex 1 by (simp add: a op vm)
    ultimately show ?thesis using em run rel [of s'] 1(1) g by (intro exI conjI disjI1) simp_all
  next
    case (2 s')
    then have "xcall e sid xs1 = Some (XLeave (XE_trap (after_stub e xs1 (write_cpu (xs_m xs1) (ly_state ly) s'))))"
      using nb al by (simp add: op vm xcall_def x2 cpu)
    moreover have "q = MTrap (after_call (e_saved me) (e_clob me) ms s' (m_mem ms))" using ex 2 by (simp add: a op vm)
    ultimately show ?thesis using em run rel [of s'] 2(1) g by (intro exI conjI disjI2) simp_all
  qed
qed

end
