(* ===== verification/Emit_Exit.thy ===== *)
theory Emit_Exit
  imports Emit_Correct
begin

section \<open>Correctness of emission: branches and exits\<close>

text \<open>
  The instructions that end a block. A branch out of the region goes through a branch slot; an
  indirect one looks its target up in \<open>l1_brind_cache\<close> and calls \<open>qcgstub_brind\<close> on a miss.
\<close>

subsection \<open>Leaving the region\<close>

definition left_rel :: "xlay \<Rightarrow> mstate \<Rightarrow> xstate \<Rightarrow> bool" where
  "left_rel ly ms xs \<longleftrightarrow> xs_r xs STATE = ly_state ly \<and> xs_r xs SP = entry_sp ly \<and> mem_ok ly ms (xs_m xs)"

lemma FrameDestroy_run:
  assumes "xrel c ly ms xs"
  shows "\<exists>xs'. xexec e (FrameDestroy c) xs = Some (XNext xs') \<and> left_rel ly ms xs' \<and> (\<forall>p. p \<noteq> RCX \<and> p \<noteq> RSP \<longrightarrow> xs_r xs' p = xs_r xs p) \<and>
    xs_m xs' = xs_m xs"
  using assms
  by (auto simp: FrameDestroy_def left_rel_def xrel_def body_sp_def spillframe_sp_offs_def entry_sp_def set_reg_def reg_defs)

lemma emit_gbr:
  assumes r: "xrel c ly ms xs" and ex: "mexec_inst me (GBr t) ms = Some q" and ok: "mct_ok (GBr t)"
  shows "\<exists>is g xs'. Emit_gbr_code c t = Inr is \<and> q = MExit g ms \<and>
    xexec e is xs = Some (XLeave (XE_slot g (\<not> InSegment (qe_segment c) g) xs')) \<and> left_rel ly ms xs'"
proof -
  obtain ty g where t: "t = VConst ty g" using ok by (cases t) (auto simp: mct_ok_def is_const_def)
  obtain xs' where "xexec e (FrameDestroy c) xs = Some (XNext xs')" "left_rel ly ms xs'" using FrameDestroy_run [OF r] by blast
  then show ?thesis using ex by (auto simp: t Emit_gbr_code_def xexec_append)
qed

text \<open>The entry of \<open>l1_brind_cache\<close> for an address, in memory.\<close>

definition brind_entry :: "qemit \<Rightarrow> u32 \<Rightarrow> uptr" where
  "brind_entry c g = qe_brind_cache c + ucast (brind_offset g)"

definition brind_tag :: "qemit \<Rightarrow> mem \<Rightarrow> u32 \<Rightarrow> u32" where
  "brind_tag c m g = unaligned_load32 m (brind_entry c g)"

definition brind_code :: "qemit \<Rightarrow> mem \<Rightarrow> u32 \<Rightarrow> uptr" where
  "brind_code c m g = unaligned_load64 m (brind_entry c g + offs_brind_code)"

definition brind_lookup :: "qemit \<Rightarrow> xinst list" where
  "brind_lookup c =
     [X_mov (XReg S64 RDX) (XImm (qe_brind_cache c)), X_lea RDI (XMem No_base (Some (RSI, 2)) 0),
      X_op kIdAnd (XReg S32 RDI) (XImm brind_mask), X_cmp (XM S32 (XMem (Base64 RDX) (Some (RDI, 0)) 0)) (XReg S32 RSI)]"

lemma brind_regs: "RDX \<noteq> RDI" "RDX \<noteq> RSI" "RDI \<noteq> RSI" "RDX \<noteq> STATE" "RDX \<noteq> SP" "RDX \<noteq> RCX" "RDI \<noteq> RCX" "RDX \<noteq> RSP" "RDI \<noteq> RSP" "RSI \<noteq> RSP" "RSI \<noteq> RCX"
  by (simp_all add: reg_defs)

lemma brind_off: "ucast (ucast (take_bit 32 (push_bit 2 w) :: u64) AND ucast (take_bit 32 brind_mask) :: u32) = (ucast (brind_offset (ucast w)) :: u64)"
proof -
  have "ucast (take_bit 32 (push_bit 2 w) :: u64) = (push_bit 2 (ucast w) :: u32)" by (rule bit_word_eqI) (auto simp: bit_simps)
  moreover have "ucast (take_bit 32 brind_mask) = (ucast brind_mask :: u32)" by (simp add: ucast_take32)
  ultimately show ?thesis by (simp only: brind_offset_def brind_mask_def)
qed

lemma brind_lookup_run:
  assumes g: "ucast (xs_r xs RSI) = g"
  shows "\<exists>xs'. xexec e (brind_lookup c) xs = Some (XNext xs') \<and> xs_f xs' = Some (cmp_flags (brind_tag c (xs_m xs) g) g) \<and>
    xs_m xs' = xs_m xs \<and> xs_r xs' = (xs_r xs)(RDX := qe_brind_cache c, RDI := ucast (brind_offset g))"
  using g brind_off [of "xs_r xs RSI"]
  by (simp add: brind_lookup_def set_reg_def brind_regs brind_regs [symmetric] ea_def count_ok_def is_shift_def brind_tag_def brind_entry_def
      ucast_take32 take32_ucast take_bit_word_eq_self)

lemma xrel_scratch:
  assumes "xrel c ly ms xs" "xs_r xs' STATE = xs_r xs STATE" "xs_r xs' SP = xs_r xs SP" "mem_ok ly ms (xs_m xs')"
  shows "xrel c ly (ms\<lparr>m_pr := (\<lambda>p. ucast (xs_r xs' p))\<rparr>) xs'"
proof -
  have "ms_word (ms\<lparr>m_pr := f\<rparr>) = ms_word ms" for f by (simp add: ms_word_def fun_eq_iff)
  then show ?thesis using assms by (simp add: xrel_def regs_rel_def mem_ok_def)
qed

text \<open>The inlined lookup: a jump on a hit, else to the slow path.\<close>

lemma brind_fast_run:
  assumes r: "xrel c ly ms xs" and g: "ucast (xs_r xs RSI) = g"
  shows "if brind_tag c (xs_m xs) g = g
    then \<exists>xs'. xexec e (brind_lookup c @ X_jcc kNotEqual l # FrameDestroy c @ [X_jmp_mem (XMem (Base64 RDX) (Some (RDI, 0)) offs_brind_code)]) xs =
      Some (XLeave (XE_jmp (brind_code c (xs_m xs) g) xs')) \<and> left_rel ly ms xs' \<and> xs_m xs' = xs_m xs
    else \<exists>xs' pr. xexec e (brind_lookup c @ X_jcc kNotEqual l # FrameDestroy c @ [X_jmp_mem (XMem (Base64 RDX) (Some (RDI, 0)) offs_brind_code)]) xs =
      Some (XGoto l xs') \<and> xrel c ly (ms\<lparr>m_pr := pr\<rparr>) xs' \<and> ucast (xs_r xs' RSI) = g"
proof -
  obtain xs1 where 1: "xexec e (brind_lookup c) xs = Some (XNext xs1)" "xs_f xs1 = Some (cmp_flags (brind_tag c (xs_m xs) g) g)"
    "xs_m xs1 = xs_m xs" "xs_r xs1 = (xs_r xs)(RDX := qe_brind_cache c, RDI := ucast (brind_offset g))"
    using brind_lookup_run [OF g] by blast
  have zf: "f_zf (cmp_flags a b) \<longleftrightarrow> a = b" for a b by (simp add: cmp_flags_def Let_def)
  have r1: "xrel c ly (ms\<lparr>m_pr := (\<lambda>p. ucast (xs_r xs1 p))\<rparr>) xs1"
    by (rule xrel_scratch [OF r]) (use r in \<open>auto simp: 1 reg_defs xrel_def\<close>)
  obtain xs2 where 2: "xexec e (FrameDestroy c) xs1 = Some (XNext xs2)" "left_rel ly (ms\<lparr>m_pr := (\<lambda>p. ucast (xs_r xs1 p))\<rparr>) xs2"
    "\<forall>p. p \<noteq> RCX \<and> p \<noteq> RSP \<longrightarrow> xs_r xs2 p = xs_r xs1 p" "xs_m xs2 = xs_m xs1" using FrameDestroy_run [OF r1] by blast
  have "left_rel ly ms xs2" using 2(2) r by (simp add: left_rel_def xrel_def 2(4) 1(3))
  moreover have "ea xs2 (XMem (Base64 RDX) (Some (RDI, 0)) offs_brind_code) = brind_entry c g + offs_brind_code"
    using 2(3) by (simp add: ea_def brind_regs brind_regs [symmetric] 1(4) brind_entry_def)
  ultimately show ?thesis
    using 1 2(1,4) r1 zf g by (auto simp: xexec_append brind_code_def brind_regs brind_regs [symmetric])
qed

definition brind_slow :: "qemit \<Rightarrow> xinst list" where
  "brind_slow c =
     [X_mov (XReg S64 RDI) (XReg S64 STATE)] @ (if qe_leaf c then [X_push RCX] else []) @ [X_call Id_brind] @
     (if qe_leaf c then [X_pop RCX] else FrameDestroy c) @ [X_jmp_reg RAX]"

lemma Emit_gbrind_eq:
  "Emit_gbrind c (VPReg T_I32 RSI) nl =
     Inr ((brind_lookup c @ X_jcc kNotEqual nl # FrameDestroy c @ [X_jmp_mem (XMem (Base64 RDX) (Some (RDI, 0)) offs_brind_code)]) @
       X_bind nl # brind_slow c, Suc nl)"
  by (simp add: Emit_gbrind_def make_gpr_opr_def make_gpr_def brind_lookup_def brind_slow_def Let_def)

text \<open>
  What is assumed of \<open>qcgstub_brind\<close> on this level: it sets \<open>ip\<close>, and otherwise leaves the guest CPU
  state and guest memory alone.
\<close>

definition brind_keeps :: "xlay \<Rightarrow> xenv \<Rightarrow> bool" where
  "brind_keeps ly e \<longleftrightarrow>
     (\<forall>xs q. xs_r xs RDI = ly_state ly \<longrightarrow> in_cpu ly q \<or> in_guest q \<longrightarrow>
        snd (xe_brind e xs) q = unaligned_store32 (xs_m xs) (ly_state ly + 128) (ucast (xs_r xs RSI)) q)"

definition jumped_rel :: "xlay \<Rightarrow> mstate \<Rightarrow> u32 \<Rightarrow> xstate \<Rightarrow> bool" where
  "jumped_rel ly ms g xs \<longleftrightarrow> xs_r xs STATE = ly_state ly \<and> xs_r xs SP = entry_sp ly \<and>
     cpu_in ly (ms_word (ms\<lparr>m_gs := (m_gs ms)(31 := g)\<rparr>)) (xs_m xs) \<and> guest_in (m_mem ms) (xs_m xs)"

lemma mem_ok_stack:
  assumes lay: "lay_ok ly" and ok: "mem_ok ly ms m" and o: "\<And>q. \<not> in_stk ly q \<Longrightarrow> m' q = m q"
  shows "mem_ok ly ms m'"
proof -
  note D = lay_okD [OF lay]
  have "cpu_in ly (ms_word ms) m'" by (rule cpu_in_cong [of ly _ m]) (use ok o D(1) in \<open>simp_all add: mem_ok_def\<close>)
  moreover have "frame_in ly (m_frame ms) m'" by (rule frame_in_cong [of ly _ m]) (use ok o D(2) in \<open>simp_all add: mem_ok_def\<close>)
  moreover have "guest_in (m_mem ms) m'" by (rule guest_in_cong [of _ m]) (use ok o D(3) in \<open>simp_all add: mem_ok_def\<close>)
  moreover have "host_in ly m'" by (rule host_in_cong [of _ m]) (use ok o in \<open>simp_all add: mem_ok_def\<close>)
  ultimately show ?thesis by (simp add: mem_ok_def)
qed

lemma push_mem_ok:
  assumes "lay_ok ly" "mem_ok ly ms m"
  shows "mem_ok ly ms (unaligned_store64 m (ly_frame ly - 16) v)"
proof -
  have "in_stk ly q" if "q - (ly_frame ly - 16) < 8" for q
  proof -
    define d where "d = q - (ly_frame ly - 16)"
    have d: "unat d < 8" using that by (simp add: d_def word_less_nat_alt)
    then have "unat (8 - d) = 8 - unat d" by (simp add: unat_sub word_le_nat_alt)
    moreover have "entry_sp ly - q = 8 - d" by (simp add: entry_sp_def d_def)
    moreover have "unat (ly_stack ly) < 2 ^ 63" using assms(1) by (simp add: lay_ok_def word_less_nat_alt)
    moreover have "unat (ly_stack ly + 8) = unat (ly_stack ly) + 8" using small_add [of "ly_stack ly" 8] calculation by simp
    ultimately show ?thesis using d by (simp add: in_stk_def word_less_nat_alt word_le_nat_alt)
  qed
  then have o: "unaligned_store64 m (ly_frame ly - 16) v q = m q" if "\<not> in_stk ly q" for q
    using that by (blast intro: store64_frame)
  then show ?thesis by (rule mem_ok_stack [OF assms])
qed

lemma brind_slow_run:
  assumes r: "xrel c ly ms xs" "lay_ok ly" "env_rel ly me e" "brind_keeps ly e" and g: "ucast (xs_r xs RSI) = g"
  shows "\<exists>xs0 xs'. xexec e (brind_slow c) xs = Some (XLeave (XE_jmp (fst (xe_brind e xs0)) xs')) \<and>
    xs_r xs0 RDI = ly_state ly \<and> ucast (xs_r xs0 RSI) = g \<and> mem_ok ly ms (xs_m xs0) \<and> jumped_rel ly ms g xs'"
proof -
  define xs1 where "xs1 = set_reg xs RDI (ly_state ly)"
  define xs0 where "xs0 = (if qe_leaf c then set_reg (xs1\<lparr>xs_m := unaligned_store64 (xs_m xs1) (ly_frame ly - 16) (xs_r xs1 RCX)\<rparr>) RSP (ly_frame ly - 16) else xs1)"
  have sp: "xs_r xs RSP = ly_frame ly - (if qe_leaf c then 8 else 16)" "xs_r xs STATE = ly_state ly" and ok: "mem_ok ly ms (xs_m xs)"
    using r(1) by (auto simp: xrel_def SP_def body_sp_def spillframe_sp_offs_def)
  have x0: "xs_r xs0 RDI = ly_state ly" "ucast (xs_r xs0 RSI) = g" "xs_r xs0 RSP = ly_frame ly - 16" "xs_r xs0 STATE = ly_state ly"
    "mem_ok ly ms (xs_m xs0)"
    using g sp push_mem_ok [OF r(2) ok] ok by (auto simp: xs0_def xs1_def set_reg_def reg_defs)
  obtain p m where pm: "xe_brind e xs0 = (p, m)" by fastforce
  define xs2 where "xs2 = set_reg (after_stub e xs0 m) RAX p"
  define xs3 where "xs3 = set_reg (set_reg xs2 RSP (ly_frame ly - 8)) RCX (unaligned_load64 (xs_m xs2) (ly_frame ly - 16))"
  have call: "xcall e Id_brind xs0 = Some (XNext xs2)"
    using call_aligned [OF r(2)] by (simp add: xcall_def x0 pm xs2_def)
  have sp2: "xs_r xs2 RSP = ly_frame ly - 16" using x0(3) saved_regs(2) by (simp add: xs2_def set_reg_def after_stub_def call_regs_def SP_def reg_defs)
  have pop: "xstep e (X_pop RCX) xs2 = Some (XNext xs3)" by (simp add: sp2 xs3_def Let_def)
  have 1: "xstep e (X_mov (XReg S64 RDI) (XReg S64 STATE)) xs = Some (XNext xs1)" using sp(2) by (simp add: xs1_def take_bit_word_eq_self)
  have 2: "xstep e (X_push RCX) xs1 = Some (XNext xs0)" if "qe_leaf c"
    using that sp(1) by (simp add: xs0_def xs1_def set_reg_def reg_defs Let_def)
  have 3: "xstep e (X_call Id_brind) xs0 = Some (XNext xs2)" "xstep e (X_jmp_reg RAX) xs3 = Some (XLeave (XE_jmp p xs3))"
    using call by (simp_all add: xs3_def xs2_def set_reg_def reg_defs)
  have 4: "xs0 = xs1" if "\<not> qe_leaf c" using that by (simp add: xs0_def)
  have "xexec e (brind_slow c) xs = Some (XLeave (XE_jmp p xs3))"
    using 1 2 3 4 pop by (cases "qe_leaf c") (simp_all add: brind_slow_def FrameDestroy_def del: xstep.simps)
  moreover have "jumped_rel ly ms g xs3"
  proof -
    let ?ms = "ms\<lparr>m_gs := (m_gs ms)(31 := g)\<rparr>"
    let ?m = "unaligned_store32 (xs_m xs0) (ly_state ly + 128) g"
    have st: "mem_ok ly ?ms ?m" using mem_ok_set_gs(2) [OF r(2) x0(5), of 128 31 g] by simp
    have "\<not> in_stk ly q \<Longrightarrow> xs_m xs3 q = m q" for q
      using in_stk_below [OF r(2), of "c\<lparr>qe_leaf := False\<rparr>" q] r(3) x0(3)
      by (auto simp: xs3_def xs2_def set_reg_def after_stub_def call_mem_def env_rel_def body_sp_def spillframe_sp_offs_def)
    moreover have "in_cpu ly q \<or> in_guest q \<Longrightarrow> m q = ?m q" for q using r(4) x0(1,2) pm unfolding brind_keeps_def by (metis snd_conv)
    ultimately have q: "in_cpu ly q \<or> in_guest q \<Longrightarrow> xs_m xs3 q = ?m q" for q using lay_okD [OF r(2)] by metis
    have "cpu_in ly (ms_word ?ms) (xs_m xs3)" by (rule cpu_in_cong [of ly _ ?m]) (use st q in \<open>simp_all add: mem_ok_def\<close>)
    moreover have "guest_in (m_mem ms) (xs_m xs3)" by (rule guest_in_cong [of _ ?m]) (use st q in \<open>simp_all add: mem_ok_def\<close>)
    moreover have "xs_r xs3 STATE = ly_state ly" "xs_r xs3 SP = entry_sp ly"
      using x0(4) saved_regs(1) by (simp_all add: xs3_def xs2_def set_reg_def after_stub_def call_regs_def entry_sp_def reg_defs)
    ultimately show ?thesis by (simp add: jumped_rel_def)
  qed
  ultimately show ?thesis using x0 pm by (intro exI [of _ xs0] exI [of _ xs3]) simp
qed

text \<open>How a region may be left for \<open>g\<close>: through a branch slot, to the cached code, or to where the stub says.\<close>

definition exit_ok :: "qemit \<Rightarrow> xenv \<Rightarrow> xlay \<Rightarrow> u32 \<Rightarrow> mstate \<Rightarrow> xexit \<Rightarrow> bool" where
  "exit_ok c e ly g ms x \<longleftrightarrow>
     (case x of
        XE_slot g' cross xs \<Rightarrow> g' = g \<and> cross = (\<not> InSegment (qe_segment c) g) \<and> left_rel ly ms xs
      | XE_jmp p xs \<Rightarrow>
          brind_tag c (xs_m xs) g = g \<and> p = brind_code c (xs_m xs) g \<and> left_rel ly ms xs \<or>
          (\<exists>xs0. xs_r xs0 RDI = ly_state ly \<and> ucast (xs_r xs0 RSI) = g \<and> mem_ok ly ms (xs_m xs0) \<and>
             p = fst (xe_brind e xs0) \<and> jumped_rel ly ms g xs)
      | XE_trap xs \<Rightarrow> False)"

subsection \<open>Instructions\<close>

definition out_ok :: "qemit \<Rightarrow> xenv \<Rightarrow> xlay \<Rightarrow> nat \<Rightarrow> nat list \<Rightarrow> mres \<Rightarrow> xout \<Rightarrow> bool" where
  "out_ok c e ly b succs q out \<longleftrightarrow>
     (case q of
        MNext ms \<Rightarrow> \<exists>xs. out = XNext xs \<and> xrel c ly ms xs
      | MBr k ms \<Rightarrow> k < length succs \<and>
          ((\<exists>xs. out = XGoto (succs ! k) xs \<and> xrel c ly ms xs) \<or> succs ! k = Suc b \<and> (\<exists>xs. out = XNext xs \<and> xrel c ly ms xs))
      | MExit g ms \<Rightarrow> \<exists>x. out = XLeave x \<and> exit_ok c e ly g ms x
      | MTrap ms \<Rightarrow> \<exists>xs. out = XLeave (XE_trap xs) \<and> xrel c ly ms xs)"

definition emit_env :: "qemit \<Rightarrow> xlay \<Rightarrow> menv \<Rightarrow> xenv \<Rightarrow> bool" where
  "emit_env c ly me e \<longleftrightarrow> qe_zero_base c \<and> lay_ok ly \<and> env_rel ly me e \<and> brind_keeps ly e"

lemma emit_envD:
  assumes "emit_env c ly me e"
  shows "qe_zero_base c" "lay_ok ly" "env_rel ly me e" "brind_keeps ly e" "e_vmem me = 0"
  using assms by (simp_all add: emit_env_def env_rel_def)

lemma out_ok_next: "\<exists>is ms' xs'. F = Inr is \<and> q = MNext ms' \<and> xexec e is xs = Some (XNext xs') \<and> xrel c ly ms' xs' \<Longrightarrow> F = Inr is0 \<Longrightarrow>
    \<exists>out. xexec e is0 xs = Some out \<and> out_ok c e ly b succs q out"
  by (auto simp: out_ok_def)

lemma emit_brcc:
  assumes r: "xrel c ly ms xs" "lay_ok ly" and ok: "mct_ok (Brcc cc a b)"
    and ex: "mexec_inst me (Brcc cc a b) ms = Some q" and em: "Emit_brcc c bb succs cc a b = Inr is"
  shows "\<exists>out. xexec e is xs = Some out \<and> out_ok c e ly bb succs q out"
proof -
  note m = mct_Brcc [OF ok]
  obtain x y where xy: "meval ms a = Some x" "meval ms b = Some y" "q = MBr (if cc_holds cc x y then 0 else 1) ms"
    using ex by (auto simp: bind_eq_Some_conv)
  obtain a' b' where ab: "make_operand c a = Inr a'" "make_operand c b = Inr b'"
    "xstep e (X_cmp a' b') xs = Some (XNext (xs\<lparr>xs_f := Some (cmp_flags x y)\<rparr>))" by (rule emit_cmp [OF r m(1,2) xy(1) m(3) xy(2)])
  have s: "0 < length succs" "1 < length succs"
    "is = [X_cmp a' b', X_jcc (make_cc cc) (succs ! 0)] @ (if succs ! 1 \<noteq> Suc bb then [X_jmp (succs ! 1)] else [])"
    using em m(2) ab by (auto simp: Emit_brcc_def succ_at_def split: if_splits)
  then show ?thesis
    using ab(3) r(1) xy(3) by (auto simp: out_ok_def make_cc_holds xrel_flags simp del: xstep.simps(3))
qed

lemma emit_visit_sim:
  assumes r: "xrel c ly ms xs" "emit_env c ly me e" and ok: "mct_ok i" and ex: "mexec_inst me i ms = Some q"
    and em: "emit_visit c b succs i nl = Inr (is, nl')" and i: "\<nexists>a. i = GBrind a"
  shows "\<exists>out. xexec e is xs = Some out \<and> out_ok c e ly b succs q out"
proof -
  note E = emit_envD [OF r(2)]
  show ?thesis
  proof (cases i)
    case (Hcall sid a)
    have "\<not> qe_leaf c" "Emit_hcall c sid a = Inr is" using em by (auto simp: Hcall keep_label_def Emit_hcall_def)
    then show ?thesis using emit_hcall [OF r(1) E(2,3) ok [unfolded Hcall] ex [unfolded Hcall]] by (auto simp: out_ok_def)
  next
    case Br
    then show ?thesis using em ex r(1) by (auto simp: keep_label_def Emit_br_def succ_at_def out_ok_def split: if_splits)
  next
    case (Brcc cc x y)
    then show ?thesis using em emit_brcc [OF r(1) E(2)] ok ex by (auto simp: keep_label_def)
  next
    case (GBr t)
    then show ?thesis using em emit_gbr [OF r(1)] ok ex by (fastforce simp: keep_label_def out_ok_def exit_ok_def)
  next
    case (VMLoad sz sg d p)
    show ?thesis by (rule out_ok_next [OF emit_vmload [OF r(1) E(2,1,5) ok [unfolded VMLoad] ex [unfolded VMLoad]]]) (use em VMLoad in \<open>simp add: keep_label_def\<close>)
  next
    case (VMStore sz sg p d)
    show ?thesis by (rule out_ok_next [OF emit_vmstore [OF r(1) E(2,1,5) ok [unfolded VMStore] ex [unfolded VMStore]]]) (use em VMStore in \<open>simp add: keep_label_def\<close>)
  next
    case (Setcc cc d x y)
    show ?thesis by (rule out_ok_next [OF emit_setcc [OF r(1) E(2) ok [unfolded Setcc] ex [unfolded Setcc]]]) (use em Setcc in \<open>simp add: keep_label_def\<close>)
  next
    case (Mov d s)
    have "mov_ok d s" using ok by (simp add: mct_ok_def Mov)
    then show ?thesis by (rule out_ok_next [OF emit_mov [OF r(1) E(2) _ ex [unfolded Mov]]]) (use em Mov in \<open>simp add: keep_label_def\<close>)
  next
    case (Binop bop d x y)
    show ?thesis by (rule out_ok_next [OF emit_binop [OF r(1) E(2) ok [unfolded Binop] ex [unfolded Binop]]]) (use em Binop in \<open>simp add: keep_label_def\<close>)
  qed (use i in auto)
qed

end
