(* ===== verification/Emit_Region.thy ===== *)
theory Emit_Region
  imports Emit_Exit
begin

section \<open>Correctness of emission: programs\<close>

text \<open>
  From single instructions to the program of a region: straight-line code in its place, labels and
  the jumps between blocks.
\<close>

subsection \<open>Running a program\<close>

definition cont :: "xenv \<Rightarrow> xinst list \<Rightarrow> nat \<Rightarrow> nat \<Rightarrow> xout \<Rightarrow> xrun_res" where
  "cont e P k pc out =
     (case out of
        XNext xs \<Rightarrow> xrun e P k pc xs
      | XGoto l xs \<Rightarrow> (case label_pos P l of None \<Rightarrow> XStuck | Some j \<Rightarrow> xrun e P k j xs)
      | XLeave x \<Rightarrow> XExit x)"

lemma xrun_seg:
  assumes "P = pre @ is @ post" "xexec e is xs = Some out"
  shows "\<exists>n. \<forall>k. xrun e P (n + k) (length pre) xs = cont e P k (length pre + length is) out"
  using assms
proof (induction "is" arbitrary: pre xs)
  case Nil
  then show ?case by (intro exI [of _ 0]) (auto simp: cont_def)
next
  case (Cons i "is")
  have at: "length pre < length P" "P ! length pre = i" using Cons.prems(1) by simp_all
  obtain r where r: "xstep e i xs = Some r" "(case r of XNext xs' \<Rightarrow> xexec e is xs' | _ \<Rightarrow> Some r) = Some out"
    using Cons.prems(2) by (auto simp: bind_eq_Some_conv)
  show ?case
  proof (cases r)
    case (XNext xs')
    obtain n where n: "\<forall>k. xrun e P (n + k) (length (pre @ [i])) xs' = cont e P k (length (pre @ [i]) + length is) out"
      using Cons.IH [of "pre @ [i]" xs'] Cons.prems(1) r(2) XNext by auto
    then show ?thesis using at r(1) XNext by (intro exI [of _ "Suc n"]) simp
  qed (use at r in \<open>auto simp: cont_def intro!: exI [of _ "Suc 0"]\<close>)
qed

lemma label_pos_at:
  assumes "X_bind l \<notin> set pre"
  shows "label_pos (pre @ X_bind l # post) l = Some (length pre)"
  unfolding label_pos_def find_Some_iff
proof (intro exI [of _ "length pre"] conjI allI impI)
  fix j assume j: "j < length pre"
  then have "pre ! j \<noteq> X_bind l" using assms by (metis nth_mem)
  then show "(pre @ X_bind l # post) ! ([0 ..< length (pre @ X_bind l # post)] ! j) \<noteq> X_bind l" using j by (simp add: nth_append del: upt_Suc)
qed (simp_all del: upt_Suc)

text \<open>The machine goes on from another state after \<open>n\<close> steps, or leaves.\<close>

definition xto :: "xenv \<Rightarrow> xinst list \<Rightarrow> nat \<Rightarrow> nat \<Rightarrow> xstate \<Rightarrow> nat \<Rightarrow> xstate \<Rightarrow> bool" where
  "xto e P n pc xs pc' xs' \<longleftrightarrow> (\<forall>k. xrun e P (n + k) pc xs = xrun e P k pc' xs')"

definition xends :: "xenv \<Rightarrow> xinst list \<Rightarrow> nat \<Rightarrow> xstate \<Rightarrow> xexit \<Rightarrow> bool" where
  "xends e P pc xs x \<longleftrightarrow> (\<exists>n. xrun e P n pc xs = XExit x)"

lemma xto_trans: "xto e P n pc xs pc1 xs1 \<Longrightarrow> xto e P m pc1 xs1 pc2 xs2 \<Longrightarrow> xto e P (n + m) pc xs pc2 xs2"
  by (simp add: xto_def add.assoc)

lemma xto_ends: "xto e P n pc xs pc1 xs1 \<Longrightarrow> xends e P pc1 xs1 x \<Longrightarrow> xends e P pc xs x"
  unfolding xto_def xends_def by metis

subsection \<open>Labels\<close>

lemma make_gpr_opr_form: "make_gpr_opr x = Inr r \<Longrightarrow> \<exists>sz p. r = XReg sz p"
  by (cases x) (auto simp: make_gpr_opr_def make_gpr_def)

lemma emit_visit_labels:
  assumes "emit_visit c b succs i nl = Inr (is, nl')"
  shows "nl \<le> nl' \<and> (\<forall>l. X_bind l \<in> set is \<longrightarrow> nl \<le> l \<and> l < nl')"
proof (cases i)
  case (GBrind a)
  then obtain r where "make_gpr_opr a = Inr r" using assms by (auto simp: Emit_gbrind_def)
  then show ?thesis
    using assms GBrind by (cases r) (auto simp: Emit_gbrind_def Let_def FrameDestroy_def split: if_splits)
next
  case (Setcc cc d x y)
  then obtain u v where "make_gpr_opr d = Inr u" "make_gpr_opr x = Inr v" using assms by (auto simp: keep_label_def Emit_setcc_def)
  then show ?thesis
    using assms Setcc make_gpr_opr_form [of d u] make_gpr_opr_form [of x v]
    by (auto simp: keep_label_def Emit_setcc_def Let_def split: if_splits)
next
  case (VMLoad sz sg d p)
  then show ?thesis using assms by (cases sz) (auto simp: keep_label_def Emit_vmload_def split: if_splits)
next
  case (GBr t)
  then show ?thesis using assms by (cases t) (auto simp: keep_label_def Emit_gbr_code_def FrameDestroy_def split: if_splits)
next
  case (Binop bop d x y)
  have "\<forall>l. X_bind l \<notin> set is" if em: "EmitInstBinop c op d x y = Inr is" for op
  proof -
    obtain u v where "make_gpr_opr d = Inr u" "make_gpr_opr x = Inr v" using em by (auto simp: EmitInstBinop_def)
    then show ?thesis
      using em make_gpr_opr_form [of d u] make_gpr_opr_form [of x v] by (auto simp: EmitInstBinop_def split: if_splits)
  qed
  then show ?thesis using assms Binop by (cases bop) (auto simp: keep_label_def EmitShift_def split: if_splits)
qed (use assms in \<open>auto simp: keep_label_def Emit_hcall_def Emit_br_def Emit_brcc_def Emit_vmstore_def Emit_mov_def Let_def
    split: if_splits\<close>)

lemma emit_insts_labels:
  assumes "emit_insts c b succs is nl = Inr (xs, nl')"
  shows "nl \<le> nl' \<and> (\<forall>l. X_bind l \<in> set xs \<longrightarrow> nl \<le> l \<and> l < nl')"
  using assms
proof (induction "is" arbitrary: nl xs)
  case (Cons i "is")
  then show ?case using emit_visit_labels [of c b succs i nl] by (auto; fastforce)
qed simp

text \<open>Where the code of a block stands.\<close>

lemma emit_blocks_split:
  assumes "emit_blocks c bb ks nl = Inr (xs, nl')" "j < length ks"
  shows "\<exists>X code Y nl1 nl2. xs = X @ X_bind (bb + j) # code @ Y \<and>
    emit_insts c (bb + j) (bb_succs (ks ! j)) (bb_ilist (ks ! j)) nl1 = Inr (code, nl2) \<and> nl \<le> nl1 \<and>
    (\<forall>l. X_bind l \<in> set X \<longrightarrow> bb \<le> l \<and> l < bb + j \<or> nl \<le> l \<and> l < nl1) \<and>
    (Suc j < length ks \<longrightarrow> (\<exists>Y'. Y = X_bind (Suc (bb + j)) # Y'))"
  using assms
proof (induction ks arbitrary: bb nl xs j)
  case (Cons k ks)
  obtain code nl1 ys where b: "emit_insts c bb (bb_succs k) (bb_ilist k) nl = Inr (code, nl1)"
    "emit_blocks c (Suc bb) ks nl1 = Inr (ys, nl')" "xs = X_bind bb # code @ ys"
    using Cons.prems(1) by (auto simp: emit_block_def)
  note lab = emit_insts_labels [OF b(1)]
  show ?case
  proof (cases j)
    case 0
    have "\<exists>Y'. ys = X_bind (Suc bb) # Y'" if "0 < length ks" using that b(2) by (cases ks) (auto simp: emit_block_def)
    then show ?thesis using b 0 by (intro exI [of _ "[]"] exI [of _ code] exI [of _ ys] exI [of _ nl] exI [of _ nl1]) auto
  next
    case (Suc j')
    obtain X code' Y nl2 nl3 where i: "ys = X @ X_bind (Suc bb + j') # code' @ Y"
      "emit_insts c (Suc bb + j') (bb_succs (ks ! j')) (bb_ilist (ks ! j')) nl2 = Inr (code', nl3)" "nl1 \<le> nl2"
      "\<forall>l. X_bind l \<in> set X \<longrightarrow> Suc bb \<le> l \<and> l < Suc bb + j' \<or> nl1 \<le> l \<and> l < nl2"
      "Suc j' < length ks \<longrightarrow> (\<exists>Y'. Y = X_bind (Suc (Suc bb + j')) # Y')"
      using Cons.IH [OF b(2), of j'] Cons.prems(2) Suc by auto
    have lb: "\<forall>l. X_bind l \<in> set (X_bind bb # code @ X) \<longrightarrow> bb \<le> l \<and> l < bb + j \<or> nl \<le> l \<and> l < nl2"
      using i(3,4) lab Suc by fastforce
    have e: "bb + j = Suc bb + j'" "(k # ks) ! j = ks ! j'" "Suc j < length (k # ks) \<longleftrightarrow> Suc j' < length ks" using Suc by simp_all
    have "xs = (X_bind bb # code @ X) @ X_bind (Suc bb + j') # code' @ Y" using b(3) i(1) by simp
    moreover have "nl \<le> nl2" using lab i(3) by simp
    ultimately show ?thesis unfolding e using i(2,5) lb [unfolded e] by blast
  qed
qed simp

subsection \<open>Blocks\<close>

text \<open>What the code of a block does, from \<open>pc\<close> on, with the next block at \<open>end\<close>.\<close>

definition run_ok :: "qemit \<Rightarrow> xenv \<Rightarrow> xlay \<Rightarrow> xinst list \<Rightarrow> nat list \<Rightarrow> nat \<Rightarrow> nat \<Rightarrow> nat \<Rightarrow> xstate \<Rightarrow> mres \<Rightarrow> bool" where
  "run_ok c e ly P succs b end pc xs q \<longleftrightarrow>
     (case q of
        MNext ms \<Rightarrow> \<exists>n xs'. xto e P n pc xs end xs' \<and> xrel c ly ms xs'
      | MBr k ms \<Rightarrow> k < length succs \<and>
          (\<forall>t. label_pos P (succs ! k) = Some t \<and> (succs ! k = Suc b \<longrightarrow> t = end) \<longrightarrow>
             (\<exists>n xs'. xto e P n pc xs t xs' \<and> xrel c ly ms xs'))
      | MExit g ms \<Rightarrow> \<exists>x. xends e P pc xs x \<and> exit_ok c e ly g ms x
      | MTrap ms \<Rightarrow> \<exists>xs'. xends e P pc xs (XE_trap xs') \<and> xrel c ly ms xs')"

lemma xrun_seg_xto:
  assumes "P = pre @ is @ post"
  shows "xexec e is xs = Some (XNext xs') \<Longrightarrow> \<exists>n. xto e P n (length pre) xs (length pre + length is) xs'"
    "xexec e is xs = Some (XGoto l xs') \<Longrightarrow> label_pos P l = Some t \<Longrightarrow> \<exists>n. xto e P n (length pre) xs t xs'"
    "xexec e is xs = Some (XLeave x) \<Longrightarrow> xends e P (length pre) xs x"
  using xrun_seg [OF assms, of e xs] by (force simp: xto_def xends_def cont_def)+

lemma run_ok_seg:
  assumes P: "P = pre @ is @ post" and x: "xexec e is xs = Some out" "out_ok c e ly b succs q out"
  shows "run_ok c e ly P succs b (length pre + length is) (length pre) xs q"
proof (cases q)
  case (MNext ms)
  then obtain xs' where "out = XNext xs'" "xrel c ly ms xs'" using x(2) by (auto simp: out_ok_def)
  then show ?thesis using xrun_seg_xto(1) [OF P, of e xs xs'] x(1) by (auto simp: run_ok_def MNext)
next
  case (MBr k ms)
  then have k: "k < length succs" using x(2) by (simp add: out_ok_def)
  have "\<exists>n xs'. xto e P n (length pre) xs t xs' \<and> xrel c ly ms xs'"
    if t: "label_pos P (succs ! k) = Some t" "succs ! k = Suc b \<longrightarrow> t = length pre + length is" for t
  proof -
    consider xs' where "out = XGoto (succs ! k) xs'" "xrel c ly ms xs'" | xs' where "succs ! k = Suc b" "out = XNext xs'" "xrel c ly ms xs'"
      using x(2) MBr by (auto simp: out_ok_def)
    then show ?thesis
    proof cases
      case 1
      then show ?thesis using xrun_seg_xto(2) [OF P _ t(1)] x(1) by blast
    next
      case 2
      then show ?thesis using xrun_seg_xto(1) [OF P] x(1) t(2) by blast
    qed
  qed
  with k show ?thesis by (simp add: run_ok_def MBr)
next
  case (MExit g ms)
  then obtain y where "out = XLeave y" "exit_ok c e ly g ms y" using x(2) by (auto simp: out_ok_def)
  then show ?thesis using xrun_seg_xto(3) [OF P] x(1) MExit by (auto simp: run_ok_def)
next
  case (MTrap ms)
  then obtain xs' where "out = XLeave (XE_trap xs')" "xrel c ly ms xs'" using x(2) by (auto simp: out_ok_def)
  then show ?thesis using xrun_seg_xto(3) [OF P] x(1) MTrap by (auto simp: run_ok_def)
qed

lemma run_ok_gbrind:
  assumes r: "xrel c ly ms xs" "emit_env c ly me e" and ok: "mct_ok (GBrind a)" and ex: "mexec_inst me (GBrind a) ms = Some q"
    and em: "Emit_gbrind c a nl = Inr (is, nl')" and P: "P = pre @ is @ post" and lab: "X_bind nl \<notin> set pre"
  shows "run_ok c e ly P succs b (length pre + length is) (length pre) xs q"
proof -
  note E = emit_envD [OF r(2)]
  have a: "a = VPReg T_I32 RSI" by (rule mct_GBrind [OF ok])
  define g where "g = m_pr ms RSI"
  have q: "q = MExit g ms" using ex by (simp add: a g_def)
  have "mreg RSI" using ok by (auto simp: mct_ok_def a mval_def)
  then have g: "ucast (xs_r xs RSI) = g" using xrel_reg [OF r(1)] by (simp add: g_def)
  let ?fast = "brind_lookup c @ X_jcc kNotEqual nl # FrameDestroy c @ [X_jmp_mem (XMem (Base64 RDX) (Some (RDI, 0)) offs_brind_code)]"
  have is_eq: "is = ?fast @ X_bind nl # brind_slow c" using em by (simp add: a Emit_gbrind_eq)
  have P1: "P = pre @ ?fast @ (X_bind nl # brind_slow c @ post)" using P is_eq by simp
  have "\<exists>x. xends e P (length pre) xs x \<and> exit_ok c e ly g ms x"
  proof (cases "brind_tag c (xs_m xs) g = g")
    case True
    then obtain xs' where x: "xexec e ?fast xs = Some (XLeave (XE_jmp (brind_code c (xs_m xs) g) xs'))" "left_rel ly ms xs'" "xs_m xs' = xs_m xs"
      using brind_fast_run [OF r(1) g, of e nl] by auto
    then show ?thesis using xrun_seg_xto(3) [OF P1 x(1)] True by (auto simp: exit_ok_def)
  next
    case False
    then obtain xs1 pr where x: "xexec e ?fast xs = Some (XGoto nl xs1)" "xrel c ly (ms\<lparr>m_pr := pr\<rparr>) xs1" "ucast (xs_r xs1 RSI) = g"
      using brind_fast_run [OF r(1) g, of e nl] by auto
    have nl: "X_bind nl \<notin> set (pre @ ?fast)" using lab by (auto simp: brind_lookup_def FrameDestroy_def)
    have P2: "P = (pre @ ?fast) @ X_bind nl # brind_slow c @ post" "P = (pre @ ?fast @ [X_bind nl]) @ brind_slow c @ post"
      using P1 by simp_all
    have pos: "label_pos P nl = Some (length (pre @ ?fast))" unfolding P2(1) by (rule label_pos_at [OF nl])
    obtain n where n: "xto e P n (length pre) xs (length (pre @ ?fast)) xs1" using xrun_seg_xto(2) [OF P1 x(1) pos] by blast
    have P3: "P = (pre @ ?fast) @ [X_bind nl] @ (brind_slow c @ post)" using P1 by simp
    obtain n2 where n2: "xto e P n2 (length (pre @ ?fast)) xs1 (length (pre @ ?fast @ [X_bind nl])) xs1"
      using xrun_seg_xto(1) [OF P3, of e xs1 xs1] by auto
    obtain xs0 xs' where s: "xexec e (brind_slow c) xs1 = Some (XLeave (XE_jmp (fst (xe_brind e xs0)) xs'))" "xs_r xs0 RDI = ly_state ly"
      "ucast (xs_r xs0 RSI) = g" "mem_ok ly (ms\<lparr>m_pr := pr\<rparr>) (xs_m xs0)" "jumped_rel ly (ms\<lparr>m_pr := pr\<rparr>) g xs'"
      using brind_slow_run [OF x(2) E(2,3,4) x(3)] by blast
    have w: "ms_word (ms\<lparr>m_pr := pr\<rparr>) = ms_word ms" "ms_word (ms\<lparr>m_pr := pr, m_gs := f\<rparr>) = ms_word (ms\<lparr>m_gs := f\<rparr>)" for f
      by (simp_all add: ms_word_def fun_eq_iff)
    have "exit_ok c e ly g ms (XE_jmp (fst (xe_brind e xs0)) xs')"
      using s by (auto simp: exit_ok_def mem_ok_def jumped_rel_def w)
    then show ?thesis using xto_ends [OF n xto_ends [OF n2 xrun_seg_xto(3) [OF P2(2) s(1)]]] by blast
  qed
  then show ?thesis by (simp add: run_ok_def q)
qed

lemma mexec_inst_no_branch: "\<not> is_term i \<Longrightarrow> mexec_inst me i ms = Some q \<Longrightarrow> q \<noteq> MBr k ms'"
  by (cases i) (auto simp: bind_eq_Some_conv split: hres.splits, metis hres.exhaust)

lemma run_ok_trans:
  assumes "xto e P n pc xs pc1 xs1" "run_ok c e ly P succs b end pc1 xs1 q"
  shows "run_ok c e ly P succs b end pc xs q"
proof (cases q)
  case (MNext ms)
  then show ?thesis using assms by (auto simp: run_ok_def intro: xto_trans)
next
  case (MBr k ms)
  then show ?thesis using assms by (auto simp: run_ok_def; blast intro: xto_trans)
qed (use assms in \<open>auto simp: run_ok_def intro: xto_ends\<close>)

lemma emit_insts_sim:
  assumes "emit_insts c b succs is nl = Inr (code, nl')" "P = pre @ code @ post" "\<forall>l. X_bind l \<in> set pre \<longrightarrow> l < nl"
    "list_all mct_ok is" "list_all (\<lambda>i. \<not> is_term i) (butlast is)" "mexec_insts me is ms = Some q" "xrel c ly ms xs" "emit_env c ly me e"
  shows "run_ok c e ly P succs b (length pre + length code) (length pre) xs q"
  using assms
proof (induction "is" arbitrary: nl code pre ms xs)
  case Nil
  then show ?case by (auto simp: run_ok_def xto_def intro!: exI [of _ "0 :: nat"] exI [of _ xs])
next
  case (Cons i "is")
  obtain c1 nl1 c2 where em: "emit_visit c b succs i nl = Inr (c1, nl1)" "emit_insts c b succs is nl1 = Inr (c2, nl')" "code = c1 @ c2"
    using Cons.prems(1) by auto
  obtain q1 where q1: "mexec_inst me i ms = Some q1" using Cons.prems(6) by (auto simp: bind_eq_Some_conv)
  have ok: "mct_ok i" using Cons.prems(4) by simp
  have P1: "P = pre @ c1 @ (c2 @ post)" using Cons.prems(2) em(3) by simp
  have run: "run_ok c e ly P succs b (length pre + length c1) (length pre) xs q1"
  proof (cases "\<exists>a. i = GBrind a")
    case True
    then obtain a where i: "i = GBrind a" by blast
    have "X_bind nl \<notin> set pre" using Cons.prems(3) by blast
    then show ?thesis using run_ok_gbrind [OF Cons.prems(7,8) ok [unfolded i] q1 [unfolded i] _ P1] em(1) i by simp
  next
    case False
    then obtain out where "xexec e c1 xs = Some out" "out_ok c e ly b succs q1 out"
      using emit_visit_sim [OF Cons.prems(7,8) ok q1 em(1)] by blast
    then show ?thesis by (rule run_ok_seg [OF P1])
  qed
  show ?case
  proof (cases "is")
    case Nil
    then have "c2 = []" "q = q1" using em(2) Cons.prems(6) q1 by (auto split: mres.splits)
    then show ?thesis using run em(3) by simp
  next
    case (Cons i2 is2)
    then have nt: "\<not> is_term i" using Cons.prems(5) by simp
    show ?thesis
    proof (cases q1)
      case (MNext ms1)
      then obtain n xs1 where n: "xto e P n (length pre) xs (length pre + length c1) xs1" "xrel c ly ms1 xs1"
        using run by (auto simp: run_ok_def)
      have "run_ok c e ly P succs b (length (pre @ c1) + length c2) (length (pre @ c1)) xs1 q"
      proof (rule Cons.IH [OF em(2)])
        show "\<forall>l. X_bind l \<in> set (pre @ c1) \<longrightarrow> l < nl1" using emit_visit_labels [OF em(1)] Cons.prems(3) by fastforce
      qed (use Cons.prems q1 MNext P1 n(2) \<open>is = i2 # is2\<close> in auto)
      then show ?thesis using run_ok_trans [OF n(1)] em(3) by (simp add: add.assoc)
    next
      case (MBr k ms1)
      then show ?thesis using mexec_inst_no_branch [OF nt q1] by blast
    qed (use run q1 Cons.prems(6) in \<open>auto simp: run_ok_def\<close>)
  qed
qed

subsection \<open>Regions\<close>

text \<open>What emission relies on: selected and allocated instructions, and branches only at the end of a block.\<close>

definition emittable :: "region \<Rightarrow> bool" where
  "emittable rn \<longleftrightarrow> (\<forall>k \<in> set (rn_blocks rn). list_all mct_ok (bb_ilist k) \<and> block_shape (bb_ilist k))"

lemma QCodegen_block:
  assumes "QCodegen_Run c rn = Inr P" "b < length (rn_blocks rn)"
  obtains pre code post nl nl' where "P = pre @ X_bind b # code @ post" "label_pos P b = Some (length pre)"
    "emit_insts c b (bb_succs (rn_blocks rn ! b)) (bb_ilist (rn_blocks rn ! b)) nl = Inr (code, nl')"
    "\<forall>l. X_bind l \<in> set (pre @ [X_bind b]) \<longrightarrow> l < nl"
    "Suc b < length (rn_blocks rn) \<longrightarrow> label_pos P (Suc b) = Some (Suc (length pre) + length code)"
proof -
  let ?N = "length (rn_blocks rn)"
  obtain xs nl' where e: "emit_blocks c 0 (rn_blocks rn) ?N = Inr (xs, nl')" "P = FrameSetup c @ xs"
    using assms(1) by (auto simp: QCodegen_Run_def)
  obtain X code Y nl1 nl2 where s: "xs = X @ X_bind b # code @ Y"
    "emit_insts c b (bb_succs (rn_blocks rn ! b)) (bb_ilist (rn_blocks rn ! b)) nl1 = Inr (code, nl2)" "?N \<le> nl1"
    "\<forall>l. X_bind l \<in> set X \<longrightarrow> l < b \<or> ?N \<le> l \<and> l < nl1" "Suc b < ?N \<longrightarrow> (\<exists>Y'. Y = X_bind (Suc b) # Y')"
    using emit_blocks_split [OF e(1) assms(2)] by auto
  define pre where "pre = FrameSetup c @ X"
  have lab: "X_bind l \<in> set pre \<longrightarrow> l < b \<or> ?N \<le> l \<and> l < nl1" for l using s(4) by (auto simp: pre_def FrameSetup_def)
  have P: "P = pre @ X_bind b # code @ Y" using e(2) s(1) by (simp add: pre_def)
  show thesis
  proof (rule that [OF P _ s(2)])
    show "label_pos P b = Some (length pre)" unfolding P by (rule label_pos_at) (use lab [of b] assms(2) in auto)
    show "\<forall>l. X_bind l \<in> set (pre @ [X_bind b]) \<longrightarrow> l < nl1" using lab s(3) assms(2) by fastforce
    show "Suc b < ?N \<longrightarrow> label_pos P (Suc b) = Some (Suc (length pre) + length code)"
    proof
      assume b: "Suc b < ?N"
      then obtain Y' where "P = (pre @ X_bind b # code) @ X_bind (Suc b) # Y'" using P s(5) by auto
      moreover have "X_bind (Suc b) \<notin> set (pre @ X_bind b # code)"
        using lab [of "Suc b"] b s(3) emit_insts_labels [OF s(2)] by fastforce
      ultimately show "label_pos P (Suc b) = Some (Suc (length pre) + length code)" using label_pos_at by fastforce
    qed
  qed
qed

lemma emit_block_sim:
  assumes P: "QCodegen_Run c rn = Inr P" and b: "b < length (rn_blocks rn)" and em: "emittable rn" and e: "emit_env c ly me e"
    and ex: "mexec_insts me (insts_at rn b) ms = Some q" and r: "xrel c ly ms xs" "label_pos P b = Some pc"
  obtains "end" where "xto e P 1 pc xs (Suc pc) xs" "run_ok c e ly P (succs_at rn b) b end (Suc pc) xs q"
    "Suc b < length (rn_blocks rn) \<longrightarrow> label_pos P (Suc b) = Some end"
proof -
  obtain pre code post nl nl' where s: "P = pre @ X_bind b # code @ post" "label_pos P b = Some (length pre)"
    "emit_insts c b (succs_at rn b) (insts_at rn b) nl = Inr (code, nl')" "\<forall>l. X_bind l \<in> set (pre @ [X_bind b]) \<longrightarrow> l < nl"
    "Suc b < length (rn_blocks rn) \<longrightarrow> label_pos P (Suc b) = Some (Suc (length pre) + length code)"
    using QCodegen_block [OF P b] by metis
  have pc: "pc = length pre" using s(2) r(2) by simp
  have P2: "P = (pre @ [X_bind b]) @ code @ post" using s(1) by simp
  have ok: "list_all mct_ok (insts_at rn b)" "block_shape (insts_at rn b)" using em b by (simp_all add: emittable_def)
  have "list_all (\<lambda>i. \<not> is_term i) (butlast (insts_at rn b))" using ok(2) by (auto simp: block_shape_def)
  from emit_insts_sim [OF s(3) P2 s(4) ok(1) this ex r(1) e]
  have "run_ok c e ly P (succs_at rn b) b (Suc (length pre) + length code) (Suc pc) xs q" by (simp add: pc)
  moreover have "xto e P 1 pc xs (Suc pc) xs" by (simp add: xto_def pc s(1))
  ultimately show thesis using that s(5) by blast
qed

lemma emit_region_sim:
  assumes P: "QCodegen_Run c rn = Inr P" and em: "emittable rn" and e: "emit_env c ly me e"
    and "mexec_region me fuel rn b ms = Some q" "xrel c ly ms xs" "label_pos P b = Some pc"
  shows "case q of MExit g ms' \<Rightarrow> \<exists>x. xends e P pc xs x \<and> exit_ok c e ly g ms' x
    | MTrap ms' \<Rightarrow> \<exists>xs'. xends e P pc xs (XE_trap xs') \<and> xrel c ly ms' xs' | _ \<Rightarrow> False"
  using assms(4-6)
proof (induction fuel arbitrary: b ms xs pc)
  case (Suc fuel)
  have b: "b < length (rn_blocks rn)" using Suc.prems(1) by (auto split: if_splits)
  then obtain q1 where q1: "mexec_insts me (insts_at rn b) ms = Some q1" using Suc.prems(1) by (auto simp: bind_eq_Some_conv)
  obtain "end" where s: "xto e P 1 pc xs (Suc pc) xs" "run_ok c e ly P (succs_at rn b) b end (Suc pc) xs q1"
    "Suc b < length (rn_blocks rn) \<longrightarrow> label_pos P (Suc b) = Some end"
    by (rule emit_block_sim [OF P b em e q1 Suc.prems(2,3)])
  note run = run_ok_trans [OF s(1,2)]
  show ?case
  proof (cases q1)
    case (MBr k ms1)
    have k: "k < length (succs_at rn b)" "mexec_region me fuel rn (succs_at rn b ! k) ms1 = Some q"
      using Suc.prems(1) b q1 MBr by (auto split: if_splits)
    have b': "succs_at rn b ! k < length (rn_blocks rn)" using k(2) by (cases fuel) (auto split: if_splits)
    obtain t where t: "label_pos P (succs_at rn b ! k) = Some t" using QCodegen_block [OF P b'] by metis
    then have "succs_at rn b ! k = Suc b \<longrightarrow> t = end" using s(3) b' by auto
    then obtain n xs1 where n: "xto e P n pc xs t xs1" "xrel c ly ms1 xs1" using run t MBr by (auto simp: run_ok_def)
    from Suc.IH [OF k(2) n(2) t] show ?thesis
      by (cases q) (auto intro: xto_ends [OF n(1)])
  qed (use Suc.prems(1) b q1 run in \<open>auto simp: run_ok_def\<close>)
qed simp

lemma emit_runs_on:
  assumes P: "QCodegen_Run c rn = Inr P" and em: "emittable rn" and e: "emit_env c ly me e"
    and "mruns_on me fuel rn b ms" "xrel c ly ms xs" "label_pos P b = Some pc"
  shows "\<exists>n pc' xs'. fuel \<le> n \<and> xrun e P n pc xs = XRun pc' xs'"
  using assms(4-6)
proof (induction fuel arbitrary: b ms xs pc)
  case 0
  show ?case by (rule exI [of _ 0]) simp
next
  case (Suc fuel)
  obtain k ms1 where b: "b < length (rn_blocks rn)" "mexec_insts me (insts_at rn b) ms = Some (MBr k ms1)"
    and k: "k < length (succs_at rn b)" "mruns_on me fuel rn (succs_at rn b ! k) ms1"
    using Suc.prems(1) by (auto split: option.splits mres.splits)
  obtain "end" where s: "xto e P 1 pc xs (Suc pc) xs" "run_ok c e ly P (succs_at rn b) b end (Suc pc) xs (MBr k ms1)"
    "Suc b < length (rn_blocks rn) \<longrightarrow> label_pos P (Suc b) = Some end"
    by (rule emit_block_sim [OF P b(1) em e b(2) Suc.prems(2,3)])
  show ?case
  proof (cases fuel)
    case 0
    have "xrun e P (1 + 0) pc xs = xrun e P 0 (Suc pc) xs" using s(1) unfolding xto_def by blast
    then have "xrun e P 1 pc xs = XRun (Suc pc) xs" by simp
    then show ?thesis using 0 by (metis One_nat_def le_refl)
  next
    case (Suc f)
    then have b': "succs_at rn b ! k < length (rn_blocks rn)" using k(2) by simp
    obtain t where t: "label_pos P (succs_at rn b ! k) = Some t" using QCodegen_block [OF P b'] by metis
    then have "succs_at rn b ! k = Suc b \<longrightarrow> t = end" using s(3) b' by auto
    then obtain n xs1 where n: "xto e P n (Suc pc) xs t xs1" "xrel c ly ms1 xs1" using s(2) t by (auto simp: run_ok_def)
    obtain n2 pc' xs' where n2: "fuel \<le> n2" "xrun e P n2 t xs1 = XRun pc' xs'" using Suc.IH [OF k(2) n(2) t] by blast
    have "xrun e P (1 + n + n2) pc xs = XRun pc' xs'" using xto_trans [OF s(1) n(1)] n2(2) by (simp add: xto_def)
    moreover have "Suc fuel \<le> 1 + n + n2" using n2(1) by simp
    ultimately show ?thesis by blast
  qed
qed

end
