(* ===== verification/Codegen.thy ===== *)
theory Codegen
  imports Emit_Region
begin

section \<open>Code generation: codegen/qcg.cpp\<close>

text \<open>
  The whole of \<open>GenerateCode\<close>, and that it succeeds on what the translator produces.
\<close>

subsection \<open>Whole compilation: codegen/qcg.cpp\<close>

text \<open>\<open>GenerateCode\<close> up to the list of host instructions.\<close>

definition GenerateCode :: "qemit \<Rightarrow> region \<Rightarrow> xinst list res" where
  "GenerateCode c rn =
     rbind (GenerateCode_passes rn) (\<lambda>(rn2, has_calls). QCodegen_Run (c\<lparr>qe_leaf := \<not> has_calls\<rparr>) rn2)"

lemma passes_emittable:
  assumes "CompilerGenRegionIR code [rg] vmem = Inr rn" "no_clobber vmem code TB_MAX_INSNS (fst rg)"
    "GenerateCode_passes rn = Inr (rn2, calls)"
  shows "emittable rn2" "calls \<longleftrightarrow> (\<exists>k \<in> set (rn_blocks rn). has_call (bb_ilist k))"
    "length (rn_blocks rn2) = length (rn_blocks rn)"
    "\<And>k. k < length (rn_blocks rn) \<Longrightarrow> succs_at rn2 k = succs_at rn k \<and> (list_ex is_hcall (insts_at rn2 k) \<longleftrightarrow> list_ex is_hcall (insts_at rn k))"
    "\<And>k n. k < length (rn_blocks rn) \<Longrightarrow> list_all (\<lambda>i. nsucc i \<le> n) (insts_at rn k) \<Longrightarrow> list_all (\<lambda>i. nsucc i \<le> n) (insts_at rn2 k)"
proof -
  obtain rn1 rn2' a calls' where p: "GenerateCode_passes rn = Inr (rn2', calls')"
    and d: "sel_done rn (length (rn_blocks rn)) (rn1, calls')" and iv: "ra_inv rn1 (length (rn_blocks rn1)) (rn2', a)"
    and len: "length (rn_blocks rn) = length (rn_blocks rn1)"
    by (rule passes_done [OF assms(1)]) (use assms(2) in auto)
  have [simp]: "rn2' = rn2" "calls' = calls" using p assms(3) by simp_all
  have "closed_wf (32 + 192 * length [rg]) (384 * length [rg]) rn" by (rule CompilerGenRegionIR_wf [OF assms(1)]) (use assms(2) in auto)
  then have wf: "wf_blocks rn" by (simp add: closed_wf_def)
  have k: "list_all mct_ok (insts_at rn2 k)" "block_shape (insts_at rn2 k)" if "k < length (rn_blocks rn2)" for k
    using iv d wf that len by (auto simp: ra_inv_def sel_done_def same_shape_def wf_blocks_def)
  then show "emittable rn2" unfolding emittable_def by (metis in_set_conv_nth)
  show "calls \<longleftrightarrow> (\<exists>k \<in> set (rn_blocks rn). has_call (bb_ilist k))" using sel_done_calls [OF d] by simp
  show "length (rn_blocks rn2) = length (rn_blocks rn)" using iv len by (simp add: ra_inv_def)
  show "succs_at rn2 k = succs_at rn k \<and> (list_ex is_hcall (insts_at rn2 k) \<longleftrightarrow> list_ex is_hcall (insts_at rn k))"
    if "k < length (rn_blocks rn)" for k
    using iv d that len by (auto simp: ra_inv_def sel_done_def same_shape_def)
  show "list_all (\<lambda>i. nsucc i \<le> n) (insts_at rn2 k)"
    if "k < length (rn_blocks rn)" "list_all (\<lambda>i. nsucc i \<le> n) (insts_at rn k)" for k n
    using iv d that len by (auto simp: ra_inv_def sel_done_def same_shape_def)
qed

subsection \<open>Branches of a translated region have their successors\<close>

lemma succs_enough_nth:
  "succs_enough rn \<longleftrightarrow> (\<forall>b < length (rn_blocks rn). \<forall>i \<in> set (insts_at rn b). nsucc i \<le> length (succs_at rn b))"
  unfolding succs_enough_def by (metis in_set_conv_nth)

lemma nsucc_fold [simp]: "nsucc (fold_inst i) = nsucc i"
  by (cases i; auto simp: fold_inst_def folder_visit_def visit_add_def Let_def split: voperand.splits if_splits)

definition t_succs :: "translator \<Rightarrow> bool" where
  "t_succs t \<longleftrightarrow> bb_ok t \<and> succs_enough (t_region t)"

lemma create_insts:
  "bb_ok t \<Longrightarrow> insts_at (t_region (qb_create t ins)) k = (if k = t_bb t then insts_at (t_region t) k @ [fold_inst ins] else insts_at (t_region t) k)"
  by (simp add: qb_create_emit bb_ok_def)

lemma succs_create_inst:
  assumes "t_succs t" "nsucc ins \<le> length (succs_at (t_region t) (t_bb t))"
  shows "t_succs (qb_create t ins)"
  using assms by (auto simp: t_succs_def succs_enough_nth create_insts)

lemma succs_create0 [simp]: "t_succs t \<Longrightarrow> nsucc ins = 0 \<Longrightarrow> t_succs (qb_create t ins)"
  by (simp add: succs_create_inst)

lemma succs_add: "t_succs t \<Longrightarrow> t_succs (add_succ t j)"
  by (auto simp: t_succs_def succs_enough_nth bb_ok_def le_SucI)

lemma succs_branch:
  assumes "t_succs t"
  shows "t_succs (add_succ (qb_create t Br) j)" "t_succs (add_succ (add_succ (qb_create t (Brcc cc x y)) j) l)"
  using assms by (auto simp: t_succs_def succs_enough_nth bb_ok_def create_insts le_SucI split: if_splits)

lemma succs_vtemp [simp]: "t_succs (snd (vtemp t)) = t_succs t"
  by (simp add: t_succs_def succs_enough_nth)

lemma succs_upd [simp]:
  "t_succs (t\<lparr>t_control := x\<rparr>) = t_succs t" "t_succs (t\<lparr>t_insn_ip := y\<rparr>) = t_succs t"
  by (simp_all add: t_succs_def bb_ok_def)

lemma succs_MakeGBr: "t_succs t \<Longrightarrow> t_succs (MakeGBr t g)"
  by (auto simp: MakeGBr_def succs_branch split: option.splits)

lemma succs_make_target:
  assumes "make_target t g = (b, t')" "succs_enough (t_region t)"
  shows "succs_enough (t_region t')" "length (rn_blocks (t_region t)) \<le> length (rn_blocks (t_region t'))"
proof -
  define t1 where "t1 = t\<lparr>t_region := snd (CreateBlock (t_region t)), t_bb := fst (CreateBlock (t_region t))\<rparr>"
  have "t_succs t1" using assms(2) by (auto simp: t_succs_def t1_def CreateBlock_def bb_ok_def succs_enough_def new_block_def)
  then have c: "t_succs (qb_create t1 (GBr (vconst g)))" by simp
  have n: "length (rn_blocks (t_region (qb_create t1 (GBr (vconst g))))) = Suc (length (rn_blocks (t_region t)))"
    by (simp add: t1_def CreateBlock_def)
  show "succs_enough (t_region t')" "length (rn_blocks (t_region t)) \<le> length (rn_blocks (t_region t'))"
    using assms c n by (auto simp: make_target_def Let_def t1_def t_succs_def split_beta split: option.splits)
qed

lemma succs_Brcc: "t_succs t \<Longrightarrow> t_succs (TranslateBrcc t i cc)"
proof -
  assume t: "t_succs t"
  obtain b1 t1 where 1: "make_target t (t_insn_ip t + 4) = (b1, t1)" by fastforce
  obtain b2 t2 where 2: "make_target t1 (t_insn_ip t1 + imm_B i) = (b2, t2)" by fastforce
  have "succs_enough (t_region t)" using t by (simp add: t_succs_def)
  note s1 = succs_make_target [OF 1 this]
  note s2 = succs_make_target [OF 2 s1(1)]
  have "t_succs (t2\<lparr>t_bb := t_bb t\<rparr>)" using t s1(2) s2 by (simp add: t_succs_def bb_ok_def)
  then show ?thesis using 1 2 by (simp add: TranslateBrcc_def succs_branch)
qed

lemma succs_mov_const: "t_succs t \<Longrightarrow> t_succs (V_mov_const t i v)"
  by (simp add: V_mov_const_def)

lemma succs_load: "t_succs t \<Longrightarrow> t_succs (TranslateLoad t i ty sg)"
  by (simp add: TranslateLoad_def split_beta Let_def)

lemma succs_store: "t_succs t \<Longrightarrow> t_succs (TranslateStore t i ty sg)"
  by (simp add: TranslateStore_def split_beta Let_def)

lemma succs_jalr: "t_succs t \<Longrightarrow> t_succs (V_jalr t i)"
  by (simp add: V_jalr_def split_beta Let_def succs_mov_const)

lemma succs_straight:
  "t_succs t \<Longrightarrow> t_succs (TranslateSetcc_R t i cc)" "t_succs t \<Longrightarrow> t_succs (TranslateSetcc_I t i cc)"
  "t_succs t \<Longrightarrow> t_succs (TranslateHelper t i sid)" "t_succs t \<Longrightarrow> t_succs (TRANSLATOR_ArithmRR t i bop)"
  "t_succs t \<Longrightarrow> t_succs (TRANSLATOR_ArithmRI t i imm bop)"
  by (simp_all add: TranslateSetcc_R_def TranslateSetcc_I_def TranslateHelper_def TRANSLATOR_ArithmRR_def TRANSLATOR_ArithmRI_def)

lemma succs_jal: "t_succs t \<Longrightarrow> t_succs (V_jal t i)"
  by (simp add: V_jal_def succs_MakeGBr succs_mov_const)

lemmas succs_intros = succs_mov_const succs_load succs_store succs_jalr succs_jal succs_Brcc succs_straight

lemma V_insn_succs: "t_succs t \<Longrightarrow> V_insn op t i = Inr t' \<Longrightarrow> t_succs t'"
  by (cases op; simp only: V_insn.simps sum.inject sum.distinct; hypsubst; rule succs_intros; assumption)

lemma TranslateInsn_succs:
  assumes "t_succs t" "TranslateInsn code t = Inr t'"
  shows "t_succs t'"
proof -
  define op where "op = Decode (fetch (t_vmem t) code (t_insn_ip t))"
  define t1 where "t1 = (if has_flag op Flag_Trap \<or> has_flag op Flag_MayTrap then PreSideeff t else t)"
  obtain t2 where t2: "V_insn op t1 (fetch (t_vmem t) code (t_insn_ip t)) = Inr t2" and t': "t_succs t' = t_succs t2"
    using assms(2) unfolding TranslateInsn_def H_translate_def Let_def op_def [symmetric] t1_def [symmetric]
    by (auto split: if_splits)
  have "t_succs t1" using assms(1) by (simp add: t1_def PreSideeff_def Let_def)
  then show ?thesis using V_insn_succs [OF _ t2] t' by simp
qed

lemma translate_loop_succs: "t_succs t \<Longrightarrow> translate_loop left code boundary t = Inr t' \<Longrightarrow> t_succs t'"
proof (induction left arbitrary: t)
  case (Suc left)
  obtain t1 where t1: "TranslateInsn code t = Inr t1" using Suc.prems(2) by auto
  note s1 = TranslateInsn_succs [OF Suc.prems(1) t1]
  then have "t_succs (MakeGBr (t1\<lparr>t_control := C_TB_OVF\<rparr>) (t_insn_ip t1))" by (simp add: succs_MakeGBr)
  then show ?case using Suc.prems(2) s1 Suc.IH [OF s1] t1 by (auto split: if_splits)
qed simp

lemma translated_succs:
  assumes "CompilerGenRegionIR code [rg] vmem = Inr rn"
  shows "succs_enough rn"
proof -
  define t0 where "t0 = fold add_range_block [rg] (new_translator (new_region state_info) vmem)"
  have t0: "t_ip2bb t0 (fst rg) = Some 0" "rn_blocks (t_region t0) = [new_block]"
    by (simp_all add: t0_def add_range_block_def CreateBlock_def new_translator_def new_region_def)
  obtain t' where t': "TranslateIPRange code (fst rg) (snd rg) t0 = Inr t'" "rn = t_region t'"
    using assms by (auto simp: CompilerGenRegionIR_def Translate_def t0_def)
  have "t_succs (t0\<lparr>t_insn_ip := fst rg, t_bb := 0, t_control := C_NEXT\<rparr>)"
    by (simp add: t_succs_def bb_ok_def succs_enough_def t0 new_block_def)
  moreover have "translate_loop TB_MAX_INSNS code (snd rg) (t0\<lparr>t_insn_ip := fst rg, t_bb := 0, t_control := C_NEXT\<rparr>) = Inr t'"
    using t'(1) t0(1) by (simp add: TranslateIPRange_def split: if_splits)
  ultimately have "t_succs t'" by (rule translate_loop_succs)
  then show ?thesis by (simp add: t'(2) t_succs_def)
qed

subsection \<open>Emission does not fail\<close>

lemma make_operand_total: "mtyp t x \<Longrightarrow> \<exists>y. make_operand c x = Inr y"
  by (cases x; cases t) (auto simp: make_operand_def make_gpr_def make_slot_def)

lemma make_vmem_total: "qe_zero_base c \<Longrightarrow> mval T_I32 x \<Longrightarrow> \<exists>y. make_vmem c x = Inr y"
  using mval_cases [of T_I32 x] by (auto simp: make_vmem_def make_gpr_def)

lemma emit_visit_total:
  assumes ok: "mct_ok i" and z: "qe_zero_base c" and n: "nsucc i \<le> length succs" and l: "is_hcall i \<longrightarrow> \<not> qe_leaf c"
  shows "\<exists>r. emit_visit c b succs i nl = Inr r"
proof (cases i)
  case (Hcall sid a)
  have "is_const a" using ok by (simp add: mct_ok_def Hcall)
  then show ?thesis using l by (cases a) (auto simp: Hcall keep_label_def Emit_hcall_def make_operand_def is_const_def)
next
  case Br
  then show ?thesis using n by (auto simp: keep_label_def Emit_br_def succ_at_def)
next
  case (Brcc cc x y)
  note m = mct_Brcc [OF ok [unfolded Brcc]]
  obtain x' y' where "make_operand c x = Inr x'" "make_operand c y = Inr y'"
    using m make_operand_total [of T_I32 x c] make_operand_total [of T_I32 y c] by (auto simp: mval_def)
  moreover have "0 < length succs" "1 < length succs" using n Brcc by auto
  ultimately show ?thesis using m(2) by (auto simp: Brcc keep_label_def Emit_brcc_def succ_at_def)
next
  case (GBr t)
  then show ?thesis using ok by (cases t) (auto simp: mct_ok_def keep_label_def Emit_gbr_code_def is_const_def)
next
  case (GBrind a)
  then show ?thesis using mct_GBrind [OF ok [unfolded GBrind]] Emit_gbrind_eq by auto
next
  case (VMLoad sz sg d p)
  note m = mct_VMLoad [OF ok [unfolded VMLoad]]
  obtain pr where "d = VPReg T_I32 pr" using mdst_cases [OF m(2)] by blast
  moreover obtain y where "make_vmem c p = Inr y" using make_vmem_total [OF z m(3)] by blast
  ultimately show ?thesis using m(1) by (cases sz) (auto simp: VMLoad keep_label_def Emit_vmload_def make_gpr_opr_def make_gpr_def opr_type_def)
next
  case (VMStore sz sg p d)
  note m = mct_VMStore [OF ok [unfolded VMStore]]
  obtain y where "make_vmem c p = Inr y" using make_vmem_total [OF z m(3)] by blast
  moreover obtain x where "make_operand c d = Inr x" using make_operand_total [OF m(4)] by blast
  ultimately show ?thesis using m(1,2) by (cases sz) (auto simp: VMStore keep_label_def Emit_vmstore_def)
next
  case (Setcc cc d x y)
  note m = mct_Setcc [OF ok [unfolded Setcc]]
  obtain p p0 where "d = VPReg T_I32 p" "x = VPReg T_I32 p0"
    using mdst_cases [OF m(1)] mval_cases [OF m(2)] m(3) by (auto simp: is_const_def)
  moreover obtain y' where "make_operand c y = Inr y'" using make_operand_total [of T_I32 y c] m(4) by (auto simp: mval_def)
  ultimately show ?thesis by (simp add: Setcc keep_label_def Emit_setcc_def make_gpr_opr_def make_gpr_def make_operand_def Let_def)
next
  case (Mov d s)
  have "mov_ok d s" using ok by (simp add: mct_ok_def Mov)
  then obtain d' s' where "make_operand c d = Inr d'" "make_operand c s = Inr s'"
    using make_operand_total [of "opr_type d"] by (fastforce simp: mov_ok_def)
  then show ?thesis by (simp add: Mov keep_label_def Emit_mov_def)
next
  case (Binop bop d x y)
  note m = mct_Binop [OF ok [unfolded Binop]]
  obtain p where "d = VPReg T_I32 p" using mdst_cases [OF m(2)] by blast
  moreover obtain y' where "make_operand c y = Inr y'" using make_operand_total [of T_I32 y c] m(3) by (auto simp: mval_def)
  ultimately show ?thesis
    using m(1) Emit_binop_eq [of bop y c d x, OF m(4)] by (simp add: Binop keep_label_def EmitInstBinop_def make_gpr_opr_def make_gpr_def)
qed

lemma emit_insts_total:
  assumes "list_all mct_ok is" "qe_zero_base c" "\<forall>i \<in> set is. nsucc i \<le> length succs" "list_ex is_hcall is \<longrightarrow> \<not> qe_leaf c"
  shows "\<exists>r. emit_insts c b succs is nl = Inr r"
  using assms
proof (induction "is" arbitrary: nl)
  case (Cons i "is")
  obtain x nl1 where "emit_visit c b succs i nl = Inr (x, nl1)" using emit_visit_total [of i c succs b nl] Cons.prems by auto
  moreover obtain y nl2 where "emit_insts c b succs is nl1 = Inr (y, nl2)" using Cons.IH [of nl1] Cons.prems by auto
  ultimately show ?case by simp
qed simp

lemma emit_blocks_total:
  assumes "\<forall>k \<in> set ks. list_all mct_ok (bb_ilist k) \<and> (\<forall>i \<in> set (bb_ilist k). nsucc i \<le> length (bb_succs k)) \<and>
      (list_ex is_hcall (bb_ilist k) \<longrightarrow> \<not> qe_leaf c)" "qe_zero_base c"
  shows "\<exists>r. emit_blocks c bb ks nl = Inr r"
  using assms
proof (induction ks arbitrary: bb nl)
  case (Cons k ks)
  obtain x nl1 where "emit_insts c bb (bb_succs k) (bb_ilist k) nl = Inr (x, nl1)"
    using emit_insts_total [of "bb_ilist k" c "bb_succs k" bb nl] Cons.prems by auto
  moreover obtain y nl2 where "emit_blocks c (Suc bb) ks nl1 = Inr (y, nl2)" using Cons.IH [of "Suc bb" nl1] Cons.prems by auto
  ultimately show ?case by (simp add: emit_block_def)
qed simp

lemma has_call_hcall: "has_call is \<longleftrightarrow> list_ex is_hcall is"
proof -
  have "GetOpFlags i AND HAS_CALLS \<noteq> 0 \<longleftrightarrow> is_hcall i" for i by (cases i) (simp_all add: SIDEEFF_def REXIT_def HAS_CALLS_def)
  then show ?thesis by (simp add: has_call_def)
qed

lemma GenerateCode_done:
  assumes tr: "CompilerGenRegionIR code [rg] vmem = Inr rn" and nc: "no_clobber vmem code TB_MAX_INSNS (fst rg)" and z: "qe_zero_base c"
  shows "\<exists>P. GenerateCode c rn = Inr P"
proof -
  obtain rn2 calls where ps: "GenerateCode_passes rn = Inr (rn2, calls)"
    by (rule passes_done [OF tr]) (use nc in auto)
  note E = passes_emittable [OF tr nc ps]
  have s: "succs_enough rn" by (rule translated_succs [OF tr])
  have "list_all mct_ok (insts_at rn2 k) \<and> (\<forall>i \<in> set (insts_at rn2 k). nsucc i \<le> length (succs_at rn2 k)) \<and>
      (list_ex is_hcall (insts_at rn2 k) \<longrightarrow> \<not> qe_leaf (c\<lparr>qe_leaf := \<not> calls\<rparr>))" if k: "k < length (rn_blocks rn2)" for k
  proof -
    have kr: "k < length (rn_blocks rn)" using E(3) k by simp
    have "list_all mct_ok (insts_at rn2 k)" using E(1) k by (simp add: emittable_def)
    moreover have "list_ex is_hcall (insts_at rn2 k) \<longrightarrow> calls" using E(2) E(4) [OF kr] kr by (auto simp: has_call_hcall)
    moreover have "list_all (\<lambda>i. nsucc i \<le> length (succs_at rn k)) (insts_at rn2 k)"
      by (rule E(5) [OF kr]) (use s kr in \<open>simp add: succs_enough_nth list_all_iff\<close>)
    ultimately show ?thesis using E(4) [OF kr] by (simp add: list_all_iff)
  qed
  then have "\<forall>k \<in> set (rn_blocks rn2). list_all mct_ok (bb_ilist k) \<and> (\<forall>i \<in> set (bb_ilist k). nsucc i \<le> length (bb_succs k)) \<and>
      (list_ex is_hcall (bb_ilist k) \<longrightarrow> \<not> qe_leaf (c\<lparr>qe_leaf := \<not> calls\<rparr>))" by (metis in_set_conv_nth)
  then have "\<exists>r. emit_blocks (c\<lparr>qe_leaf := \<not> calls\<rparr>) 0 (rn_blocks rn2) (length (rn_blocks rn2)) = Inr r"
    by (rule emit_blocks_total) (simp add: z)
  then show ?thesis by (auto simp: GenerateCode_def ps QCodegen_Run_def)
qed

text \<open>
  C2. In the build with the guest's memory at address \<open>0\<close>, what the translator accepts compiles to host
  code when none of the first 64 words of the range is a load to \<open>x0\<close> with zero offset: on the region of a translated range the passes and
  emission end without a panic, a failed assertion or a missing successor. (The region of
  \<open>lw x0, 0(x0)\<close> writes to a constant and fails an assertion of the back end.)
\<close>

theorem GenerateCode_total:
  assumes "CompilerGenRegionIR code [rg] vmem = Inr rn" "no_clobber vmem code TB_MAX_INSNS (fst rg)" "qe_zero_base c"
  shows "\<exists>P. GenerateCode c rn = Inr P"
  by (rule GenerateCode_done [OF assms])

definition demo_emit :: qemit where
  "demo_emit = \<lparr>qe_leaf = False, qe_zero_base = True, qe_segment = (0x1000, 0x1000), qe_brind_cache = 0x400000000\<rparr>"

theorem GenerateCode_total_witness: "\<exists>P. GenerateCode demo_emit bltu_region = Inr P"
  using GenerateCode_total [OF bltu_translate, of demo_emit] bltu_no_clobber by (simp add: demo_emit_def)

end
