(* ===== verification/Codegen_Correct.thy ===== *)
theory Codegen_Correct
  imports Codegen
begin

section \<open>From guest code to host code\<close>

text \<open>
  The host code that \<open>GenerateCode\<close> makes of a translated range does what the interpreter does. The
  statement speaks of the host machine alone: where the guest's registers and memory are, what the
  processor does with the instructions, how it leaves.
\<close>

subsection \<open>The guest state in the machine\<close>

text \<open>
  At the entry of translated code and at its exits: \<open>STATE\<close> points to the guest CPU state, which
  holds the guest's registers and trap code (but not its \<open>ip\<close>), guest memory holds the guest's
  memory, the stack pointer is at the return address below the spill frame, all other memory is
  as it was.
\<close>

definition cpu_at :: "xlay \<Rightarrow> cpu_state \<Rightarrow> mem \<Rightarrow> bool" where
  "cpu_at ly s m \<longleftrightarrow> (\<forall>r < 32. unaligned_load32 m (ly_state ly + 4 * ucast r) = gpr s r) \<and>
     unaligned_load32 m (ly_state ly + 132) = trap_num (trapno s)"

definition guest_at :: "xlay \<Rightarrow> cpu_state \<Rightarrow> mem \<Rightarrow> xstate \<Rightarrow> bool" where
  "guest_at ly s m xs \<longleftrightarrow> xs_r xs STATE = ly_state ly \<and> xs_r xs SP = entry_sp ly \<and>
     cpu_at ly s (xs_m xs) \<and> guest_in m (xs_m xs)"

lemma byte_of_load32:
  assumes "j < 4"
  shows "ucast (drop_bit (8 * j) (unaligned_load32 m p)) = m (p + of_nat j)"
proof -
  have hi: "\<not> bit (b :: u8) (k + n)" if "8 \<le> k" for b k n using bit_imp_le_length [of b "k + n"] that by auto
  have "j = 0 \<or> j = 1 \<or> j = 2 \<or> j = 3" using assms by auto
  then show ?thesis
    by (elim disjE) (auto intro!: bit_word_eqI simp: unaligned_load32_def bit_simps hi)
qed

lemma cpu_in_words:
  assumes "\<And>k. k < 34 \<Longrightarrow> unaligned_load32 m (ly_state ly + of_nat (4 * k)) = w k"
  shows "cpu_in ly w m"
  unfolding cpu_in_def
proof (intro allI impI)
  fix x :: uptr assume "x < sizeof_cpu_words"
  then have k: "unat x div 4 < 34" by (simp add: sizeof_cpu_words_def word_less_nat_alt)
  have "x = of_nat (4 * (unat x div 4)) + of_nat (unat x mod 4)" by (metis mult_div_mod_eq of_nat_add of_nat_unat ucast_id)
  moreover have "ucast (drop_bit (8 * (unat x mod 4)) (w (unat x div 4))) = m (ly_state ly + of_nat (4 * (unat x div 4)) + of_nat (unat x mod 4))"
    using byte_of_load32 [of "unat x mod 4" m "ly_state ly + of_nat (4 * (unat x div 4))"] assms [OF k] by simp
  ultimately show "m (ly_state ly + x) = word_bytes w x" by (simp add: word_bytes_def add.assoc)
qed

lemma up8_of_nat: "k < 32 \<Longrightarrow> 4 * ucast (of_nat k :: u8) = (of_nat (4 * k) :: u64)"
  by (simp add: up8 unat_of_nat take_bit_nat_eq_self)

lemma guest_at_mstate:
  assumes "guest_at ly s m xs" "host_in ly (xs_m xs)" "gpr s 0 = 0"
  obtains ms where "left_rel ly ms xs" "mrel s ms" "m_mem ms = m"
proof -
  let ?w = "\<lambda>k. unaligned_load32 (xs_m xs) (ly_state ly + of_nat (4 * k))"
  define ms where "ms = \<lparr>m_pr = (\<lambda>_. 0), m_frame = shifted (ly_frame ly) (xs_m xs), m_gs = (\<lambda>r. ?w (Suc (unat r))), m_mem = m, m_trap = trapno s\<rparr>"
  have g: "\<And>r. r < 32 \<Longrightarrow> unaligned_load32 (xs_m xs) (ly_state ly + 4 * ucast r) = gpr s r"
    "?w 33 = trap_num (trapno s)" using assms(1) by (simp_all add: guest_at_def cpu_at_def)
  have "cpu_in ly (ms_word ms) (xs_m xs)"
  proof (rule cpu_in_words)
    fix k :: nat assume k: "k < 34"
    consider "k = 0" | i where "k = Suc i" "i < 32" | "k = 33"
    proof -
      assume c: "k = 0 \<Longrightarrow> thesis" "\<And>i. k = Suc i \<Longrightarrow> i < 32 \<Longrightarrow> thesis" "k = 33 \<Longrightarrow> thesis"
      show thesis using k c(1) c(2) [of "k - 1"] c(3) by (cases k) (auto, linarith)
    qed
    then show "?w k = ms_word ms k"
    proof cases
      case 1
      then show ?thesis using g(1) [of 0] assms(3) by (simp add: ms_word_def)
    next
      case (2 i)
      then have "unat (of_nat i :: regn) = i" by (simp add: unat_of_nat take_bit_nat_eq_self)
      then show ?thesis using 2 by (simp add: ms_word_def ms_def del: of_nat_unat of_nat_mult of_nat_Suc)
    next
      case 3
      then show ?thesis using g(2) by (simp add: ms_word_def ms_def)
    qed
  qed
  moreover have "frame_in ly (m_frame ms) (xs_m xs)" by (simp add: frame_in_def ms_def shifted_def)
  ultimately have "left_rel ly ms xs" using assms(1,2) by (simp add: left_rel_def guest_at_def mem_ok_def ms_def)
  moreover have "mrel s ms"
  proof -
    have "m_gs ms (gvr r) = gpr s r" if "r \<noteq> 0" "r < 32" for r
    proof -
      have "Suc (unat (gvr r)) = unat r" using that unat_gvr [of r] by (simp add: unat_gt_0)
      then show ?thesis using g(1) [OF that(2)] by (simp add: ms_def up8 del: of_nat_mult mult_Suc_right)
    qed
    then show ?thesis using assms(3) by (simp add: mrel_def cpu_rel_def as_q_def) (simp add: ms_def)
  qed
  ultimately show thesis using that by (simp add: ms_def)
qed

lemma cpu_in_at:
  assumes "cpu_in ly w m" "\<And>r. r < 32 \<Longrightarrow> w (unat r) = gpr s r" "w 33 = trap_num (trapno s)"
  shows "cpu_at ly s m"
  using cpu_in_load [OF assms(1), of 33] cpu_in_load [OF assms(1)] assms(2,3)
  by (simp add: cpu_at_def up8 word_less_nat_alt del: of_nat_mult)

lemma mrel_word:
  assumes "mrel s ms" "r < 32"
  shows "ms_word ms (unat r) = gpr s r" "ms_word (ms\<lparr>m_gs := (m_gs ms)(31 := g)\<rparr>) (unat r) = gpr s r"
proof -
  have "r \<noteq> 0 \<Longrightarrow> m_gs ms (gvr r) = gpr s r" "gpr s 0 = 0" using assms by (simp_all add: mrel_def cpu_rel_def as_q_def)
  moreover have "r \<noteq> 0 \<Longrightarrow> gvr r \<noteq> 31" using gvr_less [of r] assms(2) by auto
  moreover have "unat r < 32" using assms(2) by (simp add: word_less_nat_alt)
  ultimately show "ms_word ms (unat r) = gpr s r" "ms_word (ms\<lparr>m_gs := (m_gs ms)(31 := g)\<rparr>) (unat r) = gpr s r"
    using of_nat_pred8 [of r] by (auto simp: ms_word_def unat_eq_0)
qed

lemma mrel_trap: "mrel s ms \<Longrightarrow> ms_word ms 33 = trap_num (trapno s) \<and> ms_word (ms\<lparr>m_gs := f\<rparr>) 33 = trap_num (trapno s)"
  by (simp add: mrel_def cpu_rel_def as_q_def ms_word_def)

lemma left_rel_guest:
  assumes "left_rel ly ms xs" "mrel s ms"
  shows "guest_at ly s (m_mem ms) xs" "host_in ly (xs_m xs)"
  using assms cpu_in_at [of ly "ms_word ms" "xs_m xs" s] mrel_word(1) [OF assms(2)] mrel_trap [OF assms(2)]
  by (simp_all add: left_rel_def guest_at_def mem_ok_def)

lemma jumped_rel_guest:
  assumes "jumped_rel ly ms g xs" "mrel s ms"
  shows "guest_at ly s (m_mem ms) xs" "unaligned_load32 (xs_m xs) (ly_state ly + 128) = g"
  using assms cpu_in_at [of ly "ms_word (ms\<lparr>m_gs := (m_gs ms)(31 := g)\<rparr>)" "xs_m xs" s] mrel_word(2) [OF assms(2)] mrel_trap [OF assms(2)]
    cpu_in_load [of ly "ms_word (ms\<lparr>m_gs := (m_gs ms)(31 := g)\<rparr>)" "xs_m xs" 32]
  by (simp_all add: jumped_rel_def guest_at_def) (simp add: ms_word_def)

subsection \<open>Entering the region\<close>

lemma FrameSetup_run:
  assumes "left_rel ly ms xs" "lay_ok ly"
  obtains xs' pr where "xexec e (FrameSetup c) xs = Some (XNext xs')" "xrel c ly (ms\<lparr>m_pr := pr\<rparr>) xs'"
proof -
  have ok: "mem_ok ly ms (xs_m xs)" "xs_r xs SP = ly_frame ly - 8" "xs_r xs STATE = ly_state ly"
    using assms(1) by (simp_all add: left_rel_def entry_sp_def)
  have w: "ms_word (ms\<lparr>m_pr := f\<rparr>) = ms_word ms" for f by (simp add: ms_word_def fun_eq_iff)
  define xs' where "xs' = (if qe_leaf c then xs else
    set_reg (xs\<lparr>xs_m := unaligned_store64 (xs_m xs) (ly_frame ly - 16) (xs_r xs RCX)\<rparr>) RSP (ly_frame ly - 16))"
  have "xexec e (FrameSetup c) xs = Some (XNext xs')"
    using ok(2) by (simp add: FrameSetup_def xs'_def SP_def Let_def)
  moreover have "xrel c ly (ms\<lparr>m_pr := (\<lambda>p. ucast (xs_r xs' p))\<rparr>) xs'"
    using ok push_mem_ok [OF assms(2) ok(1), of "xs_r xs RCX"]
    by (auto simp: xrel_def regs_rel_def mem_ok_def w xs'_def body_sp_def spillframe_sp_offs_def set_reg_def reg_defs)
  ultimately show thesis using that by blast
qed

lemma QCodegen_entry:
  assumes P: "QCodegen_Run c rn = Inr P" and n: "0 < length (rn_blocks rn)" and r: "left_rel ly ms xs" "lay_ok ly"
  obtains n pr xs' pc where "xto e P n 0 xs pc xs'" "xrel c ly (ms\<lparr>m_pr := pr\<rparr>) xs'" "label_pos P 0 = Some pc"
proof -
  obtain ys where e: "P = FrameSetup c @ X_bind 0 # ys"
    using P n by (cases "rn_blocks rn") (auto simp: QCodegen_Run_def emit_block_def)
  then have "P = [] @ FrameSetup c @ (X_bind 0 # ys)" by simp
  note run = xrun_seg_xto(1) [OF this]
  obtain xs' pr where x: "xexec e (FrameSetup c) xs = Some (XNext xs')" "xrel c ly (ms\<lparr>m_pr := pr\<rparr>) xs'" by (rule FrameSetup_run [OF r])
  have "label_pos P 0 = Some (length (FrameSetup c))" unfolding e by (rule label_pos_at) (simp add: FrameSetup_def)
  then show thesis using that run [OF x(1)] x(2) by auto
qed

subsection \<open>Correctness of compilation\<close>

text \<open>
  Where translated code leaves to, with the guest in the machine: a jump goes to the code pointer of
  the entry of \<open>l1_brind_cache\<close> that the hash of the address selects, when that entry is for the
  address, and else to what \<open>qcgstub_brind\<close> returns for it.
\<close>

definition leaves_to :: "qemit \<Rightarrow> xenv \<Rightarrow> xlay \<Rightarrow> u32 \<Rightarrow> cpu_state \<Rightarrow> mem \<Rightarrow> xexit \<Rightarrow> bool" where
  "leaves_to c e ly g s m x \<longleftrightarrow>
     (case x of
        XE_slot g' cross xs \<Rightarrow> g' = g \<and> cross = (\<not> InSegment (qe_segment c) g) \<and> guest_at ly s m xs \<and> host_in ly (xs_m xs)
      | XE_jmp p xs \<Rightarrow> guest_at ly s m xs \<and>
          (BrindCacheEntry_at (qe_brind_cache c) (xs_m xs) (l1hash g) = (g, p) \<and> host_in ly (xs_m xs) \<or>
           (\<exists>xs0. xs_r xs0 RDI = ly_state ly \<and> ucast (xs_r xs0 RSI) = g \<and> cpu_at ly s (xs_m xs0) \<and> guest_in m (xs_m xs0) \<and>
              host_in ly (xs_m xs0) \<and> p = fst (xe_brind e xs0) \<and> unaligned_load32 (xs_m xs) (ly_state ly + 128) = g))
      | XE_trap xs \<Rightarrow> False)"

definition traps_with :: "xlay \<Rightarrow> cpu_state \<Rightarrow> mem \<Rightarrow> xexit \<Rightarrow> bool" where
  "traps_with ly s m x \<longleftrightarrow>
     (\<exists>xs. x = XE_trap xs \<and> cpu_at ly s (xs_m xs) \<and> unaligned_load32 (xs_m xs) (ly_state ly + 128) = ip s \<and>
        guest_in m (xs_m xs) \<and> host_in ly (xs_m xs))"

lemma brind_entry_at: "BrindCacheEntry_at (qe_brind_cache c) m (l1hash g) = (brind_tag c m g, brind_code c m g)"
  by (simp add: BrindCacheEntry_at_def brind_tag_def brind_code_def brind_entry_def brind_offset_index offs_brind_code_def)

lemma exit_ok_leaves:
  assumes "exit_ok c e ly g ms x" "mrel s ms"
  shows "leaves_to c e ly g s (m_mem ms) x"
proof (cases x)
  case (XE_slot g' cross xs)
  then show ?thesis using assms left_rel_guest [OF _ assms(2)] by (simp add: exit_ok_def leaves_to_def)
next
  case (XE_jmp p xs)
  have m: "mem_ok ly ms m \<Longrightarrow> cpu_at ly s m \<and> guest_in (m_mem ms) m \<and> host_in ly m" for m
    using cpu_in_at [of ly "ms_word ms" m s] mrel_word(1) [OF assms(2)] mrel_trap [OF assms(2)] by (simp add: mem_ok_def)
  consider "brind_tag c (xs_m xs) g = g" "p = brind_code c (xs_m xs) g" "left_rel ly ms xs" |
    xs0 where "xs_r xs0 RDI = ly_state ly" "ucast (xs_r xs0 RSI) = g" "mem_ok ly ms (xs_m xs0)" "p = fst (xe_brind e xs0)" "jumped_rel ly ms g xs"
    using assms(1) XE_jmp by (auto simp: exit_ok_def)
  then show ?thesis
  proof cases
    case 1
    then show ?thesis using left_rel_guest [OF 1(3) assms(2)] by (simp add: leaves_to_def XE_jmp brind_entry_at)
  next
    case 2
    then show ?thesis using jumped_rel_guest [OF 2(5) assms(2)] m [OF 2(3)] by (auto simp: leaves_to_def XE_jmp)
  qed
qed (use assms in \<open>simp add: exit_ok_def\<close>)

lemma trap_traps_with:
  assumes "xrel c ly ms xs" "mrel s ms" "m_gs ms 31 = ip s"
  shows "traps_with ly s (m_mem ms) (XE_trap xs)"
proof -
  have ok: "mem_ok ly ms (xs_m xs)" using assms(1) by (simp add: xrel_def)
  then have "cpu_at ly s (xs_m xs)"
    using cpu_in_at [of ly "ms_word ms" "xs_m xs" s] mrel_word(1) [OF assms(2)] mrel_trap [OF assms(2)] by (simp add: mem_ok_def)
  moreover have "unaligned_load32 (xs_m xs) (ly_state ly + 128) = ip s"
    using cpu_in_load [of ly "ms_word ms" "xs_m xs" 32] ok assms(3) by (simp add: mem_ok_def ms_word_def)
  ultimately show ?thesis using ok by (simp add: traps_with_def mem_ok_def)
qed

definition machine_agrees ::
  "mem \<Rightarrow> qemit \<Rightarrow> xenv \<Rightarrow> xlay \<Rightarrow> nat \<Rightarrow> cpu_state \<Rightarrow> u32 \<Rightarrow> mem \<Rightarrow> xinst list \<Rightarrow> xstate \<Rightarrow> bool" where
  "machine_agrees code c e ly fuel s gip m P xs \<longleftrightarrow>
     (\<exists>k. case xrun e P k 0 xs of
        XExit x \<Rightarrow>
          (\<exists>n s' g m'. 0 < n \<and> interp_run 0 code n s gip m = Next s' g m' \<and> leaves_to c e ly g s' m' x) \<or>
          (\<exists>n s' m'. interp_run 0 code n s gip m = Trapped s' m' \<and> traps_with ly s' m' x)
      | XRun pc xs' \<Rightarrow> fuel \<le> k \<and> (\<exists>n s' g m'. fuel \<le> n \<and> interp_run 0 code n s gip m = Next s' g m')
      | XStuck \<Rightarrow> False)"

text \<open>What the theorem assumes of the machine: the layout of memory, and what calls do.\<close>

definition host_ok :: "qemit \<Rightarrow> xenv \<Rightarrow> xlay \<Rightarrow> bool" where
  "host_ok c e ly \<longleftrightarrow> qe_zero_base c \<and> lay_ok ly \<and> xe_vmem e = 0 \<and> xe_stack e = ly_stack ly \<and> brind_keeps ly e"

lemma machine_code_sim:
  assumes tr: "CompilerGenRegionIR code [rg] 0 = Inr rn" and nc: "no_clobber 0 code TB_MAX_INSNS (fst rg)"
    and gc: "GenerateCode c rn = Inr P" and h: "host_ok c e ly"
    and g: "guest_at ly s m xs" "host_in ly (xs_m xs)" "gpr s 0 = 0"
  shows "unaligned_within 0 code fuel s (fst rg) m \<or> machine_agrees code c e ly fuel s (fst rg) m P xs"
proof (cases "unaligned_within 0 code fuel s (fst rg) m")
  case False
  obtain rn2 calls where ps: "GenerateCode_passes rn = Inr (rn2, calls)" and q: "QCodegen_Run (c\<lparr>qe_leaf := \<not> calls\<rparr>) rn2 = Inr P"
    using gc by (auto simp: GenerateCode_def)
  define c' where "c' = c\<lparr>qe_leaf := \<not> calls\<rparr>"
  define me where "me = \<lparr>e_vmem = 0, e_saved = (\<lambda>p. \<not> rm_Test GPR_CALL_CLOBBER p), e_clob = (\<lambda>p. ucast (xe_clob e p))\<rparr>"
  have me: "call_env me" "e_vmem me = 0" by (simp_all add: me_def call_env_def)
  have env: "emit_env c' ly me e" using h me by (simp add: host_ok_def emit_env_def env_rel_def c'_def) (simp add: me_def)
  have lay: "lay_ok ly" using h by (simp add: host_ok_def)
  note em = passes_emittable(1) [OF tr nc ps]
  obtain ms where ms: "left_rel ly ms xs" "mrel s ms" "m_mem ms = m" by (rule guest_at_mstate [OF g])
  have ms': "mrel s (ms\<lparr>m_pr := pr\<rparr>)" "m_mem (ms\<lparr>m_pr := pr\<rparr>) = m" for pr using ms by (simp_all add: mrel_def as_q_def)
  have lv: "leaves_to c' e ly = leaves_to c e ly"
    by (simp add: fun_eq_iff leaves_to_def c'_def split: xexit.splits)
  show ?thesis
  proof (cases "0 < length (rn_blocks rn2)")
    case True
    obtain n0 pr xs1 pc where en: "xto e P n0 0 xs pc xs1" "xrel c' ly (ms\<lparr>m_pr := pr\<rparr>) xs1" "label_pos P 0 = Some pc"
      by (rule QCodegen_entry [OF q [folded c'_def] True ms(1) lay])
    note sim = compiled_region_sim [OF tr nc ps me ms'(1), of fuel pr, unfolded ms'(2)]
    show ?thesis
    proof (cases "mexec_region me fuel rn2 0 (ms\<lparr>m_pr := pr\<rparr>)")
      case None
      then have "mruns_on me fuel rn2 0 (ms\<lparr>m_pr := pr\<rparr>)" using sim(2) False by simp
      then obtain n pc' xs' where n: "fuel \<le> n" "xrun e P n pc xs1 = XRun pc' xs'"
        using emit_runs_on [OF q [folded c'_def] em env _ en(2,3)] by blast
      then have "xrun e P (n0 + n) 0 xs = XRun pc' xs'" using en(1) by (simp add: xto_def)
      moreover have "\<exists>n s' g m'. fuel \<le> n \<and> interp_run 0 code n s (fst rg) m = Next s' g m'"
        using sim(1) None False by (simp add: mregion_agrees_def)
      ultimately show ?thesis using n(1) unfolding machine_agrees_def by (intro disjI2 exI [of _ "n0 + n"]) simp
    next
      case (Some r)
      note run = emit_region_sim [OF q [folded c'_def] em env Some en(2,3)]
      have fin: ?thesis if x: "xends e P pc xs1 x"
        "(\<exists>n s' g m'. 0 < n \<and> interp_run 0 code n s (fst rg) m = Next s' g m' \<and> leaves_to c e ly g s' m' x) \<or>
         (\<exists>n s' m'. interp_run 0 code n s (fst rg) m = Trapped s' m' \<and> traps_with ly s' m' x)" for x
      proof -
        obtain k where "xrun e P k 0 xs = XExit x" using xto_ends [OF en(1) x(1)] by (auto simp: xends_def)
        then show ?thesis using x(2) unfolding machine_agrees_def by (intro disjI2 exI [of _ k]) simp
      qed
      show ?thesis
      proof (cases r)
        case (MExit gi ms2)
        then obtain x where x: "xends e P pc xs1 x" "exit_ok c' e ly gi ms2 x" using run by auto
        obtain n s' where n: "0 < n" "interp_run 0 code n s (fst rg) m = Next s' gi (m_mem ms2)" "mrel s' ms2"
          using sim(1) Some MExit False by (auto simp: mregion_agrees_def)
        show ?thesis by (rule fin [OF x(1)]) (use n exit_ok_leaves [OF x(2) n(3)] lv in auto)
      next
        case (MTrap ms2)
        then obtain xs2 where x: "xends e P pc xs1 (XE_trap xs2)" "xrel c' ly ms2 xs2" using run by auto
        obtain n s' where n: "interp_run 0 code n s (fst rg) m = Trapped s' (m_mem ms2)" "mrel s' ms2" "m_gs ms2 31 = ip s'"
          using sim(1) Some MTrap False by (auto simp: mregion_agrees_def)
        show ?thesis by (rule fin [OF x(1)]) (use n(1) trap_traps_with [OF x(2) n(2,3)] in blast)
      qed (use run in auto)
    qed
  next
    case False
    then have z: "mexec_region me fuel rn2 0 ms = None" by (cases fuel) auto
    then have "fuel = 0" using compiled_region_sim(2) [OF tr nc ps me ms(2) z] \<open>\<not> unaligned_within 0 code fuel s (fst rg) m\<close> False ms(3)
      by (cases fuel) auto
    then show ?thesis unfolding machine_agrees_def by (intro disjI2 exI [of _ 0]) (auto intro!: exI [of _ "0 :: nat"])
  qed
qed simp

lemma xrun_exit_mono: "xrun e P k pc xs = XExit x \<Longrightarrow> k \<le> k' \<Longrightarrow> xrun e P k' pc xs = XExit x"
proof (induction k arbitrary: k' pc xs)
  case (Suc k)
  obtain j where "k' = Suc j" "k \<le> j" using Suc.prems(2) by (cases k') auto
  then show ?case using Suc by (auto split: if_splits option.splits xout.splits)
qed simp

lemma xrun_exit_det: "xrun e P k pc xs = XExit x \<Longrightarrow> xrun e P k' pc xs = XExit x' \<Longrightarrow> x' = x"
  using xrun_exit_mono [of e P k pc xs x "max k k'"] xrun_exit_mono [of e P k' pc xs x' "max k k'"] by simp

text \<open>What a run that leaves gives, whatever number of steps it takes.\<close>

lemma machine_run_exit:
  assumes "CompilerGenRegionIR code [rg] 0 = Inr rn" "no_clobber 0 code TB_MAX_INSNS (fst rg)"
    and "GenerateCode c rn = Inr P" "host_ok c e ly"
    and "guest_at ly s m xs" "host_in ly (xs_m xs)" "gpr s 0 = 0"
    and x: "xrun e P k 0 xs = XExit x"
  shows "unaligned_within 0 code (Suc k) s (fst rg) m \<or>
    (\<exists>n s' g m'. 0 < n \<and> interp_run 0 code n s (fst rg) m = Next s' g m' \<and> leaves_to c e ly g s' m' x) \<or>
    (\<exists>n s' m'. interp_run 0 code n s (fst rg) m = Trapped s' m' \<and> traps_with ly s' m' x)"
proof (cases "unaligned_within 0 code (Suc k) s (fst rg) m")
  case False
  then obtain k' where k': "case xrun e P k' 0 xs of
        XExit x \<Rightarrow>
          (\<exists>n s' g m'. 0 < n \<and> interp_run 0 code n s (fst rg) m = Next s' g m' \<and> leaves_to c e ly g s' m' x) \<or>
          (\<exists>n s' m'. interp_run 0 code n s (fst rg) m = Trapped s' m' \<and> traps_with ly s' m' x)
      | XRun pc xs' \<Rightarrow> Suc k \<le> k' \<and> (\<exists>n s' g m'. Suc k \<le> n \<and> interp_run 0 code n s (fst rg) m = Next s' g m')
      | XStuck \<Rightarrow> False"
    using machine_code_sim [OF assms(1-7), of "Suc k"] unfolding machine_agrees_def by blast
  show ?thesis
  proof (cases "xrun e P k' 0 xs")
    case (XExit x')
    then have "x' = x" by (rule xrun_exit_det [OF x])
    then show ?thesis using k' XExit by simp
  next
    case (XRun pc xs')
    then show ?thesis using k' xrun_exit_mono [OF x, of k'] by simp
  qed (use k' in simp)
qed simp

text \<open>Host code keeps the word of \<open>x0\<close> in the CPU state zero.\<close>

primrec xexit_state :: "xexit \<Rightarrow> xstate" where
  "xexit_state (XE_slot g cross xs) = xs" | "xexit_state (XE_jmp p xs) = xs" | "xexit_state (XE_trap xs) = xs"

lemma machine_code_keeps_x0:
  assumes "CompilerGenRegionIR code [rg] 0 = Inr rn" "no_clobber 0 code TB_MAX_INSNS (fst rg)"
    and "GenerateCode c rn = Inr P" "host_ok c e ly"
    and "guest_at ly s m xs" "host_in ly (xs_m xs)" "gpr s 0 = 0" "xrun e P k 0 xs = XExit x"
  shows "unaligned_within 0 code (Suc k) s (fst rg) m \<or> unaligned_load32 (xs_m (xexit_state x)) (ly_state ly) = 0"
proof -
  have r: "interp_run 0 code n s (fst rg) m = h \<Longrightarrow> gpr (res_cpu h) 0 = 0" for n h
    using interp_run_x0 [OF assms(7)] by blast
  have c: "cpu_at ly s' q \<Longrightarrow> unaligned_load32 q (ly_state ly) = gpr s' 0" for s' q
    by (auto simp: cpu_at_def dest: spec [of _ 0])
  show ?thesis
    using machine_run_exit [OF assms] r c
    by (cases x) (fastforce simp: leaves_to_def traps_with_def guest_at_def)+
qed

text \<open>
  C1. Host code refines the interpreter. For a translated range none of whose first 64 words is a
  load to \<open>x0\<close> with zero offset, and a build with the guest's memory at address \<open>0\<close>: from any machine state that holds the
  guest's registers and memory, the code generated for the range ends in a state that holds the
  registers and memory the interpreter reaches, leaving for the address the interpreter reaches (through
  the branch slot of that address, to the code in the entry of \<open>l1_brind_cache\<close> for it, or to what the
  indirect branch stub returns for it), or with the interpreter's trap; it runs on only while the
  interpreter does; it never gets stuck, calls with a misaligned stack or writes to host memory outside
  the guest, its CPU state, the spill frame and the stack below. Excepted are guest states from which
  the interpreter, within the instructions of \<open>fuel\<close> blocks, traps on a misaligned jump, which translated
  code does not check.
\<close>

theorem machine_code_correct:
  assumes "CompilerGenRegionIR code [rg] 0 = Inr rn" "no_clobber 0 code TB_MAX_INSNS (fst rg)"
    and "GenerateCode c rn = Inr P" "host_ok c e ly"
    and "guest_at ly s m xs" "host_in ly (xs_m xs)" "gpr s 0 = 0"
  shows "unaligned_within 0 code fuel s (fst rg) m \<or> machine_agrees code c e ly fuel s (fst rg) m P xs"
  by (rule machine_code_sim [OF assms])

subsection \<open>A machine\<close>

definition demo_mem :: mem where
  "demo_mem = (\<lambda>q. if q < 2 ^ 32 + 3 then bltu_mem q else 0)"

definition demo_lay :: xlay where
  "demo_lay = \<lparr>ly_state = 0x200000000, ly_frame = 0x300000000, ly_stack = 4096, ly_host = demo_mem\<rparr>"

definition demo_env :: xenv where
  "demo_env = \<lparr>xe_vmem = 0, xe_stack = 4096, xe_clob = (\<lambda>_. 0xdeadbeef), xe_scratch = (\<lambda>_. 0xff),
     xe_brind = (\<lambda>xs. (0x500000000, unaligned_store32 (xs_m xs) (xs_r xs RDI + 128) (ucast (xs_r xs RSI))))\<rparr>"

definition demo_state :: xstate where
  "demo_state = \<lparr>xs_r = (\<lambda>p. if p = STATE then 0x200000000 else if p = SP then 0x300000000 - 8 else 0x1234),
     xs_m = demo_mem, xs_f = None\<rparr>"

lemma below_unat:
  fixes q b n :: u64
  assumes "q - b < n" "unat b + unat n < 2 ^ 64"
  shows "unat b \<le> unat q \<and> unat q < unat b + unat n"
proof -
  have d: "unat (q - b) < unat n" using assms(1) by (simp add: word_less_nat_alt)
  then have "unat (b + (q - b)) = unat b + unat (q - b)"
    using assms(2) by (subst unat_plus_if') simp
  then show ?thesis using d by simp
qed

lemma demo_areas:
  "in_cpu demo_lay q \<Longrightarrow> 0x200000000 \<le> unat q \<and> unat q < 0x200000088"
  "in_frame demo_lay q \<Longrightarrow> 0x300000000 \<le> unat q \<and> unat q < 0x300000400"
  "in_guest q \<Longrightarrow> unat q < 0x100000003"
  "in_stk demo_lay q \<Longrightarrow> 0x2ffffeff0 \<le> unat q \<and> unat q < 0x2fffffff8"
proof -
  show "in_cpu demo_lay q \<Longrightarrow> 0x200000000 \<le> unat q \<and> unat q < 0x200000088"
    using below_unat [of q "0x200000000" 136] by (simp add: in_cpu_def demo_lay_def sizeof_cpu_words_def)
  show "in_frame demo_lay q \<Longrightarrow> 0x300000000 \<le> unat q \<and> unat q < 0x300000400"
    using below_unat [of q "0x300000000" 1024] by (simp add: in_frame_def demo_lay_def spillframe_size_def)
  show "in_guest q \<Longrightarrow> unat q < 0x100000003" by (simp add: in_guest_def word_less_nat_alt)
  assume "in_stk demo_lay q"
  then have d: "0 < 0x2fffffff8 - q" "0x2fffffff8 - q \<le> 4104" by (simp_all add: in_stk_def entry_sp_def demo_lay_def)
  have "unat (0x2fffffff8 - (0x2fffffff8 - q)) = unat (0x2fffffff8 :: u64) - unat (0x2fffffff8 - q)"
    using d(2) by (intro unat_sub) (simp add: word_le_nat_alt)
  then show "0x2ffffeff0 \<le> unat q \<and> unat q < 0x2fffffff8" using d by (simp add: word_le_nat_alt word_less_nat_alt)
qed

lemma demo_host_ok: "host_ok demo_emit demo_env demo_lay"
proof -
  have "lay_ok demo_lay"
    unfolding lay_ok_def
  proof (intro conjI allI impI)
    fix q
    show "in_cpu demo_lay q \<Longrightarrow> \<not> in_frame demo_lay q" "in_cpu demo_lay q \<Longrightarrow> \<not> in_guest q" "in_cpu demo_lay q \<Longrightarrow> \<not> in_stk demo_lay q"
      "in_frame demo_lay q \<Longrightarrow> \<not> in_guest q" "in_frame demo_lay q \<Longrightarrow> \<not> in_stk demo_lay q" "in_guest q \<Longrightarrow> \<not> in_stk demo_lay q"
      using demo_areas [of q] by auto
  qed (simp_all add: demo_lay_def)
  then show ?thesis by (simp add: host_ok_def demo_emit_def demo_env_def brind_keeps_def) (simp add: demo_lay_def)
qed

lemma demo_guest: "guest_at demo_lay init_cpu bltu_mem demo_state" "host_in demo_lay (xs_m demo_state)"
proof -
  have z: "demo_mem q = 0" if "0x100000003 \<le> unat q" for q using that by (simp add: demo_mem_def word_less_nat_alt)
  have "cpu_in demo_lay (\<lambda>_. 0) demo_mem"
    unfolding cpu_in_def
  proof (intro allI impI)
    fix x assume "x < sizeof_cpu_words"
    then have "in_cpu demo_lay (ly_state demo_lay + x)" by (simp add: in_cpu_def)
    from demo_areas(1) [OF this] z [of "ly_state demo_lay + x"] show "demo_mem (ly_state demo_lay + x) = word_bytes (\<lambda>_. 0) x"
      by (simp add: word_bytes_def)
  qed
  then have "cpu_at demo_lay init_cpu demo_mem" by (rule cpu_in_at) (simp_all add: init_cpu_def)
  moreover have "guest_in bltu_mem demo_mem" by (simp add: guest_in_def in_guest_def demo_mem_def)
  ultimately show "guest_at demo_lay init_cpu bltu_mem demo_state"
    by (simp add: guest_at_def demo_state_def) (simp add: demo_lay_def entry_sp_def reg_defs)
  show "host_in demo_lay (xs_m demo_state)" by (simp add: host_in_def demo_state_def) (simp add: demo_lay_def)
qed

theorem machine_code_correct_witness:
  "\<exists>P. GenerateCode demo_emit bltu_region = Inr P \<and> host_ok demo_emit demo_env demo_lay \<and>
     guest_at demo_lay init_cpu bltu_mem demo_state \<and>
     (unaligned_within 0 bltu_mem 2 init_cpu 0x1000 bltu_mem \<or>
      machine_agrees bltu_mem demo_emit demo_env demo_lay 2 init_cpu 0x1000 bltu_mem P demo_state)"
proof -
  obtain P where P: "GenerateCode demo_emit bltu_region = Inr P"
    using GenerateCode_done [OF bltu_translate, of demo_emit] bltu_no_clobber by (auto simp: demo_emit_def)
  have g: "gpr init_cpu 0 = 0" by (simp add: init_cpu_def)
  from machine_code_correct [OF bltu_translate _ P demo_host_ok demo_guest g, of 2] show ?thesis
    using P demo_host_ok demo_guest(1) bltu_no_clobber by auto
qed
end
