(* ===== verification/Execute.thy ===== *)
theory Execute
  imports Codegen
begin

section \<open>The execution loop: execute.cpp, ir/compile.cpp, codegen/jitabi.cpp\<close>

text \<open>
  \<open>Execute\<close> looks up or compiles the block for the current guest address, links the slot through
  which the last region was left, and enters the block. Translated code comes back with a slot, or
  with null after an indirect branch, or by a trap. The stubs that translated code calls to leave a
  region look up the target themselves and only return to the loop when it is not translated.
  Parameters are the assembler, which turns the host instructions of \<open>GenerateCode\<close> into bytes, and
  what the processor does with those bytes up to the next lookup.
\<close>

subsection \<open>State\<close>

record exec_state =
  x_cpu :: cpu_state
  x_tc :: tcache
  x_mem :: mem
  is_current :: bool

text \<open>
  There is one \<open>CPUState\<close>, \<open>x_cpu\<close>; \<open>is_current\<close> says that \<open>CPUState::Current()\<close> points to it and is not
  null.
\<close>

definition SetCurrent :: "exec_state \<Rightarrow> exec_state" where
  "SetCurrent st = st\<lparr>is_current := True\<rparr>"

subsection \<open>Compiling a block\<close>

text \<open>\<open>roundup\<close> computes in 64 bits here and truncates to the type of its first argument.\<close>

definition GetCompilationIPRange :: "tcache \<Rightarrow> u32 \<Rightarrow> u32 \<times> u32" where
  "GetCompilationIPRange tc a =
     (let upper = ucast (roundup (ucast a :: u64) (ucast PAGE_SIZE)) :: u32;
          tb_upper = LookupUpperBound a tc
      in (a, if tb_upper \<noteq> 0 then min upper (tb_ip (tb_heap tc tb_upper)) else upper))"

definition AnnounceRegion :: "u32 \<Rightarrow> uptr \<Rightarrow> u64 \<Rightarrow> tcache \<Rightarrow> (uptr \<times> tcache) res" where
  "AnnounceRegion a code sz tc =
     rbind (AllocateTBlock tc) (\<lambda>(tb, tc1).
       if tb = 0 then Inl (Panic [])
       else
         let b = (tb_heap tc1 tb)\<lparr>tb_ip := a, tc_ptr := code, tc_size := sz\<rparr>;
             tc2 = tc1\<lparr>tb_heap := (tb_heap tc1)(tb := b)\<rparr>
         in Inr (tb, Insert tb tc2))"

text \<open>
  The assembler, \<open>asmjit\<close>: of a list of host instructions the size of the code and how it is copied
  to its address; its error handler panics.
\<close>

type_synonym assembler = "xinst list \<Rightarrow> (u64 \<times> (uptr \<Rightarrow> mem \<Rightarrow> mem)) res"

definition EmitCode :: "u64 \<times> (uptr \<Rightarrow> mem \<Rightarrow> mem) \<Rightarrow> tcache \<times> mem \<Rightarrow> (uptr \<times> tcache \<times> mem) res" where
  "EmitCode img st =
     rbind (AllocateCode (fst img) 8 (fst st)) (\<lambda>(p, tc).
       if p = 0 then Inl (Panic []) else Inr (p, tc, snd img p (snd st)))"

text \<open>
  \<open>c\<close> is the configuration of the build: whether the guest's memory is at address \<open>0\<close>, and where
  \<open>l1_brind_cache\<close> is. The arena of the intermediate code has no counterpart: a range has at most 64
  guest instructions, whose 384 instructions of intermediate code at most (\<open>CompilerGenRegionIR_wf\<close>) are
  far below its megabyte.
\<close>

definition CompilerDoJob ::
  "qemit \<Rightarrow> assembler \<Rightarrow> uptr \<Rightarrow> u32 \<times> u32 \<Rightarrow> (u32 \<times> u32) list \<Rightarrow> tcache \<times> mem \<Rightarrow> (uptr \<times> tcache \<times> mem) res" where
  "CompilerDoJob c asm vmem seg ipranges st =
     (let entry_ip = fst (ipranges ! 0) in
      rbind (CompilerGenRegionIR (snd st) ipranges vmem) (\<lambda>rn.
      rbind (GenerateCode (c\<lparr>qe_segment := seg\<rparr>) rn) (\<lambda>xcode.
      rbind (asm xcode) (\<lambda>img.
      rbind (EmitCode img st) (\<lambda>(code, tc, m).
      rbind (AnnounceRegion entry_ip code (fst img) tc) (\<lambda>(tb, tc').
        Inr (tb, tc', m)))))))"

subsection \<open>The loop\<close>

definition HandleTrap :: "cpu_state \<Rightarrow> bool" where
  "HandleTrap s \<longleftrightarrow> \<not> IsTrapPending s"

text \<open>
  One iteration up to the entry of the block: the address entered and the state.
\<close>

definition Execute_enter :: "qemit \<Rightarrow> assembler \<Rightarrow> uptr \<Rightarrow> uptr \<Rightarrow> exec_state \<Rightarrow> (uptr \<times> exec_state) res" where
  "Execute_enter c asm base branch_slot st =
     (let a = ip (x_cpu st) in
      if \<not> is_current st then Inl AssertFail
      else if gpr (x_cpu st) 0 \<noteq> 0 then Inl AssertFail
      else if branch_slot \<noteq> 0 \<and> slot_gip (x_mem st) branch_slot \<noteq> a then Inl AssertFail
      else
        let (found, tc1) = Lookup a (x_tc st) in
        rbind
          (if found = 0 then
             CompilerDoJob c asm base (rounddown a PAGE_SIZE, PAGE_SIZE) [GetCompilationIPRange tc1 a]
               (tc1, x_mem st)
           else Inr (found, tc1, x_mem st))
          (\<lambda>(tb, tc2, m2).
             let code = tc_ptr (tb_heap tc2 tb) in
             Inr (code,
               if branch_slot \<noteq> 0 then
                 st\<lparr>x_mem := Link m2 branch_slot code,
                    x_tc := RecordLink branch_slot tb
                      (slot_cross_segment (Link m2 branch_slot code) branch_slot) tc2\<rparr>
               else st\<lparr>x_mem := m2, x_tc := CacheBrind tb tc2\<rparr>)))"

subsection \<open>Stubs that leave a region\<close>

text \<open>
  Where a stub continues: in translated code, or out of it with the slot in \<open>rax\<close> (\<open>escape_link\<close>) or
  with null (\<open>escape_brind\<close>).
\<close>

datatype stub_target = Enter uptr | Escape_link uptr | Escape_brind

definition TryLinkBranch :: "uptr \<Rightarrow> exec_state \<Rightarrow> stub_target \<times> exec_state" where
  "TryLinkBranch slot st =
     (let g = slot_gip (x_mem st) slot; (found, tc1) = Lookup g (x_tc st) in
      if found \<noteq> 0 then
        let code = tc_ptr (tb_heap tc1 found); m1 = Link (x_mem st) slot code in
        (Enter code, st\<lparr>x_mem := m1, x_tc := RecordLink slot found (slot_cross_segment m1 slot) tc1\<rparr>)
      else (Escape_link slot, st\<lparr>x_tc := tc1, x_cpu := (x_cpu st)\<lparr>ip := g\<rparr>\<rparr>))"

definition qcg_TryLinkBranchJIT :: "uptr \<Rightarrow> exec_state \<Rightarrow> stub_target \<times> exec_state" where
  "qcg_TryLinkBranchJIT retaddr st = TryLinkBranch (FromCallPtrRetaddr retaddr) st"

definition qcgstub_brind :: "u32 \<Rightarrow> exec_state \<Rightarrow> stub_target \<times> exec_state" where
  "qcgstub_brind gip st =
     (let st0 = st\<lparr>x_cpu := (x_cpu st)\<lparr>ip := gip\<rparr>\<rparr>; (found, tc1) = Lookup gip (x_tc st0) in
      if found \<noteq> 0 then (Enter (tc_ptr (tb_heap tc1 found)), st0\<lparr>x_tc := CacheBrind found tc1\<rparr>)
      else (Escape_brind, st0\<lparr>x_tc := tc1\<rparr>))"

subsection \<open>Running translated code\<close>

text \<open>
  \<open>region p (cpu, m)\<close> is what the processor does with the translated code at \<open>p\<close>, through branches that are
  linked already, until the code needs the translation cache: it calls the linking stub from a slot (with the return
  address of the call), it comes to an indirect branch (with the guest address it goes to), or a helper
  raises a trap. It is \<open>None\<close> when none of these happens.
\<close>

datatype region_exit = R_link uptr | R_brind u32 | R_trap

type_synonym host_code = "uptr \<Rightarrow> cpu_state \<times> mem \<Rightarrow> (region_exit \<times> cpu_state \<times> mem) option"

text \<open>
  \<open>run_jit\<close> is what happens between the entry by \<open>trampoline_to_jit\<close> (in Trampoline) and its return of a slot (null after an indirect branch), or a trap unwinds to the
  start of \<open>Execute\<close>. In between, the stubs continue in translated code as long as the target is
  translated: an indirect branch first by its inlined lookup, then by \<open>qcgstub_brind\<close>. \<open>fuel\<close> bounds the
  number of lookups.
\<close>

datatype jit_exit = J_slot uptr exec_state | J_trap exec_state

fun run_jit :: "host_code \<Rightarrow> nat \<Rightarrow> uptr \<Rightarrow> exec_state \<Rightarrow> jit_exit option" where
  "run_jit region 0 p st = None"
| "run_jit region (Suc fuel) p st =
     (case region p (x_cpu st, x_mem st) of
        None \<Rightarrow> None
      | Some (x, cpu, m) \<Rightarrow>
          (let st1 = st\<lparr>x_cpu := cpu, x_mem := m\<rparr>;
               stub = (\<lambda>(t, st2). case t of
                   Enter p2 \<Rightarrow> run_jit region fuel p2 st2
                 | Escape_link slot \<Rightarrow> Some (J_slot slot st2)
                 | Escape_brind \<Rightarrow> Some (J_slot 0 st2))
           in case x of
                R_link retaddr \<Rightarrow> stub (qcg_TryLinkBranchJIT retaddr st1)
              | R_brind g \<Rightarrow>
                  (case brind_fast (x_tc st1) g of
                     Some p2 \<Rightarrow> run_jit region fuel p2 st1
                   | None \<Rightarrow> stub (qcgstub_brind g st1))
              | R_trap \<Rightarrow> Some (J_trap st1)))"

text \<open>The loop; \<open>fuel\<close> bounds the number of iterations and, in each, of lookups.\<close>

fun Execute :: "qemit \<Rightarrow> assembler \<Rightarrow> host_code \<Rightarrow> uptr \<Rightarrow> nat \<Rightarrow> uptr \<Rightarrow> exec_state \<Rightarrow> exec_state res option" where
  "Execute c asm region base 0 branch_slot st = None"
| "Execute c asm region base (Suc fuel) branch_slot st =
     (if HandleTrap (x_cpu st) then Some (Inr st)
      else case Execute_enter c asm base branch_slot st of
        Inl e \<Rightarrow> Some (Inl e)
      | Inr (code, st1) \<Rightarrow>
          (case run_jit region (Suc fuel) code st1 of
             None \<Rightarrow> None
           | Some (J_slot slot st2) \<Rightarrow> Execute c asm region base fuel slot st2
           | Some (J_trap st2) \<Rightarrow> Execute c asm region base fuel 0 st2))"


subsection \<open>Announcing a block\<close>

lemma AnnounceRegion_spec:
  assumes "tc_ok tc" "block_of tc a = None" "AnnounceRegion a code sz tc = Inr (tb, tc')"
  shows "tc_ok tc'" "code_of tc' = (code_of tc)(a \<mapsto> code)" "block_of tc' = (block_of tc)(a \<mapsto> tb)"
    "tc_ptr (tb_heap tc' tb) = code" "tb \<noteq> 0"
proof -
  obtain tc1 where al: "AllocateTBlock tc = Inr (tb, tc1)"
    and tc': "tc' = Insert tb (tc1\<lparr>tb_heap := (tb_heap tc1)(tb :=
        (tb_heap tc1 tb)\<lparr>tb_ip := a, tc_ptr := code, tc_size := sz\<rparr>)\<rparr>)"
    using assms(3) by (auto simp: AnnounceRegion_def Let_def split: if_splits)
  note 1 = AllocateTBlock_spec [OF assms(1) al]
  define b where "b = (tb_heap tc1 tb)\<lparr>tb_ip := a, tc_ptr := code, tc_size := sz\<rparr>"
  define tc2 where "tc2 = tc1\<lparr>tb_heap := (tb_heap tc1)(tb := b)\<rparr>"
  have bl: "block_of tc2 = block_of tc" using 1(2) by (simp add: block_of_def tc2_def)
  have ne: "q \<noteq> tb" if "block_of tc x = Some q" for x q using 1(4) that by blast
  have co: "code_of tc2 = code_of tc"
    unfolding 1(3) [symmetric] fun_eq_iff code_of_def bl 1(2)
    using ne by (auto simp: tc2_def intro: option.map_cong)
  have "Tcache.block_ok tc2 x q = Tcache.block_ok tc1 x q" if "block_of tc x = Some q" for x q
    using ne [OF that] by (simp add: Tcache.block_ok_def tc2_def)
  then have ok2: "tc_ok tc2"
    using 1(1-3) unfolding tc_ok_def bl co by (simp add: tc2_def)
  have "Tcache.block_ok tc2 a tb" using 1(5,6) by (simp add: Tcache.block_ok_def tc2_def b_def)
  note 2 = Insert_spec [OF ok2 this]
  have t: "tc' = Insert tb tc2" by (simp add: tc' tc2_def b_def)
  show "tc_ok tc'" "block_of tc' = (block_of tc)(a \<mapsto> tb)" "tb \<noteq> 0"
    using 2 assms(2) 1(5) by (simp_all add: t bl)
  show "code_of tc' = (code_of tc)(a \<mapsto> code)"
    using 2(3) assms(2) by (simp add: t bl co) (simp add: tc2_def b_def)
  show "tc_ptr (tb_heap tc' tb) = code" by (simp add: t Insert_def tc2_def b_def Let_def)
qed

text \<open>
  C20. Announcing a region for an address that has no block adds exactly that block: the abstract
  map from guest addresses to code is updated at the address and nowhere else, the invariant
  holds, and the next lookup of the address finds the new block.
\<close>

theorem AnnounceRegion_refines_update:
  assumes "tc_ok tc" "block_of tc a = None" "AnnounceRegion a code sz tc = Inr (tb, tc')"
  shows "tc_ok tc' \<and> code_of tc' = (code_of tc)(a \<mapsto> code) \<and> fst (Lookup a tc') = tb \<and> tb \<noteq> 0"
  using AnnounceRegion_spec [OF assms] Lookup_spec(1) [of tc' a]
  by (simp add: LookupFull_def block_of_def [symmetric])

theorem AnnounceRegion_refines_update_witness:
  "\<exists>tb tc'. AnnounceRegion 0x2000 0x8000 100 one_block = Inr (tb, tc') \<and>
     code_of tc' 0x2000 = Some 0x8000 \<and> code_of tc' 0x1000 = Some 0x7000 \<and> fst (Lookup 0x2000 tc') = tb"
proof -
  obtain tb tc' where a: "AnnounceRegion 0x2000 0x8000 100 one_block = Inr (tb, tc')"
    by (simp add: AnnounceRegion_def AllocateTBlock_def Allocate_def one_block_def sizeof_TBlock_def
        alignof_TBlock_def roundup_def)
  have "code_of one_block 0x1000 = Some 0x7000"
    by (simp add: code_of_def one_block_ok(2)) (simp add: one_block_def)
  with AnnounceRegion_refines_update [OF one_block_ok(1,3) a] a show ?thesis by auto
qed

subsection \<open>The range to compile\<close>

lemma next_page: "x mod 4096 \<noteq> 0 \<Longrightarrow> (x + 4095) div 4096 = x div 4096 + (1 :: nat)"
proof -
  assume nz: "x mod 4096 \<noteq> 0"
  have "x + 4095 = 4096 * (x div 4096 + 1) + (x mod 4096 - 1)"
    using nz by simp
  moreover have "x mod 4096 - 1 < 4096"
    by (meson less_imp_diff_less mod_less_divisor zero_less_numeral)
  ultimately show ?thesis by (metis add.right_neutral div_less div_mult_self4 zero_neq_numeral)
qed
lemma page_end: "x < (x div 4096 + 1) * (4096 :: nat)"
  using dividend_less_div_times [of 4096 x] by simp

lemma page_roundup:
  "ucast (roundup (ucast (a :: u32) :: u64) (ucast PAGE_SIZE)) = (word_of_nat ((unat a + 4095) div 4096 * 4096) :: u32)"
proof -
  have "unat a < 2 ^ 32" using unsigned_less [of a, where 'a = nat] by simp
  then have a: "unat (ucast a :: u64) = unat a" "unat a < 2 ^ 32"
    by (simp_all add: unsigned_ucast_eq take_bit_nat_eq_self)
  then have "unat (roundup (ucast a :: u64) (ucast PAGE_SIZE)) = (unat a + 4095) div 4096 * 4096"
    by (subst unat_roundup) (simp_all add: PAGE_SIZE_def a)
  then show ?thesis
    by (metis of_nat_unat)
qed

lemma compilation_upper:
  assumes "tc_ok tc"
  shows "\<exists>upper. GetCompilationIPRange tc a = (a, upper) \<and>
    (\<forall>x. a < x \<longrightarrow> x < upper \<longrightarrow> block_of tc x = None) \<and>
    (upper = word_of_nat ((unat a + 4095) div 4096 * 4096) \<or>
     (a < upper \<and> upper < word_of_nat ((unat a + 4095) div 4096 * 4096) \<and> block_of tc upper \<noteq> None))"
proof (cases "om_upper a (tcache_map tc)")
  case None
  then have "\<And>x. a < x \<Longrightarrow> block_of tc x = None"
    unfolding block_of_def using om.upper_above tc_okD(1) [OF assms] by blast
  with None show ?thesis
    by (auto simp: GetCompilationIPRange_def LookupUpperBound_def page_roundup)
next
  case (Some e)
  obtain k q where e: "e = (k, q)" by fastforce
  note om = om.upper_Some [OF tc_okD(1) [OF assms], of a k q]
  have k: "a < k" "block_of tc k = Some q" "\<And>x. a < x \<Longrightarrow> x < k \<Longrightarrow> block_of tc x = None"
    using om Some by (auto simp: e block_of_def)
  have q: "q \<noteq> 0" "tb_ip (tb_heap tc q) = k"
    using tc_okD(4) [OF assms k(2)] by (simp_all add: Tcache.block_ok_def)
  show ?thesis
    using Some k q
    by (auto simp: e GetCompilationIPRange_def LookupUpperBound_def page_roundup min_def Let_def not_le)
qed

text \<open>
  C31. The range to compile starts at the address and ends at the next page boundary or at the first
  block behind the address, whichever comes first: its end is one of the two, and neither lies
  strictly inside it. This is so except in two cases. At the start of a page the range is empty (one
  instruction is translated); in the last page of the address space its end wraps to \<open>0\<close>.
\<close>

theorem GetCompilationIPRange_correct:
  assumes "tc_ok tc"
  shows "fst (GetCompilationIPRange tc a) = a \<and>
    (let upper = snd (GetCompilationIPRange tc a); page_end = (unat a div 4096 + 1) * 4096 in
     if unat a mod 4096 = 0 then upper = a
     else if 2 ^ 32 - 4096 < unat a then upper = 0
     else a < upper \<and>
       (unat upper = page_end \<or> unat upper < page_end \<and> block_of tc upper \<noteq> None) \<and>
       (\<forall>x. a < x \<and> x < upper \<longrightarrow> block_of tc x = None))"
proof -
  define p where "p = (word_of_nat ((unat a + 4095) div 4096 * 4096) :: u32)"
  obtain upper where up: "GetCompilationIPRange tc a = (a, upper)"
    and gap: "\<And>x. a < x \<Longrightarrow> x < upper \<Longrightarrow> block_of tc x = None"
    and bound: "upper = p \<or> (a < upper \<and> upper < p \<and> block_of tc upper \<noteq> None)"
    using compilation_upper [OF assms, of a] unfolding p_def by blast
  have "unat a mod 4096 = 0 \<Longrightarrow> (unat a + 4095) div 4096 * 4096 = unat a"
    by (auto simp: mod_eq_0_iff_dvd elim!: dvdE)
  then have c1: "unat a mod 4096 = 0 \<Longrightarrow> p = a"
    by (simp add: p_def)
  note nx = next_page [of "unat a"]
  have c2: "p = 0" if "unat a mod 4096 \<noteq> 0" "2 ^ 32 - 4096 < unat a"
  proof -
    have "unat a < 2 ^ 32" using unsigned_less [of a, where 'a = nat] by simp
    with that have "unat a div 4096 + 1 = 2 ^ 20" by simp
    then show ?thesis by (simp add: p_def nx [OF that(1)])
  qed
  have c3: "unat p = (unat a div 4096 + 1) * 4096" if "unat a mod 4096 \<noteq> 0" "unat a \<le> 2 ^ 32 - 4096"
  proof -
    have "unat a \<noteq> 2 ^ 32 - 4096" using that(1) by auto
    with that(2) have "unat a div 4096 + 1 < 2 ^ 20" by simp
    then have "(unat a div 4096 + 1) * 4096 < 2 ^ 32" by simp
    then show ?thesis
      unfolding p_def nx [OF that(1)] by (simp only: unat_of_nat) (simp add: take_bit_nat_eq_self)
  qed
  note lt = page_end [of "unat a"]
  consider "unat a mod 4096 = 0" | "unat a mod 4096 \<noteq> 0" "2 ^ 32 - 4096 < unat a"
    | "unat a mod 4096 \<noteq> 0" "unat a \<le> 2 ^ 32 - 4096" by linarith
  then show ?thesis
  proof cases
    case 1
    with c1 bound show ?thesis by (auto simp: up)
  next
    case 2
    with c2 bound show ?thesis by (auto simp: up)
  next
    case 3
    with c3 lt have "a < p" by (simp add: word_less_nat_alt)
    with 3 c3 bound gap show ?thesis by (auto simp: up word_less_nat_alt)
  qed
qed

theorem GetCompilationIPRange_correct_witness:
  "\<exists>tc. tc_ok tc \<and> GetCompilationIPRange tc 0x1004 = (0x1004, 0x1080)"
proof -
  obtain tb tc where an: "AnnounceRegion 0x1080 0x8000 100 one_block = Inr (tb, tc)"
    by (simp add: AnnounceRegion_def AllocateTBlock_def Allocate_def one_block_def sizeof_TBlock_def
        alignof_TBlock_def roundup_def)
  have bl: "block_of one_block x = (if x = 0x1000 then Some 0x40000 else None)" for x
    by (simp add: block_of_def one_block_def)
  have "block_of one_block 0x1080 = None" by (simp add: bl)
  note A = AnnounceRegion_spec [OF one_block_ok(1) this an]
  have blk: "block_of tc x \<noteq> None \<longleftrightarrow> x = 0x1000 \<or> x = 0x1080" for x by (simp add: A(3) bl)
  define u where "u = snd (GetCompilationIPRange tc 0x1004)"
  have c: "fst (GetCompilationIPRange tc 0x1004) = 0x1004" "0x1004 < u" "unat u = 0x2000 \<or> block_of tc u \<noteq> None"
    "\<forall>x. 0x1004 < x \<and> x < u \<longrightarrow> block_of tc x = None"
    using GetCompilationIPRange_correct [OF A(1), of "0x1004"] by (auto simp: u_def Let_def)
  have "u \<le> 0x1080" using c(4) [rule_format, of "0x1080"] blk [of "0x1080"] by force
  then have "unat u \<le> 0x1080" by (simp add: word_le_nat_alt)
  then have "u = 0x1080" using c(2,3) blk [of u] by auto
  then show ?thesis using A(1) c(1) by (auto simp: u_def prod_eq_iff)
qed


subsection \<open>Stubs\<close>

lemma TryLinkBranch_spec:
  assumes "tc_ok (x_tc st)" "FromCallPtrRetaddr ra = slot" "qcg_TryLinkBranchJIT ra st = (tgt, st')"
  shows "tc_ok (x_tc st') \<and> code_of (x_tc st') = code_of (x_tc st) \<and>
    slot_gip (x_mem st') slot = slot_gip (x_mem st) slot \<and>
    (case code_of (x_tc st) (slot_gip (x_mem st) slot) of
       Some code \<Rightarrow> tgt = Enter code \<and> x86_at (x_mem st') slot = x86_ctl.X_jmp code \<and> x_cpu st' = x_cpu st
     | None \<Rightarrow> tgt = Escape_link slot \<and> ip (x_cpu st') = slot_gip (x_mem st') slot \<and> x_mem st' = x_mem st)"
proof -
  define g where "g = slot_gip (x_mem st) slot"
  obtain found tc1 where lk: "Lookup g (x_tc st) = (found, tc1)" by fastforce
  note L = Lookup_spec [OF assms(1), of g, unfolded lk, simplified]
  have blk: "case block_of (x_tc st) g of Some p \<Rightarrow> found = p \<and> p \<noteq> 0 | None \<Rightarrow> found = 0"
    by (rule Lookup_found [OF assms(1) lk])
  have eq: "TryLinkBranch slot st = (tgt, st')"
    using assms(2,3) by (simp add: qcg_TryLinkBranchJIT_def)
  show ?thesis
  proof (cases "block_of (x_tc st) g")
    case None
    with blk have "found = 0" by simp
    with eq have "tgt = Escape_link slot" "st' = st\<lparr>x_tc := tc1, x_cpu := (x_cpu st)\<lparr>ip := g\<rparr>\<rparr>"
      by (simp_all add: TryLinkBranch_def g_def [symmetric] lk)
    with None L show ?thesis by (simp add: code_of_def g_def)
  next
    case (Some p)
    define code where "code = tc_ptr (tb_heap (x_tc st) p)"
    from Some blk have "found = p" "p \<noteq> 0" by simp_all
    with eq L(5) have t: "tgt = Enter code"
      and m: "x_mem st' = Link (x_mem st) slot code" "x_cpu st' = x_cpu st"
        "x_tc st' = RecordLink slot p (slot_cross_segment (Link (x_mem st) slot code) slot) tc1"
      by (auto simp: TryLinkBranch_def g_def [symmetric] lk code_def Let_def)
    have "code_of (x_tc st) g = Some code" using Some by (simp add: code_of_def code_def)
    with t m L(2,4) show ?thesis
      using Link_spec [of "x_mem st" slot code] RecordLink_spec [OF L(2), of slot p]
      by (simp add: g_def)
  qed
qed

text \<open>
  C23. The linking stub, called from the slot whose return address it gets, continues at the code of
  the slot's target when that is translated, and has then patched the slot to jump there; otherwise
  it leaves translated code with the slot and with the guest instruction pointer at the target. The
  map from addresses to code does not change.
\<close>

theorem TryLinkBranch_correct:
  assumes "tc_ok (x_tc st)" "FromCallPtrRetaddr ra = slot" "qcg_TryLinkBranchJIT ra st = (tgt, st')"
  shows "tc_ok (x_tc st') \<and> code_of (x_tc st') = code_of (x_tc st) \<and>
    slot_gip (x_mem st') slot = slot_gip (x_mem st) slot \<and>
    (case code_of (x_tc st) (slot_gip (x_mem st) slot) of
       Some code \<Rightarrow> tgt = Enter code \<and> x86_at (x_mem st') slot = x86_ctl.X_jmp code \<and> x_cpu st' = x_cpu st
     | None \<Rightarrow> tgt = Escape_link slot \<and> ip (x_cpu st') = slot_gip (x_mem st') slot \<and> x_mem st' = x_mem st)"
  using assms by (rule TryLinkBranch_spec)

theorem TryLinkBranch_correct_witness:
  "\<exists>st'. qcg_TryLinkBranchJIT 0x900c \<lparr>x_cpu = init_cpu, x_tc = one_block,
       x_mem = unaligned_store32 (\<lambda>_. 0) 0x900c 0x1000, is_current = True\<rparr> = (Enter 0x7000, st') \<and>
     x86_at (x_mem st') 0x9000 = x86_ctl.X_jmp 0x7000"
proof -
  define st where "st = \<lparr>x_cpu = init_cpu, x_tc = one_block, x_mem = unaligned_store32 (\<lambda>_. 0) 0x900c 0x1000, is_current = True\<rparr>"
  have g: "slot_gip (x_mem st) 0x9000 = 0x1000"
    by (simp add: slot_gip_def st_def offs_gip_def mem_simps)
  have c: "code_of (x_tc st) 0x1000 = Some 0x7000" "tc_ok (x_tc st)"
    using one_block_ok by (simp_all add: code_of_def st_def) (simp add: one_block_def)
  have ra: "FromCallPtrRetaddr 0x900c = 0x9000" by (simp add: FromCallPtrRetaddr_def sizeof_Call64Abs_def)
  obtain tgt st' where r: "qcg_TryLinkBranchJIT 0x900c st = (tgt, st')" by fastforce
  from TryLinkBranch_correct [OF c(2) ra r] g c(1) r show ?thesis
    unfolding st_def [symmetric] by auto
qed

lemma qcgstub_brind_ok:
  assumes "tc_ok (x_tc st)" "qcgstub_brind g st = (tgt, st')"
  shows "tc_ok (x_tc st') \<and> code_of (x_tc st') = code_of (x_tc st) \<and> ip (x_cpu st') = g \<and>
    x_mem st' = x_mem st \<and>
    (case code_of (x_tc st) g of
       Some code \<Rightarrow> tgt = Enter code \<and> brind_fast (x_tc st') g = Some code
     | None \<Rightarrow> tgt = Escape_brind)"
proof -
  obtain found tc1 where lk: "Lookup g (x_tc st) = (found, tc1)" by fastforce
  note L = Lookup_spec [OF assms(1), of g, unfolded lk, simplified]
  have blk: "case block_of (x_tc st) g of Some p \<Rightarrow> found = p \<and> p \<noteq> 0 | None \<Rightarrow> found = 0"
    by (rule Lookup_found [OF assms(1) lk])
  show ?thesis
  proof (cases "block_of (x_tc st) g")
    case None
    with blk L assms(2) show ?thesis
      by (auto simp: qcgstub_brind_def lk code_of_def)
  next
    case (Some p)
    with blk L assms(2) have t: "tgt = Enter (tc_ptr (tb_heap (x_tc st) p))" "x_mem st' = x_mem st"
      "ip (x_cpu st') = g" "x_tc st' = CacheBrind p tc1"
      by (auto simp: qcgstub_brind_def lk Let_def)
    have "block_of tc1 g = Some p" using Some L(3) by simp
    note C = CacheBrind_spec [OF L(2) this]
    show ?thesis
      using t C L Some by (simp add: code_of_def brind_fast_def brind_index)
  qed
qed

text \<open>
  C29. The stub for indirect branches sets the guest instruction pointer to the target, continues at
  the target's code when it is translated, and from then on the inlined lookup of that address
  hits; otherwise it leaves translated code.
\<close>

theorem qcgstub_brind_correct:
  assumes "tc_ok (x_tc st)" "qcgstub_brind g st = (tgt, st')"
  shows "tc_ok (x_tc st') \<and> code_of (x_tc st') = code_of (x_tc st) \<and> ip (x_cpu st') = g \<and>
    x_mem st' = x_mem st \<and>
    (case code_of (x_tc st) g of
       Some code \<Rightarrow> tgt = Enter code \<and> brind_fast (x_tc st') g = Some code
     | None \<Rightarrow> tgt = Escape_brind)"
  by (rule qcgstub_brind_ok [OF assms])

theorem qcgstub_brind_correct_witness:
  "\<exists>st'. qcgstub_brind 0x1000 \<lparr>x_cpu = init_cpu, x_tc = one_block, x_mem = (\<lambda>_. 0), is_current = True\<rparr> = (Enter 0x7000, st') \<and>
     brind_fast (x_tc st') 0x1000 = Some 0x7000"
proof -
  define st where "st = \<lparr>x_cpu = init_cpu, x_tc = one_block, x_mem = (\<lambda>_. 0 :: u8), is_current = True\<rparr>"
  have c: "code_of (x_tc st) 0x1000 = Some 0x7000" "tc_ok (x_tc st)"
    using one_block_ok by (simp_all add: code_of_def st_def) (simp add: one_block_def)
  obtain tgt st' where r: "qcgstub_brind 0x1000 st = (tgt, st')" by fastforce
  from qcgstub_brind_correct [OF c(2) r] c(1) r show ?thesis
    unfolding st_def [symmetric] by auto
qed

subsection \<open>Entering a block\<close>

lemma EmitCode_spec:
  assumes "tc_ok tc" "EmitCode img (tc, m) = Inr (p, tc', m')"
  shows "tc_ok tc'" "block_of tc' = block_of tc" "code_of tc' = code_of tc"
proof -
  obtain a where "tc' = tc\<lparr>code_pool := a\<rparr>"
    using assms(2) by (auto simp: EmitCode_def AllocateCode_def Let_def split: if_splits)
  then show "tc_ok tc'" "block_of tc' = block_of tc" "code_of tc' = code_of tc"
    using tc_ok_caches [OF assms(1), of tc'] by auto
qed

lemma CompilerDoJob_spec:
  assumes "tc_ok tc" "block_of tc a = None" "CompilerDoJob c asm vmem seg [(a, u)] (tc, m) = Inr (tb, tc', m')"
  shows "tc_ok tc'" "block_of tc' a = Some tb" "code_of tc' = (code_of tc)(a \<mapsto> tc_ptr (tb_heap tc' tb))"
proof -
  obtain img code tc1 where e: "EmitCode img (tc, m) = Inr (code, tc1, m')"
    and an: "AnnounceRegion a code (fst img) tc1 = Inr (tb, tc')"
    using assms(3) by (auto simp: CompilerDoJob_def Let_def)
  note E = EmitCode_spec [OF assms(1) e]
  have "block_of tc1 a = None" using E(2) assms(2) by simp
  note A = AnnounceRegion_spec [OF E(1) this an]
  from A E show "tc_ok tc'" "block_of tc' a = Some tb"
    "code_of tc' = (code_of tc)(a \<mapsto> tc_ptr (tb_heap tc' tb))"
    by simp_all
qed

definition exec_inv :: "uptr \<Rightarrow> exec_state \<Rightarrow> bool" where
  "exec_inv slot st \<longleftrightarrow> is_current st \<and> tc_ok (x_tc st) \<and> gpr (x_cpu st) 0 = 0 \<and>
     (slot \<noteq> 0 \<longrightarrow> slot_gip (x_mem st) slot = ip (x_cpu st))"

lemma Execute_enter_cases:
  assumes "exec_inv slot st"
  obtains (fail) tc e where "Execute_enter c asm base slot st = Inl e"
      "CompilerDoJob c asm base (rounddown (ip (x_cpu st)) PAGE_SIZE, PAGE_SIZE)
         [GetCompilationIPRange tc (ip (x_cpu st))] (tc, x_mem st) = Inl e"
      "tc_ok tc" "code_of tc = code_of (x_tc st)" "code_of tc (ip (x_cpu st)) = None"
    | (enter) tb tc2 m2 where "tc_ok tc2" "block_of tc2 (ip (x_cpu st)) = Some tb"
      "code_of tc2 = (code_of (x_tc st))(ip (x_cpu st) \<mapsto> tc_ptr (tb_heap tc2 tb))"
      "code_of (x_tc st) (ip (x_cpu st)) \<in> {None, Some (tc_ptr (tb_heap tc2 tb))}"
      "Execute_enter c asm base slot st = Inr (tc_ptr (tb_heap tc2 tb),
         if slot \<noteq> 0 then
           st\<lparr>x_mem := Link m2 slot (tc_ptr (tb_heap tc2 tb)),
              x_tc := RecordLink slot tb
                (slot_cross_segment (Link m2 slot (tc_ptr (tb_heap tc2 tb))) slot) tc2\<rparr>
         else st\<lparr>x_mem := m2, x_tc := CacheBrind tb tc2\<rparr>)"
proof -
  define a where "a = ip (x_cpu st)"
  have ok: "tc_ok (x_tc st)" using assms by (simp add: exec_inv_def)
  obtain found tc1 where lk: "Lookup a (x_tc st) = (found, tc1)" by fastforce
  note L = Lookup_spec [OF ok, of a, unfolded lk, simplified]
  note blk = Lookup_found [OF ok lk]
  have E: "Execute_enter c asm base slot st =
      rbind (if found = 0 then CompilerDoJob c asm base (rounddown a PAGE_SIZE, PAGE_SIZE)
               [GetCompilationIPRange tc1 a] (tc1, x_mem st)
             else Inr (found, tc1, x_mem st))
        (\<lambda>(tb, tc2, m2). let code = tc_ptr (tb_heap tc2 tb) in
           Inr (code, if slot \<noteq> 0 then
                 st\<lparr>x_mem := Link m2 slot code,
                    x_tc := RecordLink slot tb (slot_cross_segment (Link m2 slot code) slot) tc2\<rparr>
               else st\<lparr>x_mem := m2, x_tc := CacheBrind tb tc2\<rparr>))"
    using assms by (auto simp: Execute_enter_def exec_inv_def a_def [symmetric] lk Let_def)
  show thesis
  proof (cases "block_of (x_tc st) a")
    case (Some p)
    with blk have f: "found = p" "p \<noteq> 0" by simp_all
    have c: "code_of (x_tc st) a = Some (tc_ptr (tb_heap tc1 p))" using Some L(5) by (simp add: code_of_def)
    show thesis
      by (rule enter [of tc1 p "x_mem st"])
        (use E f c L Some in \<open>auto simp: a_def [symmetric] Let_def fun_upd_idem\<close>)
  next
    case None
    with blk have f: "found = 0" by simp
    have n: "block_of tc1 a = None" "code_of tc1 a = None" using None L(3) by (simp_all add: code_of_def)
    obtain u where u: "GetCompilationIPRange tc1 a = (a, u)"
      using compilation_upper [OF L(2)] by blast
    show thesis
    proof (cases "CompilerDoJob c asm base (rounddown a PAGE_SIZE, PAGE_SIZE) [(a, u)] (tc1, x_mem st)")
      case (Inl e)
      with E f u n L show thesis by (intro fail [of e tc1]) (auto simp: a_def [symmetric])
    next
      case (Inr r)
      obtain tb tc2 m2 where r: "r = (tb, tc2, m2)" by (cases r)
      note C = CompilerDoJob_spec [OF L(2) n(1) Inr [unfolded r]]
      show thesis
        by (rule enter [of tc2 tb m2])
          (use E f u Inr r C L(4) n(2) in \<open>auto simp: a_def [symmetric] Let_def\<close>)
    qed
  qed
qed


text \<open>
  C10. Before every entry into translated code, \<open>Execute\<close> has the right block: it enters the code
  that the cache holds for the guest instruction pointer, compiled now if there was none; code of
  other addresses stays; the slot through which control came now jumps to that code. It can only
  fail where there was no block and compiling it fails; in particular its own assertions hold.
\<close>

theorem Execute_enter_correct:
  assumes "exec_inv slot st"
  shows "case Execute_enter c asm base slot st of
      Inl e \<Rightarrow> code_of (x_tc st) (ip (x_cpu st)) = None \<and>
        (\<exists>tc. tc_ok tc \<and> code_of tc = code_of (x_tc st) \<and>
           CompilerDoJob c asm base (rounddown (ip (x_cpu st)) PAGE_SIZE, PAGE_SIZE)
             [GetCompilationIPRange tc (ip (x_cpu st))] (tc, x_mem st) = Inl e)
    | Inr (code, st') \<Rightarrow> tc_ok (x_tc st') \<and> x_cpu st' = x_cpu st \<and>
        code_of (x_tc st') = (code_of (x_tc st))(ip (x_cpu st) \<mapsto> code) \<and>
        code_of (x_tc st) (ip (x_cpu st)) \<in> {None, Some code} \<and>
        (slot \<noteq> 0 \<longrightarrow> x86_at (x_mem st') slot = x86_ctl.X_jmp code)"
proof (rule Execute_enter_cases [OF assms, of c asm base], goal_cases)
  case (1 tc e)
  then show ?case by auto
next
  case (2 tb tc2 m2)
  then show ?case
    using Link_spec [of m2 slot] RecordLink_spec [OF 2(1), of slot tb] CacheBrind_spec [OF 2(1,2)] by auto
qed

definition entry_state :: exec_state where
  "entry_state = \<lparr>x_cpu = init_cpu\<lparr>ip := 0x1000\<rparr>, x_tc = one_block, x_mem = (\<lambda>_. 0), is_current = True\<rparr>"

lemma entry_state_ok: "exec_inv 0 entry_state" "code_of (x_tc entry_state) 0x1000 = Some 0x7000"
  "ip (x_cpu entry_state) = 0x1000"
  using one_block_ok
  by (simp_all add: exec_inv_def entry_state_def init_cpu_def code_of_def) (simp add: one_block_def)

theorem Execute_enter_correct_witness:
  "\<exists>st'. Execute_enter demo_emit (\<lambda>_. Inr (0, \<lambda>_ m. m)) 0 0 entry_state = Inr (0x7000, st') \<and> tc_ok (x_tc st')"
  using Execute_enter_correct [OF entry_state_ok(1), of demo_emit "\<lambda>_. Inr (0, \<lambda>_ m. m)" 0] entry_state_ok(2,3)
  by (auto split: sum.splits)

subsection \<open>The loop\<close>

text \<open>
  What the loop needs of the code that runs between two lookups: it leaves \<open>x0\<close> zero. The code that
  \<open>GenerateCode\<close> makes does so (\<open>machine_code_keeps_x0\<close>): it never writes to the first word of the CPU state.
\<close>

definition keeps_x0 :: "host_code \<Rightarrow> bool" where
  "keeps_x0 region \<longleftrightarrow>
     (\<forall>p cpu m x cpu' m'. region p (cpu, m) = Some (x, cpu', m') \<longrightarrow> gpr cpu 0 = 0 \<longrightarrow> gpr cpu' 0 = 0)"

lemma TryLinkBranch_inv:
  assumes "exec_inv 0 st" "qcg_TryLinkBranchJIT ra st = (tgt, st')"
  shows "exec_inv 0 st'" "tgt \<noteq> Escape_brind" "tgt = Escape_link slot \<Longrightarrow> exec_inv slot st'"
proof -
  have st': "is_current st' = is_current st" "gpr (x_cpu st') = gpr (x_cpu st)"
    using assms(2) by (auto simp: qcg_TryLinkBranchJIT_def TryLinkBranch_def Let_def split: prod.splits if_splits)
  have "tc_ok (x_tc st)" using assms(1) by (simp add: exec_inv_def)
  note T = TryLinkBranch_spec [OF this refl assms(2)]
  show "exec_inv 0 st'" "tgt \<noteq> Escape_brind" "tgt = Escape_link slot \<Longrightarrow> exec_inv slot st'"
    using T st' assms(1) by (auto simp: exec_inv_def split: option.splits)
qed

lemma qcgstub_brind_inv:
  assumes "exec_inv 0 st" "qcgstub_brind g st = (tgt, st')"
  shows "exec_inv 0 st'" "tgt \<noteq> Escape_link slot"
proof -
  have st': "is_current st' = is_current st" "gpr (x_cpu st') = gpr (x_cpu st)" "tgt \<noteq> Escape_link slot"
    using assms(2) by (auto simp: qcgstub_brind_def Let_def split: prod.splits if_splits)
  have "tc_ok (x_tc st)" using assms(1) by (simp add: exec_inv_def)
  then show "exec_inv 0 st'" using qcgstub_brind_ok [of st g tgt st'] assms st' by (simp add: exec_inv_def)
  show "tgt \<noteq> Escape_link slot" by (rule st'(3))
qed

lemma trampoline_inv:
  assumes "keeps_x0 region" "exec_inv 0 st" "run_jit region fuel p st = Some r"
  shows "case r of J_slot slot st' \<Rightarrow> exec_inv slot st' | J_trap st' \<Rightarrow> exec_inv 0 st'"
  using assms(2,3)
proof (induction fuel arbitrary: p st)
  case 0
  then show ?case by simp
next
  case (Suc fuel)
  obtain x cpu m where r: "region p (x_cpu st, x_mem st) = Some (x, cpu, m)"
    using Suc.prems(2) by (auto split: option.splits)
  define st1 where "st1 = st\<lparr>x_cpu := cpu, x_mem := m\<rparr>"
  have "gpr cpu 0 = 0"
    by (rule assms(1) [unfolded keeps_x0_def, rule_format, OF r]) (use Suc.prems(1) in \<open>simp add: exec_inv_def\<close>)
  then have i: "exec_inv 0 st1" using Suc.prems(1) by (simp add: exec_inv_def st1_def)
  note P = Suc.prems(2) [unfolded run_jit.simps r option.case prod.case Let_def st1_def [symmetric]]
  show ?case
  proof (cases x)
    case (R_link ra)
    obtain t st2 where t: "qcg_TryLinkBranchJIT ra st1 = (t, st2)" by fastforce
    then show ?thesis
      using P R_link Suc.IH [of st2] TryLinkBranch_inv [OF i t] by (cases t) auto
  next
    case (R_brind g)
    obtain t st2 where t: "qcgstub_brind g st1 = (t, st2)" by fastforce
    then show ?thesis
      using P R_brind Suc.IH [of st1] Suc.IH [of st2] i qcgstub_brind_inv [OF i t]
      by (cases t; cases "brind_fast (x_tc st1) g") auto
  next
    case R_trap
    then show ?thesis using P i by auto
  qed
qed

text \<open>
  One time round the loop: a block is entered, and translated code comes back with a slot or traps.
\<close>

inductive exec_step ::
  "qemit \<Rightarrow> assembler \<Rightarrow> host_code \<Rightarrow> uptr \<Rightarrow> uptr \<times> exec_state \<Rightarrow> uptr \<times> exec_state \<Rightarrow> bool" for c asm region base where
  by_slot: "\<not> HandleTrap (x_cpu st) \<Longrightarrow> Execute_enter c asm base slot st = Inr (code, st1) \<Longrightarrow>
    run_jit region n code st1 = Some (J_slot slot2 st2) \<Longrightarrow> exec_step c asm region base (slot, st) (slot2, st2)"
| by_trap: "\<not> HandleTrap (x_cpu st) \<Longrightarrow> Execute_enter c asm base slot st = Inr (code, st1) \<Longrightarrow>
    run_jit region n code st1 = Some (J_trap st2) \<Longrightarrow> exec_step c asm region base (slot, st) (0, st2)"

inductive_cases exec_stepE: "exec_step c asm region base (slot, st) y"

lemma Execute_enter_inv:
  assumes "exec_inv slot st" "Execute_enter c asm base slot st = Inr (code, st1)"
  shows "exec_inv 0 st1"
proof (rule Execute_enter_cases [OF assms(1), of c asm base], goal_cases)
  case (2 tb tc2 m2)
  then show ?case
    using assms RecordLink_spec [OF 2(1), of slot tb] CacheBrind_spec [OF 2(1,2)]
    by (auto simp: exec_inv_def split: if_splits)
qed (use assms(2) in simp)

lemma exec_step_inv:
  assumes "keeps_x0 region" "exec_step c asm region base (slot, st) (slot2, st2)" "exec_inv slot st"
  shows "exec_inv slot2 st2"
  using assms(2)
  by (rule exec_stepE) (use trampoline_inv [OF assms(1) Execute_enter_inv [OF assms(3)]] in fastforce)+

lemma exec_steps_inv:
  assumes "keeps_x0 region" "(exec_step c asm region base)\<^sup>*\<^sup>* (slot, st) (slot2, st2)" "exec_inv slot st"
  shows "exec_inv slot2 st2"
  using assms(2)
proof (induction "(slot2, st2)" arbitrary: slot2 st2 rule: rtranclp_induct)
  case (step y)
  then show ?case using exec_step_inv [OF assms(1)] by (cases y) blast
qed (use assms(3) in simp)

text \<open>What the loop returns, in the last state it reaches.\<close>

definition loop_ends :: "qemit \<Rightarrow> assembler \<Rightarrow> uptr \<Rightarrow> exec_state \<Rightarrow> exec_state res \<Rightarrow> bool" where
  "loop_ends c asm base st r \<longleftrightarrow>
     (case r of
        Inr st2 \<Rightarrow> st2 = st \<and> trapno (x_cpu st) \<noteq> TC_NONE
      | Inl e \<Rightarrow> trapno (x_cpu st) = TC_NONE \<and> code_of (x_tc st) (ip (x_cpu st)) = None \<and>
          (\<exists>tc. tc_ok tc \<and> code_of tc = code_of (x_tc st) \<and>
             CompilerDoJob c asm base (rounddown (ip (x_cpu st)) PAGE_SIZE, PAGE_SIZE)
               [GetCompilationIPRange tc (ip (x_cpu st))] (tc, x_mem st) = Inl e))"

lemma Execute_reaches:
  assumes "keeps_x0 region" "exec_inv slot st" "Execute c asm region base fuel slot st = Some r"
  shows "\<exists>slot' st'. (exec_step c asm region base)\<^sup>*\<^sup>* (slot, st) (slot', st') \<and> loop_ends c asm base st' r"
  using assms(2,3)
proof (induction fuel arbitrary: slot st)
  case 0
  then show ?case by simp
next
  case (Suc fuel)
  show ?case
  proof (cases "HandleTrap (x_cpu st)")
    case True
    with Suc.prems have "loop_ends c asm base st r"
      by (auto simp: loop_ends_def HandleTrap_def IsTrapPending_def)
    then show ?thesis by blast
  next
    case False
    then have t: "trapno (x_cpu st) = TC_NONE" by (simp add: HandleTrap_def IsTrapPending_def)
    show ?thesis
    proof (cases "Execute_enter c asm base slot st")
      case (Inl e)
      have "loop_ends c asm base st (Inl e)"
        by (rule Execute_enter_cases [OF Suc.prems(1), of c asm base]) (use Inl t in \<open>auto simp: loop_ends_def\<close>)
      then show ?thesis using Suc.prems(2) False Inl by auto
    next
      case (Inr cs)
      obtain code st1 where en: "Execute_enter c asm base slot st = Inr (code, st1)" using Inr by (cases cs) simp
      obtain x where x: "run_jit region (Suc fuel) code st1 = Some x"
        using Suc.prems(2) False en by (auto simp del: run_jit.simps split: option.splits)
      obtain slot2 st2 where 2: "exec_step c asm region base (slot, st) (slot2, st2)" "Execute c asm region base fuel slot2 st2 = Some r"
      proof (cases x)
        case (J_slot slot2 st2)
        show thesis
          by (rule that [OF by_slot [OF False en x [unfolded J_slot]]])
            (use Suc.prems(2) False en x J_slot in \<open>simp del: run_jit.simps\<close>)
      next
        case (J_trap st2)
        show thesis
          by (rule that [OF by_trap [OF False en x [unfolded J_trap]]])
            (use Suc.prems(2) False en x J_trap in \<open>simp del: run_jit.simps\<close>)
      qed
      from Suc.IH [OF exec_step_inv [OF assms(1) 2(1) Suc.prems(1)] 2(2)] show ?thesis
        using 2(1) by (meson converse_rtranclp_into_rtranclp)
    qed
  qed
qed

text \<open>
  C24. The execution loop never stops at one of its own assertions: in every state it reaches, the current CPU state is the
  loop's, \<open>x0\<close> is zero and the slot that translated code came back with is for the guest's instruction
  pointer, also after the stubs have linked branches and filled the caches. It returns in a state it reaches
  with a trap pending, or in one whose guest instruction pointer has no code and cannot be compiled from
  the memory of that state. Of the code between two lookups only \<open>x0\<close> is assumed.
\<close>

theorem Execute_loop_correct:
  assumes "keeps_x0 region" "exec_inv slot st" "Execute c asm region base fuel slot st = Some r"
  shows "(\<forall>slot' st'. (exec_step c asm region base)\<^sup>*\<^sup>* (slot, st) (slot', st') \<longrightarrow> exec_inv slot' st') \<and>
    (\<exists>slot' st'. (exec_step c asm region base)\<^sup>*\<^sup>* (slot, st) (slot', st') \<and> loop_ends c asm base st' r)"
  using exec_steps_inv [OF assms(1) _ assms(2)] Execute_reaches [OF assms] by blast

text \<open>
  A processor that interprets guest code, at most four instructions at a time: what it leaves behind is what the
  interpreter does from the guest's instruction pointer.
\<close>

definition interp_region :: host_code where
  "interp_region p w =
     (case interp_run 0 (snd w) 4 (fst w) (ip (fst w)) (snd w) of
        Next s g m \<Rightarrow> Some (R_brind g, s\<lparr>ip := g\<rparr>, m)
      | Trapped s m \<Rightarrow> Some (R_trap, s, m))"

lemma interp_region_x0: "keeps_x0 interp_region"
  unfolding keeps_x0_def
proof (intro allI impI)
  fix p cpu m x cpu' m'
  assume "interp_region p (cpu, m) = Some (x, cpu', m')" "gpr cpu 0 = 0"
  then show "gpr cpu' 0 = 0"
    using interp_run_x0 [of cpu 0 m 4 "ip cpu" m] by (auto simp: interp_region_def split: hres.splits)
qed

theorem Execute_loop_correct_witness:
  "\<exists>st'. Execute demo_emit (\<lambda>_. Inr (0, \<lambda>_ m. m)) interp_region 0 2 0 entry_state = Some (Inr st') \<and>
     trapno (x_cpu st') = TC_ILLEGAL_INSN \<and> exec_inv 0 st'"
proof -
  let ?asm = "\<lambda>_. Inr (0, \<lambda>_ m. m)"
  obtain st1 where e: "Execute_enter demo_emit ?asm 0 0 entry_state = Inr (0x7000, st1)"
    and st1: "x_cpu st1 = init_cpu\<lparr>ip := 0x1000\<rparr>" "x_mem st1 = (\<lambda>_. 0)"
    by (simp add: Execute_enter_def entry_state_def one_block_def Lookup_def LookupFull_def init_cpu_def CacheBrind_def Let_def)
  have "fetch 0 (\<lambda>_. 0) g = 0" for g
    by (simp add: fetch_def unaligned_load32_def)
  moreover have "Decode 0 = I_illegal" by (simp add: Decode_defs insn_field_defs bf_decode_u_def bf_size_def)
  ultimately have "interp_region p (x_cpu st1, x_mem st1) =
      Some (R_trap, init_cpu\<lparr>ip := 0x1000, trapno := TC_ILLEGAL_INSN\<rparr>, \<lambda>_. 0)" for p
    by (simp add: interp_region_def interp_code_step_def st1 H_handler_def RAISE_TRAP_def eval_nat_numeral)
  then obtain st' where r: "Execute demo_emit ?asm interp_region 0 2 0 entry_state = Some (Inr st')"
    and t: "trapno (x_cpu st') = TC_ILLEGAL_INSN"
    using e by (simp add: numeral_2_eq_2 HandleTrap_def IsTrapPending_def entry_state_def init_cpu_def)
  from Execute_loop_correct [OF interp_region_x0 entry_state_ok(1) r] obtain slot where "exec_inv slot st'"
    by (auto simp: loop_ends_def)
  then show ?thesis using r t by (auto simp: exec_inv_def)
qed

end
