(* ===== verification/Indirect_Branch.thy ===== *)
theory Indirect_Branch
  imports Codegen_Correct Execute
begin

section \<open>Indirect branches from host code\<close>

text \<open>
  Where an indirect branch of translated code goes: the inlined lookup reads \<open>l1_brind_cache\<close> from
  host memory, and on a miss \<open>qcgstub_brind\<close> decides. With the cache of the translation cache in
  memory, both give the code of the block at the target.
\<close>

text \<open>Memory at \<open>arr\<close> holds the array \<open>l1_brind_cache\<close>, apart from what translated code writes.\<close>

definition cache_in :: "uptr \<Rightarrow> xlay \<Rightarrow> tcache \<Rightarrow> bool" where
  "cache_in arr ly tc \<longleftrightarrow>
     (\<forall>h < 2 ^ L1_CACHE_BITS. BrindCacheEntry_at arr (ly_host ly) h = l1_brind_cache tc h) \<and>
     (\<forall>q. q - arr < 2 ^ 16 \<longrightarrow> \<not> in_cpu ly q \<and> \<not> in_frame ly q \<and> \<not> in_guest q \<and> \<not> in_stk ly q)"

text \<open>The stub that the call reaches is \<open>qcgstub_brind\<close>; \<open>esc\<close> is the address of \<open>qcgstub_escape_brind\<close>.\<close>

definition target_addr :: "uptr \<Rightarrow> stub_target \<Rightarrow> uptr" where
  "target_addr esc t = (case t of Enter p \<Rightarrow> p | _ \<Rightarrow> esc)"

definition brind_is_stub :: "xenv \<Rightarrow> xlay \<Rightarrow> tcache \<Rightarrow> uptr \<Rightarrow> bool" where
  "brind_is_stub e ly tc esc \<longleftrightarrow>
     (\<forall>xs. xs_r xs RDI = ly_state ly \<longrightarrow> host_in ly (xs_m xs) \<longrightarrow>
        fst (xe_brind e xs) =
          target_addr esc (fst (qcgstub_brind (ucast (xs_r xs RSI))
            \<lparr>x_cpu = read_cpu (xs_m xs) (ly_state ly), x_tc = tc, x_mem = xs_m xs, is_current = True\<rparr>)))"

lemma l1hash_less: "l1hash g < 2 ^ L1_CACHE_BITS"
proof -
  have "push_bit L1_CACHE_BITS 1 - 1 = (mask 12 :: u64)" by (simp add: mask_eq_exp_minus_1 L1_CACHE_BITS_def)
  then have "l1hash g = take_bit 12 (drop_bit 2 g)"
    unfolding l1hash_def by (intro bit_word_eqI) (auto simp: bit_simps)
  then have "unat (l1hash g) < 2 ^ 12" using take_bit_nat_less_exp [of 12 "unat (drop_bit 2 g)"] by (simp add: unsigned_take_bit_eq)
  then show ?thesis by (simp add: word_less_nat_alt L1_CACHE_BITS_def)
qed

lemma cache_entry_cong:
  assumes "\<And>q. q - arr < 2 ^ 16 \<Longrightarrow> m q = m' q" "h < 2 ^ L1_CACHE_BITS"
  shows "BrindCacheEntry_at arr m h = BrindCacheEntry_at arr m' h"
proof -
  have h: "unat h < 4096" using assms(2) by (simp add: word_less_nat_alt L1_CACHE_BITS_def)
  have e: "m (arr + 16 * ucast h + of_nat k) = m' (arr + 16 * ucast h + of_nat k)" if "k < 16" for k
  proof (rule assms(1))
    have eq: "(16 * ucast h + of_nat k :: u64) = of_nat (16 * unat h + k)" by simp
    have "unat (16 * ucast h + of_nat k :: u64) = 16 * unat h + k"
      unfolding eq unat_of_nat using h that by (simp add: take_bit_nat_eq_self)
    then show "arr + 16 * ucast h + of_nat k - arr < 2 ^ 16"
      using h that by (simp add: word_less_nat_alt add.assoc)
  qed
  show ?thesis
    using e [of 0] e [of 1] e [of 2] e [of 3] e [of 8] e [of 9] e [of 10] e [of 11] e [of 12] e [of 13] e [of 14] e [of 15]
    by (simp add: BrindCacheEntry_at_def unaligned_load64_def unaligned_load32_def add.assoc)
qed

lemma brind_stub_target:
  assumes "tc_ok tc"
  shows "target_addr esc (fst (qcgstub_brind g \<lparr>x_cpu = cpu, x_tc = tc, x_mem = m, is_current = cur\<rparr>)) = (case code_of tc g of Some q \<Rightarrow> q | None \<Rightarrow> esc)"
proof -
  obtain found tc1 where lk: "Lookup g tc = (found, tc1)" by fastforce
  have "case block_of tc g of Some q \<Rightarrow> found = q \<and> q \<noteq> 0 | None \<Rightarrow> found = 0" by (rule Lookup_found [OF assms lk])
  moreover have "tb_heap tc1 = tb_heap tc" using Lookup_spec(5) [OF assms, of g] lk by simp
  ultimately show ?thesis
    by (auto simp: qcgstub_brind_def lk code_of_def target_addr_def split: option.splits)
qed

lemma indirect_target:
  assumes x: "leaves_to c e ly g s m (XE_jmp p xs)" and tc: "tc_ok tc" "cache_in (qe_brind_cache c) ly tc" "brind_is_stub e ly tc esc" and g: "g \<noteq> 0"
  shows "p = (case code_of tc g of Some q \<Rightarrow> q | None \<Rightarrow> esc)"
proof -
  consider "BrindCacheEntry_at (qe_brind_cache c) (xs_m xs) (l1hash g) = (g, p)" "host_in ly (xs_m xs)" |
    xs0 where "xs_r xs0 RDI = ly_state ly" "ucast (xs_r xs0 RSI) = g" "host_in ly (xs_m xs0)" "p = fst (xe_brind e xs0)"
    using x by (auto simp: leaves_to_def)
  then show ?thesis
  proof cases
    case 1
    have "xs_m xs q = ly_host ly q" if "q - qe_brind_cache c < 2 ^ 16" for q
      using 1(2) tc(2) that by (simp add: host_in_def cache_in_def)
    then have "l1_brind_cache tc (l1hash g) = (g, p)"
      using 1(1) tc(2) l1hash_less [of g] cache_entry_cong [of "qe_brind_cache c" "xs_m xs" "ly_host ly" "l1hash g"]
      by (simp add: cache_in_def)
    then have "code_of tc g = Some p" using tc_okD(6) [OF tc(1), of "l1hash g"] g by auto
    then show ?thesis by simp
  next
    case 2
    let ?st = "\<lparr>x_cpu = read_cpu (xs_m xs0) (ly_state ly), x_tc = tc, x_mem = xs_m xs0, is_current = True\<rparr>"
    have "p = target_addr esc (fst (qcgstub_brind g ?st))"
      using tc(3) 2 unfolding brind_is_stub_def by metis
    then show ?thesis using brind_stub_target [OF tc(1)] by simp
  qed
qed

text \<open>
  C28. When the host code of a translated range (none of whose first 64 words is a load to \<open>x0\<close> with zero offset), started in a machine state that holds a guest state, leaves by an
  indirect jump, the interpreter reaches some guest address with the registers and memory that the machine then holds, and
  for any such address but \<open>0\<close> the host has jumped to the code that the translation cache has for it, or to
  the stub that escapes to the execution loop when there is none: whether the inlined lookup in the array \<open>l1_brind_cache\<close>
  in memory hits, or \<open>qcgstub_brind\<close> is called. (Address \<open>0\<close> matches an empty entry of the cache, whose code
  is null.) Excepted are guest states from which the interpreter traps on a misaligned jump, which translated code
  does not check.
\<close>

theorem indirect_jump_correct:
  assumes "CompilerGenRegionIR code [rg] 0 = Inr rn" "no_clobber 0 code TB_MAX_INSNS (fst rg)"
    and "GenerateCode c rn = Inr P" "host_ok c e ly"
    and "guest_at ly s m xs" "host_in ly (xs_m xs)" "gpr s 0 = 0"
    and "tc_ok tc" "cache_in (qe_brind_cache c) ly tc" "brind_is_stub e ly tc esc"
    and "xrun e P k 0 xs = XExit (XE_jmp p xs')"
  shows "unaligned_within 0 code (Suc k) s (fst rg) m \<or>
    (\<exists>n s' g m'. 0 < n \<and> interp_run 0 code n s (fst rg) m = Next s' g m' \<and> guest_at ly s' m' xs' \<and>
       (g \<noteq> 0 \<longrightarrow> p = (case code_of tc g of Some q \<Rightarrow> q | None \<Rightarrow> esc)))"
proof -
  consider "unaligned_within 0 code (Suc k) s (fst rg) m"
    | n s' g m' where "0 < n" "interp_run 0 code n s (fst rg) m = Next s' g m'" "leaves_to c e ly g s' m' (XE_jmp p xs')"
    using machine_run_exit [OF assms(1-7) assms(11)] by (auto simp: traps_with_def)
  then show ?thesis
  proof cases
    case 2
    have "guest_at ly s' m' xs'" using 2(3) by (simp add: leaves_to_def)
    then show ?thesis using 2(1,2) indirect_target [OF 2(3) assms(8-10)] by blast
  qed blast
qed

subsection \<open>A region that returns\<close>

text \<open>
  Guest memory in which every word is \<open>jalr x0, 0(x1)\<close>, with \<open>x1\<close> holding \<open>0x1000\<close>; a translation cache with a block
  there, in the cache for indirect branches; and a host memory with that cache at the address of \<open>demo_emit\<close>.
\<close>

definition ret_mem :: mem where
  "ret_mem q = (if unat q mod 4 = 0 then 0x67 else if unat q mod 4 = 1 then 0x80 else 0)"

definition ret_cpu :: cpu_state where
  "ret_cpu = init_cpu\<lparr>gpr := (gpr init_cpu)(1 := 0x1000), ip := 0x1000\<rparr>"

definition ret_region :: region where
  "ret_region =
     \<lparr>rn_globals = state_info, rn_locals = [T_I32],
      rn_blocks = [\<lparr>bb_ilist = [Mov (VVReg T_I32 32) (VVReg T_I32 0),
          Binop B_and (VVReg T_I32 32) (VVReg T_I32 32) (VConst T_I32 0xfffffffe), GBrind (VVReg T_I32 32)],
        bb_succs = [], bb_preds = []\<rparr>]\<rparr>"

definition ret_code :: "xinst list" where
  "ret_code =
     [X_bind 0, X_mov (XReg S32 0) (XM S32 (XMem (Base64 13) None 4)), X_mov (XReg S32 1) (XReg S32 0),
      X_op kIdAnd (XReg S32 1) (XImm 0xfffffffe), X_mov (XReg S32 6) (XReg S32 1), X_mov (XReg S64 2) (XImm 0x400000000),
      X_lea 7 (XMem No_base (Some (6, 2)) 0), X_op kIdAnd (XReg S32 7) (XImm 0xfff0),
      X_cmp (XM S32 (XMem (Base64 2) (Some (7, 0)) 0)) (XReg S32 6), X_jcc kNotEqual 1,
      X_jmp_mem (XMem (Base64 2) (Some (7, 0)) 8), X_bind 1, X_mov (XReg S64 7) (XReg S64 13), X_push 1,
      xinst.X_call Id_brind, X_pop 1, X_jmp_reg 0]"

definition ret_host :: mem where
  "ret_host q = (if q < 2 ^ 32 + 3 then ret_mem q else if q = 0x200000005 then 0x10 else
     if q = 0x400004001 then 0x10 else if q = 0x400004009 then 0x70 else 0)"

definition ret_tc :: tcache where "ret_tc = CacheBrind 0x40000 one_block"

definition ret_lay :: xlay where "ret_lay = demo_lay\<lparr>ly_host := ret_host\<rparr>"

definition ret_env :: xenv where
  "ret_env = demo_env\<lparr>xe_brind := (\<lambda>xs.
     (target_addr 0x9000 (fst (qcgstub_brind (ucast (xs_r xs RSI))
        \<lparr>x_cpu = read_cpu (xs_m xs) (ly_state ret_lay), x_tc = ret_tc, x_mem = xs_m xs, is_current = True\<rparr>)),
      unaligned_store32 (xs_m xs) (xs_r xs RDI + 128) (ucast (xs_r xs RSI))))\<rparr>"

definition ret_state :: xstate where "ret_state = demo_state\<lparr>xs_m := ret_host\<rparr>"

lemma ret_generates: "GenerateCode demo_emit ret_region = Inr ret_code"
  by code_simp

lemma ret_exits: "case xrun ret_env ret_code 11 0 ret_state of XExit (XE_jmp p xs) \<Rightarrow> p = 0x7000 | _ \<Rightarrow> False"
  by code_simp

lemma ret_fetch:
  assumes "k < 64"
  shows "fetch 0 ret_mem (0x1000 + 4 * of_nat k) = 0x8067"
proof -
  have "unat (0x1000 + 4 * of_nat k :: u32) = 0x1000 + 4 * k"
  proof -
    have eq: "(0x1000 + 4 * of_nat k :: u32) = of_nat (0x1000 + 4 * k)" by simp
    show ?thesis unfolding eq unat_of_nat using assms by (simp add: take_bit_nat_eq_self)
  qed
  then have u: "unat (ucast (0x1000 + 4 * of_nat k :: u32) :: u64) = 0x1000 + 4 * k" by (simp add: unat_up32)
  have "ret_mem (ucast (0x1000 + 4 * of_nat k :: u32) + of_nat i) = (if i = 0 then 0x67 else if i = 1 then 0x80 else 0)" if "i < 4" for i
  proof -
    have "unat (ucast (0x1000 + 4 * of_nat k :: u32) + of_nat i :: u64) = 0x1000 + 4 * k + i"
      using small_add [of "ucast (0x1000 + 4 * of_nat k :: u32)" i] u assms that by simp
    moreover have "(0x1000 + 4 * k + i) mod 4 = i" using that by presburger
    ultimately show ?thesis by (simp add: ret_mem_def)
  qed
  from this [of 0] this [of 1] this [of 2] this [of 3] show ?thesis by (simp add: fetch_def unaligned_load32_def)
qed

lemma ret_insn: "Decode 0x8067 = I_jalr" "insn_rd 0x8067 = 0" "insn_rs1 0x8067 = 1" "imm_I 0x8067 = 0"
  by code_simp+

lemma ret_no_clobber: "no_clobber 0 ret_mem TB_MAX_INSNS 0x1000"
  by (simp add: no_clobber_alt TB_MAX_INSNS_def ret_fetch clobbers_base_def ret_insn is_load_def)

lemma ret_translate: "CompilerGenRegionIR ret_mem [(0x1000, 0x2000)] 0 = Inr ret_region"
  using ret_fetch [of 0] translate_loop.simps(2) [of 63]
  by (simp add: CompilerGenRegionIR_def Translate_def add_range_block_def new_translator_def
      new_region_def CreateBlock_def TranslateIPRange_def TranslateInsn_def H_translate_def ret_insn TB_MAX_INSNS_def
      V_jalr_def V_mov_const_def vtemp_def qb_create_def Builder_Create_eq gprop_def vgpr_def vconst_def
      upd_block_def new_block_def il_insert_def fold_inst_def folder_visit_def visit_add_def
      ret_region_def GPR_START_def AddLocal_def NumAll_def is_const_def Let_def)

lemma ret_step: "interp_code_step 0 ret_mem ret_cpu 0x1000 m = Next ret_cpu 0x1000 m"
  using ret_fetch [of 0]
  by (simp add: interp_code_step_def H_handler_def Impl_defs ret_insn) (simp add: ret_cpu_def init_cpu_def set_gpr_def fun_upd_idem fun_upd_twist)

lemma ret_run: "interp_run 0 ret_mem n ret_cpu 0x1000 m = Next ret_cpu 0x1000 m"
  by (induction n) (simp_all add: ret_step)

lemma ret_areas [simp]:
  "in_cpu ret_lay = in_cpu demo_lay" "in_frame ret_lay = in_frame demo_lay" "in_stk ret_lay = in_stk demo_lay" "entry_sp ret_lay = entry_sp demo_lay"
  "ly_state ret_lay = ly_state demo_lay" "ly_host ret_lay = ret_host"
  by (simp_all add: fun_eq_iff in_cpu_def in_frame_def in_stk_def entry_sp_def ret_lay_def)

lemma ret_host_ok: "host_ok demo_emit ret_env ret_lay"
  using demo_host_ok
  by (simp add: host_ok_def lay_ok_def brind_keeps_def ret_env_def) (simp add: ret_lay_def)

lemma ret_cpu_in: "cpu_in ret_lay ((\<lambda>_. 0)(1 := 0x1000)) ret_host"
  unfolding cpu_in_def
proof (intro allI impI)
  fix x :: uptr assume "x < sizeof_cpu_words"
  then have "in_cpu demo_lay (ly_state demo_lay + x)" by (simp add: in_cpu_def)
  from demo_areas(1) [OF this] have b: "0x200000000 \<le> unat (ly_state demo_lay + x)" "unat (ly_state demo_lay + x) < 0x200000088" by simp_all
  then have z: "ret_host (ly_state demo_lay + x) = (if x = 5 then 0x10 else 0)"
    by (auto simp: ret_host_def word_less_nat_alt demo_lay_def)
  show "ret_host (ly_state ret_lay + x) = word_bytes ((\<lambda>_. 0)(1 := 0x1000)) x"
  proof (cases "unat x div 4 = 1")
    case True
    then have "unat x = 4 \<or> unat x = 5 \<or> unat x = 6 \<or> unat x = 7" by auto
    then have "x = 4 \<or> x = 5 \<or> x = 6 \<or> x = 7" by (simp add: word_unat_eq_iff)
    then show ?thesis using z by (auto simp: word_bytes_def)
  next
    case False
    then have "x \<noteq> 5" by auto
    then show ?thesis using z False by (simp add: word_bytes_def)
  qed
qed

lemma ret_guest: "guest_at ret_lay ret_cpu ret_mem ret_state" "host_in ret_lay (xs_m ret_state)"
proof -
  have "cpu_at ret_lay ret_cpu ret_host"
    by (rule cpu_in_at [OF ret_cpu_in]) (auto simp: ret_cpu_def init_cpu_def word_less_nat_alt word_unat_eq_iff)
  moreover have "guest_in ret_mem ret_host" by (simp add: guest_in_def in_guest_def ret_host_def)
  ultimately show "guest_at ret_lay ret_cpu ret_mem ret_state"
    using demo_guest(1) by (simp add: guest_at_def ret_state_def)
  show "host_in ret_lay (xs_m ret_state)" by (simp add: host_in_def ret_state_def)
qed

lemma ret_tc_ok: "tc_ok ret_tc" "code_of ret_tc 0x1000 = Some 0x7000"
    "l1_brind_cache ret_tc = (\<lambda>_. (0, 0))(0x400 := (0x1000, 0x7000))"
proof -
  note C = CacheBrind_spec [OF one_block_ok(1,2)]
  show "tc_ok ret_tc" using C(1) by (simp add: ret_tc_def)
  show "code_of ret_tc 0x1000 = Some 0x7000"
    using C one_block_ok(2) by (simp add: ret_tc_def code_of_def) (simp add: one_block_def)
  have "l1hash 0x1000 = 0x400" by code_simp
  then show "l1_brind_cache ret_tc = (\<lambda>_. (0, 0))(0x400 := (0x1000, 0x7000))"
    by (simp add: ret_tc_def CacheBrind_def one_block_def Let_def)
qed

lemma ret_cache: "cache_in (qe_brind_cache demo_emit) ret_lay ret_tc"
proof -
  have far: "0x400000000 \<le> unat q \<and> unat q < 0x400010000" if "q - 0x400000000 < 2 ^ 16" for q :: u64
    using below_unat [OF that] by simp
  have "BrindCacheEntry_at 0x400000000 ret_host h = ((\<lambda>_. (0, 0))(0x400 := (0x1000, 0x7000))) h" if h: "h < 2 ^ L1_CACHE_BITS" for h
  proof (cases "h = 0x400")
    case True
    have "BrindCacheEntry_at 0x400000000 ret_host 0x400 = (0x1000, 0x7000)" by code_simp
    then show ?thesis by (simp add: True)
  next
    case False
    have hn: "unat h < 4096" "unat h \<noteq> 0x400" using h False by (simp_all add: word_less_nat_alt L1_CACHE_BITS_def word_unat_eq_iff)
    have "ret_host (0x400000000 + 16 * ucast h + of_nat k) = 0" if "k < 16" for k
    proof -
      have eq: "(0x400000000 + 16 * ucast h + of_nat k :: u64) = of_nat (0x400000000 + 16 * unat h + k)" by simp
      have u: "unat (0x400000000 + 16 * ucast h + of_nat k :: u64) = 0x400000000 + 16 * unat h + k"
        unfolding eq unat_of_nat using hn that by (simp add: take_bit_nat_eq_self)
      moreover have "0x400000000 + 16 * unat h + k \<noteq> 0x400004001" "0x400000000 + 16 * unat h + k \<noteq> 0x400004009"
        using hn(2) that by presburger+
      ultimately show ?thesis by (simp add: ret_host_def word_less_nat_alt word_unat_eq_iff)
    qed
    from this [of 0] this [of 1] this [of 2] this [of 3] this [of 8] this [of 9] this [of 10] this [of 11] this [of 12] this [of 13] this [of 14] this [of 15]
    show ?thesis using False by (simp add: BrindCacheEntry_at_def unaligned_load64_def unaligned_load32_def add.assoc)
  qed
  moreover have "\<not> in_cpu demo_lay q \<and> \<not> in_frame demo_lay q \<and> \<not> in_guest q \<and> \<not> in_stk demo_lay q" if "q - 0x400000000 < 2 ^ 16" for q
    using far [OF that] demo_areas [of q] by auto
  ultimately show ?thesis by (simp add: cache_in_def ret_tc_ok(3)) (simp add: demo_emit_def)
qed

theorem indirect_jump_correct_witness:
  "\<exists>xs'. xrun ret_env ret_code 11 0 ret_state = XExit (XE_jmp 0x7000 xs') \<and> guest_at ret_lay ret_cpu ret_mem xs' \<and>
     0x7000 = (case code_of ret_tc 0x1000 of Some q \<Rightarrow> q | None \<Rightarrow> 0x9000)"
proof -
  obtain xs' where x: "xrun ret_env ret_code 11 0 ret_state = XExit (XE_jmp 0x7000 xs')"
    using ret_exits by (auto split: xrun_res.splits xexit.splits)
  have z: "gpr ret_cpu 0 = 0" by (simp add: ret_cpu_def init_cpu_def)
  have stub: "brind_is_stub ret_env ret_lay ret_tc 0x9000" by (simp add: brind_is_stub_def ret_env_def)
  have "\<not> unaligned_within 0 ret_mem 12 ret_cpu 0x1000 ret_mem" by (simp add: unaligned_within_def ret_run)
  with indirect_jump_correct [OF ret_translate _ ret_generates ret_host_ok ret_guest z ret_tc_ok(1) ret_cache stub x] ret_no_clobber
  show ?thesis using x by (auto simp: ret_run)
qed

end
