(* ===== verification/Trampoline.thy ===== *)
theory Trampoline
  imports Codegen_Correct Execute
begin

section \<open>Entering and leaving translated code: the assembly of codegen/jitabi.cpp\<close>

text \<open>
  \<open>trampoline_to_jit\<close> saves the registers of its caller, makes the spill frame and calls translated
  code; the escape stubs undo this from inside. They are written in assembly, which is modelled here
  instruction by instruction, on the machine of X86.
\<close>

subsection \<open>Assembly\<close>

definition RBX :: regn where "RBX = 3"
definition R12 :: regn where "R12 = 12"
definition R14 :: regn where "R14 = 14"
definition R15 :: regn where "R15 = 15"

lemmas asm_regs = reg_defs RBX_def R12_def R14_def R15_def

text \<open>Operands are in the order of the source: source first. \<open>A_call_link\<close> is the call of \<open>qcg_TryLinkBranchJIT\<close>.\<close>

datatype ainst =
    A_pushq regn
  | A_popq regn
  | A_movq regn regn
  | A_movq_load u64 regn regn
  | A_movq_store regn u64 regn
  | A_leaq u64 regn regn
  | A_addq u64 regn
  | A_subq u64 regn
  | A_xorq regn regn
  | A_callq_reg regn
  | A_call_link
  | A_jmpq_reg regn
  | A_retq
  | A_int3

text \<open>
  \<open>ae_env\<close> is what calls clobber, \<open>ae_ret\<close> the address behind the \<open>callq\<close> of the trampoline and
  \<open>ae_escape_link\<close> the address of \<open>qcgstub_escape_link\<close>.
\<close>

record aenv =
  ae_env :: xenv
  ae_ret :: uptr
  ae_escape_link :: uptr

type_synonym astate = "xstate \<times> tcache"

datatype aout = A_next astate | A_to uptr astate

definition call_link :: "aenv \<Rightarrow> astate \<Rightarrow> astate" where
  "call_link ae xt =
     (let (xs, tc) = xt; p = xs_r xs RDI; ra = xs_r xs RSI;
          (t, st) = qcg_TryLinkBranchJIT ra \<lparr>x_cpu = read_cpu (xs_m xs) p, x_tc = tc, x_mem = xs_m xs, is_current = True\<rparr>;
          target = (case t of Enter q \<Rightarrow> q | _ \<Rightarrow> ae_escape_link ae);
          xs1 = after_stub (ae_env ae) xs (write_cpu (x_mem st) p (x_cpu st))
      in (set_reg (set_reg xs1 RAX (FromCallPtrRetaddr ra)) RDX target, x_tc st))"

definition apush :: "u64 \<Rightarrow> xstate \<Rightarrow> xstate" where
  "apush v xs = set_reg (xs\<lparr>xs_m := unaligned_store64 (xs_m xs) (xs_r xs RSP - 8) v\<rparr>) RSP (xs_r xs RSP - 8)"

primrec astep :: "aenv \<Rightarrow> ainst \<Rightarrow> astate \<Rightarrow> aout option" where
  "astep ae (A_pushq r) xt = Some (A_next (apush (xs_r (fst xt) r) (fst xt), snd xt))"
| "astep ae (A_popq r) xt =
     (let sp = xs_r (fst xt) RSP in
      Some (A_next (set_reg (set_reg (fst xt) RSP (sp + 8)) r (unaligned_load64 (xs_m (fst xt)) sp), snd xt)))"
| "astep ae (A_movq s d) xt = Some (A_next (set_reg (fst xt) d (xs_r (fst xt) s), snd xt))"
| "astep ae (A_movq_load disp b d) xt =
     Some (A_next (set_reg (fst xt) d (unaligned_load64 (xs_m (fst xt)) (xs_r (fst xt) b + disp)), snd xt))"
| "astep ae (A_movq_store s disp b) xt =
     Some (A_next ((fst xt)\<lparr>xs_m := unaligned_store64 (xs_m (fst xt)) (xs_r (fst xt) b + disp) (xs_r (fst xt) s)\<rparr>, snd xt))"
| "astep ae (A_leaq disp b d) xt = Some (A_next (set_reg (fst xt) d (xs_r (fst xt) b + disp), snd xt))"
| "astep ae (A_addq i d) xt = Some (A_next (set_reg (fst xt) d (xs_r (fst xt) d + i), snd xt))"
| "astep ae (A_subq i d) xt = Some (A_next (set_reg (fst xt) d (xs_r (fst xt) d - i), snd xt))"
| "astep ae (A_xorq s d) xt = Some (A_next (set_reg (fst xt) d (xs_r (fst xt) d XOR xs_r (fst xt) s), snd xt))"
| "astep ae (A_callq_reg r) xt =
     (if xs_r (fst xt) RSP AND 15 \<noteq> 0 then None
      else Some (A_to (xs_r (fst xt) r) (apush (ae_ret ae) (fst xt), snd xt)))"
| "astep ae A_call_link xt =
     (if xs_r (fst xt) RSP AND 15 \<noteq> 0 then None else Some (A_next (call_link ae xt)))"
| "astep ae (A_jmpq_reg r) xt = Some (A_to (xs_r (fst xt) r) xt)"
| "astep ae A_retq xt =
     (let sp = xs_r (fst xt) RSP in
      Some (A_to (unaligned_load64 (xs_m (fst xt)) sp) (set_reg (fst xt) RSP (sp + 8), snd xt)))"
| "astep ae A_int3 xt = None"

text \<open>Straight-line code, until it leaves.\<close>

fun arun :: "aenv \<Rightarrow> ainst list \<Rightarrow> astate \<Rightarrow> (uptr \<times> astate) option" where
  "arun ae [] xt = None"
| "arun ae (i # is) xt =
     (case astep ae i xt of
        None \<Rightarrow> None
      | Some (A_next xt') \<Rightarrow> arun ae is xt'
      | Some (A_to p xt') \<Rightarrow> Some (p, xt'))"

subsection \<open>The stubs\<close>

text \<open>
  \<open>CPUState\<close> holds the guest registers, the instruction pointer and the trap code, a pointer to the
  cache of indirect branches and a table with one pointer per stub before \<open>sp_unwindptr\<close>.
\<close>

definition num_stubs :: u64 where "num_stubs = 9"
definition offs_sp_unwindptr :: u64 where "offs_sp_unwindptr = sizeof_cpu_words + 8 + 8 * num_stubs"

definition trampoline_to_jit :: "ainst list" where
  "trampoline_to_jit =
     [A_pushq RBP, A_pushq RBX, A_pushq R12, A_pushq R13, A_pushq R14, A_pushq R15,
      A_movq RDI R13, A_movq RSI RBP,
      A_subq (ucast spillframe_size + 8) RSP,
      A_leaq (- 8) RSP RSI,
      A_movq_store RSI offs_sp_unwindptr R13,
      A_callq_reg RDX, A_int3]"

definition qcgstub_escape_link :: "ainst list" where
  "qcgstub_escape_link =
     [A_addq (ucast spillframe_size + 16) RSP,
      A_popq R15, A_popq R14, A_popq R13, A_popq R12, A_popq RBX, A_popq RBP, A_retq]"

definition qcgstub_escape_brind :: "ainst list" where
  "qcgstub_escape_brind =
     [A_addq (ucast spillframe_size + 16) RSP,
      A_popq R15, A_popq R14, A_popq R13, A_popq R12, A_popq RBX, A_popq RBP,
      A_xorq RAX RAX, A_retq]"

definition qcgstub_link_branch_jit :: "ainst list" where
  "qcgstub_link_branch_jit =
     [A_movq_load 0 RSP RSI, A_movq R13 RDI, A_call_link, A_popq RDI, A_jmpq_reg RDX]"

subsection \<open>Reading what was saved\<close>

lemma load64_cong:
  assumes "\<And>x. x < 8 \<Longrightarrow> m (p + x) = m' (p + x)"
  shows "unaligned_load64 m p = unaligned_load64 m' p"
  using assms [of 0] assms [of 1] assms [of 2] assms [of 3] assms [of 4] assms [of 5] assms [of 6] assms [of 7]
  by (simp add: unaligned_load64_def unaligned_load32_def add.assoc)

lemma apart8:
  assumes "8 \<le> p - a" "8 \<le> a - p" "x < (8 :: u64)"
  shows "\<not> p + x - a < 8"
proof -
  define d where "d = p - a"
  have "a - p = - d" by (simp add: d_def)
  then have d: "8 \<le> unat d" "8 \<le> unat (- d)" "unat x < 8" using assms by (auto simp: d_def word_le_nat_alt word_less_nat_alt)
  then have "unat (- d) = 2 ^ 64 - unat d" using unat_sub_if' [of 0 d] by simp
  with d have "unat d + unat x < 2 ^ 64" using unsigned_less [of d, where 'a = nat] by simp
  then have "unat (d + x) = unat d + unat x" by (simp add: unat_add_lem [THEN iffD1])
  then have "8 \<le> d + x" using d by (simp add: word_le_nat_alt)
  moreover have "p + x - a = d + x" by (simp add: d_def)
  ultimately show ?thesis by (simp only: not_less)
qed

lemma load64_apart [mem_simps]:
  assumes "8 \<le> p - a" "8 \<le> a - p"
  shows "unaligned_load64 (unaligned_store64 m a v) p = unaligned_load64 m p"
  by (rule load64_cong) (rule store64_frame, rule apart8, use assms in auto)

subsection \<open>Into translated code\<close>

text \<open>
  The layout that the trampoline makes for a caller with stack pointer \<open>sp\<close>, and what it needs: the
  stack that it uses is apart from the CPU state and from guest memory.
\<close>

definition tramp_lay :: "uptr \<Rightarrow> uptr \<Rightarrow> u64 \<Rightarrow> mem \<Rightarrow> xlay" where
  "tramp_lay p sp n h = \<lparr>ly_state = p, ly_frame = sp - 1080, ly_stack = n, ly_host = h\<rparr>"

definition tramp_stack :: "uptr \<Rightarrow> uptr \<Rightarrow> bool" where
  "tramp_stack sp q \<longleftrightarrow> q - (sp - 1088) < 1096"

definition in_cpu_state :: "uptr \<Rightarrow> uptr \<Rightarrow> bool" where
  "in_cpu_state p q \<longleftrightarrow> q - p < offs_sp_unwindptr + 8"

definition tramp_ok :: "uptr \<Rightarrow> uptr \<Rightarrow> bool" where
  "tramp_ok p sp \<longleftrightarrow>
     sp AND 15 = 8 \<and> (\<forall>q. tramp_stack sp q \<longrightarrow> \<not> in_cpu_state p q \<and> \<not> in_guest q) \<and>
     (\<forall>q. in_cpu_state p q \<longrightarrow> \<not> in_guest q)"

lemma uint_and_15: "uint ((w :: u64) AND 15) = uint w mod 16"
proof -
  have "w AND 15 = take_bit 4 w" by (simp add: take_bit_eq_mask mask_eq_exp_minus_1)
  then show ?thesis by (simp add: take_bit_eq_mod uint_mod_distrib)
qed

lemma uint_sub_16: "uint (w - k :: u64) mod 16 = (uint w mod 16 - uint k mod 16) mod 16"
  by (simp add: uint_word_ariths mod_mod_cancel mod_diff_eq)

lemma and_15_sub:
  assumes "sp AND 15 = 8"
  shows "(sp - 1080) AND 15 = (0 :: u64)"
proof -
  have "uint sp mod 16 = 8" using assms uint_and_15 [of sp] by simp
  then have "uint ((sp - 1080) AND 15) = 0" unfolding uint_and_15 uint_sub_16 by simp
  then show ?thesis by (simp only: uint_0_iff)
qed

definition saved_mem :: "xstate \<Rightarrow> mem" where
  "saved_mem xs =
     (let sp = xs_r xs RSP; r = xs_r xs in
      unaligned_store64 (unaligned_store64 (unaligned_store64 (unaligned_store64 (unaligned_store64 (unaligned_store64
        (xs_m xs) (sp - 8) (r RBP)) (sp - 16) (r RBX)) (sp - 24) (r R12)) (sp - 32) (r R13)) (sp - 40) (r R14))
        (sp - 48) (r R15))"

definition tramp_mem :: "uptr \<Rightarrow> xstate \<Rightarrow> mem" where
  "tramp_mem ret xs =
     (let sp = xs_r xs RSP in
      unaligned_store64 (unaligned_store64 (saved_mem xs) (xs_r xs RDI + offs_sp_unwindptr) (sp - 1088)) (sp - 1088) ret)"

lemma trampoline_run:
  assumes "xs_r xs RSP AND 15 = 8"
  shows "arun ae trampoline_to_jit (xs, tc) =
    Some (xs_r xs RDX, xs\<lparr>xs_m := tramp_mem (ae_ret ae) xs,
      xs_r := (xs_r xs)(R13 := xs_r xs RDI, RBP := xs_r xs RSI, RSI := xs_r xs RSP - 1088, RSP := xs_r xs RSP - 1088)\<rparr>, tc)"
proof -
  have al: "(xs_r xs RSP - 1080) AND 15 = 0" by (rule and_15_sub [OF assms])
  have d: "RSP \<noteq> RBP" "RSP \<noteq> RBX" "RSP \<noteq> R12" "RSP \<noteq> R13" "RSP \<noteq> R14" "RSP \<noteq> R15" "RSP \<noteq> RDI" "RSP \<noteq> RSI" "RSP \<noteq> RDX"
    "R13 \<noteq> RSI" "RBP \<noteq> RDX" "R13 \<noteq> RDX" "RSI \<noteq> RDX" "RBP \<noteq> R13" "R13 \<noteq> RSP" "RBP \<noteq> RSP" "RSI \<noteq> RSP" "RBP \<noteq> RSI"
    by (simp_all add: asm_regs)
  show ?thesis
    by (simp add: trampoline_to_jit_def Let_def set_reg_def apush_def d d [symmetric] spillframe_size_def al tramp_mem_def
        saved_mem_def fun_upd_twist [OF d(15)])
qed

subsection \<open>Out of translated code\<close>

lemma offs_unwind: "offs_sp_unwindptr = 216"
  by (simp add: offs_sp_unwindptr_def sizeof_cpu_words_def num_stubs_def)

lemma saved_loads:
  fixes xs :: xstate
  defines "sp \<equiv> xs_r xs RSP"
  shows "unaligned_load64 (saved_mem xs) (sp - 48) = xs_r xs R15" "unaligned_load64 (saved_mem xs) (sp - 40) = xs_r xs R14"
    "unaligned_load64 (saved_mem xs) (sp - 32) = xs_r xs R13" "unaligned_load64 (saved_mem xs) (sp - 24) = xs_r xs R12"
    "unaligned_load64 (saved_mem xs) (sp - 16) = xs_r xs RBX" "unaligned_load64 (saved_mem xs) (sp - 8) = xs_r xs RBP"
    "unaligned_load64 (saved_mem xs) sp = unaligned_load64 (xs_m xs) sp"
  unfolding sp_def saved_mem_def Let_def by (simp_all add: mem_simps)

text \<open>The registers that are saved and the return address are in nobody else's area.\<close>

lemma saved_area:
  assumes ok: "tramp_ok p sp" and n: "n < 2 ^ 63" and x: "x < 56"
  shows "\<not> in_cpu (tramp_lay p sp n h) (sp - 48 + x)" "\<not> in_frame (tramp_lay p sp n h) (sp - 48 + x)"
    "\<not> in_guest (sp - 48 + x)" "\<not> in_stk (tramp_lay p sp n h) (sp - 48 + x)"
    "\<not> sp - 48 + x - (sp - 1088) < 8" "\<not> sp - 48 + x - (p + offs_sp_unwindptr) < 8"
proof -
  let ?q = "sp - 48 + x"
  have u: "unat x < 56" using x by (simp add: word_less_nat_alt)
  have a: "?q - (sp - 1080) = 1032 + x" "?q - (sp - 1088) = 1040 + x" by simp_all
  have ua: "unat (1032 + x) = 1032 + unat x" "unat (1040 + x) = 1040 + unat x" using u by (simp_all add: unat_word_ariths)
  have "tramp_stack sp ?q" using u ua by (simp only: tramp_stack_def a word_less_nat_alt) simp
  then have out: "\<not> in_cpu_state p ?q" "\<not> in_guest ?q" using ok by (auto simp: tramp_ok_def)
  show "\<not> in_guest ?q" by (rule out)
  have st: "224 \<le> unat (?q - p)" using out(1) by (simp add: in_cpu_state_def offs_unwind word_less_nat_alt)
  then show "\<not> in_cpu (tramp_lay p sp n h) ?q"
    by (simp add: in_cpu_def tramp_lay_def sizeof_cpu_words_def word_less_nat_alt)
  show "\<not> in_frame (tramp_lay p sp n h) ?q"
    using ua by (simp add: in_frame_def tramp_lay_def spillframe_size_def word_less_nat_alt)
  show "\<not> ?q - (sp - 1088) < 8" using ua by (simp only: a word_less_nat_alt) simp
  show "\<not> ?q - (p + offs_sp_unwindptr) < 8"
  proof
    assume lt: "?q - (p + offs_sp_unwindptr) < 8"
    define y where "y = ?q - (p + offs_sp_unwindptr)"
    have y: "unat y < 8" using lt by (simp add: y_def word_less_nat_alt)
    then have "unat (y + 216) = unat y + 216" by (simp add: unat_word_ariths)
    moreover have "?q - p = y + 216" by (simp add: y_def offs_unwind)
    ultimately have "unat (?q - p) = unat y + 216" by (simp only:)
    then show False using st y by linarith
  qed
  have e: "entry_sp (tramp_lay p sp n h) - ?q = - (1040 + x)" by (simp add: entry_sp_def tramp_lay_def)
  have m: "unat (- (1040 + x)) = 2 ^ 64 - (1040 + unat x)"
    using unat_sub_if' [of 0 "1040 + x"] ua by simp
  have k: "unat (n + 8) = unat n + 8" "unat n < 2 ^ 63" "ly_stack (tramp_lay p sp n h) = n"
    using n by (simp_all add: unat_word_ariths word_less_nat_alt tramp_lay_def)
  have "\<not> unat (- (1040 + x)) \<le> unat (n + 8)" unfolding m k(1) using u k(2) by simp
  then show "\<not> in_stk (tramp_lay p sp n h) ?q" unfolding in_stk_def e k(3) word_le_nat_alt by blast
qed

lemma saved_kept:
  assumes ok: "tramp_ok (xs_r xs RDI) (xs_r xs RSP)" and n: "n < 2 ^ 63" and x: "x < 56"
    and h: "host_in (tramp_lay (xs_r xs RDI) (xs_r xs RSP) n (tramp_mem ret xs)) m"
  shows "m (xs_r xs RSP - 48 + x) = saved_mem xs (xs_r xs RSP - 48 + x)"
proof -
  let ?ly = "tramp_lay (xs_r xs RDI) (xs_r xs RSP) n (tramp_mem ret xs)" and ?q = "xs_r xs RSP - 48 + x"
  note A = saved_area [OF ok n x]
  have "m ?q = ly_host ?ly ?q" using h A(1-4) unfolding host_in_def by blast
  also have "\<dots> = tramp_mem ret xs ?q" by (simp add: tramp_lay_def)
  also have "\<dots> = saved_mem xs ?q" unfolding tramp_mem_def Let_def by (simp only: store64_frame [OF A(5)] store64_frame [OF A(6)])
  finally show ?thesis .
qed

definition restored :: "xstate \<Rightarrow> xstate \<Rightarrow> xstate" where
  "restored xs xs' =
     xs'\<lparr>xs_r := (xs_r xs')(R15 := xs_r xs R15, R14 := xs_r xs R14, R13 := xs_r xs R13, R12 := xs_r xs R12,
        RBX := xs_r xs RBX, RBP := xs_r xs RBP, RSP := xs_r xs RSP + 8)\<rparr>"

lemma escape_run:
  assumes ok: "tramp_ok (xs_r xs RDI) (xs_r xs RSP)" "n < 2 ^ 63"
    and ly: "ly = tramp_lay (xs_r xs RDI) (xs_r xs RSP) n (tramp_mem ret xs)"
    and later: "xs_r xs' RSP = entry_sp ly" "host_in ly (xs_m xs')"
  shows "arun ae qcgstub_escape_link (xs', tc) = Some (unaligned_load64 (xs_m xs) (xs_r xs RSP), restored xs xs', tc)"
    "arun ae qcgstub_escape_brind (xs', tc) =
       Some (unaligned_load64 (xs_m xs) (xs_r xs RSP), set_reg (restored xs xs') RAX 0, tc)"
proof -
  let ?sp = "xs_r xs RSP"
  have sp: "xs_r xs' RSP = ?sp - 1088" using later(1) by (simp add: ly entry_sp_def tramp_lay_def)
  have ld: "unaligned_load64 (xs_m xs') (?sp - 48 + k) = unaligned_load64 (saved_mem xs) (?sp - 48 + k)" if k: "k \<le> 48" for k
  proof (rule load64_cong)
    fix x :: u64 assume "x < 8"
    then have "unat (k + x) < 56" using k by (simp add: unat_word_ariths word_less_nat_alt word_le_nat_alt)
    then have "k + x < 56" by (simp add: word_less_nat_alt)
    from saved_kept [OF ok this later(2) [unfolded ly]]
    show "xs_m xs' (?sp - 48 + k + x) = saved_mem xs (?sp - 48 + k + x)" by (simp add: add.assoc)
  qed
  note L = ld [of 0] ld [of 8] ld [of 16] ld [of 24] ld [of 32] ld [of 40] ld [of 48]
  have loads: "unaligned_load64 (xs_m xs') (?sp - 48) = xs_r xs R15" "unaligned_load64 (xs_m xs') (?sp - 40) = xs_r xs R14"
    "unaligned_load64 (xs_m xs') (?sp - 32) = xs_r xs R13" "unaligned_load64 (xs_m xs') (?sp - 24) = xs_r xs R12"
    "unaligned_load64 (xs_m xs') (?sp - 16) = xs_r xs RBX" "unaligned_load64 (xs_m xs') (?sp - 8) = xs_r xs RBP"
    "unaligned_load64 (xs_m xs') ?sp = unaligned_load64 (xs_m xs) ?sp"
    using L saved_loads [of xs] by simp_all
  have d: "RSP \<noteq> RBP" "RSP \<noteq> RBX" "RSP \<noteq> R12" "RSP \<noteq> R13" "RSP \<noteq> R14" "RSP \<noteq> R15" "RSP \<noteq> RAX"
    by (simp_all add: asm_regs)
  show "arun ae qcgstub_escape_link (xs', tc) = Some (unaligned_load64 (xs_m xs) ?sp, restored xs xs', tc)"
    by (simp add: qcgstub_escape_link_def Let_def set_reg_def sp spillframe_size_def loads d d [symmetric] restored_def)
  show "arun ae qcgstub_escape_brind (xs', tc) =
      Some (unaligned_load64 (xs_m xs) ?sp, set_reg (restored xs xs') RAX 0, tc)"
    by (simp add: qcgstub_escape_brind_def Let_def set_reg_def sp spillframe_size_def loads d d [symmetric] restored_def
        fun_upd_twist [OF d(7)])
qed

text \<open>What the trampoline writes.\<close>

lemma tramp_mem_frame:
  assumes "\<not> tramp_stack (xs_r xs RSP) q" "\<not> q - (xs_r xs RDI + offs_sp_unwindptr) < 8"
  shows "tramp_mem ret xs q = xs_m xs q"
proof -
  let ?sp = "xs_r xs RSP"
  have n: "\<not> q - (?sp - 1088 + k) < 8" if k: "k \<le> 1088" for k
  proof
    assume lt: "q - (?sp - 1088 + k) < 8"
    define y where "y = q - (?sp - 1088 + k)"
    have y: "unat y < 8" using lt by (simp add: y_def word_less_nat_alt)
    have "unat (y + k) = unat y + unat k" using y k by (simp add: unat_word_ariths word_le_nat_alt)
    then have "unat (y + k) < 1096" using y k by (simp add: word_le_nat_alt)
    moreover have "q - (?sp - 1088) = y + k" by (simp add: y_def)
    ultimately have "tramp_stack ?sp q" unfolding tramp_stack_def word_less_nat_alt by simp
    with assms(1) show False ..
  qed
  have "saved_mem xs q = xs_m xs q"
    using n [of 1080] n [of 1072] n [of 1064] n [of 1056] n [of 1048] n [of 1040]
    by (simp add: saved_mem_def Let_def store64_frame)
  then show ?thesis using n [of 0] assms(2) by (simp add: tramp_mem_def Let_def store64_frame)
qed

lemma word_8_1096: "(8 :: u64) < 1096"
  by simp

lemma trampoline_enters:
  fixes xs :: xstate
  defines "p \<equiv> xs_r xs RDI" and "sp \<equiv> xs_r xs RSP"
  assumes ok: "tramp_ok p sp" and ly: "ly = tramp_lay p sp n (tramp_mem (ae_ret ae) xs)"
    and g: "cpu_at ly s (xs_m xs)" "guest_in m (xs_m xs)"
  shows "\<exists>xs1. arun ae trampoline_to_jit (xs, tc) = Some (xs_r xs RDX, xs1, tc) \<and>
    guest_at ly s m xs1 \<and> host_in ly (xs_m xs1) \<and> xs_r xs1 MEMBASE = xs_r xs RSI \<and> ly_frame ly AND 15 = 0 \<and>
    unaligned_load64 (xs_m xs1) (p + offs_sp_unwindptr) = entry_sp ly"
proof -
  let ?m = "tramp_mem (ae_ret ae) xs"
  define xs1 where "xs1 = xs\<lparr>xs_m := ?m, xs_r := (xs_r xs)(R13 := p, RBP := xs_r xs RSI, RSI := sp - 1088, RSP := sp - 1088)\<rparr>"
  have al: "sp AND 15 = 8" using ok by (simp add: tramp_ok_def)
  have run: "arun ae trampoline_to_jit (xs, tc) = Some (xs_r xs RDX, xs1, tc)"
    using trampoline_run [of xs ae tc] al by (simp add: xs1_def p_def sp_def)
  have keep: "?m q = xs_m xs q" if q: "q - p < 136 \<or> in_guest q" for q
  proof (rule tramp_mem_frame)
    show "\<not> tramp_stack (xs_r xs RSP) q"
      using ok q by (auto simp: tramp_ok_def in_cpu_state_def offs_unwind word_less_nat_alt simp flip: sp_def)
    show "\<not> q - (xs_r xs RDI + offs_sp_unwindptr) < 8"
    proof
      define y where "y = q - (p + offs_sp_unwindptr)"
      assume "q - (xs_r xs RDI + offs_sp_unwindptr) < 8"
      then have y: "unat y < 8" by (simp add: y_def p_def word_less_nat_alt)
      then have u: "unat (y + 216) = unat y + 216" by (simp add: unat_word_ariths)
      have e: "q - p = y + 216" by (simp add: y_def offs_unwind)
      have "in_cpu_state p q" using y u unfolding in_cpu_state_def e word_less_nat_alt by (simp add: offs_unwind)
      moreover have "\<not> q - p < 136" using u unfolding e word_less_nat_alt by simp
      ultimately show False using ok q by (auto simp: tramp_ok_def)
    qed
  qed
  have w: "unaligned_load32 ?m (p + k) = unaligned_load32 (xs_m xs) (p + k)" if k: "unat k + 4 \<le> 136" for k
  proof -
    have "?m (p + k + j) = xs_m xs (p + k + j)" if "unat j < 4" for j
    proof -
      have "unat (k + j) < 136" using k that by (simp add: unat_word_ariths)
      then have "p + k + j - p < 136" by (simp add: word_less_nat_alt add.assoc)
      then show ?thesis using keep by blast
    qed
    from this [of 0] this [of 1] this [of 2] this [of 3] show ?thesis by (simp add: unaligned_load32_def)
  qed
  have u4: "unat (4 * ucast r :: u64) + 4 \<le> 136" if "r < 32" for r :: u8
  proof -
    have "unat r < 32" using that by (simp add: word_less_nat_alt)
    moreover from this have "unat (ucast r :: u64) = unat r" by (simp add: unsigned_ucast_eq take_bit_nat_eq_self)
    ultimately show ?thesis by (simp add: unat_word_ariths)
  qed
  have "cpu_at ly s ?m" using g(1) w u4 by (simp add: cpu_at_def ly tramp_lay_def)
  moreover have "guest_in m ?m" using g(2) keep by (simp add: guest_in_def)
  moreover have "xs_r xs1 STATE = p" "xs_r xs1 SP = entry_sp ly" "xs_r xs1 MEMBASE = xs_r xs RSI" "ly_state ly = p"
    by (simp_all add: xs1_def ly tramp_lay_def entry_sp_def asm_regs)
  ultimately have "guest_at ly s m xs1" by (simp add: guest_at_def) (simp add: xs1_def)
  moreover have "host_in ly (xs_m xs1)" by (simp add: host_in_def xs1_def ly tramp_lay_def)
  moreover have "ly_frame ly AND 15 = 0" using and_15_sub [OF al] by (simp add: ly tramp_lay_def)
  moreover have "unaligned_load64 (xs_m xs1) (p + offs_sp_unwindptr) = entry_sp ly"
  proof -
    have out: "\<not> tramp_stack sp q" if "in_cpu_state p q" for q using ok that by (auto simp: tramp_ok_def)
    have "unaligned_load64 (unaligned_store64 m' (sp - 1088) v) (p + offs_sp_unwindptr) = unaligned_load64 m' (p + offs_sp_unwindptr)" for m' v
    proof (rule load64_cong, rule store64_frame)
      fix x :: u64 assume "x < 8"
      then have x: "unat x < 8" by (simp add: word_less_nat_alt)
      then have "unat (216 + x) < 224" by (simp add: unat_word_ariths)
      then have "in_cpu_state p (p + offs_sp_unwindptr + x)"
        by (simp add: in_cpu_state_def offs_unwind word_less_nat_alt add.assoc)
      from out [OF this] show "\<not> p + offs_sp_unwindptr + x - (sp - 1088) < 8"
        unfolding tramp_stack_def by (meson order.strict_trans word_8_1096)
    qed
    then show ?thesis
      by (simp add: xs1_def tramp_mem_def Let_def mem_simps entry_sp_def ly tramp_lay_def flip: p_def sp_def)
  qed
  ultimately show ?thesis using run \<open>xs_r xs1 MEMBASE = xs_r xs RSI\<close> by blast
qed

subsection \<open>The linking stub\<close>

lemma call_mem_cpu:
  assumes ok: "lay_ok ly" and n: "xe_stack e = ly_stack ly"
  shows "cpu_in ly (cpu_word s) (call_mem e (entry_sp ly - 8) (write_cpu m (ly_state ly) s))"
  unfolding cpu_in_def
proof (intro allI impI)
  fix x assume x: "x < sizeof_cpu_words"
  let ?q = "ly_state ly + x" and ?d = "entry_sp ly - 8 - (ly_state ly + x)"
  have "in_cpu ly ?q" using x by (simp add: in_cpu_def)
  then have out: "\<not> in_stk ly ?q" using ok by (auto simp: lay_ok_def)
  have "\<not> (0 < ?d \<and> ?d \<le> xe_stack e)"
  proof
    assume d: "0 < ?d \<and> ?d \<le> xe_stack e"
    have l: "unat (ly_stack ly) < 2 ^ 63" using ok by (simp add: lay_ok_def word_less_nat_alt)
    define y where "y = ?d"
    have y: "0 < unat y" "unat y \<le> unat (ly_stack ly)" using d n by (simp_all add: y_def word_less_nat_alt word_le_nat_alt)
    have "unat (y + 8) = unat y + 8" "unat (ly_stack ly + 8) = unat (ly_stack ly) + 8"
      using l y by (simp_all add: unat_word_ariths)
    moreover have e: "entry_sp ly - ?q = y + 8" by (simp add: y_def)
    ultimately have "in_stk ly ?q" unfolding in_stk_def e word_less_nat_alt word_le_nat_alt using y by simp
    with out show False ..
  qed
  then show "call_mem e (entry_sp ly - 8) (write_cpu m (ly_state ly) s) ?q = word_bytes (cpu_word s) x"
    using x by (auto simp: call_mem_def write_cpu_def)
qed

lemma link_branch_run:
  assumes tc: "tc_ok tc" and ly: "lay_ok ly" "xe_stack (ae_env ae) = ly_stack ly"
    and xs: "xs_r xs STATE = ly_state ly" "xs_r xs SP = entry_sp ly - 8"
    and slot: "FromCallPtrRetaddr (unaligned_load64 (xs_m xs) (xs_r xs SP)) = slot" "slot_gip (xs_m xs) slot = g"
  shows "\<exists>xs' tc'. arun ae qcgstub_link_branch_jit (xs, tc) =
      Some (case code_of tc g of Some q \<Rightarrow> q | None \<Rightarrow> ae_escape_link ae, xs', tc') \<and>
    tc_ok tc' \<and> code_of tc' = code_of tc \<and>
    xs_r xs' SP = entry_sp ly \<and> xs_r xs' STATE = ly_state ly \<and> xs_r xs' MEMBASE = xs_r xs MEMBASE \<and> xs_r xs' RAX = slot \<and>
    (code_of tc g = None \<longrightarrow> unaligned_load32 (xs_m xs') (ly_state ly + 128) = g)"
proof -
  let ?p = "ly_state ly"
  define ra where "ra = unaligned_load64 (xs_m xs) (xs_r xs RSP)"
  define st where "st = \<lparr>x_cpu = read_cpu (xs_m xs) ?p, x_tc = tc, x_mem = xs_m xs, is_current = True\<rparr>"
  obtain t st1 where t: "qcg_TryLinkBranchJIT ra st = (t, st1)" by fastforce
  have sl: "FromCallPtrRetaddr ra = slot" using slot(1) by (simp add: ra_def SP_def)
  from TryLinkBranch_spec [OF _ sl t] tc slot(2)
  have T: "tc_ok (x_tc st1)" "code_of (x_tc st1) = code_of tc" "slot_gip (x_mem st1) slot = g"
    "case code_of tc g of Some code \<Rightarrow> t = Enter code | None \<Rightarrow> t = Escape_link slot \<and> ip (x_cpu st1) = g"
    by (auto simp: st_def split: option.splits)
  define target where "target = (case t of Enter q \<Rightarrow> q | _ \<Rightarrow> ae_escape_link ae)"
  have target: "target = (case code_of tc g of Some q \<Rightarrow> q | None \<Rightarrow> ae_escape_link ae)"
    using T(4) by (auto simp: target_def split: option.splits)
  define m1 where "m1 = call_mem (ae_env ae) (entry_sp ly - 8) (write_cpu (x_mem st1) ?p (x_cpu st1))"
  define xs1 where "xs1 = set_reg (set_reg xs RSI ra) RDI ?p"
  define r1 where "r1 = (call_regs (ae_env ae) (xs_r xs1))(RAX := slot, RDX := target)"
  define xs2 where "xs2 = xs\<lparr>xs_r := r1, xs_m := m1, xs_f := None\<rparr>"
  define xs3 where "xs3 = xs2\<lparr>xs_r := r1(RSP := entry_sp ly, RDI := unaligned_load64 m1 (entry_sp ly - 8))\<rparr>"
  have d: "RSP \<noteq> RSI" "RSP \<noteq> RDI" "RSP \<noteq> RAX" "RSP \<noteq> RDX" "RSI \<noteq> RDI" "RAX \<noteq> RDX" "R13 \<noteq> RSI" "R13 \<noteq> RDI" "R13 \<noteq> RAX" "R13 \<noteq> RDX"
    "RBP \<noteq> RSI" "RBP \<noteq> RDI" "RBP \<noteq> RAX" "RBP \<noteq> RDX" "RDI \<noteq> RDX" "RAX \<noteq> RDI" "RSP \<noteq> RBP" "RSP \<noteq> R13"
    by (simp_all add: asm_regs)
  have cl: "\<not> rm_Test GPR_CALL_CLOBBER RSP" "\<not> rm_Test GPR_CALL_CLOBBER R13" "\<not> rm_Test GPR_CALL_CLOBBER RBP"
    unfolding rm_Test_CLOBBER by (simp_all add: asm_regs)
  have sp: "xs_r xs RSP = entry_sp ly - 8" and pp: "xs_r xs R13 = ?p" using xs by (simp_all add: SP_def STATE_def)
  have al: "(entry_sp ly - 8) AND 15 = 0" using call_aligned [OF ly(1)] by (simp add: entry_sp_def)
  have cm: "call_link ae (xs1, tc) = (xs2, x_tc st1)"
    using t d by (simp add: call_link_def Let_def xs1_def set_reg_def sp sl after_stub_def m1_def r1_def xs2_def
        target_def st_def [symmetric])
  have "arun ae qcgstub_link_branch_jit (xs, tc) = arun ae [A_call_link, A_popq RDI, A_jmpq_reg RDX] (xs1, tc)"
    using d by (simp add: qcgstub_link_branch_jit_def xs1_def set_reg_def ra_def pp)
  also have "\<dots> = arun ae [A_popq RDI, A_jmpq_reg RDX] (xs2, x_tc st1)"
    using d by (simp add: cm) (simp add: xs1_def set_reg_def sp al)
  also have "\<dots> = Some (target, xs3, x_tc st1)"
  proof -
    have "xs_r xs2 RSP = entry_sp ly - 8" using d cl sp by (simp add: xs2_def r1_def call_regs_def xs1_def set_reg_def)
    then show ?thesis using d by (simp add: Let_def set_reg_def xs3_def) (simp add: xs2_def r1_def)
  qed
  finally have run: "arun ae qcgstub_link_branch_jit (xs, tc) = Some (target, xs3, x_tc st1)" .
  have "unaligned_load32 m1 (?p + 128) = g" if "code_of tc g = None"
    using cpu_in_load [OF call_mem_cpu [OF ly, of "x_cpu st1" "x_mem st1"], of 32] T(4) that
    by (simp add: m1_def cpu_word_def)
  then show ?thesis
    using run T(1,2) target d cl pp
    by (intro exI [of _ xs3] exI [of _ "x_tc st1"])
      (simp add: xs3_def xs2_def r1_def call_regs_def xs1_def set_reg_def SP_def STATE_def MEMBASE_def)
qed

subsection \<open>Properties\<close>

text \<open>
  C12. \<open>trampoline_to_jit(state, vmem, tc_ptr)\<close>, called with the stack aligned as the calling convention
  says, arrives at \<open>tc_ptr\<close> with the machine as translated code expects it: the guest state and memory
  in place, \<open>STATE\<close> and \<open>MEMBASE\<close> set, an aligned spill frame above the stack pointer and the unwind
  pointer recorded. From any later state whose stack pointer is that of the entry and in which the
  host's memory is untouched, both escape stubs return to the caller of the trampoline with its
  callee-saved registers and stack pointer, and with \<open>rax\<close> as translated code left it, or null.
\<close>

theorem trampoline_correct:
  fixes xs :: xstate
  assumes "tramp_ok (xs_r xs RDI) (xs_r xs RSP)" "n < 2 ^ 63"
    and "ly = tramp_lay (xs_r xs RDI) (xs_r xs RSP) n (tramp_mem (ae_ret ae) xs)"
    and "cpu_at ly s (xs_m xs)" "guest_in m (xs_m xs)"
  shows "(\<exists>xs1. arun ae trampoline_to_jit (xs, tc) = Some (xs_r xs RDX, xs1, tc) \<and>
      guest_at ly s m xs1 \<and> host_in ly (xs_m xs1) \<and> xs_r xs1 MEMBASE = xs_r xs RSI \<and> ly_frame ly AND 15 = 0 \<and>
      unaligned_load64 (xs_m xs1) (xs_r xs RDI + offs_sp_unwindptr) = entry_sp ly) \<and>
    (\<forall>xs' tc'. xs_r xs' SP = entry_sp ly \<and> host_in ly (xs_m xs') \<longrightarrow>
      arun ae qcgstub_escape_link (xs', tc') = Some (unaligned_load64 (xs_m xs) (xs_r xs RSP), restored xs xs', tc') \<and>
      arun ae qcgstub_escape_brind (xs', tc') =
        Some (unaligned_load64 (xs_m xs) (xs_r xs RSP), set_reg (restored xs xs') RAX 0, tc'))"
proof (intro conjI allI impI)
  show "\<exists>xs1. arun ae trampoline_to_jit (xs, tc) = Some (xs_r xs RDX, xs1, tc) \<and>
      guest_at ly s m xs1 \<and> host_in ly (xs_m xs1) \<and> xs_r xs1 MEMBASE = xs_r xs RSI \<and> ly_frame ly AND 15 = 0 \<and>
      unaligned_load64 (xs_m xs1) (xs_r xs RDI + offs_sp_unwindptr) = entry_sp ly"
    by (rule trampoline_enters [OF assms(1,3-5)])
qed (use escape_run [OF assms(1-3)] in \<open>simp_all add: SP_def\<close>)

text \<open>A caller of the trampoline, with the guest of Codegen_Correct.\<close>

definition demo_caller :: xstate where
  "demo_caller = \<lparr>xs_r = (\<lambda>p. if p = RDI then 0x200000000 else if p = RSP then 0x300000438 else ucast p),
     xs_m = demo_mem, xs_f = None\<rparr>"

definition demo_aenv :: aenv where
  "demo_aenv = \<lparr>ae_env = demo_env, ae_ret = 0x600000000, ae_escape_link = 0x600000100\<rparr>"

lemma demo_tramp_ok: "tramp_ok 0x200000000 0x300000438"
proof -
  have s: "0x2fffffff8 \<le> unat q \<and> unat q < 0x300000440" if "tramp_stack 0x300000438 q" for q
    using below_unat [of q "0x2fffffff8" 1096] that by (simp add: tramp_stack_def)
  have c: "0x200000000 \<le> unat q \<and> unat q < 0x2000000e0" if "in_cpu_state 0x200000000 q" for q
    using below_unat [of q "0x200000000" 224] that by (simp add: in_cpu_state_def offs_unwind)
  show ?thesis unfolding tramp_ok_def
  proof (intro conjI allI impI)
    fix q
    show "\<not> in_cpu_state 0x200000000 q" if q: "tramp_stack 0x300000438 q" using s [OF q] c [of q] by auto
    show "\<not> in_guest q" if q: "tramp_stack 0x300000438 q" using s [OF q] demo_areas(3) [of q] by auto
    show "\<not> in_guest q" if q: "in_cpu_state 0x200000000 q" using c [OF q] demo_areas(3) [of q] by auto
  qed simp
qed

theorem trampoline_correct_witness:
  "\<exists>xs1. arun demo_aenv trampoline_to_jit (demo_caller, one_block) = Some (2, xs1, one_block) \<and>
     xs_r xs1 SP = 0x2fffffff8 \<and> xs_r xs1 STATE = 0x200000000 \<and>
     arun demo_aenv qcgstub_escape_brind (xs1, one_block) =
       Some (0, set_reg (restored demo_caller xs1) RAX 0, one_block)"
proof -
  let ?ly = "tramp_lay 0x200000000 0x300000438 4096 (tramp_mem 0x600000000 demo_caller)"
  have r: "xs_r demo_caller RDI = 0x200000000" "xs_r demo_caller RSP = 0x300000438" "xs_r demo_caller RDX = 2"
    by (simp_all add: demo_caller_def asm_regs)
  have "cpu_at demo_lay init_cpu demo_mem" "guest_in bltu_mem demo_mem"
    using demo_guest(1) by (simp_all add: guest_at_def demo_state_def)
  then have g: "cpu_at ?ly init_cpu (xs_m demo_caller)" "guest_in bltu_mem (xs_m demo_caller)"
    by (simp_all add: cpu_at_def demo_caller_def) (simp_all add: tramp_lay_def demo_lay_def)
  have z: "unaligned_load64 (xs_m demo_caller) 0x300000438 = 0"
    by (simp add: demo_caller_def demo_mem_def unaligned_load64_def unaligned_load32_def)
  note T = trampoline_correct [of demo_caller 4096 ?ly demo_aenv init_cpu bltu_mem one_block, unfolded r]
  have "tramp_ok 0x200000000 0x300000438 \<and> (4096 :: u64) < 2 ^ 63 \<and>
      ?ly = tramp_lay 0x200000000 0x300000438 4096 (tramp_mem (ae_ret demo_aenv) demo_caller)"
    using demo_tramp_ok by (simp add: demo_aenv_def)
  with T g obtain xs1 where x: "arun demo_aenv trampoline_to_jit (demo_caller, one_block) = Some (2, xs1, one_block)"
      "guest_at ?ly init_cpu bltu_mem xs1" "host_in ?ly (xs_m xs1)"
    and esc: "\<And>xs' tc'. xs_r xs' SP = entry_sp ?ly \<Longrightarrow> host_in ?ly (xs_m xs') \<Longrightarrow>
      arun demo_aenv qcgstub_escape_brind (xs', tc') =
        Some (unaligned_load64 (xs_m demo_caller) 0x300000438, set_reg (restored demo_caller xs') RAX 0, tc')"
    by blast
  have "xs_r xs1 SP = entry_sp ?ly" "xs_r xs1 STATE = 0x200000000" using x(2) by (simp_all add: guest_at_def tramp_lay_def)
  moreover have "entry_sp ?ly = 0x2fffffff8" by (simp add: entry_sp_def tramp_lay_def)
  ultimately show ?thesis using x(1) esc [of xs1 one_block] x(3) z by auto
qed

text \<open>
  C25. The linking stub, entered by the call of an unlinked slot, jumps to the code of the slot's target
  if the translation cache has it and to the escape stub otherwise, with the slot in \<open>rax\<close>, the
  stack pointer as at the entry of a region and \<open>STATE\<close> and \<open>MEMBASE\<close> kept; when it escapes, the guest
  instruction pointer in memory is the slot's target.
\<close>

theorem link_branch_correct:
  assumes "tc_ok tc" "lay_ok ly" "xe_stack (ae_env ae) = ly_stack ly"
    and "xs_r xs STATE = ly_state ly" "xs_r xs SP = entry_sp ly - 8"
    and "FromCallPtrRetaddr (unaligned_load64 (xs_m xs) (xs_r xs SP)) = slot" "slot_gip (xs_m xs) slot = g"
  shows "\<exists>xs' tc'. arun ae qcgstub_link_branch_jit (xs, tc) =
      Some (case code_of tc g of Some q \<Rightarrow> q | None \<Rightarrow> ae_escape_link ae, xs', tc') \<and>
    tc_ok tc' \<and> code_of tc' = code_of tc \<and>
    xs_r xs' SP = entry_sp ly \<and> xs_r xs' STATE = ly_state ly \<and> xs_r xs' MEMBASE = xs_r xs MEMBASE \<and> xs_r xs' RAX = slot \<and>
    (code_of tc g = None \<longrightarrow> unaligned_load32 (xs_m xs') (ly_state ly + 128) = g)"
  using assms by (rule link_branch_run)

theorem link_branch_correct_witness:
  "\<exists>xs xs' tc'. xs_r xs SP = entry_sp demo_lay - 8 \<and>
     arun demo_aenv qcgstub_link_branch_jit (xs, one_block) = Some (0x7000, xs', tc') \<and>
     xs_r xs' RAX = 0x500000000 \<and> xs_r xs' SP = entry_sp demo_lay"
proof -
  define m where "m = unaligned_store32 (unaligned_store64 demo_mem 0x2fffffff0 0x50000000c) 0x50000000c 0x1000"
  define xs where "xs = demo_state\<lparr>xs_m := m, xs_r := (xs_r demo_state)(SP := 0x2fffffff0)\<rparr>"
  have ld: "unaligned_load64 m 0x2fffffff0 = 0x50000000c"
  proof -
    have "unaligned_load64 m 0x2fffffff0 = unaligned_load64 (unaligned_store64 demo_mem 0x2fffffff0 0x50000000c) 0x2fffffff0"
      by (simp add: m_def unaligned_load64_def unaligned_load32_def unaligned_store32_def)
    then show ?thesis by (simp add: mem_simps)
  qed
  have lay: "lay_ok demo_lay" "xe_stack (ae_env demo_aenv) = ly_stack demo_lay"
    using demo_host_ok by (simp_all add: host_ok_def demo_aenv_def)
  have x: "xs_r xs STATE = ly_state demo_lay" "xs_r xs SP = entry_sp demo_lay - 8"
    by (simp_all add: xs_def demo_state_def demo_lay_def entry_sp_def reg_defs)
  have sl: "FromCallPtrRetaddr (unaligned_load64 (xs_m xs) (xs_r xs SP)) = 0x500000000"
    using ld by (simp add: xs_def FromCallPtrRetaddr_def sizeof_Call64Abs_def)
  have g: "slot_gip (xs_m xs) 0x500000000 = 0x1000" by (simp add: xs_def m_def slot_gip_def offs_gip_def mem_simps)
  have c: "code_of one_block 0x1000 = Some 0x7000" "tc_ok one_block"
    using one_block_ok by (simp_all add: code_of_def) (simp add: one_block_def)
  show ?thesis using link_branch_correct [OF c(2) lay x sl g] c(1) x(2) by auto
qed

subsection \<open>The trace ring\<close>

text \<open>\<open>TraceRing\<close> keeps the guest addresses that were pushed last.\<close>

definition trace_size :: u32 where "trace_size = 64"

record trace_ring =
  tr_head :: u32
  tr_arr :: "u32 \<Rightarrow> u32"

definition new_trace_ring :: trace_ring where
  "new_trace_ring = \<lparr>tr_head = 0, tr_arr = (\<lambda>_. 0)\<rparr>"

definition TraceRing_push :: "u32 \<Rightarrow> trace_ring \<Rightarrow> trace_ring" where
  "TraceRing_push rec t = t\<lparr>tr_arr := (tr_arr t)(tr_head t mod trace_size := rec), tr_head := tr_head t + 1\<rparr>"

lemma uint_numeral_64: "uint (64 :: u32) = 64"
  by simp

lemma ring_distinct:
  assumes "0 < k" "k < 64"
  shows "(h - of_nat k) mod 64 \<noteq> (h :: u32) mod 64"
proof
  assume "(h - of_nat k) mod 64 = h mod 64"
  then have "uint (h - of_nat k) mod 64 = uint h mod 64" by (metis uint_mod_distrib uint_numeral_64)
  moreover have "uint (h - of_nat k) mod 64 = (uint h - int k) mod 64"
  proof -
    have "uint (of_nat k :: u32) = int k" using assms(2) by (simp add: unsigned_of_nat take_bit_eq_mod)
    then show ?thesis by (simp add: uint_word_ariths mod_mod_cancel)
  qed
  ultimately have "(64 :: int) dvd int k" by (metis mod_eq_dvd_iff diff_diff_eq2 add_diff_cancel_left' dvd_minus_iff minus_diff_eq)
  with assms show False by (simp add: int_dvd_int_iff [of 64, simplified] nat_dvd_not_less)
qed

lemma push_sel:
  "tr_head (TraceRing_push r t) = tr_head t + 1" "tr_arr (TraceRing_push r t) = (tr_arr t)(tr_head t mod 64 := r)"
  by (simp_all add: TraceRing_push_def trace_size_def)

text \<open>The ring holds the last 64 addresses, the newest just before \<open>head\<close>, also when \<open>head\<close> wraps around.\<close>

lemma TraceRing_recent:
  assumes "k < 64" "k < length xs"
  shows "tr_arr (fold TraceRing_push xs t) ((tr_head (fold TraceRing_push xs t) - 1 - of_nat k) mod trace_size) = rev xs ! k"
  using assms
proof (induction xs arbitrary: k rule: rev_induct)
  case (snoc x xs)
  let ?t = "fold TraceRing_push xs t"
  show ?case
  proof (cases k)
    case (Suc j)
    have "(tr_head ?t - of_nat (Suc j)) mod 64 \<noteq> tr_head ?t mod 64"
      by (rule ring_distinct) (use Suc snoc.prems in auto)
    then show ?thesis
      using snoc.IH [of j] snoc.prems Suc by (simp add: push_sel trace_size_def algebra_simps)
  qed (simp add: push_sel trace_size_def)
qed simp

end
