(* ===== verification/Mmu.thy ===== *)
theory Mmu
  imports Tcache
begin

section \<open>Guest address space: mmu.h, mmu.cpp\<close>

text \<open>
  The guest's four gigabytes are a window of the host's address space that starts at \<open>base\<close>.
  \<open>mmu::mmap\<close> maps pages there; it keeps a bitmap of used pages as a hint where to look, and leaves it
  to the host not to replace a mapping. The host's \<open>mmap\<close> and \<open>munmap\<close> are parameters. What their
  manual promises is the predicate \<open>host_mm_ok\<close>; a host that satisfies it is at the end.
\<close>

subsection \<open>The host\<close>

text \<open>
  \<open>'h\<close> is the state of the host besides memory. Integers of type \<open>int\<close> are 32-bit words,
  \<open>os_mmap addr len prot flags fd offs\<close> and \<open>os_munmap addr len\<close> change the host and memory.
\<close>

type_synonym 'h world = "'h \<times> mem"

record 'h host =
  os_mmap :: "uptr \<Rightarrow> u64 \<Rightarrow> u32 \<Rightarrow> u32 \<Rightarrow> u32 \<Rightarrow> u64 \<Rightarrow> 'h world \<Rightarrow> uptr \<times> 'h world"
  os_munmap :: "uptr \<Rightarrow> u64 \<Rightarrow> 'h world \<Rightarrow> u32 \<times> 'h world"

definition PROT_NONE :: u32 where "PROT_NONE = 0"
definition MAP_PRIVATE :: u32 where "MAP_PRIVATE = 2"
definition MAP_FIXED :: u32 where "MAP_FIXED = 0x10"
definition MAP_ANON :: u32 where "MAP_ANON = 0x20"
definition MAP_NORESERVE :: u32 where "MAP_NORESERVE = 0x4000"

lemmas map_flags_def = PROT_NONE_def MAP_PRIVATE_def MAP_FIXED_def MAP_ANON_def MAP_NORESERVE_def

subsection \<open>State\<close>

definition ASPACE_SIZE :: u64 where "ASPACE_SIZE = push_bit 32 1"
definition PAGE_BITS :: nat where "PAGE_BITS = 12"
definition MIN_MMAP_ADDR :: u64 where "MIN_MMAP_ADDR = 16 * ucast PAGE_SIZE"
definition num_pages :: u32 where "num_pages = ucast (drop_bit PAGE_BITS ASPACE_SIZE)"
definition min_page :: u32 where "min_page = ucast (drop_bit PAGE_BITS MIN_MMAP_ADDR)"

record mmu =
  mmu_base :: uptr
  mmap_hint_page :: u32
  used_pages :: "u32 \<Rightarrow> bool"

definition init_mmu :: mmu where
  "init_mmu = \<lparr>mmu_base = 0, mmap_hint_page = min_page, used_pages = (\<lambda>_. False)\<rparr>"

definition check_h2g :: "mmu \<Rightarrow> uptr \<Rightarrow> bool" where
  "check_h2g m hptr \<longleftrightarrow> hptr - mmu_base m < ASPACE_SIZE"

definition h2g :: "mmu \<Rightarrow> uptr \<Rightarrow> u32" where
  "h2g m hptr = ucast (hptr - mmu_base m)"

definition g2h :: "mmu \<Rightarrow> u32 \<Rightarrow> uptr" where
  "g2h m gptr = mmu_base m + ucast gptr"

subsection \<open>The bitmap\<close>

text \<open>A \<open>std::bitset\<close> throws when the position is out of range.\<close>

definition bitset_put :: "bool \<Rightarrow> nat \<Rightarrow> mmu \<Rightarrow> mmu res" where
  "bitset_put b p m =
     (if p < unat num_pages then Inr (m\<lparr>used_pages := (used_pages m)(of_nat p := b)\<rparr>)
      else Inl (Panic ''std::out_of_range''))"

text \<open>The loops run from \<open>pvaddr\<close> to \<open>plen\<close>, not to the end of the range.\<close>

definition MarkUsedPages :: "u32 \<Rightarrow> u32 \<Rightarrow> mmu \<Rightarrow> mmu res" where
  "MarkUsedPages pvaddr plen m = rfold (bitset_put True) [unat pvaddr ..< unat plen] m"

definition MarkFreePages :: "u32 \<Rightarrow> u32 \<Rightarrow> mmu \<Rightarrow> mmu res" where
  "MarkFreePages pvaddr plen m = rfold (bitset_put False) [unat pvaddr ..< unat plen] m"

text \<open>The loop of \<open>LookupFreeRange\<close> at page \<open>p\<close>.\<close>

function lookup_from :: "mmu \<Rightarrow> u32 \<Rightarrow> u32 \<Rightarrow> u32 \<Rightarrow> u32" where
  "lookup_from m plen count p =
     (if p < num_pages then
        if count - 1 = 0 then p + 1 - plen
        else lookup_from m plen (if used_pages m p then plen else count - 1) (p + 1)
      else 0)"
  by pat_completeness auto
termination
proof (relation "measure (\<lambda>(m, plen, count, p). unat num_pages - unat p)")
  fix m plen count p
  assume "p < num_pages"
  then have "unat (p + 1) = unat p + 1" "unat p < unat num_pages"
    by (auto simp: word_less_nat_alt num_pages_def PAGE_BITS_def ASPACE_SIZE_def unat_word_ariths)
  then show "((m, plen, if used_pages m p then plen else count - 1, p + 1), (m, plen, count, p))
      \<in> measure (\<lambda>(m, plen, count, p). unat num_pages - unat p)" by simp
qed simp

declare lookup_from.simps [simp del]

definition LookupFreeRange :: "mmu \<Rightarrow> u32 \<Rightarrow> u32 \<Rightarrow> u32" where
  "LookupFreeRange m pvaddr plen = lookup_from m plen plen pvaddr"

text \<open>
  A range of pages that \<open>LookupFreeRange\<close> accepts: it is inside the address space and no page but
  possibly its last is marked.
\<close>

definition range_free :: "mmu \<Rightarrow> nat \<Rightarrow> nat \<Rightarrow> bool" where
  "range_free m n r \<longleftrightarrow> r + n \<le> 2 ^ 20 \<and> (\<forall>x. r \<le> x \<and> x + 1 < r + n \<longrightarrow> \<not> used_pages m (of_nat x))"

definition first_range :: "mmu \<Rightarrow> nat \<Rightarrow> nat \<Rightarrow> nat \<Rightarrow> bool" where
  "first_range m n s k \<longleftrightarrow>
     (if \<exists>r \<ge> s. range_free m n r
      then range_free m n k \<and> s \<le> k \<and> (\<forall>r. s \<le> r \<and> r < k \<longrightarrow> \<not> range_free m n r)
      else k = 0)"

lemma unat_ucast_u32 [simp]: "unat (ucast (x :: u32) :: u64) = unat x"
proof -
  have "unat x < 2 ^ 32" using unsigned_less [of x, where 'a = nat] by simp
  then show ?thesis by (simp add: unsigned_ucast_eq take_bit_nat_eq_self)
qed

lemma ucast_0_u32: "(ucast (x :: u32) :: u64) = 0 \<longleftrightarrow> x = 0"
  by (metis unat_eq_0 unat_ucast_u32)

lemma unat_aspace: "unat ASPACE_SIZE = 2 ^ 32"
  by (simp add: ASPACE_SIZE_def)

lemma num_pages [simp]: "unat num_pages = 2 ^ 20"
  by (simp add: num_pages_def PAGE_BITS_def ASPACE_SIZE_def)

lemma min_page [simp]: "min_page = 16"
  by (simp add: min_page_def PAGE_BITS_def MIN_MMAP_ADDR_def PAGE_SIZE_def)

lemma word_of_nat_unat: "of_nat (unat w) = (w :: 'a::len word)"
  by simp

lemma first_range_extend:
  assumes "first_range m n s' k" "s \<le> s'" "\<And>r. s \<le> r \<Longrightarrow> r < s' \<Longrightarrow> \<not> range_free m n r"
  shows "first_range m n s k"
proof (cases "\<exists>r \<ge> s'. range_free m n r")
  case True
  then have "\<exists>r \<ge> s. range_free m n r" using assms(2) le_trans by blast
  moreover have "range_free m n k" "s' \<le> k" "\<forall>r. s' \<le> r \<and> r < k \<longrightarrow> \<not> range_free m n r"
    using assms(1) True unfolding first_range_def by simp_all
  ultimately show ?thesis
    unfolding first_range_def using assms(2,3) by (metis (no_types, lifting) le_trans not_le)
next
  case False
  then have "\<not> (\<exists>r \<ge> s. range_free m n r)" using assms(3) by (meson not_le)
  then show ?thesis using assms(1) False unfolding first_range_def by argo
qed

lemma lookup_from_spec:
  assumes "0 < unat count" "unat count \<le> unat plen" "s + (unat plen - unat count) = unat p"
    and "\<forall>x. s \<le> x \<and> x < unat p \<longrightarrow> \<not> used_pages m (of_nat x)"
  shows "first_range m (unat plen) s (unat (lookup_from m plen count p))"
  using assms
proof (induction m plen count p arbitrary: s rule: lookup_from.induct)
  case (1 m plen count p)
  let ?n = "unat plen"
  show ?case
  proof (cases "p < num_pages")
    case False
    then have "2 ^ 20 \<le> unat p" by (simp add: word_less_nat_alt)
    then have "\<not> range_free m ?n r" if "r \<ge> s" for r
      using that 1(2,3,4) by (auto simp: range_free_def)
    moreover have "lookup_from m plen count p = 0" by (subst lookup_from.simps) (simp only: False if_False)
    ultimately show ?thesis by (auto simp: first_range_def)
  next
    case p: True
    then have pn: "unat p < 2 ^ 20" by (simp add: word_less_nat_alt)
    then have p1: "unat (p + 1) = unat p + 1" by (simp add: unat_word_ariths)
    show ?thesis
    proof (cases "count - 1 = 0")
      case True
      then have c: "unat count = 1" by (simp add: right_minus_eq)
      have s: "unat p + 1 = s + ?n" using 1(2-4) c by simp
      have "of_nat (unat (p + 1)) = p + 1" by (rule word_of_nat_unat)
      then have "of_nat (s + ?n) = p + 1" unfolding p1 s .
      then have "p + 1 - plen = of_nat s" unfolding of_nat_add word_of_nat_unat by (simp add: algebra_simps)
      moreover have "unat (of_nat s :: u32) = s" using s pn by (simp add: unat_of_nat take_bit_nat_eq_self)
      ultimately have v: "unat (lookup_from m plen count p) = s"
        by (subst lookup_from.simps) (simp add: p True)
      have "range_free m ?n s" using s pn 1(5) by (auto simp: range_free_def)
      then show ?thesis unfolding v first_range_def by auto
    next
      case False
      let ?c = "if used_pages m p then plen else count - 1"
      have c0: "unat (count - 1) = unat count - 1"
        by (rule unat_minus_one) (use 1(2) in auto)
      have c1: "0 < unat (count - 1)" using False unat_gt_0 [of "count - 1"] by blast
      have rec: "lookup_from m plen count p = lookup_from m plen ?c (p + 1)"
        by (subst lookup_from.simps) (simp only: p False if_True if_False)
      show ?thesis
      proof (cases "used_pages m p")
        case True
        note IH = 1(1) [OF p False, of "unat p + 1"]
        have bad: "\<not> range_free m ?n r" if "s \<le> r" "r \<le> unat p" for r
        proof -
          have "unat p + 1 < r + ?n" using that 1(2-4) c0 c1 by linarith
          moreover have "used_pages m (of_nat (unat p))" using True by (simp only: word_of_nat_unat)
          ultimately show ?thesis using that(2) unfolding range_free_def by blast
        qed
        have le: "s \<le> unat p + 1" using 1(4) by linarith
        have c: "?c = plen" using True by simp
        have "first_range m ?n (unat p + 1) (unat (lookup_from m plen plen (p + 1)))"
          by (rule IH [unfolded c]) (use 1(2,3) p1 in linarith, simp, simp add: p1, use p1 in auto)
        then show ?thesis unfolding rec c by (rule first_range_extend [OF _ le]) (rule bad, auto)
      next
        case u: False
        have "\<forall>x. s \<le> x \<and> x < unat (p + 1) \<longrightarrow> \<not> used_pages m (of_nat x)"
          using 1(5) u unfolding p1 by (auto simp: less_Suc_eq)
        then show ?thesis
          unfolding rec using 1(1) [OF p False, of s] u c0 c1 1(2-4) p1 by simp
      qed
    qed
  qed
qed

lemma unat_minus_one_u32: "unat (- 1 :: u32) = 2 ^ 32 - 1"
  by (simp add: unsigned_minus_1_eq_mask mask_eq_exp_minus_1)

text \<open>A length of zero pages is never found: the counter wraps around.\<close>

lemma lookup_from_zero:
  assumes "count = 0 \<or> 2 ^ 31 < unat count + unat p" "unat p \<le> 2 ^ 20"
  shows "lookup_from m 0 count p = 0"
  using assms
proof (induction m "0 :: u32" count p rule: lookup_from.induct)
  case (1 m count p)
  show ?case
  proof (cases "p < num_pages")
    case False
    then show ?thesis by (subst lookup_from.simps) (simp only: if_False)
  next
    case p: True
    then have pn: "unat p < 2 ^ 20" by (simp add: word_less_nat_alt)
    then have p1: "unat (p + 1) = unat p + 1" by (simp add: unat_word_ariths)
    have c: "unat (count - 1) = (if count = 0 then 2 ^ 32 - 1 else unat count - 1)"
      by (simp add: unat_minus_one unat_minus_one_u32)
    have c0: "count - 1 \<noteq> 0"
    proof
      assume "count - 1 = 0"
      then have "unat (count - 1) = 0" by (simp only: unat_0)
      with c 1(2) pn show False by (auto split: if_splits)
    qed
    have "lookup_from m 0 (if used_pages m p then 0 else count - 1) (p + 1) = 0"
      by (rule 1(1) [OF p c0]) (use 1(2) c pn in \<open>auto simp: p1\<close>)
    then show ?thesis by (subst lookup_from.simps) (simp only: p c0 if_True if_False)
  qed
qed

lemma LookupFreeRange_first:
  assumes "0 < plen"
  shows "first_range m (unat plen) (unat pvaddr) (unat (LookupFreeRange m pvaddr plen))"
  unfolding LookupFreeRange_def
  by (rule lookup_from_spec) (use assms in \<open>auto simp: word_less_nat_alt\<close>)

lemma LookupFreeRange_bounds:
  assumes "LookupFreeRange m pvaddr plen \<noteq> 0"
  shows "0 < plen" "unat pvaddr \<le> unat (LookupFreeRange m pvaddr plen)"
    "unat (LookupFreeRange m pvaddr plen) + unat plen \<le> 2 ^ 20"
proof -
  show pl: "0 < plen"
  proof (rule ccontr)
    assume "\<not> 0 < plen"
    then have 0: "plen = 0" unfolding word_greater_zero_iff by blast
    have "LookupFreeRange m pvaddr 0 = 0"
    proof (cases "unat pvaddr \<le> 2 ^ 20")
      case True
      then show ?thesis unfolding LookupFreeRange_def by (intro lookup_from_zero) auto
    next
      case False
      then have "\<not> pvaddr < num_pages" by (simp add: word_less_nat_alt)
      then show ?thesis unfolding LookupFreeRange_def by (subst lookup_from.simps) (simp only: if_False)
    qed
    with assms 0 show False by simp
  qed
  have "unat (LookupFreeRange m pvaddr plen) \<noteq> 0" using assms by (simp add: unat_eq_0)
  with LookupFreeRange_first [OF pl, of m pvaddr]
  show "unat pvaddr \<le> unat (LookupFreeRange m pvaddr plen)"
    "unat (LookupFreeRange m pvaddr plen) + unat plen \<le> 2 ^ 20"
    unfolding first_range_def range_free_def by presburger+
qed

subsection \<open>Mapping\<close>

text \<open>
  The search of \<open>mmu::mmap\<close> for a place, both \<open>while\<close> loops in one: \<open>paddr\<close> is where to look next, and
  \<open>None\<close> the return of \<open>MAP_FAILED\<close>.
\<close>

function mmap_search ::
  "('h, 'x) host_scheme \<Rightarrow> mmu \<Rightarrow> u32 \<Rightarrow> u32 \<Rightarrow> u32 \<Rightarrow> bool \<Rightarrow> 'h world \<Rightarrow> (uptr option \<times> 'h world) res" where
  "mmap_search os m len plen paddr paddr_wrapped w =
     (let p = LookupFreeRange m paddr plen in
      if paddr_wrapped \<and> (p = 0 \<or> p > mmap_hint_page m) then Inr (None, w)
      else if p = 0 then mmap_search os m len plen min_page True w
      else
        let (hptr, w1) = os_mmap os (g2h m (push_bit PAGE_BITS p)) (ucast len) PROT_NONE
              (MAP_ANON OR MAP_PRIVATE OR MAP_NORESERVE) (- 1) 0 w in
        if hptr = MAP_FAILED then Inl (Panic ''mmu::mmap failed, probably host oom'')
        else if check_h2g m (hptr + ucast len - 1) then Inr (Some hptr, w1)
        else
          let (rc, w2) = os_munmap os hptr (ucast len) w1 in
          if rc \<noteq> 0 then Inl (Panic [])
          else mmap_search os m len plen (p + plen) paddr_wrapped w2)"
  by pat_completeness auto

termination
proof (relation "measure (\<lambda>(os, m, len, plen, paddr, wr, w). (if wr then 0 else 2 ^ 33) + (2 ^ 32 - unat paddr))")
  fix os :: "('h, 'x) host_scheme" and m len plen paddr wr and w w1 :: "'h world" and p x hptr y rc w2
  assume p: "p = LookupFreeRange m paddr plen" and "p \<noteq> 0"
  then have "0 < unat plen" "unat paddr \<le> unat p" "unat p + unat plen \<le> 2 ^ 20"
    using LookupFreeRange_bounds [of m paddr plen] by (simp_all add: unat_gt_0)
  then have "unat paddr < unat (p + plen)" "unat (p + plen) < 2 ^ 32"
    by (simp_all add: unat_word_ariths)
  then show "((os, m, len, plen, p + plen, wr, w2), (os, m, len, plen, paddr, wr, w))
      \<in> measure (\<lambda>(os, m, len, plen, paddr, wr, w). (if wr then 0 else 2 ^ 33) + (2 ^ 32 - unat paddr))"
    by auto
qed auto

declare mmap_search.simps [simp del]

definition mmu_mmap ::
  "('h, 'x) host_scheme \<Rightarrow> u32 \<Rightarrow> u32 \<Rightarrow> u32 \<Rightarrow> u32 \<Rightarrow> u32 \<Rightarrow> u64 \<Rightarrow> mmu \<Rightarrow> 'h world \<Rightarrow>
    (uptr \<times> mmu \<times> 'h world) res" where
  "mmu_mmap os vaddr len0 prot flags fd offs m w =
     (if \<not> (ucast vaddr + ucast len0 - 1 :: u64) < ASPACE_SIZE then Inl AssertFail
      else
        let len = ucast (roundup (ucast len0 :: u64) (ucast PAGE_SIZE)) :: u32; plen = drop_bit PAGE_BITS len in
        if flags AND MAP_FIXED \<noteq> 0 then
          let (hptr, w1) = os_mmap os (g2h m vaddr) (ucast len) prot flags fd offs w in
          if hptr = MAP_FAILED then Inr (MAP_FAILED, m, w1)
          else rbind (MarkUsedPages (drop_bit PAGE_BITS vaddr) plen m) (\<lambda>m1. Inr (hptr, m1, w1))
        else
          rbind (mmap_search os m len plen (mmap_hint_page m) False w) (\<lambda>(found, w1).
            case found of
              None \<Rightarrow> Inr (MAP_FAILED, m, w1)
            | Some hptr \<Rightarrow>
                let (r, w2) = os_mmap os hptr (ucast len) prot (flags OR MAP_FIXED) fd offs w1 in
                if r = MAP_FAILED \<or> r \<noteq> hptr then Inl (Panic [])
                else
                  let paddr = drop_bit PAGE_BITS (h2g m hptr) in
                  rbind (MarkUsedPages paddr plen m) (\<lambda>m1.
                    Inr (r, m1\<lparr>mmap_hint_page := paddr + plen\<rparr>, w2))))"

text \<open>Mappings of the program itself prefer addresses above the guest's.\<close>

definition host_mmap ::
  "('h, 'x) host_scheme \<Rightarrow> mmu \<Rightarrow> uptr \<Rightarrow> u64 \<Rightarrow> u32 \<Rightarrow> u32 \<Rightarrow> u32 \<Rightarrow> u64 \<Rightarrow> 'h world \<Rightarrow> uptr \<times> 'h world" where
  "host_mmap os m a len prot flags fd offs w =
     os_mmap os (if a = 0 then mmu_base m + ASPACE_SIZE else a) len prot flags fd offs w"

text \<open>\<open>zero_base\<close> is \<open>CONFIG_ZERO_MMU_BASE\<close>.\<close>

definition mmu_Init :: "('h, 'x) host_scheme \<Rightarrow> bool \<Rightarrow> mmu \<Rightarrow> 'h world \<Rightarrow> (mmu \<times> 'h world) res" where
  "mmu_Init os zero_base m w =
     rbind (MarkUsedPages 0 (ucast MIN_MMAP_ADDR) m) (\<lambda>m1.
       if zero_base then Inr (m1, w)
       else
         let (b, w1) = os_mmap os 0 ASPACE_SIZE PROT_NONE (MAP_PRIVATE OR MAP_ANON OR MAP_NORESERVE) (- 1) 0 w in
         if b = MAP_FAILED then Inl (Panic ''mmu::Init failed'')
         else
           let (rc, w2) = os_munmap os (b + MIN_MMAP_ADDR) (ASPACE_SIZE - MIN_MMAP_ADDR) w1 in
           if rc \<noteq> 0 then Inl (Panic ''mmu::Init failed'')
           else Inr (m1\<lparr>mmu_base := b\<rparr>, w2))"

definition mmu_Destroy :: "('h, 'x) host_scheme \<Rightarrow> mmu \<Rightarrow> 'h world \<Rightarrow> 'h world res" where
  "mmu_Destroy os m w =
     (let (rc, w1) = os_munmap os (mmu_base m) ASPACE_SIZE w in
      if rc \<noteq> 0 then Inl (Panic ''mmu::Destroy failed'') else Inr w1)"

subsection \<open>What the bitmap holds\<close>

lemma rfold_Nil [simp]: "rfold f [] = Inr"
  by (rule ext) simp

lemma used_pages_cong: "(\<And>p. u p = v p) \<Longrightarrow> m\<lparr>used_pages := u\<rparr> = m\<lparr>used_pages := v\<rparr>"
  by presburger

lemma used_pages_id: "(\<And>p. u p = used_pages m p) \<Longrightarrow> m\<lparr>used_pages := u\<rparr> = m"
  using used_pages_cong [of u "used_pages m" m] by simp

lemma rfold_bitset_put:
  assumes "b \<le> 2 ^ 20"
  shows "rfold (bitset_put v) [a ..< b] m =
    Inr (m\<lparr>used_pages := (\<lambda>p. if a \<le> unat p \<and> unat p < b then v else used_pages m p)\<rparr>)"
  using assms
proof (induction b)
  case (Suc b)
  then have b: "unat (of_nat b :: u32) = b" by (simp add: unat_of_nat)
  show ?case
  proof (cases "a \<le> b")
    case True
    have eq: "p = of_nat b \<longleftrightarrow> unat p = b" for p :: u32 unfolding word_unat_eq_iff b ..
    have "rfold (bitset_put v) [a ..< Suc b] m = bitset_put v b
        (m\<lparr>used_pages := (\<lambda>p. if a \<le> unat p \<and> unat p < b then v else used_pages m p)\<rparr>)"
      using Suc True by (simp add: rfold_append)
    also have "\<dots> = Inr (m\<lparr>used_pages :=
        (\<lambda>p. if a \<le> unat p \<and> unat p < b then v else used_pages m p)(of_nat b := v)\<rparr>)"
      using Suc.prems by (simp add: bitset_put_def)
    also have "(\<lambda>p. if a \<le> unat p \<and> unat p < b then v else used_pages m p)(of_nat b := v) =
        (\<lambda>p. if a \<le> unat p \<and> unat p < Suc b then v else used_pages m p)"
      by (rule ext) (use True in \<open>simp add: eq less_Suc_eq\<close>)
    finally show ?thesis .
  next
    case False
    then have "(if a \<le> unat p \<and> unat p < Suc b then v else used_pages m p) = used_pages m p" for p by auto
    then show ?thesis using False by simp
  qed
next
  case 0
  then show ?case by (simp add: used_pages_id)
qed

text \<open>The pages that are marked: all of a range only if it starts at page 0.\<close>

lemma MarkUsedPages_eq:
  assumes "plen \<le> num_pages"
  shows "MarkUsedPages pvaddr plen m =
    Inr (m\<lparr>used_pages := (\<lambda>p. pvaddr \<le> p \<and> p < plen \<or> used_pages m p)\<rparr>)"
proof -
  have "unat plen \<le> 2 ^ 20" using assms by (simp add: word_le_nat_alt)
  then show ?thesis
    unfolding MarkUsedPages_def by (auto simp: rfold_bitset_put word_le_nat_alt word_less_nat_alt intro!: used_pages_cong)
qed

lemma MarkFreePages_eq:
  assumes "plen \<le> num_pages"
  shows "MarkFreePages pvaddr plen m =
    Inr (m\<lparr>used_pages := (\<lambda>p. \<not> (pvaddr \<le> p \<and> p < plen) \<and> used_pages m p)\<rparr>)"
proof -
  have "unat plen \<le> 2 ^ 20" using assms by (simp add: word_le_nat_alt)
  then show ?thesis
    unfolding MarkFreePages_def by (auto simp: rfold_bitset_put word_le_nat_alt word_less_nat_alt intro!: used_pages_cong)
qed

lemma MarkUsedPages_id:
  assumes "plen \<le> num_pages" "plen \<le> pvaddr"
  shows "MarkUsedPages pvaddr plen m = Inr m"
proof -
  have "\<not> (pvaddr \<le> p \<and> p < plen)" for p using assms(2) by auto
  then show ?thesis using assms(1) by (auto simp: MarkUsedPages_eq intro!: used_pages_id)
qed

subsection \<open>What the host promises\<close>

text \<open>
  \<open>mapped h q\<close> says that the host has a mapping at \<open>q\<close>. From the manual page of \<open>mmap\<close>: the result is
  page aligned and does not wrap around; with \<open>MAP_FIXED\<close> it is the address asked for; without, the
  place was not mapped before; a failed call without \<open>MAP_FIXED\<close> changes nothing; a length of zero is an
  error; anonymous mappings are zero; other memory stays as it is. \<open>munmap\<close> removes the range.
\<close>

definition mmap_post ::
  "('h \<Rightarrow> uptr \<Rightarrow> bool) \<Rightarrow> uptr \<Rightarrow> u64 \<Rightarrow> u32 \<Rightarrow> 'h world \<Rightarrow> uptr \<Rightarrow> 'h world \<Rightarrow> bool" where
  "mmap_post mapped a len flags w r w' \<longleftrightarrow>
     (if r = MAP_FAILED then
        flags AND MAP_FIXED = 0 \<longrightarrow> mapped (fst w') = mapped (fst w) \<and> snd w' = snd w
      else
        r AND 4095 = 0 \<and> r \<le> r + (len - 1) \<and>
        (flags AND MAP_FIXED \<noteq> 0 \<longrightarrow> r = a) \<and>
        (flags AND MAP_FIXED = 0 \<longrightarrow> (\<forall>q. q - r < len \<longrightarrow> \<not> mapped (fst w) q)) \<and>
        (\<forall>q. mapped (fst w') q \<longleftrightarrow> mapped (fst w) q \<or> q - r < len) \<and>
        (\<forall>q. \<not> q - r < len \<longrightarrow> snd w' q = snd w q) \<and>
        (flags AND MAP_ANON \<noteq> 0 \<longrightarrow> (\<forall>q. q - r < len \<longrightarrow> snd w' q = 0)))"

definition host_mm_ok :: "('h, 'x) host_scheme \<Rightarrow> ('h \<Rightarrow> uptr \<Rightarrow> bool) \<Rightarrow> bool" where
  "host_mm_ok os mapped \<longleftrightarrow>
     (\<forall>a len prot flags fd offs w. 0 < len \<and> len AND 4095 = 0 \<longrightarrow>
        mmap_post mapped a len flags w (fst (os_mmap os a len prot flags fd offs w)) (snd (os_mmap os a len prot flags fd offs w))) \<and>
     (\<forall>a prot flags fd offs w w' r. os_mmap os a 0 prot flags fd offs w = (r, w') \<longrightarrow>
        r = MAP_FAILED \<and> mapped (fst w') = mapped (fst w) \<and> snd w' = snd w) \<and>
     (\<forall>a len w w'. 0 < len \<and> len AND 4095 = 0 \<and> os_munmap os a len w = (0, w') \<longrightarrow>
        (\<forall>q. mapped (fst w') q \<longleftrightarrow> mapped (fst w) q \<and> \<not> q - a < len) \<and>
        (\<forall>q. \<not> q - a < len \<longrightarrow> snd w' q = snd w q))"

lemma os_mmap_post:
  assumes "host_mm_ok os mapped" "0 < len" "len AND 4095 = 0" "os_mmap os a len prot flags fd offs w = (r, w')"
  shows "mmap_post mapped a len flags w r w'"
  using assms unfolding host_mm_ok_def by (metis fst_conv snd_conv)

lemma os_munmap_post:
  assumes "host_mm_ok os mapped" "0 < len" "len AND 4095 = 0" "os_munmap os a len w = (0, w')"
  shows "mapped (fst w') q \<longleftrightarrow> mapped (fst w) q \<and> \<not> q - a < len" "\<not> q - a < len \<Longrightarrow> snd w' q = snd w q"
  using assms unfolding host_mm_ok_def by blast+

lemma os_mmap_zero:
  assumes "host_mm_ok os mapped" "os_mmap os a 0 prot flags fd offs w = (r, w')"
  shows "r = MAP_FAILED" "mapped (fst w') = mapped (fst w)" "snd w' = snd w"
  using assms unfolding host_mm_ok_def by metis+

text \<open>What was mapped keeps its contents; the range \<open>r, len\<close> is mapped in addition.\<close>

definition maps_fresh :: "('h \<Rightarrow> uptr \<Rightarrow> bool) \<Rightarrow> uptr \<Rightarrow> u64 \<Rightarrow> 'h world \<Rightarrow> 'h world \<Rightarrow> bool" where
  "maps_fresh mapped r len w w' \<longleftrightarrow>
     (\<forall>q. q - r < len \<longrightarrow> \<not> mapped (fst w) q) \<and>
     (\<forall>q. mapped (fst w') q \<longleftrightarrow> mapped (fst w) q \<or> q - r < len) \<and>
     (\<forall>q. mapped (fst w) q \<longrightarrow> snd w' q = snd w q)"

subsection \<open>The search\<close>

lemma anywhere_flags: "(MAP_ANON OR MAP_PRIVATE OR MAP_NORESERVE) AND MAP_FIXED = 0"
  by (simp add: map_flags_def)

lemma mmap_search_correct:
  assumes "host_mm_ok os mapped" "0 < len" "(ucast len :: u64) AND 4095 = 0"
    and "mmap_search os m len plen paddr wr w = Inr (found, w')"
  shows "case found of
      None \<Rightarrow> maps_fresh mapped 0 0 w w'
    | Some r \<Rightarrow> maps_fresh mapped r (ucast len) w w' \<and> r AND 4095 = 0 \<and> r \<le> r + (ucast len - 1) \<and>
        r \<noteq> MAP_FAILED \<and> check_h2g m (r + ucast len - 1)"
  using assms
proof (induction os m len plen paddr wr w arbitrary: found w' rule: mmap_search.induct)
  case (1 os m len plen paddr wr w)
  define p where "p = LookupFreeRange m paddr plen"
  have len: "0 < (ucast len :: u64)" using 1(4) by (metis word_greater_zero_iff ucast_0_u32)
  consider "wr \<and> (p = 0 \<or> p > mmap_hint_page m)" | "\<not> (wr \<and> (p = 0 \<or> p > mmap_hint_page m))" "p = 0"
    | "\<not> (wr \<and> (p = 0 \<or> p > mmap_hint_page m))" "p \<noteq> 0" by blast
  then show ?case
  proof cases
    case c: 1
    then have "found = None" "w' = w"
      using 1(6) by (subst (asm) mmap_search.simps, simp add: Let_def flip: p_def)+
    then show ?thesis by (simp add: maps_fresh_def)
  next
    case c: 2
    then have "mmap_search os m len plen min_page True w = Inr (found, w')"
      using 1(6) by (subst (asm) mmap_search.simps) (simp add: Let_def flip: p_def)
    then show ?thesis using 1(1) [OF p_def c] 1(3-5) by blast
  next
    case c: 3
    obtain r w1 where r: "os_mmap os (g2h m (push_bit PAGE_BITS p)) (ucast len) PROT_NONE
        (MAP_ANON OR MAP_PRIVATE OR MAP_NORESERVE) (- 1) 0 w = (r, w1)" by (meson surj_pair)
    note post = os_mmap_post [OF 1(3) len 1(5) r, unfolded mmap_post_def anywhere_flags]
    have step: "mmap_search os m len plen paddr wr w =
      (if r = MAP_FAILED then Inl (Panic ''mmu::mmap failed, probably host oom'')
       else if check_h2g m (r + ucast len - 1) then Inr (Some r, w1)
       else let (rc, w2) = os_munmap os r (ucast len) w1 in
         if rc \<noteq> 0 then Inl (Panic []) else mmap_search os m len plen (p + plen) wr w2)"
      using c r by (subst mmap_search.simps) (auto simp: Let_def simp flip: p_def)
    have nf: "r \<noteq> MAP_FAILED" using 1(6) unfolding step by auto
    then have fresh: "maps_fresh mapped r (ucast len) w w1" and al: "r AND 4095 = 0" "r \<le> r + (ucast len - 1)"
      using post by (auto simp: maps_fresh_def)
    show ?thesis
    proof (cases "check_h2g m (r + ucast len - 1)")
      case True
      then show ?thesis using 1(6) nf fresh al unfolding step by auto
    next
      case False
      obtain rc w2 where u: "os_munmap os r (ucast len) w1 = (rc, w2)" by (meson surj_pair)
      have rc: "rc = 0" and rec: "mmap_search os m len plen (p + plen) wr w2 = Inr (found, w')"
        using 1(6) nf False u unfolding step by (auto split: if_splits)
      note un = os_munmap_post [OF 1(3) len 1(5) u [unfolded rc]]
      have undo: "maps_fresh mapped 0 0 w w2"
        using fresh un unfolding maps_fresh_def by simp (metis (no_types, lifting))
      have "case found of
          None \<Rightarrow> maps_fresh mapped 0 0 w2 w'
        | Some r \<Rightarrow> maps_fresh mapped r (ucast len) w2 w' \<and> r AND 4095 = 0 \<and> r \<le> r + (ucast len - 1) \<and>
            r \<noteq> MAP_FAILED \<and> check_h2g m (r + ucast len - 1)"
        using 1(2) [OF p_def c _ _ nf False _ _ _ 1(3-5) rec] r u rc by auto
      then show ?thesis using undo unfolding maps_fresh_def by (auto split: option.splits)
    qed
  qed
qed

subsection \<open>Mapping is correct\<close>

text \<open>
  The guest's window does not wrap around and starts at a page; if it does not start at address 0,
  its first page is reserved.
\<close>

definition mmu_ok :: "('h \<Rightarrow> uptr \<Rightarrow> bool) \<Rightarrow> mmu \<Rightarrow> 'h \<Rightarrow> bool" where
  "mmu_ok mapped m h \<longleftrightarrow>
     mmu_base m AND 4095 = 0 \<and> unat (mmu_base m) + 2 ^ 32 \<le> 2 ^ 64 \<and> (mmu_base m \<noteq> 0 \<longrightarrow> mapped h (mmu_base m))"

text \<open>The length after rounding up to pages; it wraps to 0 in the last page.\<close>

definition page_len :: "u32 \<Rightarrow> u32" where
  "page_len len = ucast (roundup (ucast len :: u64) (ucast PAGE_SIZE))"

lemma unat_page_len: "unat (page_len len) = ((unat len + 4095) div 4096 * 4096) mod 2 ^ 32"
proof -
  have l: "unat len < 2 ^ 32" using unsigned_less [of len, where 'a = nat] by simp
  then have "unat (roundup (ucast len :: u64) (ucast PAGE_SIZE)) = (unat len + 4095) div 4096 * 4096"
    by (subst unat_roundup) (simp_all add: PAGE_SIZE_def)
  then show ?thesis by (simp add: page_len_def unsigned_ucast_eq take_bit_eq_mod)
qed

lemma page_len_pages:
  "unat (page_len len) = 4096 * unat (drop_bit 12 (page_len len))" "unat (drop_bit 12 (page_len len)) < 2 ^ 20"
proof -
  have "4096 dvd unat (page_len len)" unfolding unat_page_len by (simp add: dvd_mod_iff)
  then show "unat (page_len len) = 4096 * unat (drop_bit 12 (page_len len))"
    by (simp add: drop_bit_eq_div unat_div_distrib)
  moreover have "unat (page_len len) < 2 ^ 32" using unsigned_less [of "page_len len", where 'a = nat] by simp
  ultimately show "unat (drop_bit 12 (page_len len)) < 2 ^ 20" by simp
qed

lemma and_4095: "(w :: u64) AND 4095 = 0 \<longleftrightarrow> 4096 dvd unat w"
proof -
  have "w AND 4095 = take_bit 12 w" by (simp add: take_bit_eq_mask mask_eq_exp_minus_1)
  then show ?thesis
    by (simp add: word_unat_eq_iff take_bit_eq_mod unat_mod_distrib dvd_eq_mod_eq_0)
qed

lemma and_4095_u32: "(w :: u32) AND 4095 = 0 \<longleftrightarrow> 4096 dvd unat w"
proof -
  have "w AND 4095 = take_bit 12 w" by (simp add: take_bit_eq_mask mask_eq_exp_minus_1)
  then show ?thesis
    by (simp add: word_unat_eq_iff take_bit_eq_mod unat_mod_distrib dvd_eq_mod_eq_0)
qed

lemma page_len_aligned: "(ucast (page_len len) :: u64) AND 4095 = 0"
  unfolding and_4095 unat_ucast_u32 page_len_pages(1) [of len] by simp

text \<open>A fresh mapping whose last byte is in the window is in the window.\<close>

lemma fresh_in_window:
  assumes "mmu_ok mapped m h" "r AND 4095 = 0" "r \<le> r + (ucast len - 1)" "check_h2g m (r + ucast len - 1)"
    and "0 < (len :: u32)" "\<forall>q. q - r < ucast len \<longrightarrow> \<not> mapped h q"
  shows "r = g2h m (h2g m r)" "h2g m r AND 4095 = 0" "unat (h2g m r) + unat len \<le> 2 ^ 32"
proof -
  let ?b = "unat (mmu_base m)" and ?r = "unat r" and ?l = "unat len"
  have l0: "0 < ?l" "?l < 2 ^ 32" using assms(5) unsigned_less [of len, where 'a = nat]
    by (simp_all add: word_less_nat_alt)
  have "unat (ucast len - 1 :: u64) = ?l - 1"
    using l0 by (subst unat_minus_one) (auto simp: ucast_0_u32)
  then have nw: "?r + (?l - 1) < 2 ^ 64" "unat (r + (ucast len - 1)) = ?r + (?l - 1)"
    using assms(3) unfolding no_olen_add_nat by (simp_all add: unat_add_lem [THEN iffD1])
  have bnd: "?b + 2 ^ 32 \<le> 2 ^ 64" "4096 dvd ?b" "mmu_base m \<noteq> 0 \<longrightarrow> mapped h (mmu_base m)"
    using assms(1) by (simp_all add: mmu_ok_def and_4095)
  have last: "unat (r + (ucast len - 1) - mmu_base m) < 2 ^ 32"
    using assms(4) unfolding check_h2g_def word_less_nat_alt unat_aspace add_diff_eq .
  have le: "?b \<le> ?r"
  proof (rule ccontr)
    assume "\<not> ?b \<le> ?r"
    then have lt: "?r < ?b" by simp
    then have "mapped h (mmu_base m)" using bnd(3) by auto
    then have "\<not> mmu_base m - r < ucast len" using assms(6) by blast
    moreover have "unat (mmu_base m - r) = ?b - ?r" using lt by (simp add: unat_sub word_le_nat_alt)
    ultimately have out: "?r + ?l \<le> ?b" using lt by (simp add: word_less_nat_alt)
    then have "unat (r + (ucast len - 1) - mmu_base m) = 2 ^ 64 - (?b - (?r + (?l - 1)))"
      using nw l0 lt unat_sub_if' [of "r + (ucast len - 1)" "mmu_base m"] by simp
    with last bnd(1) nw l0 out show False by simp
  qed
  then have d: "unat (r - mmu_base m) = ?r - ?b" by (simp add: unat_sub word_le_nat_alt)
  have "unat (r + (ucast len - 1) - mmu_base m) = ?r + (?l - 1) - ?b"
    using le nw by (simp add: unat_sub word_le_nat_alt)
  with last l0 le have fit: "?r - ?b + ?l \<le> 2 ^ 32" by simp
  then have h: "unat (h2g m r) = ?r - ?b"
    using l0 by (simp add: h2g_def unsigned_ucast_eq take_bit_nat_eq_self d)
  then show "unat (h2g m r) + unat len \<le> 2 ^ 32" using fit by simp
  have "unat (ucast (h2g m r) :: u64) = unat (r - mmu_base m)" by (simp only: unat_ucast_u32 h d)
  then have "ucast (h2g m r) = r - mmu_base m" unfolding word_unat_eq_iff .
  then show "r = g2h m (h2g m r)" by (simp add: g2h_def)
  show "h2g m r AND 4095 = 0" unfolding and_4095_u32 h
    using assms(2) bnd(2) by (simp add: and_4095 dvd_diff_nat)
qed

text \<open>The bitmap is always in range.\<close>

lemma mmap_fixed_empty:
  assumes ok: "host_mm_ok os mapped" and flags: "flags AND MAP_FIXED \<noteq> 0" and len: "page_len len = 0"
    and run: "mmu_mmap os vaddr len prot flags fd offs m w = Inr (r, m', w')"
  shows "r = MAP_FAILED \<and> m' = m \<and> mapped (fst w') = mapped (fst w) \<and> snd w' = snd w"
proof -
  obtain r1 w1 where o: "os_mmap os (g2h m vaddr) 0 prot flags fd offs w = (r1, w1)" by (meson surj_pair)
  then show ?thesis
    using os_mmap_zero [OF ok o] run flags len
    by (auto simp: mmu_mmap_def Let_def page_len_def split: if_splits)
qed

lemma MarkUsedPages_page_len:
  "\<exists>m1. MarkUsedPages p (drop_bit 12 (page_len len)) m = Inr m1 \<and> mmu_base m1 = mmu_base m"
proof -
  have "drop_bit 12 (page_len len) \<le> num_pages"
    using page_len_pages(2) [of len] by (simp add: word_le_nat_alt)
  then show ?thesis by (simp add: MarkUsedPages_eq)
qed

lemma search_finds_pages:
  assumes "mmap_search os m len plen paddr wr w = Inr (Some r, w')"
  shows "0 < plen"
  using assms
proof (induction os m len plen paddr wr w rule: mmap_search.induct)
  case (1 os m len plen paddr wr w)
  show ?case
  proof (cases "LookupFreeRange m paddr plen = 0")
    case True
    then have "mmap_search os m len plen min_page True w = Inr (Some r, w')"
      using 1(3) by (subst (asm) mmap_search.simps) (auto simp: Let_def split: if_splits)
    moreover have "\<not> (wr \<and> (LookupFreeRange m paddr plen = 0 \<or> LookupFreeRange m paddr plen > mmap_hint_page m))"
      using 1(3) by (subst (asm) mmap_search.simps) (auto simp: Let_def)
    ultimately show ?thesis using 1(1) [OF refl _ True] by blast
  next
    case False
    then show ?thesis by (rule LookupFreeRange_bounds)
  qed
qed

lemma mmap_anywhere:
  assumes ok: "host_mm_ok os mapped" "mmu_ok mapped m (fst w)" and flags: "flags AND MAP_FIXED = 0"
    and run: "mmu_mmap os vaddr len prot flags fd offs m w = Inr (r, m', w')"
  shows "if r = MAP_FAILED then m' = m \<and> maps_fresh mapped 0 0 w w'
    else maps_fresh mapped r (ucast (page_len len)) w w' \<and> mmu_ok mapped m' (fst w') \<and>
      r = g2h m' (h2g m' r) \<and> h2g m' r AND 4095 = 0 \<and> unat (h2g m' r) + unat (page_len len) \<le> 2 ^ 32 \<and>
      (flags AND MAP_ANON \<noteq> 0 \<longrightarrow> (\<forall>q. q - r < ucast (page_len len) \<longrightarrow> snd w' q = 0))"
proof -
  let ?len = "page_len len" and ?plen = "drop_bit 12 (page_len len)"
  obtain found w1 where s: "mmap_search os m ?len ?plen (mmap_hint_page m) False w = Inr (found, w1)"
    using run flags by (auto simp: mmu_mmap_def Let_def PAGE_BITS_def page_len_def split: if_splits)
  show ?thesis
  proof (cases found)
    case None
    have "r = MAP_FAILED \<and> m' = m \<and> w' = w1"
      using run flags s None by (auto simp: mmu_mmap_def Let_def PAGE_BITS_def page_len_def split: if_splits)
    moreover have "maps_fresh mapped 0 0 w w1"
    proof (cases "?len = 0")
      case True
      then have "LookupFreeRange m p ?plen = 0" for p
        using LookupFreeRange_bounds(1) [of m p ?plen] by auto
      then have "w1 = w" using s None
        by (subst (asm) mmap_search.simps, subst (asm) mmap_search.simps) (simp add: Let_def)
      then show ?thesis by (simp add: maps_fresh_def)
    next
      case False
      then have "0 < ?len" by (simp add: word_greater_zero_iff)
      from mmap_search_correct [OF ok(1) this page_len_aligned s] None show ?thesis by simp
    qed
    ultimately show ?thesis by simp
  next
    case (Some h)
    have "0 < ?plen" using search_finds_pages s Some by blast
    then have len0: "0 < ?len" using page_len_pages(1) [of len] by (simp add: word_less_nat_alt)
    then have l64: "0 < (ucast ?len :: u64)" by (metis word_greater_zero_iff ucast_0_u32)
    from mmap_search_correct [OF ok(1) len0 page_len_aligned s] Some
    have f: "maps_fresh mapped h (ucast ?len) w w1" "h AND 4095 = 0" "h \<le> h + (ucast ?len - 1)"
      "check_h2g m (h + ucast ?len - 1)" "h \<noteq> MAP_FAILED" by simp_all
    obtain r' w2 where r: "os_mmap os h (ucast ?len) prot (flags OR MAP_FIXED) fd offs w1 = (r', w2)"
      by (meson surj_pair)
    obtain m1 where m1: "MarkUsedPages (drop_bit 12 (h2g m h)) ?plen m = Inr m1" "mmu_base m1 = mmu_base m"
      using MarkUsedPages_page_len by blast
    have res: "r = h \<and> r' = h \<and> w' = w2 \<and> mmu_base m' = mmu_base m"
      using run flags s Some r m1 by (auto simp: mmu_mmap_def Let_def PAGE_BITS_def page_len_def split: if_splits)
    have fx: "(flags OR MAP_FIXED) AND MAP_FIXED \<noteq> 0" "(flags OR MAP_FIXED) AND MAP_ANON = flags AND MAP_ANON"
      by (simp_all add: bit.conj_disj_distrib2 map_flags_def)
    from os_mmap_post [OF ok(1) l64 page_len_aligned r] res f(5) fx
    have post: "\<forall>q. mapped (fst w') q \<longleftrightarrow> mapped (fst w1) q \<or> q - h < ucast ?len"
      "\<forall>q. \<not> q - h < ucast ?len \<longrightarrow> snd w' q = snd w1 q"
      "flags AND MAP_ANON \<noteq> 0 \<longrightarrow> (\<forall>q. q - h < ucast ?len \<longrightarrow> snd w' q = 0)"
      by (auto simp: mmap_post_def)
    have "maps_fresh mapped h (ucast ?len) w w'"
      using f(1) post(1,2) unfolding maps_fresh_def by metis
    moreover from this have "mmu_ok mapped m' (fst w')"
      using ok(2) res unfolding mmu_ok_def maps_fresh_def by metis
    moreover have "h = g2h m (h2g m h)" "h2g m h AND 4095 = 0" "unat (h2g m h) + unat ?len \<le> 2 ^ 32"
      using fresh_in_window [OF ok(2) f(2-4) len0] f(1) unfolding maps_fresh_def by blast+
    moreover have "h2g m' = h2g m" "g2h m' = g2h m" using res by (simp_all add: h2g_def g2h_def fun_eq_iff)
    ultimately show ?thesis using res f(5) post(3) by auto
  qed
qed

lemma mmap_fixed:
  assumes ok: "host_mm_ok os mapped" and flags: "flags AND MAP_FIXED \<noteq> 0" and len: "page_len len \<noteq> 0"
    and run: "mmu_mmap os vaddr len prot flags fd offs m w = Inr (r, m', w')"
  shows "if r = MAP_FAILED then m' = m
    else r = g2h m vaddr \<and> mmu_base m' = mmu_base m \<and>
      (\<forall>q. mapped (fst w') q \<longleftrightarrow> mapped (fst w) q \<or> q - r < ucast (page_len len)) \<and>
      (\<forall>q. \<not> q - r < ucast (page_len len) \<longrightarrow> snd w' q = snd w q) \<and>
      (flags AND MAP_ANON \<noteq> 0 \<longrightarrow> (\<forall>q. q - r < ucast (page_len len) \<longrightarrow> snd w' q = 0)) \<and>
      (drop_bit 12 (page_len len) \<le> drop_bit 12 vaddr \<longrightarrow> m' = m)"
proof -
  let ?len = "page_len len" and ?plen = "drop_bit 12 (page_len len)" and ?p = "drop_bit 12 vaddr"
  have l64: "0 < (ucast ?len :: u64)" using len by (metis word_greater_zero_iff ucast_0_u32)
  obtain r1 w1 where o: "os_mmap os (g2h m vaddr) (ucast ?len) prot flags fd offs w = (r1, w1)"
    by (meson surj_pair)
  obtain m1 where m1: "MarkUsedPages ?p ?plen m = Inr m1" "mmu_base m1 = mmu_base m"
    using MarkUsedPages_page_len by blast
  have res: "r = r1 \<and> w' = w1 \<and> m' = (if r1 = MAP_FAILED then m else m1)"
    using run flags o m1 by (auto simp: mmu_mmap_def Let_def PAGE_BITS_def page_len_def split: if_splits)
  have "?plen \<le> num_pages" using page_len_pages(2) [of len] by (simp add: word_le_nat_alt)
  then have "m1 = m" if "?plen \<le> ?p" using MarkUsedPages_id [OF _ that, of m] m1(1) by simp
  then show ?thesis
    using os_mmap_post [OF ok l64 page_len_aligned o] res flags m1(2) by (auto simp: mmap_post_def)
qed

text \<open>\<open>Init\<close> marks the first 65536 pages, as many as \<open>MIN_MMAP_ADDR\<close> has bytes.\<close>

lemma mmu_Init_ok:
  assumes "host_mm_ok os mapped" and "mmu_Init os zero_base init_mmu w = Inr (m, w')"
  shows "mmu_ok mapped m (fst w')" "used_pages m p \<longleftrightarrow> p < 65536" "mmap_hint_page m = 16"
proof -
  have mn: "ucast MIN_MMAP_ADDR = (65536 :: u32)" by (simp add: MIN_MMAP_ADDR_def PAGE_SIZE_def)
  define m1 where "m1 = init_mmu\<lparr>used_pages := (\<lambda>p. p < 65536)\<rparr>"
  have m1: "MarkUsedPages 0 65536 init_mmu = Inr m1" "m1 = init_mmu\<lparr>used_pages := (\<lambda>p. p < 65536)\<rparr>"
    unfolding m1_def by (subst MarkUsedPages_eq) (simp_all add: word_le_nat_alt init_mmu_def)
  have "mmu_ok mapped m (fst w') \<and> used_pages m = used_pages m1 \<and> mmap_hint_page m = mmap_hint_page m1"
  proof (cases zero_base)
    case True
    then have "m = m1" using assms(2) by (simp add: mmu_Init_def mn m1(1))
    then show ?thesis using m1(2) by (simp add: mmu_ok_def init_mmu_def)
  next
    case False
    let ?f = "MAP_PRIVATE OR MAP_ANON OR MAP_NORESERVE"
    obtain b w1 where b: "os_mmap os 0 ASPACE_SIZE PROT_NONE ?f (- 1) 0 w = (b, w1)" by (meson surj_pair)
    obtain rc w2 where u: "os_munmap os (b + MIN_MMAP_ADDR) (ASPACE_SIZE - MIN_MMAP_ADDR) w1 = (rc, w2)"
      by (meson surj_pair)
    have res: "b \<noteq> MAP_FAILED" "rc = 0" "m = m1\<lparr>mmu_base := b\<rparr>" "w' = w2"
      using assms(2) False b u by (auto simp: mmu_Init_def mn m1(1) split: if_splits)
    have post: "b AND 4095 = 0" "b \<le> b + (ASPACE_SIZE - 1)" "\<forall>q. mapped (fst w1) q \<longleftrightarrow> mapped (fst w) q \<or> q - b < ASPACE_SIZE"
      using os_mmap_post [OF assms(1) _ _ b] res(1) by (auto simp: mmap_post_def map_flags_def ASPACE_SIZE_def)
    have "unat b + unat (ASPACE_SIZE - 1) < 2 ^ 64" using post(2) unfolding no_olen_add_nat by simp
    moreover have "unat (ASPACE_SIZE - 1) = 2 ^ 32 - 1" by (simp add: ASPACE_SIZE_def)
    ultimately have "unat b + 2 ^ 32 \<le> 2 ^ 64" by simp
    moreover have "mapped (fst w2) b"
    proof -
      have "\<not> b - (b + MIN_MMAP_ADDR) < ASPACE_SIZE - MIN_MMAP_ADDR"
        by (simp add: ASPACE_SIZE_def MIN_MMAP_ADDR_def PAGE_SIZE_def)
      moreover have "mapped (fst w1) b" using post(3) by (simp add: ASPACE_SIZE_def)
      moreover have "0 < ASPACE_SIZE - MIN_MMAP_ADDR" "(ASPACE_SIZE - MIN_MMAP_ADDR) AND 4095 = 0"
        by (simp_all add: ASPACE_SIZE_def MIN_MMAP_ADDR_def PAGE_SIZE_def)
      ultimately show ?thesis using os_munmap_post(1) [OF assms(1) _ _ u [unfolded res(2)]] by blast
    qed
    ultimately show ?thesis using res post(1) by (simp add: mmu_ok_def)
  qed
  then show "mmu_ok mapped m (fst w')" "used_pages m p \<longleftrightarrow> p < 65536" "mmap_hint_page m = 16"
    by (simp_all add: m1(2) init_mmu_def)
qed

subsection \<open>A host\<close>

text \<open>
  A host that logs what is mapped and unmapped, newest first, and maps only at the address asked
  for: over everything with \<open>MAP_FIXED\<close>, otherwise where nothing in the log overlaps.
\<close>

primrec log_mapped :: "(bool \<times> uptr \<times> u64) list \<Rightarrow> uptr \<Rightarrow> bool" where
  "log_mapped [] q = False"
| "log_mapped (e # es) q = (if q - fst (snd e) < snd (snd e) then fst e else log_mapped es q)"

definition log_host :: "(bool \<times> uptr \<times> u64) list host" where
  "log_host =
     \<lparr>os_mmap = (\<lambda>a len prot flags fd offs (h, m).
        if a AND 4095 \<noteq> 0 \<or> len = 0 \<or> \<not> a \<le> a + (len - 1) \<or>
           flags AND MAP_FIXED = 0 \<and> list_ex (\<lambda>(_, s, l). a - s < l \<or> s - a < len) h
        then (MAP_FAILED, h, m)
        else (a, (True, a, len) # h, if flags AND MAP_ANON \<noteq> 0 then (\<lambda>q. if q - a < len then 0 else m q) else m)),
      os_munmap = (\<lambda>a len (h, m). (0, (False, a, len) # h, m))\<rparr>"

lemma ranges_meet:
  assumes "q - a < len" "q - s < (l :: u64)"
  shows "a - s < l \<or> s - a < len"
proof (cases "q - a \<le> q - s")
  case True
  then have "(q - s) - (q - a) \<le> q - s" by (metis word_sub_le)
  then have "a - s \<le> q - s" by simp
  then show ?thesis using assms(2) by (meson le_less_trans)
next
  case False
  then have "q - s \<le> q - a" by simp
  then have "(q - a) - (q - s) \<le> q - a" by (metis word_sub_le)
  then have "s - a \<le> q - a" by simp
  then show ?thesis using assms(1) by (meson le_less_trans)
qed

lemma log_mapped_meet:
  assumes "\<not> list_ex (\<lambda>(_, s, l). a - s < l \<or> s - a < len) h" "q - a < len"
  shows "\<not> log_mapped h q"
  using assms by (induction h) (auto dest: ranges_meet)

lemma log_host_ok: "host_mm_ok log_host log_mapped"
proof -
  have al: "a AND 4095 = 0 \<Longrightarrow> a \<noteq> MAP_FAILED" for a :: uptr by (auto simp: MAP_FAILED_def)
  then show ?thesis
    unfolding host_mm_ok_def mmap_post_def by (auto simp: log_host_def log_mapped_meet split: if_splits)
qed

subsection \<open>Properties\<close>

text \<open>
  C18. \<open>mmu::mmap\<close> without \<open>MAP_FIXED\<close> never replaces a mapping and stays in the guest's window, whatever
  the bitmap says: on success the pages it returns are aligned, inside the four gigabytes, were not
  mapped before and are mapped now, all that was mapped before keeps its contents, and anonymous
  pages are zero; on failure nothing changes. It always ends.
\<close>

theorem mmap_anywhere_correct:
  assumes "host_mm_ok os mapped" "mmu_ok mapped m (fst w)" "flags AND MAP_FIXED = 0"
    and "mmu_mmap os vaddr len prot flags fd offs m w = Inr (r, m', w')"
  shows "if r = MAP_FAILED then m' = m \<and> maps_fresh mapped 0 0 w w'
    else maps_fresh mapped r (ucast (page_len len)) w w' \<and> mmu_ok mapped m' (fst w') \<and>
      r = g2h m' (h2g m' r) \<and> h2g m' r AND 4095 = 0 \<and> unat (h2g m' r) + unat (page_len len) \<le> 2 ^ 32 \<and>
      (flags AND MAP_ANON \<noteq> 0 \<longrightarrow> (\<forall>q. q - r < ucast (page_len len) \<longrightarrow> snd w' q = 0))"
  using assms by (rule mmap_anywhere)

lemma init_mmu_sel [simp]: "mmu_base init_mmu = 0" "mmap_hint_page init_mmu = 16"
  by (simp_all add: init_mmu_def)

lemma log_host_mmap:
  "os_mmap log_host a len prot flags fd offs (h, m) =
     (if a AND 4095 \<noteq> 0 \<or> len = 0 \<or> \<not> a \<le> a + (len - 1) \<or>
         flags AND MAP_FIXED = 0 \<and> list_ex (\<lambda>(_, s, l). a - s < l \<or> s - a < len) h
      then (MAP_FAILED, h, m)
      else (a, (True, a, len) # h, if flags AND MAP_ANON \<noteq> 0 then (\<lambda>q. if q - a < len then 0 else m q) else m))"
  by (simp add: log_host_def)

lemma log_host_maps:
  "mmu_mmap log_host 0 100 3 (MAP_ANON OR MAP_PRIVATE) (- 1) 0 init_mmu ([], \<lambda>_. 7) =
     Inr (0x10000, init_mmu\<lparr>mmap_hint_page := 17\<rparr>,
       [(True, 0x10000, 0x1000), (True, 0x10000, 0x1000)], \<lambda>q. if q - 0x10000 < 0x1000 then 0 else 7)"
proof -
  have look: "LookupFreeRange init_mmu 16 1 = 16"
    unfolding LookupFreeRange_def by (subst lookup_from.simps) (simp add: num_pages_def PAGE_BITS_def ASPACE_SIZE_def)
  have search: "mmap_search log_host init_mmu 0x1000 1 16 False ([], \<lambda>_. 7) =
      Inr (Some 0x10000, [(True, 0x10000, 0x1000)], \<lambda>q. if q - 0x10000 < 0x1000 then 0 else 7)"
    by (subst mmap_search.simps)
      (simp add: Let_def look log_host_mmap map_flags_def g2h_def PAGE_BITS_def check_h2g_def
        ASPACE_SIZE_def MAP_FAILED_def)
  have "MarkUsedPages 16 1 init_mmu = Inr init_mmu"
    by (rule MarkUsedPages_id) (simp_all add: word_le_nat_alt)
  then show ?thesis
    using search
    by (simp add: mmu_mmap_def Let_def ASPACE_SIZE_def PAGE_BITS_def PAGE_SIZE_def roundup_def map_flags_def
        log_host_mmap MAP_FAILED_def h2g_def if_distrib cong: if_cong)
qed

theorem mmap_anywhere_correct_witness:
  "maps_fresh log_mapped 0x10000 0x1000 ([], \<lambda>_. 7)
     ([(True, 0x10000, 0x1000), (True, 0x10000, 0x1000)], \<lambda>q. if q - 0x10000 < 0x1000 then 0 else 7)"
  using mmap_anywhere_correct [OF log_host_ok _ _ log_host_maps]
  by (simp add: mmu_ok_def map_flags_def MAP_FAILED_def page_len_def PAGE_SIZE_def roundup_def)

text \<open>
  C19. \<open>mmu::mmap\<close> with \<open>MAP_FIXED\<close> maps exactly the pages asked for, or fails and leaves the bitmap alone;
  other memory is unchanged and anonymous pages are zero. A mapping whose first page number is
  not below its number of pages is never entered in the bitmap of used pages.
\<close>

theorem mmap_fixed_correct:
  assumes "host_mm_ok os mapped" "flags AND MAP_FIXED \<noteq> 0" "page_len len \<noteq> 0"
    and "mmu_mmap os vaddr len prot flags fd offs m w = Inr (r, m', w')"
  shows "if r = MAP_FAILED then m' = m
    else r = g2h m vaddr \<and> mmu_base m' = mmu_base m \<and>
      (\<forall>q. mapped (fst w') q \<longleftrightarrow> mapped (fst w) q \<or> q - r < ucast (page_len len)) \<and>
      (\<forall>q. \<not> q - r < ucast (page_len len) \<longrightarrow> snd w' q = snd w q) \<and>
      (flags AND MAP_ANON \<noteq> 0 \<longrightarrow> (\<forall>q. q - r < ucast (page_len len) \<longrightarrow> snd w' q = 0)) \<and>
      (drop_bit 12 (page_len len) \<le> drop_bit 12 vaddr \<longrightarrow> m' = m)"
  using assms by (rule mmap_fixed)

theorem mmap_fixed_correct_witness:
  "\<exists>w'. mmu_mmap log_host 0x40000 100 3 (MAP_ANON OR MAP_FIXED) (- 1) 0 init_mmu ([], \<lambda>_. 7) =
     Inr (0x40000, init_mmu, w') \<and> snd w' 0x40000 = 0 \<and> log_mapped (fst w') 0x40FFF"
proof -
  let ?w = "([(True, 0x40000, 0x1000)], \<lambda>q :: uptr. if q - 0x40000 < 0x1000 then 0 else (7 :: u8))"
  have "MarkUsedPages 64 1 init_mmu = Inr init_mmu"
    by (rule MarkUsedPages_id) (simp_all add: word_le_nat_alt)
  then have run: "mmu_mmap log_host 0x40000 100 3 (MAP_ANON OR MAP_FIXED) (- 1) 0 init_mmu ([], \<lambda>_. 7) =
      Inr (0x40000, init_mmu, ?w)"
    by (simp add: mmu_mmap_def Let_def ASPACE_SIZE_def PAGE_BITS_def PAGE_SIZE_def roundup_def map_flags_def
        log_host_mmap MAP_FAILED_def g2h_def)
  have len: "page_len 100 = 0x1000" by (simp add: page_len_def PAGE_SIZE_def roundup_def)
  from mmap_fixed_correct [OF log_host_ok _ _ run]
  have "snd ?w 0x40000 = 0 \<and> log_mapped (fst ?w) 0x40FFF"
    unfolding len by (simp add: map_flags_def MAP_FAILED_def)
  then show ?thesis using run by blast
qed

text \<open>
  \<open>LookupFreeRange\<close> returns the first range of pages at or behind \<open>pvaddr\<close> that is inside the address
  space and of which no page except possibly the last is marked, and 0 if there is none.
\<close>

theorem LookupFreeRange_correct:
  assumes "0 < plen"
  shows "first_range m (unat plen) (unat pvaddr) (unat (LookupFreeRange m pvaddr plen))"
  using assms by (rule LookupFreeRange_first)

text \<open>A single page is found even if it is marked.\<close>

theorem LookupFreeRange_correct_witness:
  "LookupFreeRange (init_mmu\<lparr>used_pages := (\<lambda>_. True)\<rparr>) 20 1 = 20 \<and>
   first_range (init_mmu\<lparr>used_pages := (\<lambda>_. True)\<rparr>) 1 20 20"
proof -
  let ?m = "init_mmu\<lparr>used_pages := (\<lambda>_. True)\<rparr>"
  have "LookupFreeRange ?m 20 1 = 20"
    unfolding LookupFreeRange_def by (subst lookup_from.simps) (simp add: num_pages_def PAGE_BITS_def ASPACE_SIZE_def)
  then show ?thesis using LookupFreeRange_correct [of 1 ?m 20] by simp
qed

end
