(* ===== verification/Syscalls.thy ===== *)
theory Syscalls
  imports Mmu
begin

section \<open>The system calls of the guest: syscalls.h\<close>

text \<open>
  \<open>RV32_LINUX_SYSCALL_LIST\<close> gives every system call of RV32 Linux a name and a number. From it
  env.cpp makes the enumeration \<open>SyscallID\<close> and the table of names that it prints for calls that it
  does not handle.
\<close>

definition syscall_list_lo :: "(string \<times> nat) list" where
  "syscall_list_lo = [
    (''io_setup'', 0), (''io_destroy'', 1), (''io_submit'', 2), (''io_cancel'', 3), (''setxattr'', 5),
    (''lsetxattr'', 6), (''fsetxattr'', 7), (''getxattr'', 8), (''lgetxattr'', 9), (''fgetxattr'', 10),
    (''listxattr'', 11), (''llistxattr'', 12), (''flistxattr'', 13), (''removexattr'', 14),
    (''lremovexattr'', 15), (''fremovexattr'', 16), (''getcwd'', 17), (''lookup_dcookie'', 18),
    (''eventfd2'', 19), (''epoll_create1'', 20), (''epoll_ctl'', 21), (''epoll_pwait'', 22), (''dup'', 23),
    (''dup3'', 24), (''fcntl64'', 25), (''inotify_init1'', 26), (''inotify_add_watch'', 27),
    (''inotify_rm_watch'', 28), (''ioctl'', 29), (''ioprio_set'', 30), (''ioprio_get'', 31),
    (''flock'', 32), (''mknodat'', 33), (''mkdirat'', 34), (''unlinkat'', 35), (''symlinkat'', 36),
    (''linkat'', 37), (''umount2'', 39), (''mount'', 40), (''pivot_root'', 41), (''nfsservctl'', 42),
    (''statfs64'', 43), (''fstatfs64'', 44), (''truncate64'', 45), (''ftruncate64'', 46),
    (''fallocate'', 47), (''faccessat'', 48), (''chdir'', 49), (''fchdir'', 50), (''chroot'', 51),
    (''fchmod'', 52), (''fchmodat'', 53), (''fchownat'', 54), (''fchown'', 55), (''openat'', 56),
    (''close'', 57), (''vhangup'', 58), (''pipe2'', 59), (''quotactl'', 60), (''getdents64'', 61),
    (''llseek'', 62), (''read'', 63), (''write'', 64), (''readv'', 65), (''writev'', 66), (''pread64'', 67),
    (''pwrite64'', 68), (''preadv'', 69), (''pwritev'', 70), (''sendfile64'', 71), (''signalfd4'', 74),
    (''vmsplice'', 75), (''splice'', 76), (''tee'', 77), (''readlinkat'', 78), (''fstatat64'', 79),
    (''fstat64'', 80), (''sync'', 81), (''fsync'', 82), (''fdatasync'', 83), (''sync_file_range'', 84),
    (''timerfd_create'', 85), (''acct'', 89), (''capget'', 90), (''capset'', 91), (''personality'', 92),
    (''exit'', 93), (''exit_group'', 94), (''waitid'', 95), (''set_tid_address'', 96), (''unshare'', 97),
    (''set_robust_list'', 99), (''get_robust_list'', 100), (''getitimer'', 102), (''setitimer'', 103),
    (''kexec_load'', 104), (''init_module'', 105), (''delete_module'', 106), (''timer_create'', 107),
    (''timer_getoverrun'', 109), (''timer_delete'', 111), (''syslog'', 116), (''ptrace'', 117),
    (''sched_setparam'', 118), (''sched_setscheduler'', 119), (''sched_getscheduler'', 120),
    (''sched_getparam'', 121), (''sched_setaffinity'', 122), (''sched_getaffinity'', 123),
    (''sched_yield'', 124), (''sched_get_priority_max'', 125), (''sched_get_priority_min'', 126),
    (''restart_syscall'', 128), (''kill'', 129), (''tkill'', 130), (''tgkill'', 131),
    (''sigaltstack'', 132), (''rt_sigsuspend'', 133), (''rt_sigaction'', 134), (''rt_sigprocmask'', 135),
    (''rt_sigpending'', 136), (''rt_sigqueueinfo'', 138), (''rt_sigreturn'', 139), (''setpriority'', 140),
    (''getpriority'', 141), (''reboot'', 142), (''setregid'', 143), (''setgid'', 144), (''setreuid'', 145),
    (''setuid'', 146), (''setresuid'', 147), (''getresuid'', 148), (''setresgid'', 149),
    (''getresgid'', 150), (''setfsuid'', 151), (''setfsgid'', 152), (''times'', 153), (''setpgid'', 154),
    (''getpgid'', 155), (''getsid'', 156), (''setsid'', 157), (''getgroups'', 158), (''setgroups'', 159),
    (''uname'', 160), (''sethostname'', 161), (''setdomainname'', 162), (''getrlimit'', 163)]"

definition syscall_list_hi :: "(string \<times> nat) list" where
  "syscall_list_hi = [
    (''setrlimit'', 164), (''getrusage'', 165), (''umask'', 166), (''prctl'', 167), (''getcpu'', 168),
    (''getpid'', 172), (''getppid'', 173), (''getuid'', 174), (''geteuid'', 175), (''getgid'', 176),
    (''getegid'', 177), (''gettid'', 178), (''sysinfo'', 179), (''mq_open'', 180), (''mq_unlink'', 181),
    (''mq_notify'', 184), (''mq_getsetattr'', 185), (''msgget'', 186), (''msgctl'', 187), (''msgrcv'', 188),
    (''msgsnd'', 189), (''semget'', 190), (''semctl'', 191), (''semop'', 193), (''shmget'', 194),
    (''shmctl'', 195), (''shmat'', 196), (''shmdt'', 197), (''socket'', 198), (''socketpair'', 199),
    (''bind'', 200), (''listen'', 201), (''accept'', 202), (''connect'', 203), (''getsockname'', 204),
    (''getpeername'', 205), (''sendto'', 206), (''recvfrom'', 207), (''setsockopt'', 208),
    (''getsockopt'', 209), (''shutdown'', 210), (''sendmsg'', 211), (''recvmsg'', 212),
    (''readahead'', 213), (''brk'', 214), (''munmap'', 215), (''mremap'', 216), (''add_key'', 217),
    (''request_key'', 218), (''keyctl'', 219), (''clone'', 220), (''execve'', 221), (''mmap2'', 222),
    (''fadvise64_64'', 223), (''swapon'', 224), (''swapoff'', 225), (''mprotect'', 226), (''msync'', 227),
    (''mlock'', 228), (''munlock'', 229), (''mlockall'', 230), (''munlockall'', 231), (''mincore'', 232),
    (''madvise'', 233), (''remap_file_pages'', 234), (''mbind'', 235), (''get_mempolicy'', 236),
    (''set_mempolicy'', 237), (''migrate_pages'', 238), (''move_pages'', 239), (''rt_tgsigqueueinfo'', 240),
    (''perf_event_open'', 241), (''accept4'', 242), (''prlimit64'', 261), (''fanotify_init'', 262),
    (''fanotify_mark'', 263), (''name_to_handle_at'', 264), (''open_by_handle_at'', 265), (''syncfs'', 267),
    (''setns'', 268), (''sendmmsg'', 269), (''process_vm_readv'', 270), (''process_vm_writev'', 271),
    (''kcmp'', 272), (''finit_module'', 273), (''sched_setattr'', 274), (''sched_getattr'', 275),
    (''renameat2'', 276), (''seccomp'', 277), (''getrandom'', 278), (''memfd_create'', 279), (''bpf'', 280),
    (''execveat'', 281), (''userfaultfd'', 282), (''membarrier'', 283), (''mlock2'', 284),
    (''copy_file_range'', 285), (''preadv2'', 286), (''pwritev2'', 287), (''pkey_mprotect'', 288),
    (''pkey_alloc'', 289), (''pkey_free'', 290), (''statx'', 291), (''rseq'', 293),
    (''kexec_file_load'', 294), (''clock_gettime64'', 403), (''clock_settime64'', 404),
    (''clock_adjtime64'', 405), (''clock_getres_time64'', 406), (''clock_nanosleep_time64'', 407),
    (''timer_gettime64'', 408), (''timer_settime64'', 409), (''timerfd_gettime64'', 410),
    (''timerfd_settime64'', 411), (''utimensat_time64'', 412), (''pselect6_time64'', 413),
    (''ppoll_time64'', 414), (''io_pgetevents_time64'', 416), (''recvmmsg_time64'', 417),
    (''mq_timedsend_time64'', 418), (''mq_timedreceive_time64'', 419), (''semtimedop_time64'', 420),
    (''rt_sigtimedwait_time64'', 421), (''futex_time64'', 422), (''sched_rr_get_interval_time64'', 423),
    (''pidfd_send_signal'', 424), (''io_uring_setup'', 425), (''io_uring_enter'', 426),
    (''io_uring_register'', 427), (''open_tree'', 428), (''move_mount'', 429), (''fsopen'', 430),
    (''fsconfig'', 431), (''fsmount'', 432), (''fspick'', 433), (''pidfd_open'', 434), (''clone3'', 435),
    (''close_range'', 436), (''openat2'', 437), (''pidfd_getfd'', 438), (''faccessat2'', 439),
    (''process_madvise'', 440), (''epoll_pwait2'', 441), (''mount_setattr'', 442),
    (''landlock_create_ruleset'', 444), (''landlock_add_rule'', 445), (''landlock_restrict_self'', 446)]"

definition RV32_LINUX_SYSCALL_LIST :: "(string \<times> nat) list" where
  "RV32_LINUX_SYSCALL_LIST = syscall_list_lo @ syscall_list_hi"

text \<open>\<open>SyscallID::linux_<name>\<close>, and \<open>End\<close>, which follows the last enumerator.\<close>

definition SyscallID :: "string \<Rightarrow> nat option" where
  "SyscallID name = map_of RV32_LINUX_SYSCALL_LIST name"

definition SyscallID_End :: nat where
  "SyscallID_End = snd (last RV32_LINUX_SYSCALL_LIST) + 1"

text \<open>
  The table of names has no entry for numbers that are not in the list; a null pointer is then
  added to a string.
\<close>

definition syscall_name :: "nat \<Rightarrow> string option" where
  "syscall_name no = map_of (map (\<lambda>(name, n). (n, name)) RV32_LINUX_SYSCALL_LIST) no"

definition SyscallUnhandled :: "u32 \<Rightarrow> fault" where
  "SyscallUnhandled no =
     (if 0 < no \<and> unat no < SyscallID_End then
        case syscall_name (unat no) of
          Some name \<Rightarrow> Panic (''Unhandled Linux syscall: '' @ name)
        | None \<Rightarrow> Undefined
      else Panic (''Unhandled Linux syscall: '' @ ''UNKNOWN''))"

subsection \<open>Names and numbers\<close>

fun ascending :: "nat list \<Rightarrow> bool" where
  "ascending (x # y # zs) = (x < y \<and> ascending (y # zs))"
| "ascending _ = True"

lemma ascending_hd: "ascending (x # xs) \<Longrightarrow> y \<in> set xs \<Longrightarrow> x < y"
  by (induction xs arbitrary: x) (auto, fastforce)

lemma ascending_distinct: "ascending xs \<Longrightarrow> distinct xs"
proof (induction xs)
  case (Cons x xs)
  then have "ascending xs" by (cases xs) auto
  with Cons show ?case using ascending_hd [OF Cons.prems] by auto
qed simp

lemma ascending_append:
  "ascending (xs @ ys) \<longleftrightarrow> ascending xs \<and> ascending ys \<and> (xs \<noteq> [] \<and> ys \<noteq> [] \<longrightarrow> last xs < hd ys)"
proof (induction xs)
  case (Cons x xs)
  then show ?case by (cases xs; cases ys) auto
qed (cases ys; simp)

lemma syscall_numbers_ascending: "ascending (map snd RV32_LINUX_SYSCALL_LIST)"
proof -
  have "ascending (map snd syscall_list_lo)" unfolding syscall_list_lo_def by simp
  moreover have "ascending (map snd syscall_list_hi)" unfolding syscall_list_hi_def by simp
  ultimately show ?thesis
    unfolding RV32_LINUX_SYSCALL_LIST_def map_append ascending_append
    by (simp add: last_map hd_map) (simp add: syscall_list_lo_def syscall_list_hi_def)
qed

lemma syscall_numbers_distinct: "distinct (map snd RV32_LINUX_SYSCALL_LIST)"
  by (rule ascending_distinct [OF syscall_numbers_ascending])

text \<open>The table of names inverts the enumeration.\<close>

lemma syscall_name_inverts: "(name, no) \<in> set RV32_LINUX_SYSCALL_LIST \<Longrightarrow> syscall_name no = Some name"
proof -
  assume "(name, no) \<in> set RV32_LINUX_SYSCALL_LIST"
  moreover have "distinct (map fst (map (\<lambda>(name, n). (n, name)) RV32_LINUX_SYSCALL_LIST))"
    using syscall_numbers_distinct by (simp add: comp_def case_prod_beta)
  ultimately show ?thesis unfolding syscall_name_def by (intro map_of_is_SomeI) force+
qed

lemma SyscallID_name: "SyscallID name = Some no \<Longrightarrow> syscall_name no = Some name"
  unfolding SyscallID_def by (rule syscall_name_inverts) (rule map_of_SomeD)

lemma SyscallID_End: "SyscallID_End = 447"
  by (simp add: SyscallID_End_def RV32_LINUX_SYSCALL_LIST_def syscall_list_hi_def)

end
