(* ===== verification/Env.thy ===== *)
theory Env
  imports Syscalls Execute "HOL-Library.Signed_Division"
begin

section \<open>The guest's environment: env.h, env.cpp\<close>

text \<open>
  What the guest's system calls do. The host's system calls are parameters: the record \<open>sys\<close> extends
  \<open>host\<close> by one function per call, over the state \<open>'h\<close> of the host and memory. Integers of type \<open>int\<close> are
  32-bit words and those of type \<open>long\<close>, \<open>ssize_t\<close> and \<open>off_t\<close> 64-bit words; \<open>uabi_long\<close> is \<open>u32\<close>. Handlers get host
  pointers, as the dispatcher converts them.
\<close>

subsection \<open>State\<close>

record 'h sys = "'h host" +
  os_errno :: "'h \<Rightarrow> u32"
  os_openat :: "u32 \<Rightarrow> uptr \<Rightarrow> u32 \<Rightarrow> u32 \<Rightarrow> 'h world \<Rightarrow> u32 \<times> 'h world"
  os_close :: "u32 \<Rightarrow> 'h world \<Rightarrow> u32 \<times> 'h world"
  os_lseek :: "u32 \<Rightarrow> u64 \<Rightarrow> u32 \<Rightarrow> 'h world \<Rightarrow> u64 \<times> 'h world"
  os_read :: "u32 \<Rightarrow> uptr \<Rightarrow> u64 \<Rightarrow> 'h world \<Rightarrow> u64 \<times> 'h world"
  os_write :: "u32 \<Rightarrow> uptr \<Rightarrow> u64 \<Rightarrow> 'h world \<Rightarrow> u64 \<times> 'h world"
  os_readlinkat :: "u32 \<Rightarrow> string \<Rightarrow> uptr \<Rightarrow> u64 \<Rightarrow> 'h world \<Rightarrow> u64 \<times> 'h world"
  os_fstatat :: "u32 \<Rightarrow> string \<Rightarrow> uptr \<Rightarrow> u32 \<Rightarrow> 'h world \<Rightarrow> u32 \<times> 'h world"
  os_set_tid_address :: "'h world \<Rightarrow> (u64 \<times> u32) \<times> 'h world"
  os_uname :: "uptr \<Rightarrow> 'h world \<Rightarrow> u32 \<times> 'h world"
  os_getuid :: "'h \<Rightarrow> u32"
  os_geteuid :: "'h \<Rightarrow> u32"
  os_getgid :: "'h \<Rightarrow> u32"
  os_getegid :: "'h \<Rightarrow> u32"
  os_sysinfo :: "'h world \<Rightarrow> (u32 \<times> u64 \<times> (nat \<Rightarrow> u64) \<times> u16) \<times> 'h world"
  os_mprotect :: "uptr \<Rightarrow> u64 \<Rightarrow> u32 \<Rightarrow> 'h world \<Rightarrow> u32 \<times> 'h world"
  os_prlimit64 :: "u32 \<Rightarrow> u32 \<Rightarrow> (u64 \<times> u64) option \<Rightarrow> 'h world \<Rightarrow> (u64 \<times> u64 \<times> u64) \<times> 'h world"
  os_getrandom :: "uptr \<Rightarrow> u64 \<Rightarrow> u32 \<Rightarrow> 'h world \<Rightarrow> u64 \<times> 'h world"
  os_statx :: "u32 \<Rightarrow> string \<Rightarrow> u32 \<Rightarrow> u32 \<Rightarrow> uptr \<Rightarrow> 'h world \<Rightarrow> u32 \<times> 'h world"
  os_clock :: "'h world \<Rightarrow> u64 \<times> 'h world"
  os_getcwd :: "'h \<Rightarrow> string option"
  os_readlink :: "string \<Rightarrow> 'h \<Rightarrow> string option"
  os_realpath :: "string \<Rightarrow> 'h \<Rightarrow> string option"

record proc =
  fsroot :: string
  exe_fd :: u32
  proc_brk :: u32

definition init_proc :: proc where
  "init_proc = \<lparr>fsroot = [], exe_fd = - 1, proc_brk = 0\<rparr>"

text \<open>\<open>ev_trap\<close> is the trap code of \<open>CPUState::Current()\<close>.\<close>

record 'h env =
  ev_h :: 'h
  ev_mem :: mem
  ev_mmu :: mmu
  ev_proc :: proc
  ev_trap :: trap_code

definition hcall :: "('h world \<Rightarrow> 'r \<times> 'h world) \<Rightarrow> 'h env \<Rightarrow> 'r \<times> 'h env" where
  "hcall f ev = (let (r, h, m) = f (ev_h ev, ev_mem ev) in (r, ev\<lparr>ev_h := h, ev_mem := m\<rparr>))"

subsection \<open>Memory\<close>

definition memset0 :: "uptr \<Rightarrow> u64 \<Rightarrow> mem \<Rightarrow> mem" where
  "memset0 p n m = (\<lambda>q. if q - p < n then 0 else m q)"

definition memcpy_bytes :: "uptr \<Rightarrow> u8 list \<Rightarrow> mem \<Rightarrow> mem" where
  "memcpy_bytes p bs m = (\<lambda>q. if unat (q - p) < length bs then bs ! unat (q - p) else m q)"

text \<open>A string with its terminator, and the string at an address up to \<open>n\<close> characters.\<close>

definition cstr_bytes :: "string \<Rightarrow> u8 list" where
  "cstr_bytes s = map of_char s @ [0]"

fun cstr_at :: "nat \<Rightarrow> mem \<Rightarrow> uptr \<Rightarrow> string" where
  "cstr_at 0 m p = []"
| "cstr_at (Suc n) m p = (if m p = 0 then [] else char_of (unat (m p)) # cstr_at n m (p + 1))"

text \<open>A fault on an access of the program itself ends in the signal handler. Only address 0 is taken to be unmapped here.\<close>

definition dbt_sigaction_memory :: "mmu \<Rightarrow> uptr \<Rightarrow> fault" where
  "dbt_sigaction_memory m si_addr =
     (if \<not> check_h2g m si_addr then Panic ''Memory fault in host address space''
      else Panic ''Memory fault in guest address space.'')"

definition store_at :: "uptr \<Rightarrow> (mem \<Rightarrow> mem) \<Rightarrow> 'h env \<Rightarrow> 'h env res" where
  "store_at p f ev =
     (if p = 0 then Inl (dbt_sigaction_memory (ev_mmu ev) p) else Inr (ev\<lparr>ev_mem := f (ev_mem ev)\<rparr>))"

subsection \<open>Paths\<close>

definition PATH_MAX :: nat where "PATH_MAX = 4096"
definition AT_FDCWD :: u32 where "AT_FDCWD = - 100"

text \<open>The conversion \<open>%d\<close>.\<close>

fun dec_nat :: "nat \<Rightarrow> string" where
  "dec_nat n = (if n < 10 then [char_of (48 + n)] else dec_nat (n div 10) @ [char_of (48 + n mod 10)])"

declare dec_nat.simps [simp del]

definition dec_int :: "u32 \<Rightarrow> string" where
  "dec_int n = (if sint n < 0 then ''-'' @ dec_nat (nat (- sint n)) else dec_nat (nat (sint n)))"

definition HandleSpecialPath :: "proc \<Rightarrow> string \<Rightarrow> string option" where
  "HandleSpecialPath pr path =
     (if path = ''/proc/self/exe'' then Some (''/proc/self/fd/'' @ dec_int (exe_fd pr)) else None)"

text \<open>
  The path that is looked up, before it is resolved: \<open>None\<close> when the function returns -1. A relative
  path is appended to the working directory without a separator; behind the bytes that \<open>readlink\<close>
  stores there is no terminator.
\<close>

definition path_prefix :: "('h, 'x) sys_scheme \<Rightarrow> u32 \<Rightarrow> string \<Rightarrow> 'h env \<Rightarrow> string option res" where
  "path_prefix os dirfd path ev =
     (if take 1 path = ''/'' then Inr (Some (take (PATH_MAX - 1) (fsroot (ev_proc ev) @ ''/'' @ path)))
      else if dirfd = AT_FDCWD then
        case os_getcwd os (ev_h ev) of
          None \<Rightarrow> Inl Undefined
        | Some cwd \<Rightarrow> Inr (Some (cwd @ path))
      else
        case os_readlink os (''/proc/self/fd/'' @ dec_int dirfd) (ev_h ev) of
          None \<Rightarrow> Inr None
        | Some target \<Rightarrow> Inl Undefined)"

definition PathResolution :: "('h, 'x) sys_scheme \<Rightarrow> u32 \<Rightarrow> string \<Rightarrow> 'h env \<Rightarrow> string option res" where
  "PathResolution os dirfd path ev =
     (let root = fsroot (ev_proc ev) in
      rbind (path_prefix os dirfd path ev) (\<lambda>r.
        case r of
          None \<Rightarrow> Inr None
        | Some rp \<Rightarrow>
            if take (length root) rp \<noteq> root then Inl (Panic ''Malformed fsroot'')
            else if PATH_MAX \<le> length rp \<or> length rp = length root then Inl Undefined
            else case HandleSpecialPath (ev_proc ev) (drop (length root + 1) rp) of
              Some special \<Rightarrow> Inr (Some special)
            | None \<Rightarrow>
                case os_realpath os rp (ev_h ev) of
                  None \<Rightarrow> Inr None
                | Some resolved \<Rightarrow>
                    if take (length root) resolved \<noteq> root then Inl (Panic ''Malformed fsroot'')
                    else if take 1 path \<noteq> ''/'' then Inr (Some path)
                    else Inr (Some resolved)))"

subsection \<open>Handlers\<close>

definition rcerrno :: "('h, 'x) sys_scheme \<Rightarrow> u32 \<times> 'h env \<Rightarrow> u32 \<times> 'h env" where
  "rcerrno os r = (if sint (fst r) < 0 then (- os_errno os (ev_h (snd r)), snd r) else r)"

text \<open>A result of 64 bits is truncated on the way into \<open>rcerrno\<close>.\<close>

definition trunc_rc :: "u64 \<times> 'h env \<Rightarrow> u32 \<times> 'h env" where
  "trunc_rc r = (ucast (fst r), snd r)"

definition linux_openat :: "('h, 'x) sys_scheme \<Rightarrow> u32 \<Rightarrow> uptr \<Rightarrow> u32 \<Rightarrow> u32 \<Rightarrow> 'h env \<Rightarrow> (u32 \<times> 'h env) res" where
  "linux_openat os dfd filename flags mode ev = Inr (rcerrno os (hcall (os_openat os dfd filename flags mode) ev))"

definition linux_close :: "('h, 'x) sys_scheme \<Rightarrow> u32 \<Rightarrow> 'h env \<Rightarrow> (u32 \<times> 'h env) res" where
  "linux_close os fd ev = (if fd < 3 then Inr (0, ev) else Inr (rcerrno os (hcall (os_close os fd) ev)))"

text \<open>The result of \<open>lseek\<close> goes into an \<open>int\<close>; an error is not reported.\<close>

definition linux_llseek ::
  "('h, 'x) sys_scheme \<Rightarrow> u32 \<Rightarrow> u32 \<Rightarrow> u32 \<Rightarrow> uptr \<Rightarrow> u32 \<Rightarrow> 'h env \<Rightarrow> (u32 \<times> 'h env) res" where
  "linux_llseek os fd offset_high offset_low result whence ev =
     (let off = push_bit 32 (ucast offset_high) OR ucast offset_low;
          (r, ev1) = hcall (os_lseek os fd off whence) ev; rc = ucast r :: u32 in
      if 0 \<le> sint rc then rbind (store_at result (\<lambda>m. unaligned_store64 m result (scast rc)) ev1) (\<lambda>ev2. Inr (0, ev2))
      else Inr (0, ev1))"

definition linux_read :: "('h, 'x) sys_scheme \<Rightarrow> u32 \<Rightarrow> uptr \<Rightarrow> u32 \<Rightarrow> 'h env \<Rightarrow> (u32 \<times> 'h env) res" where
  "linux_read os fd buf count ev = Inr (rcerrno os (trunc_rc (hcall (os_read os fd buf (ucast count)) ev)))"

definition linux_write :: "('h, 'x) sys_scheme \<Rightarrow> u32 \<Rightarrow> uptr \<Rightarrow> u32 \<Rightarrow> 'h env \<Rightarrow> (u32 \<times> 'h env) res" where
  "linux_write os fd buf count ev = Inr (rcerrno os (trunc_rc (hcall (os_write os fd buf (ucast count)) ev)))"

text \<open>
  The path argument of \<open>readlinkat\<close> and \<open>statx\<close>: empty paths are passed on, others resolved. Paths are
  read up to \<open>PATH_MAX\<close> characters, more never matter.
\<close>

definition path_arg :: "('h, 'x) sys_scheme \<Rightarrow> u32 \<Rightarrow> uptr \<Rightarrow> 'h env \<Rightarrow> string option res" where
  "path_arg os dfd path ev =
     (let s = cstr_at PATH_MAX (ev_mem ev) path in
      if s \<noteq> [] then PathResolution os dfd s ev else Inr (Some []))"

definition linux_readlinkat ::
  "('h, 'x) sys_scheme \<Rightarrow> u32 \<Rightarrow> uptr \<Rightarrow> uptr \<Rightarrow> u32 \<Rightarrow> 'h env \<Rightarrow> (u32 \<times> 'h env) res" where
  "linux_readlinkat os dfd path buf bufsiz ev =
     rbind (path_arg os dfd path ev) (\<lambda>r.
       case r of
         None \<Rightarrow> Inr (- os_errno os (ev_h ev), ev)
       | Some pathbuf \<Rightarrow> Inr (rcerrno os (trunc_rc (hcall (os_readlinkat os dfd pathbuf buf (scast bufsiz)) ev))))"

definition linux_fstat64 :: "('h, 'x) sys_scheme \<Rightarrow> u32 \<Rightarrow> uptr \<Rightarrow> 'h env \<Rightarrow> (u32 \<times> 'h env) res" where
  "linux_fstat64 os fd statbuf ev = Inr (rcerrno os (hcall (os_fstatat os fd [] statbuf 0) ev))"

text \<open>The host is given the address of a local variable, whose value the guest gets.\<close>

definition linux_set_tid_address :: "('h, 'x) sys_scheme \<Rightarrow> uptr \<Rightarrow> 'h env \<Rightarrow> (u32 \<times> 'h env) res" where
  "linux_set_tid_address os tidptr ev =
     (let ((rc, h_tidptr), ev1) = hcall (os_set_tid_address os) ev in
      if sint rc < 0 then Inr (- os_errno os (ev_h ev1), ev1)
      else rbind (store_at tidptr (\<lambda>m. unaligned_store32 m tidptr h_tidptr) ev1) (\<lambda>ev2. Inr (ucast rc, ev2)))"

definition linux_exit :: "u32 \<Rightarrow> 'h env \<Rightarrow> (u32 \<times> 'h env) res" where
  "linux_exit error_code ev = Inr (error_code, ev\<lparr>ev_trap := TC_TERMINATED\<rparr>)"

definition linux_exit_group :: "u32 \<Rightarrow> 'h env \<Rightarrow> (u32 \<times> 'h env) res" where
  "linux_exit_group error_code ev = linux_exit error_code ev"

definition linux_rt_sigaction :: "'h env \<Rightarrow> (u32 \<times> 'h env) res" where
  "linux_rt_sigaction ev = Inr (0, ev)"

definition offs_machine :: u64 where "offs_machine = 4 * 65"

definition linux_uname :: "('h, 'x) sys_scheme \<Rightarrow> uptr \<Rightarrow> 'h env \<Rightarrow> (u32 \<times> 'h env) res" where
  "linux_uname os name ev =
     (let (rc, ev1) = hcall (os_uname os name) ev in
      rbind (store_at name (memcpy_bytes (name + offs_machine) (cstr_bytes ''riscv32'')) ev1) (\<lambda>ev2.
        Inr (rcerrno os (rc, ev2))))"

definition linux_getuid :: "('h, 'x) sys_scheme \<Rightarrow> 'h env \<Rightarrow> (u32 \<times> 'h env) res" where
  "linux_getuid os ev = Inr (os_getuid os (ev_h ev), ev)"
definition linux_geteuid :: "('h, 'x) sys_scheme \<Rightarrow> 'h env \<Rightarrow> (u32 \<times> 'h env) res" where
  "linux_geteuid os ev = Inr (os_geteuid os (ev_h ev), ev)"
definition linux_getgid :: "('h, 'x) sys_scheme \<Rightarrow> 'h env \<Rightarrow> (u32 \<times> 'h env) res" where
  "linux_getgid os ev = Inr (os_getgid os (ev_h ev), ev)"
definition linux_getegid :: "('h, 'x) sys_scheme \<Rightarrow> 'h env \<Rightarrow> (u32 \<times> 'h env) res" where
  "linux_getegid os ev = Inr (os_getegid os (ev_h ev), ev)"

text \<open>The members of \<open>uabi_sysinfo\<close> that are written, with their offsets.\<close>

definition KB :: "u64 \<Rightarrow> u64" where "KB n = push_bit 10 n"
definition MB :: "u64 \<Rightarrow> u64" where "MB n = push_bit 20 n"
definition GB :: "u64 \<Rightarrow> u64" where "GB n = push_bit 30 n"

definition put_sysinfo :: "uptr \<Rightarrow> u64 \<Rightarrow> (nat \<Rightarrow> u64) \<Rightarrow> u16 \<Rightarrow> mem \<Rightarrow> mem" where
  "put_sysinfo info uptime loads procs m =
     (let m1 = fold (\<lambda>(offs, v) m. unaligned_store32 m (info + offs) (ucast (v :: u64)))
          [(0, uptime), (4, loads 0), (8, loads 1), (12, loads 2), (16, GB 1), (20, MB 500),
           (36, MB 1), (32, MB 1), (28, MB 1), (24, MB 1)] m;
          m2 = unaligned_store16 m1 (info + 40) procs
      in fold (\<lambda>(offs, v) m. unaligned_store32 m (info + offs) (ucast (v :: u64)))
          [(48, MB 1), (44, MB 1), (52, 1)] m2)"

definition linux_sysinfo :: "('h, 'x) sys_scheme \<Rightarrow> uptr \<Rightarrow> 'h env \<Rightarrow> (u32 \<times> 'h env) res" where
  "linux_sysinfo os info ev =
     (let ((rc, uptime, loads, procs), ev1) = hcall (os_sysinfo os) ev in
      if 0 < sint rc then
        rbind (store_at info (put_sysinfo info uptime loads procs) ev1) (\<lambda>ev2. Inr (rcerrno os (rc, ev2)))
      else Inr (rcerrno os (rc, ev1)))"

text \<open>\<open>mmu::mmap\<close> on the environment.\<close>

definition env_mmap ::
  "('h, 'x) sys_scheme \<Rightarrow> u32 \<Rightarrow> u32 \<Rightarrow> u32 \<Rightarrow> u32 \<Rightarrow> u32 \<Rightarrow> u64 \<Rightarrow> 'h env \<Rightarrow> (uptr \<times> 'h env) res" where
  "env_mmap os vaddr len prot flags fd offs ev =
     rbind (mmu_mmap os vaddr len prot flags fd offs (ev_mmu ev) (ev_h ev, ev_mem ev)) (\<lambda>(r, m, h, mem).
       Inr (r, ev\<lparr>ev_mmu := m, ev_h := h, ev_mem := mem\<rparr>))"

definition PROT_READ :: u32 where "PROT_READ = 1"
definition PROT_WRITE :: u32 where "PROT_WRITE = 2"
definition PROT_EXEC :: u32 where "PROT_EXEC = 4"

definition set_brk :: "u32 \<Rightarrow> 'h env \<Rightarrow> 'h env" where
  "set_brk b ev = ev\<lparr>ev_proc := (ev_proc ev)\<lparr>proc_brk := b\<rparr>\<rparr>"

definition linux_brk :: "('h, 'x) sys_scheme \<Rightarrow> u32 \<Rightarrow> 'h env \<Rightarrow> (u32 \<times> 'h env) res" where
  "linux_brk os newbrk ev =
     (let brk = proc_brk (ev_proc ev) in
      if newbrk \<le> brk then Inr (brk, ev)
      else
        let brk_p = page_len brk; clear = (\<lambda>n ev. ev\<lparr>ev_mem := memset0 (g2h (ev_mmu ev) brk) (ucast (n :: u32)) (ev_mem ev)\<rparr>) in
        if newbrk \<le> brk_p then
          Inr (newbrk, set_brk newbrk (if newbrk \<noteq> brk_p then clear (newbrk - brk) ev else ev))
        else
          rbind (env_mmap os brk_p (newbrk - brk_p) (PROT_READ OR PROT_WRITE) (MAP_ANON OR MAP_PRIVATE OR MAP_FIXED) (- 1) 0 ev)
            (\<lambda>(mem, ev1).
              if h2g (ev_mmu ev1) mem \<noteq> brk_p then
                let (rc, ev2) = hcall (os_munmap os mem (ucast (newbrk - brk_p))) ev1 in Inr (brk, ev2)
              else Inr (newbrk, set_brk newbrk (clear (brk_p - brk) ev1))))"

definition linux_munmap :: "('h, 'x) sys_scheme \<Rightarrow> u32 \<Rightarrow> u32 \<Rightarrow> 'h env \<Rightarrow> (u32 \<times> 'h env) res" where
  "linux_munmap os gaddr len ev =
     Inr (rcerrno os (hcall (os_munmap os (g2h (ev_mmu ev) gaddr) (ucast len)) ev))"

definition linux_mmap2 ::
  "('h, 'x) sys_scheme \<Rightarrow> u32 \<Rightarrow> u32 \<Rightarrow> u32 \<Rightarrow> u32 \<Rightarrow> u32 \<Rightarrow> u32 \<Rightarrow> 'h env \<Rightarrow> (u32 \<times> 'h env) res" where
  "linux_mmap2 os gaddr len prot flags fd off ev =
     rbind (env_mmap os gaddr len prot flags fd (ucast off) ev) (\<lambda>(ret, ev1).
       if ret = MAP_FAILED then Inr (- os_errno os (ev_h ev1), ev1)
       else Inr (h2g (ev_mmu ev1) ret, ev1))"

definition linux_mprotect :: "('h, 'x) sys_scheme \<Rightarrow> u32 \<Rightarrow> u32 \<Rightarrow> u32 \<Rightarrow> 'h env \<Rightarrow> (u32 \<times> 'h env) res" where
  "linux_mprotect os start len prot ev =
     Inr (rcerrno os (hcall (os_mprotect os (g2h (ev_mmu ev) start) (ucast len) prot) ev))"

definition RLIMIT_DATA :: u32 where "RLIMIT_DATA = 2"
definition RLIMIT_STACK :: u32 where "RLIMIT_STACK = 3"
definition RLIMIT_AS :: u32 where "RLIMIT_AS = 9"

definition linux_prlimit64 ::
  "('h, 'x) sys_scheme \<Rightarrow> u32 \<Rightarrow> u32 \<Rightarrow> uptr \<Rightarrow> uptr \<Rightarrow> 'h env \<Rightarrow> (u32 \<times> 'h env) res" where
  "linux_prlimit64 os pid resource new_rlim old_rlim ev =
     (let h_new = (if new_rlim \<noteq> 0 \<and> \<not> (resource = RLIMIT_AS \<or> resource = RLIMIT_STACK \<or> resource = RLIMIT_DATA)
            then Some (unaligned_load64 (ev_mem ev) new_rlim, unaligned_load64 (ev_mem ev) (new_rlim + 8)) else None);
          ((rc, cur, mx), ev1) = hcall (os_prlimit64 os pid resource h_new) ev in
      if sint rc < 0 then Inr (- os_errno os (ev_h ev1), ev1)
      else rbind (store_at old_rlim (\<lambda>m. unaligned_store64 (unaligned_store64 m old_rlim cur) (old_rlim + 8) mx) ev1)
        (\<lambda>ev2. Inr (ucast rc, ev2)))"

definition linux_getrandom :: "('h, 'x) sys_scheme \<Rightarrow> uptr \<Rightarrow> u32 \<Rightarrow> u32 \<Rightarrow> 'h env \<Rightarrow> (u32 \<times> 'h env) res" where
  "linux_getrandom os buf count flags ev =
     Inr (rcerrno os (trunc_rc (hcall (os_getrandom os buf (ucast count) flags) ev)))"

definition linux_statx ::
  "('h, 'x) sys_scheme \<Rightarrow> u32 \<Rightarrow> uptr \<Rightarrow> u32 \<Rightarrow> u32 \<Rightarrow> uptr \<Rightarrow> 'h env \<Rightarrow> (u32 \<times> 'h env) res" where
  "linux_statx os dfd path flags msk buffer ev =
     rbind (path_arg os dfd path ev) (\<lambda>r.
       case r of
         None \<Rightarrow> Inr (- os_errno os (ev_h ev), ev)
       | Some pathbuf \<Rightarrow> Inr (rcerrno os (hcall (os_statx os dfd pathbuf flags msk buffer) ev)))"

text \<open>
  The product with \<open>1e3 / CLOCKS_PER_SEC\<close> is computed in floating point and truncated; on remainders
  below a million that is division by 1000.
\<close>

definition CLOCKS_PER_SEC :: int where "CLOCKS_PER_SEC = 1000000"

definition linux_clock_gettime64 :: "('h, 'x) sys_scheme \<Rightarrow> uptr \<Rightarrow> 'h env \<Rightarrow> (u32 \<times> 'h env) res" where
  "linux_clock_gettime64 os ktp ev =
     (let (t, ev1) = hcall (os_clock os) ev;
          tv_sec = word_of_int (sint t sdiv CLOCKS_PER_SEC) :: u64;
          tv_nsec = word_of_int ((sint t smod CLOCKS_PER_SEC) sdiv 1000) :: u64 in
      rbind (store_at ktp (\<lambda>m. unaligned_store64 (unaligned_store64 m ktp tv_sec) (ktp + 8) tv_nsec) ev1)
        (\<lambda>ev2. Inr (0, ev2)))"

subsection \<open>Dispatch\<close>

definition ENOSYS :: u32 where "ENOSYS = 38"

text \<open>
  \<open>a\<close> are the seven arguments; those that a handler takes as pointers go through \<open>g2h\<close>.
\<close>

definition dispatch :: "('h, 'x) sys_scheme \<Rightarrow> u32 \<Rightarrow> (nat \<Rightarrow> u32) \<Rightarrow> 'h env \<Rightarrow> (u32 \<times> 'h env) res" where
  "dispatch os syscallno a ev =
     (let is = (\<lambda>name. SyscallID name = Some (unat syscallno)); p = (\<lambda>i. g2h (ev_mmu ev) (a i)) in
      if is ''openat'' then linux_openat os (a 0) (p 1) (a 2) (a 3) ev
      else if is ''close'' then linux_close os (a 0) ev
      else if is ''llseek'' then linux_llseek os (a 0) (a 1) (a 2) (p 3) (a 4) ev
      else if is ''read'' then linux_read os (a 0) (p 1) (a 2) ev
      else if is ''write'' then linux_write os (a 0) (p 1) (a 2) ev
      else if is ''readlinkat'' then linux_readlinkat os (a 0) (p 1) (p 2) (a 3) ev
      else if is ''fstat64'' then linux_fstat64 os (a 0) (p 1) ev
      else if is ''set_tid_address'' then linux_set_tid_address os (p 0) ev
      else if is ''set_robust_list'' then Inr (- ENOSYS, ev)
      else if is ''exit'' then linux_exit (a 0) ev
      else if is ''exit_group'' then linux_exit_group (a 0) ev
      else if is ''rt_sigaction'' then linux_rt_sigaction ev
      else if is ''uname'' then linux_uname os (p 0) ev
      else if is ''getuid'' then linux_getuid os ev
      else if is ''geteuid'' then linux_geteuid os ev
      else if is ''getgid'' then linux_getgid os ev
      else if is ''getegid'' then linux_getegid os ev
      else if is ''sysinfo'' then linux_sysinfo os (p 0) ev
      else if is ''brk'' then linux_brk os (a 0) ev
      else if is ''munmap'' then linux_munmap os (a 0) (a 1) ev
      else if is ''mmap2'' then linux_mmap2 os (a 0) (a 1) (a 2) (a 3) (a 4) (a 5) ev
      else if is ''mprotect'' then linux_mprotect os (a 0) (a 1) (a 2) ev
      else if is ''prlimit64'' then linux_prlimit64 os (a 0) (a 1) (p 2) (p 3) ev
      else if is ''getrandom'' then linux_getrandom os (p 0) (a 1) (a 2) ev
      else if is ''statx'' then linux_statx os (a 0) (p 1) (a 2) (a 3) (p 4) ev
      else if is ''clock_gettime64'' then linux_clock_gettime64 os (p 1) ev
      else Inl (SyscallUnhandled syscallno))"

definition SyscallLinux :: "('h, 'x) sys_scheme \<Rightarrow> cpu_state \<Rightarrow> 'h env \<Rightarrow> (cpu_state \<times> 'h env) res" where
  "SyscallLinux os state ev =
     (let args = (\<lambda>i. gpr state (of_nat (10 + i))); syscallno = gpr state 17 in
      rbind (dispatch os syscallno args (ev\<lparr>ev_trap := TC_NONE\<rparr>)) (\<lambda>(rc, ev1).
        Inr (state\<lparr>gpr := (gpr state)(10 := rc), trapno := ev_trap ev1\<rparr>, ev1)))"

subsection \<open>The outer loop\<close>

text \<open>
  \<open>run\<close> is the execution loop of execute.cpp for some number of steps, \<open>None\<close> when that is not enough.
  Guest memory of the environment and of the execution state are the same.
\<close>

fun env_loop ::
  "('h, 'x) sys_scheme \<Rightarrow> (exec_state \<Rightarrow> exec_state res option) \<Rightarrow> nat \<Rightarrow> exec_state \<Rightarrow> 'h env \<Rightarrow>
    (u32 \<times> exec_state \<times> 'h env) res option" where
  "env_loop os run 0 st ev = None"
| "env_loop os run (Suc n) st ev =
     (case run (st\<lparr>x_mem := ev_mem ev\<rparr>) of
        None \<Rightarrow> None
      | Some (Inl e) \<Rightarrow> Some (Inl e)
      | Some (Inr st1) \<Rightarrow>
          (let ev1 = ev\<lparr>ev_mem := x_mem st1\<rparr>; cpu = x_cpu st1 in
           case trapno cpu of
             TC_EBREAK \<Rightarrow> Some (Inr (1, st1, ev1))
           | TC_ECALL \<Rightarrow>
               (case SyscallLinux os (cpu\<lparr>ip := ip cpu + 4\<rparr>) ev1 of
                  Inl e \<Rightarrow> Some (Inl e)
                | Inr (cpu2, ev2) \<Rightarrow>
                    if trapno cpu2 = TC_TERMINATED then Some (Inr (gpr cpu2 10, st1\<lparr>x_cpu := cpu2\<rparr>, ev2))
                    else env_loop os run n (st1\<lparr>x_cpu := cpu2\<rparr>) ev2)
           | TC_ILLEGAL_INSN \<Rightarrow> Some (Inr (1, st1, ev1))
           | _ \<Rightarrow> Some (Inl AssertFail)))"

text \<open>\<open>env::Execute\<close>: the CPU state becomes the current one of the thread, then the loop.\<close>

definition env_Execute ::
  "('h, 'x) sys_scheme \<Rightarrow> (exec_state \<Rightarrow> exec_state res option) \<Rightarrow> nat \<Rightarrow> exec_state \<Rightarrow> 'h env \<Rightarrow>
    (u32 \<times> exec_state \<times> 'h env) res option" where
  "env_Execute os run n st ev = env_loop os run n (SetCurrent st) ev"

end
