(* ===== verification/Env_Correct.thy ===== *)
theory Env_Correct
  imports Env
begin

section \<open>System calls are dispatched and served correctly\<close>

text \<open>
  What holds of every system call, of \<open>brk\<close> and of the resolution of paths, and the outer loop that
  serves system calls between runs of translated code.
\<close>

subsection \<open>What handlers keep\<close>

lemma hcall_keeps [simp]:
  "ev_trap (snd (hcall f ev)) = ev_trap ev" "ev_proc (snd (hcall f ev)) = ev_proc ev" "ev_mmu (snd (hcall f ev)) = ev_mmu ev"
  by (simp_all add: hcall_def Let_def split: prod.split)

lemma hcall_keepsD:
  assumes "hcall f ev = (r, ev')"
  shows "ev_trap ev' = ev_trap ev" "ev_proc ev' = ev_proc ev" "ev_mmu ev' = ev_mmu ev"
  using hcall_keeps [of f ev] assms by simp_all

lemma snd_rc [simp]: "snd (rcerrno os r) = snd r" "snd (trunc_rc q) = snd q"
  by (simp_all add: rcerrno_def trunc_rc_def)

lemma store_at_keeps:
  assumes "store_at p f ev = Inr ev'"
  shows "ev_trap ev' = ev_trap ev" "ev_proc ev' = ev_proc ev" "ev_mmu ev' = ev_mmu ev"
  using assms by (auto simp: store_at_def split: if_splits)

lemma env_mmap_keeps:
  assumes "env_mmap os vaddr len prot flags fd offs ev = Inr (r, ev')"
  shows "ev_trap ev' = ev_trap ev" "ev_proc ev' = ev_proc ev"
  using assms by (auto simp: env_mmap_def split: prod.splits)

text \<open>The handlers that do not end the guest leave its trap code alone.\<close>

lemma rc_trap:
  assumes "rcerrno os q = (rc, ev')"
  shows "ev_trap ev' = ev_trap (snd q)"
  using assms snd_rc(1) [of os q] by simp

lemma io_trap:
  "linux_openat os dfd filename flags md ev = Inr (rc, ev') \<Longrightarrow> ev_trap ev' = ev_trap ev"
  "linux_close os fd ev = Inr (rc, ev') \<Longrightarrow> ev_trap ev' = ev_trap ev"
  "linux_read os fd buf count ev = Inr (rc, ev') \<Longrightarrow> ev_trap ev' = ev_trap ev"
  "linux_write os fd buf count ev = Inr (rc, ev') \<Longrightarrow> ev_trap ev' = ev_trap ev"
  "linux_fstat64 os fd buf ev = Inr (rc, ev') \<Longrightarrow> ev_trap ev' = ev_trap ev"
  "linux_munmap os a n ev = Inr (rc, ev') \<Longrightarrow> ev_trap ev' = ev_trap ev"
  "linux_mprotect os a n prot ev = Inr (rc, ev') \<Longrightarrow> ev_trap ev' = ev_trap ev"
  "linux_getrandom os buf n flags ev = Inr (rc, ev') \<Longrightarrow> ev_trap ev' = ev_trap ev"
  unfolding linux_openat_def linux_close_def linux_read_def linux_write_def linux_fstat64_def linux_munmap_def
    linux_mprotect_def linux_getrandom_def
  by (auto dest: rc_trap split: if_splits)

lemma path_trap:
  "linux_readlinkat os dfd path buf n ev = Inr (rc, ev') \<Longrightarrow> ev_trap ev' = ev_trap ev"
  "linux_statx os dfd path flags msk buf ev = Inr (rc, ev') \<Longrightarrow> ev_trap ev' = ev_trap ev"
  unfolding linux_readlinkat_def linux_statx_def
  by (auto dest!: rc_trap split: option.splits)

lemma struct_trap:
  "linux_llseek os fd hi lo result whence ev = Inr (rc, ev') \<Longrightarrow> ev_trap ev' = ev_trap ev"
  "linux_set_tid_address os p ev = Inr (rc, ev') \<Longrightarrow> ev_trap ev' = ev_trap ev"
  "linux_uname os p ev = Inr (rc, ev') \<Longrightarrow> ev_trap ev' = ev_trap ev"
  "linux_sysinfo os p ev = Inr (rc, ev') \<Longrightarrow> ev_trap ev' = ev_trap ev"
  "linux_prlimit64 os pid resource p q ev = Inr (rc, ev') \<Longrightarrow> ev_trap ev' = ev_trap ev"
  "linux_clock_gettime64 os p ev = Inr (rc, ev') \<Longrightarrow> ev_trap ev' = ev_trap ev"
  unfolding linux_llseek_def linux_set_tid_address_def linux_uname_def linux_sysinfo_def linux_prlimit64_def
    linux_clock_gettime64_def
  by (auto simp: Let_def dest!: rc_trap hcall_keepsD(1) store_at_keeps(1) split: prod.splits if_splits)

lemma mem_trap:
  "linux_brk os b ev = Inr (rc, ev') \<Longrightarrow> ev_trap ev' = ev_trap ev"
  "linux_mmap2 os a n prot flags fd off ev = Inr (rc, ev') \<Longrightarrow> ev_trap ev' = ev_trap ev"
  unfolding linux_brk_def linux_mmap2_def set_brk_def
  by (auto simp: Let_def dest!: env_mmap_keeps(1) hcall_keepsD(1) split: prod.splits if_splits)

lemmas handler_trap = io_trap path_trap struct_trap mem_trap

lemma SyscallID_inj: "SyscallID name = Some n \<Longrightarrow> SyscallID name' = Some n \<Longrightarrow> name = name'"
  using SyscallID_name by (metis option.inject)

lemma exit_numbers: "SyscallID ''exit'' = Some 93" "SyscallID ''exit_group'' = Some 94"
  by (simp_all add: SyscallID_def RV32_LINUX_SYSCALL_LIST_def syscall_list_lo_def)

lemma unat_eq_numeral_u32: "unat (w :: u32) = 93 \<longleftrightarrow> w = 93" "unat (w :: u32) = 94 \<longleftrightarrow> w = 94"
  by (simp_all add: word_unat_eq_iff)

subsection \<open>Dispatch\<close>

definition handled :: "string list" where
  "handled = [''openat'', ''close'', ''llseek'', ''read'', ''write'', ''readlinkat'', ''fstat64'', ''set_tid_address'',
     ''set_robust_list'', ''exit'', ''exit_group'', ''rt_sigaction'', ''uname'', ''getuid'', ''geteuid'', ''getgid'',
     ''getegid'', ''sysinfo'', ''brk'', ''munmap'', ''mmap2'', ''mprotect'', ''prlimit64'', ''getrandom'', ''statx'',
     ''clock_gettime64'']"

lemma dispatch_unhandled:
  assumes "\<not> (\<exists>name \<in> set handled. SyscallID name = Some (unat no))"
  shows "dispatch os no a ev = Inl (SyscallUnhandled no)"
  using assms by (simp add: dispatch_def handled_def)

lemma dispatch_trap:
  assumes "dispatch os no a ev = Inr (rc, ev')"
  shows "ev_trap ev' = (if no = 93 \<or> no = 94 then TC_TERMINATED else ev_trap ev) \<and> (no = 93 \<or> no = 94 \<longrightarrow> rc = a 0)"
proof (cases "no = 93 \<or> no = 94")
  case True
  define name where "name = (if no = 93 then ''exit'' else ''exit_group'')"
  have name: "SyscallID name = Some (unat no)" using True exit_numbers by (auto simp: name_def)
  then have isn: "SyscallID x = Some (unat no) \<longleftrightarrow> x = name" for x using SyscallID_inj by blast
  have "dispatch os no a ev = linux_exit (a 0) ev"
    unfolding dispatch_def Let_def isn by (simp add: name_def linux_exit_group_def)
  then show ?thesis using True assms by (auto simp: linux_exit_def)
next
  case False
  then have n: "unat no \<noteq> 93" "unat no \<noteq> 94" by (simp_all add: unat_eq_numeral_u32)
  show ?thesis
    using assms False n unfolding dispatch_def Let_def exit_numbers
    by (simp split: if_splits) (auto simp: linux_rt_sigaction_def linux_getuid_def linux_geteuid_def linux_getgid_def
        linux_getegid_def dest: handler_trap)
qed

lemma SyscallLinux_spec:
  assumes "SyscallLinux os s ev = Inr (s', ev')"
  shows "(\<exists>name \<in> set handled. SyscallID name = Some (unat (gpr s 17))) \<and> ip s' = ip s \<and>
    (\<forall>r. r \<noteq> 10 \<longrightarrow> gpr s' r = gpr s r) \<and>
    trapno s' = (if gpr s 17 = 93 \<or> gpr s 17 = 94 then TC_TERMINATED else TC_NONE) \<and>
    (gpr s 17 = 93 \<or> gpr s 17 = 94 \<longrightarrow> gpr s' 10 = gpr s 10)"
proof -
  obtain rc ev1 where d: "dispatch os (gpr s 17) (\<lambda>i. gpr s (of_nat (10 + i))) (ev\<lparr>ev_trap := TC_NONE\<rparr>) = Inr (rc, ev1)"
    and s': "s' = s\<lparr>gpr := (gpr s)(10 := rc), trapno := ev_trap ev1\<rparr>"
    using assms by (auto simp: SyscallLinux_def Let_def)
  have "\<exists>name \<in> set handled. SyscallID name = Some (unat (gpr s 17))"
    using d dispatch_unhandled [of "gpr s 17" os] by fastforce
  then show ?thesis using dispatch_trap [OF d] s' by auto
qed

text \<open>
  C16. A system call returns its result in \<open>a0\<close> and changes no other register and not the instruction
  pointer; it leaves no trap pending, except that \<open>exit\<close> and \<open>exit_group\<close> end the guest with their
  argument as the result. It returns only for the handled calls; any other number panics.
\<close>

theorem SyscallLinux_correct:
  "(SyscallLinux os s ev = Inr (s', ev') \<longrightarrow>
      (\<exists>name \<in> set handled. SyscallID name = Some (unat (gpr s 17))) \<and> ip s' = ip s \<and>
      (\<forall>r. r \<noteq> 10 \<longrightarrow> gpr s' r = gpr s r) \<and>
      trapno s' = (if gpr s 17 = 93 \<or> gpr s 17 = 94 then TC_TERMINATED else TC_NONE) \<and>
      (gpr s 17 = 93 \<or> gpr s 17 = 94 \<longrightarrow> gpr s' 10 = gpr s 10)) \<and>
   (\<not> (\<exists>name \<in> set handled. SyscallID name = Some (unat (gpr s 17))) \<longrightarrow>
      SyscallLinux os s ev = Inl (SyscallUnhandled (gpr s 17)))"
proof (intro conjI impI)
  show "SyscallLinux os s ev = Inl (SyscallUnhandled (gpr s 17))"
    if "\<not> (\<exists>name \<in> set handled. SyscallID name = Some (unat (gpr s 17)))"
    unfolding SyscallLinux_def Let_def dispatch_unhandled [OF that] by simp
qed (use SyscallLinux_spec in blast)+

subsection \<open>The program break\<close>

lemma ucast_diff_u32: "b \<le> g \<Longrightarrow> (ucast (g :: u32) - ucast b :: u64) = ucast (g - b)"
  by (simp add: word_unat_eq_iff unat_sub word_le_nat_alt)

lemma g2h_diff: "b \<le> g \<Longrightarrow> g2h m g - g2h m b = ucast (g - b)"
  by (simp add: g2h_def ucast_diff_u32)

lemma h2g_g2h [simp]: "h2g m (g2h m g) = g"
  unfolding h2g_def g2h_def by (rule bit_word_eqI) (simp add: bit_simps)

lemma minus_1_diff: "- 1 - (w :: 'a::len word) = NOT w"
  by (simp add: not_eq_complement)

lemma h2g_failed:
  assumes "mmu_base m AND 4095 = 0"
  shows "h2g m MAP_FAILED AND 4095 = 4095"
proof -
  have "h2g m MAP_FAILED AND 4095 = ucast (NOT (mmu_base m) AND 4095)"
    by (rule bit_word_eqI) (auto simp: h2g_def MAP_FAILED_def minus_1_diff bit_simps)
  also have "NOT (mmu_base m) AND 4095 = 4095 XOR (mmu_base m AND 4095)"
    by (rule bit_word_eqI) (auto simp: bit_simps)
  finally show ?thesis using assms by simp
qed

lemma page_len_ge:
  assumes "unat x \<le> 2 ^ 32 - 4096"
  shows "unat (page_len x) = (unat x + 4095) div 4096 * 4096" "x \<le> page_len x" "unat (page_len x) < unat x + 4096"
proof -
  have "(unat x + 4095) div 4096 * 4096 \<le> unat x + 4095" by simp
  then have lt: "(unat x + 4095) div 4096 * 4096 < 2 ^ 32" using assms by simp
  then show e: "unat (page_len x) = (unat x + 4095) div 4096 * 4096" by (simp add: unat_page_len)
  show "x \<le> page_len x" unfolding word_le_nat_alt e by simp
  show "unat (page_len x) < unat x + 4096" unfolding e by simp
qed

text \<open>The bytes that growing the break may change: up to the end of the last page.\<close>

definition brk_area :: "mmu \<Rightarrow> u32 \<Rightarrow> u32 \<Rightarrow> uptr \<Rightarrow> bool" where
  "brk_area m brk newbrk q \<longleftrightarrow> q - g2h m brk < ucast (page_len brk - brk) + ucast (page_len (newbrk - page_len brk)) \<or>
     q - g2h m brk < ucast (newbrk - brk)"

lemma linux_brk_grow:
  assumes host: "host_mm_ok os mapped" and base: "mmu_base (ev_mmu ev) AND 4095 = 0"
    and b: "brk = proc_brk (ev_proc ev)" "0 < brk" "unat brk \<le> 2 ^ 32 - 4096" and new: "page_len brk < newbrk"
    and run: "linux_brk os newbrk ev = Inr (rc, ev')"
  shows "rc = newbrk \<and> proc_brk (ev_proc ev') = newbrk \<and>
      (\<forall>g. brk \<le> g \<and> g < newbrk \<longrightarrow> ev_mem ev' (g2h (ev_mmu ev) g) = 0) \<and>
      (\<forall>q. \<not> brk_area (ev_mmu ev) brk newbrk q \<longrightarrow> ev_mem ev' q = ev_mem ev q)
    \<or> rc = brk \<and> proc_brk (ev_proc ev') = brk"
proof -
  let ?p = "page_len brk" and ?m = "ev_mmu ev" and ?f = "MAP_ANON OR MAP_PRIVATE OR MAP_FIXED"
  let ?n = "newbrk - ?p"
  note P = page_len_ge [OF b(3)]
  have p0: "brk \<le> ?p" "0 < unat ?p" using P b(2) by (auto simp: word_le_nat_alt word_less_nat_alt)
  have gt: "\<not> newbrk \<le> brk" "\<not> newbrk \<le> ?p" using new p0 by auto
  obtain r ev1 where mm: "env_mmap os ?p ?n (PROT_READ OR PROT_WRITE) ?f (- 1) 0 ev = Inr (r, ev1)"
    and cont: "(if h2g (ev_mmu ev1) r \<noteq> ?p then
        (let (rc, ev2) = hcall (os_munmap os r (ucast ?n)) ev1 in Inr (brk, ev2))
      else Inr (newbrk, set_brk newbrk (ev1\<lparr>ev_mem := memset0 (g2h (ev_mmu ev1) brk) (ucast (?p - brk)) (ev_mem ev1)\<rparr>))) = (Inr (rc, ev') :: (u32 \<times> _) res)"
    using run gt b(1) by (auto simp: linux_brk_def Let_def)
  obtain m1 h1 mem1 where mu: "mmu_mmap os ?p ?n (PROT_READ OR PROT_WRITE) ?f (- 1) 0 ?m (ev_h ev, ev_mem ev) = Inr (r, m1, h1, mem1)"
    and ev1: "ev1 = ev\<lparr>ev_mmu := m1, ev_h := h1, ev_mem := mem1\<rparr>"
    using mm by (auto simp: env_mmap_def)
  have n: "unat ?n = unat newbrk - unat ?p" "unat ?n \<le> 2 ^ 32 - 4096" "0 < unat ?n"
  proof -
    show e: "unat ?n = unat newbrk - unat ?p" using new by (simp add: unat_sub word_less_nat_alt word_le_nat_alt)
    have "4096 \<le> unat ?p" using P(1) p0(2) by simp
    then show "unat ?n \<le> 2 ^ 32 - 4096" using e unsigned_less [of newbrk, where 'a = nat] by simp
    show "0 < unat ?n" using e new by (simp add: word_less_nat_alt)
  qed
  note N = page_len_ge [OF n(2)]
  have fx: "?f AND MAP_FIXED \<noteq> 0" "?f AND MAP_ANON \<noteq> 0" by (simp_all add: map_flags_def)
  have len: "page_len ?n \<noteq> 0" using N(2) n(3) by (auto simp: word_le_nat_alt)
  from mmap_fixed [OF host fx(1) len mu] fx(2)
  have post: "if r = MAP_FAILED then m1 = ?m else r = g2h ?m ?p \<and> mmu_base m1 = mmu_base ?m \<and>
      (\<forall>q. \<not> q - r < ucast (page_len ?n) \<longrightarrow> mem1 q = ev_mem ev q) \<and> (\<forall>q. q - r < ucast (page_len ?n) \<longrightarrow> mem1 q = 0)"
    by (auto split: if_splits)
  show ?thesis
  proof (cases "r = MAP_FAILED")
    case True
    have "page_len brk AND 4095 = 0" unfolding and_4095_u32 P(1) by simp
    then have "h2g (ev_mmu ev1) r \<noteq> ?p" using h2g_failed [OF base] post True ev1 by auto
    then have "rc = brk \<and> ev_proc ev' = ev_proc ev1" using cont by (auto simp: Let_def dest: hcall_keepsD split: prod.splits)
    then show ?thesis using b(1) ev1 by simp
  next
    case False
    then have r: "r = g2h ?m ?p" and bs: "mmu_base m1 = mmu_base ?m" and o: "\<And>q. \<not> q - r < ucast (page_len ?n) \<Longrightarrow> mem1 q = ev_mem ev q"
      and z: "\<And>q. q - r < ucast (page_len ?n) \<Longrightarrow> mem1 q = 0" using post by auto
    have gh: "g2h m1 = g2h ?m" "h2g m1 = h2g ?m" using bs by (simp_all add: g2h_def h2g_def fun_eq_iff)
    have e': "rc = newbrk" "ev' = set_brk newbrk (ev1\<lparr>ev_mem := memset0 (g2h ?m brk) (ucast (?p - brk)) mem1\<rparr>)"
      using cont by (auto simp: ev1 gh r)
    have "ev_mem ev' (g2h ?m g) = 0" if g: "brk \<le> g" "g < newbrk" for g
    proof (cases "g < ?p")
      case True
      then have "unat (g - brk) < unat (?p - brk)" using g(1) p0(1)
        by (simp add: unat_sub word_le_nat_alt word_less_nat_alt)
      then show ?thesis by (simp add: e'(2) set_brk_def memset0_def g2h_diff [OF g(1)] word_less_nat_alt)
    next
      case False
      then have "?p \<le> g" by simp
      moreover from this have "unat (g - ?p) < unat (page_len ?n)" using g(2) n(1) N(2)
        by (simp add: unat_sub word_le_nat_alt word_less_nat_alt)
      ultimately have "mem1 (g2h ?m g) = 0" by (intro z) (simp add: r g2h_diff word_less_nat_alt)
      then show ?thesis by (simp add: e'(2) set_brk_def memset0_def)
    qed
    moreover have "ev_mem ev' q = ev_mem ev q" if q: "\<not> brk_area ?m brk newbrk q" for q
    proof -
      define d where "d = q - g2h ?m brk"
      have ad: "unat (ucast (?p - brk) + ucast (page_len ?n) :: u64) = unat (?p - brk) + unat (page_len ?n)"
        using unsigned_less [of "?p - brk", where 'a = nat] unsigned_less [of "page_len ?n", where 'a = nat]
        by (simp add: unat_word_ariths)
      have big: "unat (?p - brk) + unat (page_len ?n) \<le> unat d"
        using q ad by (simp add: brk_area_def d_def [symmetric] word_less_nat_alt)
      have "r = g2h ?m brk + ucast (?p - brk)" using g2h_diff [OF p0(1), of ?m] by (simp add: r diff_eq_eq add.commute)
      then have "q - r = d - ucast (?p - brk)" by (simp add: d_def)
      moreover have "unat (d - ucast (?p - brk)) = unat d - unat (?p - brk)"
        using big by (subst unat_sub) (simp_all add: word_le_nat_alt)
      ultimately have "\<not> q - r < ucast (page_len ?n)" using big by (simp add: word_less_nat_alt)
      from o [OF this] show ?thesis
        using big by (simp add: e'(2) set_brk_def memset0_def d_def [symmetric] word_less_nat_alt)
    qed
    ultimately show ?thesis using e' by (simp add: set_brk_def)
  qed
qed

text \<open>
  C17. \<open>brk\<close> never lowers the break. A request at or below it returns the current break and changes nothing;
  a higher one sets the break and returns it, or fails and returns the old one. The bytes between the
  old and the new break are then zero, except when the new break is the end of the old break's page,
  and memory behind the last page of the new break and below the old break is as before. (What the
  guest has mapped in between is replaced.)
\<close>

theorem linux_brk_correct:
  assumes "host_mm_ok os mapped" "mmu_base (ev_mmu ev) AND 4095 = 0"
    and "brk = proc_brk (ev_proc ev)" "0 < brk" "unat brk \<le> 2 ^ 32 - 4096"
    and "linux_brk os newbrk ev = Inr (rc, ev')"
  shows "if newbrk \<le> brk then rc = brk \<and> ev' = ev
    else rc = newbrk \<and> proc_brk (ev_proc ev') = newbrk \<and>
        (\<forall>g. brk \<le> g \<and> g < newbrk \<and> newbrk \<noteq> page_len brk \<longrightarrow> ev_mem ev' (g2h (ev_mmu ev) g) = 0) \<and>
        (\<forall>q. \<not> brk_area (ev_mmu ev) brk newbrk q \<longrightarrow> ev_mem ev' q = ev_mem ev q)
      \<or> rc = brk \<and> proc_brk (ev_proc ev') = brk"
proof -
  consider "newbrk \<le> brk" | "brk < newbrk" "newbrk \<le> page_len brk" | "page_len brk < newbrk" "brk < newbrk"
    by force
  then show ?thesis
  proof cases
    case 1
    then show ?thesis using assms(3,6) by (auto simp: linux_brk_def)
  next
    case 2
    then have "\<not> newbrk \<le> brk" by simp
    then have e: "rc = newbrk" "ev' = set_brk newbrk (if newbrk \<noteq> page_len brk
        then ev\<lparr>ev_mem := memset0 (g2h (ev_mmu ev) brk) (ucast (newbrk - brk)) (ev_mem ev)\<rparr> else ev)"
      using 2 assms(3,6) by (auto simp: linux_brk_def Let_def)
    have "ev_mem ev' (g2h (ev_mmu ev) g) = 0" if "brk \<le> g" "g < newbrk" "newbrk \<noteq> page_len brk" for g
    proof -
      have "unat (g - brk) < unat (newbrk - brk)"
        using that(1,2) 2(1) by (simp add: unat_sub word_le_nat_alt word_less_nat_alt)
      then show ?thesis using that(3) by (simp add: e(2) set_brk_def memset0_def g2h_diff [OF that(1)] word_less_nat_alt)
    qed
    moreover have "ev_mem ev' q = ev_mem ev q" if "\<not> brk_area (ev_mmu ev) brk newbrk q" for q
      using that by (auto simp: e(2) set_brk_def memset0_def brk_area_def)
    ultimately show ?thesis using e 2 by (auto simp: set_brk_def)
  next
    case 3
    then show ?thesis using linux_brk_grow [OF assms(1-5) 3(1) assms(6)] by auto
  qed
qed

subsection \<open>Paths\<close>

text \<open>
  C36. The path that \<open>PathResolution\<close> gives for an absolute path is inside the root directory of the guest, or
  is the descriptor of the guest's executable. A relative path never resolves. Looked up from the
  working directory, with the root set from it as at start, it panics. Looked up from a descriptor, the function
  returns -1 when \<open>readlink\<close> fails; when it succeeds, the behaviour is undefined, because
  \<open>strlen\<close> is taken of a buffer without a terminator.
\<close>

theorem PathResolution_correct:
  "(PathResolution os dirfd (CHR ''/'' # path) ev = Inr (Some r) \<longrightarrow>
      take (length (fsroot (ev_proc ev))) r = fsroot (ev_proc ev) \<or> r = ''/proc/self/fd/'' @ dec_int (exe_fd (ev_proc ev))) \<and>
   (c \<noteq> CHR ''/'' \<and> os_getcwd os (ev_h ev) = Some cwd \<and> fsroot (ev_proc ev) = cwd @ ''/'' \<longrightarrow>
      PathResolution os AT_FDCWD (c # path) ev = Inl (Panic ''Malformed fsroot'')) \<and>
   (c \<noteq> CHR ''/'' \<and> dirfd \<noteq> AT_FDCWD \<longrightarrow>
      PathResolution os dirfd (c # path) ev =
        (if os_readlink os (''/proc/self/fd/'' @ dec_int dirfd) (ev_h ev) = None then Inr None else Inl Undefined))"
proof (intro conjI impI)
  assume "PathResolution os dirfd (CHR ''/'' # path) ev = Inr (Some r)"
  then show "take (length (fsroot (ev_proc ev))) r = fsroot (ev_proc ev) \<or> r = ''/proc/self/fd/'' @ dec_int (exe_fd (ev_proc ev))"
    by (auto simp: PathResolution_def path_prefix_def Let_def HandleSpecialPath_def split: if_splits option.splits)
next
  assume "c \<noteq> CHR ''/'' \<and> os_getcwd os (ev_h ev) = Some cwd \<and> fsroot (ev_proc ev) = cwd @ ''/''"
  then show "PathResolution os AT_FDCWD (c # path) ev = Inl (Panic ''Malformed fsroot'')"
    by (auto simp: PathResolution_def path_prefix_def Let_def)
next
  assume "c \<noteq> CHR ''/'' \<and> dirfd \<noteq> AT_FDCWD"
  then show "PathResolution os dirfd (c # path) ev =
      (if os_readlink os (''/proc/self/fd/'' @ dec_int dirfd) (ev_h ev) = None then Inr None else Inl Undefined)"
    by (auto simp: PathResolution_def path_prefix_def Let_def split: option.splits)
qed

subsection \<open>The outer loop\<close>

text \<open>
  One round of the loop that goes on: the guest stops at an \<open>ecall\<close> that is not an exit call, and the call
  is served with the instruction pointer behind it.
\<close>

inductive env_step ::
  "('h, 'x) sys_scheme \<Rightarrow> (exec_state \<Rightarrow> exec_state res option) \<Rightarrow> exec_state \<times> 'h env \<Rightarrow> exec_state \<times> 'h env \<Rightarrow> bool"
  for os run where
  served: "run (st\<lparr>x_mem := ev_mem ev\<rparr>) = Some (Inr st1) \<Longrightarrow> trapno (x_cpu st1) = TC_ECALL \<Longrightarrow>
    gpr (x_cpu st1) 17 \<notin> {93, 94} \<Longrightarrow>
    SyscallLinux os ((x_cpu st1)\<lparr>ip := ip (x_cpu st1) + 4\<rparr>) (ev\<lparr>ev_mem := x_mem st1\<rparr>) = Inr (cpu2, ev2) \<Longrightarrow>
    env_step os run (st, ev) (st1\<lparr>x_cpu := cpu2\<rparr>, ev2)"

inductive_cases env_stepE: "env_step os run (st, ev) y"

text \<open>
  The guest has stopped in \<open>s\<close> for good: at an exit call with argument \<open>rc\<close>, in \<open>a0\<close>, or at a breakpoint or an illegal
  instruction.
\<close>

definition guest_exits :: "cpu_state \<Rightarrow> u32 \<Rightarrow> bool" where
  "guest_exits s rc \<longleftrightarrow>
     trapno s = TC_ECALL \<and> gpr s 17 \<in> {93, 94} \<and> rc = gpr s 10 \<or>
     (trapno s = TC_EBREAK \<or> trapno s = TC_ILLEGAL_INSN) \<and> rc = 1"

text \<open>The round fails: in the execution loop, in a system call, or with a trap code that has no case.\<close>

definition guest_fails ::
  "('h, 'x) sys_scheme \<Rightarrow> (exec_state \<Rightarrow> exec_state res option) \<Rightarrow> exec_state \<Rightarrow> 'h env \<Rightarrow> fault \<Rightarrow> bool" where
  "guest_fails os run st ev e \<longleftrightarrow>
     run (st\<lparr>x_mem := ev_mem ev\<rparr>) = Some (Inl e) \<or>
     (\<exists>st1. run (st\<lparr>x_mem := ev_mem ev\<rparr>) = Some (Inr st1) \<and>
        (trapno (x_cpu st1) = TC_ECALL \<and> gpr (x_cpu st1) 17 \<notin> {93, 94} \<and>
           SyscallLinux os ((x_cpu st1)\<lparr>ip := ip (x_cpu st1) + 4\<rparr>) (ev\<lparr>ev_mem := x_mem st1\<rparr>) = Inl e \<or>
         trapno (x_cpu st1) \<in> {TC_NONE, TC_UNALIGNED_IP, TC_TERMINATED} \<and> e = AssertFail))"

lemma exit_dispatch: "dispatch os 93 a ev = linux_exit (a 0) ev" "dispatch os 94 a ev = linux_exit (a 0) ev"
proof -
  have "SyscallID x = Some (unat (93 :: u32)) \<longleftrightarrow> x = ''exit''" "SyscallID x = Some (unat (94 :: u32)) \<longleftrightarrow> x = ''exit_group''" for x
    using exit_numbers SyscallID_inj by auto
  then show "dispatch os 93 a ev = linux_exit (a 0) ev" "dispatch os 94 a ev = linux_exit (a 0) ev"
    unfolding dispatch_def Let_def by (simp_all add: linux_exit_group_def)
qed

lemma exit_call:
  assumes "gpr s 17 \<in> {93, 94}"
  obtains s' ev' where "SyscallLinux os s ev = Inr (s', ev')" "trapno s' = TC_TERMINATED" "gpr s' 10 = gpr s 10"
proof -
  obtain s' ev' where "SyscallLinux os s ev = Inr (s', ev')"
    using assms by (auto simp: SyscallLinux_def exit_dispatch linux_exit_def)
  then show thesis using SyscallLinux_spec [of os s ev s' ev'] assms that by auto
qed

lemma other_call:
  "SyscallLinux os s ev = Inr (s', ev') \<Longrightarrow> trapno s' = TC_TERMINATED \<longleftrightarrow> gpr s 17 \<in> {93, 94}"
  using SyscallLinux_spec [of os s ev s' ev'] by (auto split: if_splits)

definition guest_stops ::
  "(exec_state \<Rightarrow> exec_state res option) \<Rightarrow> exec_state \<Rightarrow> 'h env \<Rightarrow> u32 \<Rightarrow> bool" where
  "guest_stops run st ev rc \<longleftrightarrow>
     (\<exists>st1. run (st\<lparr>x_mem := ev_mem ev\<rparr>) = Some (Inr st1) \<and> guest_exits (x_cpu st1) rc)"

lemma env_round:
  obtains (runs) "\<And>n. env_loop os run (Suc n) st ev = None"
      "\<And>r. \<not> guest_stops run st ev r" "\<And>e. \<not> guest_fails os run st ev e" "\<And>y. \<not> env_step os run (st, ev) y"
  | (exits) rc st' ev' where "\<And>n. env_loop os run (Suc n) st ev = Some (Inr (rc, st', ev'))"
      "\<And>r. guest_stops run st ev r \<longleftrightarrow> r = rc" "\<And>e. \<not> guest_fails os run st ev e" "\<And>y. \<not> env_step os run (st, ev) y"
  | (fails) e where "\<And>n. env_loop os run (Suc n) st ev = Some (Inl e)"
      "\<And>r. \<not> guest_stops run st ev r" "\<And>x. guest_fails os run st ev x \<longleftrightarrow> x = e" "\<And>y. \<not> env_step os run (st, ev) y"
  | (goes_on) st' ev' where "\<And>n. env_loop os run (Suc n) st ev = env_loop os run n st' ev'"
      "\<And>r. \<not> guest_stops run st ev r" "\<And>e. \<not> guest_fails os run st ev e" "\<And>y. env_step os run (st, ev) y \<longleftrightarrow> y = (st', ev')"
proof (cases "run (st\<lparr>x_mem := ev_mem ev\<rparr>)")
  case None
  then show thesis by (intro runs) (simp_all add: guest_stops_def guest_fails_def env_step.simps [of os run "(st, ev)"])
next
  case (Some q)
  note defs = guest_stops_def guest_exits_def guest_fails_def
  note no_step = env_step.simps [of os run "(st, ev)"]
  show thesis
  proof (cases q)
    case (Inl e)
    show thesis by (rule fails [of e]) (auto simp: Some Inl defs no_step)
  next
    case (Inr st1)
    let ?cpu = "(x_cpu st1)\<lparr>ip := ip (x_cpu st1) + 4\<rparr>" and ?ev = "ev\<lparr>ev_mem := x_mem st1\<rparr>"
    show thesis
    proof (cases "trapno (x_cpu st1) = TC_ECALL")
      case ecall: True
      show thesis
      proof (cases "gpr (x_cpu st1) 17 \<in> {93, 94}")
        case True
        then obtain s' ev' where x: "SyscallLinux os ?cpu ?ev = Inr (s', ev')" "trapno s' = TC_TERMINATED" "gpr s' 10 = gpr (x_cpu st1) 10"
          using exit_call [of ?cpu os ?ev] by auto
        show thesis
          by (rule exits [of "gpr (x_cpu st1) 10" "st1\<lparr>x_cpu := s'\<rparr>" ev'])
            (use True x ecall in \<open>auto simp: Some Inr defs no_step\<close>)
      next
        case False
        show thesis
        proof (cases "SyscallLinux os ?cpu ?ev")
          case (Inl e)
          show thesis by (rule fails [of e]) (use False Inl ecall in \<open>auto simp: Some Inr defs no_step\<close>)
        next
          case (Inr sv)
          obtain s' ev' where sv: "SyscallLinux os ?cpu ?ev = Inr (s', ev')" using Inr by (cases sv) auto
          then have "trapno s' \<noteq> TC_TERMINATED" using other_call [OF sv] False by simp
          then show thesis
            by (intro goes_on [of "st1\<lparr>x_cpu := s'\<rparr>" ev'])
              (use False sv ecall in \<open>auto simp: Some \<open>q = Inr st1\<close> defs no_step\<close>)
        qed
      qed
    next
      case False
      show thesis
      proof (cases "trapno (x_cpu st1) = TC_EBREAK \<or> trapno (x_cpu st1) = TC_ILLEGAL_INSN")
        case True
        show thesis by (rule exits [of 1 st1 ?ev]) (use True in \<open>auto simp: Some Inr defs no_step\<close>)
      next
        case other: False
        then have "trapno (x_cpu st1) \<in> {TC_NONE, TC_UNALIGNED_IP, TC_TERMINATED}"
          using False by (cases "trapno (x_cpu st1)") auto
        then show thesis by (intro fails [of AssertFail]) (auto simp: Some Inr defs no_step)
      qed
    qed
  qed
qed

lemma env_stepn_Suc: "(env_step os run ^^ Suc k) x z \<longleftrightarrow> (\<exists>y. env_step os run x y \<and> (env_step os run ^^ k) y z)"
  by (metis relpowp_Suc_D2 relpowp_Suc_I2)

lemma ex_less_Suc_iff: "(\<exists>k < Suc n. P k) \<longleftrightarrow> P 0 \<or> (\<exists>k < n. P (Suc k))"
  by (metis less_Suc_eq_0_disj)

lemma env_loop_result:
  "(\<exists>st' ev'. env_loop os run n st ev = Some (Inr (rc, st', ev'))) \<longleftrightarrow>
     (\<exists>k < n. \<exists>st0 ev0. (env_step os run ^^ k) (st, ev) (st0, ev0) \<and> guest_stops run st0 ev0 rc)"
  "env_loop os run n st ev = Some (Inl e) \<longleftrightarrow>
     (\<exists>k < n. \<exists>st0 ev0. (env_step os run ^^ k) (st, ev) (st0, ev0) \<and> guest_fails os run st0 ev0 e)"
proof (induction n arbitrary: st ev)
  case (Suc n)
  {
    case 1
    show ?case
      by (rule env_round [where os = os and run = run and st = st and ev = ev])
        (auto simp: ex_less_Suc_iff env_stepn_Suc Suc.IH simp del: env_loop.simps relpowp.simps(2))
  next
    case 2
    show ?case
      by (rule env_round [where os = os and run = run and st = st and ev = ev])
        (auto simp: ex_less_Suc_iff env_stepn_Suc Suc.IH simp del: env_loop.simps relpowp.simps(2))
  }
qed simp_all

text \<open>
  C15. The outer loop returns \<open>rc\<close> exactly when, after some number of system calls that are not exit calls, each served with the
  instruction pointer behind its \<open>ecall\<close>, the guest stops at an exit call whose argument is \<open>rc\<close>, or at
  a breakpoint or an illegal instruction and \<open>rc\<close> is 1. It ends with an error exactly when after such
  calls the execution loop fails, a system call fails, or the guest stops with a trap code that has no
  case. This holds for any execution loop \<open>run\<close>; \<open>n\<close> bounds the number of rounds.
\<close>

theorem env_Execute_correct:
  "((\<exists>st' ev'. env_Execute os run n st ev = Some (Inr (rc, st', ev'))) \<longleftrightarrow>
     (\<exists>k < n. \<exists>st0 ev0 st1. (env_step os run ^^ k) (SetCurrent st, ev) (st0, ev0) \<and>
        run (st0\<lparr>x_mem := ev_mem ev0\<rparr>) = Some (Inr st1) \<and> guest_exits (x_cpu st1) rc)) \<and>
   (env_Execute os run n st ev = Some (Inl e) \<longleftrightarrow>
     (\<exists>k < n. \<exists>st0 ev0. (env_step os run ^^ k) (SetCurrent st, ev) (st0, ev0) \<and> guest_fails os run st0 ev0 e))"
  using env_loop_result [of os run n "SetCurrent st" ev] by (simp add: env_Execute_def guest_stops_def)

subsection \<open>A host for the environment\<close>

text \<open>The host of Mmu, with calls that all fail, a working directory and user 1000.\<close>

definition log_sys :: "(bool \<times> uptr \<times> u64) list sys" where
  "log_sys =
     \<lparr>os_mmap = os_mmap log_host, os_munmap = os_munmap log_host, os_errno = (\<lambda>_. 5),
      os_openat = (\<lambda>_ _ _ _ w. (- 1, w)), os_close = (\<lambda>_ w. (- 1, w)), os_lseek = (\<lambda>_ _ _ w. (- 1, w)),
      os_read = (\<lambda>_ _ _ w. (- 1, w)), os_write = (\<lambda>_ _ _ w. (- 1, w)), os_readlinkat = (\<lambda>_ _ _ _ w. (- 1, w)),
      os_fstatat = (\<lambda>_ _ _ _ w. (- 1, w)), os_set_tid_address = (\<lambda>w. ((1, 0), w)), os_uname = (\<lambda>_ w. (0, w)),
      os_getuid = (\<lambda>_. 1000), os_geteuid = (\<lambda>_. 1000), os_getgid = (\<lambda>_. 1000), os_getegid = (\<lambda>_. 1000),
      os_sysinfo = (\<lambda>w. ((0, 1, \<lambda>_. 0, 1), w)), os_mprotect = (\<lambda>_ _ _ w. (0, w)),
      os_prlimit64 = (\<lambda>_ _ _ w. ((0, 0, 0), w)), os_getrandom = (\<lambda>_ _ _ w. (- 1, w)), os_statx = (\<lambda>_ _ _ _ _ w. (- 1, w)),
      os_clock = (\<lambda>w. (1234567, w)), os_getcwd = (\<lambda>_. Some ''/home''), os_readlink = (\<lambda>_ _. None),
      os_realpath = (\<lambda>p _. Some p)\<rparr>"

lemma log_sys_sel [simp]:
  "os_mmap log_sys = os_mmap log_host" "os_munmap log_sys = os_munmap log_host" "os_getcwd log_sys = (\<lambda>_. Some ''/home'')"
  "os_realpath log_sys = (\<lambda>p _. Some p)"
  by (simp_all add: log_sys_def)

lemma log_sys_ok: "host_mm_ok log_sys log_mapped"
  using log_host_ok by (simp add: host_mm_ok_def)

definition demo_process :: "(bool \<times> uptr \<times> u64) list env" where
  "demo_process = \<lparr>ev_h = [], ev_mem = (\<lambda>_. 7), ev_mmu = init_mmu,
     ev_proc = \<lparr>fsroot = ''/home/'', exe_fd = 3, proc_brk = 0x20010\<rparr>, ev_trap = TC_NONE\<rparr>"

definition exiting_cpu :: cpu_state where
  "exiting_cpu = init_cpu\<lparr>gpr := (\<lambda>r. if r = 17 then 93 else if r = 10 then 7 else 0), trapno := TC_ECALL\<rparr>"

theorem SyscallLinux_correct_witness:
  "\<exists>s' ev'. SyscallLinux log_sys exiting_cpu demo_process = Inr (s', ev') \<and> trapno s' = TC_TERMINATED \<and> gpr s' 10 = 7"
proof -
  obtain s' ev' where r: "SyscallLinux log_sys exiting_cpu demo_process = Inr (s', ev')"
    by (simp add: SyscallLinux_def exiting_cpu_def exit_dispatch linux_exit_def)
  then show ?thesis
    using SyscallLinux_correct [of log_sys exiting_cpu demo_process s' ev'] by (auto simp: exiting_cpu_def)
qed

theorem env_Execute_correct_witness:
  "\<exists>st' ev'. env_Execute log_sys (Execute demo_emit (\<lambda>_. Inr (0, \<lambda>_ m. m)) interp_region 0 1 0) 1
       (entry_state\<lparr>x_cpu := exiting_cpu\<rparr>) demo_process = Some (Inr (7, st', ev'))"
proof -
  define run where "run = Execute demo_emit (\<lambda>_. Inr (0, \<lambda>_ m. m)) interp_region 0 1 0"
  define st where "st = entry_state\<lparr>x_cpu := exiting_cpu\<rparr>"
  have r: "run ((SetCurrent st)\<lparr>x_mem := ev_mem demo_process\<rparr>) = Some (Inr ((SetCurrent st)\<lparr>x_mem := ev_mem demo_process\<rparr>))"
    by (simp add: run_def st_def SetCurrent_def HandleTrap_def IsTrapPending_def exiting_cpu_def)
  have g: "guest_exits (x_cpu ((SetCurrent st)\<lparr>x_mem := ev_mem demo_process\<rparr>)) 7"
    by (simp add: st_def SetCurrent_def guest_exits_def exiting_cpu_def)
  have "\<exists>st' ev'. env_Execute log_sys run 1 st demo_process = Some (Inr (7, st', ev'))"
    by (rule env_Execute_correct [THEN conjunct1, THEN iffD2], rule exI [of _ 0]) (use r g in auto)
  then show ?thesis unfolding run_def st_def .
qed

theorem linux_brk_correct_witness:
  "\<exists>ev'. linux_brk log_sys 0x20100 demo_process = Inr (0x20100, ev') \<and> ev_mem ev' 0x20080 = 0 \<and> ev_mem ev' 0x2000f = 7"
proof -
  have p: "page_len 0x20010 = 0x21000" by (simp add: page_len_def roundup_def PAGE_SIZE_def)
  obtain ev' where r: "linux_brk log_sys 0x20100 demo_process = Inr (0x20100, ev')"
    by (simp add: linux_brk_def demo_process_def Let_def p)
  have "\<forall>g. 0x20010 \<le> g \<and> g < 0x20100 \<longrightarrow> ev_mem ev' (g2h init_mmu g) = 0"
    "\<forall>q. \<not> brk_area init_mmu 0x20010 0x20100 q \<longrightarrow> ev_mem ev' q = 7"
    using linux_brk_correct [OF log_sys_ok _ refl _ _ r] by (auto simp: demo_process_def p)
  from this(1) [rule_format, of "0x20080"] this(2) [rule_format, of "0x2000f"] show ?thesis
    using r by (simp add: g2h_def brk_area_def p page_len_def roundup_def PAGE_SIZE_def)
qed

theorem PathResolution_correct_witness:
  "PathResolution log_sys AT_FDCWD ''/etc'' demo_process = Inr (Some ''/home///etc'') \<and>
   take 6 ''/home///etc'' = ''/home/'' \<and>
   PathResolution log_sys AT_FDCWD ''etc'' demo_process = Inl (Panic ''Malformed fsroot'') \<and>
   PathResolution log_sys 4 ''etc'' demo_process = Inr None"
proof -
  have "PathResolution log_sys AT_FDCWD ''/etc'' demo_process = Inr (Some ''/home///etc'')"
    by (simp add: PathResolution_def path_prefix_def Let_def demo_process_def PATH_MAX_def HandleSpecialPath_def)
  moreover have "(4 :: u32) \<noteq> AT_FDCWD" by (simp add: AT_FDCWD_def)
  ultimately show ?thesis
    using PathResolution_correct [of log_sys AT_FDCWD "''etc''" demo_process "''/home///etc''" "CHR ''e''" "''/home''"]
      PathResolution_correct [of log_sys 4 "''tc''" demo_process "''/home///etc''" "CHR ''e''" "''/home''"]
    by (auto simp: demo_process_def dec_int_def log_sys_def)
qed

end
