(* ===== verification/Elf.thy ===== *)
theory Elf
  imports Env_Correct
begin

section \<open>Starting the guest: the loader of env.cpp, main.cpp\<close>

text \<open>
  How the guest's executable is mapped, its stack made and filled with arguments, environment and
  auxiliary vector, and its first thread set up.
\<close>

subsection \<open>Files\<close>

text \<open>
  \<open>os_open path flags\<close>, \<open>os_pread fd n offs\<close> (the bytes that were read, none on error), \<open>os_chdir\<close>, and
  \<open>sysconf(_SC_CLK_TCK)\<close>.
\<close>

record 'h boot = "'h sys" +
  os_open :: "string \<Rightarrow> u32 \<Rightarrow> 'h world \<Rightarrow> u32 \<times> 'h world"
  os_pread :: "u32 \<Rightarrow> nat \<Rightarrow> u64 \<Rightarrow> 'h world \<Rightarrow> u8 list \<times> 'h world"
  os_chdir :: "string \<Rightarrow> 'h world \<Rightarrow> u32 \<times> 'h world"
  os_clk_tck :: "'h \<Rightarrow> u64"

text \<open>The members of \<open>Elf32_Ehdr\<close> and \<open>Elf32_Phdr\<close> that are used, at their offsets in the file.\<close>

record elf_ehdr =
  e_ident :: "u8 list"
  e_type :: u16
  e_machine :: u16
  e_entry :: u32
  e_phoff :: u32
  e_phnum :: u16

record elf_phdr =
  p_type :: u32
  p_offset :: u32
  p_vaddr :: u32
  p_filesz :: u32
  p_memsz :: u32
  p_flags :: u32

definition le16 :: "u8 list \<Rightarrow> nat \<Rightarrow> u16" where
  "le16 bs i = ucast (bs ! i) OR push_bit 8 (ucast (bs ! (i + 1)))"

definition le32 :: "u8 list \<Rightarrow> nat \<Rightarrow> u32" where
  "le32 bs i = ucast (bs ! i) OR push_bit 8 (ucast (bs ! (i + 1))) OR push_bit 16 (ucast (bs ! (i + 2)))
     OR push_bit 24 (ucast (bs ! (i + 3)))"

definition sizeof_Ehdr :: nat where "sizeof_Ehdr = 52"
definition sizeof_Phdr :: nat where "sizeof_Phdr = 32"

definition ehdr_of :: "u8 list \<Rightarrow> elf_ehdr" where
  "ehdr_of bs = \<lparr>e_ident = take 16 bs, e_type = le16 bs 16, e_machine = le16 bs 18, e_entry = le32 bs 24,
     e_phoff = le32 bs 28, e_phnum = le16 bs 44\<rparr>"

definition phdr_of :: "u8 list \<Rightarrow> nat \<Rightarrow> elf_phdr" where
  "phdr_of bs i = (let b = sizeof_Phdr * i in
     \<lparr>p_type = le32 bs b, p_offset = le32 bs (b + 4), p_vaddr = le32 bs (b + 8), p_filesz = le32 bs (b + 16),
      p_memsz = le32 bs (b + 20), p_flags = le32 bs (b + 24)\<rparr>)"

record elf_image =
  el_ehdr :: elf_ehdr
  load_addr :: u32
  stack_start :: u32
  el_entry :: u32
  el_brk :: u32

subsection \<open>Segments\<close>

definition EM_RISCV :: u16 where "EM_RISCV = 243"
definition ET_EXEC :: u16 where "ET_EXEC = 2"
definition PT_LOAD :: u32 where "PT_LOAD = 1"

definition seg_prot :: "u32 \<Rightarrow> u32" where
  "seg_prot flags =
     (if flags AND 4 \<noteq> 0 then PROT_READ else 0) OR (if flags AND 2 \<noteq> 0 then PROT_WRITE else 0)
       OR (if flags AND 1 \<noteq> 0 then PROT_EXEC else 0)"

text \<open>The memory of one segment. The results of \<open>mmu::mmap\<close> are not looked at.\<close>

definition map_segment :: "('h, 'x) sys_scheme \<Rightarrow> u32 \<Rightarrow> elf_phdr \<Rightarrow> 'h env \<Rightarrow> 'h env res" where
  "map_segment os fd phdr ev =
     (let prot = seg_prot (p_flags phdr); vaddr = p_vaddr phdr;
          vaddr_ps = rounddown vaddr PAGE_SIZE; vaddr_po = vaddr - vaddr_ps in
      if p_filesz phdr \<noteq> 0 then
        let len = page_len (p_filesz phdr + vaddr_po) in
        rbind (env_mmap os vaddr_ps len prot (MAP_FIXED OR MAP_PRIVATE) fd (ucast (p_offset phdr - vaddr_po)) ev) (\<lambda>(r1, ev1).
          if p_memsz phdr > p_filesz phdr then
            let bss_start = vaddr + p_filesz phdr; bss_end = vaddr_ps + p_memsz phdr;
                bss_start_nextp = roundup bss_start PAGE_SIZE;
                bss_len = roundup (bss_end - bss_start) PAGE_SIZE in
            rbind (env_mmap os bss_start_nextp bss_len prot (MAP_FIXED OR MAP_PRIVATE OR MAP_ANON) (- 1) 0 ev1) (\<lambda>(r2, ev2).
              let prev_sz = bss_start_nextp - bss_start in
              Inr (if prev_sz \<noteq> 0
                then ev2\<lparr>ev_mem := memset0 (g2h (ev_mmu ev2) bss_start) (ucast prev_sz) (ev_mem ev2)\<rparr> else ev2))
          else Inr ev1)
      else if p_memsz phdr \<noteq> 0 then
        let len = roundup (p_memsz phdr + vaddr_po) PAGE_SIZE in
        rbind (env_mmap os vaddr_ps len prot (MAP_FIXED OR MAP_PRIVATE OR MAP_ANON) (- 1) 0 ev) (\<lambda>(r1, ev1). Inr ev1)
      else Inr ev)"

definition load_segment ::
  "('h, 'x) sys_scheme \<Rightarrow> u32 \<Rightarrow> elf_phdr \<Rightarrow> elf_image \<times> 'h env \<Rightarrow> (elf_image \<times> 'h env) res" where
  "load_segment os fd phdr st =
     (if p_type phdr \<noteq> PT_LOAD then Inr st
      else rbind (map_segment os fd phdr (snd st)) (\<lambda>ev.
        Inr ((fst st)\<lparr>load_addr := min (load_addr (fst st)) (p_vaddr phdr - p_offset phdr),
          el_brk := max (el_brk (fst st)) (p_vaddr phdr + p_memsz phdr)\<rparr>, ev)))"

definition ELF_MAGIC :: "u8 list" where "ELF_MAGIC = [0x7f, 0x45, 0x4c, 0x46]"

definition LoadElf :: "('h, 'x) boot_scheme \<Rightarrow> u32 \<Rightarrow> elf_image \<times> 'h env \<Rightarrow> (elf_image \<times> 'h env) res" where
  "LoadElf os fd st =
     (let (bs, ev1) = hcall (os_pread os fd sizeof_Ehdr 0) (snd st) in
      if length bs \<noteq> sizeof_Ehdr then Inl (Panic ''Cannot read ELF header'')
      else
        let ehdr = ehdr_of bs in
        if take 4 (e_ident ehdr) \<noteq> ELF_MAGIC then Inl (Panic ''It is not ELF'')
        else if e_machine ehdr \<noteq> EM_RISCV then Inl (Panic ''ELF's machine does not match'')
        else if e_type ehdr \<noteq> ET_EXEC then Inl (Panic ''Unuspported ELF type'')
        else
          let phtab_sz = sizeof_Phdr * unat (e_phnum ehdr);
              (pt, ev2) = hcall (os_pread os fd phtab_sz (ucast (e_phoff ehdr))) ev1 in
          if length pt \<noteq> phtab_sz then Inl (Panic ''Cannot read phtab'')
          else rfold (load_segment os fd) (map (phdr_of pt) [0 ..< unat (e_phnum ehdr)])
            ((fst st)\<lparr>el_ehdr := ehdr, load_addr := - 1, el_brk := 0, el_entry := e_entry ehdr\<rparr>, ev2))"

subsection \<open>Boot\<close>

text \<open>\<open>dirname\<close> of the C library.\<close>

definition dirname :: "string \<Rightarrow> string" where
  "dirname path =
     (let strip = (\<lambda>r. dropWhile (\<lambda>c. c = CHR ''/'') r); r1 = strip (rev path);
          r2 = dropWhile (\<lambda>c. c \<noteq> CHR ''/'') r1; r3 = strip r2 in
      if path = [] \<or> r2 = [] \<and> r1 \<noteq> [] then ''.'' else if r3 = [] then ''/'' else rev r3)"

definition stk_size :: u32 where "stk_size = ucast (MB 8)"

definition BootElf :: "('h, 'x) boot_scheme \<Rightarrow> string \<Rightarrow> elf_image \<times> 'h env \<Rightarrow> (elf_image \<times> 'h env) res" where
  "BootElf os path st =
     (let (fd, ev1) = hcall (os_open os path 0) (snd st) in
      if sint fd < 0 then Inl (Panic ''No such ELF file'')
      else if PATH_MAX \<le> length path then Inl Undefined
      else
        let (rc, ev2) = hcall (os_chdir os (dirname path)) ev1 in
        rbind (LoadElf os fd (fst st, ev2)) (\<lambda>(elf, ev3).
        let ev4 = ev3\<lparr>ev_proc := (ev_proc ev3)\<lparr>exe_fd := fd, proc_brk := el_brk elf\<rparr>\<rparr> in
        rbind (env_mmap os (ucast (ASPACE_SIZE - ucast PAGE_SIZE - ucast stk_size)) stk_size (PROT_READ OR PROT_WRITE)
            (MAP_ANON OR MAP_PRIVATE OR MAP_FIXED) (- 1) 0 ev4) (\<lambda>(stk_ptr, ev5).
          Inr (elf\<lparr>stack_start := h2g (ev_mmu ev5) stk_ptr + stk_size\<rparr>, ev5))))"

subsection \<open>Arguments\<close>

text \<open>The size is an \<open>u16\<close>.\<close>

definition AllocArgVectorStr :: "u32 \<Rightarrow> u8 list \<Rightarrow> 'h env \<Rightarrow> u32 \<times> 'h env" where
  "AllocArgVectorStr stk str ev =
     (let sz = of_nat (length str) :: u16; stk' = stk - ucast sz in
      (stk', ev\<lparr>ev_mem := memcpy_bytes (g2h (ev_mmu ev) stk') (take (unat sz) str) (ev_mem ev)\<rparr>))"

primrec alloc_argv :: "string list \<Rightarrow> u32 \<Rightarrow> 'h env \<Rightarrow> u32 list \<times> u32 \<times> 'h env" where
  "alloc_argv [] stk ev = ([], stk, ev)"
| "alloc_argv (s # ss) stk ev =
     (let (stk1, ev1) = AllocArgVectorStr stk (cstr_bytes s) ev; (gs, stk2, ev2) = alloc_argv ss stk1 ev1
      in (stk1 # gs, stk2, ev2))"

text \<open>\<open>push_arg\<close> on a sequence of words.\<close>

primrec push_args :: "u32 list \<Rightarrow> u32 \<Rightarrow> 'h env \<Rightarrow> 'h env" where
  "push_args [] vec ev = ev"
| "push_args (v # vs) vec ev =
     push_args vs (vec + 4) (ev\<lparr>ev_mem := unaligned_store32 (ev_mem ev) (g2h (ev_mmu ev) vec) v\<rparr>)"

definition auxv_salt :: "u8 list" where
  "auxv_salt = [0, 1, 2, 3, 4, 5, 6] @ replicate 9 0"

definition auxv :: "('h, 'x) boot_scheme \<Rightarrow> elf_image \<Rightarrow> u32 \<Rightarrow> u32 \<Rightarrow> 'h \<Rightarrow> (u32 \<times> u32) list" where
  "auxv os elf salt foo h =
     [(3, e_phoff (el_ehdr elf) + load_addr elf), (4, of_nat sizeof_Phdr), (5, ucast (e_phnum (el_ehdr elf))),
      (6, PAGE_SIZE), (7, 0), (8, 0), (9, el_entry elf),
      (11, os_getuid os h), (12, os_geteuid os h), (13, os_getgid os h), (14, os_getegid os h),
      (16, 0), (17, ucast (os_clk_tck os h)), (23, 0), (25, salt), (31, foo), (0, 0)]"

definition InitArgVectors ::
  "('h, 'x) boot_scheme \<Rightarrow> string list \<Rightarrow> elf_image \<times> 'h env \<Rightarrow> (elf_image \<times> 'h env) res" where
  "InitArgVectors os argv st =
     (let elf = fst st; argv_n = of_nat (length argv) :: u32;
          (foo_str_g, ev1) = AllocArgVectorStr (stack_start elf) (cstr_bytes ''__foo_str__'') (snd st);
          (lc_all_str_g, ev2) = AllocArgVectorStr foo_str_g (cstr_bytes ''LC_ALL=C'') ev1;
          (auxv_salt_g, ev3) = AllocArgVectorStr lc_all_str_g auxv_salt ev2;
          (argv_strings_g, stk1, ev4) = alloc_argv argv auxv_salt_g ev3;
          stk2 = stk1 AND - 4;
          envp_n = 1; auxv_n = 64; stk_vsz = argv_n + envp_n + auxv_n + 3;
          stk = (stk2 - stk_vsz * 4) AND - 16;
          argc_p = stk; argv_p = argc_p + 4; envp_p = argv_p + 4 * (argv_n + 1); auxv_p = envp_p + 4 * (envp_n + 1);
          ev5 = push_args [argv_n] argc_p ev4;
          ev6 = push_args (argv_strings_g @ [0]) argv_p ev5;
          ev7 = push_args [lc_all_str_g, 0] envp_p ev6;
          ev8 = push_args (concat (map (\<lambda>(i, v). [i, v]) (auxv os elf auxv_salt_g foo_str_g (ev_h ev7)))) auxv_p ev7
      in case os_getcwd os (ev_h ev8) of
           None \<Rightarrow> Inl Undefined
         | Some cwd \<Rightarrow>
             Inr (elf\<lparr>stack_start := stk\<rparr>, ev8\<lparr>ev_proc := (ev_proc ev8)\<lparr>fsroot := cwd @ ''/''\<rparr>\<rparr>))"

definition InitThread :: "cpu_state \<Rightarrow> elf_image \<Rightarrow> cpu_state res" where
  "InitThread s elf =
     (if stack_start elf AND 15 \<noteq> 0 then Inl AssertFail
      else Inr (s\<lparr>gpr := (gpr s)(2 := stack_start elf), ip := el_entry elf\<rparr>))"

end
