(* ===== verification/Elf_Stack.thy ===== *)
theory Elf_Stack
  imports Elf
begin

section \<open>The guest's initial stack\<close>

text \<open>
  The guest's memory as bytes at offsets, and what \<open>InitArgVectors\<close> writes there: the strings, and below
  them the vectors of words that point to them.
\<close>

subsection \<open>Guest memory as bytes at offsets\<close>

definition off :: "mmu \<Rightarrow> uptr \<Rightarrow> nat" where
  "off m q = unat (q - mmu_base m)"

text \<open>The bytes at a guest address, and that only offsets between two bounds were written.\<close>

definition holds :: "mmu \<Rightarrow> mem \<Rightarrow> u32 \<Rightarrow> u8 list \<Rightarrow> bool" where
  "holds m mem p bs \<longleftrightarrow> (\<forall>i < length bs. mem (g2h m p + of_nat i) = bs ! i)"

definition only :: "mmu \<Rightarrow> mem \<Rightarrow> mem \<Rightarrow> nat \<Rightarrow> nat \<Rightarrow> bool" where
  "only m mem mem' lo hi \<longleftrightarrow> (\<forall>q. \<not> (lo \<le> off m q \<and> off m q < hi) \<longrightarrow> mem' q = mem q)"

lemma only_refl [simp]: "only m mem mem lo hi"
  by (simp add: only_def)

lemma only_trans:
  assumes "only m a b lo hi" "only m b c lo' hi'" "lo'' \<le> lo" "lo'' \<le> lo'" "hi \<le> hi''" "hi' \<le> hi''"
  shows "only m a c lo'' hi''"
  unfolding only_def
proof (intro allI impI)
  fix q assume "\<not> (lo'' \<le> off m q \<and> off m q < hi'')"
  then have "\<not> (lo \<le> off m q \<and> off m q < hi)" "\<not> (lo' \<le> off m q \<and> off m q < hi')" using assms(3-6) by linarith+
  then show "c q = a q" using assms(1,2) by (simp add: only_def)
qed

lemma off_g2h:
  assumes "i \<le> 2 ^ 32"
  shows "off m (g2h m p + of_nat i) = unat p + i"
proof -
  have i: "unat (of_nat i :: u64) = i" using assms by (simp add: unat_of_nat)
  have "unat (ucast p + of_nat i :: u64) = unat p + i"
    using assms i unsigned_less [of p, where 'a = nat] by (simp add: unat_word_ariths)
  then show ?thesis by (simp add: off_def g2h_def)
qed

lemma holds_only:
  assumes "holds m mem p bs" "only m mem mem' lo hi" "length bs \<le> 2 ^ 32" "unat p + length bs \<le> lo \<or> hi \<le> unat p"
  shows "holds m mem' p bs"
  unfolding holds_def
proof (intro allI impI)
  fix i assume i: "i < length bs"
  then have "off m (g2h m p + of_nat i) = unat p + i" using assms(3) by (intro off_g2h) simp
  then have "\<not> (lo \<le> off m (g2h m p + of_nat i) \<and> off m (g2h m p + of_nat i) < hi)" using i assms(4) by linarith
  then show "mem' (g2h m p + of_nat i) = bs ! i" using assms(1,2) i by (simp add: holds_def only_def)
qed

lemma holds_append: "holds m mem p (bs @ cs) \<Longrightarrow> holds m mem p bs"
  by (auto simp: holds_def nth_append)

lemma holds_memcpy:
  assumes "length bs \<le> 2 ^ 32"
  shows "holds m (memcpy_bytes (g2h m p) bs mem) p bs"
proof -
  have "unat (of_nat i :: u64) = i" if "i < length bs" for i using that assms by (simp add: unat_of_nat)
  then show ?thesis by (simp add: holds_def memcpy_bytes_def)
qed

lemma only_memcpy:
  assumes "unat p + length bs \<le> 2 ^ 32"
  shows "only m mem (memcpy_bytes (g2h m p) bs mem) (unat p) (unat p + length bs)"
  unfolding only_def
proof (intro allI impI)
  fix q assume out: "\<not> (unat p \<le> off m q \<and> off m q < unat p + length bs)"
  have e: "q - g2h m p = (q - mmu_base m) - ucast p" by (simp add: g2h_def)
  have "\<not> unat (q - g2h m p) < length bs"
  proof (cases "unat p \<le> off m q")
    case True
    then show ?thesis using out unfolding e by (simp add: unat_sub word_le_nat_alt off_def)
  next
    case False
    then have "unat (q - g2h m p) = off m q + 2 ^ 64 - unat p"
      unfolding e using unat_sub_if' [of "q - mmu_base m" "ucast p"] by (simp add: off_def)
    then show ?thesis using assms by simp
  qed
  then show "memcpy_bytes (g2h m p) bs mem q = mem q" by (simp add: memcpy_bytes_def)
qed

subsection \<open>Words\<close>

definition bytes4 :: "u32 \<Rightarrow> u8 list" where
  "bytes4 w = [ucast w, ucast (drop_bit 8 w), ucast (drop_bit 16 w), ucast (drop_bit 24 w)]"

lemma store32_memcpy: "unaligned_store32 mem a w = memcpy_bytes a (bytes4 w) mem"
proof
  fix q
  have "q = a + of_nat (unat (q - a))" by simp
  then show "unaligned_store32 mem a w q = memcpy_bytes a (bytes4 w) mem q"
  proof (cases "unat (q - a) < 4")
    case True
    then consider "unat (q - a) = 0" | "unat (q - a) = 1" | "unat (q - a) = 2" | "unat (q - a) = 3" by linarith
    then show ?thesis
    proof cases
      case 1
      then have "q = a" by (simp add: unat_eq_0)
      then show ?thesis by (simp add: unaligned_store32_def memcpy_bytes_def bytes4_def)
    next
      case 2
      then have "q - a = 1" by (simp add: word_unat_eq_iff)
      then have "q = a + 1" by (simp add: diff_eq_eq add.commute)
      then show ?thesis by (simp add: unaligned_store32_def memcpy_bytes_def bytes4_def)
    next
      case 3
      then have "q - a = 2" by (simp add: word_unat_eq_iff)
      then have "q = a + 2" by (simp add: diff_eq_eq add.commute)
      then show ?thesis by (simp add: unaligned_store32_def memcpy_bytes_def bytes4_def)
    next
      case 4
      then have "q - a = 3" by (simp add: word_unat_eq_iff)
      then have "q = a + 3" by (simp add: diff_eq_eq add.commute)
      then show ?thesis by (simp add: unaligned_store32_def memcpy_bytes_def bytes4_def)
    qed
  next
    case False
    then have "q \<noteq> a + k" if "unat k < 4" for k using that by auto
    from this [of 0] this [of 1] this [of 2] this [of 3] False show ?thesis
      by (simp add: unaligned_store32_def memcpy_bytes_def bytes4_def)
  qed
qed

lemma memcpy_append:
  assumes "length bs + length cs \<le> 2 ^ 32"
  shows "memcpy_bytes (a + of_nat (length bs)) cs (memcpy_bytes a bs mem) = memcpy_bytes a (bs @ cs) mem"
proof
  fix q
  let ?n = "length bs"
  have n: "unat (of_nat ?n :: u64) = ?n" using assms by (simp add: unat_of_nat)
  have e: "q - (a + of_nat ?n) = (q - a) - of_nat ?n" by simp
  show "memcpy_bytes (a + of_nat ?n) cs (memcpy_bytes a bs mem) q = memcpy_bytes a (bs @ cs) mem q"
  proof (cases "?n \<le> unat (q - a)")
    case True
    then have "unat (q - (a + of_nat ?n)) = unat (q - a) - ?n" unfolding e by (simp add: unat_sub word_le_nat_alt n)
    then show ?thesis using True by (auto simp: memcpy_bytes_def nth_append)
  next
    case False
    then have "unat (q - (a + of_nat ?n)) = unat (q - a) + 2 ^ 64 - ?n"
      unfolding e using unat_sub_if' [of "q - a" "of_nat ?n"] n by simp
    then have "\<not> unat (q - (a + of_nat ?n)) < length cs" using assms by simp
    then show ?thesis using False by (simp add: memcpy_bytes_def nth_append)
  qed
qed

lemma push_args_keeps [simp]:
  "ev_h (push_args ws p ev) = ev_h ev" "ev_mmu (push_args ws p ev) = ev_mmu ev" "ev_proc (push_args ws p ev) = ev_proc ev"
  "ev_trap (push_args ws p ev) = ev_trap ev"
  by (induction ws arbitrary: p ev) simp_all

lemma push_args_append: "push_args (xs @ ys) p ev = push_args ys (p + 4 * of_nat (length xs)) (push_args xs p ev)"
  by (induction xs arbitrary: p ev) (simp_all add: algebra_simps)

lemma length_words [simp]: "length (concat (map bytes4 ws)) = 4 * length ws"
  by (induction ws) (simp_all add: bytes4_def)

lemma push_args_mem:
  assumes "unat p + 4 * length ws \<le> 2 ^ 32"
  shows "ev_mem (push_args ws p ev) = memcpy_bytes (g2h (ev_mmu ev) p) (concat (map bytes4 ws)) (ev_mem ev)"
  using assms
proof (induction ws arbitrary: p ev)
  case Nil
  then show ?case by (simp add: memcpy_bytes_def)
next
  case (Cons w ws)
  show ?case
  proof (cases "ws = []")
    case True
    then show ?thesis by (simp add: store32_memcpy)
  next
    case False
    then have "1 \<le> length ws" by (cases ws) auto
    then have p: "unat (p + 4) = unat p + 4" using Cons.prems by (simp add: unat_word_ariths)
    then have "(ucast (p + 4) :: u64) = ucast p + 4"
      using unsigned_less [of p, where 'a = nat] by (simp only: word_unat_eq_iff unat_ucast_u32) (simp add: unat_word_ariths)
    then have g: "g2h m (p + 4) = g2h m p + 4" for m by (simp add: g2h_def add.assoc)
    have a: "memcpy_bytes (g2h m p + 4) cs (memcpy_bytes (g2h m p) (bytes4 w) mem) = memcpy_bytes (g2h m p) (bytes4 w @ cs) mem"
      if "length cs \<le> 2 ^ 32 - 4" for m cs mem
      using memcpy_append [of "bytes4 w" cs "g2h m p" mem] that by (simp add: bytes4_def)
    show ?thesis using Cons.IH [of "p + 4"] Cons.prems p by (simp add: g store32_memcpy a)
  qed
qed

subsection \<open>Strings\<close>

lemma AllocArgVectorStr_spec:
  assumes "length bs < 2 ^ 16" "length bs \<le> unat stk" "AllocArgVectorStr stk bs ev = (p, ev')"
  shows "unat p = unat stk - length bs" "holds (ev_mmu ev) (ev_mem ev') p bs" "ev' = ev\<lparr>ev_mem := ev_mem ev'\<rparr>"
    "only (ev_mmu ev) (ev_mem ev) (ev_mem ev') (unat stk - length bs) (unat stk)"
proof -
  have n: "unat (of_nat (length bs) :: u16) = length bs" using assms(1) by (simp add: unat_of_nat)
  then have l: "unat (ucast (of_nat (length bs) :: u16) :: u32) = length bs"
    using assms(1) by (simp add: unsigned_ucast_eq take_bit_nat_eq_self)
  have p: "p = stk - ucast (of_nat (length bs) :: u16)"
    and ev': "ev' = ev\<lparr>ev_mem := memcpy_bytes (g2h (ev_mmu ev) p) bs (ev_mem ev)\<rparr>"
    using assms(3) n by (auto simp: AllocArgVectorStr_def Let_def)
  show up: "unat p = unat stk - length bs" unfolding p using assms(2) l by (simp add: unat_sub word_le_nat_alt)
  show "holds (ev_mmu ev) (ev_mem ev') p bs" using holds_memcpy [of bs] assms(1) by (simp add: ev')
  show "ev' = ev\<lparr>ev_mem := ev_mem ev'\<rparr>" by (simp add: ev')
  have "unat p + length bs = unat stk" using up assms(2) by simp
  then show "only (ev_mmu ev) (ev_mem ev) (ev_mem ev') (unat stk - length bs) (unat stk)"
    using only_memcpy [of p bs] up unsigned_less [of stk, where 'a = nat] by (simp add: ev')
qed

definition strs_size :: "string list \<Rightarrow> nat" where
  "strs_size ss = sum_list (map (\<lambda>s. length s + 1) ss)"

lemma alloc_argv_spec:
  assumes "\<forall>s \<in> set ss. length s < 65535" "strs_size ss \<le> unat stk" "alloc_argv ss stk ev = (gs, stk', ev')"
  shows "length gs = length ss \<and> unat stk' = unat stk - strs_size ss \<and> ev' = ev\<lparr>ev_mem := ev_mem ev'\<rparr> \<and>
    only (ev_mmu ev) (ev_mem ev) (ev_mem ev') (unat stk') (unat stk) \<and>
    (\<forall>i < length ss. holds (ev_mmu ev) (ev_mem ev') (gs ! i) (cstr_bytes (ss ! i)) \<and> unat stk' \<le> unat (gs ! i))"
  using assms
proof (induction ss arbitrary: stk ev gs)
  case Nil
  then show ?case by (simp add: strs_size_def)
next
  case (Cons s ss)
  obtain p ev1 where a: "AllocArgVectorStr stk (cstr_bytes s) ev = (p, ev1)" by fastforce
  obtain gs1 where r: "alloc_argv ss p ev1 = (gs1, stk', ev')" and gs: "gs = p # gs1"
    using Cons.prems(3) a by (auto simp: Let_def split: prod.splits)
  have sz: "length (cstr_bytes s) = length s + 1" by (simp add: cstr_bytes_def)
  have z: "strs_size (s # ss) = length s + 1 + strs_size ss" by (simp add: strs_size_def)
  note A = AllocArgVectorStr_spec [OF _ _ a, unfolded sz]
  have s1: "length s + 1 < 2 ^ 16" "length s + 1 \<le> unat stk" using Cons.prems(1,2) z by auto
  note B = A [OF s1]
  have I: "length gs1 = length ss \<and> unat stk' = unat p - strs_size ss \<and> ev' = ev1\<lparr>ev_mem := ev_mem ev'\<rparr> \<and>
      only (ev_mmu ev1) (ev_mem ev1) (ev_mem ev') (unat stk') (unat p) \<and>
      (\<forall>i < length ss. holds (ev_mmu ev1) (ev_mem ev') (gs1 ! i) (cstr_bytes (ss ! i)) \<and> unat stk' \<le> unat (gs1 ! i))"
    by (rule Cons.IH [OF _ _ r]) (use Cons.prems B(1) z in auto)
  obtain x where e1: "ev1 = ev\<lparr>ev_mem := x\<rparr>" using B(3) by blast
  obtain y where e2: "ev' = ev1\<lparr>ev_mem := y\<rparr>" using I by blast
  have m: "ev_mmu ev1 = ev_mmu ev" by (simp add: e1)
  have h: "holds (ev_mmu ev) (ev_mem ev') p (cstr_bytes s)"
    by (rule holds_only [OF B(2)]) (use I m s1 sz in auto)
  have o: "only (ev_mmu ev) (ev_mem ev) (ev_mem ev') (unat stk') (unat stk)"
    by (rule only_trans [OF B(4), of "ev_mem ev'" "unat stk'" "unat p"]) (use I m B(1) in auto)
  have e: "ev' = ev\<lparr>ev_mem := ev_mem ev'\<rparr>" by (simp add: e2 e1)
  have l: "length gs = length (s # ss)" "unat stk' = unat stk - strs_size (s # ss)" using I gs B(1) z by simp_all
  have "holds (ev_mmu ev) (ev_mem ev') (gs ! i) (cstr_bytes ((s # ss) ! i)) \<and> unat stk' \<le> unat (gs ! i)"
    if "i < length (s # ss)" for i
    using that I h m B(1) unfolding gs by (cases i) auto
  then show ?case using e l o by blast
qed

subsection \<open>The whole stack\<close>

lemma and_neg: "unat (w AND - 4 :: u32) = unat w div 4 * 4" "unat (w AND - 16 :: u32) = unat w div 16 * 16"
proof -
  have e: "w AND NOT (mask n) = push_bit n (drop_bit n w)" for n
    by (rule bit_word_eqI) (auto simp: bit_simps)
  have w: "unat w < 2 ^ 32" using unsigned_less [of w, where 'a = nat] by simp
  have l: "unat w div 4 * 4 < 2 ^ 32" "unat w div 16 * 16 < 2 ^ 32"
    using div_times_less_eq_dividend [of "unat w" 4] div_times_less_eq_dividend [of "unat w" 16] w by linarith+
  have "w AND - 4 = w div 4 * 4" "w AND - 16 = w div 16 * 16"
    using e [of 2] e [of 4] by (simp_all add: push_bit_eq_mult drop_bit_eq_div mask_eq_exp_minus_1)
  then show "unat (w AND - 4) = unat w div 4 * 4" "unat (w AND - 16) = unat w div 16 * 16"
    using l by (simp_all add: unat_word_ariths unat_div_distrib)
qed

text \<open>The words from the stack pointer on.\<close>

definition arg_words :: "('h, 'x) boot_scheme \<Rightarrow> elf_image \<Rightarrow> 'h \<Rightarrow> u32 list \<Rightarrow> u32 \<Rightarrow> u32 \<Rightarrow> u32 \<Rightarrow> u32 list" where
  "arg_words os elf h gs lc salt foo =
     [of_nat (length gs)] @ gs @ [0] @ [lc, 0] @ concat (map (\<lambda>(i, v). [i, v]) (auxv os elf salt foo h))"

lemma length_arg_words: "length (arg_words os elf h gs lc salt foo) = length gs + 38"
  by (simp add: arg_words_def auxv_def)

lemma push_all:
  assumes "length gs = length argv"
  shows "push_args (concat (map (\<lambda>(i, v). [i, v]) (auxv os elf salt foo h))) (p + 4 + 4 * (of_nat (length argv) + 1) + 4 * (1 + 1))
      (push_args [lc, 0] (p + 4 + 4 * (of_nat (length argv) + 1))
        (push_args (gs @ [0]) (p + 4) (push_args [of_nat (length argv)] p ev))) =
    push_args (arg_words os elf h gs lc salt foo) p ev"
  unfolding arg_words_def append_assoc push_args_append [of "[of_nat (length gs)]"]
  unfolding append_assoc [of gs, symmetric] push_args_append [of "gs @ [0]"] push_args_append [of "[lc, 0]"]
  using assms by (simp add: algebra_simps)

lemma InitArgVectors_layout:
  assumes fit: "strs_size argv + 4 * length argv + 328 \<le> unat (stack_start elf)" and short: "\<forall>s \<in> set argv. length s < 65535"
    and cwd: "os_getcwd os (ev_h ev) = Some cwd"
  shows "\<exists>sp gs foo lc salt ev'. InitArgVectors os argv (elf, ev) = Inr (elf\<lparr>stack_start := sp\<rparr>, ev') \<and>
    sp AND 15 = 0 \<and> length gs = length argv \<and>
    holds (ev_mmu ev) (ev_mem ev') sp (concat (map bytes4 (arg_words os elf (ev_h ev) gs lc salt foo))) \<and>
    (\<forall>i < length argv. holds (ev_mmu ev) (ev_mem ev') (gs ! i) (cstr_bytes (argv ! i))) \<and>
    holds (ev_mmu ev) (ev_mem ev') lc (cstr_bytes ''LC_ALL=C'') \<and> holds (ev_mmu ev) (ev_mem ev') salt auxv_salt \<and>
    holds (ev_mmu ev) (ev_mem ev') foo (cstr_bytes ''__foo_str__'') \<and>
    only (ev_mmu ev) (ev_mem ev) (ev_mem ev') (unat sp) (unat (stack_start elf)) \<and>
    unat (stack_start elf) \<le> unat sp + strs_size argv + 4 * length argv + 328 \<and>
    ev' = ev\<lparr>ev_mem := ev_mem ev', ev_proc := (ev_proc ev)\<lparr>fsroot := cwd @ ''/''\<rparr>\<rparr>"
proof -
  let ?m = "ev_mmu ev" and ?s0 = "stack_start elf" and ?n = "length argv"
  obtain foo ev1 where a1: "AllocArgVectorStr ?s0 (cstr_bytes ''__foo_str__'') ev = (foo, ev1)" by fastforce
  obtain lc ev2 where a2: "AllocArgVectorStr foo (cstr_bytes ''LC_ALL=C'') ev1 = (lc, ev2)" by fastforce
  obtain salt ev3 where a3: "AllocArgVectorStr lc auxv_salt ev2 = (salt, ev3)" by fastforce
  obtain gs stk ev4 where a4: "alloc_argv argv salt ev3 = (gs, stk, ev4)" using prod_cases3 by blast
  have len: "length (cstr_bytes ''__foo_str__'') = 12" "length (cstr_bytes ''LC_ALL=C'') = 9" "length auxv_salt = 16"
    by (simp_all add: cstr_bytes_def auxv_salt_def)
  have s0: "unat ?s0 < 2 ^ 32" using unsigned_less [of ?s0, where 'a = nat] by simp
  have c: "(12 :: nat) < 2 ^ 16" "(9 :: nat) < 2 ^ 16" "(16 :: nat) < 2 ^ 16" by simp_all
  have f1: "12 \<le> unat ?s0" using fit by linarith
  note A1 = AllocArgVectorStr_spec [OF _ _ a1, unfolded len, OF c(1) f1]
  have p1: "unat foo = unat ?s0 - 12" by (rule A1(1))
  have f2: "9 \<le> unat foo" using fit p1 by linarith
  note A2 = AllocArgVectorStr_spec [OF _ _ a2, unfolded len, OF c(2) f2]
  have p2: "unat lc = unat foo - 9" by (rule A2(1))
  have f3: "16 \<le> unat lc" using fit p1 p2 by linarith
  note A3 = AllocArgVectorStr_spec [OF _ _ a3, unfolded len, OF c(3) f3]
  have p3: "unat salt = unat lc - 16" by (rule A3(1))
  have f4: "strs_size argv \<le> unat salt" using fit p1 p2 p3 by simp
  note A4 = alloc_argv_spec [OF short f4 a4]
  obtain x1 where e1: "ev1 = ev\<lparr>ev_mem := x1\<rparr>" using A1(3) by blast
  obtain x2 where e2: "ev2 = ev1\<lparr>ev_mem := x2\<rparr>" using A2(3) by blast
  obtain x3 where e3: "ev3 = ev2\<lparr>ev_mem := x3\<rparr>" using A3(3) by blast
  obtain x4 where e4: "ev4 = ev3\<lparr>ev_mem := x4\<rparr>" using A4 by blast
  have mm: "ev_mmu ev1 = ?m" "ev_mmu ev2 = ?m" "ev_mmu ev3 = ?m" "ev_mmu ev4 = ?m" "ev_h ev4 = ev_h ev"
    by (simp_all add: e1 e2 e3 e4)
  have st: "unat stk = unat ?s0 - 37 - strs_size argv" using A4 p1 p2 p3 by simp
  define k where "k = (of_nat ?n + 1 + 64 + 3 :: u32) * 4"
  have n32: "?n < 2 ^ 30" using fit s0 by simp
  have n68: "4 * ?n + 272 < 2 ^ 32" using fit s0 by simp
  have uk: "unat k = 4 * (?n + 68)" unfolding k_def using n32 n68 by (simp add: unat_word_ariths unat_of_nat)
  define sp where "sp = ((stk AND - 4) - k) AND - 16"
  have b: "unat stk - 3 \<le> unat (stk AND - 4)" "unat (stk AND - 4) \<le> unat stk" unfolding and_neg by simp_all
  then have d: "unat ((stk AND - 4) - k) = unat (stk AND - 4) - unat k"
    using fit st uk by (simp add: unat_sub word_le_nat_alt)
  have sp: "unat sp \<le> unat (stk AND - 4) - unat k" "unat sp mod 16 = 0" unfolding sp_def and_neg d by simp_all
  have room: "unat sp + 4 * (?n + 38) \<le> unat stk"
  proof -
    have "unat stk + 37 + strs_size argv = unat ?s0" using st fit by linarith
    then have "unat k + 3 \<le> unat stk" using fit unfolding uk by simp
    then have "unat sp + unat k \<le> unat stk" using sp(1) b by simp
    then show ?thesis unfolding uk by simp
  qed
  have low: "unat ?s0 \<le> unat sp + strs_size argv + 4 * ?n + 328"
  proof -
    have "unat (stk AND - 4) - unat k \<le> unat sp + 15" unfolding sp_def and_neg(2) d by simp
    then have "unat (stk AND - 4) \<le> unat sp + 15 + unat k" by simp
    moreover have "unat stk \<le> unat (stk AND - 4) + 3" using b(1) by simp
    moreover have "unat stk + 37 + strs_size argv = unat ?s0" using st fit by linarith
    ultimately show ?thesis unfolding uk by simp
  qed
  have al: "sp AND 15 = 0"
  proof -
    have "sp AND 15 = take_bit 4 sp" by (simp add: take_bit_eq_mask mask_eq_exp_minus_1)
    then show ?thesis using sp(2) by (simp add: word_unat_eq_iff take_bit_eq_mod unat_mod_distrib)
  qed
  define ws where "ws = arg_words os elf (ev_h ev) gs lc salt foo"
  have lw: "length ws = ?n + 38" using A4 by (simp add: ws_def length_arg_words)
  define ev5 where "ev5 = push_args ws sp ev4"
  have mem5: "ev_mem ev5 = memcpy_bytes (g2h ?m sp) (concat (map bytes4 ws)) (ev_mem ev4)"
    unfolding ev5_def using push_args_mem [of sp ws ev4] room lw st s0 mm by simp
  have o5: "only ?m (ev_mem ev4) (ev_mem ev5) (unat sp) (unat sp + 4 * (?n + 38))"
    unfolding mem5 using only_memcpy [of sp "concat (map bytes4 ws)" ?m "ev_mem ev4"] room lw st s0 by simp
  have run: "InitArgVectors os argv (elf, ev) =
      Inr (elf\<lparr>stack_start := sp\<rparr>, ev5\<lparr>ev_proc := (ev_proc ev5)\<lparr>fsroot := cwd @ ''/''\<rparr>\<rparr>)"
  proof -
    have lg: "length gs = ?n" using A4 by simp
    have "push_args (concat (map (\<lambda>(i, v). [i, v]) (auxv os elf salt foo (ev_h ev)))) (sp + 4 + 4 * (of_nat ?n + 1) + 4 * (1 + 1))
      (push_args [lc, 0] (sp + 4 + 4 * (of_nat ?n + 1)) (push_args (gs @ [0]) (sp + 4) (push_args [of_nat ?n] sp ev4))) = ev5"
      unfolding ev5_def ws_def by (rule push_all [OF lg])
    then show ?thesis
      unfolding InitArgVectors_def Let_def fst_conv snd_conv a1 a2 a3 a4 prod.case push_args_keeps mm
      by (simp only: sp_def [symmetric] k_def [symmetric]) (simp add: ev5_def mm cwd)
  qed
  have o4: "only ?m (ev_mem ev3) (ev_mem ev4) (unat stk) (unat salt)" using A4 unfolding mm by blast
  have up: "only ?m (ev_mem ev4) (ev_mem ev5) (unat sp) (unat stk)"
    by (rule only_trans [OF o5 only_refl]) (use room in auto)
  have up3: "only ?m (ev_mem ev3) (ev_mem ev5) (unat sp) (unat salt)"
    by (rule only_trans [OF o4 up]) (use room st p1 p2 p3 f4 in auto)
  have up2: "only ?m (ev_mem ev2) (ev_mem ev5) (unat sp) (unat lc)"
    by (rule only_trans [OF A3(4) [unfolded mm] up3]) (use room st p1 p2 p3 f3 in auto)
  have up1: "only ?m (ev_mem ev1) (ev_mem ev5) (unat sp) (unat foo)"
    by (rule only_trans [OF A2(4) [unfolded mm] up2]) (use room st p1 p2 p3 f2 f3 in auto)
  have up0: "only ?m (ev_mem ev) (ev_mem ev5) (unat sp) (unat ?s0)"
    by (rule only_trans [OF A1(4) up1]) (use room st p1 p2 p3 f1 f2 in auto)
  have "holds ?m (ev_mem ev5) foo (cstr_bytes ''__foo_str__'')" by (rule holds_only [OF A1(2) up1]) (simp_all add: len)
  moreover have "holds ?m (ev_mem ev5) lc (cstr_bytes ''LC_ALL=C'')"
    by (rule holds_only [OF A2(2) [unfolded mm] up2]) (simp_all add: len)
  moreover have "holds ?m (ev_mem ev5) salt auxv_salt" by (rule holds_only [OF A3(2) [unfolded mm] up3]) (simp_all add: len)
  moreover have "holds ?m (ev_mem ev5) (gs ! i) (cstr_bytes (argv ! i))" if i: "i < ?n" for i
  proof (rule holds_only [OF _ up])
    show "holds ?m (ev_mem ev4) (gs ! i) (cstr_bytes (argv ! i))" "unat (gs ! i) + length (cstr_bytes (argv ! i)) \<le> unat sp \<or> unat stk \<le> unat (gs ! i)"
      using A4 i unfolding mm by blast+
    have "length (argv ! i) < 65535" using short i by simp
    then show "length (cstr_bytes (argv ! i)) \<le> 2 ^ 32" by (simp add: cstr_bytes_def)
  qed
  moreover have "holds ?m (ev_mem ev5) sp (concat (map bytes4 ws))"
    unfolding mem5 by (rule holds_memcpy) (use lw n68 in simp)
  moreover have "ev5\<lparr>ev_proc := (ev_proc ev5)\<lparr>fsroot := cwd @ ''/''\<rparr>\<rparr> = ev\<lparr>ev_mem := ev_mem ev5, ev_proc := (ev_proc ev)\<lparr>fsroot := cwd @ ''/''\<rparr>\<rparr>"
    by (rule env.equality) (simp_all add: ev5_def mm e1 e2 e3 e4)
  ultimately show ?thesis using run al A4 up0 low unfolding ws_def
    by (intro exI [of _ sp] exI [of _ gs] exI [of _ foo] exI [of _ lc] exI [of _ salt]
        exI [of _ "ev5\<lparr>ev_proc := (ev_proc ev5)\<lparr>fsroot := cwd @ ''/''\<rparr>\<rparr>"]) simp
qed

end
