(* ===== verification/Elf_Correct.thy ===== *)
theory Elf_Correct
  imports Elf_Stack
begin

section \<open>The loader is correct\<close>

text \<open>
  Mappings at fixed addresses, segments, and files of segments, with the properties of the loader and of
  the argument vectors. At the end is a host that serves one file, for the witnesses.
\<close>

subsection \<open>Mapping at fixed addresses\<close>

text \<open>
  A host that has memory for every mapping of anonymous pages or of the file \<open>fd\<close> at a fixed address,
  whose mappings of the file show its bytes, and that reads the file without other effect.
\<close>

definition serves_file :: "('h, 'x) host_scheme \<Rightarrow> u32 \<Rightarrow> u8 list \<Rightarrow> bool" where
  "serves_file os fd file \<longleftrightarrow>
     (\<forall>a len prot flags d offs w. 0 < len \<and> len AND 4095 = 0 \<and> a AND 4095 = 0 \<and> a \<le> a + (len - 1) \<and>
        flags AND MAP_FIXED \<noteq> 0 \<and> offs AND 4095 = 0 \<and> (flags AND MAP_ANON \<noteq> 0 \<or> d = fd) \<longrightarrow>
        (case os_mmap os a len prot flags d offs w of (r, h, mem) \<Rightarrow> r \<noteq> MAP_FAILED \<and>
          (flags AND MAP_ANON = 0 \<longrightarrow> (\<forall>q. q - a < len \<and> unat offs + unat (q - a) < length file \<longrightarrow>
             mem q = file ! (unat offs + unat (q - a))))))"

definition reads_file :: "('h, 'x) boot_scheme \<Rightarrow> u32 \<Rightarrow> u8 list \<Rightarrow> bool" where
  "reads_file os fd file \<longleftrightarrow> (\<forall>n offs w. os_pread os fd n offs w = (take n (drop (unat offs) file), w))"

definition window_ok :: "mmu \<Rightarrow> bool" where
  "window_ok m \<longleftrightarrow> mmu_base m AND 4095 = 0 \<and> unat (mmu_base m) + 2 ^ 32 \<le> 2 ^ 64"

lemma page_len_multiple: "4096 dvd unat len \<Longrightarrow> page_len len = len"
proof -
  assume d: "4096 dvd unat len"
  then obtain k where k: "unat len = 4096 * k" by blast
  then have "(unat len + 4095) div 4096 * 4096 = unat len" by simp
  then have "unat (page_len len) = unat len" using unsigned_less [of len, where 'a = nat] by (simp add: unat_page_len)
  then show ?thesis by (simp add: word_unat_eq_iff)
qed

lemma area_off:
  assumes "unat v + unat len \<le> 2 ^ 32" "len \<noteq> 0"
  shows "q - g2h m v < ucast (len :: u32) \<longleftrightarrow> unat v \<le> off m q \<and> off m q < unat v + unat len"
    "unat v \<le> off m q \<Longrightarrow> unat (q - g2h m v) = off m q - unat v"
proof -
  have e: "q - g2h m v = (q - mmu_base m) - ucast v" by (simp add: g2h_def)
  show d: "unat (q - g2h m v) = off m q - unat v" if "unat v \<le> off m q"
    unfolding e using that by (simp add: unat_sub word_le_nat_alt off_def)
  show "q - g2h m v < ucast (len :: u32) \<longleftrightarrow> unat v \<le> off m q \<and> off m q < unat v + unat len"
  proof (cases "unat v \<le> off m q")
    case True
    then show ?thesis using d by (simp add: word_less_nat_alt) linarith
  next
    case False
    then have "unat (q - g2h m v) = off m q + 2 ^ 64 - unat v"
      unfolding e using unat_sub_if' [of "q - mmu_base m" "ucast v"] by (simp add: off_def)
    then show ?thesis using False assms(1) by (simp add: word_less_nat_alt)
  qed
qed

text \<open>What a mapping at \<open>v, len\<close> does to the guest's memory.\<close>

definition maps_at ::
  "('h \<Rightarrow> uptr \<Rightarrow> bool) \<Rightarrow> u8 list \<Rightarrow> nat \<Rightarrow> nat \<Rightarrow> bool \<Rightarrow> nat \<Rightarrow> 'h env \<Rightarrow> 'h env \<Rightarrow> bool" where
  "maps_at mapped file v len anon offs ev ev' \<longleftrightarrow>
     (let m = ev_mmu ev; area = (\<lambda>q. v \<le> off m q \<and> off m q < v + len) in
      mmu_base (ev_mmu ev') = mmu_base m \<and> (\<forall>q. mapped (ev_h ev') q \<longleftrightarrow> mapped (ev_h ev) q \<or> area q) \<and>
      (\<forall>q. \<not> area q \<longrightarrow> ev_mem ev' q = ev_mem ev q) \<and> (\<forall>q. anon \<and> area q \<longrightarrow> ev_mem ev' q = 0) \<and>
      (\<forall>q. \<not> anon \<and> area q \<and> offs + (off m q - v) < length file \<longrightarrow> ev_mem ev' q = file ! (offs + (off m q - v))))"

lemma env_mmap_fixed_at:
  assumes host: "host_mm_ok os mapped" "serves_file os fd file" and win: "window_ok (ev_mmu ev)" and fl: "flags AND MAP_FIXED \<noteq> 0"
    and d: "flags AND MAP_ANON \<noteq> 0 \<or> d = fd" "offs AND 4095 = 0"
    and v: "4096 dvd unat v" and len: "4096 dvd unat len" "unat v + unat len \<le> 2 ^ 32" "0 < unat v + unat len"
  shows "\<exists>r ev'. env_mmap os v len prot flags d offs ev = Inr (r, ev') \<and> (len \<noteq> 0 \<longrightarrow> r = g2h (ev_mmu ev) v) \<and>
    maps_at mapped file (unat v) (unat len) (flags AND MAP_ANON \<noteq> 0) (unat offs) ev ev'"
proof -
  let ?m = "ev_mmu ev" and ?w = "(ev_h ev, ev_mem ev)"
  have pl: "page_len len = len" by (rule page_len_multiple [OF len(1)])
  have "unat (ucast v + ucast len :: u64) = unat v + unat len"
    using len(2) by (simp add: unat_word_ariths)
  then have "unat (ucast v + ucast len - 1 :: u64) = unat v + unat len - 1"
    using len(3) by (subst unat_minus_one) auto
  then have asrt: "(ucast v + ucast len - 1 :: u64) < ASPACE_SIZE"
    using len(2,3) by (simp add: word_less_nat_alt unat_aspace)
  obtain r h1 m1 where o: "os_mmap os (g2h ?m v) (ucast len) prot flags d offs ?w = (r, h1, m1)" using prod_cases3 by blast
  show ?thesis
  proof (cases "len = 0")
    case True
    from o True os_mmap_zero [OF host(1), of "g2h ?m v" prot flags d offs ?w] have
      z: "r = MAP_FAILED" "mapped h1 = mapped (ev_h ev)" "m1 = ev_mem ev" by auto
    have "env_mmap os v len prot flags d offs ev = Inr (MAP_FAILED, ev\<lparr>ev_h := h1, ev_mem := m1\<rparr>)"
      using asrt fl o z(1) True by (simp add: env_mmap_def mmu_mmap_def Let_def roundup_def PAGE_SIZE_def)
    then show ?thesis using True z by (auto simp: maps_at_def Let_def)
  next
    case False
    have l64: "0 < (ucast len :: u64)" "(ucast len :: u64) AND 4095 = 0"
      using False len(1) by (simp_all add: word_less_nat_alt and_4095 unat_gt_0)
    have ub: "unat (g2h ?m v) = unat (mmu_base ?m) + unat v"
      using win len(2) False unat_gt_0 [of len] by (simp add: g2h_def window_ok_def unat_word_ariths)
    then have al: "g2h ?m v AND 4095 = 0" using win v by (simp add: and_4095 window_ok_def)
    have l1: "unat (ucast len - 1 :: u64) = unat len - 1" using False by (subst unat_minus_one) (auto simp: ucast_0_u32)
    have "unat (mmu_base ?m) + (unat v + unat len) \<le> 2 ^ 64" using win len(2) unfolding window_ok_def by linarith
    then have "unat (mmu_base ?m) + unat v + (unat len - 1) < 2 ^ 64" using False unat_gt_0 [of len] by linarith
    then have nw: "g2h ?m v \<le> g2h ?m v + (ucast len - 1)" unfolding no_olen_add_nat ub l1 by simp
    have "case os_mmap os (g2h ?m v) (ucast len) prot flags d offs ?w of (r, h, mem) \<Rightarrow> r \<noteq> MAP_FAILED \<and>
          (flags AND MAP_ANON = 0 \<longrightarrow> (\<forall>q. q - g2h ?m v < ucast len \<and> unat offs + unat (q - g2h ?m v) < length file \<longrightarrow>
             mem q = file ! (unat offs + unat (q - g2h ?m v))))"
      by (rule host(2) [unfolded serves_file_def, rule_format]) (use l64 al nw fl d in auto)
    then have nf: "r \<noteq> MAP_FAILED" and fb: "flags AND MAP_ANON = 0 \<Longrightarrow> q - g2h ?m v < ucast len \<Longrightarrow>
      unat offs + unat (q - g2h ?m v) < length file \<Longrightarrow> m1 q = file ! (unat offs + unat (q - g2h ?m v))" for q
      unfolding o by auto
    from os_mmap_post [OF host(1) l64 o] nf fl have
      post: "r = g2h ?m v" "\<forall>q. mapped h1 q \<longleftrightarrow> mapped (ev_h ev) q \<or> q - r < ucast len"
        "\<forall>q. \<not> q - r < ucast len \<longrightarrow> m1 q = ev_mem ev q" "flags AND MAP_ANON \<noteq> 0 \<longrightarrow> (\<forall>q. q - r < ucast len \<longrightarrow> m1 q = 0)"
      by (simp_all add: mmap_post_def)
    obtain m' where m': "MarkUsedPages (drop_bit 12 v) (drop_bit 12 len) ?m = Inr m'" "mmu_base m' = mmu_base ?m"
      using MarkUsedPages_page_len [of "drop_bit 12 v" len ?m] unfolding pl by blast
    have "env_mmap os v len prot flags d offs ev = Inr (r, ev\<lparr>ev_mmu := m', ev_h := h1, ev_mem := m1\<rparr>)"
      using asrt fl o nf m'(1) by (simp add: env_mmap_def mmu_mmap_def Let_def pl page_len_def [symmetric] PAGE_BITS_def)
    then show ?thesis
      using post m'(2) fb area_off [OF len(2) False, where m = ?m] by (auto simp: maps_at_def Let_def)
  qed
qed

lemma env_mmap_fixed:
  assumes "host_mm_ok os mapped" "serves_file os fd file" "window_ok (ev_mmu ev)" "flags AND MAP_FIXED \<noteq> 0"
    and "flags AND MAP_ANON \<noteq> 0 \<or> d = fd" "offs AND 4095 = 0"
    and "4096 dvd unat v" "4096 dvd unat len" "unat v + unat len \<le> 2 ^ 32" "0 < unat v + unat len"
  shows "\<exists>r ev'. env_mmap os v len prot flags d offs ev = Inr (r, ev') \<and>
    maps_at mapped file (unat v) (unat len) (flags AND MAP_ANON \<noteq> 0) (unat offs) ev ev'"
  using env_mmap_fixed_at [OF assms] by blast

subsection \<open>Segments\<close>

lemma unat_roundup_page:
  assumes "unat x + 4095 < 2 ^ 32"
  shows "unat (roundup x PAGE_SIZE) = (unat x + 4095) div 4096 * 4096"
  using unat_roundup [of PAGE_SIZE x] assms by (simp add: PAGE_SIZE_def)

lemma roundup_page_wrap:
  assumes "2 ^ 32 \<le> unat x + 4095"
  shows "roundup x PAGE_SIZE = (0 :: u32)"
proof -
  have "unat (x + 4095) = unat x + 4095 - 2 ^ 32"
    using assms unsigned_less [of x, where 'a = nat] by (simp add: unat_word_ariths mod_if)
  then have "unat (x + 4095) < 4096" using unsigned_less [of x, where 'a = nat] by simp
  then have "(x + 4095) div 4096 = 0" by (simp add: word_unat_eq_iff unat_div_distrib)
  then show ?thesis by (simp add: roundup_def PAGE_SIZE_def)
qed

lemma roundup_bounds: "x \<le> (x + 4095) div 4096 * (4096 :: nat)" "(x + 4095) div 4096 * 4096 < x + (4096 :: nat)"
  "4096 dvd (x + 4095) div 4096 * (4096 :: nat)"
  by simp_all

lemma pages_add: "(k * 4096 + y) div 4096 * 4096 = k * 4096 + y div 4096 * (4096 :: nat)"
  by (simp add: algebra_simps)

lemma window_base: "mmu_base m' = mmu_base m \<Longrightarrow> window_ok m' = window_ok m" "mmu_base m' = mmu_base m \<Longrightarrow> off m' = off m"
  "mmu_base m' = mmu_base m \<Longrightarrow> g2h m' = g2h m"
  by (simp_all add: window_ok_def off_def g2h_def fun_eq_iff)

lemma rounddown_page: "unat (rounddown v PAGE_SIZE) = unat v div 4096 * 4096" "unat (v - rounddown v PAGE_SIZE) = unat v mod 4096"
proof -
  show u: "unat (rounddown v PAGE_SIZE) = unat v div 4096 * 4096" by (simp add: unat_rounddown PAGE_SIZE_def)
  then have "rounddown v PAGE_SIZE \<le> v" by (simp add: word_le_nat_alt)
  then show "unat (v - rounddown v PAGE_SIZE) = unat v mod 4096"
    using u by (simp add: unat_sub minus_div_mult_eq_mod)
qed

text \<open>
  The rest of the file's last page is at least as long as the part of the first page before the
  segment. Otherwise the length of the zeroed part comes out too small.
\<close>

definition bss_fits :: "elf_phdr \<Rightarrow> bool" where
  "bss_fits ph \<longleftrightarrow> unat (p_vaddr ph) mod 4096 \<le>
     (unat (p_vaddr ph) + unat (p_filesz ph) + 4095) div 4096 * 4096 - (unat (p_vaddr ph) + unat (p_filesz ph))"

text \<open>
  What a segment may ask for: it lies below the last pages, has a file part inside the file whose
  position in its page is the one in memory, and the memory part behind it fits as above.
\<close>

definition segment_ok :: "u8 list \<Rightarrow> elf_phdr \<Rightarrow> bool" where
  "segment_ok file ph \<longleftrightarrow>
     unat (p_vaddr ph) + unat (p_memsz ph) + 8192 \<le> 2 ^ 32 \<and> p_filesz ph \<le> p_memsz ph \<and> 0 < p_memsz ph \<and>
     (p_filesz ph \<noteq> 0 \<longrightarrow> unat (p_offset ph) mod 4096 = unat (p_vaddr ph) mod 4096 \<and>
        unat (p_offset ph) + unat (p_filesz ph) \<le> length file) \<and>
     (p_filesz ph \<noteq> 0 \<and> p_filesz ph < p_memsz ph \<longrightarrow> bss_fits ph)"

text \<open>
  The segment is in memory: all its bytes are mapped, the first ones are those of the file and the
  rest are zero. And a change of memory that keeps what is outside the pages from \<open>lo\<close> to \<open>hi\<close>.
\<close>

definition segment_at :: "('h \<Rightarrow> uptr \<Rightarrow> bool) \<Rightarrow> u8 list \<Rightarrow> mmu \<Rightarrow> elf_phdr \<Rightarrow> 'h env \<Rightarrow> bool" where
  "segment_at mapped file m ph ev \<longleftrightarrow>
     (let v = unat (p_vaddr ph); fs = unat (p_filesz ph); ms = unat (p_memsz ph) in
      (\<forall>q. v \<le> off m q \<and> off m q < v + ms \<longrightarrow> mapped (ev_h ev) q) \<and>
      (\<forall>q. v \<le> off m q \<and> off m q < v + fs \<longrightarrow> ev_mem ev q = file ! (unat (p_offset ph) + (off m q - v))) \<and>
      (\<forall>q. v + fs \<le> off m q \<and> off m q < v + ms \<longrightarrow> ev_mem ev q = 0))"

definition keeps_outside :: "('h \<Rightarrow> uptr \<Rightarrow> bool) \<Rightarrow> nat \<Rightarrow> nat \<Rightarrow> 'h env \<Rightarrow> 'h env \<Rightarrow> bool" where
  "keeps_outside mapped lo hi ev ev' \<longleftrightarrow>
     mmu_base (ev_mmu ev') = mmu_base (ev_mmu ev) \<and> (\<forall>q. mapped (ev_h ev) q \<longrightarrow> mapped (ev_h ev') q) \<and>
     only (ev_mmu ev) (ev_mem ev) (ev_mem ev') lo hi"

definition segment_lo :: "elf_phdr \<Rightarrow> nat" where "segment_lo ph = unat (p_vaddr ph) div 4096 * 4096"
definition segment_hi :: "elf_phdr \<Rightarrow> nat" where "segment_hi ph = unat (p_vaddr ph) + unat (p_memsz ph) + 8192"

lemma map_segment_anon:
  assumes host: "host_mm_ok os mapped" "serves_file os fd file" and win: "window_ok (ev_mmu ev)"
    and ok: "segment_ok file ph" and sz: "p_filesz ph = 0"
  shows "\<exists>ev'. map_segment os fd ph ev = Inr ev' \<and> segment_at mapped file (ev_mmu ev) ph ev' \<and>
    keeps_outside mapped (segment_lo ph) (segment_hi ph) ev ev'"
proof -
  let ?v = "unat (p_vaddr ph)" and ?ms = "unat (p_memsz ph)"
  let ?ps = "rounddown (p_vaddr ph) PAGE_SIZE"
  let ?x = "p_memsz ph + (p_vaddr ph - ?ps)" and ?fl = "MAP_FIXED OR MAP_PRIVATE OR MAP_ANON"
  let ?len = "roundup ?x PAGE_SIZE"
  have b: "0 < ?ms" "?v + ?ms + 8192 \<le> 2 ^ 32" using ok by (simp_all add: segment_ok_def word_less_nat_alt)
  have x: "unat ?x = ?ms + ?v mod 4096" using b(2) rounddown_page(2) [of "p_vaddr ph"] by (simp add: unat_word_ariths)
  have po: "?v mod 4096 < 4096" "?v div 4096 * 4096 + ?v mod 4096 = ?v" by simp_all
  have l: "unat ?len = (unat ?x + 4095) div 4096 * 4096"
    by (rule unat_roundup_page) (use x b(2) po in linarith)
  note B = roundup_bounds [of "unat ?x"]
  have fit: "unat ?ps + unat ?len \<le> ?v + ?ms + 4096"
    using B(2) x po unfolding l rounddown_page by linarith
  have ex: "\<exists>r ev'. env_mmap os ?ps ?len (seg_prot (p_flags ph)) ?fl (- 1) 0 ev = Inr (r, ev') \<and>
      maps_at mapped file (unat ?ps) (unat ?len) (?fl AND MAP_ANON \<noteq> 0) (unat (0 :: u64)) ev ev'"
  proof (rule env_mmap_fixed [OF host win])
    show "4096 dvd unat ?ps" "4096 dvd unat ?len" unfolding l rounddown_page by simp_all
    show "unat ?ps + unat ?len \<le> 2 ^ 32" using fit b(2) by linarith
    show "0 < unat ?ps + unat ?len" using B(1) x b(1) unfolding l by linarith
  qed (simp_all add: map_flags_def)
  then obtain r ev' where e: "env_mmap os ?ps ?len (seg_prot (p_flags ph)) ?fl (- 1) 0 ev = Inr (r, ev')"
    and at: "maps_at mapped file (unat ?ps) (unat ?len) True 0 ev ev'"
    by (auto simp: map_flags_def)
  have run: "map_segment os fd ph ev = Inr ev'"
    using e sz b(1) by (simp add: map_segment_def Let_def unat_gt_0)
  have cov: "unat ?ps \<le> i \<and> i < unat ?ps + unat ?len" if "?v \<le> i" "i < ?v + ?ms" for i
    using that B(1) x po unfolding l rounddown_page by linarith
  have out: "\<not> (unat ?ps \<le> i \<and> i < unat ?ps + unat ?len)" if "\<not> (segment_lo ph \<le> i \<and> i < segment_hi ph)" for i
    using that fit unfolding segment_lo_def segment_hi_def rounddown_page by linarith
  show ?thesis using run at cov out sz unfolding maps_at_def Let_def
    by (intro exI [of _ ev']) (auto simp: segment_at_def keeps_outside_def only_def Let_def)
qed

lemma map_file_part:
  assumes host: "host_mm_ok os mapped" "serves_file os fd file" and win: "window_ok (ev_mmu ev)"
    and ok: "segment_ok file ph" and sz: "p_filesz ph \<noteq> 0"
  defines "ps \<equiv> rounddown (p_vaddr ph) PAGE_SIZE"
  defines "nx \<equiv> (unat (p_vaddr ph) + unat (p_filesz ph) + 4095) div 4096 * 4096"
  shows "\<exists>r ev'. env_mmap os ps (page_len (p_filesz ph + (p_vaddr ph - ps))) prot (MAP_FIXED OR MAP_PRIVATE) fd
      (ucast (p_offset ph - (p_vaddr ph - ps))) ev = Inr (r, ev') \<and>
    maps_at mapped file (unat ps) (nx - unat ps) False (unat (p_offset ph) - unat (p_vaddr ph) mod 4096) ev ev'"
proof -
  let ?v = "unat (p_vaddr ph)" and ?fs = "unat (p_filesz ph)" and ?ms = "unat (p_memsz ph)"
  let ?x = "p_filesz ph + (p_vaddr ph - ps)" and ?offs = "ucast (p_offset ph - (p_vaddr ph - ps)) :: u64"
  have b: "0 < ?fs" "?fs \<le> ?ms" "?v + ?ms + 8192 \<le> 2 ^ 32" "unat (p_offset ph) mod 4096 = ?v mod 4096"
    using ok sz by (simp_all add: segment_ok_def word_le_nat_alt unat_gt_0)
  have ps: "unat ps = ?v div 4096 * 4096" "unat (p_vaddr ph - ps) = ?v mod 4096" unfolding ps_def by (rule rounddown_page)+
  have x: "unat ?x = ?fs + ?v mod 4096" using b(2,3) ps(2) by (simp add: unat_word_ariths)
  have po: "?v mod 4096 < 4096" "?v div 4096 * 4096 + ?v mod 4096 = ?v" by simp_all
  have "nx = (?v div 4096 * 4096 + (unat ?x + 4095)) div 4096 * 4096" unfolding nx_def x using po(2) by (simp add: algebra_simps)
  also have "\<dots> = ?v div 4096 * 4096 + (unat ?x + 4095) div 4096 * 4096" by (rule pages_add)
  finally have nx: "nx = unat ps + (unat ?x + 4095) div 4096 * 4096" unfolding ps .
  note B = roundup_bounds [of "unat ?x"] roundup_bounds [of "?v + ?fs"]
  have "(unat ?x + 4095) div 4096 * 4096 < 2 ^ 32" using B(2) x po b(2,3) by linarith
  then have l: "unat (page_len ?x) = (unat ?x + 4095) div 4096 * 4096" by (simp add: unat_page_len)
  then have len: "unat (page_len ?x) = nx - unat ps" using nx by simp
  have le: "?v mod 4096 \<le> unat (p_offset ph)" using b(4) mod_less_eq_dividend [of "unat (p_offset ph)" 4096] by simp
  then have uo: "unat ?offs = unat (p_offset ph) - ?v mod 4096" using ps(2) by (simp add: unat_sub word_le_nat_alt)
  have "4096 dvd unat (p_offset ph) - ?v mod 4096" unfolding b(4) [symmetric] by simp
  then have al: "?offs AND 4095 = 0" unfolding and_4095 uo .
  have ex: "\<exists>r ev'. env_mmap os ps (page_len ?x) prot (MAP_FIXED OR MAP_PRIVATE) fd ?offs ev = Inr (r, ev') \<and>
      maps_at mapped file (unat ps) (unat (page_len ?x)) ((MAP_FIXED OR MAP_PRIVATE) AND MAP_ANON \<noteq> 0) (unat ?offs) ev ev'"
  proof (rule env_mmap_fixed [OF host win _ _ al])
    show "4096 dvd unat ps" "4096 dvd unat (page_len ?x)" unfolding l ps by simp_all
    show "unat ps + unat (page_len ?x) \<le> 2 ^ 32" using nx l B(5) b(2,3) unfolding nx_def by linarith
    show "0 < unat ps + unat (page_len ?x)" using B(1) x b(1) unfolding l by linarith
  qed (simp_all add: map_flags_def)
  then show ?thesis unfolding len uo by (simp add: map_flags_def)
qed

text \<open>The zeroed part behind the file: anonymous pages, and the rest of the file's last page.\<close>

lemma bss_length:
  assumes ok: "segment_ok file ph" and sz: "p_filesz ph \<noteq> 0" "p_filesz ph < p_memsz ph"
  defines "bl \<equiv> roundup (rounddown (p_vaddr ph) PAGE_SIZE + p_memsz ph - (p_vaddr ph + p_filesz ph)) PAGE_SIZE"
  defines "nx \<equiv> (unat (p_vaddr ph) + unat (p_filesz ph) + 4095) div 4096 * 4096"
  shows "4096 dvd unat bl" "unat (p_vaddr ph) + unat (p_memsz ph) \<le> nx + unat bl" "nx + unat bl \<le> segment_hi ph"
proof -
  let ?v = "unat (p_vaddr ph)" and ?fs = "unat (p_filesz ph)" and ?ms = "unat (p_memsz ph)"
  let ?x = "rounddown (p_vaddr ph) PAGE_SIZE + p_memsz ph - (p_vaddr ph + p_filesz ph)"
  have b: "?fs < ?ms" "?v + ?ms + 8192 \<le> 2 ^ 32" "?v mod 4096 \<le> nx - (?v + ?fs)"
    using ok sz by (simp_all add: segment_ok_def word_less_nat_alt bss_fits_def nx_def)
  note R = roundup_bounds [of "?v + ?fs", folded nx_def]
  have po: "?v mod 4096 < 4096" by simp
  have ux: "unat ?x = (if ?v mod 4096 \<le> ?ms - ?fs then ?ms - ?fs - ?v mod 4096 else ?ms - ?fs + 2 ^ 32 - ?v mod 4096)"
  proof -
    have x: "?x = (p_memsz ph - p_filesz ph) - (p_vaddr ph - rounddown (p_vaddr ph) PAGE_SIZE)" by (simp add: algebra_simps)
    have d: "unat (p_memsz ph - p_filesz ph) = ?ms - ?fs" using b(1) by (simp add: unat_sub word_le_nat_alt)
    show ?thesis unfolding x unat_sub_if' [of "p_memsz ph - p_filesz ph"] d rounddown_page(2) by simp
  qed
  have "4096 dvd unat bl \<and> ?ms - ?fs \<le> unat bl + ?v mod 4096 \<and> unat bl \<le> ?ms - ?fs + 4095"
  proof (cases "?v mod 4096 \<le> ?ms - ?fs")
    case True
    have u: "unat ?x = ?ms - ?fs - ?v mod 4096" unfolding ux if_P [OF True] ..
    then have l: "unat bl = (unat ?x + 4095) div 4096 * 4096"
      unfolding bl_def by (intro unat_roundup_page) (use b in linarith)
    show ?thesis unfolding l using roundup_bounds [of "unat ?x"] u True by linarith
  next
    case False
    have u: "unat ?x = ?ms - ?fs + 2 ^ 32 - ?v mod 4096" unfolding ux if_not_P [OF False] ..
    then have "bl = 0" unfolding bl_def by (intro roundup_page_wrap) (use po in linarith)
    then show ?thesis using False by simp
  qed
  then have B: "4096 dvd unat bl" "?ms - ?fs \<le> unat bl + ?v mod 4096" "unat bl \<le> ?ms - ?fs + 4095" by blast+
  show "4096 dvd unat bl" by (rule B(1))
  show "?v + ?ms \<le> nx + unat bl" using B(2) b R(1) by linarith
  show "nx + unat bl \<le> segment_hi ph" using B(3) b(1) R(2) unfolding segment_hi_def by linarith
qed

lemma map_segment_bss:
  assumes host: "host_mm_ok os mapped" "serves_file os fd file" and win: "window_ok (ev_mmu ev)"
    and ok: "segment_ok file ph" and sz: "p_filesz ph \<noteq> 0" "p_filesz ph < p_memsz ph"
  defines "start \<equiv> p_vaddr ph + p_filesz ph"
  defines "bl \<equiv> roundup (rounddown (p_vaddr ph) PAGE_SIZE + p_memsz ph - start) PAGE_SIZE"
  defines "nx \<equiv> (unat (p_vaddr ph) + unat (p_filesz ph) + 4095) div 4096 * 4096"
  shows "\<exists>r ev'. env_mmap os (roundup start PAGE_SIZE) bl prot (MAP_FIXED OR MAP_PRIVATE OR MAP_ANON) (- 1) 0 ev = Inr (r, ev') \<and>
    maps_at mapped file nx (unat bl) True 0 ev ev'" (is ?map)
    and "unat (roundup start PAGE_SIZE) = nx" (is ?round)
    and "unat start = unat (p_vaddr ph) + unat (p_filesz ph)" (is ?start)
proof -
  let ?v = "unat (p_vaddr ph)" and ?fs = "unat (p_filesz ph)" and ?ms = "unat (p_memsz ph)"
  let ?fl = "MAP_FIXED OR MAP_PRIVATE OR MAP_ANON"
  have b: "0 < ?fs" "?fs < ?ms" "?v + ?ms + 8192 \<le> 2 ^ 32"
    using ok sz by (simp_all add: segment_ok_def word_less_nat_alt unat_gt_0)
  show s: ?start using b by (simp add: start_def unat_word_ariths)
  show r: ?round unfolding nx_def s [symmetric] by (rule unat_roundup_page) (use s b in linarith)
  note L = bss_length [OF ok sz, folded start_def, folded bl_def nx_def]
  have ex: "\<exists>r ev'. env_mmap os (roundup start PAGE_SIZE) bl prot ?fl (- 1) 0 ev = Inr (r, ev') \<and>
      maps_at mapped file (unat (roundup start PAGE_SIZE)) (unat bl) (?fl AND MAP_ANON \<noteq> 0) (unat (0 :: u64)) ev ev'"
  proof (rule env_mmap_fixed [OF host win])
    show "4096 dvd unat (roundup start PAGE_SIZE)" unfolding r nx_def by simp
    show "4096 dvd unat bl" by (rule L(1))
    show "unat (roundup start PAGE_SIZE) + unat bl \<le> 2 ^ 32" using L(3) b(3) unfolding r segment_hi_def by linarith
    show "0 < unat (roundup start PAGE_SIZE) + unat bl" using L(2) b unfolding r by linarith
  qed (simp_all add: map_flags_def)
  then show ?map unfolding r by (simp add: map_flags_def)
qed

lemma map_segment_file:
  assumes host: "host_mm_ok os mapped" "serves_file os fd file" and win: "window_ok (ev_mmu ev)"
    and ok: "segment_ok file ph" and sz: "p_filesz ph \<noteq> 0"
  shows "\<exists>ev'. map_segment os fd ph ev = Inr ev' \<and> segment_at mapped file (ev_mmu ev) ph ev' \<and>
    keeps_outside mapped (segment_lo ph) (segment_hi ph) ev ev'"
proof -
  let ?v = "unat (p_vaddr ph)" and ?fs = "unat (p_filesz ph)" and ?ms = "unat (p_memsz ph)" and ?o = "unat (p_offset ph)"
  let ?ps = "rounddown (p_vaddr ph) PAGE_SIZE" and ?m = "ev_mmu ev" and ?prot = "seg_prot (p_flags ph)"
  define nx where "nx = (?v + ?fs + 4095) div 4096 * 4096"
  note R = roundup_bounds [of "?v + ?fs", folded nx_def]
  have b: "0 < ?fs" "?fs \<le> ?ms" "?v + ?ms + 8192 \<le> 2 ^ 32" "?o mod 4096 = ?v mod 4096" "?o + ?fs \<le> length file"
    using ok sz by (simp_all add: segment_ok_def word_le_nat_alt unat_gt_0)
  have po: "?v mod 4096 \<le> ?o" "?v div 4096 * 4096 + ?v mod 4096 = ?v"
    using b(4) mod_less_eq_dividend [of ?o 4096] by simp_all
  have lo: "unat ?ps = segment_lo ph" "segment_lo ph \<le> ?v" by (simp_all add: rounddown_page segment_lo_def)
  obtain r1 ev1 where e1: "env_mmap os ?ps (page_len (p_filesz ph + (p_vaddr ph - ?ps))) ?prot (MAP_FIXED OR MAP_PRIVATE) fd
      (ucast (p_offset ph - (p_vaddr ph - ?ps))) ev = Inr (r1, ev1)"
    and "maps_at mapped file (unat ?ps) (nx - unat ?ps) False (?o - ?v mod 4096) ev ev1"
    using map_file_part [OF host win ok sz, of ?prot, folded nx_def] by blast
  then have a1: "maps_at mapped file (segment_lo ph) (nx - segment_lo ph) False (?o - ?v mod 4096) ev ev1" unfolding lo(1) by simp
  have pos: "?o - ?v mod 4096 + (i - segment_lo ph) = ?o + (i - ?v)" if "?v \<le> i" for i
    using that po unfolding segment_lo_def by linarith
  have in1: "segment_lo ph \<le> i \<and> i < segment_lo ph + (nx - segment_lo ph) \<longleftrightarrow> segment_lo ph \<le> i \<and> i < nx" for i by linarith
  have file1: "ev_mem ev1 q = file ! (?o + (off ?m q - ?v))" if i: "?v \<le> off ?m q" "off ?m q < ?v + ?fs" for q
  proof -
    have "segment_lo ph \<le> off ?m q" "off ?m q < nx" "?o + (off ?m q - ?v) < length file" using i R(1) lo(2) b(5) by linarith+
    then show ?thesis using a1 unfolding maps_at_def Let_def in1 pos [OF i(1), symmetric] by blast
  qed
  have map1: "mapped (ev_h ev1) q \<longleftrightarrow> mapped (ev_h ev) q \<or> segment_lo ph \<le> off ?m q \<and> off ?m q < nx" for q
    using a1 unfolding maps_at_def Let_def in1 by simp
  have keep1: "only ?m (ev_mem ev) (ev_mem ev1) (segment_lo ph) nx" "mmu_base (ev_mmu ev1) = mmu_base ?m"
    using a1 unfolding maps_at_def Let_def in1 by (simp_all add: only_def)
  have hi: "nx \<le> segment_hi ph" using R(2) b(2) unfolding segment_hi_def by linarith
  show ?thesis
  proof (cases "p_filesz ph < p_memsz ph")
    case False
    then have eq: "?ms = ?fs" using b(2) by (simp add: word_less_nat_alt)
    have run: "map_segment os fd ph ev = Inr ev1" using e1 False sz by (simp add: map_segment_def Let_def)
    have "only ?m (ev_mem ev) (ev_mem ev1) (segment_lo ph) (segment_hi ph)"
      by (rule only_trans [OF keep1(1) only_refl]) (use hi in auto)
    then show ?thesis using run file1 map1 keep1(2) R(1) lo(2) eq
      by (intro exI [of _ ev1]) (auto simp: segment_at_def keeps_outside_def Let_def)
  next
    case True
    let ?start = "p_vaddr ph + p_filesz ph"
    define bl where "bl = roundup (?ps + p_memsz ph - ?start) PAGE_SIZE"
    have win1: "window_ok (ev_mmu ev1)" using win window_base(1) [OF keep1(2)] by simp
    note S = map_segment_bss [OF host win1 ok sz True, folded bl_def nx_def]
    obtain r2 ev2 where e2: "env_mmap os (roundup ?start PAGE_SIZE) bl ?prot (MAP_FIXED OR MAP_PRIVATE OR MAP_ANON) (- 1) 0 ev1
        = Inr (r2, ev2)" and a2: "maps_at mapped file nx (unat bl) True 0 ev1 ev2" using S(1) by blast
    note L = bss_length [OF ok sz True, folded bl_def nx_def]
    let ?prev = "roundup ?start PAGE_SIZE - ?start"
    define ev3 where "ev3 = (if ?prev \<noteq> 0 then ev2\<lparr>ev_mem := memset0 (g2h (ev_mmu ev2) ?start) (ucast ?prev) (ev_mem ev2)\<rparr> else ev2)"
    have run: "map_segment os fd ph ev = Inr ev3"
      using e1 e2 True sz unfolding bl_def ev3_def by (simp add: map_segment_def Let_def)
    have up: "unat ?prev = nx - (?v + ?fs)" using R(1) S(2,3) by (simp add: unat_sub word_le_nat_alt)
    have base: "mmu_base (ev_mmu ev2) = mmu_base ?m" using a2 keep1(2) unfolding maps_at_def Let_def by simp
    have ar: "q - g2h ?m ?start < ucast ?prev \<longleftrightarrow> ?v + ?fs \<le> off ?m q \<and> off ?m q < nx" if "?prev \<noteq> 0" for q
      using area_off(1) [where v = ?start and len = ?prev and q = q and m = ?m] that R b hi unfolding up S(3) segment_hi_def by simp
    have m3: "ev_mem ev3 q = (if ?v + ?fs \<le> off ?m q \<and> off ?m q < nx then 0 else ev_mem ev2 q)" for q
    proof (cases "?prev = 0")
      case True
      then have "nx \<le> ?v + ?fs" using up by simp
      then show ?thesis using True by (auto simp: ev3_def)
    next
      case False
      then show ?thesis using ar by (simp add: ev3_def memset0_def window_base(3) [OF base])
    qed
    have off1: "off (ev_mmu ev1) = off ?m" by (rule window_base(2) [OF keep1(2)])
    have m2: "ev_mem ev2 q = (if nx \<le> off ?m q \<and> off ?m q < nx + unat bl then 0 else ev_mem ev1 q)" for q
      using a2 unfolding maps_at_def Let_def off1 by simp
    have map3: "mapped (ev_h ev3) q \<longleftrightarrow> mapped (ev_h ev1) q \<or> nx \<le> off ?m q \<and> off ?m q < nx + unat bl" for q
      using a2 unfolding maps_at_def Let_def off1 by (simp add: ev3_def)
    have "segment_at mapped file ?m ph ev3"
      unfolding segment_at_def Let_def
    proof (intro conjI allI impI)
      fix q
      show "mapped (ev_h ev3) q" if "?v \<le> off ?m q \<and> off ?m q < ?v + ?ms" using that map3 map1 L(2) lo(2) by auto
      show "ev_mem ev3 q = file ! (?o + (off ?m q - ?v))" if "?v \<le> off ?m q \<and> off ?m q < ?v + ?fs"
        using that m3 m2 file1 R(1) by simp
      show "ev_mem ev3 q = 0" if "?v + ?fs \<le> off ?m q \<and> off ?m q < ?v + ?ms" using that m3 m2 L(2) by simp
    qed
    moreover have "only ?m (ev_mem ev) (ev_mem ev3) (segment_lo ph) (segment_hi ph)"
      using keep1(1) hi L(3) lo(2) R(1) unfolding only_def m3 m2 by auto
    moreover have "mmu_base (ev_mmu ev3) = mmu_base ?m" using base by (simp add: ev3_def)
    ultimately show ?thesis using run map3 map1 by (intro exI [of _ ev3]) (auto simp: keeps_outside_def)
  qed
qed

lemmas map_segment_loads = map_segment_anon map_segment_file

subsection \<open>The file\<close>

text \<open>The segments that are loaded, and that they do not overwrite each other.\<close>

definition load_phdrs :: "u8 list \<Rightarrow> elf_phdr list" where
  "load_phdrs file =
     (let ehdr = ehdr_of (take sizeof_Ehdr file) in
      filter (\<lambda>ph. p_type ph = PT_LOAD)
        (map (phdr_of (take (sizeof_Phdr * unat (e_phnum ehdr)) (drop (unat (e_phoff ehdr)) file))) [0 ..< unat (e_phnum ehdr)]))"

definition segments_apart :: "elf_phdr \<Rightarrow> elf_phdr \<Rightarrow> bool" where
  "segments_apart a b \<longleftrightarrow> unat (p_vaddr a) + unat (p_memsz a) \<le> segment_lo b \<or> segment_hi b \<le> unat (p_vaddr a)"

definition elf_ok :: "u8 list \<Rightarrow> bool" where
  "elf_ok file \<longleftrightarrow>
     (let ehdr = ehdr_of (take sizeof_Ehdr file) in
      sizeof_Ehdr \<le> length file \<and> take 4 (e_ident ehdr) = ELF_MAGIC \<and> e_machine ehdr = EM_RISCV \<and> e_type ehdr = ET_EXEC \<and>
      unat (e_phoff ehdr) + sizeof_Phdr * unat (e_phnum ehdr) \<le> length file \<and>
      (\<forall>ph \<in> set (load_phdrs file). segment_ok file ph) \<and> sorted_wrt segments_apart (load_phdrs file))"

definition note_segment :: "elf_phdr \<Rightarrow> elf_image \<Rightarrow> elf_image" where
  "note_segment ph elf = elf\<lparr>load_addr := min (load_addr elf) (p_vaddr ph - p_offset ph),
     el_brk := max (el_brk elf) (p_vaddr ph + p_memsz ph)\<rparr>"

lemma load_segment_eq:
  "load_segment os fd ph (elf, ev) =
     (if p_type ph \<noteq> PT_LOAD then Inr (elf, ev) else rbind (map_segment os fd ph ev) (\<lambda>ev'. Inr (note_segment ph elf, ev')))"
  by (simp add: load_segment_def note_segment_def)

lemma segment_at_keeps:
  assumes at: "segment_at mapped file m a ev" and kept: "\<And>q. mapped (ev_h ev) q \<Longrightarrow> mapped (ev_h ev') q"
    "\<And>q. unat (p_vaddr a) \<le> off m q \<Longrightarrow> off m q < unat (p_vaddr a) + unat (p_memsz a) \<Longrightarrow> ev_mem ev' q = ev_mem ev q"
    and le: "p_filesz a \<le> p_memsz a"
  shows "segment_at mapped file m a ev'"
proof -
  have "unat (p_filesz a) \<le> unat (p_memsz a)" using le by (simp add: word_le_nat_alt)
  then show ?thesis using at kept unfolding segment_at_def Let_def by simp
qed

lemma segment_at_base: "mmu_base m' = mmu_base m \<Longrightarrow> segment_at mapped file m' = segment_at mapped file m"
  using window_base(2) [of m' m] by (simp add: segment_at_def fun_eq_iff)

lemma load_segments:
  assumes host: "host_mm_ok os mapped" "serves_file os fd file" and win: "window_ok (ev_mmu ev)"
    and ok: "\<forall>ph \<in> set (filter (\<lambda>ph. p_type ph = PT_LOAD) phs). segment_ok file ph"
    and apart: "sorted_wrt segments_apart (filter (\<lambda>ph. p_type ph = PT_LOAD) phs)"
  shows "\<exists>ev'. rfold (load_segment os fd) phs (elf, ev) =
      Inr (fold note_segment (filter (\<lambda>ph. p_type ph = PT_LOAD) phs) elf, ev') \<and>
    (\<forall>ph \<in> set (filter (\<lambda>ph. p_type ph = PT_LOAD) phs). segment_at mapped file (ev_mmu ev) ph ev') \<and>
    mmu_base (ev_mmu ev') = mmu_base (ev_mmu ev) \<and> (\<forall>q. mapped (ev_h ev) q \<longrightarrow> mapped (ev_h ev') q) \<and>
    (\<forall>q. (\<forall>ph \<in> set (filter (\<lambda>ph. p_type ph = PT_LOAD) phs). \<not> (segment_lo ph \<le> off (ev_mmu ev) q \<and> off (ev_mmu ev) q < segment_hi ph)) \<longrightarrow>
      ev_mem ev' q = ev_mem ev q)"
  using win ok apart
proof (induction phs arbitrary: elf ev)
  case Nil
  then show ?case by simp
next
  case (Cons ph phs)
  let ?loads = "filter (\<lambda>ph. p_type ph = PT_LOAD) phs"
  show ?case
  proof (cases "p_type ph = PT_LOAD")
    case False
    then show ?thesis using Cons.IH [of ev elf] Cons.prems by (simp add: load_segment_eq)
  next
    case True
    have so: "segment_ok file ph" using Cons.prems(2) True by simp
    obtain ev1 where e1: "map_segment os fd ph ev = Inr ev1" and at1: "segment_at mapped file (ev_mmu ev) ph ev1"
      and k1: "keeps_outside mapped (segment_lo ph) (segment_hi ph) ev ev1"
      using map_segment_loads [OF host Cons.prems(1) so] by blast
    have base1: "mmu_base (ev_mmu ev1) = mmu_base (ev_mmu ev)" using k1 by (simp add: keeps_outside_def)
    have win1: "window_ok (ev_mmu ev1)" using Cons.prems(1) window_base(1) [OF base1] by simp
    obtain ev2 where e2: "rfold (load_segment os fd) phs (note_segment ph elf, ev1) = Inr (fold note_segment ?loads (note_segment ph elf), ev2)"
      and at2: "\<forall>p \<in> set ?loads. segment_at mapped file (ev_mmu ev1) p ev2" and base2: "mmu_base (ev_mmu ev2) = mmu_base (ev_mmu ev1)"
      and m2: "\<forall>q. mapped (ev_h ev1) q \<longrightarrow> mapped (ev_h ev2) q"
      and k2: "\<forall>q. (\<forall>p \<in> set ?loads. \<not> (segment_lo p \<le> off (ev_mmu ev1) q \<and> off (ev_mmu ev1) q < segment_hi p)) \<longrightarrow> ev_mem ev2 q = ev_mem ev1 q"
      using Cons.IH [OF win1, of "note_segment ph elf"] Cons.prems(2,3) True by auto
    have off1: "off (ev_mmu ev1) = off (ev_mmu ev)" by (rule window_base(2) [OF base1])
    have "segment_at mapped file (ev_mmu ev) ph ev2"
    proof (rule segment_at_keeps [OF at1])
      show "mapped (ev_h ev2) q" if "mapped (ev_h ev1) q" for q using that m2 by blast
      show "p_filesz ph \<le> p_memsz ph" using so by (simp add: segment_ok_def)
      fix q assume i: "unat (p_vaddr ph) \<le> off (ev_mmu ev) q" "off (ev_mmu ev) q < unat (p_vaddr ph) + unat (p_memsz ph)"
      have "\<not> (segment_lo p \<le> off (ev_mmu ev) q \<and> off (ev_mmu ev) q < segment_hi p)" if "p \<in> set ?loads" for p
      proof -
        have "segments_apart ph p" using Cons.prems(3) True that by simp
        then show ?thesis using i unfolding segments_apart_def by linarith
      qed
      then show "ev_mem ev2 q = ev_mem ev1 q" using k2 unfolding off1 by blast
    qed
    moreover have "\<forall>p \<in> set ?loads. segment_at mapped file (ev_mmu ev) p ev2" using at2 unfolding segment_at_base [OF base1] .
    moreover have "ev_mem ev2 q = ev_mem ev q"
      if "\<forall>p \<in> set (ph # ?loads). \<not> (segment_lo p \<le> off (ev_mmu ev) q \<and> off (ev_mmu ev) q < segment_hi p)" for q
    proof -
      have "ev_mem ev1 q = ev_mem ev q" using that k1 by (simp add: keeps_outside_def only_def)
      moreover have "ev_mem ev2 q = ev_mem ev1 q" using that k2 unfolding off1 by simp
      ultimately show ?thesis by simp
    qed
    moreover have "\<forall>q. mapped (ev_h ev) q \<longrightarrow> mapped (ev_h ev2) q" using k1 m2 by (simp add: keeps_outside_def)
    ultimately show ?thesis using e1 e2 base1 base2 True
      by (intro exI [of _ ev2]) (simp add: load_segment_eq)
  qed
qed

lemma fold_note_segment:
  "el_entry (fold note_segment phs elf) = el_entry elf" "el_ehdr (fold note_segment phs elf) = el_ehdr elf"
  "el_brk (fold note_segment phs elf) = fold max (map (\<lambda>ph. p_vaddr ph + p_memsz ph) phs) (el_brk elf)"
  "load_addr (fold note_segment phs elf) = fold min (map (\<lambda>ph. p_vaddr ph - p_offset ph) phs) (load_addr elf)"
  by (induction phs arbitrary: elf) (simp_all add: note_segment_def max.commute min.commute)

lemma LoadElf_loads:
  assumes host: "host_mm_ok os mapped" "serves_file os fd file" "reads_file os fd file" and win: "window_ok (ev_mmu ev)"
    and ok: "elf_ok file"
  shows "\<exists>elf' ev'. LoadElf os fd (elf, ev) = Inr (elf', ev') \<and>
    (\<forall>ph \<in> set (load_phdrs file). segment_at mapped file (ev_mmu ev) ph ev') \<and>
    (\<forall>q. mapped (ev_h ev) q \<longrightarrow> mapped (ev_h ev') q) \<and>
    (\<forall>q. (\<forall>ph \<in> set (load_phdrs file). \<not> (segment_lo ph \<le> off (ev_mmu ev) q \<and> off (ev_mmu ev) q < segment_hi ph)) \<longrightarrow>
      ev_mem ev' q = ev_mem ev q) \<and>
    mmu_base (ev_mmu ev') = mmu_base (ev_mmu ev) \<and>
    el_ehdr elf' = ehdr_of (take sizeof_Ehdr file) \<and> el_entry elf' = e_entry (el_ehdr elf') \<and>
    el_brk elf' = fold max (map (\<lambda>ph. p_vaddr ph + p_memsz ph) (load_phdrs file)) 0 \<and>
    load_addr elf' = fold min (map (\<lambda>ph. p_vaddr ph - p_offset ph) (load_phdrs file)) (- 1)"
proof -
  define ehdr where "ehdr = ehdr_of (take sizeof_Ehdr file)"
  let ?sz = "sizeof_Phdr * unat (e_phnum ehdr)" and ?off = "unat (e_phoff ehdr)"
  let ?phs = "map (phdr_of (take ?sz (drop ?off file))) [0 ..< unat (e_phnum ehdr)]"
  let ?elf = "elf\<lparr>el_ehdr := ehdr, load_addr := - 1, el_brk := 0, el_entry := e_entry ehdr\<rparr>"
  have lp: "filter (\<lambda>ph. p_type ph = PT_LOAD) ?phs = load_phdrs file" by (simp add: load_phdrs_def ehdr_def Let_def)
  have pread: "hcall (os_pread os fd n offs) ev = (take n (drop (unat offs) file), ev)" for n offs
    using host(3) by (simp add: reads_file_def hcall_def)
  have c: "sizeof_Ehdr \<le> length file" "take 4 (e_ident ehdr) = ELF_MAGIC" "e_machine ehdr = EM_RISCV" "e_type ehdr = ET_EXEC"
    "?off + ?sz \<le> length file" "\<forall>ph \<in> set (load_phdrs file). segment_ok file ph" "sorted_wrt segments_apart (load_phdrs file)"
    using ok by (simp_all add: elf_ok_def ehdr_def Let_def)
  have run: "LoadElf os fd (elf, ev) = rfold (load_segment os fd) ?phs (?elf, ev)"
    using c by (simp add: LoadElf_def Let_def pread ehdr_def [symmetric])
  from load_segments [OF host(1,2) win, of ?phs ?elf, unfolded lp, OF c(6,7)] obtain ev' where
    "LoadElf os fd (elf, ev) = Inr (fold note_segment (load_phdrs file) ?elf, ev')"
    "\<forall>ph \<in> set (load_phdrs file). segment_at mapped file (ev_mmu ev) ph ev'" "\<forall>q. mapped (ev_h ev) q \<longrightarrow> mapped (ev_h ev') q"
    "\<forall>q. (\<forall>ph \<in> set (load_phdrs file). \<not> (segment_lo ph \<le> off (ev_mmu ev) q \<and> off (ev_mmu ev) q < segment_hi ph)) \<longrightarrow>
      ev_mem ev' q = ev_mem ev q" "mmu_base (ev_mmu ev') = mmu_base (ev_mmu ev)"
    unfolding run by blast
  then show ?thesis
    by (intro exI [of _ "fold note_segment (load_phdrs file) ?elf"] exI [of _ ev']) (simp add: fold_note_segment ehdr_def)
qed

subsection \<open>Properties\<close>

text \<open>
  C14. The guest's initial stack has the layout that the comment before \<open>InitArgVectors\<close> draws: from a stack pointer
  that is aligned to 16 bytes, the number of arguments, a pointer to each argument and a null word, the environment
  and a null word, and the auxiliary vector up to its \<open>AT_NULL\<close>; each pointer is that of the string it
  stands for, with its final zero. Nothing outside the stack between the new and the old pointer is written, and
  it takes at most 328 bytes besides the arguments.
\<close>

theorem InitArgVectors_correct:
  assumes "strs_size argv + 4 * length argv + 328 \<le> unat (stack_start elf)" "\<forall>s \<in> set argv. length s < 65535"
    and "os_getcwd os (ev_h ev) = Some cwd"
  shows "\<exists>sp gs foo lc salt ev'. InitArgVectors os argv (elf, ev) = Inr (elf\<lparr>stack_start := sp\<rparr>, ev') \<and>
    sp AND 15 = 0 \<and> length gs = length argv \<and>
    holds (ev_mmu ev) (ev_mem ev') sp (concat (map bytes4 (arg_words os elf (ev_h ev) gs lc salt foo))) \<and>
    (\<forall>i < length argv. holds (ev_mmu ev) (ev_mem ev') (gs ! i) (cstr_bytes (argv ! i))) \<and>
    holds (ev_mmu ev) (ev_mem ev') lc (cstr_bytes ''LC_ALL=C'') \<and> holds (ev_mmu ev) (ev_mem ev') salt auxv_salt \<and>
    holds (ev_mmu ev) (ev_mem ev') foo (cstr_bytes ''__foo_str__'') \<and>
    only (ev_mmu ev) (ev_mem ev) (ev_mem ev') (unat sp) (unat (stack_start elf)) \<and>
    unat (stack_start elf) \<le> unat sp + strs_size argv + 4 * length argv + 328 \<and>
    ev' = ev\<lparr>ev_mem := ev_mem ev', ev_proc := (ev_proc ev)\<lparr>fsroot := cwd @ ''/''\<rparr>\<rparr>"
  using assms by (rule InitArgVectors_layout)

text \<open>
  C13. A file with an ELF header for RISC-V executables, a program header table and loadable segments that
  do not share pages and whose zeroed part fits (\<open>elf_ok\<close>) is loaded: all bytes of every segment are mapped, they are
  the bytes of the file and then zeros, what was mapped before stays mapped, memory away from the segments is
  not written, and the image has the entry point, the break and the load address of the file.
\<close>

theorem LoadElf_correct:
  assumes "host_mm_ok os mapped" "serves_file os fd file" "reads_file os fd file" "window_ok (ev_mmu ev)" "elf_ok file"
  shows "\<exists>elf' ev'. LoadElf os fd (elf, ev) = Inr (elf', ev') \<and>
    (\<forall>ph \<in> set (load_phdrs file). segment_at mapped file (ev_mmu ev) ph ev') \<and>
    (\<forall>q. mapped (ev_h ev) q \<longrightarrow> mapped (ev_h ev') q) \<and>
    (\<forall>q. (\<forall>ph \<in> set (load_phdrs file). \<not> (segment_lo ph \<le> off (ev_mmu ev) q \<and> off (ev_mmu ev) q < segment_hi ph)) \<longrightarrow>
      ev_mem ev' q = ev_mem ev q) \<and>
    mmu_base (ev_mmu ev') = mmu_base (ev_mmu ev) \<and>
    el_ehdr elf' = ehdr_of (take sizeof_Ehdr file) \<and> el_entry elf' = e_entry (el_ehdr elf') \<and>
    el_brk elf' = fold max (map (\<lambda>ph. p_vaddr ph + p_memsz ph) (load_phdrs file)) 0 \<and>
    load_addr elf' = fold min (map (\<lambda>ph. p_vaddr ph - p_offset ph) (load_phdrs file)) (- 1)"
  using assms by (rule LoadElf_loads)

text \<open>Every file that is too short or whose header has another magic number, machine or type is refused.\<close>

lemma LoadElf_refuses:
  assumes "reads_file os fd file"
    and "length file < sizeof_Ehdr \<or> take 4 file \<noteq> ELF_MAGIC \<or> e_machine (ehdr_of (take sizeof_Ehdr file)) \<noteq> EM_RISCV \<or>
      e_type (ehdr_of (take sizeof_Ehdr file)) \<noteq> ET_EXEC"
  shows "\<exists>msg. LoadElf os fd (elf, ev) = Inl (Panic msg)"
proof -
  have pread: "hcall (os_pread os fd n 0) ev = (take n file, ev)" for n
    using assms(1) by (simp add: reads_file_def hcall_def)
  have "take 4 (e_ident (ehdr_of (take sizeof_Ehdr file))) = take 4 file" by (simp add: ehdr_of_def sizeof_Ehdr_def)
  then show ?thesis using assms(2) by (auto simp: LoadElf_def Let_def pread)
qed

subsection \<open>A host with one file\<close>

definition file_sys :: "u8 list \<Rightarrow> (bool \<times> uptr \<times> u64) list boot" where
  "file_sys file = sys.extend
     (log_sys\<lparr>os_mmap := (\<lambda>a len prot flags fd offs w. case os_mmap log_host a len prot flags fd offs w of (r, h, m) \<Rightarrow>
        (r, h, if r = MAP_FAILED \<or> flags AND MAP_ANON \<noteq> 0 then m
               else (\<lambda>q. if q - r < len \<and> unat offs + unat (q - r) < length file then file ! (unat offs + unat (q - r)) else m q)))\<rparr>)
     (boot.fields (\<lambda>_ _ w. (3, w)) (\<lambda>_ n offs w. (take n (drop (unat offs) file), w)) (\<lambda>_ w. (0, w)) (\<lambda>_. 100))"

lemma file_sys_sel [simp]:
  "os_mmap (file_sys file) a len prot flags fd offs w = (case os_mmap log_host a len prot flags fd offs w of (r, h, m) \<Rightarrow>
     (r, h, if r = MAP_FAILED \<or> flags AND MAP_ANON \<noteq> 0 then m
            else (\<lambda>q. if q - r < len \<and> unat offs + unat (q - r) < length file then file ! (unat offs + unat (q - r)) else m q)))"
  "os_munmap (file_sys file) = os_munmap log_host" "os_open (file_sys file) path flags w = (3, w)"
  "os_pread (file_sys file) d n o' w = (take n (drop (unat o') file), w)" "os_chdir (file_sys file) path w = (0, w)"
  "os_getcwd (file_sys file) = (\<lambda>_. Some ''/home'')"
  by (simp_all add: file_sys_def sys.defs boot.defs)

lemma file_sys_ok: "host_mm_ok (file_sys file) log_mapped" "serves_file (file_sys file) fd file" "reads_file (file_sys file) fd file"
proof -
  have al: "a AND 4095 = 0 \<Longrightarrow> a \<noteq> MAP_FAILED" for a :: uptr by (auto simp: MAP_FAILED_def)
  show "host_mm_ok (file_sys file) log_mapped"
    unfolding host_mm_ok_def mmap_post_def
    by (auto simp: log_host_mmap log_mapped_meet al split: if_splits) (auto simp: log_host_def split: if_splits)
  show "serves_file (file_sys file) fd file"
    unfolding serves_file_def by (auto simp: log_host_mmap al split: prod.splits)
  show "reads_file (file_sys file) fd file" by (simp add: reads_file_def)
qed

text \<open>An executable of three instructions: \<open>addi a7, x0, 93\<close>, \<open>addi a0, x0, 7\<close>, \<open>ecall\<close>.\<close>

definition demo_file :: "u8 list" where
  "demo_file =
     [0x7f, 0x45, 0x4c, 0x46, 1, 1, 1, 0, 0, 0, 0, 0, 0, 0, 0, 0, 2, 0, 0xf3, 0, 1, 0, 0, 0, 0x54, 0, 1, 0, 0x34, 0, 0, 0,
      0, 0, 0, 0, 0, 0, 0, 0, 0x34, 0, 0x20, 0, 1, 0, 0, 0, 0, 0, 0, 0,
      1, 0, 0, 0, 0x54, 0, 0, 0, 0x54, 0, 1, 0, 0x54, 0, 1, 0, 12, 0, 0, 0, 16, 0, 0, 0, 7, 0, 0, 0, 0, 0x10, 0, 0,
      0x93, 8, 0xd0, 5, 0x13, 5, 0x70, 0, 0x73, 0, 0, 0]"

definition demo_phdr :: elf_phdr where
  "demo_phdr = \<lparr>p_type = PT_LOAD, p_offset = 0x54, p_vaddr = 0x10054, p_filesz = 12, p_memsz = 16, p_flags = 7\<rparr>"

lemma demo_ehdr: "e_phnum (ehdr_of (take sizeof_Ehdr demo_file)) = 1" "e_phoff (ehdr_of (take sizeof_Ehdr demo_file)) = 0x34"
  "e_entry (ehdr_of (take sizeof_Ehdr demo_file)) = 0x10054" "e_machine (ehdr_of (take sizeof_Ehdr demo_file)) = EM_RISCV"
  "e_type (ehdr_of (take sizeof_Ehdr demo_file)) = ET_EXEC" "take 4 (e_ident (ehdr_of (take sizeof_Ehdr demo_file))) = ELF_MAGIC"
  by code_simp+

lemma demo_phdrs: "load_phdrs demo_file = [demo_phdr]"
proof -
  have "phdr_of (take 32 (drop 0x34 demo_file)) 0 = demo_phdr" by code_simp
  then show ?thesis by (simp add: load_phdrs_def demo_ehdr sizeof_Phdr_def Let_def) (simp add: demo_phdr_def)
qed

lemma demo_file_ok: "elf_ok demo_file" "length demo_file = 96"
proof -
  show "length demo_file = 96" by (simp add: demo_file_def)
  then show "elf_ok demo_file"
    unfolding elf_ok_def Let_def demo_ehdr demo_phdrs
    by (simp add: sizeof_Ehdr_def sizeof_Phdr_def segment_ok_def bss_fits_def demo_phdr_def)
qed

lemma demo_window: "window_ok (ev_mmu demo_process)"
  by (simp add: window_ok_def demo_process_def)

definition demo_elf :: elf_image where
  "demo_elf = \<lparr>el_ehdr = ehdr_of (take sizeof_Ehdr demo_file), load_addr = 0x10000, stack_start = 0xfffff000, el_entry = 0x10054, el_brk = 0x10064\<rparr>"

theorem LoadElf_correct_witness:
  "\<exists>elf' ev'. LoadElf (file_sys demo_file) 3 (demo_elf, demo_process) = Inr (elf', ev') \<and> el_entry elf' = 0x10054 \<and>
     el_brk elf' = 0x10064 \<and> load_addr elf' = 0x10000 \<and> ev_mem ev' 0x10054 = 0x93 \<and> ev_mem ev' 0x10060 = 0 \<and> ev_mem ev' 0 = 7"
proof -
  from LoadElf_correct [OF file_sys_ok demo_window demo_file_ok(1), of 3 demo_elf] obtain elf' ev' where
    r: "LoadElf (file_sys demo_file) 3 (demo_elf, demo_process) = Inr (elf', ev')"
    and at: "segment_at log_mapped demo_file (ev_mmu demo_process) demo_phdr ev'"
    and k: "\<forall>q. \<not> (segment_lo demo_phdr \<le> off (ev_mmu demo_process) q \<and> off (ev_mmu demo_process) q < segment_hi demo_phdr) \<longrightarrow>
      ev_mem ev' q = ev_mem demo_process q"
    and i: "el_entry elf' = 0x10054" "el_brk elf' = 0x10064" "load_addr elf' = 0x10000"
    by (auto simp: demo_phdrs demo_ehdr) (simp add: demo_phdr_def)
  have off: "off (ev_mmu demo_process) q = unat q" for q by (simp add: off_def demo_process_def)
  have "ev_mem ev' 0x10054 = demo_file ! 84" "ev_mem ev' 0x10060 = 0"
    using at by (simp_all add: segment_at_def off demo_phdr_def Let_def)
  moreover have "ev_mem ev' 0 = 7"
    using k [rule_format, of 0] by (simp add: segment_lo_def off demo_phdr_def) (simp add: demo_process_def)
  ultimately show ?thesis using r i by (simp add: demo_file_def)
qed

theorem InitArgVectors_correct_witness:
  "\<exists>sp ev'. InitArgVectors (file_sys demo_file) [''prog''] (demo_elf, demo_process) = Inr (demo_elf\<lparr>stack_start := sp\<rparr>, ev') \<and>
     sp AND 15 = 0 \<and> 0xffffee8c \<le> unat sp \<and> holds (ev_mmu demo_process) (ev_mem ev') sp [1, 0, 0, 0]"
proof -
  have "strs_size [''prog''] + 4 * length [''prog''] + 328 \<le> unat (stack_start demo_elf)"
    by (simp add: strs_size_def demo_elf_def)
  from InitArgVectors_correct [OF this, of "file_sys demo_file" demo_process "''/home''"] obtain sp gs foo lc salt ev' where
    r: "InitArgVectors (file_sys demo_file) [''prog''] (demo_elf, demo_process) = Inr (demo_elf\<lparr>stack_start := sp\<rparr>, ev')" "sp AND 15 = 0"
      "length gs = 1" "unat (stack_start demo_elf) \<le> unat sp + strs_size [''prog''] + 4 * length [''prog''] + 328"
    and h: "holds (ev_mmu demo_process) (ev_mem ev') sp (concat (map bytes4 (arg_words (file_sys demo_file) demo_elf (ev_h demo_process) gs lc salt foo)))"
    by auto
  have "holds (ev_mmu demo_process) (ev_mem ev') sp (bytes4 1)" using h r(3) by (auto simp: arg_words_def dest: holds_append)
  then have "holds (ev_mmu demo_process) (ev_mem ev') sp [1, 0, 0, 0]" by (simp add: bytes4_def)
  then show ?thesis using r by (intro exI [of _ sp] exI [of _ ev']) (simp add: strs_size_def demo_elf_def)
qed

text \<open>
  The zeroed part is too short when \<open>bss_fits\<close> does not hold: of a segment at \<open>0x10f00\<close> with \<open>0xf0\<close> bytes
  in the file and \<open>0xff0\<close> in memory, the page at \<open>0x11000\<close> is not mapped.
\<close>

lemma map_segment_short_bss:
  defines "ph \<equiv> \<lparr>p_type = PT_LOAD, p_offset = 0xf00, p_vaddr = 0x10f00, p_filesz = 0xf0, p_memsz = 0xff0, p_flags = 6\<rparr>"
  shows "\<exists>ev'. map_segment (file_sys file) 3 ph demo_process = Inr ev' \<and> \<not> log_mapped (ev_h ev') 0x11000"
  by (simp add: ph_def map_segment_def Let_def env_mmap_def mmu_mmap_def page_len_def roundup_def rounddown_def PAGE_SIZE_def
      PAGE_BITS_def map_flags_def ASPACE_SIZE_def demo_process_def g2h_def log_host_mmap MarkUsedPages_eq num_pages_def MAP_FAILED_def)

end
