(* ===== verification/Boot.thy ===== *)
theory Boot
  imports Elf_Correct
begin

section \<open>The program: main.cpp\<close>

text \<open>
  The parts put together: how the program starts, what state the guest starts in, and with what status the
  program ends. The registration of signal handlers (\<open>InitSignals\<close>) changes nothing here.
\<close>

subsection \<open>Operations\<close>

text \<open>
  \<open>zero_base\<close> is the configuration without a guest base, \<open>amap\<close> and \<open>aunmap\<close> are the host calls of the arenas,
  \<open>run base\<close> is \<open>Execute\<close>. The arguments are those after the program's name.
\<close>

definition main_boot ::
  "('h, 'x) boot_scheme \<Rightarrow> bool \<Rightarrow> (u64 \<Rightarrow> u32 \<Rightarrow> uptr) \<Rightarrow> string list \<Rightarrow> tcache \<Rightarrow> elf_image \<Rightarrow> 'h env \<Rightarrow>
    (exec_state \<times> 'h env) res" where
  "main_boot os zero_base amap args tc elf ev =
     rbind (mmu_Init os zero_base (ev_mmu ev) (ev_h ev, ev_mem ev)) (\<lambda>(m, h, mem).
     rbind (Tcache_Init amap tc) (\<lambda>tc1.
     rbind (BootElf os (hd args) (elf, ev\<lparr>ev_mmu := m, ev_h := h, ev_mem := mem\<rparr>)) (\<lambda>st.
     rbind (InitArgVectors os args st) (\<lambda>(elf2, ev2).
     rbind (InitThread init_cpu elf2) (\<lambda>cpu.
       Inr (\<lparr>x_cpu = cpu, x_tc = tc1, x_mem = ev_mem ev2, is_current = False\<rparr>, ev2))))))"

definition dbt_main ::
  "('h, 'x) boot_scheme \<Rightarrow> bool \<Rightarrow> (u64 \<Rightarrow> u32 \<Rightarrow> uptr) \<Rightarrow> (uptr \<Rightarrow> u64 \<Rightarrow> u32) \<Rightarrow>
    (uptr \<Rightarrow> exec_state \<Rightarrow> exec_state res option) \<Rightarrow> nat \<Rightarrow> string list \<Rightarrow> tcache \<Rightarrow> elf_image \<Rightarrow> 'h env \<Rightarrow> u32 res option" where
  "dbt_main os zero_base amap aunmap run fuel argv tc elf ev =
     (if length argv < 2 then Some (Inr 1)
      else case main_boot os zero_base amap (tl argv) tc elf ev of
        Inl e \<Rightarrow> Some (Inl e)
      | Inr (st, ev1) \<Rightarrow>
          (case env_Execute os (run (mmu_base (ev_mmu ev1))) fuel st ev1 of
             None \<Rightarrow> None
           | Some (Inl e) \<Rightarrow> Some (Inl e)
           | Some (Inr (guest_rc, st2, ev2)) \<Rightarrow>
               Some (rbind (Tcache_Destroy aunmap (x_tc st2)) (\<lambda>_.
                     rbind (mmu_Destroy os (ev_mmu ev2) (ev_h ev2, ev_mem ev2)) (\<lambda>_. Inr guest_rc)))))"

subsection \<open>The stack of the guest\<close>

definition stk_bottom :: nat where "stk_bottom = 0xff7ff000"
definition stk_top :: nat where "stk_top = 0xfffff000"

lemma stack_mapped:
  assumes host: "host_mm_ok os mapped" "serves_file os fd file" and win: "window_ok (ev_mmu ev)"
  shows "\<exists>ev'. env_mmap os (ucast (ASPACE_SIZE - ucast PAGE_SIZE - ucast stk_size)) stk_size prot
      (MAP_ANON OR MAP_PRIVATE OR MAP_FIXED) (- 1) 0 ev = Inr (g2h (ev_mmu ev) (of_nat stk_bottom), ev') \<and>
    maps_at mapped file stk_bottom (stk_top - stk_bottom) True 0 ev ev'"
proof -
  let ?fl = "MAP_ANON OR MAP_PRIVATE OR MAP_FIXED"
  have c: "ucast (ASPACE_SIZE - ucast PAGE_SIZE - ucast stk_size) = (of_nat stk_bottom :: u32)" "stk_size = 0x800000"
    by (simp_all add: ASPACE_SIZE_def PAGE_SIZE_def stk_size_def MB_def stk_bottom_def KB_def)
  have "\<exists>r ev'. env_mmap os (of_nat stk_bottom) stk_size prot ?fl (- 1) 0 ev = Inr (r, ev') \<and>
      (stk_size \<noteq> 0 \<longrightarrow> r = g2h (ev_mmu ev) (of_nat stk_bottom)) \<and>
      maps_at mapped file (unat (of_nat stk_bottom :: u32)) (unat stk_size) (?fl AND MAP_ANON \<noteq> 0) (unat (0 :: u64)) ev ev'"
    by (rule env_mmap_fixed_at [OF host win]) (simp_all add: c map_flags_def stk_bottom_def)
  then show ?thesis unfolding c(1) by (auto simp: c(2) map_flags_def stk_bottom_def stk_top_def)
qed

lemma BootElf_boots:
  assumes host: "host_mm_ok os mapped" "serves_file os fd file" "reads_file os fd file" and win: "window_ok (ev_mmu ev)"
    and ok: "elf_ok file" "\<forall>ph \<in> set (load_phdrs file). segment_hi ph \<le> stk_bottom"
    and path: "\<forall>w. fst (os_open os path 0 w) = fd" "0 \<le> sint fd" "length path < PATH_MAX"
  shows "\<exists>elf' ev'. BootElf os path (elf, ev) = Inr (elf', ev') \<and> stack_start elf' = of_nat stk_top \<and>
    el_ehdr elf' = ehdr_of (take sizeof_Ehdr file) \<and> el_entry elf' = e_entry (el_ehdr elf') \<and>
    load_addr elf' = fold min (map (\<lambda>ph. p_vaddr ph - p_offset ph) (load_phdrs file)) (- 1) \<and>
    (\<forall>ph \<in> set (load_phdrs file). segment_at mapped file (ev_mmu ev) ph ev') \<and>
    (\<forall>q. stk_bottom \<le> off (ev_mmu ev) q \<and> off (ev_mmu ev) q < stk_top \<longrightarrow> mapped (ev_h ev') q) \<and>
    mmu_base (ev_mmu ev') = mmu_base (ev_mmu ev) \<and> exe_fd (ev_proc ev') = fd \<and>
    proc_brk (ev_proc ev') = fold max (map (\<lambda>ph. p_vaddr ph + p_memsz ph) (load_phdrs file)) 0"
proof -
  have hc: "fst (hcall f e) = fst (f (ev_h e, ev_mem e))" "ev_mmu (snd (hcall f e)) = ev_mmu e" for f and e :: "'a env"
    by (simp_all add: hcall_def Let_def split: prod.splits)
  define ev1 where "ev1 = snd (hcall (os_open os path 0) ev)"
  have o: "hcall (os_open os path 0) ev = (fd, ev1)" using path(1) hc(1) [of "os_open os path 0" ev] by (simp add: ev1_def prod_eq_iff)
  obtain rc ev2 where d: "hcall (os_chdir os (dirname path)) ev1 = (rc, ev2)" by fastforce
  have "ev_mmu ev1 = ev_mmu ev" unfolding ev1_def by (rule hc(2))
  then have m2: "ev_mmu ev2 = ev_mmu ev" using hc(2) [of "os_chdir os (dirname path)" ev1] unfolding d by simp
  obtain elf3 ev3 where l: "LoadElf os fd (elf, ev2) = Inr (elf3, ev3)"
    and at: "\<forall>ph \<in> set (load_phdrs file). segment_at mapped file (ev_mmu ev) ph ev3" and b3: "mmu_base (ev_mmu ev3) = mmu_base (ev_mmu ev)"
    and i: "el_ehdr elf3 = ehdr_of (take sizeof_Ehdr file)" "el_entry elf3 = e_entry (el_ehdr elf3)"
      "el_brk elf3 = fold max (map (\<lambda>ph. p_vaddr ph + p_memsz ph) (load_phdrs file)) 0"
      "load_addr elf3 = fold min (map (\<lambda>ph. p_vaddr ph - p_offset ph) (load_phdrs file)) (- 1)"
    using LoadElf_loads [OF host, of ev2 elf] win ok(1) unfolding m2 by blast
  define ev4 where "ev4 = ev3\<lparr>ev_proc := (ev_proc ev3)\<lparr>exe_fd := fd, proc_brk := el_brk elf3\<rparr>\<rparr>"
  have m4: "mmu_base (ev_mmu ev4) = mmu_base (ev_mmu ev)" "ev_h ev4 = ev_h ev3" "ev_mem ev4 = ev_mem ev3" using b3 by (simp_all add: ev4_def)
  have win4: "window_ok (ev_mmu ev4)" using win window_base(1) [OF m4(1)] by simp
  obtain ev5 where e5: "env_mmap os (ucast (ASPACE_SIZE - ucast PAGE_SIZE - ucast stk_size)) stk_size (PROT_READ OR PROT_WRITE)
      (MAP_ANON OR MAP_PRIVATE OR MAP_FIXED) (- 1) 0 ev4 = Inr (g2h (ev_mmu ev4) (of_nat stk_bottom), ev5)"
    and a5: "maps_at mapped file stk_bottom (stk_top - stk_bottom) True 0 ev4 ev5"
    using stack_mapped [OF host(1,2) win4] by blast
  have pr: "ev_proc ev5 = ev_proc ev4" using e5 by (auto simp: env_mmap_def split: prod.splits)
  have off4: "off (ev_mmu ev4) = off (ev_mmu ev)" by (rule window_base(2) [OF m4(1)])
  have A: "mmu_base (ev_mmu ev5) = mmu_base (ev_mmu ev)"
    "mapped (ev_h ev5) q \<longleftrightarrow> mapped (ev_h ev3) q \<or> stk_bottom \<le> off (ev_mmu ev) q \<and> off (ev_mmu ev) q < stk_top"
    "off (ev_mmu ev) q < stk_bottom \<Longrightarrow> ev_mem ev5 q = ev_mem ev3 q" for q
    using a5 m4 unfolding maps_at_def Let_def off4 by (simp_all add: stk_bottom_def stk_top_def)
  have st: "h2g (ev_mmu ev5) (g2h (ev_mmu ev4) (of_nat stk_bottom)) + stk_size = of_nat stk_top"
    using A(1) m4(1) by (simp add: h2g_def g2h_def stk_bottom_def stk_top_def stk_size_def MB_def)
  have run: "BootElf os path (elf, ev) = Inr (elf3\<lparr>stack_start := of_nat stk_top\<rparr>, ev5)"
    using path e5 by (simp add: BootElf_def o d l ev4_def [symmetric] st Let_def)
  have "segment_at mapped file (ev_mmu ev) ph ev5" if ph: "ph \<in> set (load_phdrs file)" for ph
  proof (rule segment_at_keeps)
    show "segment_at mapped file (ev_mmu ev) ph ev3" using at ph by blast
    show "p_filesz ph \<le> p_memsz ph" using ok(1) ph by (simp add: elf_ok_def segment_ok_def Let_def)
    show "ev_mem ev5 q = ev_mem ev3 q" if "off (ev_mmu ev) q < unat (p_vaddr ph) + unat (p_memsz ph)" for q
    proof (rule A(3))
      have "segment_hi ph \<le> stk_bottom" using ok(2) ph by blast
      then show "off (ev_mmu ev) q < stk_bottom" using that by (simp add: segment_hi_def)
    qed
  qed (use A(2) in blast)
  then show ?thesis using run i A(1,2) by (intro exI [of _ "elf3\<lparr>stack_start := of_nat stk_top\<rparr>"] exI [of _ ev5]) (simp add: pr ev4_def)
qed

subsection \<open>The translation cache\<close>

definition arena_host :: "(u64 \<Rightarrow> u32 \<Rightarrow> uptr) \<Rightarrow> bool" where
  "arena_host amap \<longleftrightarrow> (\<forall>len prot. amap len prot \<noteq> MAP_FAILED \<longrightarrow> unat (amap len prot) + unat len < 2 ^ 64)"

lemma Tcache_Init_ok:
  assumes "arena_host amap" "Tcache_Init amap tc = Inr tc1"
  shows "tc_ok tc1" "code_of tc1 a = None"
proof -
  obtain tbp cp where t: "Arena_Init amap TB_POOL_SIZE PROT_RW (tb_pool tc) = Inr tbp"
    and tc1: "tc1 = (tc_clear tc)\<lparr>tb_pool := tbp, code_pool := cp\<rparr>"
    using assms(2) by (auto simp: Tcache_Init_def rbind_eq_Inr)
  then have p: "pool_sz tbp = 0x2000000" "used tbp = 0" "pool tbp = amap 0x2000000 PROT_RW" "pool tbp \<noteq> MAP_FAILED"
    by (auto simp: Arena_Init_def Let_def TB_POOL_SIZE_def roundup_def split: if_splits)
  moreover have "unat (pool tbp) + unat (pool_sz tbp) < 2 ^ 64"
    using assms(1) p(4) unfolding arena_host_def p(1,3) by blast
  ultimately have "arena_ok tbp" "request_ok tbp (sizeof_TBlock, alignof_TBlock)"
    by (simp_all add: arena_ok_def request_ok_def sizeof_TBlock_def alignof_TBlock_def)
  then show "tc_ok tc1" "code_of tc1 a = None" unfolding tc1
    by (simp_all add: tc_ok_def tc_clear_def block_of_def code_of_def om_ok_def)
qed

subsection \<open>How the guest starts\<close>

definition args_at :: "('h, 'x) boot_scheme \<Rightarrow> u8 list \<Rightarrow> string list \<Rightarrow> u32 \<Rightarrow> 'h env \<Rightarrow> bool" where
  "args_at os file args sp ev \<longleftrightarrow> (\<exists>elf gs foo lc salt.
     el_ehdr elf = ehdr_of (take sizeof_Ehdr file) \<and> el_entry elf = e_entry (el_ehdr elf) \<and>
     load_addr elf = fold min (map (\<lambda>ph. p_vaddr ph - p_offset ph) (load_phdrs file)) (- 1) \<and> length gs = length args \<and>
     holds (ev_mmu ev) (ev_mem ev) sp (concat (map bytes4 (arg_words os elf (ev_h ev) gs lc salt foo))) \<and>
     (\<forall>i < length args. holds (ev_mmu ev) (ev_mem ev) (gs ! i) (cstr_bytes (args ! i))) \<and>
     holds (ev_mmu ev) (ev_mem ev) lc (cstr_bytes ''LC_ALL=C'') \<and> holds (ev_mmu ev) (ev_mem ev) salt auxv_salt)"

definition guest_starts ::
  "('h, 'x) boot_scheme \<Rightarrow> ('h \<Rightarrow> uptr \<Rightarrow> bool) \<Rightarrow> u8 list \<Rightarrow> string list \<Rightarrow> exec_state \<Rightarrow> 'h env \<Rightarrow> bool" where
  "guest_starts os mapped file args st ev \<longleftrightarrow>
     (let m = ev_mmu ev; cpu = x_cpu st; sp = gpr cpu 2 in
      ip cpu = e_entry (ehdr_of (take sizeof_Ehdr file)) \<and> trapno cpu = TC_NONE \<and> (\<forall>r. r \<noteq> 2 \<longrightarrow> gpr cpu r = 0) \<and>
      sp AND 15 = 0 \<and> stk_bottom \<le> unat sp \<and> x_mem st = ev_mem ev \<and>
      (\<forall>ph \<in> set (load_phdrs file). segment_at mapped file m ph ev) \<and>
      (\<forall>q. stk_bottom \<le> off m q \<and> off m q < stk_top \<longrightarrow> mapped (ev_h ev) q) \<and> args_at os file args sp ev \<and>
      proc_brk (ev_proc ev) = fold max (map (\<lambda>ph. p_vaddr ph + p_memsz ph) (load_phdrs file)) 0)"

lemma mmu_ok_window: "mmu_ok mapped m h \<Longrightarrow> window_ok m"
  by (simp add: mmu_ok_def window_ok_def)

lemma main_boot_starts:
  assumes host: "host_mm_ok os mapped" "serves_file os fd file" "reads_file os fd file" "\<forall>h. os_getcwd os h \<noteq> None" "arena_host amap"
    and eok: "elf_ok file" "\<forall>ph \<in> set (load_phdrs file). segment_hi ph \<le> stk_bottom"
    and path: "\<forall>w. fst (os_open os (hd args) 0 w) = fd" "0 \<le> sint fd" "length (hd args) < PATH_MAX"
    and args: "strs_size args + 4 * length args + 328 \<le> stk_top - stk_bottom" "\<forall>s \<in> set args. length s < 65535"
    and init: "ev_mmu ev = init_mmu" "mmu_Init os zero_base init_mmu (ev_h ev, ev_mem ev) = Inr (m, w)" "Tcache_Init amap tc = Inr tc1"
  shows "\<exists>st ev'. main_boot os zero_base amap args tc elf ev = Inr (st, ev') \<and> guest_starts os mapped file args st ev' \<and> exec_inv 0 (SetCurrent st) \<and>
    x_tc st = tc1 \<and> (\<forall>a. code_of tc1 a = None) \<and> mmu_base (ev_mmu ev') = mmu_base m"
proof -
  obtain h mem where w: "w = (h, mem)" by (cases w)
  define ev1 where "ev1 = ev\<lparr>ev_mmu := m, ev_h := h, ev_mem := mem\<rparr>"
  have "mmu_ok mapped m (fst w)" by (rule mmu_Init_ok(1) [OF host(1) init(2)])
  then have win: "window_ok (ev_mmu ev1)" using mmu_ok_window by (auto simp: ev1_def)
  obtain elf2 ev2 where b: "BootElf os (hd args) (elf, ev1) = Inr (elf2, ev2)" and st: "stack_start elf2 = of_nat stk_top"
    and i: "el_ehdr elf2 = ehdr_of (take sizeof_Ehdr file)" "el_entry elf2 = e_entry (el_ehdr elf2)"
      "load_addr elf2 = fold min (map (\<lambda>ph. p_vaddr ph - p_offset ph) (load_phdrs file)) (- 1)"
    and at: "\<forall>ph \<in> set (load_phdrs file). segment_at mapped file (ev_mmu ev1) ph ev2"
    and stk: "\<forall>q. stk_bottom \<le> off (ev_mmu ev1) q \<and> off (ev_mmu ev1) q < stk_top \<longrightarrow> mapped (ev_h ev2) q"
    and m2: "mmu_base (ev_mmu ev2) = mmu_base (ev_mmu ev1)"
    and brk: "proc_brk (ev_proc ev2) = fold max (map (\<lambda>ph. p_vaddr ph + p_memsz ph) (load_phdrs file)) 0"
    using BootElf_boots [OF host(1-3) win eok path, of elf] by blast
  have us: "unat (stack_start elf2) = stk_top" unfolding st by (simp add: stk_top_def)
  obtain cwd where cwd: "os_getcwd os (ev_h ev2) = Some cwd" using host(4) by auto
  have fit: "strs_size args + 4 * length args + 328 \<le> unat (stack_start elf2)"
    unfolding us using args(1) by (simp add: stk_top_def stk_bottom_def)
  obtain sp gs foo lc salt ev3 where a: "InitArgVectors os args (elf2, ev2) = Inr (elf2\<lparr>stack_start := sp\<rparr>, ev3)"
    and sp: "sp AND 15 = 0" "stk_top \<le> unat sp + strs_size args + 4 * length args + 328" and gs: "length gs = length args"
    and h1: "holds (ev_mmu ev2) (ev_mem ev3) sp (concat (map bytes4 (arg_words os elf2 (ev_h ev2) gs lc salt foo)))"
      "\<forall>i < length args. holds (ev_mmu ev2) (ev_mem ev3) (gs ! i) (cstr_bytes (args ! i))"
      "holds (ev_mmu ev2) (ev_mem ev3) lc (cstr_bytes ''LC_ALL=C'')" "holds (ev_mmu ev2) (ev_mem ev3) salt auxv_salt"
    and only3: "only (ev_mmu ev2) (ev_mem ev2) (ev_mem ev3) (unat sp) stk_top"
    and e3: "ev3 = ev2\<lparr>ev_mem := ev_mem ev3, ev_proc := (ev_proc ev2)\<lparr>fsroot := cwd @ ''/''\<rparr>\<rparr>"
    using InitArgVectors_layout [OF fit args(2) cwd] unfolding us by blast
  have keep: "ev_mmu ev3 = ev_mmu ev2" "ev_h ev3 = ev_h ev2" "proc_brk (ev_proc ev3) = proc_brk (ev_proc ev2)"
    by (subst e3; simp)+
  have low: "stk_bottom \<le> unat sp" using sp(2) args(1) by (simp add: stk_top_def stk_bottom_def)
  have off2: "off (ev_mmu ev2) = off (ev_mmu ev1)" by (rule window_base(2) [OF m2])
  have at3: "segment_at mapped file (ev_mmu ev2) ph ev3" if ph: "ph \<in> set (load_phdrs file)" for ph
  proof (rule segment_at_keeps)
    show "segment_at mapped file (ev_mmu ev2) ph ev2" using at ph unfolding segment_at_base [OF m2] by blast
    show "p_filesz ph \<le> p_memsz ph" using eok(1) ph by (simp add: elf_ok_def segment_ok_def Let_def)
    have "segment_hi ph \<le> stk_bottom" using eok(2) ph by blast
    then show "ev_mem ev3 q = ev_mem ev2 q" if "off (ev_mmu ev2) q < unat (p_vaddr ph) + unat (p_memsz ph)" for q
      using that low only3 unfolding only_def segment_hi_def by simp
  qed (use keep(2) in simp)
  define cpu where "cpu = init_cpu\<lparr>gpr := (gpr init_cpu)(2 := sp), ip := el_entry elf2\<rparr>"
  define st0 where "st0 = \<lparr>x_cpu = cpu, x_tc = tc1, x_mem = ev_mem ev3, is_current = False\<rparr>"
  have run: "main_boot os zero_base amap args tc elf ev = Inr (st0, ev3)"
    using init b a sp(1) by (simp add: main_boot_def w ev1_def [symmetric] InitThread_def st0_def cpu_def)
  have args_at: "args_at os file args sp ev3"
    unfolding args_at_def keep using i gs h1 by blast
  have "guest_starts os mapped file args st0 ev3"
    using args_at at3 stk brk sp(1) low i by (simp add: guest_starts_def st0_def cpu_def init_cpu_def keep Let_def off2)
  moreover have "exec_inv 0 (SetCurrent st0)" "x_tc st0 = tc1" "\<forall>a. code_of tc1 a = None"
    using Tcache_Init_ok [OF host(5) init(3)] by (simp_all add: exec_inv_def SetCurrent_def st0_def cpu_def init_cpu_def)
  moreover have "mmu_base (ev_mmu ev3) = mmu_base m" using keep(1) m2 by (simp add: ev1_def)
  ultimately show ?thesis using run by blast
qed

subsection \<open>How the program ends\<close>

lemma dbt_main_ends:
  assumes run: "dbt_main os zero_base amap aunmap run n argv tc elf ev = Some (Inr rc)"
  shows "length argv < 2 \<and> rc = 1 \<or>
    (\<exists>st ev1 k st0 ev0 st1. main_boot os zero_base amap (tl argv) tc elf ev = Inr (st, ev1) \<and>
      k < n \<and> (env_step os (run (mmu_base (ev_mmu ev1))) ^^ k) (SetCurrent st, ev1) (st0, ev0) \<and>
      run (mmu_base (ev_mmu ev1)) (st0\<lparr>x_mem := ev_mem ev0\<rparr>) = Some (Inr st1) \<and> guest_exits (x_cpu st1) rc)"
proof (cases "length argv < 2")
  case True
  then show ?thesis using run by (simp add: dbt_main_def)
next
  case False
  obtain st ev1 where b: "main_boot os zero_base amap (tl argv) tc elf ev = Inr (st, ev1)"
    using run False by (auto simp: dbt_main_def split: sum.splits)
  obtain st2 ev2 where "env_loop os (run (mmu_base (ev_mmu ev1))) n (SetCurrent st) ev1 = Some (Inr (rc, st2, ev2))"
    using run False b by (auto simp: dbt_main_def env_Execute_def split: option.splits sum.splits)
  then show ?thesis
    using b env_loop_result(1) [of os "run (mmu_base (ev_mmu ev1))" n "SetCurrent st" ev1 rc] unfolding guest_stops_def by blast
qed

subsection \<open>Properties\<close>

text \<open>
  C8. When the program's host works and the file is one that the loader accepts with segments below the stack, the
  guest starts as an executable expects it: at the entry point of the file, with the stack pointer aligned
  and inside the mapped stack and all other registers zero; every segment is in memory, also after the arguments were
  written; the arguments, the environment and the auxiliary vector are at the stack pointer, and the break is the
  end of the last segment. The execution loop's invariant holds and nothing has been translated.
\<close>

theorem main_boot_correct:
  assumes "host_mm_ok os mapped" "serves_file os fd file" "reads_file os fd file" "\<forall>h. os_getcwd os h \<noteq> None" "arena_host amap"
    and "elf_ok file" "\<forall>ph \<in> set (load_phdrs file). segment_hi ph \<le> stk_bottom"
    and "\<forall>w. fst (os_open os (hd args) 0 w) = fd" "0 \<le> sint fd" "length (hd args) < PATH_MAX"
    and "strs_size args + 4 * length args + 328 \<le> stk_top - stk_bottom" "\<forall>s \<in> set args. length s < 65535"
    and "ev_mmu ev = init_mmu" "mmu_Init os zero_base init_mmu (ev_h ev, ev_mem ev) = Inr (m, w)" "Tcache_Init amap tc = Inr tc1"
  shows "\<exists>st ev'. main_boot os zero_base amap args tc elf ev = Inr (st, ev') \<and> guest_starts os mapped file args st ev' \<and> exec_inv 0 (SetCurrent st) \<and>
    x_tc st = tc1 \<and> (\<forall>a. code_of tc1 a = None) \<and> mmu_base (ev_mmu ev') = mmu_base m"
  using assms by (rule main_boot_starts)

text \<open>
  C9. When the program returns, it is with status 1 because it was given no file, or with the status of the guest: it
  has booted, and after some number of system calls that are not exit calls, each served with the instruction pointer
  behind its \<open>ecall\<close>, the guest has stopped at an exit call whose argument is the status, or at a breakpoint or
  an illegal instruction, with status 1. This holds for any execution loop \<open>run\<close>.
\<close>

theorem dbt_main_correct:
  assumes "dbt_main os zero_base amap aunmap run n argv tc elf ev = Some (Inr rc)"
  shows "length argv < 2 \<and> rc = 1 \<or>
    (\<exists>st ev1 k st0 ev0 st1. main_boot os zero_base amap (tl argv) tc elf ev = Inr (st, ev1) \<and>
      k < n \<and> (env_step os (run (mmu_base (ev_mmu ev1))) ^^ k) (SetCurrent st, ev1) (st0, ev0) \<and>
      run (mmu_base (ev_mmu ev1)) (st0\<lparr>x_mem := ev_mem ev0\<rparr>) = Some (Inr st1) \<and> guest_exits (x_cpu st1) rc)"
  using assms by (rule dbt_main_ends)

subsection \<open>One run\<close>

definition demo_amap :: "u64 \<Rightarrow> u32 \<Rightarrow> uptr" where
  "demo_amap len prot = (if 0x10000000 < len then MAP_FAILED else if prot = PROT_RWX then 0x700000000000 else if prot = PROT_RW then 0x600000000000 else MAP_FAILED)"

definition demo_tcache :: tcache where
  "demo_tcache =
     \<lparr>tb_heap = (\<lambda>_. new_tblock), l1_cache = (\<lambda>_. 0), l1_brind_cache = (\<lambda>_. (0, 0)), tcache_map = [],
      tb_pool = \<lparr>pool = 0, pool_sz = 0, used = 0\<rparr>, code_pool = \<lparr>pool = 0, pool_sz = 0, used = 0\<rparr>, link_map = []\<rparr>"

definition demo_tcache1 :: tcache where
  "demo_tcache1 = demo_tcache\<lparr>tb_pool := \<lparr>pool = 0x600000000000, pool_sz = 0x2000000, used = 0\<rparr>,
     code_pool := \<lparr>pool = 0x700000000000, pool_sz = 0x8000000, used = 0\<rparr>\<rparr>"

lemma demo_tcache_Init: "Tcache_Init demo_amap demo_tcache = Inr demo_tcache1"
  by (simp add: Tcache_Init_def Arena_Init_def demo_tcache_def demo_tcache1_def demo_amap_def TB_POOL_SIZE_def CODE_POOL_SIZE_def
      roundup_def PROT_RW_def PROT_RWX_def MAP_FAILED_def tc_clear_def Let_def)

text \<open>The three instructions of the executable, and what they compile to.\<close>

definition demo_region :: region where
  "demo_region =
     \<lparr>rn_globals = state_info, rn_locals = [],
      rn_blocks = [\<lparr>bb_ilist = [Mov (VVReg T_I32 16) (VConst T_I32 93), Mov (VVReg T_I32 9) (VConst T_I32 7),
          Mov (VSlot True T_I32 128) (VConst T_I32 0x1005c), Hcall Id_rv32_ecall (VConst T_I32 0x73)],
        bb_succs = [], bb_preds = []\<rparr>]\<rparr>"

lemma demo_insns:
  "Decode 0x05d00893 = I_addi" "insn_rd 0x05d00893 = 17" "insn_rs1 0x05d00893 = 0" "imm_I 0x05d00893 = 93"
  "Decode 0x00700513 = I_addi" "insn_rd 0x00700513 = 10" "insn_rs1 0x00700513 = 0" "imm_I 0x00700513 = 7"
  "Decode 0x73 = I_ecall"
  by code_simp+

definition demo_translator :: "inst list \<Rightarrow> u32 \<Rightarrow> translator" where
  "demo_translator is a =
     \<lparr>t_region = \<lparr>rn_globals = state_info, rn_locals = [], rn_blocks = [\<lparr>bb_ilist = is, bb_succs = [], bb_preds = []\<rparr>]\<rparr>,
      t_bb = 0, t_ip2bb = [0x10054 \<mapsto> 0], t_control = C_NEXT, t_vmem = 0, t_insn_ip = a\<rparr>"

lemma demo_create: "qb_create (demo_translator is a) ins = demo_translator (is @ [fold_inst ins]) a"
  by (simp add: demo_translator_def qb_create_def Builder_Create_eq upd_block_def il_insert_def)

lemma demo_translate_insns:
  assumes "fetch 0 code 0x10054 = 0x05d00893" "fetch 0 code 0x10058 = 0x00700513" "fetch 0 code 0x1005c = 0x73"
  shows "TranslateInsn code (demo_translator is 0x10054) = Inr (demo_translator (is @ [Mov (VVReg T_I32 16) (VConst T_I32 93)]) 0x10058)"
    "TranslateInsn code (demo_translator is 0x10058) = Inr (demo_translator (is @ [Mov (VVReg T_I32 9) (VConst T_I32 7)]) 0x1005c)"
    "TranslateInsn code (demo_translator is 0x1005c) =
       Inr ((demo_translator (is @ [Mov (VSlot True T_I32 128) (VConst T_I32 0x1005c), Hcall Id_rv32_ecall (VConst T_I32 0x73)]) 0x10060)
         \<lparr>t_control := C_BRANCH\<rparr>)"
proof -
  have [simp]: "t_vmem (demo_translator js b) = 0" "t_insn_ip (demo_translator js b) = b"
    "(demo_translator js b)\<lparr>t_insn_ip := d\<rparr> = demo_translator js d" for js b d
    by (simp_all add: demo_translator_def)
  show "TranslateInsn code (demo_translator is 0x10054) = Inr (demo_translator (is @ [Mov (VVReg T_I32 16) (VConst T_I32 93)]) 0x10058)"
    "TranslateInsn code (demo_translator is 0x10058) = Inr (demo_translator (is @ [Mov (VVReg T_I32 9) (VConst T_I32 7)]) 0x1005c)"
    using assms
    by (simp_all add: TranslateInsn_def H_translate_def demo_insns TRANSLATOR_ArithmRI_def demo_create gprop_def vgpr_def vconst_def
        fold_inst_def folder_visit_def visit_add_def GPR_START_def is_const_def Let_def)
  have "fst (state_info ! GRID_IP) = 128" by code_simp
  then show "TranslateInsn code (demo_translator is 0x1005c) =
       Inr ((demo_translator (is @ [Mov (VSlot True T_I32 128) (VConst T_I32 0x1005c), Hcall Id_rv32_ecall (VConst T_I32 0x73)]) 0x10060)
         \<lparr>t_control := C_BRANCH\<rparr>)"
    using assms
    by (simp add: TranslateInsn_def H_translate_def demo_insns TranslateHelper_def PreSideeff_def demo_create vconst_def
        fold_inst_def folder_visit_def Let_def) (simp add: demo_translator_def)
qed

lemma demo_translate:
  assumes "fetch 0 code 0x10054 = 0x05d00893" "fetch 0 code 0x10058 = 0x00700513" "fetch 0 code 0x1005c = 0x73"
  shows "CompilerGenRegionIR code [(0x10054, 0x11000)] 0 = Inr demo_region"
proof -
  have n: "TB_MAX_INSNS = Suc (Suc (Suc 61))" by (simp add: TB_MAX_INSNS_def)
  have c: "t_control (demo_translator is a) = C_NEXT" "t_insn_ip (demo_translator is a) = a" for "is" a by (simp_all add: demo_translator_def)
  have "translate_loop TB_MAX_INSNS code 0x11000 (demo_translator [] 0x10054) =
      Inr ((demo_translator [Mov (VVReg T_I32 16) (VConst T_I32 93), Mov (VVReg T_I32 9) (VConst T_I32 7),
          Mov (VSlot True T_I32 128) (VConst T_I32 0x1005c), Hcall Id_rv32_ecall (VConst T_I32 0x73)] 0x10060)\<lparr>t_control := C_BRANCH\<rparr>)"
    unfolding n translate_loop.simps(2) by (simp add: demo_translate_insns [OF assms] c)
  then show ?thesis
    by (simp add: CompilerGenRegionIR_def Translate_def add_range_block_def new_translator_def new_region_def CreateBlock_def
        TranslateIPRange_def new_block_def) (simp add: demo_translator_def demo_region_def)
qed

lemma demo_compiles: "\<exists>xs. GenerateCode (demo_emit\<lparr>qe_segment := (0x10000, 0x1000)\<rparr>) demo_region = Inr xs"
proof -
  have "case GenerateCode (demo_emit\<lparr>qe_segment := (0x10000, 0x1000)\<rparr>) demo_region of Inr _ \<Rightarrow> True | _ \<Rightarrow> False" by code_simp
  then show ?thesis by (auto split: sum.splits)
qed

definition demo_asm :: assembler where "demo_asm xs = Inr (16, \<lambda>_ m. m)"

lemma demo_arena_host: "arena_host demo_amap"
  unfolding arena_host_def
proof (intro allI impI)
  fix len prot assume "demo_amap len prot \<noteq> MAP_FAILED"
  then have "len \<le> 0x10000000" "unat (demo_amap len prot) \<le> 0x700000000000" by (auto simp: demo_amap_def split: if_splits)
  then have "unat len \<le> 0x10000000" "unat (demo_amap len prot) \<le> 0x700000000000" by (simp_all add: word_le_nat_alt)
  then show "unat (demo_amap len prot) + unat len < 2 ^ 64" by simp
qed

lemma demo_hyps:
  "\<forall>h. os_getcwd (file_sys demo_file) h \<noteq> None" "\<forall>ph \<in> set (load_phdrs demo_file). segment_hi ph \<le> stk_bottom"
  "\<forall>w. fst (os_open (file_sys demo_file) (hd [''prog'']) 0 w) = 3" "0 \<le> sint (3 :: u32)" "length (hd [''prog'']) < PATH_MAX"
  "strs_size [''prog''] + 4 * length [''prog''] + 328 \<le> stk_top - stk_bottom" "\<forall>s \<in> set [''prog'']. length s < 65535"
  "ev_mmu demo_process = init_mmu"
  by (simp_all add: demo_phdrs segment_hi_def demo_phdr_def stk_bottom_def stk_top_def PATH_MAX_def strs_size_def demo_process_def)

lemma demo_mmu_Init:
  "mmu_Init (file_sys demo_file) True init_mmu (ev_h demo_process, ev_mem demo_process) =
     Inr (init_mmu\<lparr>used_pages := \<lambda>p. p < 65536\<rparr>, ev_h demo_process, ev_mem demo_process)"
  by (simp add: mmu_Init_def MIN_MMAP_ADDR_def PAGE_SIZE_def MarkUsedPages_eq num_pages_def ASPACE_SIZE_def PAGE_BITS_def init_mmu_def)

lemmas demo_boot = main_boot_starts [OF file_sys_ok demo_hyps(1) demo_arena_host demo_file_ok(1) demo_hyps(2-) demo_mmu_Init demo_tcache_Init,
  where elf = demo_elf]

lemma demo_code:
  assumes "guest_starts os mapped demo_file args st ev"
  shows "ip (x_cpu st) = 0x10054" "unaligned_load32 (ev_mem ev) (g2h (ev_mmu ev) 0x10054) = 0x05d00893"
    "unaligned_load32 (ev_mem ev) (g2h (ev_mmu ev) 0x10058) = 0x00700513"
    "unaligned_load32 (ev_mem ev) (g2h (ev_mmu ev) 0x1005c) = 0x73"
proof -
  show "ip (x_cpu st) = 0x10054" using assms by (simp add: guest_starts_def Let_def demo_ehdr)
  have at: "segment_at mapped demo_file (ev_mmu ev) demo_phdr ev" using assms by (simp add: guest_starts_def Let_def demo_phdrs)
  have b: "ev_mem ev (g2h (ev_mmu ev) 0x10054 + of_nat i) = demo_file ! (84 + i)" if "i < 12" for i
    using at off_g2h [of i "ev_mmu ev" "0x10054"] that by (simp add: segment_at_def demo_phdr_def Let_def)
  have g: "g2h (ev_mmu ev) 0x10058 = g2h (ev_mmu ev) 0x10054 + 4" "g2h (ev_mmu ev) 0x1005c = g2h (ev_mmu ev) 0x10054 + 8"
    by (simp_all add: g2h_def)
  have f: "demo_file ! 84 = 0x93" "demo_file ! 85 = 8" "demo_file ! 86 = 0xd0" "demo_file ! 87 = 5"
    "demo_file ! 88 = 0x13" "demo_file ! 89 = 5" "demo_file ! 90 = 0x70" "demo_file ! 91 = 0"
    "demo_file ! 92 = 0x73" "demo_file ! 93 = 0" "demo_file ! 94 = 0" "demo_file ! 95 = 0" by (simp_all add: demo_file_def)
  from b [of 0] b [of 1] b [of 2] b [of 3] show "unaligned_load32 (ev_mem ev) (g2h (ev_mmu ev) 0x10054) = 0x05d00893"
    by (simp add: unaligned_load32_def f)
  from b [of 4] b [of 5] b [of 6] b [of 7] show "unaligned_load32 (ev_mem ev) (g2h (ev_mmu ev) 0x10058) = 0x00700513"
    by (simp add: g unaligned_load32_def f add.assoc)
  from b [of 8] b [of 9] b [of 10] b [of 11] show "unaligned_load32 (ev_mem ev) (g2h (ev_mmu ev) 0x1005c) = 0x73"
    by (simp add: g unaligned_load32_def f add.assoc)
qed

lemma demo_Execute_enter:
  assumes "fetch 0 (x_mem st) 0x10054 = 0x05d00893" "fetch 0 (x_mem st) 0x10058 = 0x00700513" "fetch 0 (x_mem st) 0x1005c = 0x73"
    and "is_current st" "x_tc st = demo_tcache1" "ip (x_cpu st) = 0x10054" "gpr (x_cpu st) 0 = 0"
  shows "\<exists>c st1. Execute_enter demo_emit demo_asm 0 0 st = Inr (c, st1) \<and> x_cpu st1 = x_cpu st \<and> x_mem st1 = x_mem st"
proof -
  note t = demo_translate [OF assms(1-3)]
  obtain xs where "GenerateCode (demo_emit\<lparr>qe_segment := (0x10000, 0x1000)\<rparr>) demo_region = Inr xs" using demo_compiles by blast
  then show ?thesis using assms t
    by (simp add: Execute_enter_def Lookup_def LookupFull_def CompilerDoJob_def GetCompilationIPRange_def LookupUpperBound_def demo_asm_def
        demo_tcache1_def demo_tcache_def EmitCode_def AllocateCode_def Allocate_def AnnounceRegion_def AllocateTBlock_def
        roundup_def rounddown_def PAGE_SIZE_def sizeof_TBlock_def alignof_TBlock_def Let_def om_upper_def)
qed

lemma demo_interp:
  assumes "fetch 0 m 0x10054 = 0x05d00893" "fetch 0 m 0x10058 = 0x00700513" "fetch 0 m 0x1005c = 0x73"
    and "ip cpu = 0x10054" "gpr cpu 0 = 0"
  shows "\<exists>s. interp_region p (cpu, m) = Some (R_trap, s, m) \<and> trapno s = TC_ECALL \<and> gpr s 17 = 93 \<and> gpr s 10 = 7"
proof -
  have n: "interp_run 0 m 4 = interp_run 0 m (Suc (Suc (Suc 1)))" by (simp add: numeral_eq_Suc)
  have "\<exists>s. interp_run 0 m 4 cpu 0x10054 m = Trapped s m \<and> trapno s = TC_ECALL \<and> gpr s 17 = 93 \<and> gpr s 10 = 7"
    using assms unfolding n by (simp add: interp_code_step_def H_handler_def Impl_defs demo_insns RAISE_TRAP_def)
  then show ?thesis using assms(4) by (auto simp: interp_region_def)
qed

theorem main_boot_correct_witness:
  "\<exists>st ev'. main_boot (file_sys demo_file) True demo_amap [''prog''] demo_tcache demo_elf demo_process = Inr (st, ev') \<and>
     ip (x_cpu st) = 0x10054 \<and> unaligned_load32 (ev_mem ev') (g2h (ev_mmu ev') 0x1005c) = 0x73 \<and> exec_inv 0 (SetCurrent st)"
  using main_boot_correct [OF file_sys_ok demo_hyps(1) demo_arena_host demo_file_ok(1) demo_hyps(2-) demo_mmu_Init demo_tcache_Init,
      of demo_elf] demo_code(1,4) by blast

text \<open>
  The executable of three instructions is booted, translated and compiled, and interpreted where the host would run it:
  the program ends with the argument of its exit call.
\<close>

definition demo_Execute :: "uptr \<Rightarrow> exec_state \<Rightarrow> exec_state res option" where
  "demo_Execute base = Execute demo_emit demo_asm interp_region base 2 0"

lemma demo_exits:
  "dbt_main (file_sys demo_file) True demo_amap (\<lambda>_ _. 0) demo_Execute 1
     [''rv32jit'', ''prog''] demo_tcache demo_elf demo_process = Some (Inr 7)"
proof -
  obtain st ev where b: "main_boot (file_sys demo_file) True demo_amap [''prog''] demo_tcache demo_elf demo_process = Inr (st, ev)"
    and g: "guest_starts (file_sys demo_file) log_mapped demo_file [''prog''] st ev" "x_tc st = demo_tcache1" "mmu_base (ev_mmu ev) = 0"
    using demo_boot by auto
  let ?st = "SetCurrent st"
  have s: "trapno (x_cpu ?st) = TC_NONE" "gpr (x_cpu ?st) 0 = 0" "x_mem ?st = ev_mem ev" "is_current ?st" "x_tc ?st = demo_tcache1" "ip (x_cpu ?st) = 0x10054"
    using g(1,2) demo_code(1) [OF g(1)] by (simp_all add: guest_starts_def Let_def SetCurrent_def)
  have f: "fetch 0 (x_mem ?st) 0x10054 = 0x05d00893" "fetch 0 (x_mem ?st) 0x10058 = 0x00700513" "fetch 0 (x_mem ?st) 0x1005c = 0x73"
    using demo_code(2-4) [OF g(1)] g(3) s(3) by (simp_all add: fetch_def g2h_def)
  obtain c st1 where e: "Execute_enter demo_emit demo_asm 0 0 ?st = Inr (c, st1)" "x_cpu st1 = x_cpu ?st" "x_mem st1 = x_mem ?st"
    using demo_Execute_enter [OF f s(4,5,6,2)] by blast
  obtain cpu where i: "interp_region c (x_cpu st1, x_mem st1) = Some (R_trap, cpu, x_mem ?st)"
    "trapno cpu = TC_ECALL" "gpr cpu 17 = 93" "gpr cpu 10 = 7"
    using demo_interp [OF f s(6,2)] unfolding e(2,3) by blast
  have x: "demo_Execute 0 ?st = Some (Inr (st1\<lparr>x_cpu := cpu, x_mem := x_mem ?st\<rparr>))"
    using s(1) e i by (simp add: demo_Execute_def numeral_2_eq_2 HandleTrap_def IsTrapPending_def)
  have st: "?st\<lparr>x_mem := ev_mem ev\<rparr> = ?st" using s(3) by simp
  have "guest_exits cpu 7" using i by (simp add: guest_exits_def)
  then have "guest_stops (demo_Execute 0) ?st ev 7" unfolding guest_stops_def st using x by auto
  then obtain st2 ev2 where r: "env_loop (file_sys demo_file) (demo_Execute 0) 1 ?st ev = Some (Inr (7, st2, ev2))"
    using env_loop_result(1) [of "file_sys demo_file" "demo_Execute 0" 1 ?st ev 7] by fastforce
  have "\<exists>a'. Arena_Destroy (\<lambda>_ _. 0) a = Inr a'" for a by (simp add: Arena_Destroy_def)
  then have "\<exists>tc'. Tcache_Destroy (\<lambda>_ _. 0) (x_tc st2) = Inr tc'" unfolding Tcache_Destroy_def rbind_eq_Inr by blast
  then obtain tc' where t: "Tcache_Destroy (\<lambda>_ _. 0) (x_tc st2) = Inr tc'" by blast
  obtain w' where d: "mmu_Destroy (file_sys demo_file) (ev_mmu ev2) (ev_h ev2, ev_mem ev2) = Inr w'"
    by (simp add: mmu_Destroy_def log_host_def)
  show ?thesis using b g(3) r t d by (simp add: dbt_main_def env_Execute_def del: env_loop.simps)
qed

theorem dbt_main_correct_witness:
  "\<exists>st ev1 k st0 ev0 st1. main_boot (file_sys demo_file) True demo_amap [''prog''] demo_tcache demo_elf demo_process = Inr (st, ev1) \<and>
     k < 1 \<and> (env_step (file_sys demo_file) (demo_Execute (mmu_base (ev_mmu ev1))) ^^ k) (SetCurrent st, ev1) (st0, ev0) \<and>
     demo_Execute (mmu_base (ev_mmu ev1)) (st0\<lparr>x_mem := ev_mem ev0\<rparr>) = Some (Inr st1) \<and> guest_exits (x_cpu st1) 7"
  using dbt_main_correct [OF demo_exits] by simp

end
