(* ===== verification/Marker.thy ===== *)
theory Marker
  imports Prelude
begin

section \<open>Marks on nodes: ir/marker.h\<close>

text \<open>
  A marker gives every node of a graph a state, without clearing the states of the marker before it:
  each marker takes the next range of 16-bit marks from the keeper, and marks below its range read as
  state 0. States are natural numbers; \<open>marks\<close> is \<open>GetMark\<close> of every node.
\<close>

subsection \<open>Operations\<close>

record marks =
  mk_min :: u16
  mk_max :: u16

definition new_keeper :: marks where
  "new_keeper = \<lparr>mk_min = 0, mk_max = 0\<rparr>"

text \<open>The marker and the keeper afterwards, which hold the same range.\<close>

definition Marker_new :: "u8 \<Rightarrow> marks \<Rightarrow> marks \<times> marks" where
  "Marker_new states keeper =
     (let k = \<lparr>mk_min = mk_max keeper, mk_max = mk_max keeper + ucast states\<rparr> in (k, k))"

definition Marker_Get :: "marks \<Rightarrow> ('n \<Rightarrow> u16) \<Rightarrow> 'n \<Rightarrow> u16 res" where
  "Marker_Get mk marks n =
     (let m = marks n in
      if \<not> m < mk_max mk then Inl AssertFail
      else if m < mk_min mk then Inr 0
      else Inr (m - mk_min mk))"

text \<open>The sum in the assertion is an \<open>int\<close> and does not wrap.\<close>

definition Marker_Set :: "marks \<Rightarrow> 'n \<Rightarrow> u16 \<Rightarrow> ('n \<Rightarrow> u16) \<Rightarrow> ('n \<Rightarrow> u16) res" where
  "Marker_Set mk n m marks =
     (if \<not> marks n < mk_max mk then Inl AssertFail
      else if \<not> unat m + unat (mk_min mk) < unat (mk_max mk) then Inl AssertFail
      else Inr (marks(n := m + mk_min mk)))"

subsection \<open>A marker behaves like a fresh map to states\<close>

text \<open>The state of a node, and that all marks are in the keeper's range.\<close>

definition state_of :: "marks \<Rightarrow> ('n \<Rightarrow> u16) \<Rightarrow> 'n \<Rightarrow> nat" where
  "state_of mk marks n = (if marks n < mk_min mk then 0 else unat (marks n) - unat (mk_min mk))"

definition marks_ok :: "marks \<Rightarrow> ('n \<Rightarrow> u16) \<Rightarrow> bool" where
  "marks_ok mk marks \<longleftrightarrow> (\<forall>n. marks n < mk_max mk)"

lemma unat_states: "unat (ucast (states :: u8) :: u16) = unat states"
proof -
  have "unat states < 2 ^ 16" using unsigned_less [of states, where 'a = nat] by simp
  then show ?thesis by (simp add: unsigned_ucast_eq take_bit_nat_eq_self)
qed

lemma Marker_new_fresh:
  assumes "marks_ok keeper marks \<or> (\<forall>n. marks n = 0)" "0 < states" "unat (mk_max keeper) + unat states < 2 ^ 16"
    and "Marker_new states keeper = (mk, keeper')"
  shows "marks_ok mk marks" "state_of mk marks n = 0" "unat (mk_max mk) = unat (mk_min mk) + unat states" "keeper' = mk"
proof -
  have mk: "mk = \<lparr>mk_min = mk_max keeper, mk_max = mk_max keeper + ucast states\<rparr>" "keeper' = mk"
    using assms(4) by (auto simp: Marker_new_def Let_def)
  show m: "unat (mk_max mk) = unat (mk_min mk) + unat states" using assms(3) by (simp add: mk unat_states unat_word_ariths)
  have "0 < unat states" using assms(2) by (simp add: word_less_nat_alt)
  moreover have "unat (marks n) \<le> unat (mk_min mk)" for n
    using assms(1) by (auto simp: marks_ok_def mk(1) word_less_nat_alt intro: less_imp_le)
  ultimately have "unat (marks n) < unat (mk_max mk) \<and> unat (marks n) \<le> unat (mk_min mk)" for n
    unfolding m by (metis add_strict_increasing2 add.commute le_less_trans less_add_same_cancel1)
  then show "marks_ok mk marks" "state_of mk marks n = 0" by (simp_all add: marks_ok_def state_of_def word_less_nat_alt)
  show "keeper' = mk" by (rule mk(2))
qed

lemma Marker_Get_state:
  assumes "marks_ok mk marks"
  shows "\<exists>s. Marker_Get mk marks n = Inr s \<and> unat s = state_of mk marks n"
proof -
  have "marks n < mk_max mk" using assms by (simp add: marks_ok_def)
  then show ?thesis by (cases "marks n < mk_min mk") (simp_all add: Marker_Get_def state_of_def Let_def unat_sub)
qed

lemma Marker_Set_state:
  assumes "marks_ok mk marks"
  shows "if unat m + unat (mk_min mk) < unat (mk_max mk)
    then \<exists>marks'. Marker_Set mk n m marks = Inr marks' \<and> marks_ok mk marks' \<and> state_of mk marks' = (state_of mk marks)(n := unat m)
    else Marker_Set mk n m marks = Inl AssertFail"
proof (cases "unat m + unat (mk_min mk) < unat (mk_max mk)")
  case True
  then have "unat (m + mk_min mk) = unat m + unat (mk_min mk)"
    using unsigned_less [of "mk_max mk", where 'a = nat] by (simp add: unat_word_ariths)
  then have "marks_ok mk (marks(n := m + mk_min mk)) \<and> state_of mk (marks(n := m + mk_min mk)) = (state_of mk marks)(n := unat m)"
    using assms True by (auto simp: marks_ok_def state_of_def word_less_nat_alt)
  then show ?thesis using assms True by (simp add: Marker_Set_def marks_ok_def)
qed (use assms in \<open>auto simp: Marker_Set_def marks_ok_def\<close>)

text \<open>When the marks are used up the range wraps, and the new marker rejects every \<open>Set\<close>.\<close>

lemma Marker_new_wraps:
  assumes "2 ^ 16 \<le> unat (mk_max keeper) + unat states" "Marker_new states keeper = (mk, keeper')"
  shows "Marker_Set mk n m marks = Inl AssertFail"
proof -
  have mk: "mk = \<lparr>mk_min = mk_max keeper, mk_max = mk_max keeper + ucast states\<rparr>"
    using assms(2) by (auto simp: Marker_new_def Let_def)
  have "unat (mk_max mk) = unat (mk_max keeper) + unat states - 2 ^ 16"
    using assms(1) unsigned_less [of "mk_max keeper", where 'a = nat] unsigned_less [of states, where 'a = nat]
    by (simp add: mk unat_states unat_word_ariths mod_if)
  then have "unat (mk_max mk) \<le> unat (mk_min mk)" using unsigned_less [of states, where 'a = nat] by (simp add: mk)
  then show ?thesis by (simp add: Marker_Set_def)
qed

end
