(* ===== verification/Runtime_Stubs.thy ===== *)
theory Runtime_Stubs
  imports Qir
begin

section \<open>The table of runtime stubs: runtime_stubs.h, runtime_stubs.cpp\<close>

text \<open>
  Every CPU state has a copy of a table with the address of each stub, which translated code reads at the
  offset of the stub. \<open>qcgstub\<close> gives the addresses of the functions.
\<close>

fun stub_index :: "stub_id \<Rightarrow> nat" where
  "stub_index Id_escape_link = 0"
| "stub_index Id_escape_brind = 1"
| "stub_index Id_link_branch_jit = 2"
| "stub_index Id_brind = 3"
| "stub_index Id_raise = 4"
| "stub_index Id_rv32_fence = 5"
| "stub_index Id_rv32_fencei = 6"
| "stub_index Id_rv32_ecall = 7"
| "stub_index Id_rv32_ebreak = 8"

definition RuntimeStubId_Count :: nat where "RuntimeStubId_Count = 9"

definition RUNTIME_STUBS :: "stub_id list" where
  "RUNTIME_STUBS = [Id_escape_link, Id_escape_brind, Id_link_branch_jit, Id_brind, Id_raise,
     Id_rv32_fence, Id_rv32_fencei, Id_rv32_ecall, Id_rv32_ebreak]"

text \<open>An array that is filled entry by entry.\<close>

definition RuntimeStubTab_Create :: "(stub_id \<Rightarrow> uptr) \<Rightarrow> uptr list" where
  "RuntimeStubTab_Create qcgstub =
     fold (\<lambda>sid tab. tab[stub_index sid := qcgstub sid]) RUNTIME_STUBS (replicate RuntimeStubId_Count 0)"

definition RuntimeStubTab_at :: "uptr list \<Rightarrow> stub_id \<Rightarrow> uptr" where
  "RuntimeStubTab_at tab sid = tab ! stub_index sid"

definition RuntimeStubTab_offs :: "stub_id \<Rightarrow> u64" where
  "RuntimeStubTab_offs sid = 8 * of_nat (stub_index sid)"

text \<open>The table has the address of every stub at its index, and offsets of different stubs are apart.\<close>

lemma RuntimeStubTab_Create_at:
  "length (RuntimeStubTab_Create f) = RuntimeStubId_Count" "RuntimeStubTab_at (RuntimeStubTab_Create f) sid = f sid"
  "stub_index sid < RuntimeStubId_Count" "RUNTIME_STUBS ! stub_index sid = sid"
  by (cases sid; simp add: RuntimeStubTab_Create_def RuntimeStubTab_at_def RUNTIME_STUBS_def RuntimeStubId_Count_def)+

lemma RuntimeStubTab_offs_bound:
  "unat (RuntimeStubTab_offs sid) + 8 \<le> 8 * RuntimeStubId_Count" "RuntimeStubTab_offs sid = RuntimeStubTab_offs sid' \<longleftrightarrow> sid = sid'"
  by (cases sid; simp add: RuntimeStubTab_offs_def RuntimeStubId_Count_def) (cases sid; cases sid'; simp add: RuntimeStubTab_offs_def)

end
