(* ===== verification/Spec2Isabelle.thy ===== *)
theory Spec2Isabelle
  imports Rv32_Asm Indirect_Branch Trampoline Boot Marker Runtime_Stubs
begin

text \<open>
  Verification of rv32jit, a user-mode emulator for RV32I that translates guest code to host code.

  \<^bold>\<open>The program.\<close> \<open>main\<close> (\<open>src/main.cpp\<close>) reserves the guest's address space (\<open>src/mmu.h\<close>, \<open>src/mmu.cpp\<close>), loads an
  ELF file, builds the guest's stack and runs it; the guest's system calls are carried out on the host
  (\<open>src/env.cpp\<close>, \<open>src/syscalls.h\<close>). Guest code is run block by block. \<open>Execute\<close> (\<open>src/execute.cpp\<close>) looks the guest
  instruction pointer up in the translation cache (\<open>src/tcache.h\<close>, \<open>src/tcache.cpp\<close>). When there is no
  block it compiles one (\<open>src/ir/compile.cpp\<close>): the translator (\<open>src/guest/rv32_qir.cpp\<close>) decodes guest
  instructions (\<open>src/guest/rv32_decode.h\<close>) and emits an intermediate representation (\<open>src/ir/\<close>), from which
  \<open>src/codegen/\<close> makes host code. Translated code leaves a region through branch slots that are
  patched to jump to the next region (\<open>src/codegen/jitabi.h\<close>), through stubs
  (\<open>src/codegen/jitabi.cpp\<close>), or by a trap. Instructions that trap are executed by the interpreter's
  handlers (\<open>src/guest/rv32_interp.cpp\<close>), and \<open>env::Execute\<close> turns the trap of \<open>ecall\<close> into a system call. Blocks, code and IR live in arenas (\<open>src/arena.h\<close>); IR lists are
  intrusive lists (\<open>src/util/ilist.h\<close>).

  \<^bold>\<open>The theories.\<close>
  \<^item> Prelude: machine integers as words, faults (\<open>Panic\<close>, failed assertion, undefined behaviour) as
    values, \<open>roundup\<close> and \<open>rounddown\<close>, unaligned accesses (\<open>src/util/common.h\<close>).
  \<^item> Bitfield: \<open>bf_range\<close> and \<open>bf_seq\<close> (\<open>src/util/bitfield.h\<close>), with their meaning on bits.
  \<^item> Rv32_Insn: operations, formats, flags, field accessors and the decoder. Rv32_Asm: an encoder
    written from the RISC-V manual, and that decoding inverts it.
  \<^item> Rv32_Interp: the CPU state and every handler of the interpreter; that \<open>x0\<close> stays zero, that the
    instruction pointer stays aligned, and that arithmetic is the ISA's.
  \<^item> Qir: packed operands (with the interface of their accessors as a locale), instructions, blocks,
    regions. Qir_Sem: the meaning of the IR over virtual registers and guest memory, which the code
    leaves implicit in its emitter. Qir_Opt: the builder and the constant folder.
  \<^item> Rv32_Qir: the translator. Rv32_Qir_Correct: each instruction's IR does what its handler does, and
    so does a translated range. Rv32_Region: whole regions, and where translation and interpretation
    differ.
  \<^item> Arch_Traits: the description of the host (\<open>src/codegen/arch_traits.h\<close>, \<open>.cpp\<close>): registers, operand
    constraints, encodable constants. Qir_Wf: the typing of IR that the back end assumes, and which
    rv32_qir produces (Rv32_Wf, with Select_Cost bounding the registers that selection adds).
  \<^item> Select: instruction selection (\<open>src/codegen/select.cpp\<close>). Mir_Sem: the meaning of IR over physical
    registers, the spill frame and the CPU state in memory. Regalloc: register allocation
    (\<open>src/codegen/regalloc.cpp\<close>); Regalloc_Correct and Regalloc_Region: its invariant and simulation.
    Backend: the passes in the order of \<open>src/codegen/qcg.cpp\<close>, composed with the translator.
  \<^item> X86: the host instructions that the emitter uses, with the processor's registers, flags, memory and
    calls. Emit: the emitter (\<open>src/codegen/emit.h\<close>, \<open>.cpp\<close>) and the code generator, instruction by
    instruction. Emit_Mem: the areas of host memory that translated code works on. Emit_Correct,
    Emit_Exit, Emit_Region: the emitted code simulates allocated code, per instruction, at the exits,
    and for whole programs with their labels. Codegen: \<open>GenerateCode\<close> succeeds on every translated range.
    Codegen_Correct: host code does what the interpreter does. Indirect_Branch: where indirect
    branches of host code go, together with the translation cache.
  \<^item> Arena: the bump allocator and the locale of its interface. Ilist: the linked list refines a
    sequence. Ordered_Map: \<open>std::map\<close> and \<open>std::multimap\<close> as sorted association lists, with the locale of
    the interface.
  \<^item> Branch_Slot: the bytes of a branch slot and what the processor does there. Tcache: the translation
    cache, its invariant, and the abstract map from guest addresses to code it implements. Execute: the
    compiler driver, the execution loop, the stubs, and how translated code runs between them. Trampoline: the assembly that enters and leaves
    translated code (\<open>trampoline_to_jit\<close>, the escape stubs, the linking stub), instruction by instruction.
    Runtime_Stubs: the table of stubs. Marker: marks on nodes (\<open>src/ir/marker.h\<close>, unused).
  \<^item> Mmu: the guest's window in host memory, the bitmap of used pages, \<open>mmu::mmap\<close>, \<open>Init\<close> and \<open>Destroy\<close>, with
    what the host's manual promises of \<open>mmap\<close> and \<open>munmap\<close> (\<open>host_mm_ok\<close>). Syscalls: the list of system
    calls. Env: every system call handler, path resolution, dispatch and the outer loop; Env_Correct:
    their properties, those of the loop over a step relation for one served call.
  \<^item> Elf: the loader, the initial stack and the first thread. Elf_Stack: the guest's memory as bytes at
    offsets and the layout of the stack. Elf_Correct: mappings at fixed addresses, segments, files. Boot:
    \<open>main\<close>, the state the guest starts in and the status the program ends with.

  \<^bold>\<open>Main results.\<close> The host code that is generated for a range of guest code refines the interpreter,
  from the machine state at its entry to its exits, traps included, and never touches host memory
  that is not its own; so do the translated region and its allocated code on the way; generation
  never fails on what the translator produces. These exclude two faults of the code: ranges with a load to \<open>x0\<close> with
  zero offset, which is mistranslated (\<open>no_clobber\<close>, \<open>load_x0_clobbers_base\<close>), and guest states from which the
  interpreter traps on a misaligned jump, which translated code does not check (\<open>unaligned_within\<close>). Every entry into translated code is into
  the code of the guest instruction pointer; an indirect branch of host code
  jumps to the code that the translation cache has for its target; the execution loop's assertions hold; lookup through the direct-mapped caches equals lookup in
  the map; a patched slot jumps where it should; decoding inverts the manual's encoding. The trampoline
  hands translated code the machine state that the code generator's theorem assumes, and the escape
  stubs give the caller its registers back. The guest starts at the file's entry point with its
  segments, arguments and stack in memory; a system call changes the result register only; mapping
  memory never takes what is in use, unless at a fixed address; the program's exit status is the argument of
  the guest's exit call.

  \<^bold>\<open>Fuel.\<close> \<open>exec_region\<close> and \<open>Execute\<close> take a bound on the number of blocks entered, \<open>run_jit\<close> one on the number of
  lookups, and \<open>env_Execute\<close> one on the number of system calls, because guest code may loop. The region theorem covers running out of fuel:
  then the interpreter has executed at least as many instructions. A range is at most \<open>TB_MAX_INSNS\<close> = 64
  instructions, which also bounds the virtual registers, so that their 16-bit numbers do not wrap. All
  other loops are total functions, the search for free pages included.

  \<^bold>\<open>Parameters.\<close> The calls into the host (the records \<open>host\<close>, \<open>sys\<close> and \<open>boot\<close>: functions from the host's state and
  memory to a result and a new state), the assembler (\<open>assembler\<close>: from host instructions to bytes), what the processor does
  with translated code between two lookups of the execution loop's model (\<open>host_code\<close>), and what calls leave in clobbered
  registers and on the stack (\<open>xenv\<close>) are arguments of the definitions that use them. What the code relies
  on is stated as predicates: \<open>host_mm_ok\<close> for memory mappings, \<open>serves_file\<close> and \<open>reads_file\<close> for the guest's
  executable, \<open>arena_host\<close> for the arenas, \<open>keeps_x0\<close> for translated code in the execution loop (shown of generated code by
  \<open>machine_code_keeps_x0\<close>); each has a model.

  \<^bold>\<open>Not modelled.\<close> The encoding of host instructions as bytes (a library, except for branch slots), the
  registration of signal handlers, printing, the STL adapter of the arena, instruction ids, and faults of the
  host on unmapped guest pages. Self-modifying guest code is outside the region
  theorem: translated code is compared with the code that was in memory when it was translated.
\<close>

end
